(* ===== verification/Prelude.thy ===== *)
theory Prelude
  imports "HOL-Library.Word" "HOL-Library.State_Monad"
begin

text \<open>
  What every component shares: names for the machine integers, the ESP-IDF error codes as a
  datatype, the state monad of the library with short names, the loop shapes of the C sources,
  and the frames of that monad: preorders on states that programs move along, with one rule per
  construct, as a locale.
  Generic lemmas on lists, words and byte strings are at the end.
\<close>

unbundle bit_operations_syntax

type_synonym u8 = "8 word"
type_synonym u16 = "16 word"
type_synonym u32 = "32 word"
type_synonym u64 = "64 word"

text \<open>\<open>esp_err_t\<close>: the codes the sources return or compare with. They are values of the
  vendor's header; only their identity matters.\<close>

datatype esp_err =
    ESP_OK | ESP_FAIL | ESP_ERR_NO_MEM | ESP_ERR_INVALID_ARG | ESP_ERR_INVALID_STATE
  | ESP_ERR_NOT_FOUND | ESP_ERR_NOT_SUPPORTED | ESP_ERR_TIMEOUT | ESP_ERR_INVALID_CRC
  | ESP_ERR_INVALID_SIZE

section \<open>The state monad\<close>

abbreviation ret :: "'a \<Rightarrow> ('s, 'a) state" where
  "ret \<equiv> State_Monad.return"

abbreviation skip :: "('s, unit) state" where
  "skip \<equiv> State_Monad.return ()"

definition gets :: "('s \<Rightarrow> 'a) \<Rightarrow> ('s, 'a) state" where
  "gets f = State (\<lambda>s. (f s, s))"

definition modify :: "('s \<Rightarrow> 's) \<Rightarrow> ('s, unit) state" where
  "modify f = State (\<lambda>s. ((), f s))"

abbreviation run :: "('s, 'a) state \<Rightarrow> 's \<Rightarrow> 'a \<times> 's" where
  "run \<equiv> run_state"

definition result :: "('s, 'a) state \<Rightarrow> 's \<Rightarrow> 'a" where
  "result m s = fst (run m s)"

definition final :: "('s, 'a) state \<Rightarrow> 's \<Rightarrow> 's" where
  "final m s = snd (run m s)"

lemma run_gets [simp]: "run (gets f) s = (f s, s)"
  by (simp add: gets_def)

lemma run_modify [simp]: "run (modify f) s = ((), f s)"
  by (simp add: modify_def)

lemma run_bind [simp]: "run (m \<bind> f) s = (case run m s of (r, s') \<Rightarrow> run (f r) s')"
  by (simp add: State_Monad.bind_def)

text \<open>\<open>if (e) \<open>{ ... }\<close>\<close> without an \<open>else\<close>.\<close>

definition if_do :: "bool \<Rightarrow> ('s, unit) state \<Rightarrow> ('s, unit) state" where
  "if_do b m = (if b then m else skip)"

text \<open>\<open>for (...) body\<close> over a list of loop indices.\<close>

primrec for_each :: "('x \<Rightarrow> ('s, unit) state) \<Rightarrow> 'x list \<Rightarrow> ('s, unit) state" where
  "for_each f [] = skip"
| "for_each f (x # xs) = do { f x; for_each f xs }"

text \<open>A loop, or a chain of \<open>||\<close> conditions, that stops at the first call that does not
  return \<open>ESP_OK\<close> and returns its code.\<close>

primrec for_ok :: "('x \<Rightarrow> ('s, esp_err) state) \<Rightarrow> 'x list \<Rightarrow> ('s, esp_err) state" where
  "for_ok f [] = ret ESP_OK"
| "for_ok f (x # xs) = do {
     err \<leftarrow> f x;
     if err \<noteq> ESP_OK then ret err else for_ok f xs }"

lemma for_ok_map: "for_ok f (map g xs) = for_ok (\<lambda>x. f (g x)) xs"
  by (induction xs) (simp_all cong: if_cong)

lemma run_fst: "fst (run m s) = r \<Longrightarrow> run m s = (r, final m s)"
  by (auto simp: final_def)

text \<open>A loop that carries local variables (an accumulator) from one round to the next.\<close>

primrec for_acc :: "('x \<Rightarrow> 'a \<Rightarrow> ('s, 'a) state) \<Rightarrow> 'x list \<Rightarrow> 'a \<Rightarrow> ('s, 'a) state" where
  "for_acc f [] a = ret a"
| "for_acc f (x # xs) a = do { a' \<leftarrow> f x a; for_acc f xs a' }"

section \<open>Frames\<close>

text \<open>\<open>rel R m\<close>: whatever the state, running \<open>m\<close> moves it along \<open>R\<close>. Programs of this monad always
  return, so this is a statement of total correctness. \<open>R\<close> is mostly a preorder ("the log grew by
  allowed words", "nothing but the link changed", "no loop gave up"), and then the statement
  follows the structure of the program; the rules of the locale say how, one per construct, and
  every preorder of the development interprets it.\<close>

definition rel :: "('s \<Rightarrow> 's \<Rightarrow> bool) \<Rightarrow> ('s, 'r) state \<Rightarrow> bool" where
  "rel R m \<longleftrightarrow> (\<forall>s. R s (snd (run m s)))"

lemma relD: "rel R m \<Longrightarrow> run m s = (r, s') \<Longrightarrow> R s s'"
  unfolding rel_def by (metis snd_conv)

lemma relI: "(\<And>s r s'. run m s = (r, s') \<Longrightarrow> R s s') \<Longrightarrow> rel R m"
  unfolding rel_def by (metis surj_pair snd_conv)

lemma rel_mono: "rel R m \<Longrightarrow> (\<And>s s'. R s s' \<Longrightarrow> Q s s') \<Longrightarrow> rel Q m"
  by (simp add: rel_def)

lemma rel_final: "rel R m \<Longrightarrow> R s (final m s)"
  by (simp add: rel_def final_def)

locale preorder_frame =
  fixes R :: "'s \<Rightarrow> 's \<Rightarrow> bool"
  assumes R_refl: "R s s"
    and R_trans: "R s s' \<Longrightarrow> R s' s'' \<Longrightarrow> R s s''"
begin

lemma bind: "rel R m \<Longrightarrow> (\<And>x. rel R (f x)) \<Longrightarrow> rel R (m \<bind> f)"
  unfolding rel_def by (auto split: prod.split) (metis R_trans snd_conv)

lemma return: "rel R (ret x)"
  by (simp add: rel_def R_refl)

lemma get: "rel R (gets f)"
  by (simp add: rel_def R_refl)

lemma if_then_else: "(b \<Longrightarrow> rel R m) \<Longrightarrow> (\<not> b \<Longrightarrow> rel R n) \<Longrightarrow> rel R (if b then m else n)"
  by simp

lemma if_then: "(b \<Longrightarrow> rel R m) \<Longrightarrow> rel R (if_do b m)"
  by (simp add: if_do_def return)

lemma let_in: "rel R (f x) \<Longrightarrow> rel R (Let x f)"
  by simp

lemma case_prod: "(\<And>a b. rel R (f a b)) \<Longrightarrow> rel R (case p of (a, b) \<Rightarrow> f a b)"
  by (cases p) simp

lemma case_option: "rel R m \<Longrightarrow> (\<And>a. rel R (f a)) \<Longrightarrow> rel R (case x of None \<Rightarrow> m | Some a \<Rightarrow> f a)"
  by (cases x) simp_all

lemma case_list: "rel R m \<Longrightarrow> (\<And>a as. rel R (f a as)) \<Longrightarrow> rel R (case x of [] \<Rightarrow> m | a # as \<Rightarrow> f a as)"
  by (cases x) simp_all

lemma loop_each: "(\<And>x. x \<in> set xs \<Longrightarrow> rel R (f x)) \<Longrightarrow> rel R (for_each f xs)"
  by (induction xs) (auto intro!: return bind)

lemma loop_ok: "(\<And>x. x \<in> set xs \<Longrightarrow> rel R (f x)) \<Longrightarrow> rel R (for_ok f xs)"
  by (induction xs) (auto intro!: return bind if_then_else)

lemma loop_acc: "(\<And>x a. x \<in> set xs \<Longrightarrow> rel R (f x a)) \<Longrightarrow> rel R (for_acc f xs a)"
  by (induction xs arbitrary: a) (auto intro!: return bind)

lemmas rules = bind return get if_then_else if_then let_in case_prod case_option case_list
  loop_each loop_ok loop_acc

end

section \<open>Words and bytes\<close>

text \<open>Little-endian 32-bit words, as \<open>le32\<close> in \<open>tricore_ucb.c\<close> and
  \<open>tricore_flash_loader.c\<close> assembles them.\<close>

definition word32_of_bytes :: "u8 \<Rightarrow> u8 \<Rightarrow> u8 \<Rightarrow> u8 \<Rightarrow> u32" where
  "word32_of_bytes b0 b1 b2 b3 =
     ucast b0 OR push_bit 8 (ucast b1) OR push_bit 16 (ucast b2) OR push_bit 24 (ucast b3)"

lemma ucast_u32_u64 [simp]: "(ucast (ucast (w :: u32) :: u64) :: u32) = w"
  by (rule bit_word_eqI) (auto simp: bit_simps)

definition byte_of_word32 :: "u32 \<Rightarrow> nat \<Rightarrow> u8" where
  "byte_of_word32 w k = ucast (drop_bit (8 * k) w)"

lemma bit_word32_of_bytes:
  "bit (word32_of_bytes b0 b1 b2 b3) n =
     (if n < 8 then bit b0 n else if n < 16 then bit b1 (n - 8)
      else if n < 24 then bit b2 (n - 16) else if n < 32 then bit b3 (n - 24) else False)"
  by (auto simp: word32_of_bytes_def bit_simps dest: bit_imp_le_length)

lemma bit_byte_of_word32: "bit (byte_of_word32 w k) n = (n < 8 \<and> bit w (8 * k + n))"
  by (auto simp: byte_of_word32_def bit_simps)

lemma byte_of_word32_of_bytes [simp]:
  "byte_of_word32 (word32_of_bytes b0 b1 b2 b3) 0 = b0"
  "byte_of_word32 (word32_of_bytes b0 b1 b2 b3) (Suc 0) = b1"
  "byte_of_word32 (word32_of_bytes b0 b1 b2 b3) 2 = b2"
  "byte_of_word32 (word32_of_bytes b0 b1 b2 b3) 3 = b3"
  by (rule bit_word_eqI; simp add: bit_byte_of_word32 bit_word32_of_bytes)+

section \<open>Alignment\<close>

lemma unat_align: "unat (a AND NOT (mask n) :: 'a::len word) = unat a div 2 ^ n * 2 ^ n"
proof -
  have "a AND NOT (mask n) = push_bit n (drop_bit n a)"
    by (rule bit_word_eqI) (auto simp: bit_simps bit_mask_iff)
  moreover have "unat (push_bit n (drop_bit n a)) = unat a div 2 ^ n * 2 ^ n"
  proof -
    have "unat a div 2 ^ n * 2 ^ n < 2 ^ LENGTH('a)"
      using unsigned_less [of a] by (meson div_times_less_eq_dividend le_less_trans)
    moreover have "unat (push_bit n (drop_bit n a)) =
        take_bit LENGTH('a) (push_bit n (drop_bit n (take_bit LENGTH('a) (unat a))))"
      by (simp only: unsigned_push_bit_eq unsigned_drop_bit_eq)
    moreover have "take_bit LENGTH('a) (unat a) = unat a"
      using unsigned_less [of a] by (simp add: take_bit_nat_eq_self)
    ultimately show ?thesis
      by (simp only: drop_bit_eq_div push_bit_eq_mult take_bit_eq_mod) simp
  qed
  ultimately show ?thesis by simp
qed

end
