(* ===== verification/Lz4_Fast.thy ===== *)
theory Lz4_Fast
  imports Prelude
begin

text \<open>
  \<open>main/network/lz4_fast.c\<close>: the LZ4 block compressor of the trace stream. Pointers into the
  source are indices; every load goes through \<open>rd8\<close> or, for a \<open>memcpy\<close>, \<open>rdn\<close>, which are \<open>None\<close> outside
  the buffer. The destination is the list of bytes written so far, \<open>op\<close> is its length, and every store
  goes through \<open>wrn\<close>, which is \<open>None\<close> past the capacity; a result \<open>Some _\<close> so also says that no access
  left its buffer. The scratch table is a function from the hash to a 16-bit position.
  The specification is a decoder of the LZ4 block format; the lemmas show that it returns the
  source, that the block fits in the capacity, and that a capacity of LZ4's usual bound suffices.
\<close>

section \<open>The compressor\<close>

definition MIN_MATCH :: nat where "MIN_MATCH = 4"
definition LAST_LITERALS :: nat where "LAST_LITERALS = 5"
definition MF_LIMIT :: nat where "MF_LIMIT = 12"
definition LZ4_FAST_HASH_BITS :: nat where "LZ4_FAST_HASH_BITS = 12"

lemmas lz4_consts = MIN_MATCH_def LAST_LITERALS_def MF_LIMIT_def

definition rd8 :: "u8 list \<Rightarrow> nat \<Rightarrow> u8 option" where
  "rd8 src i = (if i < length src then Some (src ! i) else None)"

definition rd32 :: "u8 list \<Rightarrow> nat \<Rightarrow> u32 option" where
  "rd32 src p = do {
     p0 \<leftarrow> rd8 src p; p1 \<leftarrow> rd8 src (p + 1); p2 \<leftarrow> rd8 src (p + 2); p3 \<leftarrow> rd8 src (p + 3);
     Some (word32_of_bytes p0 p1 p2 p3) }"

text \<open>\<open>src[a..b)\<close>, the source of a \<open>memcpy\<close>, and the stores of \<open>bs\<close> at \<open>op\<close>.\<close>

definition slice :: "'a list \<Rightarrow> nat \<Rightarrow> nat \<Rightarrow> 'a list" where
  "slice xs a b = take (b - a) (drop a xs)"

definition rdn :: "u8 list \<Rightarrow> nat \<Rightarrow> nat \<Rightarrow> u8 list option" where
  "rdn src a b = (if a \<le> b \<and> b \<le> length src then Some (slice src a b) else None)"

definition wrn :: "nat \<Rightarrow> u8 list \<Rightarrow> u8 list \<Rightarrow> u8 list option" where
  "wrn cap out bs = (if length out + length bs \<le> cap then Some (out @ bs) else None)"

lemma rdn_Some: "rdn src a b = Some xs \<longleftrightarrow> a \<le> b \<and> b \<le> length src \<and> xs = slice src a b"
  by (auto simp: rdn_def)

lemma wrn_Some: "wrn cap out bs = Some out' \<longleftrightarrow> length out + length bs \<le> cap \<and> out' = out @ bs"
  by (auto simp: wrn_def)

definition hash4 :: "u32 \<Rightarrow> nat" where
  "hash4 v = unat (drop_bit (32 - LZ4_FAST_HASH_BITS) (v * 2654435761))"

text \<open>A length past 15: 255s, then the rest.\<close>

fun put_len :: "nat \<Rightarrow> u8 list" where
  "put_len l = (if l \<ge> 255 then 255 # put_len (l - 255) else [of_nat l])"

declare put_len.simps [simp del]

text \<open>Back over equal bytes.\<close>

fun match_back :: "u8 list \<Rightarrow> nat \<Rightarrow> nat \<Rightarrow> nat \<Rightarrow> (nat \<times> nat) option" where
  "match_back src anchor ip ref =
     (if ip > anchor \<and> ref > 0 then do {
        a \<leftarrow> rd8 src (ip - 1);
        b \<leftarrow> rd8 src (ref - 1);
        if a = b then match_back src anchor (ip - 1) (ref - 1) else Some (ip, ref) }
      else Some (ip, ref))"

declare match_back.simps [simp del]

text \<open>... then forward, up to the limit; the result is \<open>mp\<close>.\<close>

function match_fwd :: "u8 list \<Rightarrow> nat \<Rightarrow> nat \<Rightarrow> nat \<Rightarrow> nat option" where
  "match_fwd src matchlimit mp rp =
     (if mp < matchlimit then do {
        a \<leftarrow> rd8 src mp;
        b \<leftarrow> rd8 src rp;
        if a = b then match_fwd src matchlimit (mp + 1) (rp + 1) else Some mp }
      else Some mp)"
  by pat_completeness auto
termination
  by (relation "measure (\<lambda>(src, matchlimit, mp, rp). matchlimit - mp)") auto

declare match_fwd.simps [simp del]

text \<open>The bytes of one sequence: token, literal length, literals, offset, match length.\<close>

definition lz4_sequence :: "u8 list \<Rightarrow> nat \<Rightarrow> nat \<Rightarrow> u8 list" where
  "lz4_sequence lits off mlen =
     (let lit = length lits;
          hi = (if lit \<ge> 15 then push_bit 4 15 else push_bit 4 (of_nat lit)) :: u8;
          token = hi OR (if mlen \<ge> 15 then 15 else of_nat mlen);
          off16 = (of_nat off :: u16)
      in [token] @ (if lit \<ge> 15 then put_len (lit - 15) else []) @ lits @
         [ucast off16, ucast (drop_bit 8 off16)] @
         (if mlen \<ge> 15 then put_len (mlen - 15) else []))"

lemma match_back_spec:
  assumes "match_back src anchor ip ref = Some (ip', ref')"
  shows "\<exists>k. ip = ip' + k \<and> ref = ref' + k \<and> (anchor \<le> ip \<longrightarrow> anchor \<le> ip') \<and>
    (\<forall>j<k. ip' + j < length src \<and> ref' + j < length src \<and> src ! (ip' + j) = src ! (ref' + j))"
  using assms
proof (induction src anchor ip ref rule: match_back.induct)
  case (1 src anchor ip ref)
  show ?case
  proof (cases "ip > anchor \<and> ref > 0 \<and> ip - 1 < length src \<and> ref - 1 < length src \<and>
      src ! (ip - 1) = src ! (ref - 1)")
    case True
    with "1.prems" have "match_back src anchor (ip - 1) (ref - 1) = Some (ip', ref')"
      by (subst (asm) match_back.simps) (simp add: rd8_def)
    with "1.IH" [of "src ! (ip - 1)" "src ! (ref - 1)"] True obtain k where
      k: "ip - 1 = ip' + k" "ref - 1 = ref' + k" "anchor \<le> ip - 1 \<longrightarrow> anchor \<le> ip'"
        "\<forall>j<k. ip' + j < length src \<and> ref' + j < length src \<and> src ! (ip' + j) = src ! (ref' + j)"
      by (auto simp: rd8_def)
    have "ip = ip' + Suc k" "ref = ref' + Suc k" using k(1,2) True by auto
    moreover have "\<forall>j<Suc k. ip' + j < length src \<and> ref' + j < length src \<and>
        src ! (ip' + j) = src ! (ref' + j)"
      using k True by (auto simp: less_Suc_eq)
    moreover have "anchor \<le> ip'" using k(3) True by auto
    ultimately show ?thesis by blast
  next
    case False
    with "1.prems" have "ip' = ip \<and> ref' = ref"
      by (subst (asm) match_back.simps) (auto simp: rd8_def split: if_splits)
    then show ?thesis by auto
  qed
qed

lemma match_fwd_spec:
  assumes "match_fwd src lim mp rp = Some r"
  shows "mp \<le> r \<and> r \<le> max mp lim \<and>
    (\<forall>j<r - mp. mp + j < length src \<and> rp + j < length src \<and> src ! (mp + j) = src ! (rp + j))"
  using assms
proof (induction src lim mp rp rule: match_fwd.induct)
  case (1 src lim mp rp)
  show ?case
  proof (cases "mp < lim \<and> mp < length src \<and> rp < length src \<and> src ! mp = src ! rp")
    case True
    with "1.prems" have "match_fwd src lim (mp + 1) (rp + 1) = Some r"
      by (subst (asm) match_fwd.simps) (simp add: rd8_def)
    with "1.IH" [of "src ! mp" "src ! rp"] True have IH: "mp + 1 \<le> r" "r \<le> max (mp + 1) lim"
        "\<forall>j<r - (mp + 1). mp + 1 + j < length src \<and> rp + 1 + j < length src \<and>
           src ! (mp + 1 + j) = src ! (rp + 1 + j)"
      by (simp_all add: rd8_def)
    have "mp + j < length src \<and> rp + j < length src \<and> src ! (mp + j) = src ! (rp + j)"
      if "j < r - mp" for j
      using IH(3) [rule_format, of "j - 1"] True that by (cases j) auto
    with IH True show ?thesis by auto
  next
    case False
    with "1.prems" have "r = mp"
      by (subst (asm) match_fwd.simps) (auto simp: rd8_def split: if_splits)
    then show ?thesis by simp
  qed
qed

lemma match_fwd_reach:
  assumes "match_fwd src lim mp rp = Some r" "mp + k \<le> lim"
    "\<forall>j<k. mp + j < length src \<and> rp + j < length src \<and> src ! (mp + j) = src ! (rp + j)"
  shows "mp + k \<le> r"
  using assms
proof (induction src lim mp rp arbitrary: k rule: match_fwd.induct)
  case (1 src lim mp rp)
  show ?case
  proof (cases k)
    case 0
    then show ?thesis using match_fwd_spec [OF "1.prems"(1)] by simp
  next
    case (Suc m)
    have here: "mp < lim" "mp < length src" "rp < length src" "src ! mp = src ! rp"
      using "1.prems"(2,3) Suc by force+
    with "1.prems"(1) have "match_fwd src lim (mp + 1) (rp + 1) = Some r"
      by (subst (asm) match_fwd.simps) (simp add: rd8_def)
    moreover have "mp + 1 + j < length src \<and> rp + 1 + j < length src \<and>
        src ! (mp + 1 + j) = src ! (rp + 1 + j)" if "j < m" for j
      using "1.prems"(3) [rule_format, of "Suc j"] that Suc by simp
    ultimately have "mp + 1 + m \<le> r"
      using "1.IH" [of "src ! mp" "src ! rp" m] here "1.prems"(2) Suc by (auto simp: rd8_def)
    then show ?thesis using Suc by simp
  qed
qed

lemma word32_of_bytes_inj:
  "word32_of_bytes a0 a1 a2 a3 = word32_of_bytes b0 b1 b2 b3 \<longleftrightarrow>
   a0 = b0 \<and> a1 = b1 \<and> a2 = b2 \<and> a3 = b3"
  by (metis byte_of_word32_of_bytes)

lemma rd32_eq_bytes:
  assumes "rd32 src p = Some v" "rd32 src q = Some v" "j < 4"
  shows "p + j < length src \<and> q + j < length src \<and> src ! (p + j) = src ! (q + j)"
proof -
  have "p + 3 < length src" "q + 3 < length src"
    using assms(1,2) by (auto simp: rd32_def rd8_def split: if_splits)
  moreover from this have "src ! p = src ! q" "src ! (p + 1) = src ! (q + 1)"
      "src ! (p + 2) = src ! (q + 2)" "src ! (p + 3) = src ! (q + 3)"
    using assms(1,2)
    by (auto simp: rd32_def rd8_def word32_of_bytes_inj split: if_splits)
  moreover have "j = 0 \<or> j = 1 \<or> j = 2 \<or> j = 3" using assms(3) by arith
  ultimately show ?thesis by auto
qed

text \<open>A match ends past the position that was probed, however far back it was extended.\<close>

lemma match_progress:
  assumes bwd: "match_back src anchor ip ref = Some (ip', ref')"
    and fwd: "match_fwd src (length src - LAST_LITERALS) (ip' + MIN_MATCH) (ref' + MIN_MATCH) = Some mp"
    and eq: "rd32 src ip = Some v" "rd32 src ref = Some v"
    and lim: "ip < length src - MF_LIMIT"
  shows "ip + 4 \<le> mp"
proof -
  obtain k where k: "ip = ip' + k" "ref = ref' + k"
      "\<forall>j<k. ip' + j < length src \<and> ref' + j < length src \<and> src ! (ip' + j) = src ! (ref' + j)"
    using match_back_spec [OF bwd] by blast
  have same: "ip' + j < length src \<and> ref' + j < length src \<and> src ! (ip' + j) = src ! (ref' + j)"
    if "j < k + 4" for j
    using k rd32_eq_bytes [OF eq, of "j - k"] that by (cases "j < k") auto
  have "ip' + MIN_MATCH + k \<le> mp"
  proof (rule match_fwd_reach [OF fwd])
    show "ip' + MIN_MATCH + k \<le> length src - LAST_LITERALS"
      using k(1) lim by (simp add: lz4_consts)
    show "\<forall>j<k. ip' + MIN_MATCH + j < length src \<and> ref' + MIN_MATCH + j < length src \<and>
        src ! (ip' + MIN_MATCH + j) = src ! (ref' + MIN_MATCH + j)"
    proof (intro allI impI)
      fix j assume "j < k"
      with same [of "4 + j"] show "ip' + MIN_MATCH + j < length src \<and>
          ref' + MIN_MATCH + j < length src \<and>
          src ! (ip' + MIN_MATCH + j) = src ! (ref' + MIN_MATCH + j)"
        by (simp add: lz4_consts add.assoc)
    qed
  qed
  then show ?thesis using k(1) by (simp add: MIN_MATCH_def)
qed

text \<open>Whether the candidate behind is no match: its position, its first byte, all four.\<close>

definition probe_misses :: "u8 list \<Rightarrow> nat \<Rightarrow> nat \<Rightarrow> u32 \<Rightarrow> bool option" where
  "probe_misses src ip ref sq =
     (if ref \<ge> ip then Some True
      else do {
        a \<leftarrow> rd8 src ref;
        b \<leftarrow> rd8 src ip;
        if a \<noteq> b then Some True else do { r \<leftarrow> rd32 src ref; Some (r \<noteq> sq) } })"

lemma probe_hit: "probe_misses src ip ref sq = Some False \<Longrightarrow> ref < ip \<and> rd32 src ref = Some sq"
  by (auto simp: probe_misses_def split: if_splits bind_splits)

text \<open>The main loop. \<open>Some None\<close> is the early \<open>return 0\<close> of a block that does not fit;
  \<open>Some (Some (anchor, out))\<close> is the state after the loop.\<close>

function lz4_loop :: "u8 list \<Rightarrow> nat \<Rightarrow> nat \<Rightarrow> nat \<Rightarrow> (nat \<Rightarrow> u16) \<Rightarrow> nat \<Rightarrow> u8 list
    \<Rightarrow> (nat \<times> u8 list) option option" where
  "lz4_loop src cap ip anchor table misses out =
     (if ip < length src - MF_LIMIT then do {
        sq \<leftarrow> rd32 src ip;
        let h = hash4 sq;
        let ref = unat (table h);
        let table = table(h := of_nat ip);
        miss \<leftarrow> probe_misses src ip ref sq;
        if miss then lz4_loop src cap (ip + 1 + misses div 64) anchor table (misses + 1) out
        else do {
          m \<leftarrow> match_back src anchor ip ref;
          mp \<leftarrow> match_fwd src (length src - LAST_LITERALS) (fst m + MIN_MATCH) (snd m + MIN_MATCH);
          let lit = fst m - anchor;
          let mlen = mp - fst m - MIN_MATCH;
          if length out + 1 + lit div 255 + 1 + lit + 2 + mlen div 255 + 1 > cap then Some None
          else do {
            lits \<leftarrow> rdn src anchor (fst m);
            out \<leftarrow> wrn cap out (lz4_sequence lits (fst m - snd m) mlen);
            table \<leftarrow> (if mp > 2 then do { v \<leftarrow> rd32 src (mp - 2);
                                       Some (table(hash4 v := of_nat (mp - 2))) }
                      else Some table);
            lz4_loop src cap mp mp table 0 out } } }
      else Some (Some (anchor, out)))"
  by pat_completeness auto
termination
proof (relation "measure (\<lambda>(src, cap, ip, rest). length src - ip)")
  show "wf (measure (\<lambda>(src, cap, ip, rest). length src - ip))" by simp
qed (auto simp: MF_LIMIT_def dest!: match_progress probe_hit)


declare lz4_loop.simps [simp del]

definition lz4_fast_compress :: "u8 list \<Rightarrow> nat \<Rightarrow> u8 list option" where
  "lz4_fast_compress src cap =
     (if length src \<ge> 65536 then Some []
      else do {
        r \<leftarrow> (if length src > MF_LIMIT then lz4_loop src cap 1 0 (\<lambda>_. 0) 0 []
              else Some (Some (0, [])));
        case r of
          None \<Rightarrow> Some []
        | Some (anchor, out) \<Rightarrow>
            let lit = length src - anchor
            in if length out + 1 + lit div 255 + 1 + lit > cap then Some []
               else do {
                 lits \<leftarrow> rdn src anchor (length src);
                 wrn cap out ((if lit \<ge> 15 then push_bit 4 15 # put_len (lit - 15)
                   else [push_bit 4 (of_nat lit)]) @ lits) } })"

section \<open>The block format\<close>

text \<open>A decoder of the LZ4 block format: a sequence is a token, the literals it announces, and,
  unless the block ends there, a two-byte offset back into the output and a match length.\<close>

fun get_len :: "u8 list \<Rightarrow> nat \<Rightarrow> (nat \<times> u8 list) option" where
  "get_len [] l = None"
| "get_len (b # bs) l = (if b = 255 then get_len bs (l + 255) else Some (l + unat b, bs))"

fun copy_match :: "nat \<Rightarrow> nat \<Rightarrow> 'a list \<Rightarrow> 'a list" where
  "copy_match 0 off out = out"
| "copy_match (Suc k) off out = copy_match k off (out @ [out ! (length out - off)])"

definition nibble_len :: "nat \<Rightarrow> u8 list \<Rightarrow> (nat \<times> u8 list) option" where
  "nibble_len nib bs = (if nib = 15 then get_len bs 15 else Some (nib, bs))"

lemma get_len_shorter: "get_len bs l = Some (l', bs') \<Longrightarrow> length bs' < length bs"
  by (induction bs l rule: get_len.induct) (auto split: if_splits)

lemma nibble_len_shorter: "nibble_len nib bs = Some (l', bs') \<Longrightarrow> length bs' \<le> length bs"
  by (auto simp: nibble_len_def split: if_splits dest: get_len_shorter)

function lz4_decode :: "u8 list \<Rightarrow> u8 list \<Rightarrow> u8 list option" where
  "lz4_decode [] out = None"
| "lz4_decode (token # bs) out =
     (case nibble_len (unat (drop_bit 4 token)) bs of None \<Rightarrow> None
      | Some (lit, bs1) \<Rightarrow>
          if length bs1 < lit then None
          else let out1 = out @ take lit bs1; bs2 = drop lit bs1
            in case bs2 of
                 [] \<Rightarrow> Some out1
               | [_] \<Rightarrow> None
               | lo # hi # bs3 \<Rightarrow>
                   let off = unat lo + 256 * unat hi
                   in if off = 0 \<or> off > length out1 then None
                      else (case nibble_len (unat (token AND 15)) bs3 of None \<Rightarrow> None
                            | Some (ml, bs4) \<Rightarrow> lz4_decode bs4 (copy_match (ml + 4) off out1)))"
  by pat_completeness auto
termination
proof (relation "measure (\<lambda>(bs, out). length bs)")
  show "wf (measure (\<lambda>(bs, out). length bs))" by simp
next
  fix token :: u8 and bs out p lit bs1 out1 bs2 lo z hi bs3 off q ml bs4
  assume n: "nibble_len (unat (drop_bit 4 token)) bs = Some p" "(lit, bs1) = p"
      "nibble_len (unat (token AND 15)) bs3 = Some q" "(ml, bs4) = q"
    and "bs2 = drop lit bs1" "bs2 = lo # z" "z = hi # bs3"
  then have "drop lit bs1 = lo # hi # bs3" by simp
  then have "length bs1 - lit = Suc (Suc (length bs3))" by (metis length_Cons length_drop)
  moreover have "length bs1 \<le> length bs" "length bs4 \<le> length bs3"
    using n by (auto dest: nibble_len_shorter)
  ultimately show "((bs4, copy_match (ml + 4) off out1), (token # bs, out))
      \<in> measure (\<lambda>(bs, out). length bs)" for off out1
    by simp
qed

section \<open>One sequence, encoded and decoded\<close>

lemma get_len_put_len: "get_len (put_len k @ bs) l = Some (l + k, bs)"
proof (induction k arbitrary: l rule: put_len.induct)
  case (1 k)
  show ?case
  proof (cases "k \<ge> 255")
    case True
    with "1.IH" [of "l + 255"] show ?thesis by (subst put_len.simps) simp
  next
    case False
    then have "unat (of_nat k :: u8) = k" by (simp add: unsigned_of_nat take_bit_eq_mod)
    moreover have "(of_nat k :: u8) \<noteq> 255"
    proof
      assume "(of_nat k :: u8) = 255"
      then have "unat (of_nat k :: u8) = 255" by simp
      with calculation False show False by simp
    qed
    ultimately show ?thesis using False by (subst put_len.simps) simp
  qed
qed

lemma token_nibbles_all:
  "list_all (\<lambda>hi. list_all (\<lambda>lo.
      unat (drop_bit 4 (push_bit 4 (of_nat hi) OR (of_nat lo :: u8))) = hi \<and>
      unat ((push_bit 4 (of_nat hi) OR (of_nat lo :: u8)) AND 15) = lo) [0..<16]) [0..<16]"
  by code_simp

lemma token_nibbles:
  assumes "hi < 16" "lo < 16"
  shows "unat (drop_bit 4 (push_bit 4 (of_nat hi) OR (of_nat lo :: u8))) = hi"
    "unat ((push_bit 4 (of_nat hi) OR (of_nat lo :: u8)) AND 15) = lo"
  using token_nibbles_all assms by (simp_all only: list_all_iff set_upt atLeastLessThan_iff) auto

lemma nibble_len_ext:
  "nibble_len (min l 15) ((if l \<ge> 15 then put_len (l - 15) else []) @ bs) = Some (l, bs)"
  by (auto simp: nibble_len_def get_len_put_len)

lemma nibble_word:
  "(if l \<ge> 15 then 15 else of_nat l) = (of_nat (min l 15) :: 'a::len word)"
  by (simp add: min_def)

lemma offset_bytes:
  assumes "off < 65536"
  shows "unat (ucast (of_nat off :: u16) :: u8) + 256 * unat (ucast (drop_bit 8 (of_nat off :: u16)) :: u8) = off"
proof -
  have "unat (ucast (of_nat off :: u16) :: u8) = off mod 256"
    by (simp add: unsigned_ucast_eq unsigned_of_nat take_bit_eq_mod mod_mod_cancel)
  moreover have "unat (ucast (drop_bit 8 (of_nat off :: u16)) :: u8) = off div 256"
  proof -
    have "unat (drop_bit 8 (of_nat off :: u16)) = off div 256"
    proof -
      have "unat (of_nat off :: u16) = off"
        using assms by (simp add: unsigned_of_nat take_bit_eq_mod)
      then show ?thesis
        using assms by (simp only: unsigned_drop_bit_eq) (simp add: take_bit_eq_mod drop_bit_eq_div)
    qed
    moreover have "off div 256 < 256" using assms by auto
    ultimately show ?thesis
      by (simp only: unsigned_ucast_eq take_bit_eq_mod) simp
  qed
  ultimately show ?thesis by simp
qed

lemma decode_sequence:
  assumes "0 < off" "off \<le> length out + length lits" "off < 65536"
  shows "lz4_decode (lz4_sequence lits off mlen @ bs) out =
    lz4_decode bs (copy_match (mlen + 4) off (out @ lits))"
proof -
  let ?lit = "length lits"
  let ?token = "push_bit 4 (of_nat (min ?lit 15)) OR (of_nat (min mlen 15) :: u8)"
  let ?lo = "ucast (of_nat off :: u16) :: u8" and ?hi = "ucast (drop_bit 8 (of_nat off :: u16)) :: u8"
  let ?tail = "(if mlen \<ge> 15 then put_len (mlen - 15) else []) @ bs"
  have enc: "lz4_sequence lits off mlen @ bs =
      ?token # (if ?lit \<ge> 15 then put_len (?lit - 15) else []) @ lits @ ?lo # ?hi # ?tail"
    by (simp add: lz4_sequence_def Let_def nibble_word [symmetric])
  have nibs: "unat (drop_bit 4 ?token) = min ?lit 15" "unat (?token AND 15) = min mlen 15"
    using token_nibbles [of "min ?lit 15" "min mlen 15"] by simp_all
  have off: "unat ?lo + 256 * unat ?hi = off" by (rule offset_bytes [OF assms(3)])
  have guard: "\<not> (off = 0 \<or> length (out @ lits) < off)" using assms(1,2) by auto
  have lits: "\<not> length (lits @ ?lo # ?hi # ?tail) < ?lit"
      "take ?lit (lits @ ?lo # ?hi # ?tail) = lits" "drop ?lit (lits @ ?lo # ?hi # ?tail) = ?lo # ?hi # ?tail"
    by simp_all
  show ?thesis
    unfolding enc
    by (simp only: lz4_decode.simps nibs nibble_len_ext option.case prod.case Let_def lits
        list.case off guard if_False)
qed

lemma decode_last:
  "lz4_decode ((if length lits \<ge> 15 then push_bit 4 15 # put_len (length lits - 15)
      else [push_bit 4 (of_nat (length lits))]) @ lits) out = Some (out @ lits)"
proof -
  let ?lit = "length lits"
  let ?token = "push_bit 4 (of_nat (min ?lit 15)) :: u8"
  have enc: "(if ?lit \<ge> 15 then push_bit 4 15 # put_len (?lit - 15)
      else [push_bit 4 (of_nat ?lit)]) @ lits =
      ?token # (if ?lit \<ge> 15 then put_len (?lit - 15) else []) @ lits"
    by (simp add: min_def)
  have "unat (drop_bit 4 ?token) = min ?lit 15"
    using token_nibbles(1) [of "min ?lit 15" 0] by simp
  then show ?thesis
    unfolding enc by (simp only: lz4_decode.simps nibble_len_ext option.case prod.case Let_def) simp
qed

lemma copy_match_prefix:
  assumes "0 < off" "off \<le> p" "p + m \<le> length src"
    "\<forall>j<m. src ! (p + j) = src ! (p + j - off)"
  shows "copy_match m off (take p src) = take (p + m) src"
  using assms
proof (induction m arbitrary: p)
  case (Suc m)
  have "take p src @ [take p src ! (p - off)] = take (Suc p) src"
    using Suc.prems(1-3) Suc.prems(4) [rule_format, of 0] by (simp add: take_Suc_conv_app_nth)
  moreover have "\<forall>j<m. src ! (Suc p + j) = src ! (Suc p + j - off)"
  proof (intro allI impI)
    fix j assume "j < m"
    with Suc.prems(4) [rule_format, of "Suc j"] show "src ! (Suc p + j) = src ! (Suc p + j - off)"
      by simp
  qed
  ultimately show ?case using Suc.IH [of "Suc p"] Suc.prems by (simp add: min_def)
qed simp


section \<open>The loop\<close>

text \<open>The output so far decodes to the source up to the anchor, whatever follows it.\<close>

definition lz4_covers :: "u8 list \<Rightarrow> nat \<Rightarrow> u8 list \<Rightarrow> bool" where
  "lz4_covers src anchor out \<longleftrightarrow> anchor \<le> length src \<and>
     (\<forall>bs. lz4_decode (out @ bs) [] = lz4_decode bs (take anchor src))"

text \<open>What one hit of the loop establishes: the match it found is a copy of earlier source bytes,
  so the sequence it emits extends the cover to the end of the match.\<close>

lemma lz4_hit:
  assumes cov: "lz4_covers src anchor out" and small: "length src < 65536"
    and le: "anchor \<le> ip" and ip: "ip < length src - MF_LIMIT"
    and sq: "rd32 src ip = Some sq" and hit: "probe_misses src ip ref sq = Some False"
    and bwd: "match_back src anchor ip ref = Some m"
    and fwd: "match_fwd src (length src - LAST_LITERALS) (fst m + MIN_MATCH) (snd m + MIN_MATCH) = Some mp"
  shows "ip < mp \<and> mp \<le> length src - LAST_LITERALS \<and> anchor \<le> fst m \<and>
    fst m + MIN_MATCH \<le> mp \<and>
    lz4_covers src mp (out @ lz4_sequence (slice src anchor (fst m)) (fst m - snd m)
      (mp - fst m - MIN_MATCH))"
proof -
  obtain ip' ref' where m: "m = (ip', ref')" by (cases m)
  from probe_hit [OF hit] have ref: "ref < ip" "rd32 src ref = Some sq" by auto
  obtain k where k: "ip = ip' + k" "ref = ref' + k" "anchor \<le> ip'"
      "\<forall>j<k. ip' + j < length src \<and> ref' + j < length src \<and> src ! (ip' + j) = src ! (ref' + j)"
    using match_back_spec [of src anchor ip ref ip' ref'] bwd le by (auto simp: m)
  have prog: "ip + 4 \<le> mp"
    using match_progress [of src anchor ip ref ip' ref' mp sq] bwd fwd sq ref(2) ip by (simp add: m)
  have F: "ip' + 4 \<le> mp" "mp \<le> max (ip' + 4) (length src - 5)"
      "\<And>j. j < mp - (ip' + 4) \<Longrightarrow> src ! (ip' + 4 + j) = src ! (ref' + 4 + j)"
    using match_fwd_spec [OF fwd] by (auto simp: m lz4_consts)
  have mp: "mp \<le> length src - 5" "mp \<le> length src"
    using F(2) k(1) ip by (auto simp: MF_LIMIT_def)
  have four: "src ! (ip + j) = src ! (ref + j)" if "j < 4" for j
    using rd32_eq_bytes [OF sq ref(2) that] by simp
  have copied: "src ! (ip' + j) = src ! (ref' + j)" if "j < mp - ip'" for j
  proof -
    consider "j < k" | "k \<le> j" "j < k + 4" | "j \<ge> k + 4" by linarith
    then show ?thesis
    proof cases
      case 1 with k(4) show ?thesis by simp
    next
      case 2
      with four [of "j - k"] k(1,2) show ?thesis by (simp add: add.assoc)
    next
      case 3
      with F(3) [of "j - 4"] that show ?thesis by (simp add: add.assoc)
    qed
  qed
  let ?off = "ip' - ref'"
  have off: "0 < ?off" "?off \<le> ip'" "?off < 65536"
    using k(1,2) ref(1) ip small by auto
  have lits: "length (slice src anchor ip') = ip' - anchor"
    using k(1) ip by (simp add: slice_def)
  have pre: "take anchor src @ slice src anchor ip' = take ip' src"
    using k(3) by (simp add: slice_def flip: take_add)
  have "lz4_decode (lz4_sequence (slice src anchor ip') ?off (mp - ip' - MIN_MATCH) @ bs) (take anchor src)
      = lz4_decode bs (take mp src)" for bs
  proof -
    have "?off \<le> length (take anchor src) + length (slice src anchor ip')"
      using off(2) lits k(1,3) ip by simp
    then have "lz4_decode (lz4_sequence (slice src anchor ip') ?off (mp - ip' - MIN_MATCH) @ bs)
          (take anchor src)
        = lz4_decode bs (copy_match (mp - ip' - MIN_MATCH + 4) ?off (take ip' src))"
      using decode_sequence [OF off(1) _ off(3)] by (simp add: pre)
    also have "copy_match (mp - ip' - MIN_MATCH + 4) ?off (take ip' src) = take mp src"
    proof -
      have "copy_match (mp - ip') ?off (take ip' src) = take (ip' + (mp - ip')) src"
      proof (rule copy_match_prefix [OF off(1,2)])
        show "ip' + (mp - ip') \<le> length src" using mp F(1) by simp
        show "\<forall>j<mp - ip'. src ! (ip' + j) = src ! (ip' + j - ?off)"
        proof (intro allI impI)
          fix j assume "j < mp - ip'"
          have "ip' + j - ?off = ref' + j" using k(1,2) ref(1) by simp
          with copied [OF \<open>j < mp - ip'\<close>] show "src ! (ip' + j) = src ! (ip' + j - ?off)" by simp
        qed
      qed
      then show ?thesis using F(1) by (simp add: MIN_MATCH_def)
    qed
    finally show ?thesis .
  qed
  then show ?thesis
    using cov mp prog F(1) k(3) by (simp add: lz4_covers_def m lz4_consts)
qed

lemma lz4_loop_covers:
  assumes "lz4_loop src cap ip anchor table misses out = Some (Some (anchor', out'))"
    and "lz4_covers src anchor out" "anchor \<le> ip" "length src < 65536"
  shows "lz4_covers src anchor' out'"
  using assms
proof (induction src cap ip anchor table misses out rule: lz4_loop.induct)
  case (1 src cap ip anchor table misses out)
  show ?case
  proof (cases "ip < length src - MF_LIMIT")
    case False
    with "1.prems"(1,2) show ?thesis by (subst (asm) lz4_loop.simps) simp
  next
    case True
    let ?ref = "\<lambda>sq. unat (table (hash4 sq))" and ?tab = "\<lambda>sq. table(hash4 sq := of_nat ip)"
    from "1.prems"(1) True obtain sq miss where sq: "rd32 src ip = Some sq"
        and miss: "probe_misses src ip (?ref sq) sq = Some miss"
      by (subst (asm) lz4_loop.simps) (auto simp: Let_def split: bind_splits)
    show ?thesis
    proof (cases miss)
      case True
      with "1.prems"(1) \<open>ip < length src - MF_LIMIT\<close> sq miss
      have "lz4_loop src cap (ip + 1 + misses div 64) anchor (?tab sq) (misses + 1) out
          = Some (Some (anchor', out'))"
        by (subst (asm) lz4_loop.simps) (simp add: Let_def)
      with "1.IH"(1) [OF \<open>ip < length src - MF_LIMIT\<close> sq refl refl refl miss True]
        "1.prems"(2-4) show ?thesis by (simp add: fun_upd_def)
    next
      case False
      then have hit: "probe_misses src ip (?ref sq) sq = Some False" using miss by simp
      from "1.prems"(1) \<open>ip < length src - MF_LIMIT\<close> sq hit obtain m mp where
          m: "match_back src anchor ip (?ref sq) = Some m"
        and mp: "match_fwd src (length src - LAST_LITERALS) (fst m + MIN_MATCH) (snd m + MIN_MATCH)
            = Some mp"
        by (subst (asm) lz4_loop.simps) (auto simp: Let_def split: bind_splits)
      note cov = lz4_hit [OF "1.prems"(2,4,3) \<open>ip < length src - MF_LIMIT\<close> sq hit m mp]
      from "1.prems"(1) \<open>ip < length src - MF_LIMIT\<close> sq hit m mp obtain lits out1 tab where
          fits: "\<not> length out + 1 + (fst m - anchor) div 255 + 1 + (fst m - anchor) + 2 +
            (mp - fst m - MIN_MATCH) div 255 + 1 > cap"
        and lits: "rdn src anchor (fst m) = Some lits"
        and out1: "wrn cap out (lz4_sequence lits (fst m - snd m) (mp - fst m - MIN_MATCH)) = Some out1"
        and tab: "(if mp > 2 then do { v \<leftarrow> rd32 src (mp - 2);
              Some ((?tab sq)(hash4 v := of_nat (mp - 2))) } else Some (?tab sq)) = Some tab"
        and rest: "lz4_loop src cap mp mp tab 0 out1 = Some (Some (anchor', out'))"
        by (subst (asm) lz4_loop.simps) (simp add: Let_def split: if_split_asm bind_splits)
      show ?thesis
        by (rule "1.IH"(2) [OF \<open>ip < length src - MF_LIMIT\<close> sq refl refl refl miss False m mp
              refl refl fits lits out1 tab rest])
          (use cov lits out1 "1.prems"(4) in \<open>auto simp: rdn_Some wrn_Some\<close>)
    qed
  qed
qed

lemma length_put_len: "length (put_len l) = l div 255 + 1"
proof (induction l rule: put_len.induct)
  case (1 l)
  then show ?case by (subst put_len.simps) (simp add: le_div_geq)
qed

lemma length_lz4_sequence:
  "length (lz4_sequence lits off mlen)
     \<le> 1 + length lits div 255 + 1 + length lits + 2 + mlen div 255 + 1"
proof -
  have "(x - 15) div 255 \<le> x div 255" for x :: nat by (simp add: div_le_mono)
  then show ?thesis
    by (simp add: lz4_sequence_def Let_def length_put_len add.assoc)
      (meson add_mono le_SucI)
qed

section \<open>No load leaves the source\<close>

lemma rd8_in [simp]: "i < length src \<Longrightarrow> rd8 src i = Some (src ! i)"
  by (simp add: rd8_def)

lemma rd32_in: "p + 3 < length src \<Longrightarrow> \<exists>v. rd32 src p = Some v"
  by (simp add: rd32_def)

lemma match_back_in:
  assumes "ip \<le> length src" "ref \<le> ip"
  shows "\<exists>m. match_back src anchor ip ref = Some m"
  using assms
proof (induction src anchor ip ref rule: match_back.induct)
  case (1 src anchor ip ref)
  then show ?case by (subst match_back.simps) (auto simp: rd8_def)
qed

lemma match_fwd_in:
  assumes "lim \<le> length src" "rp \<le> mp"
  shows "\<exists>r. match_fwd src lim mp rp = Some r"
  using assms
proof (induction src lim mp rp rule: match_fwd.induct)
  case (1 src lim mp rp)
  then show ?case by (subst match_fwd.simps) (auto simp: rd8_def)
qed

lemma probe_in: "ip + 3 < length src \<Longrightarrow> \<exists>b. probe_misses src ip ref sq = Some b"
  using rd32_in [of ref src] by (auto simp: probe_misses_def)

lemma lz4_loop_in_bounds:
  assumes "anchor \<le> ip" "length out \<le> cap" "anchor \<le> length src"
  shows "\<exists>r. lz4_loop src cap ip anchor table misses out = Some r \<and>
    (\<forall>a out'. r = Some (a, out') \<longrightarrow> a \<le> length src \<and> length out' \<le> cap)"
  using assms
proof (induction src cap ip anchor table misses out rule: lz4_loop.induct)
  case (1 src cap ip anchor table misses out)
  show ?case
  proof (cases "ip < length src - MF_LIMIT")
    case False
    with "1.prems" show ?thesis by (subst lz4_loop.simps) simp
  next
    case True
    then have ip: "ip + 12 < length src" by (simp add: MF_LIMIT_def)
    let ?ref = "\<lambda>sq. unat (table (hash4 sq))" and ?tab = "\<lambda>sq. table(hash4 sq := of_nat ip)"
    obtain sq where sq: "rd32 src ip = Some sq" using rd32_in [of ip src] ip by auto
    obtain miss where miss: "probe_misses src ip (?ref sq) sq = Some miss"
      using probe_in [of ip src] ip by force
    show ?thesis
    proof (cases miss)
      case True
      with "1.IH"(1) [OF \<open>ip < length src - MF_LIMIT\<close> sq refl refl refl miss True] "1.prems"
      show ?thesis
        by (subst lz4_loop.simps) (simp add: Let_def sq miss \<open>ip < length src - MF_LIMIT\<close> fun_upd_def)
    next
      case False
      then have hit: "probe_misses src ip (?ref sq) sq = Some False" using miss by simp
      from probe_hit [OF hit] have ref: "?ref sq < ip" "rd32 src (?ref sq) = Some sq" by auto
      obtain m where m: "match_back src anchor ip (?ref sq) = Some m"
        using match_back_in [of ip src "?ref sq"] ip ref by force
      obtain k where k: "ip = fst m + k" "?ref sq = snd m + k" "anchor \<le> fst m"
        using match_back_spec [of src anchor ip "?ref sq" "fst m" "snd m"] m "1.prems"(1) by auto
      obtain mp where mp: "match_fwd src (length src - LAST_LITERALS) (fst m + MIN_MATCH)
          (snd m + MIN_MATCH) = Some mp"
        using match_fwd_in [of "length src - LAST_LITERALS" src "snd m + MIN_MATCH" "fst m + MIN_MATCH"]
          k ref(1) by auto
      have prog: "ip + 4 \<le> mp"
        using match_progress [of src anchor ip "?ref sq" "fst m" "snd m" mp sq] m mp sq ref(2) True by simp
      have fin: "mp + 5 \<le> length src"
        using match_fwd_spec [OF mp] k(1) ip by (auto simp: lz4_consts max_def split: if_splits)
      obtain v where v: "rd32 src (mp - 2) = Some v"
        using rd32_in [of "mp - 2" src] fin prog by auto
      let ?lit = "fst m - anchor" and ?mlen = "mp - fst m - MIN_MATCH"
      let ?need = "length out + 1 + ?lit div 255 + 1 + ?lit + 2 + ?mlen div 255 + 1"
      let ?sq = "lz4_sequence (slice src anchor (fst m)) (fst m - snd m) ?mlen"
      have lit: "length (slice src anchor (fst m)) = ?lit"
        using k(1) ip by (simp add: slice_def)
      show ?thesis
      proof (cases "?need > cap")
        case True
        then show ?thesis
          by (subst lz4_loop.simps)
            (simp add: Let_def sq hit m mp \<open>ip < length src - MF_LIMIT\<close>)
      next
        case fits: False
        have tab: "(if mp > 2 then do { v \<leftarrow> rd32 src (mp - 2);
            Some ((?tab sq)(hash4 v := of_nat (mp - 2))) } else Some (?tab sq))
            = Some ((?tab sq)(hash4 v := of_nat (mp - 2)))"
          using prog v by simp
        have lits: "rdn src anchor (fst m) = Some (slice src anchor (fst m))"
          using k(1,3) ip by (simp add: rdn_Some)
        have len: "length (out @ ?sq) \<le> cap"
          using length_lz4_sequence [of "slice src anchor (fst m)" "fst m - snd m" ?mlen] fits
          unfolding lit by simp
        have stored: "wrn cap out ?sq = Some (out @ ?sq)" using len by (simp add: wrn_Some)
        have "\<exists>r. lz4_loop src cap mp mp ((?tab sq)(hash4 v := of_nat (mp - 2))) 0 (out @ ?sq) = Some r \<and>
            (\<forall>a out'. r = Some (a, out') \<longrightarrow> a \<le> length src \<and> length out' \<le> cap)"
          by (rule "1.IH"(2) [OF \<open>ip < length src - MF_LIMIT\<close> sq refl refl refl miss False m mp
                refl refl fits lits stored tab order.refl len]) (use fin in simp)
        then show ?thesis
          using fits by (subst lz4_loop.simps)
            (simp add: Let_def sq hit m mp lits stored [simplified] tab \<open>ip < length src - MF_LIMIT\<close> del: fun_upd_apply)
      qed
    qed
  qed
qed

section \<open>Properties\<close>

text \<open>C3: every block \<open>lz4_fast_compress\<close> emits, whatever the source (below the 64 KB limit), its
  capacity and the collisions of the hash table, decodes to the source under the LZ4 block format;
  0 (the empty list) is only its "does not fit" answer.\<close>

theorem lz4_round_trip:
  assumes "lz4_fast_compress src cap = Some blk" "blk \<noteq> []"
  shows "lz4_decode blk [] = Some src"
proof -
  from assms have small: "length src < 65536"
    by (auto simp: lz4_fast_compress_def split: if_splits)
  obtain anchor out where r: "(if length src > MF_LIMIT then lz4_loop src cap 1 0 (\<lambda>_. 0) 0 []
        else Some (Some (0, []))) = Some (Some (anchor, out))"
      and blk: "blk = out @ (if length src - anchor \<ge> 15
          then push_bit 4 15 # put_len (length src - anchor - 15)
          else [push_bit 4 (of_nat (length src - anchor))]) @ slice src anchor (length src)"
    using assms small
    by (auto simp: lz4_fast_compress_def Let_def rdn_Some wrn_Some split: bind_splits option.splits if_split_asm)
  have start: "lz4_covers src 0 []" by (simp add: lz4_covers_def)
  have cov: "lz4_covers src anchor out"
    using r lz4_loop_covers [OF _ start] small start by (auto split: if_splits)
  then have len: "length (slice src anchor (length src)) = length src - anchor"
    by (simp add: slice_def lz4_covers_def)
  from cov have "lz4_decode (out @ bs) [] = lz4_decode bs (take anchor src)" for bs
    by (simp add: lz4_covers_def)
  then have "lz4_decode blk [] = Some (take anchor src @ slice src anchor (length src))"
    using decode_last [of "slice src anchor (length src)" "take anchor src"]
    unfolding blk len by simp
  then show ?thesis by (simp add: slice_def)
qed

lemma lz4_round_trip_witness:
  "lz4_decode (the (lz4_fast_compress (replicate 20 7) 64)) [] = Some (replicate 20 7) \<and>
   length (the (lz4_fast_compress (replicate 20 7) 64)) = 10"
proof -
  have "lz4_fast_compress (replicate 20 7) 64 = Some [0x1A, 7, 1, 0, 0x50, 7, 7, 7, 7, 7]"
    by (simp add: lz4_fast_compress_def lz4_consts lz4_loop.simps rd32_def rd8_def hash4_def word32_of_bytes_def
      probe_misses_def match_back.simps match_fwd.simps lz4_sequence_def put_len.simps rdn_def wrn_def slice_def LZ4_FAST_HASH_BITS_def)
      (simp add: numeral_eq_Suc)
  with lz4_round_trip [OF this] show ?thesis by simp
qed

lemma hash4_bound: "hash4 v < 2 ^ LZ4_FAST_HASH_BITS"
proof -
  have "unat x < 2 ^ 32" for x :: u32 using unsigned_less [of x] by simp
  then have "unat (drop_bit 20 x) < 2 ^ 12" for x :: u32
    by (simp only: unsigned_drop_bit_eq) (simp add: take_bit_eq_mod drop_bit_eq_div less_mult_imp_div_less)
  then show ?thesis by (simp only: hash4_def LZ4_FAST_HASH_BITS_def) simp
qed

text \<open>C4: compression never accesses memory outside its buffers: for every source and every capacity it returns
  (\<open>Some\<close>), so every \<open>rd8\<close> and \<open>rdn\<close> on the way was inside the source and every \<open>wrn\<close> within the capacity, also
  those of a block that is given up half way because it does not fit; what it returns is at most \<open>cap\<close> bytes
  long, and every hash indexes the table.\<close>

theorem lz4_in_bounds:
  "(\<exists>blk. lz4_fast_compress src cap = Some blk \<and> length blk \<le> cap) \<and> (\<forall>v. hash4 v < 2 ^ LZ4_FAST_HASH_BITS)"
proof -
  obtain r where r: "(if length src > MF_LIMIT then lz4_loop src cap 1 0 (\<lambda>_. 0) 0 []
        else Some (Some (0, []))) = Some r"
      and b: "\<And>a out'. r = Some (a, out') \<Longrightarrow> a \<le> length src \<and> length out' \<le> cap"
    using lz4_loop_in_bounds [of 0 1 "[]" cap src "\<lambda>_. 0" 0] by (cases "length src > MF_LIMIT") auto
  show ?thesis
  proof (cases r)
    case None
    with r show ?thesis by (simp add: lz4_fast_compress_def hash4_bound)
  next
    case (Some p)
    obtain anchor out where p: "p = (anchor, out)" by (cases p)
    obtain lit where lit: "length src = anchor + lit" using b Some p le_Suc_ex by blast
    have "(lit - 15) div 255 \<le> lit div 255" by (simp add: div_le_mono)
    with r b Some p show ?thesis
      by (auto simp: lz4_fast_compress_def Let_def rdn_def wrn_def slice_def length_put_len lit hash4_bound)
  qed
qed

end
