(* ===== verification/Flash_Api.thy ===== *)
theory Flash_Api
  imports Prelude
begin

text \<open>
  The types and constants of \<open>include/tricore_flash.h\<close>, \<open>include/tricore_ucb.h\<close> and
  \<open>tricore_flash_priv.h\<close> that both the flasher and its HTTP front end use. A pointer to image
  bytes is the function from the index to the byte.
\<close>

definition TRICORE_FLASH_PAGE :: u32 where "TRICORE_FLASH_PAGE = 32"
definition TRICORE_FLASH_SECTOR :: u32 where "TRICORE_FLASH_SECTOR = 0x4000"
definition TRICORE_FLASH_ERASED :: u8 where "TRICORE_FLASH_ERASED = 0xFF"

definition TRICORE_UCB_BASE :: u32 where "TRICORE_UCB_BASE = 0xAF400000"
definition TRICORE_UCB_SIZE :: u32 where "TRICORE_UCB_SIZE = 0x200"
definition TRICORE_UCB_WINDOW :: u32 where "TRICORE_UCB_WINDOW = 0x6000"
definition TRICORE_UCB_SLOTS :: nat where "TRICORE_UCB_SLOTS = 48"

lemmas flash_api_consts = TRICORE_FLASH_PAGE_def TRICORE_FLASH_SECTOR_def TRICORE_FLASH_ERASED_def
  TRICORE_UCB_BASE_def TRICORE_UCB_SIZE_def TRICORE_UCB_WINDOW_def TRICORE_UCB_SLOTS_def

record tricore_flash_region =
  rg_address :: u32
  rg_length :: u32
  rg_data :: "nat \<Rightarrow> u8"

record tricore_ucb_image =
  ui_data :: "nat \<Rightarrow> u8"
  ui_present :: u64

datatype tricore_flash_phase =
    TRICORE_FLASH_IDLE | TRICORE_FLASH_PREPARING | TRICORE_FLASH_ERASING
  | TRICORE_FLASH_PROGRAMMING | TRICORE_FLASH_VERIFYING | TRICORE_FLASH_DONE | TRICORE_FLASH_FAILED

datatype tricore_flash_ucb_outcome =
    TRICORE_FLASH_UCB_OFF | TRICORE_FLASH_UCB_OK | TRICORE_FLASH_UCB_FAILED

text \<open>\<open>memcpy(buf + at, src, n)\<close> on a buffer given as a function.\<close>

definition memcpy :: "(nat \<Rightarrow> 'a) \<Rightarrow> nat \<Rightarrow> 'a list \<Rightarrow> nat \<Rightarrow> 'a" where
  "memcpy buf at src = (\<lambda>i. if at \<le> i \<and> i < at + length src then src ! (i - at) else buf i)"

lemma memcpy_outside: "i < at \<or> at + length src \<le> i \<Longrightarrow> memcpy buf at src i = buf i"
  by (auto simp: memcpy_def)

lemma memcpy_inside: "i < length src \<Longrightarrow> memcpy buf at src (at + i) = src ! i"
  by (simp add: memcpy_def)

end
