(* ===== verification/Hex_Image.thy ===== *)
theory Hex_Image
  imports Flash_Api
begin

text \<open>
  \<open>main/network/flash_web.c\<close>: the Intel HEX upload. \<open>s_image\<close> is the record \<open>hex_image\<close>; the two
  PSRAM buffers are functions from the index, and the ghost field \<open>oob\<close> records whether a
  \<open>memcpy\<close> or a shift left its object. Characters are bytes. Parsing is a function from state to
  state, with the source's early returns as branches; the handlers take what the HTTP server and
  the allocator answer as arguments. \<open>s_image.error\<close> is the text without the terminating zero.
\<close>

section \<open>The image\<close>

definition HEX_PFLASH_BASE :: u32 where "HEX_PFLASH_BASE = 0xA0000000"
definition HEX_PFLASH_END :: u32 where "HEX_PFLASH_END = 0xA0800000"
definition HEX_PFLASH_CACHED_BASE :: u32 where "HEX_PFLASH_CACHED_BASE = 0x80000000"
definition IMAGE_MAX_BYTES :: u32 where "IMAGE_MAX_BYTES = 3 * 1024 * 1024"

lemmas hex_consts = HEX_PFLASH_BASE_def HEX_PFLASH_END_def HEX_PFLASH_CACHED_BASE_def
  IMAGE_MAX_BYTES_def flash_api_consts

record hex_image =
  data :: "nat \<Rightarrow> u8"
  lowest :: u32
  highest :: u32
  bytes :: u32
  skipped :: u32
  ucb :: "nat \<Rightarrow> u8"
  ucb_present :: u64
  ucb_bytes :: u32
  records :: u32
  upper :: u32
  bad :: bool
  error :: string
  line :: "u8 list"
  oob :: bool

section \<open>The parser\<close>

definition hex_nibble :: "u8 \<Rightarrow> int" where
  "hex_nibble c =
     (if c \<ge> 48 \<and> c \<le> 57 then uint c - 48
      else if c \<ge> 97 \<and> c \<le> 102 then uint c - 97 + 10
      else if c \<ge> 65 \<and> c \<le> 70 then uint c - 65 + 10
      else - 1)"

definition hex_fail :: "string \<Rightarrow> hex_image \<Rightarrow> hex_image" where
  "hex_fail why s = (if \<not> bad s then s\<lparr>bad := True, error := why\<rparr> else s)"

text \<open>The decoding loop of \<open>parse_record\<close>; \<open>None\<close> is a character that is not hexadecimal.\<close>

fun hex_bytes :: "u8 list \<Rightarrow> u8 list option" where
  "hex_bytes (c # d # cs) =
     (let hi = hex_nibble c; lo = hex_nibble d
      in if hi < 0 \<or> lo < 0 then None
         else do { bs \<leftarrow> hex_bytes cs; Some (word_of_int (16 * hi + lo) # bs) })"
| "hex_bytes _ = Some []"

text \<open>Bits of the slots the bytes \<open>[at, at + count)\<close> touch; a shift of 64 or more is undefined in C.\<close>

definition mark_slots :: "u32 \<Rightarrow> u32 \<Rightarrow> u64 \<Rightarrow> u64" where
  "mark_slots at count present =
     (if count = 0 then present
      else fold (\<lambda>slot p. p OR push_bit slot 1)
        [unat (at div TRICORE_UCB_SIZE) ..< unat ((at + count - 1) div TRICORE_UCB_SIZE) + 1] present)"

definition slots_in_range :: "u32 \<Rightarrow> u32 \<Rightarrow> bool" where
  "slots_in_range at count \<longleftrightarrow> count = 0 \<or> unat ((at + count - 1) div TRICORE_UCB_SIZE) < 64"

text \<open>\<open>case 0x00\<close>: data.\<close>

definition data_record :: "u16 \<Rightarrow> u8 list \<Rightarrow> hex_image \<Rightarrow> hex_image" where
  "data_record offset payload s =
     (let count = of_nat (length payload) :: u32;
          address = upper s + ucast offset;
          address = (if address \<ge> HEX_PFLASH_CACHED_BASE \<and> address < HEX_PFLASH_CACHED_BASE + 0x800000
                     then address - HEX_PFLASH_CACHED_BASE + HEX_PFLASH_BASE else address)
      in if address \<ge> TRICORE_UCB_BASE \<and> address + count \<le> TRICORE_UCB_BASE + TRICORE_UCB_WINDOW
         then let at = address - TRICORE_UCB_BASE
              in s\<lparr>ucb := memcpy (ucb s) (unat at) payload,
                   ucb_present := mark_slots at count (ucb_present s),
                   ucb_bytes := ucb_bytes s + count,
                   oob := oob s \<or> unat at + length payload > unat TRICORE_UCB_WINDOW
                          \<or> \<not> slots_in_range at count\<rparr>
         else if address < HEX_PFLASH_BASE \<or> address + count > HEX_PFLASH_END
         then s\<lparr>skipped := skipped s + count\<rparr>
         else let at = address - HEX_PFLASH_BASE
              in if at + count > IMAGE_MAX_BYTES
                 then hex_fail ''the image reaches past what this probe will hold'' s
                 else s\<lparr>data := memcpy (data s) (unat at) payload,
                        lowest := (if address < lowest s then address else lowest s),
                        highest := (if address + count > highest s then address + count else highest s),
                        bytes := bytes s + count,
                        oob := oob s \<or> unat at + length payload > unat IMAGE_MAX_BYTES\<rparr>)"

definition parse_record :: "u8 list \<Rightarrow> hex_image \<Rightarrow> hex_image" where
  "parse_record text s =
     (let len = length text
      in if len < 10 \<or> odd len
         then hex_fail ''a record has an odd or impossible length'' s
         else if len div 2 > 72
         then hex_fail ''a record is longer than this reader accepts'' s
         else case hex_bytes text of
           None \<Rightarrow> hex_fail ''a record contains something that is not hexadecimal'' s
         | Some raw \<Rightarrow>
             let count = raw ! 0;
                 offset = (push_bit 8 (ucast (raw ! 1)) OR ucast (raw ! 2)) :: u16;
                 kind = raw ! 3
             in if length raw \<noteq> unat count + 5
                then hex_fail ''a record's length byte does not match what it carries'' s
                else if sum_list raw \<noteq> 0
                then hex_fail ''a record's checksum does not add up'' s
                else let s = s\<lparr>records := records s + 1\<rparr>;
                         pair = (push_bit 8 (ucast (raw ! 4)) OR ucast (raw ! 5)) :: u32
                     in if kind = 0 then data_record offset (take (unat count) (drop 4 raw)) s
                        else if kind = 4 then
                          (if count \<noteq> 2 then hex_fail ''a type 04 record does not carry two bytes'' s
                           else s\<lparr>upper := push_bit 16 pair\<rparr>)
                        else if kind = 2 then
                          (if count \<noteq> 2 then hex_fail ''a type 02 record does not carry two bytes'' s
                           else s\<lparr>upper := push_bit 4 pair\<rparr>)
                        else if kind = 1 \<or> kind = 3 \<or> kind = 5 then s
                        else hex_fail ''a record has a type this reader does not know'' s)"

text \<open>One round of \<open>feed\<close>'s loop: 10 and 13 are the line ends, 58 the colon.\<close>

definition feed_char :: "u8 \<Rightarrow> hex_image \<Rightarrow> hex_image" where
  "feed_char c s =
     (if c = 10 \<or> c = 13 then
        (if line s \<noteq> [] then (parse_record (line s) s)\<lparr>line := []\<rparr> else s)
      else if c = 58 then s\<lparr>line := []\<rparr>
      else if length (line s) < 128 then s\<lparr>line := line s @ [c]\<rparr>
      else hex_fail ''a record is longer than this reader accepts'' s)"

fun feed :: "u8 list \<Rightarrow> hex_image \<Rightarrow> hex_image" where
  "feed [] s = s"
| "feed (c # cs) s = (if bad s then s else feed cs (feed_char c s))"

definition image_reset :: hex_image where
  "image_reset = \<lparr>data = (\<lambda>_. TRICORE_FLASH_ERASED), lowest = 0xFFFFFFFF, highest = 0, bytes = 0,
     skipped = 0, ucb = (\<lambda>_. 0), ucb_present = 0, ucb_bytes = 0, records = 0, upper = 0,
     bad = False, error = [], line = [], oob = False\<rparr>"

section \<open>The endpoints\<close>

text \<open>What a handler answers, by the response it sends.\<close>

datatype hex_reply =
    AlreadyRunning | NoMemoryForImage | NoBuffer | StoppedEarly | Rejected string
  | NothingInFlash | Accepted u32 u32 u32 u32 u32 u32 "nat list" | UploadFirst | NoTask | Started

text \<open>The receive loop: \<open>recv n want\<close> is what the \<open>n\<close>-th \<open>httpd_req_recv\<close> returns, empty for an
  error or a closed connection. \<open>False\<close> is "the upload stopped early".\<close>

function receive :: "(nat \<Rightarrow> nat \<Rightarrow> u8 list) \<Rightarrow> nat \<Rightarrow> int \<Rightarrow> hex_image \<Rightarrow> bool \<times> hex_image" where
  "receive recv n left s =
     (if left > 0 then
        let want = (if left > 4096 then 4096 else nat left);
            got = recv n want
        in if got = [] then (False, s)
           else receive recv (n + 1) (left - int (length got)) (feed got s)
      else (True, s))"
  by pat_completeness auto
termination
proof (relation "measure (\<lambda>(recv, n, left, s). nat left)")
  show "wf (measure (\<lambda>(recv, n, left, s). nat left))" by simp
next
  fix recv :: "nat \<Rightarrow> nat \<Rightarrow> u8 list" and n :: nat and left :: int and s :: hex_image and want and got :: "u8 list"
  assume "0 < left" "got \<noteq> []"
  then have "0 < length got" by simp
  with \<open>0 < left\<close> show "((recv, n + 1, left - int (length got), feed got s), recv, n, left, s)
      \<in> measure (\<lambda>(recv, n, left, s). nat left)"
    by simp
qed

declare receive.simps [simp del]

definition finish_upload :: "hex_image \<Rightarrow> hex_image" where
  "finish_upload s =
     (if \<not> bad s \<and> line s \<noteq> [] then (parse_record (line s) s)\<lparr>line := []\<rparr> else s)"

definition upload_verdict :: "hex_image \<Rightarrow> hex_reply" where
  "upload_verdict s =
     (if bad s then Rejected (error s)
      else if bytes s = 0 then NothingInFlash
      else Accepted (records s) (bytes s) (skipped s) (lowest s) (highest s) (ucb_bytes s)
        (filter (\<lambda>slot. bit (ucb_present s) slot) [0..<TRICORE_UCB_SLOTS]))"

definition flash_upload_handler ::
  "bool \<Rightarrow> bool \<Rightarrow> bool \<Rightarrow> (nat \<Rightarrow> nat \<Rightarrow> u8 list) \<Rightarrow> int \<Rightarrow> hex_image \<Rightarrow> hex_reply \<times> hex_image" where
  "flash_upload_handler task_running image_memory buffer recv content_len s =
     (if task_running then (AlreadyRunning, s)
      else if \<not> image_memory then (NoMemoryForImage, s)
      else if \<not> buffer then (NoBuffer, image_reset)
      else case receive recv 0 content_len image_reset of
        (False, s) \<Rightarrow> (StoppedEarly, s)
      | (True, s) \<Rightarrow> let s = finish_upload s in (upload_verdict s, s))"

text \<open>The region the programming task hands to \<open>tricore_flash_write\<close>.\<close>

definition flash_task_region :: "hex_image \<Rightarrow> tricore_flash_region" where
  "flash_task_region s =
     (let from = lowest s AND NOT (TRICORE_FLASH_PAGE - 1);
          to = (highest s + TRICORE_FLASH_PAGE - 1) AND NOT (TRICORE_FLASH_PAGE - 1)
      in \<lparr>rg_address = from, rg_length = to - from,
          rg_data = (\<lambda>i. data s (unat (from - HEX_PFLASH_BASE) + i))\<rparr>)"

text \<open>What \<open>flash_start_handler\<close> sets before it starts the task: block writes, differential
  mode and the UCB image, from the three query values (\<open>None\<close> when absent).\<close>

record flash_request =
  rq_blockwrite :: bool
  rq_differential :: bool
  rq_ucb :: "tricore_ucb_image option"

definition flash_start_handler ::
  "bool \<Rightarrow> bool \<Rightarrow> int option \<Rightarrow> int option \<Rightarrow> int option \<Rightarrow> hex_image
   \<Rightarrow> hex_reply \<times> flash_request option" where
  "flash_start_handler task_running task_created slow full ucb_query s =
     (if task_running then (AlreadyRunning, None)
      else if bytes s = 0 \<or> bad s then (UploadFirst, None)
      else let fast = (case slow of None \<Rightarrow> True | Some v \<Rightarrow> v = 0);
               full = (case full of None \<Rightarrow> False | Some v \<Rightarrow> v \<noteq> 0);
               with_ucb = (case ucb_query of None \<Rightarrow> False | Some v \<Rightarrow> v \<noteq> 0);
               image = \<lparr>ui_data = ucb s, ui_present = ucb_present s\<rparr>
           in if \<not> task_created
              then (NoTask, Some \<lparr>rq_blockwrite = fast, rq_differential = \<not> full, rq_ucb = None\<rparr>)
              else (Started, Some \<lparr>rq_blockwrite = fast, rq_differential = \<not> full,
                                   rq_ucb = (if with_ucb then Some image else None)\<rparr>))"

definition phase_name :: "tricore_flash_phase \<Rightarrow> string" where
  "phase_name phase = (case phase of
     TRICORE_FLASH_IDLE \<Rightarrow> ''idle''
   | TRICORE_FLASH_PREPARING \<Rightarrow> ''preparing''
   | TRICORE_FLASH_ERASING \<Rightarrow> ''erasing''
   | TRICORE_FLASH_PROGRAMMING \<Rightarrow> ''programming''
   | TRICORE_FLASH_VERIFYING \<Rightarrow> ''verifying''
   | TRICORE_FLASH_DONE \<Rightarrow> ''done''
   | _ \<Rightarrow> ''failed'')"

section \<open>A printer, and what the parser makes of its lines\<close>


lemma feed_bad: "bad s \<Longrightarrow> feed cs s = s"
  by (cases cs) simp_all

lemma feed_append: "feed (a @ b) s = feed b (feed a s)"
  by (induction a arbitrary: s) (simp_all add: feed_bad)

definition hex_digit :: "nat \<Rightarrow> u8" where
  "hex_digit d = (if d < 10 then of_nat (48 + d) else of_nat (55 + d))"

definition hex_text :: "u8 list \<Rightarrow> u8 list" where
  "hex_text raw = concat (map (\<lambda>b. [hex_digit (unat b div 16), hex_digit (unat b mod 16)]) raw)"

lemma hex_digit_all:
  "list_all (\<lambda>d. hex_nibble (hex_digit d) = int d \<and> hex_digit d \<notin> {10, 13, 58}) [0..<16]"
  by code_simp

lemma hex_digit_ok:
  assumes "d < 16"
  shows "hex_nibble (hex_digit d) = int d" "hex_digit d \<noteq> 10" "hex_digit d \<noteq> 13" "hex_digit d \<noteq> 58"
  using hex_digit_all assms by (simp_all add: list_all_iff)

lemma nibbles_of_byte: "unat (b :: u8) div 16 < 16" "unat b mod 16 < 16"
  "16 * of_nat (unat b div 16) + of_nat (unat b mod 16) = b"
proof -
  have "unat b < 256" using unsigned_less [of b] by simp
  then show "unat b div 16 < 16" "unat b mod 16 < 16" by auto
  have "of_nat (16 * (unat b div 16) + unat b mod 16) = b"
    by (simp only: mult_div_mod_eq) simp
  then show "16 * of_nat (unat b div 16) + of_nat (unat b mod 16) = b"
    by (simp only: of_nat_add of_nat_mult of_nat_numeral)
qed

lemma hex_bytes_text: "hex_bytes (hex_text raw) = Some raw"
  by (induction raw) (simp_all add: hex_text_def Let_def hex_digit_ok nibbles_of_byte)

lemma length_hex_text [simp]: "length (hex_text raw) = 2 * length raw"
  by (induction raw) (simp_all add: hex_text_def)

lemma hex_text_chars: "c \<in> set (hex_text raw) \<Longrightarrow> c \<noteq> 10 \<and> c \<noteq> 13 \<and> c \<noteq> 58"
  using hex_digit_ok nibbles_of_byte by (auto simp: hex_text_def)

lemma feed_text:
  assumes "\<forall>c\<in>set cs. c \<noteq> 10 \<and> c \<noteq> 13 \<and> c \<noteq> 58" "length (line s) + length cs \<le> 128" "\<not> bad s"
  shows "feed cs s = s\<lparr>line := line s @ cs\<rparr>"
  using assms by (induction cs arbitrary: s) (simp_all add: feed_char_def)

lemma hex_fail_line: "hex_fail why (s\<lparr>line := l\<rparr>) = (hex_fail why s)\<lparr>line := l\<rparr>"
  by (simp add: hex_fail_def)

lemma data_record_line: "data_record offset payload (s\<lparr>line := l\<rparr>) = (data_record offset payload s)\<lparr>line := l\<rparr>"
  by (simp add: data_record_def Let_def hex_fail_line)

lemma parse_record_line: "parse_record text (s\<lparr>line := l\<rparr>) = (parse_record text s)\<lparr>line := l\<rparr>"
proof -
  have r: "s\<lparr>line := l, records := n\<rparr> = s\<lparr>records := n, line := l\<rparr>"
    "s\<lparr>line := l, records := n, upper := u\<rparr> = s\<lparr>records := n, upper := u, line := l\<rparr>" for n u
    by simp_all
  show ?thesis
    by (simp add: parse_record_def Let_def hex_fail_line data_record_line r split: option.splits)
qed

definition record_line :: "u8 list \<Rightarrow> u8 list" where
  "record_line raw = [58] @ hex_text raw @ [13, 10]"

lemma feed_record_line:
  assumes "0 < length raw" "length raw \<le> 64" "\<not> bad s"
  shows "feed (record_line raw) s = (parse_record (hex_text raw) s)\<lparr>line := []\<rparr>"
proof -
  have "feed (hex_text raw) (s\<lparr>line := []\<rparr>) = s\<lparr>line := hex_text raw\<rparr>"
    using feed_text [of "hex_text raw" "s\<lparr>line := []\<rparr>"] assms hex_text_chars by simp
  moreover have "hex_text raw \<noteq> []" using assms(1) length_hex_text [of raw] by force
  ultimately show ?thesis
    using assms(3) by (simp add: record_line_def feed_append feed_char_def parse_record_line)
qed

definition hex_raw :: "u8 \<Rightarrow> u16 \<Rightarrow> u8 list \<Rightarrow> u8 list" where
  "hex_raw kind offset payload =
     (let body = [of_nat (length payload), ucast (drop_bit 8 offset), ucast offset, kind] @ payload
      in body @ [- sum_list body])"

lemma offset_of_bytes: "push_bit 8 (ucast (ucast (drop_bit 8 w) :: u8)) OR ucast (ucast w :: u8) = (w :: u16)"
  by (rule bit_word_eqI) (auto simp: bit_simps)

lemma parse_hex_raw:
  assumes "length payload \<le> 59"
  shows "parse_record (hex_text (hex_raw kind offset payload)) s =
    (let s = s\<lparr>records := records s + 1\<rparr>;
         count = of_nat (length payload) :: u8;
         pair = (push_bit 8 (ucast (hex_raw kind offset payload ! 4)) OR ucast (hex_raw kind offset payload ! 5)) :: u32
     in if kind = 0 then data_record offset payload s
        else if kind = 4 then
          (if count \<noteq> 2 then hex_fail ''a type 04 record does not carry two bytes'' s
           else s\<lparr>upper := push_bit 16 pair\<rparr>)
        else if kind = 2 then
          (if count \<noteq> 2 then hex_fail ''a type 02 record does not carry two bytes'' s
           else s\<lparr>upper := push_bit 4 pair\<rparr>)
        else if kind = 1 \<or> kind = 3 \<or> kind = 5 then s
        else hex_fail ''a record has a type this reader does not know'' s)"
proof -
  have n: "unat (of_nat (length payload) :: u8) = length payload"
    using assms by (simp add: unsigned_of_nat take_bit_eq_mod)
  have len: "length (hex_raw kind offset payload) = length payload + 5"
    by (simp add: hex_raw_def Let_def)
  have nth: "hex_raw kind offset payload ! 0 = of_nat (length payload)"
    "hex_raw kind offset payload ! 1 = ucast (drop_bit 8 offset)"
    "hex_raw kind offset payload ! 2 = ucast offset"
    "hex_raw kind offset payload ! 3 = kind"
    "take (length payload) (drop 4 (hex_raw kind offset payload)) = payload"
    by (simp_all add: hex_raw_def Let_def)
  have sum: "sum_list (hex_raw kind offset payload) = 0"
    by (simp add: hex_raw_def Let_def)
  show ?thesis
    using assms by (simp only: parse_record_def hex_bytes_text length_hex_text len nth sum n Let_def option.case
        offset_of_bytes) simp
qed


definition hex_segment :: "u32 \<times> u8 list \<Rightarrow> u8 list" where
  "hex_segment seg =
     record_line (hex_raw 4 0 [ucast (drop_bit 24 (fst seg)), ucast (drop_bit 16 (fst seg))]) @
     record_line (hex_raw 0 (ucast (fst seg)) (snd seg))"

definition in_flash_window :: "u32 \<times> u8 list \<Rightarrow> bool" where
  "in_flash_window seg \<longleftrightarrow> length (snd seg) \<le> 59 \<and> 0xA0000000 \<le> unat (fst seg) \<and>
     unat (fst seg) + length (snd seg) \<le> 0xA0300000"

lemma upper_bits:
  "push_bit 16 (push_bit 8 (ucast (ucast (drop_bit 24 a) :: u8)) OR ucast (ucast (drop_bit 16 a) :: u8))
     = (push_bit 16 (drop_bit 16 a) :: u32)"
proof (rule bit_word_eqI)
  fix n
  assume "n < LENGTH(32)"
  then show "bit (push_bit 16 (push_bit 8 (ucast (ucast (drop_bit 24 a) :: u8)) OR
      ucast (ucast (drop_bit 16 a) :: u8)) :: u32) n = bit (push_bit 16 (drop_bit 16 a)) n"
    by (cases "24 \<le> n") (auto simp: bit_simps)
qed

lemma upper_plus_offset: "push_bit 16 (drop_bit 16 a) + ucast (ucast a :: u16) = (a :: u32)"
proof -
  have "push_bit 16 (drop_bit 16 a) AND (ucast (ucast a :: u16) :: u32) = 0"
    by (rule bit_word_eqI) (auto simp: bit_simps)
  then have "push_bit 16 (drop_bit 16 a) + ucast (ucast a :: u16) =
      push_bit 16 (drop_bit 16 a) OR (ucast (ucast a :: u16) :: u32)"
    by (rule disjunctive_add_eq_or)
  also have "\<dots> = a"
    by (rule bit_word_eqI) (auto simp: bit_simps)
  finally show ?thesis .
qed

lemma data_record_in_flash:
  assumes "in_flash_window (upper s + ucast offset, payload)" 
  shows "data_record offset payload s =
    (let address = upper s + ucast offset; count = of_nat (length payload) :: u32
     in s\<lparr>data := memcpy (data s) (unat (address - HEX_PFLASH_BASE)) payload,
          lowest := min address (lowest s), highest := max (address + count) (highest s),
          bytes := bytes s + count\<rparr>)"
proof -
  define a where "a = upper s + ucast offset"
  define c :: u32 where "c = of_nat (length payload)"
  have len: "unat c = length payload"
    using assms by (simp add: c_def in_flash_window_def unsigned_of_nat take_bit_eq_mod)
  have le: "0xA0000000 \<le> unat a" "unat a + length payload \<le> 0xA0300000"
    using assms by (auto simp: in_flash_window_def a_def)
  then have sum: "unat (a + c) = unat a + length payload"
    by (simp add: unat_word_ariths len)
  have cmp: "\<not> HEX_PFLASH_CACHED_BASE + 0x800000 > a" "\<not> a \<ge> TRICORE_UCB_BASE" "\<not> a < HEX_PFLASH_BASE"
      "\<not> a + c > HEX_PFLASH_END"
    using le by (simp_all add: word_less_nat_alt word_le_nat_alt sum hex_consts)
  have at: "unat (a - HEX_PFLASH_BASE) = unat a - 0xA0000000"
    using le by (simp add: hex_consts unat_sub word_le_nat_alt)
  have fits: "\<not> (a - HEX_PFLASH_BASE) + c > IMAGE_MAX_BYTES"
    using le by (simp add: word_less_nat_alt unat_word_ariths(1) at len IMAGE_MAX_BYTES_def)
  have inb: "\<not> unat (a - HEX_PFLASH_BASE) + length payload > unat IMAGE_MAX_BYTES"
    using le by (simp add: at IMAGE_MAX_BYTES_def)
  show ?thesis
    unfolding data_record_def Let_def
    using cmp fits inb by (simp add: a_def [symmetric] c_def [symmetric] min_def max_def)
qed

lemma hex_segment_feed:
  assumes "in_flash_window seg" "\<not> bad s"
  shows "feed (hex_segment seg) s =
    (let count = of_nat (length (snd seg)) :: u32
     in s\<lparr>data := memcpy (data s) (unat (fst seg - HEX_PFLASH_BASE)) (snd seg),
          lowest := min (fst seg) (lowest s), highest := max (fst seg + count) (highest s),
          bytes := bytes s + count, records := records s + 2,
          upper := push_bit 16 (drop_bit 16 (fst seg)), line := []\<rparr>)"
proof -
  obtain a d where seg: "seg = (a, d)" by (cases seg)
  let ?hi = "ucast (drop_bit 24 a) :: u8" and ?lo = "ucast (drop_bit 16 a) :: u8"
  let ?u = "push_bit 16 (push_bit 8 (ucast ?hi) OR ucast ?lo) :: u32"
  have u: "?u = push_bit 16 (drop_bit 16 a)"
    by (rule upper_bits)
  have u': "(push_bit 16 (drop_bit 16 a)) + ucast (ucast a :: u16) = a"
    by (rule upper_plus_offset)
  have nth: "hex_raw 4 0 [?hi, ?lo] ! 4 = ?hi" "hex_raw 4 0 [?hi, ?lo] ! 5 = ?lo"
    by (simp_all add: hex_raw_def Let_def nth_append)
  have len: "0 < length (hex_raw k off d')" "length (hex_raw k off d') = length d' + 5" for k off d'
    by (simp_all add: hex_raw_def Let_def)
  have first: "feed (record_line (hex_raw 4 0 [?hi, ?lo])) s =
      s\<lparr>records := records s + 1, upper := push_bit 16 (drop_bit 16 a), line := []\<rparr>"
    using assms(2) by (simp add: feed_record_line len parse_hex_raw nth upper_bits [of a, simplified])
  have d: "length d \<le> 59" using assms(1) by (simp add: seg in_flash_window_def)
  let ?s1 = "s\<lparr>records := records s + 1, upper := push_bit 16 (drop_bit 16 a), line := []\<rparr>"
  have "feed (hex_segment seg) s =
      (data_record (ucast a) d (?s1\<lparr>records := records ?s1 + 1\<rparr>))\<lparr>line := []\<rparr>"
    using assms(2) d
    by (simp only: seg hex_segment_def feed_append first fst_conv snd_conv)
      (simp add: feed_record_line len parse_hex_raw)
  also have "\<dots> = (let s2 = ?s1\<lparr>records := records ?s1 + 1\<rparr>; count = of_nat (length d) :: u32
     in s2\<lparr>data := memcpy (data s2) (unat (a - HEX_PFLASH_BASE)) d,
          lowest := min a (lowest s2), highest := max (a + count) (highest s2),
          bytes := bytes s2 + count\<rparr>)\<lparr>line := []\<rparr>"
    using assms(1) by (subst data_record_in_flash) (simp_all add: seg u' Let_def)
  finally show ?thesis
    by (cases s) (simp add: seg Let_def)
qed

definition hex_file :: "(u32 \<times> u8 list) list \<Rightarrow> u8 list" where
  "hex_file segs = concat (map hex_segment segs)"

section \<open>The invariant of the upload\<close>

text \<open>The span of accepted bytes stays inside the buffer, and the line buffer is never overrun.\<close>


definition span_ok :: "hex_image \<Rightarrow> bool" where
  "span_ok s \<longleftrightarrow> (bytes s = 0 \<and> lowest s = 0xFFFFFFFF \<and> highest s = 0) \<or>
     (HEX_PFLASH_BASE \<le> lowest s \<and> lowest s \<le> highest s \<and>
      highest s \<le> HEX_PFLASH_BASE + IMAGE_MAX_BYTES)"

lemma accepted_span:
  fixes a c :: u32
  assumes "\<not> a < HEX_PFLASH_BASE" "\<not> a - HEX_PFLASH_BASE + c > IMAGE_MAX_BYTES" "unat c \<le> 255"
  shows "0xA0000000 \<le> unat a" "unat (a + c) = unat a + unat c"
    "unat a + unat c \<le> 0xA0300000" "unat (a - HEX_PFLASH_BASE) = unat a - 0xA0000000"
proof -
  show base: "0xA0000000 \<le> unat a"
    using assms(1) by (simp add: word_less_nat_alt hex_consts)
  then show at: "unat (a - HEX_PFLASH_BASE) = unat a - 0xA0000000"
    by (simp add: hex_consts unat_sub word_le_nat_alt)
  have lt: "unat a < 4294967296" using unsigned_less [of a] by simp
  have "unat (a - HEX_PFLASH_BASE + c) = unat a - 0xA0000000 + unat c"
    using assms(3) lt base by (simp add: unat_word_ariths(1) at)
  then show le: "unat a + unat c \<le> 0xA0300000"
    using assms(2) base by (simp add: word_less_nat_alt IMAGE_MAX_BYTES_def)
  then show "unat (a + c) = unat a + unat c"
    by (simp add: unat_word_ariths(1))
qed

lemma data_record_span:
  assumes "span_ok s" "length payload \<le> 255"
  shows "span_ok (data_record offset payload s)"
proof -
  define c :: u32 where "c = of_nat (length payload)"
  have c: "unat c \<le> 255"
    using assms(2) by (simp add: c_def unsigned_of_nat take_bit_eq_mod)
  have step: "span_ok (s\<lparr>data := d, lowest := (if a < lowest s then a else lowest s),
      highest := (if a + c > highest s then a + c else highest s), bytes := b, oob := x\<rparr>)"
    if "\<not> a < HEX_PFLASH_BASE" "\<not> a - HEX_PFLASH_BASE + c > IMAGE_MAX_BYTES" for a d b x
    using accepted_span [OF that c] assms(1)
    by (auto simp: span_ok_def word_less_nat_alt word_le_nat_alt hex_consts)
  show ?thesis
    unfolding data_record_def Let_def c_def [symmetric]
    using assms(1) step
    by (auto simp: hex_fail_def) (auto simp: span_ok_def)
qed

lemma data_record_in_bounds:
  assumes "length payload \<le> 255" "unat (upper s) + 0x10100 \<le> 0x100000000"
  shows "oob (data_record offset payload s) = oob s"
proof -
  define c :: u32 where "c = of_nat (length payload)"
  have c: "unat c = length payload"
    using assms(1) by (simp add: c_def unsigned_of_nat take_bit_eq_mod)
  define a0 where "a0 = upper s + ucast offset"
  have off: "unat (ucast offset :: u32) < 0x10000"
  proof -
    have "unat offset < 0x10000" using unsigned_less [of offset] by simp
    then show ?thesis by (simp add: unsigned_ucast_eq take_bit_eq_mod)
  qed
  then have a0: "unat a0 + length payload < 0x100000000"
    using assms by (simp add: a0_def unat_word_ariths(1))
  define a where "a = (if a0 \<ge> HEX_PFLASH_CACHED_BASE \<and> a0 < HEX_PFLASH_CACHED_BASE + 0x800000
      then a0 - HEX_PFLASH_CACHED_BASE + HEX_PFLASH_BASE else a0)"
  have moved: "unat (a0 - HEX_PFLASH_CACHED_BASE + HEX_PFLASH_BASE) + length payload < 0x100000000"
    if "a0 \<ge> HEX_PFLASH_CACHED_BASE" "a0 < HEX_PFLASH_CACHED_BASE + 0x800000"
  proof -
    have "unat (a0 - HEX_PFLASH_CACHED_BASE) = unat a0 - 0x80000000"
      using that(1) by (simp add: hex_consts unat_sub word_le_nat_alt)
    moreover have "unat a0 < 0x80800000"
      using that(2) by (simp add: hex_consts word_less_nat_alt)
    ultimately show ?thesis using assms(1) by (simp add: unat_word_ariths(1) HEX_PFLASH_BASE_def)
  qed
  have nowrap: "unat a + length payload < 0x100000000"
    using a0 moved by (auto simp: a_def)
  then have sum: "unat (a + c) = unat a + length payload"
    by (simp add: unat_word_ariths(1) c)
  have ucb: "unat (a - TRICORE_UCB_BASE) + length payload \<le> 0x6000 \<and> slots_in_range (a - TRICORE_UCB_BASE) c"
    if "a \<ge> TRICORE_UCB_BASE" "a + c \<le> TRICORE_UCB_BASE + TRICORE_UCB_WINDOW"
  proof -
    have at: "unat (a - TRICORE_UCB_BASE) = unat a - 0xAF400000" "0xAF400000 \<le> unat a"
      using that(1) by (simp_all add: hex_consts unat_sub word_le_nat_alt)
    have top: "unat a + length payload \<le> 0xAF406000"
      using that(2) by (simp add: word_le_nat_alt sum) (simp add: hex_consts)
    have "unat ((a - TRICORE_UCB_BASE + c - 1) div TRICORE_UCB_SIZE) < 64" if "c \<noteq> 0"
    proof -
      have pos: "0 < length payload" using that by (cases payload) (simp_all add: c_def)
      then have one: "1 \<le> unat a - 0xAF400000 + length payload" by linarith
      have s1: "unat (a - TRICORE_UCB_BASE + c) = unat a - 0xAF400000 + length payload"
        using top at by (simp add: unat_word_ariths(1) c)
      have "unat (a - TRICORE_UCB_BASE + c - 1) = unat a - 0xAF400000 + length payload - 1"
        by (subst unat_sub) (use one s1 in \<open>simp_all add: word_le_nat_alt\<close>)
      then have "unat (a - TRICORE_UCB_BASE + c - 1) < 0x6000" using top at(2) pos by linarith
      then show ?thesis by (simp add: unat_div TRICORE_UCB_SIZE_def)
    qed
    then show ?thesis using at top by (auto simp: slots_in_range_def)
  qed
  have flash: "unat (a - HEX_PFLASH_BASE) + length payload \<le> 0x300000"
    if "\<not> a < HEX_PFLASH_BASE" "\<not> a - HEX_PFLASH_BASE + c > IMAGE_MAX_BYTES"
    using accepted_span [OF that] assms(1) by (simp add: c)
  show ?thesis
    unfolding data_record_def Let_def c_def [symmetric] a0_def [symmetric] a_def [symmetric]
    using ucb flash
    by (auto simp: hex_fail_def) (auto simp: TRICORE_UCB_WINDOW_def IMAGE_MAX_BYTES_def)
qed

lemma pair_bound: "unat (push_bit 8 (ucast (a :: u8)) OR ucast (b :: u8) :: u32) < 0x10000"
proof -
  have "push_bit 8 (ucast a) OR ucast b = take_bit 16 (push_bit 8 (ucast a) OR ucast b :: u32)"
    by (rule bit_word_eqI) (auto simp: bit_simps dest: bit_imp_le_length)
  moreover have "unat (take_bit 16 w) < 0x10000" for w :: u32
    using take_bit_nat_less_exp [of 16 "unat w"] by (simp add: unsigned_take_bit_eq)
  ultimately show ?thesis by metis
qed

text \<open>The upper half set by the last type 04 or 02 record.\<close>

definition upper_ok :: "u32 \<Rightarrow> bool" where
  "upper_ok u \<longleftrightarrow> unat u \<le> 0xFFFE0000 \<or> u = 0xFFFF0000"

lemma upper_ok_records:
  assumes "unat (w :: u32) < 0x10000"
  shows "upper_ok (push_bit 16 w)" "upper_ok (push_bit 4 w)"
proof -
  have "unat (push_bit 16 w) = unat w * 65536" "unat (push_bit 4 w) = unat w * 16"
    using assms by (simp_all add: push_bit_eq_mult unat_word_ariths(2))
  moreover have "w = 0xFFFF" if "\<not> unat w \<le> 0xFFFE"
    using assms that by (intro word_unat_eq_iff [THEN iffD2]) simp
  ultimately show "upper_ok (push_bit 16 w)" "upper_ok (push_bit 4 w)"
    using assms by (cases "unat w \<le> 0xFFFE"; force simp: upper_ok_def)+
qed

lemma parse_record_elim:
  assumes "\<And>w. P (hex_fail w s)" "\<And>w. P (hex_fail w (s\<lparr>records := records s + 1\<rparr>))"
    "\<And>offset payload. length payload \<le> 255 \<Longrightarrow> P (data_record offset payload (s\<lparr>records := records s + 1\<rparr>))"
    "\<And>u. upper_ok u \<Longrightarrow> P (s\<lparr>records := records s + 1, upper := u\<rparr>)"
    "P (s\<lparr>records := records s + 1\<rparr>)"
  shows "P (parse_record text s)"
proof -
  have len: "length (take (unat (b :: u8)) xs) \<le> 255" for b and xs :: "u8 list"
  proof -
    have "unat b < 256" using unsigned_less [of b] by simp
    then show ?thesis by simp
  qed
  show ?thesis
    unfolding parse_record_def Let_def
    by (intro if_split [where P = P, THEN iffD2] option.split [where P = P, THEN iffD2] conjI impI allI
        assms len upper_ok_records pair_bound)
qed

lemma feed_char_step:
  assumes "upper_ok (upper s)" "span_ok s" "length (line s) \<le> 128"
  shows "upper_ok (upper (feed_char c s)) \<and> span_ok (feed_char c s) \<and> length (line (feed_char c s)) \<le> 128"
    "upper s \<noteq> 0xFFFF0000 \<Longrightarrow> oob (feed_char c s) = oob s"
proof -
  let ?s = "s\<lparr>records := records s + 1\<rparr>"
  have span: "span_ok ?s" using assms(2) by (simp add: span_ok_def)
  have frame: "upper (data_record o' d t) = upper t" "line (data_record o' d t) = line t" for o' d t
    by (simp_all add: data_record_def Let_def hex_fail_def)
  have in_bounds: "oob (data_record o' d ?s) = oob s"
    if "upper s \<noteq> 0xFFFF0000" "length d \<le> 255" for o' d
    using data_record_in_bounds [of d ?s o'] that assms(1) by (simp add: upper_ok_def)
  have step: "upper_ok (upper (parse_record ln s)) \<and> span_ok (parse_record ln s) \<and>
      line (parse_record ln s) = line s \<and>
      (upper s \<noteq> 0xFFFF0000 \<longrightarrow> oob (parse_record ln s) = oob s)" for ln
  proof (rule parse_record_elim [where P = "\<lambda>t. upper_ok (upper t) \<and> span_ok t \<and> line t = line s \<and>
        (upper s \<noteq> 0xFFFF0000 \<longrightarrow> oob t = oob s)"])
    fix offset and payload :: "u8 list" assume "length payload \<le> 255"
    then show "upper_ok (upper (data_record offset payload ?s)) \<and> span_ok (data_record offset payload ?s) \<and>
        line (data_record offset payload ?s) = line s \<and>
        (upper s \<noteq> 0xFFFF0000 \<longrightarrow> oob (data_record offset payload ?s) = oob s)"
      using assms(1) data_record_span [OF span] in_bounds by (simp add: frame)
  qed (use assms in \<open>auto simp: span_ok_def hex_fail_def\<close>)
  show "upper_ok (upper (feed_char c s)) \<and> span_ok (feed_char c s) \<and> length (line (feed_char c s)) \<le> 128"
    "upper s \<noteq> 0xFFFF0000 \<Longrightarrow> oob (feed_char c s) = oob s"
    using assms step [of "line s"] by (auto simp: feed_char_def hex_fail_def span_ok_def)
qed

lemma feed_invariant:
  assumes "upper_ok (upper s)" "span_ok s" "length (line s) \<le> 128"
  shows "upper_ok (upper (feed cs s)) \<and> span_ok (feed cs s) \<and> length (line (feed cs s)) \<le> 128"
  using assms
proof (induction cs arbitrary: s)
  case (Cons c cs)
  then show ?case using feed_char_step [OF Cons.prems, of c] by simp
qed simp

lemma receive_chunks:
  assumes "\<forall>i. n \<le> i \<and> i < n + k \<longrightarrow> chunks i \<noteq> []"
  shows "receive (\<lambda>i want. chunks i) n (int (length (concat (map chunks [n..<n + k])))) s =
    (True, feed (concat (map chunks [n..<n + k])) s)"
  using assms
proof (induction k arbitrary: n s)
  case 0
  then show ?case by (subst receive.simps) simp
next
  case (Suc k)
  define rest where "rest = concat (map chunks [Suc n..<Suc n + k])"
  have cat: "concat (map chunks [n..<n + Suc k]) = chunks n @ rest"
    by (simp add: rest_def upt_conv_Cons del: upt_Suc)
  have "chunks n \<noteq> []" using Suc.prems by simp
  moreover have "receive (\<lambda>i want. chunks i) (Suc n) (int (length rest)) t = (True, feed rest t)" for t
    using Suc.IH [of "Suc n" t] Suc.prems by (simp add: rest_def)
  moreover have "0 < int (length (chunks n)) + int (length rest)"
    using \<open>chunks n \<noteq> []\<close> by (simp add: add_pos_nonneg)
  ultimately show ?case
    unfolding cat by (subst receive.simps) (simp add: feed_append Let_def)
qed

section \<open>Properties\<close>

lemma feed_file:
  assumes "\<forall>seg\<in>set segs. in_flash_window seg" "\<not> bad s" "line s = []"
  defines "s' \<equiv> feed (hex_file segs) s"
  shows "\<not> bad s' \<and> line s' = [] \<and> oob s' = oob s \<and> records s' = records s + 2 * of_nat (length segs) \<and>
    data s' = fold (\<lambda>seg buf. memcpy buf (unat (fst seg - HEX_PFLASH_BASE)) (snd seg)) segs (data s) \<and>
    lowest s' = fold (\<lambda>seg. min (fst seg)) segs (lowest s) \<and>
    highest s' = fold (\<lambda>seg. max (fst seg + of_nat (length (snd seg)))) segs (highest s) \<and>
    bytes s' = bytes s + of_nat (sum_list (map (length \<circ> snd) segs)) \<and>
    ucb s' = ucb s \<and> ucb_present s' = ucb_present s \<and> ucb_bytes s' = ucb_bytes s \<and> skipped s' = skipped s"
  using assms(1,2,3) unfolding s'_def
proof (induction segs arbitrary: s)
  case Nil
  then show ?case by (simp add: hex_file_def)
next
  case (Cons seg segs)
  define t where "t = feed (hex_segment seg) s"
  have t: "t = (let count = of_nat (length (snd seg)) :: u32
     in s\<lparr>data := memcpy (data s) (unat (fst seg - HEX_PFLASH_BASE)) (snd seg),
          lowest := min (fst seg) (lowest s), highest := max (fst seg + count) (highest s),
          bytes := bytes s + count, records := records s + 2,
          upper := push_bit 16 (drop_bit 16 (fst seg)), line := []\<rparr>)"
    unfolding t_def by (rule hex_segment_feed) (use Cons.prems in auto)
  have "\<not> bad t" "line t = []" using Cons.prems by (simp_all add: t Let_def)
  with Cons.IH [of t] Cons.prems show ?case
    by (simp add: hex_file_def feed_append t_def [symmetric]) (simp add: t Let_def algebra_simps)
qed

lemma image_outside:
  "\<forall>seg\<in>set segs. \<not> (f seg \<le> i \<and> i < f seg + length (snd seg)) \<Longrightarrow>
    fold (\<lambda>seg buf. memcpy buf (f seg) (snd seg)) segs buf i = buf i"
  by (induction segs arbitrary: buf) (auto simp: memcpy_outside not_le not_less)

text \<open>C5: uploading an Intel HEX file of any number of segments (a type 04 record and a data record of at most 59
  bytes each, at uncached addresses of the part of program flash the image holds, between one byte and 4 GB in all),
  however the connection cuts it into pieces, is accepted with the right counts and the span of the union; every
  segment lies at its address in the image, later ones over earlier ones, over an image that is erased everywhere
  else, and no boot mode header is taken.\<close>

theorem upload_places_segments:
  assumes "\<forall>seg\<in>set segs. in_flash_window seg" "\<forall>i<k. chunks i \<noteq> []"
    and "concat (map chunks [0..<k]) = hex_file segs"
    and "0 < sum_list (map (length \<circ> snd) segs)" "sum_list (map (length \<circ> snd) segs) < 2 ^ 32"
  shows "\<exists>s'. flash_upload_handler False True True (\<lambda>i want. chunks i) (int (length (hex_file segs))) s =
      (Accepted (2 * of_nat (length segs)) (of_nat (sum_list (map (length \<circ> snd) segs))) 0
         (fold (\<lambda>seg. min (fst seg)) segs 0xFFFFFFFF)
         (fold (\<lambda>seg. max (fst seg + of_nat (length (snd seg)))) segs 0) 0 [], s') \<and>
    data s' = fold (\<lambda>seg buf. memcpy buf (unat (fst seg - HEX_PFLASH_BASE)) (snd seg)) segs (\<lambda>_. TRICORE_FLASH_ERASED) \<and>
    (\<forall>i. (\<forall>seg\<in>set segs. \<not> (unat (fst seg - HEX_PFLASH_BASE) \<le> i \<and>
        i < unat (fst seg - HEX_PFLASH_BASE) + length (snd seg))) \<longrightarrow> data s' i = TRICORE_FLASH_ERASED) \<and>
    \<not> oob s'"
proof -
  let ?s = "feed (hex_file segs) image_reset"
  have r: "receive (\<lambda>i want. chunks i) 0 (int (length (hex_file segs))) image_reset = (True, ?s)"
    using receive_chunks [of 0 k chunks image_reset] assms(2,3) by simp
  have f: "\<not> bad image_reset" "line image_reset = []" by (simp_all add: image_reset_def)
  note s = feed_file [OF assms(1) f]
  have slots: "filter (bit (0 :: u64)) xs = []" for xs by (induction xs) simp_all
  have n: "(of_nat (sum_list (map (length \<circ> snd) segs)) :: u32) \<noteq> 0"
  proof
    assume "(of_nat (sum_list (map (length \<circ> snd) segs)) :: u32) = 0"
    moreover have "unat (of_nat m :: u32) = m" if "m < 2 ^ 32" for m
      using that by (simp add: unsigned_of_nat take_bit_eq_mod)
    ultimately show False using assms(4,5) by (metis less_numeral_extra(3) unsigned_0)
  qed
  have fin: "finish_upload ?s = ?s" using s by (simp add: finish_upload_def)
  have "upload_verdict ?s = Accepted (2 * of_nat (length segs)) (of_nat (sum_list (map (length \<circ> snd) segs))) 0
         (fold (\<lambda>seg. min (fst seg)) segs 0xFFFFFFFF)
         (fold (\<lambda>seg. max (fst seg + of_nat (length (snd seg)))) segs 0) 0 []"
    unfolding upload_verdict_def using s n slots by (simp add: image_reset_def)
  then show ?thesis
    using s r fin image_outside [of segs "\<lambda>seg. unat (fst seg - HEX_PFLASH_BASE)"]
    by (simp add: flash_upload_handler_def) (simp add: image_reset_def)
qed

lemma upload_places_segments_witness:
  "let s' = snd (flash_upload_handler False True True (\<lambda>i want. [hex_file [(0xA0000010, [1, 2, 3]), (0xA0000011, [9])]] ! i)
     (int (length (hex_file [(0xA0000010, [1, 2, 3]), (0xA0000011, [9])]))) image_reset)
   in data s' 0x10 = 1 \<and> data s' 0x11 = 9 \<and> data s' 0x20 = 0xFF"
proof -
  let ?f = "hex_file [(0xA0000010, [1, 2, 3]), (0xA0000011, [9])]"
  have "?f \<noteq> []" by (simp add: hex_file_def hex_segment_def record_line_def)
  then show ?thesis
    using upload_places_segments [of "[(0xA0000010, [1, 2, 3]), (0xA0000011, [9])]" 1 "\<lambda>i. [?f] ! i" image_reset]
    by (auto simp: in_flash_window_def memcpy_def HEX_PFLASH_BASE_def TRICORE_FLASH_ERASED_def Let_def)
qed

text \<open>However TCP cuts the body of the upload into pieces, splitting records anywhere, the
  image after the receive loop is the one the whole text gives.\<close>

theorem upload_segmentation:
  assumes "\<forall>i<k. chunks i \<noteq> []" "cs = concat (map chunks [0..<k])"
  shows "receive (\<lambda>i want. chunks i) 0 (int (length cs)) s = (True, feed cs s)"
  using receive_chunks [of 0 k chunks s] assms by simp

lemma upload_segmentation_witness:
  "receive (\<lambda>i want. [[58, 48], [48, 13]] ! i) 0 4 image_reset = (True, feed [58, 48, 48, 13] image_reset)"
  using upload_segmentation [of 2 "\<lambda>i. [[58, 48], [48, 13]] ! i" "[58, 48, 48, 13]" image_reset]
  by (simp add: less_2_cases_iff upt_rec)

lemma oob_needs_top:
  "oob (feed cs image_reset) \<Longrightarrow> \<exists>n < length cs. upper (feed (take n cs) image_reset) = 0xFFFF0000"
proof (induction cs rule: rev_induct)
  case Nil
  then show ?case by (simp add: image_reset_def)
next
  case (snoc c cs)
  let ?s = "feed cs image_reset"
  have inv: "upper_ok (upper ?s) \<and> span_ok ?s \<and> length (line ?s) \<le> 128"
    by (rule feed_invariant) (simp_all add: image_reset_def upper_ok_def span_ok_def)
  show ?case
  proof (cases "oob ?s")
    case True
    then obtain n where "n < length cs" "upper (feed (take n cs) image_reset) = 0xFFFF0000"
      using snoc.IH by blast
    then show ?thesis by (intro exI [of _ n]) simp
  next
    case False
    then have "\<not> bad ?s" "oob (feed_char c ?s)" using snoc.prems by (auto simp: feed_append feed_bad split: if_splits)
    with False inv have "upper ?s = 0xFFFF0000" using feed_char_step(2) by blast
    then show ?thesis by (intro exI [of _ "length cs"]) simp
  qed
qed

text \<open>The record left in hand at the end is parsed as a line end would have it parsed.\<close>

lemma finish_is_line_end: "\<exists>cs'. finish_upload (feed cs s) = feed (cs @ cs') s \<and> length cs' \<le> 1"
proof (cases "\<not> bad (feed cs s) \<and> line (feed cs s) \<noteq> []")
  case True
  then have "finish_upload (feed cs s) = feed (cs @ [10]) s"
    by (simp add: finish_upload_def feed_append feed_char_def)
  then show ?thesis by (intro exI [of _ "[10]"]) simp
qed (auto simp: finish_upload_def intro: exI [of _ "[]"])


text \<open>The wrap happens: four bytes at FFFFFFFE pass the UCB window test.\<close>

lemma ucb_window_wrap:
  "oob (feed (record_line (hex_raw 4 0 [0xFF, 0xFF]) @ record_line (hex_raw 0 0xFFFE [1, 2, 3, 4])) image_reset)"
proof -
  have len: "length (hex_raw k off d) = length d + 5" for k off d
    by (simp add: hex_raw_def Let_def)
  have nth: "hex_raw 4 0 [0xFF, 0xFF] ! 4 = 0xFF" "hex_raw 4 0 [0xFF, 0xFF] ! 5 = 0xFF"
    by (simp_all add: hex_raw_def Let_def nth_append)
  have "feed (record_line (hex_raw 4 0 [0xFF, 0xFF])) image_reset =
      image_reset\<lparr>records := 1, upper := 0xFFFF0000\<rparr>"
    by (simp add: feed_record_line len parse_hex_raw nth image_reset_def)
  then show ?thesis
    by (simp add: feed_append feed_record_line len parse_hex_raw image_reset_def)
      (simp add: data_record_def Let_def hex_consts)
qed


text \<open>The region handed to the flasher after an accepted upload is whole pages, holds every
  accepted byte, and its data pointer and length stay inside the image buffer.\<close>

theorem flash_task_region_covers:
  assumes "s = finish_upload (feed cs image_reset)" "bytes s \<noteq> 0"
  shows "rg_address (flash_task_region s) mod TRICORE_FLASH_PAGE = 0 \<and>
    rg_length (flash_task_region s) mod TRICORE_FLASH_PAGE = 0 \<and>
    unat HEX_PFLASH_BASE \<le> unat (rg_address (flash_task_region s)) \<and>
    unat (rg_address (flash_task_region s)) \<le> unat (lowest s) \<and>
    unat (highest s) \<le> unat (rg_address (flash_task_region s)) + unat (rg_length (flash_task_region s)) \<and>
    unat (rg_address (flash_task_region s)) + unat (rg_length (flash_task_region s))
      \<le> unat HEX_PFLASH_BASE + unat IMAGE_MAX_BYTES"
proof -
  have inv: "span_ok (feed cs image_reset)"
    using feed_invariant [of image_reset cs] by (simp add: image_reset_def upper_ok_def span_ok_def)
  let ?t = "feed cs image_reset"
  have "upper_ok (upper ?t) \<and> span_ok ?t \<and> length (line ?t) \<le> 128"
    by (rule feed_invariant) (simp_all add: image_reset_def upper_ok_def span_ok_def)
  then have "span_ok s"
    using feed_char_step(1) [of ?t 10] unfolding assms(1) finish_upload_def feed_char_def by (auto split: if_splits)
  with assms(2) have w: "0xA0000000 \<le> unat (lowest s)" "unat (lowest s) \<le> unat (highest s)"
      "unat (highest s) \<le> 0xA0300000"
    by (auto simp: span_ok_def word_le_nat_alt hex_consts)
  define fr where "fr = rg_address (flash_task_region s)"
  define to where "to = (highest s + TRICORE_FLASH_PAGE - 1) AND NOT (TRICORE_FLASH_PAGE - 1)"
  have mask: "TRICORE_FLASH_PAGE - 1 = mask 5" by (simp add: mask_numeral TRICORE_FLASH_PAGE_def)
  have f: "unat fr = unat (lowest s) div 32 * 32"
    by (simp add: fr_def flash_task_region_def Let_def mask unat_align)
  have "unat (highest s + TRICORE_FLASH_PAGE - 1) = unat (highest s) + 31"
    using w(3) by (simp add: TRICORE_FLASH_PAGE_def unat_word_ariths(1))
  then have t: "unat to = (unat (highest s) + 31) div 32 * 32"
    by (simp add: to_def mask unat_align)
  have le: "unat fr \<le> unat to" using w(2) unfolding f t by (intro mult_right_mono div_le_mono) auto
  then have len: "unat (rg_length (flash_task_region s)) = unat to - unat fr"
    by (simp add: flash_task_region_def Let_def fr_def to_def unat_sub word_le_nat_alt)
  have mods: "rg_address (flash_task_region s) mod TRICORE_FLASH_PAGE = 0"
      "rg_length (flash_task_region s) mod TRICORE_FLASH_PAGE = 0"
    using f t by (simp_all add: word_unat_eq_iff unat_mod_distrib fr_def [symmetric] len TRICORE_FLASH_PAGE_def
        flip: diff_mult_distrib)
  show ?thesis
    using mods w le f t len by (simp add: fr_def [symmetric] hex_consts) (auto simp: field_simps)
qed

lemma flash_task_region_covers_witness:
  "rg_address (flash_task_region (finish_upload (feed (hex_segment (0xA0000013, [1, 2])) image_reset)))
     mod TRICORE_FLASH_PAGE = 0"
proof -
  have "feed (hex_segment (0xA0000013, [1, 2])) image_reset =
      (let count = of_nat (length [1::u8, 2]) :: u32
       in image_reset\<lparr>data := memcpy (data image_reset) (unat (0xA0000013 - HEX_PFLASH_BASE)) [1, 2],
          lowest := min 0xA0000013 (lowest image_reset),
          highest := max (0xA0000013 + count) (highest image_reset),
          bytes := bytes image_reset + count, records := records image_reset + 2,
          upper := push_bit 16 (drop_bit 16 0xA0000013), line := []\<rparr>)"
    using hex_segment_feed [of "(0xA0000013, [1, 2])" image_reset]
    by (simp add: in_flash_window_def image_reset_def)
  then have "bytes (finish_upload (feed (hex_segment (0xA0000013, [1, 2])) image_reset)) \<noteq> 0"
    by (simp add: finish_upload_def image_reset_def Let_def)
  with flash_task_region_covers [of _ "hex_segment (0xA0000013, [1, 2])"] show ?thesis by blast
qed

end
