(* ===== verification/Dap_Frame.thy ===== *)
theory Dap_Frame
  imports Prelude
begin

text \<open>
  \<open>components/dap_probe/dap_frame.c\<close>: assembly of a DAP frame and the two CRC6 circuits. A bit
  on the wire is a byte holding 0 or 1, as in the C arrays; the bit array of a frame is a list
  of the array's fixed length. The lemmas relate the generator (a Galois register) to the
  checker (a Fibonacci register), which the source implements independently of each other,
  describe a built frame bit by bit, and show what corruption the checker rejects.
\<close>

section \<open>CRC6\<close>

definition CRC6_GALOIS_POLY :: u8 where "CRC6_GALOIS_POLY = 0x30"
definition CRC6_GALOIS_SEED :: u8 where "CRC6_GALOIS_SEED = 0x20"
definition CRC6_FIBO_POLY :: u8 where "CRC6_FIBO_POLY = 0x03"
definition CRC6_FIBO_SEED :: u8 where "CRC6_FIBO_SEED = 0x3F"

lemmas crc6_consts = CRC6_GALOIS_POLY_def CRC6_GALOIS_SEED_def CRC6_FIBO_POLY_def CRC6_FIBO_SEED_def

definition crc6_galois_step :: "u8 \<Rightarrow> u8 \<Rightarrow> u8" where
  "crc6_galois_step crc b =
     (let feedback = (crc XOR b) AND 1;
          crc = drop_bit 1 crc
      in if feedback \<noteq> 0 then crc XOR CRC6_GALOIS_POLY else crc)"

definition dap_crc6 :: "u8 list \<Rightarrow> nat \<Rightarrow> u8" where
  "dap_crc6 bits nbits = foldl crc6_galois_step CRC6_GALOIS_SEED (take nbits bits) AND 0x3F"

text \<open>One round of the checker: the taps XORed with the incoming bit, shifted in at the top.\<close>

definition crc6_fibo_feedback :: "u8 \<Rightarrow> u8 \<Rightarrow> u8" where
  "crc6_fibo_feedback state b =
     foldl (\<lambda>feedback tap. if drop_bit tap CRC6_FIBO_POLY AND 1 \<noteq> 0
                           then feedback XOR (drop_bit tap state AND 1) else feedback)
       (b AND 1) [0..<6]"

definition crc6_fibo_step :: "u8 \<Rightarrow> u8 \<Rightarrow> u8" where
  "crc6_fibo_step state b =
     (drop_bit 1 state OR push_bit 5 (crc6_fibo_feedback state b)) AND 0x3F"

definition dap_crc6_residue_ok :: "u8 list \<Rightarrow> nat \<Rightarrow> bool" where
  "dap_crc6_residue_ok bits nbits \<longleftrightarrow>
     foldl crc6_fibo_step CRC6_FIBO_SEED (take nbits bits) AND 0x3F = 0"

section \<open>Frames\<close>

definition DAP_FRAME_MAX_BITS :: nat where
  "DAP_FRAME_MAX_BITS = 1 + 5 + 6 + 63 + 6 + 1"

definition DAP_CMD_SYNC :: u8 where "DAP_CMD_SYNC = 0x10"
definition DAP_CMD_DAPISC :: u8 where "DAP_CMD_DAPISC = 0x11"
definition DAP_CMD_CLIENT_READ :: u8 where "DAP_CMD_CLIENT_READ = 0x1A"
definition DAP_CMD_CLIENT_WRITE :: u8 where "DAP_CMD_CLIENT_WRITE = 0x08"
definition DAP_CMD_CLIENT_SET :: u8 where "DAP_CMD_CLIENT_SET = 0x1C"

record dap_frame =
  f_bit :: "u8 list"       \<comment> \<open>\<open>bit\<close>\<close>
  f_len :: nat             \<comment> \<open>\<open>len\<close>\<close>
  f_cmd :: u8              \<comment> \<open>\<open>cmd\<close>\<close>
  f_len_field :: u8        \<comment> \<open>\<open>len_field\<close>\<close>
  f_data :: u64            \<comment> \<open>\<open>data\<close>\<close>
  f_data_bits :: nat       \<comment> \<open>\<open>data_bits\<close>\<close>

text \<open>\<open>(uint8_t)((value >> i) & 1u)\<close>\<close>

definition bit_at :: "'a::len word \<Rightarrow> nat \<Rightarrow> u8" where
  "bit_at value i = ucast (drop_bit i value AND 1)"

text \<open>\<open>f->bit[f->len++] = b\<close>\<close>

definition frame_push :: "dap_frame \<Rightarrow> u8 \<Rightarrow> dap_frame" where
  "frame_push f b = f\<lparr>f_bit := (f_bit f)[f_len f := b], f_len := f_len f + 1\<rparr>"

definition dap_frame_put :: "dap_frame \<Rightarrow> u32 \<Rightarrow> nat \<Rightarrow> bool \<times> dap_frame" where
  "dap_frame_put f value nbits =
     (if f_len f + nbits > DAP_FRAME_MAX_BITS then (False, f)
      else (True, foldl (\<lambda>f i. frame_push f (bit_at value i)) f [0..<nbits]))"

text \<open>The copy loop of \<open>dap_frame_build\<close>, which gives up when the array is full.\<close>

fun frame_copy :: "dap_frame \<Rightarrow> u8 list \<Rightarrow> bool \<times> dap_frame" where
  "frame_copy f [] = (True, f)"
| "frame_copy f (b # bs) =
     (if f_len f \<ge> DAP_FRAME_MAX_BITS then (False, f) else frame_copy (frame_push f b) bs)"

definition dap_frame_payload :: "u8 \<Rightarrow> u8 \<Rightarrow> u64 \<Rightarrow> nat \<Rightarrow> u8 list" where
  "dap_frame_payload cmd len_field data data_bits =
     map (bit_at cmd) [0..<5] @ map (bit_at len_field) [0..<6] @ map (bit_at data) [0..<data_bits]"

definition dap_frame_build ::
    "dap_frame \<Rightarrow> u8 \<Rightarrow> u8 \<Rightarrow> u64 \<Rightarrow> nat \<Rightarrow> bool \<times> dap_frame" where
  "dap_frame_build f cmd len_field data data_bits =
     (if cmd > 0x1F \<or> len_field > 63 \<or> data_bits > 63 then (False, f)
      else let
        f = f\<lparr>f_cmd := cmd, f_len_field := len_field, f_data := data, f_data_bits := data_bits\<rparr>;
        payload = dap_frame_payload cmd len_field data data_bits;
        crc = dap_crc6 payload (length payload);
        (ok, f) = dap_frame_put (f\<lparr>f_len := 0\<rparr>) 1 1
      in if \<not> ok then (False, f)
         else let (ok, f) = frame_copy f payload
           in if \<not> ok then (False, f)
              else let (ok, f) = dap_frame_put f (ucast crc) 6
                in if \<not> ok then (False, f) else dap_frame_put f 0 1)"

definition dap_frame_word :: "dap_frame \<Rightarrow> u64" where
  "dap_frame_word f =
     foldl (\<lambda>word i. word OR push_bit i (ucast (f_bit f ! i AND 1))) 0 [0..<min (f_len f) 64]"

definition dap_client_read_payload :: "u8 \<Rightarrow> u8 \<Rightarrow> u8" where
  "dap_client_read_payload io_instruction size_exponent =
     (io_instruction AND 0x0F) OR push_bit 4 (size_exponent AND 0x07)"

text \<open>A frame object: its array has the declared length.\<close>

definition wf_frame :: "dap_frame \<Rightarrow> bool" where
  "wf_frame f \<longleftrightarrow> length (f_bit f) = DAP_FRAME_MAX_BITS"

definition empty_frame :: dap_frame where
  "empty_frame = \<lparr>f_bit = replicate DAP_FRAME_MAX_BITS 0, f_len = 0, f_cmd = 0, f_len_field = 0,
     f_data = 0, f_data_bits = 0\<rparr>"

section \<open>The two registers agree\<close>

lemma bit_at_eq: "bit_at w i = of_bool (bit w i)"
  by (rule bit_word_eqI) (auto simp: bit_at_def bit_simps)

lemma less_8_cases: "(n::nat) < 8 \<Longrightarrow> n = 0 \<or> n = 1 \<or> n = 2 \<or> n = 3 \<or> n = 4 \<or> n = 5 \<or> n = 6 \<or> n = 7"
  by arith

lemma crc6_fibo_feedback_eq:
  "crc6_fibo_feedback f b = of_bool (bit b 0 \<noteq> (bit f 0 \<noteq> bit f 1))"
  by (rule bit_word_eqI)
    (auto simp: crc6_fibo_feedback_def crc6_consts upt_rec bit_simps)

lemma bit_0x3F [simp]: "bit (63 :: int) n \<longleftrightarrow> n < 6"
proof -
  have "(63 :: int) = mask 6" by (simp add: mask_eq_exp_minus_1)
  show ?thesis unfolding \<open>(63 :: int) = mask 6\<close> by (simp add: bit_mask_iff)
qed

lemma bit_0x30 [simp]: "bit (48 :: int) n \<longleftrightarrow> n = 4 \<or> n = 5"
proof -
  have "(48 :: int) = push_bit 4 (mask 2)" by (simp add: mask_eq_exp_minus_1)
  show ?thesis unfolding \<open>(48 :: int) = push_bit 4 (mask 2)\<close> by (auto simp: bit_simps)
qed

lemma bit_crc6_fibo_step:
  "bit (crc6_fibo_step f b) n \<longleftrightarrow>
     n < 6 \<and> (if n = 5 then bit f 6 \<or> (bit b 0 \<noteq> (bit f 0 \<noteq> bit f 1)) else bit f (Suc n))"
  by (auto simp: crc6_fibo_step_def crc6_fibo_feedback_eq bit_simps)

lemma and_1_neq_0_iff: "(w :: 'a::len word) AND 1 \<noteq> 0 \<longleftrightarrow> bit w 0"
  by (simp add: and_one_eq bit_0 odd_iff_mod_2_eq_one)

lemma bit_crc6_galois_step:
  "bit (crc6_galois_step g b) n \<longleftrightarrow>
     (bit g (Suc n) \<noteq> ((bit g 0 \<noteq> bit b 0) \<and> (n = 4 \<or> n = 5)))"
  by (auto simp: crc6_galois_step_def Let_def crc6_consts and_1_neq_0_iff bit_simps)

text \<open>Six-bit states, and the change of coordinates between the two circuits: the Galois state is
  the Gray code of the Fibonacci state.\<close>

definition crc6_state :: "u8 \<Rightarrow> bool" where
  "crc6_state f \<longleftrightarrow> f AND 0x3F = f"

definition crc6_gray :: "u8 \<Rightarrow> u8" where
  "crc6_gray f = f XOR drop_bit 1 f"

lemma crc6_state_bit: "crc6_state f \<longleftrightarrow> (\<forall>n. bit f n \<longrightarrow> n < 6)"
proof -
  have "bit f n \<longrightarrow> n < 8" for n using bit_imp_le_length [of f n] by simp
  then show ?thesis unfolding crc6_state_def by (fastforce simp: bit_eq_iff bit_simps)
qed

lemma crc6_state_fibo [simp]: "crc6_state (crc6_fibo_step f b)"
  by (auto simp: crc6_state_bit bit_crc6_fibo_step)

lemma crc6_state_galois: "crc6_state g \<Longrightarrow> crc6_state (crc6_galois_step g b)"
  by (auto simp: crc6_state_bit bit_crc6_galois_step)

lemma crc6_gray_step:
  assumes "crc6_state f"
  shows "crc6_gray (crc6_fibo_step f b) = crc6_galois_step (crc6_gray f) b"
  using assms
  by (intro bit_word_eqI)
    (auto simp: crc6_gray_def bit_simps bit_crc6_fibo_step bit_crc6_galois_step crc6_state_bit)

lemma crc6_state_run_fibo: "crc6_state f \<Longrightarrow> crc6_state (foldl crc6_fibo_step f bs)"
  by (induction bs arbitrary: f) auto

lemma crc6_state_run_galois: "crc6_state f \<Longrightarrow> crc6_state (foldl crc6_galois_step f bs)"
  by (induction bs arbitrary: f) (auto simp: crc6_state_galois)

lemma crc6_gray_run:
  "crc6_state f \<Longrightarrow> crc6_gray (foldl crc6_fibo_step f bs) = foldl crc6_galois_step (crc6_gray f) bs"
  by (induction bs arbitrary: f) (auto simp: crc6_gray_step)

lemma crc6_state_seed [simp]: "crc6_state CRC6_FIBO_SEED"
  by (simp add: crc6_state_def crc6_consts)

lemma crc6_gray_seed: "crc6_gray CRC6_FIBO_SEED = CRC6_GALOIS_SEED"
  by (simp add: crc6_gray_def crc6_consts)

lemma dap_crc6_gray:
  "dap_crc6 bs (length bs) = crc6_gray (foldl crc6_fibo_step CRC6_FIBO_SEED bs)"
proof -
  have "crc6_state (foldl crc6_galois_step CRC6_GALOIS_SEED bs)"
    by (intro crc6_state_run_galois) (simp add: crc6_state_def crc6_consts)
  then show ?thesis
    by (simp add: dap_crc6_def crc6_gray_run [OF crc6_state_seed] crc6_gray_seed crc6_state_def)
qed

lemma crc6_state_zero_iff:
  assumes "crc6_state g"
  shows "g = 0 \<longleftrightarrow>
    \<not> bit g 0 \<and> \<not> bit g 1 \<and> \<not> bit g 2 \<and> \<not> bit g 3 \<and> \<not> bit g 4 \<and> \<not> bit g 5"
proof -
  have "g = 0" if none: "\<not> bit g 0" "\<not> bit g 1" "\<not> bit g 2" "\<not> bit g 3" "\<not> bit g 4" "\<not> bit g 5"
  proof (rule bit_word_eqI)
    fix n :: nat
    consider "n = 0" | "n = 1" | "n = 2" | "n = 3" | "n = 4" | "n = 5" | "\<not> n < 6" by linarith
    then show "bit g n = bit 0 n"
      using none assms by cases (auto simp: crc6_state_bit)
  qed
  then show ?thesis by auto
qed

text \<open>Feeding six bits replaces the whole state by the six feedback bits, so the state drains to
  zero exactly on the Gray code of where it started.\<close>

lemma crc6_drain:
  assumes st: "crc6_state f"
  shows "foldl crc6_fibo_step f [c0, c1, c2, c3, c4, c5] = 0 \<longleftrightarrow>
     bit c0 0 = bit (crc6_gray f) 0 \<and> bit c1 0 = bit (crc6_gray f) 1 \<and>
     bit c2 0 = bit (crc6_gray f) 2 \<and> bit c3 0 = bit (crc6_gray f) 3 \<and>
     bit c4 0 = bit (crc6_gray f) 4 \<and> bit c5 0 = bit (crc6_gray f) 5"
proof -
  have nf: "\<not> bit f 6" using st by (auto simp: crc6_state_bit)
  show ?thesis
    unfolding crc6_state_zero_iff [OF crc6_state_run_fibo [OF st, of "[c0, c1, c2, c3, c4, c5]"]]
    using nf by (auto simp: bit_crc6_fibo_step crc6_gray_def bit_simps numeral_eq_Suc)
qed

lemma list6: "length cs = 6 \<Longrightarrow> \<exists>c0 c1 c2 c3 c4 c5. cs = [c0, c1, c2, c3, c4, c5]"
  by (auto simp: numeral_eq_Suc length_Suc_conv)

lemma all_less_6: "(\<forall>i<6. P i) \<longleftrightarrow> P 0 \<and> P 1 \<and> P 2 \<and> P 3 \<and> P 4 \<and> P (5 :: nat)"
proof -
  have "{i :: nat. i < 6} = {0, 1, 2, 3, 4, 5}" by auto
  then show ?thesis by (auto simp: set_eq_iff)
qed

lemma residue_ok_iff:
  assumes "length cs = 6"
  shows "dap_crc6_residue_ok (bs @ cs) (length bs + 6) \<longleftrightarrow>
     (\<forall>i<6. bit (cs ! i) 0 = bit (dap_crc6 bs (length bs)) i)"
proof -
  obtain c0 c1 c2 c3 c4 c5 where cs: "cs = [c0, c1, c2, c3, c4, c5]"
    using list6 [OF assms] by blast
  let ?f = "foldl crc6_fibo_step CRC6_FIBO_SEED bs"
  have st: "crc6_state ?f" by (simp add: crc6_state_run_fibo)
  have "dap_crc6_residue_ok (bs @ cs) (length bs + 6) \<longleftrightarrow>
      foldl crc6_fibo_step ?f [c0, c1, c2, c3, c4, c5] = 0"
    using crc6_state_run_fibo [OF st, of cs]
    by (simp add: dap_crc6_residue_ok_def cs crc6_state_def)
  also have "\<dots> \<longleftrightarrow> (\<forall>i<6. bit (cs ! i) 0 = bit (dap_crc6 bs (length bs)) i)"
    unfolding crc6_drain [OF st] dap_crc6_gray all_less_6 by (simp add: cs)
  finally show ?thesis .
qed


text \<open>Damage confined to six consecutive bits: one round is injective in the state and in the bit,
  and after \<open>k \<le> 6\<close> rounds the bits fed can be read off the top \<open>k\<close> bits of the state.\<close>

lemma crc6_fibo_step_inj:
  assumes "crc6_state f" "crc6_state g" "crc6_fibo_step f b = crc6_fibo_step g b"
  shows "f = g"
proof (rule bit_word_eqI)
  fix n :: nat
  have step: "bit (crc6_fibo_step f b) k = bit (crc6_fibo_step g b) k" for k
    using assms(3) by simp
  have nz: "\<not> bit f 6" "\<not> bit g 6" using assms by (auto simp: crc6_state_bit)
  have low: "bit f (Suc k) = bit g (Suc k)" if "k < 5" for k
    using step [of k] that by (simp add: bit_crc6_fibo_step)
  have "bit f 0 = bit g 0"
    using step [of 5] low [of 0] nz by (auto simp: bit_crc6_fibo_step)
  then show "bit f n = bit g n"
    using low [of "n - 1"] assms(1,2) by (cases n) (auto simp: crc6_state_bit)
qed

lemma crc6_run_inj:
  "crc6_state f \<Longrightarrow> crc6_state g \<Longrightarrow> foldl crc6_fibo_step f bs = foldl crc6_fibo_step g bs \<Longrightarrow> f = g"
proof (induction bs arbitrary: f g)
  case (Cons b bs)
  from Cons.IH [OF crc6_state_fibo crc6_state_fibo] Cons.prems(3)
  have "crc6_fibo_step f b = crc6_fibo_step g b" by simp
  with Cons.prems(1,2) show ?case by (rule crc6_fibo_step_inj)
qed simp

lemma crc6_fibo_step_cong: "bit a 0 = bit b 0 \<Longrightarrow> crc6_fibo_step g a = crc6_fibo_step g b"
  by (intro bit_word_eqI) (simp add: bit_crc6_fibo_step)

lemma crc6_run_cong:
  "map (\<lambda>b. bit b 0) us = map (\<lambda>b. bit b 0) vs
   \<Longrightarrow> foldl crc6_fibo_step g us = foldl crc6_fibo_step g vs"
proof (induction us arbitrary: vs g)
  case (Cons u us)
  then obtain v vs' where vs: "vs = v # vs'" and v: "bit u 0 = bit v 0"
    and us: "map (\<lambda>b. bit b 0) us = map (\<lambda>b. bit b 0) vs'" by auto
  show ?case using Cons.IH [OF us] crc6_fibo_step_cong [OF v] by (simp add: vs)
qed simp

lemma crc6_burst_readable:
  assumes "length us = length vs" "length us \<le> 6" "crc6_state f"
    and "\<forall>n. 6 - length us \<le> n \<longrightarrow>
           bit (foldl crc6_fibo_step f us) n = bit (foldl crc6_fibo_step f vs) n"
  shows "map (\<lambda>b. bit b 0) us = map (\<lambda>b. bit b 0) vs"
  using assms
proof (induction us arbitrary: vs rule: rev_induct)
  case Nil
  then show ?case by simp
next
  case (snoc u us)
  from snoc.prems(1) obtain vs' v where vs: "vs = vs' @ [v]" and len: "length us = length vs'"
    by (cases vs rule: rev_cases) auto
  let ?s = "foldl crc6_fibo_step f us" and ?t = "foldl crc6_fibo_step f vs'"
  have nz: "\<not> bit ?s 6" "\<not> bit ?t 6" "crc6_state ?s" "crc6_state ?t"
    using crc6_state_run_fibo [OF snoc.prems(3)] by (auto simp: crc6_state_bit)
  have eq: "bit (crc6_fibo_step ?s u) n = bit (crc6_fibo_step ?t v) n"
    if "5 - length us \<le> n" for n
    using snoc.prems(4) that by (simp add: vs)
  have top: "bit ?s n = bit ?t n" if "6 - length us \<le> n" for n
  proof (cases "n < 6")
    case True
    with that snoc.prems(2) have "5 - length us \<le> n - 1" "n - 1 < 5" "n \<noteq> 0" by auto
    then show ?thesis using eq [of "n - 1"] by (simp add: bit_crc6_fibo_step)
  next
    case False
    then show ?thesis using nz by (auto simp: crc6_state_bit)
  qed
  have us: "map (\<lambda>b. bit b 0) us = map (\<lambda>b. bit b 0) vs'"
    using snoc.IH [of vs'] snoc.prems(2,3) len top by simp
  have same: "?s = ?t" by (rule crc6_run_cong [OF us])
  have "bit u 0 = bit v 0"
    using eq [of 5] same nz by (auto simp: bit_crc6_fibo_step)
  with us show ?case by (simp add: vs)
qed


section \<open>What a built frame holds\<close>

text \<open>The bits on the wire, in transmission order.\<close>

definition frame_bits :: "dap_frame \<Rightarrow> u8 list" where
  "frame_bits f = take (f_len f) (f_bit f)"

lemma frame_push_simps [simp]:
  "f_len (frame_push f b) = Suc (f_len f)"
  "wf_frame (frame_push f b) = wf_frame f"
  "f_cmd (frame_push f b) = f_cmd f"
  "f_len_field (frame_push f b) = f_len_field f"
  "f_data (frame_push f b) = f_data f"
  "f_data_bits (frame_push f b) = f_data_bits f"
  by (simp_all add: frame_push_def wf_frame_def)

lemma frame_bits_push:
  "wf_frame f \<Longrightarrow> f_len f < DAP_FRAME_MAX_BITS \<Longrightarrow> frame_bits (frame_push f b) = frame_bits f @ [b]"
  by (simp add: frame_bits_def frame_push_def wf_frame_def take_Suc_conv_app_nth)

definition same_fields :: "dap_frame \<Rightarrow> dap_frame \<Rightarrow> bool" where
  "same_fields f g \<longleftrightarrow> f_cmd f = f_cmd g \<and> f_len_field f = f_len_field g \<and>
     f_data f = f_data g \<and> f_data_bits f = f_data_bits g"

lemma frame_push_all:
  "wf_frame f \<Longrightarrow> f_len f + length xs \<le> DAP_FRAME_MAX_BITS \<Longrightarrow>
   let g = foldl (\<lambda>f i. frame_push f (b i)) f xs
   in wf_frame g \<and> f_len g = f_len f + length xs \<and> same_fields g f \<and>
      frame_bits g = frame_bits f @ map b xs"
proof (induction xs arbitrary: f)
  case (Cons x xs)
  from Cons.IH [of "frame_push f (b x)"] Cons.prems show ?case
    by (simp add: Let_def frame_bits_push same_fields_def)
qed (simp add: same_fields_def)

lemma frame_copy_all:
  "wf_frame f \<Longrightarrow> f_len f + length bs \<le> DAP_FRAME_MAX_BITS \<Longrightarrow>
   \<exists>g. frame_copy f bs = (True, g) \<and> wf_frame g \<and> f_len g = f_len f + length bs \<and>
      same_fields g f \<and> frame_bits g = frame_bits f @ bs"
proof (induction bs arbitrary: f)
  case (Cons b bs)
  from Cons.IH [of "frame_push f b"] Cons.prems show ?case
    by (auto simp: frame_bits_push same_fields_def)
qed (simp add: same_fields_def)

lemma dap_frame_put_all:
  assumes "wf_frame f" "f_len f + n \<le> DAP_FRAME_MAX_BITS"
  shows "\<exists>g. dap_frame_put f v n = (True, g) \<and> wf_frame g \<and> f_len g = f_len f + n \<and>
    same_fields g f \<and> frame_bits g = frame_bits f @ map (bit_at v) [0..<n]"
  using frame_push_all [of f "[0..<n]" "bit_at v"] assms
  by (auto simp: dap_frame_put_def Let_def)

lemma length_payload [simp]: "length (dap_frame_payload cmd lf data n) = 11 + n"
  by (simp add: dap_frame_payload_def)

lemma bit_at_ucast_crc: "map (bit_at (ucast (crc :: u8) :: u32)) [0..<6] = map (bit_at crc) [0..<6]"
  by (rule map_cong) (auto simp: bit_at_eq bit_simps)

definition frame_wire :: "u8 \<Rightarrow> u8 \<Rightarrow> u64 \<Rightarrow> nat \<Rightarrow> u8 list" where
  "frame_wire cmd lf data n =
     (let p = dap_frame_payload cmd lf data n
      in 1 # p @ map (bit_at (dap_crc6 p (length p))) [0..<6] @ [0])"

lemma dap_frame_build_wire:
  assumes wf: "wf_frame f" and ok: "cmd \<le> 0x1F" "lf \<le> 63" "n \<le> 63"
  shows "\<exists>g. dap_frame_build f cmd lf data n = (True, g) \<and> wf_frame g \<and> f_len g = 19 + n \<and>
    f_cmd g = cmd \<and> f_len_field g = lf \<and> f_data g = data \<and> f_data_bits g = n \<and>
    frame_bits g = frame_wire cmd lf data n"
proof -
  let ?p = "dap_frame_payload cmd lf data n"
  let ?crc = "dap_crc6 ?p (length ?p)"
  define f0 where "f0 = f\<lparr>f_cmd := cmd, f_len_field := lf, f_data := data, f_data_bits := n,
    f_len := 0\<rparr>"
  have f0: "wf_frame f0" "f_len f0 = 0" "frame_bits f0 = []"
    using wf by (simp_all add: f0_def wf_frame_def frame_bits_def)
  obtain f1 where f1: "dap_frame_put f0 1 1 = (True, f1)" "wf_frame f1" "f_len f1 = 1"
      "same_fields f1 f0" "frame_bits f1 = [bit_at (1 :: u32) 0]"
    using dap_frame_put_all [of f0 1 1] f0 by (auto simp: DAP_FRAME_MAX_BITS_def)
  obtain f2 where f2: "frame_copy f1 ?p = (True, f2)" "wf_frame f2" "f_len f2 = 12 + n"
      "same_fields f2 f1" "frame_bits f2 = frame_bits f1 @ ?p"
    using frame_copy_all [of f1 ?p] f1 ok by (auto simp: DAP_FRAME_MAX_BITS_def)
  obtain f3 where f3: "dap_frame_put f2 (ucast ?crc) 6 = (True, f3)" "wf_frame f3"
      "f_len f3 = 18 + n" "same_fields f3 f2"
      "frame_bits f3 = frame_bits f2 @ map (bit_at (ucast ?crc :: u32)) [0..<6]"
    using dap_frame_put_all [of f2 6 "ucast ?crc"] f2 ok by (auto simp: DAP_FRAME_MAX_BITS_def)
  obtain f4 where f4: "dap_frame_put f3 0 1 = (True, f4)" "wf_frame f4" "f_len f4 = 19 + n"
      "same_fields f4 f3" "frame_bits f4 = frame_bits f3 @ [bit_at (0 :: u32) 0]"
    using dap_frame_put_all [of f3 1 0] f3 ok by (auto simp: DAP_FRAME_MAX_BITS_def)
  have "dap_frame_build f cmd lf data n = (True, f4)"
    using ok f1(1) f2(1) f3(1) f4(1)
    by (simp add: dap_frame_build_def Let_def not_less f0_def)
  moreover have "frame_bits f4 = frame_wire cmd lf data n"
    using f1(5) f2(5) f3(5) f4(5)
    by (simp only: frame_wire_def Let_def bit_at_ucast_crc) (simp add: bit_at_eq)
  moreover have "same_fields f4 f0"
    using f1(4) f2(4) f3(4) f4(4) by (simp add: same_fields_def)
  ultimately show ?thesis using f4 by (auto simp: same_fields_def f0_def)
qed

lemma dap_frame_build_reject:
  "cmd > 0x1F \<or> lf > 63 \<or> n > 63 \<Longrightarrow> dap_frame_build f cmd lf data n = (False, f)"
  by (simp add: dap_frame_build_def)

lemma wf_empty_frame [simp]: "wf_frame empty_frame"
  by (simp add: wf_frame_def empty_frame_def)


section \<open>Reading a frame back\<close>

text \<open>The receiving side as the header of \<open>dap_frame.h\<close> gives the layout: start bit, five command
  bits, six length bits, the data, six CRC bits that leave the checker at zero, a trailing zero.\<close>

definition word_of_bits :: "u8 list \<Rightarrow> 'a::len word" where
  "word_of_bits bs = horner_sum of_bool 2 (map (\<lambda>b. bit b 0) bs)"

definition frame_parse :: "u8 list \<Rightarrow> (u8 \<times> u8 \<times> u64 \<times> nat) option" where
  "frame_parse bs =
     (if length bs < 19 \<or> \<not> bit (hd bs) 0 \<or> bit (last bs) 0 \<or>
         \<not> dap_crc6_residue_ok (drop 1 bs) (length bs - 2) then None
      else Some (word_of_bits (take 5 (drop 1 bs)), word_of_bits (take 6 (drop 6 bs)),
             word_of_bits (take (length bs - 19) (drop 12 bs)), length bs - 19))"

lemma bit_word_of_bits:
  "bit (word_of_bits bs :: 'a::len word) n \<longleftrightarrow> n < LENGTH('a) \<and> n < length bs \<and> bit (bs ! n) 0"
  by (auto simp: word_of_bits_def bit_horner_sum_bit_word_iff)

lemma word_of_bits_map:
  "word_of_bits (map (bit_at (w :: 'a::len word)) [0..<n]) = (take_bit n w :: 'a word)"
  by (rule bit_word_eqI) (auto simp: bit_word_of_bits bit_at_eq bit_simps)

lemma take_bit_id_le:
  fixes w :: "'a::len word"
  assumes "unat w < 2 ^ n" shows "take_bit n w = w"
  using assms by (metis take_bit_nat_eq_self unsigned_take_bit_eq word_unat_eq_iff)

lemma residue_ok_wire:
  "dap_crc6_residue_ok (drop 1 (frame_wire cmd lf data n)) (17 + n)"
proof -
  let ?p = "dap_frame_payload cmd lf data n"
  let ?c = "map (bit_at (dap_crc6 ?p (length ?p))) [0..<6]"
  have "dap_crc6_residue_ok (?p @ ?c) (length ?p + 6)"
    by (subst residue_ok_iff) (auto simp: bit_at_eq)
  moreover have "dap_crc6_residue_ok (?p @ ?c @ [0]) (length ?p + 6) =
      dap_crc6_residue_ok (?p @ ?c) (length ?p + 6)"
    by (simp add: dap_crc6_residue_ok_def)
  ultimately show ?thesis by (simp add: frame_wire_def Let_def)
qed

lemma residue_ok_take: "dap_crc6_residue_ok (drop 1 (take m bs)) (m - 2) = dap_crc6_residue_ok (drop 1 bs) (m - 2)"
  by (simp add: dap_crc6_residue_ok_def drop_take min_def)

lemma frame_parse_wire:
  assumes "cmd \<le> 0x1F" "lf \<le> 63" "n \<le> 63"
  shows "frame_parse (frame_wire cmd lf data n) = Some (cmd, lf, take_bit n data, n)"
proof -
  have len: "length (frame_wire cmd lf data n) = 19 + n" by (simp add: frame_wire_def Let_def)
  have ends: "bit (hd (frame_wire cmd lf data n)) 0" "\<not> bit (last (frame_wire cmd lf data n)) 0"
    by (simp_all add: frame_wire_def Let_def)
  have fields: "take 5 (drop 1 (frame_wire cmd lf data n)) = map (bit_at cmd) [0..<5]"
      "take 6 (drop 6 (frame_wire cmd lf data n)) = map (bit_at lf) [0..<6]"
      "take n (drop 12 (frame_wire cmd lf data n)) = map (bit_at data) [0..<n]"
    by (simp_all add: frame_wire_def Let_def dap_frame_payload_def)
  have "take_bit 5 cmd = cmd" "take_bit 6 lf = lf"
    using assms by (auto intro!: take_bit_id_le simp: word_le_nat_alt)
  moreover have "\<not> 19 + n < 19" "19 + n - 2 = 17 + n" "19 + n - 19 = n" by simp_all
  ultimately show ?thesis
    using residue_ok_wire [of cmd lf data n]
    by (simp only: frame_parse_def len ends fields word_of_bits_map) simp
qed

lemma word_of_bits_foldl:
  "foldl (\<lambda>w i. w OR push_bit i (ucast (bs ! i AND (1 :: u8)))) (0 :: u64) [0..<m] =
   word_of_bits (take m bs)" if "m \<le> length bs" "m \<le> 64"
  using that
proof (induction m)
  case 0
  then show ?case by (simp add: word_of_bits_def)
next
  case (Suc m)
  have "word_of_bits (take m bs) OR push_bit m (ucast (bs ! m AND (1 :: u8))) =
      (word_of_bits (take (Suc m) bs) :: u64)"
    using Suc.prems
    by (intro bit_word_eqI)
      (auto simp: bit_word_of_bits bit_simps nth_append take_Suc_conv_app_nth less_Suc_eq)
  with Suc show ?case by simp
qed

lemma dap_frame_word_eq:
  assumes "wf_frame f" "f_len f \<le> DAP_FRAME_MAX_BITS"
  shows "dap_frame_word f = word_of_bits (take 64 (frame_bits f))"
  using word_of_bits_foldl [of "min (f_len f) 64" "f_bit f"] assms
  by (simp add: dap_frame_word_def wf_frame_def frame_bits_def min.commute)

section \<open>Properties\<close>

text \<open>(Generator and checker agree.) Whatever the command, length field and data, a frame
  that \<open>dap_frame_build\<close> assembles leaves the receiver's Fibonacci checker at zero over
  everything between the start bit and the trailing zero, although the CRC was generated by the
  Galois register.\<close>

theorem built_frame_passes_check:
  assumes "wf_frame f" "fst (dap_frame_build f cmd len_field data data_bits)"
  shows "let g = snd (dap_frame_build f cmd len_field data data_bits)
         in dap_crc6_residue_ok (drop 1 (f_bit g)) (f_len g - 2)"
proof -
  have "cmd \<le> 0x1F \<and> len_field \<le> 63 \<and> data_bits \<le> 63"
    using assms(2) dap_frame_build_reject [of cmd len_field data_bits f data] by (force simp: not_less)
  then obtain g where g: "dap_frame_build f cmd len_field data data_bits = (True, g)"
      "f_len g = 19 + data_bits" "frame_bits g = frame_wire cmd len_field data data_bits"
    using dap_frame_build_wire [OF assms(1)] by blast
  have "dap_crc6_residue_ok (drop 1 (take (f_len g) (f_bit g))) (f_len g - 2)"
    using residue_ok_wire [of cmd len_field data data_bits] g(2,3) by (simp add: frame_bits_def)
  then show ?thesis by (simp only: g(1) residue_ok_take Let_def snd_conv)
qed

theorem built_frame_passes_check_witness:
  "let g = snd (dap_frame_build empty_frame DAP_CMD_CLIENT_READ 7 0x55 7)
   in dap_crc6_residue_ok (drop 1 (f_bit g)) (f_len g - 2)"
proof (rule built_frame_passes_check)
  show "wf_frame empty_frame" by simp
  show "fst (dap_frame_build empty_frame DAP_CMD_CLIENT_READ 7 0x55 7)"
    using dap_frame_build_wire [OF wf_empty_frame, of DAP_CMD_CLIENT_READ 7 7 "0x55"]
    by (auto simp: DAP_CMD_CLIENT_READ_def)
qed

text \<open>C1: (Round trip.) The receiver of a built frame reads back exactly the command, the length
  field and the low \<open>data_bits\<close> bits of the data that the frame was built from; a field that
  does not fit its width is refused and leaves the frame object untouched.\<close>

theorem frame_round_trip:
  assumes "wf_frame f"
  shows "if cmd \<le> 0x1F \<and> len_field \<le> 63 \<and> data_bits \<le> 63
    then fst (dap_frame_build f cmd len_field data data_bits) \<and>
      frame_parse (frame_bits (snd (dap_frame_build f cmd len_field data data_bits))) =
        Some (cmd, len_field, take_bit data_bits data, data_bits)
    else dap_frame_build f cmd len_field data data_bits = (False, f)"
proof (cases "cmd \<le> 0x1F \<and> len_field \<le> 63 \<and> data_bits \<le> 63")
  case True
  then obtain g where "dap_frame_build f cmd len_field data data_bits = (True, g)"
      "frame_bits g = frame_wire cmd len_field data data_bits"
    using dap_frame_build_wire [OF assms, of cmd len_field data_bits data] by blast
  with True show ?thesis by (simp add: frame_parse_wire)
next
  case False
  then have "cmd > 0x1F \<or> len_field > 63 \<or> data_bits > 63" by auto
  then have "dap_frame_build f cmd len_field data data_bits = (False, f)"
    by (rule dap_frame_build_reject)
  with False show ?thesis by (simp only: if_False)
qed

theorem frame_round_trip_witness:
  "frame_parse (frame_bits (snd (dap_frame_build empty_frame 0x08 36 0x5700000041 36))) =
     Some (0x08, 36, 0x700000041, 36)"
proof -
  have "take_bit 36 (0x5700000041 :: u64) = 0x700000041" by simp
  then show ?thesis
    using frame_round_trip [of empty_frame "0x08" 36 36 "0x5700000041"] by simp
qed

text \<open>C2: (Error detection.) Damage confined to six consecutive bits of a checked reply, a single
  flipped bit included, never passes \<open>dap_crc6_residue_ok\<close>.\<close>

theorem crc6_detects_bursts:
  assumes "dap_crc6_residue_ok (xs @ us @ ys) n" "n = length (xs @ us @ ys)"
    and "length us = length vs" "length us \<le> 6"
    and "map (\<lambda>b. bit b 0) us \<noteq> map (\<lambda>b. bit b 0) vs"
  shows "\<not> dap_crc6_residue_ok (xs @ vs @ ys) n"
proof
  assume bad: "dap_crc6_residue_ok (xs @ vs @ ys) n"
  let ?f = "foldl crc6_fibo_step CRC6_FIBO_SEED xs"
  have st: "crc6_state ?f" by (simp add: crc6_state_run_fibo)
  have zero: "foldl crc6_fibo_step CRC6_FIBO_SEED (xs @ ws @ ys) = 0"
    if "dap_crc6_residue_ok (xs @ ws @ ys) (length (xs @ ws @ ys))" for ws
    using that crc6_state_run_fibo [OF crc6_state_seed, of "xs @ ws @ ys"]
    by (simp add: dap_crc6_residue_ok_def crc6_state_def)
  have "foldl crc6_fibo_step (foldl crc6_fibo_step ?f us) ys =
      foldl crc6_fibo_step (foldl crc6_fibo_step ?f vs) ys"
    using zero [of us] zero [of vs] assms(1-3) bad by simp
  then have "foldl crc6_fibo_step ?f us = foldl crc6_fibo_step ?f vs"
    by (rule crc6_run_inj [OF crc6_state_run_fibo [OF st] crc6_state_run_fibo [OF st]])
  then have "map (\<lambda>b. bit b 0) us = map (\<lambda>b. bit b 0) vs"
    using crc6_burst_readable [OF assms(3,4) st] by simp
  with assms(5) show False by blast
qed

theorem crc6_detects_bursts_witness:
  "\<not> dap_crc6_residue_ok ([0, 0, 0, 0, 1, 1] @ [1, 0, 1, 0] @ [1, 1, 0, 0, 1, 0, 0]) 17"
proof (rule crc6_detects_bursts)
  show "dap_crc6_residue_ok ([0, 0, 0, 0, 1, 1] @ [1, 1, 1, 1] @ [1, 1, 0, 0, 1, 0, 0]) 17"
    by code_simp
qed simp_all

text \<open>(The opener on the wire.) The first frame a probe sends, \<open>sync\<close> with an all-ones length
  field, is the 19-bit word \<open>0x09FE1\<close> the header documents, whatever the frame object held before.\<close>

theorem sync_wire_word:
  assumes "wf_frame f"
  shows "f_len (snd (dap_frame_build f DAP_CMD_SYNC 63 0 0)) = 19 \<and>
    dap_frame_word (snd (dap_frame_build f DAP_CMD_SYNC 63 0 0)) = 0x09FE1"
proof -
  obtain g where g: "dap_frame_build f DAP_CMD_SYNC 63 0 0 = (True, g)" "wf_frame g"
      "f_len g = 19" "frame_bits g = frame_wire DAP_CMD_SYNC 63 0 0"
    using dap_frame_build_wire [OF assms, of DAP_CMD_SYNC 63 0 0] by (auto simp: DAP_CMD_SYNC_def)
  have "word_of_bits (take 64 (frame_wire DAP_CMD_SYNC 63 0 0)) = (0x09FE1 :: u64)"
    by code_simp
  then show ?thesis
    using dap_frame_word_eq [OF g(2)] g by (simp add: DAP_FRAME_MAX_BITS_def)
qed

theorem sync_wire_word_witness:
  "dap_frame_word (snd (dap_frame_build empty_frame DAP_CMD_SYNC 63 0 0)) = 0x09FE1"
  using sync_wire_word [of empty_frame] by simp

end
