(* ===== verification/Dap_Phy.thy ===== *)
theory Dap_Phy
  imports Dap_Frame "HOL-Library.Sublist"
begin

text \<open>
  The hardware boundary: what \<open>dap_probe.c\<close> and the layers above call of \<open>dap_phy.h\<close>,
  \<open>dap_phy_fpga.h\<close>, \<open>dap_lock.c\<close>, FreeRTOS and \<open>esp_timer\<close>. Every call is an event, the state
  keeps the history of events (newest first), and what a call returns is a function, in the
  parameter \<open>dev\<close>, of the history that ends with it. So the wire, the fabric, the target and the
  clock are arbitrary: they may answer anything, and differently each time they are asked.
  \<open>bus_writes\<close> reads off a history the words that were commanded onto the target's bus, as a device
  decodes the frames: IO_SET_ADDRESS loads IOADDR, IO_WRITE_WORD writes there.
\<close>

section \<open>Events and the device\<close>

datatype phy_ev =
    EvLock | EvUnlock
  | EvTime | EvDelay nat
  | EvExchange u8 u8 u64 nat nat        \<comment> \<open>command, LEN field, data, data bits, reply bits\<close>
  | EvBlockread u64 nat nat             \<comment> \<open>payload, payload bits, words\<close>
  | EvBlockreadChain "(u64 \<times> nat \<times> nat) list"
  | EvBlockwrite u32 "u32 list"
  | EvFpgaAttach | EvFpgaSetDiv u8 | EvFpgaUse bool
  | EvSetRawWindow bool | EvSetTrst bool | EvPhyTrst bool
  | EvSetSkew u8 u8 | EvSetRxWide bool | EvSetWide bool
  | EvSetFast bool | EvSetFastTiming u8 bool bool
  | EvPhyInit u32
  | EvWriteFrame dap_frame nat          \<comment> \<open>frame, lead clocks\<close>
  | EvIdleClocks nat | EvTurnRead | EvTurnWrite
  | EvReadBits nat | EvReadReply nat nat | EvAwaitStart nat
  | EvRomDelay nat
  | EvAlloc nat | EvTaskCreate | EvTaskGone   \<comment> \<open>the operating system: heap, tasks\<close>

type_synonym hist = "phy_ev list"

record dev =
  d_in_use :: "hist \<Rightarrow> bool"       \<comment> \<open>\<open>dap_phy_fpga_in_use\<close>\<close>
  d_fpga_ready :: "hist \<Rightarrow> bool"   \<comment> \<open>\<open>dap_phy_fpga_ready\<close>\<close>
  d_is_wide :: "hist \<Rightarrow> bool"      \<comment> \<open>\<open>dap_phy_fpga_is_wide\<close>\<close>
  d_phy_ready :: "hist \<Rightarrow> bool"    \<comment> \<open>\<open>dap_phy_ready\<close>\<close>
  d_err :: "hist \<Rightarrow> esp_err"       \<comment> \<open>the code a call returns\<close>
  d_reply :: "hist \<Rightarrow> u32"
  d_waited :: "hist \<Rightarrow> u16"
  d_words :: "hist \<Rightarrow> nat \<Rightarrow> u32"  \<comment> \<open>the words a block read stores\<close>
  d_bits :: "hist \<Rightarrow> nat \<Rightarrow> u8"    \<comment> \<open>the bits clocked in, one per byte\<close>
  d_wait :: "hist \<Rightarrow> int"          \<comment> \<open>busy clocks, or negative\<close>
  d_time :: "hist \<Rightarrow> int"          \<comment> \<open>\<open>esp_timer_get_time\<close>, in microseconds\<close>
  d_yes :: "hist \<Rightarrow> bool"          \<comment> \<open>the system's yes-or-no answers: a heap block, a task, has it left\<close>
  d_polls :: nat                 \<comment> \<open>bound on the rounds of a polling loop\<close>

text \<open>\<open>hung\<close> is set when a polling loop uses up its bound: the bound is large enough when it never
  is.\<close>

record phy =
  hist :: hist
  hung :: bool

definition emit :: "phy_ev \<Rightarrow> ('e phy_scheme, unit) state" where
  "emit e = modify (\<lambda>s. s\<lparr>hist := e # hist s\<rparr>)"

definition ask :: "phy_ev \<Rightarrow> (hist \<Rightarrow> 'r) \<Rightarrow> ('e phy_scheme, 'r) state" where
  "ask e answer = do { emit e; gets (\<lambda>s. answer (hist s)) }"

definition sense :: "(hist \<Rightarrow> 'r) \<Rightarrow> ('e phy_scheme, 'r) state" where
  "sense answer = gets (\<lambda>s. answer (hist s))"

abbreviation dap_lock :: "('e phy_scheme, unit) state" where "dap_lock \<equiv> emit EvLock"
abbreviation dap_unlock :: "('e phy_scheme, unit) state" where "dap_unlock \<equiv> emit EvUnlock"

definition esp_timer_get_time :: "dev \<Rightarrow> ('e phy_scheme, int) state" where
  "esp_timer_get_time D = ask EvTime (d_time D)"

definition vTaskDelay :: "nat \<Rightarrow> ('e phy_scheme, unit) state" where
  "vTaskDelay ms = emit (EvDelay ms)"

definition dap_phy_fpga_exchange ::
  "dev \<Rightarrow> u8 \<Rightarrow> u8 \<Rightarrow> u64 \<Rightarrow> nat \<Rightarrow> nat \<Rightarrow> ('e phy_scheme, esp_err \<times> u32 \<times> u16) state" where
  "dap_phy_fpga_exchange D cmd len_field data data_bits reply_bits =
     ask (EvExchange cmd len_field data data_bits reply_bits)
       (\<lambda>h. (d_err D h, d_reply D h, d_waited D h))"

definition dap_phy_fpga_blockread ::
  "dev \<Rightarrow> u64 \<Rightarrow> nat \<Rightarrow> nat \<Rightarrow> ('e phy_scheme, esp_err \<times> u32 list) state" where
  "dap_phy_fpga_blockread D payload bits count =
     ask (EvBlockread payload bits count) (\<lambda>h. (d_err D h, map (d_words D h) [0..<count]))"

definition dap_phy_fpga_blockread_chain ::
  "dev \<Rightarrow> (u64 \<times> nat \<times> nat) list \<Rightarrow> ('e phy_scheme, esp_err \<times> u32 list) state" where
  "dap_phy_fpga_blockread_chain D blocks =
     ask (EvBlockreadChain blocks)
       (\<lambda>h. (d_err D h, map (d_words D h) [0..<sum_list (map (snd \<circ> snd) blocks)]))"

definition dap_phy_fpga_block_write :: "dev \<Rightarrow> u32 \<Rightarrow> u32 list \<Rightarrow> ('e phy_scheme, esp_err) state" where
  "dap_phy_fpga_block_write D address words = ask (EvBlockwrite address words) (d_err D)"

definition dap_phy_read_bits :: "dev \<Rightarrow> nat \<Rightarrow> ('e phy_scheme, u8 list) state" where
  "dap_phy_read_bits D n = ask (EvReadBits n) (\<lambda>h. map (d_bits D h) [0..<n])"

definition dap_phy_read_reply :: "dev \<Rightarrow> nat \<Rightarrow> u32 \<Rightarrow> ('e phy_scheme, int \<times> u8 list) state" where
  "dap_phy_read_reply D reply_bits max_wait =
     ask (EvReadReply reply_bits (unat max_wait))
       (\<lambda>h. (d_wait D h, map (d_bits D h) [0..<(if reply_bits = 0 then 0 else reply_bits + 6)]))"

text \<open>The settings of the fabric, whose codes the sources mostly ignore.\<close>

definition dap_phy_fpga_set_div :: "u8 \<Rightarrow> ('e phy_scheme, unit) state" where
  "dap_phy_fpga_set_div dv = emit (EvFpgaSetDiv dv)"

definition dap_phy_fpga_set_raw_window :: "bool \<Rightarrow> ('e phy_scheme, unit) state" where
  "dap_phy_fpga_set_raw_window enable = emit (EvSetRawWindow enable)"

definition dap_phy_fpga_set_trst :: "bool \<Rightarrow> ('e phy_scheme, unit) state" where
  "dap_phy_fpga_set_trst asserted = emit (EvSetTrst asserted)"

definition dap_phy_fpga_set_skew :: "u8 \<Rightarrow> u8 \<Rightarrow> ('e phy_scheme, unit) state" where
  "dap_phy_fpga_set_skew tap1 tap2 = emit (EvSetSkew tap1 tap2)"

definition dap_phy_fpga_set_rx_wide :: "bool \<Rightarrow> ('e phy_scheme, unit) state" where
  "dap_phy_fpga_set_rx_wide enable = emit (EvSetRxWide enable)"

definition dap_phy_fpga_set_wide :: "dev \<Rightarrow> bool \<Rightarrow> ('e phy_scheme, esp_err) state" where
  "dap_phy_fpga_set_wide D enable = ask (EvSetWide enable) (d_err D)"

definition dap_phy_fpga_set_fast :: "bool \<Rightarrow> ('e phy_scheme, unit) state" where
  "dap_phy_fpga_set_fast enable = emit (EvSetFast enable)"

definition dap_phy_fpga_set_fast_timing :: "u8 \<Rightarrow> bool \<Rightarrow> bool \<Rightarrow> ('e phy_scheme, unit) state" where
  "dap_phy_fpga_set_fast_timing lag edge1 edge2 = emit (EvSetFastTiming lag edge1 edge2)"

section \<open>What a history commands\<close>

definition DAP_IO_SET_ADDRESS :: u8 where "DAP_IO_SET_ADDRESS = 1"
definition DAP_IO_WRITE_WORD :: u8 where "DAP_IO_WRITE_WORD = 4"
definition DAP_IO_READ_WORD :: u8 where "DAP_IO_READ_WORD = 5"
definition DAP_IO_CONF :: u8 where "DAP_IO_CONF = 0"
definition DAP_IO_INFO :: u8 where "DAP_IO_INFO = 0xB"

type_synonym bus = "u32 \<times> (u32 \<times> u32) list"

definition client_frame :: "u8 \<Rightarrow> u64 \<Rightarrow> bus \<Rightarrow> bus" where
  "client_frame cmd payload b =
     (let instruction = ucast (payload AND 0xF) :: u8; operand = ucast (drop_bit 4 payload) :: u32
      in if cmd \<noteq> DAP_CMD_CLIENT_WRITE then b
         else if instruction = DAP_IO_SET_ADDRESS then (operand, snd b)
         else if instruction = DAP_IO_WRITE_WORD then (fst b, (fst b, operand) # snd b)
         else b)"

text \<open>A block of words at consecutive addresses, newest first.\<close>

primrec block_words :: "u32 \<Rightarrow> u32 list \<Rightarrow> (u32 \<times> u32) list" where
  "block_words a [] = []"
| "block_words a (w # ws) = block_words (a + 4) ws @ [(a, w)]"

fun bus_step :: "phy_ev \<Rightarrow> bus \<Rightarrow> bus" where
  "bus_step (EvExchange cmd lf data n rb) b = client_frame cmd (take_bit n data) b"
| "bus_step (EvWriteFrame f lead) b =
     (case frame_parse (frame_bits f) of None \<Rightarrow> b
      | Some (cmd, lf, payload, n) \<Rightarrow> client_frame cmd payload b)"
| "bus_step (EvBlockwrite a ws) b = (fst b, block_words a ws @ snd b)"
| "bus_step _ b = b"

definition bus_of :: "hist \<Rightarrow> bus" where
  "bus_of h = foldr bus_step h (0, [])"

definition bus_writes :: "hist \<Rightarrow> (u32 \<times> u32) list" where
  "bus_writes h = snd (bus_of h)"

text \<open>How deep this task holds the DAP lock.\<close>

primrec lock_depth :: "hist \<Rightarrow> int" where
  "lock_depth [] = 0"
| "lock_depth (e # h) = lock_depth h + (if e = EvLock then 1 else if e = EvUnlock then - 1 else 0)"

lemma bus_of_Cons [simp]: "bus_of (e # h) = bus_step e (bus_of h)"
  by (simp add: bus_of_def)

lemma run_emit [simp]: "run (emit e) s = ((), s\<lparr>hist := e # hist s\<rparr>)"
  by (simp add: emit_def)

lemma run_ask [simp]: "run (ask e f) s = (f (e # hist s), s\<lparr>hist := e # hist s\<rparr>)"
  by (simp add: ask_def)

lemma run_sense [simp]: "run (sense f) s = (f (hist s), s)"
  by (simp add: sense_def)

section \<open>Polling loops\<close>

text \<open>\<open>for (;;) { if (body) break; if (esp_timer_get_time() >= deadline) ...; vTaskDelay(t); }\<close>:
  the answer of the body, \<open>None\<close> when the deadline passed first.\<close>

primrec poll :: "dev \<Rightarrow> nat \<Rightarrow> int \<Rightarrow> nat \<Rightarrow> ('e phy_scheme, 'r option) state \<Rightarrow> ('e phy_scheme, 'r option) state" where
  "poll D 0 deadline tick body = do { modify (\<lambda>s. s\<lparr>hung := True\<rparr>); ret None }"
| "poll D (Suc n) deadline tick body = do {
     r \<leftarrow> body;
     if r \<noteq> None then ret r
     else do {
       now \<leftarrow> esp_timer_get_time D;
       if now \<ge> deadline then ret None
       else do { vTaskDelay tick; poll D n deadline tick body } } }"

text \<open>The clock never runs backwards, and a delay, of the scheduler or busy, lets it run on.\<close>

definition clock_ok :: "dev \<Rightarrow> bool" where
  "clock_ok D \<longleftrightarrow> (\<forall>h e. d_time D h \<le> d_time D (e # h)) \<and>
     (\<forall>h ms. d_time D h + 1 \<le> d_time D (EvDelay ms # h)) \<and>
     (\<forall>h us. 0 < us \<longrightarrow> d_time D h + 1 \<le> d_time D (EvRomDelay us # h))"

lemma clock_mono: "clock_ok D \<Longrightarrow> d_time D h \<le> d_time D (es @ h)"
  by (induction es) (auto simp: clock_ok_def intro: order_trans)

text \<open>A loop with more rounds than microseconds to its deadline never uses them up.\<close>

lemma poll_returns:
  assumes clock: "clock_ok D"
    and body: "\<And>s. hung (final body s) = hung s \<and> (\<exists>es. hist (final body s) = es @ hist s)"
    and rounds: "deadline < d_time D (hist s) + int n" "n > 0"
  shows "hung (final (poll D n deadline tick body) s) = hung s \<and>
    (\<exists>es. hist (final (poll D n deadline tick body) s) = es @ hist s)"
  using rounds
proof (induction n arbitrary: s)
  case (Suc n)
  obtain r s1 where r: "run body s = (r, s1)" by (cases "run body s")
  then have s1: "hung s1 = hung s" "\<exists>es. hist s1 = es @ hist s"
    using body [of s] by (auto simp: final_def)
  then have t1: "d_time D (hist s) \<le> d_time D (hist s1)" using clock_mono [OF clock] by auto
  let ?s2 = "s1\<lparr>hist := EvTime # hist s1\<rparr>" and ?s3 = "s1\<lparr>hist := EvDelay tick # EvTime # hist s1\<rparr>"
  have t2: "d_time D (hist s1) \<le> d_time D (EvTime # hist s1)"
    "d_time D (EvTime # hist s1) + 1 \<le> d_time D (EvDelay tick # EvTime # hist s1)"
    using clock by (auto simp: clock_ok_def)
  show ?case
  proof (cases "r = None \<and> d_time D (EvTime # hist s1) < deadline")
    case True
    have "deadline < d_time D (hist ?s3) + int n" using Suc.prems(1) t1 t2 by simp
    moreover have "n > 0" using Suc.prems(1) True t1 t2 by (cases n) auto
    ultimately have "hung (final (poll D n deadline tick body) ?s3) = hung ?s3 \<and>
        (\<exists>es. hist (final (poll D n deadline tick body) ?s3) = es @ hist ?s3)"
      by (rule Suc.IH)
    moreover obtain es where "hist s1 = es @ hist s" using s1(2) by blast
    moreover have "\<exists>fs. es' @ EvDelay tick # EvTime # es @ hist s = fs @ hist s" for es'
      by (rule exI [of _ "es' @ EvDelay tick # EvTime # es"]) simp
    ultimately show ?thesis
      using True r s1(1) by (auto simp: final_def esp_timer_get_time_def vTaskDelay_def)
  next
    case False
    moreover obtain es where "hist s1 = es @ hist s" using s1(2) by blast
    moreover have "\<exists>fs. EvTime # es @ hist s = fs @ hist s"
      by (rule exI [of _ "EvTime # es"]) simp
    ultimately show ?thesis using r s1(1) by (auto simp: final_def esp_timer_get_time_def)
  qed
qed simp

end
