(* ===== verification/Dap_Probe.thy ===== *)
theory Dap_Probe
  imports Dap_Phy
begin

text \<open>
  \<open>dap_probe.c\<close> with the constants of \<open>dap_probe_priv.h\<close>: one exchange, the client commands, single
  word reads and writes, block reads and the OCDS enable. The static variables are the fields of
  \<open>probe\<close>, which extends the history of the hardware boundary. Out-parameters are returned beside
  the error code, with the caller's value when the source leaves them alone. Logging is left out.
  The lemmas give every operation's effect on the bus, on the lock and on the rest of the state.
\<close>

section \<open>State and constants\<close>

record probe = phy +
  trailer_bits :: nat   \<comment> \<open>\<open>dap_probe_trailer_bits\<close>\<close>
  raw_window :: nat     \<comment> \<open>\<open>s_raw_window\<close>\<close>
  max_wait :: u32       \<comment> \<open>\<open>dap_probe_max_wait\<close>\<close>
  fpi_prio :: bool      \<comment> \<open>\<open>s_fpi_prio\<close>\<close>

record dap_exchange =
  sent_word :: u64
  sent_bits :: nat
  wait_cycles :: int
  reply :: u64
  reply_bits :: nat
  reply_crc :: u8
  crc_ok :: bool
  timed_out :: bool
  idle_high :: bool

definition no_exchange :: dap_exchange where
  "no_exchange = \<lparr>sent_word = 0, sent_bits = 0, wait_cycles = 0, reply = 0, reply_bits = 0,
     reply_crc = 0, crc_ok = False, timed_out = False, idle_high = False\<rparr>"

definition DAP_REPLY_MAX_BITS :: nat where "DAP_REPLY_MAX_BITS = 64"
definition DAP_FRAME_LEAD_CLOCKS :: nat where "DAP_FRAME_LEAD_CLOCKS = 2"
definition DAP_WAIT_MARGIN :: u32 where "DAP_WAIT_MARGIN = 8"
definition DAP_ACK_MAX_WAIT :: int where "DAP_ACK_MAX_WAIT = 32"
definition DAP_MAXWAIT_RESET_CYCLES :: u32 where "DAP_MAXWAIT_RESET_CYCLES = 248"
definition DAP_MAXWAIT_GENEROUS_CYCLES :: u32 where "DAP_MAXWAIT_GENEROUS_CYCLES = 4096"
definition DAP_DAPISC_SIGNATURE :: u64 where "DAP_DAPISC_SIGNATURE = 0x4ABBAF53"
definition DAP_SYNC_EXPECT :: u64 where "DAP_SYNC_EXPECT = 0xAAAAAAAA"
definition DAP_SYNC_EXPECT_WIDE :: u64 where "DAP_SYNC_EXPECT_WIDE = 0xCCCCCCCC"
definition DAP_CMD_BLOCKREAD :: u8 where "DAP_CMD_BLOCKREAD = 0x0A"
definition DAP_IOCONF_MODE_RW :: u16 where "DAP_IOCONF_MODE_RW = 1"
definition DAP_IOCONF_SVM :: u16 where "DAP_IOCONF_SVM = 0x80"
definition DAP_IOCONF_FPI_PRIO :: u16 where "DAP_IOCONF_FPI_PRIO = 0x40"
definition DAP_ADDR_OEC_PAT :: u32 where "DAP_ADDR_OEC_PAT = 0xF0000478"
definition DAP_ADDR_OCNTRL :: u32 where "DAP_ADDR_OCNTRL = 0xF000047C"
definition DAP_ADDR_OSTATE :: u32 where "DAP_ADDR_OSTATE = 0xF0000480"
definition DAP_ADDR_MCDS_CLC :: u32 where "DAP_ADDR_MCDS_CLC = 0xFB718000"
definition DAP_ADDR_MCDS_CT :: u32 where "DAP_ADDR_MCDS_CT = 0xFB718010"
definition BLOCKREAD_CHAIN_MAX :: nat where "BLOCKREAD_CHAIN_MAX = 16"

lemmas bus_consts = DAP_IO_SET_ADDRESS_def DAP_IO_WRITE_WORD_def DAP_IO_READ_WORD_def
  DAP_IO_CONF_def DAP_IO_INFO_def DAP_CMD_CLIENT_WRITE_def DAP_CMD_CLIENT_READ_def
  DAP_CMD_BLOCKREAD_def DAP_CMD_SYNC_def DAP_CMD_DAPISC_def DAP_CMD_CLIENT_SET_def

definition dap_probe_set_raw_window :: "nat \<Rightarrow> ('e probe_scheme, unit) state" where
  "dap_probe_set_raw_window bits = modify (raw_window_update (\<lambda>_. bits))"

definition dap_probe_set_trailer_bits :: "nat \<Rightarrow> ('e probe_scheme, unit) state" where
  "dap_probe_set_trailer_bits n = modify (trailer_bits_update (\<lambda>_. n))"

definition dap_probe_set_bus_priority :: "bool \<Rightarrow> ('e probe_scheme, unit) state" where
  "dap_probe_set_bus_priority high = modify (fpi_prio_update (\<lambda>_. high))"

section \<open>One exchange\<close>

definition bits_to_word :: "u8 list \<Rightarrow> 'a::len word" where
  "bits_to_word bits = foldl (\<lambda>v i. v OR push_bit i (ucast (bits ! i AND 1))) 0 [0..<length bits]"

text \<open>The fabric performs the whole exchange from the frame's fields.\<close>

definition exchange_fpga ::
  "dev \<Rightarrow> dap_frame \<Rightarrow> nat \<Rightarrow> ('e probe_scheme, esp_err \<times> dap_exchange) state" where
  "exchange_fpga D frame rbits = do {
     (err, rep, waited) \<leftarrow> dap_phy_fpga_exchange D (f_cmd frame) (f_len_field frame) (f_data frame)
        (f_data_bits frame) rbits;
     ret (err, no_exchange\<lparr>sent_word := dap_frame_word frame, sent_bits := f_len frame,
        reply := ucast rep, reply_bits := rbits, wait_cycles := int (unat waited),
        crc_ok := (err = ESP_OK), timed_out := (err = ESP_ERR_TIMEOUT),
        idle_high := (err = ESP_ERR_NOT_FOUND)\<rparr>) }"

text \<open>What the reply bits say, once the line is turned around: the CRC residue, then the lateness of
  a bare acknowledge.\<close>

definition exchange_judge ::
  "nat \<Rightarrow> u8 list \<Rightarrow> dap_exchange \<Rightarrow> ('e probe_scheme, esp_err \<times> dap_exchange) state" where
  "exchange_judge rbits bits x = do {
     let x = x\<lparr>reply := bits_to_word (take rbits bits), reply_bits := rbits,
               reply_crc := (if rbits \<noteq> 0 then bits_to_word (take 6 (drop rbits bits)) else 0),
               crc_ok := (rbits \<noteq> 0 \<longrightarrow> dap_crc6_residue_ok bits (rbits + 6))\<rparr>;
     wait_limit \<leftarrow> gets max_wait;
     if \<not> crc_ok x then do { emit (EvIdleClocks (unat wait_limit)); ret (ESP_ERR_INVALID_CRC, x) }
     else if rbits = 0 \<and> wait_cycles x > DAP_ACK_MAX_WAIT then do {
       emit (EvIdleClocks (unat wait_limit));
       ret (ESP_ERR_TIMEOUT, x\<lparr>timed_out := True\<rparr>) }
     else ret (ESP_OK, x) }"

definition exchange_phy ::
  "dev \<Rightarrow> dap_frame \<Rightarrow> nat \<Rightarrow> ('e probe_scheme, esp_err \<times> dap_exchange) state" where
  "exchange_phy D frame rbits = do {
     let x = no_exchange\<lparr>sent_word := dap_frame_word frame, sent_bits := f_len frame\<rparr>;
     emit (EvWriteFrame frame DAP_FRAME_LEAD_CLOCKS);
     emit EvTurnRead;
     raw \<leftarrow> gets raw_window;
     if raw \<noteq> 0 then do {
       dap_phy_read_bits D (min raw 96);
       emit EvTurnWrite;
       ret (ESP_OK, x) }
     else do {
       wait_limit \<leftarrow> gets max_wait;
       (waited, bits) \<leftarrow> dap_phy_read_reply D rbits (wait_limit + DAP_WAIT_MARGIN);
       let x = x\<lparr>wait_cycles := waited\<rparr>;
       if waited < 0 then do {
         emit EvTurnWrite;
         emit (EvIdleClocks (unat wait_limit));
         ret (ESP_ERR_TIMEOUT, x\<lparr>timed_out := True\<rparr>) }
       else do {
         let x = (if rbits \<noteq> 0 then x\<lparr>idle_high := list_all (\<lambda>b. b \<noteq> 0) bits\<rparr> else x);
         modify (\<lambda>s. s\<lparr>trailer_bits := (if trailer_bits s > 24 then 24 else trailer_bits s)\<rparr>);
         trailer \<leftarrow> gets trailer_bits;
         if_do (trailer \<noteq> 0) (do { dap_phy_read_bits D trailer; skip });
         emit EvTurnWrite;
         exchange_judge rbits bits x } } }"

definition dap_probe_exchange_locked ::
  "dev \<Rightarrow> dap_frame \<Rightarrow> nat \<Rightarrow> dap_exchange \<Rightarrow> ('e probe_scheme, esp_err \<times> dap_exchange) state" where
  "dap_probe_exchange_locked D frame rbits out = do {
     in_use \<leftarrow> sense (d_in_use D);
     if in_use then exchange_fpga D frame rbits
     else do {
       ready \<leftarrow> sense (d_phy_ready D);
       if \<not> ready then ret (ESP_ERR_INVALID_STATE, out)
       else if rbits > DAP_REPLY_MAX_BITS then ret (ESP_ERR_INVALID_ARG, out)
       else exchange_phy D frame rbits } }"

definition dap_probe_exchange ::
  "dev \<Rightarrow> dap_frame \<Rightarrow> nat \<Rightarrow> dap_exchange \<Rightarrow> ('e probe_scheme, esp_err \<times> dap_exchange) state" where
  "dap_probe_exchange D frame rbits out = do {
     dap_lock;
     r \<leftarrow> dap_probe_exchange_locked D frame rbits out;
     dap_unlock;
     ret r }"

section \<open>Commands\<close>

text \<open>\<open>if (!dap_frame_build(&f, ...)) return ESP_FAIL; return dap_probe_exchange(&f, ...);\<close>\<close>

definition send_command ::
  "dev \<Rightarrow> u8 \<Rightarrow> u8 \<Rightarrow> u64 \<Rightarrow> nat \<Rightarrow> nat \<Rightarrow> dap_exchange \<Rightarrow> ('e probe_scheme, esp_err \<times> dap_exchange) state" where
  "send_command D cmd len_field data data_bits rbits out =
     (case dap_frame_build empty_frame cmd len_field data data_bits of
        (False, _) \<Rightarrow> ret (ESP_FAIL, out)
      | (True, f) \<Rightarrow> dap_probe_exchange D f rbits out)"

definition dap_probe_sync :: "dev \<Rightarrow> dap_exchange \<Rightarrow> ('e probe_scheme, esp_err \<times> dap_exchange) state" where
  "dap_probe_sync D out = send_command D DAP_CMD_SYNC 63 0 0 32 out"

text \<open>The retry loop of \<open>dap_probe_attach\<close>, with the attempts left and the last error.\<close>

primrec attach_loop ::
  "dev \<Rightarrow> nat \<Rightarrow> esp_err \<Rightarrow> dap_exchange \<Rightarrow> ('e probe_scheme, esp_err \<times> dap_exchange) state" where
  "attach_loop D 0 err out = ret (if err = ESP_OK then ESP_FAIL else err, out)"
| "attach_loop D (Suc n) err out = do {
     (err, out) \<leftarrow> dap_probe_sync D out;
     wide \<leftarrow> sense (d_is_wide D);
     if (wide \<or> err = ESP_OK) \<and>
        reply out = (if wide then DAP_SYNC_EXPECT_WIDE else DAP_SYNC_EXPECT) then ret (ESP_OK, out)
     else do {
       wait_limit \<leftarrow> gets max_wait;
       emit (EvIdleClocks (unat wait_limit));
       attach_loop D n err out } }"

definition dap_probe_attach ::
  "dev \<Rightarrow> dap_exchange \<Rightarrow> nat \<Rightarrow> ('e probe_scheme, esp_err \<times> dap_exchange) state" where
  "dap_probe_attach D out attempts = attach_loop D attempts ESP_FAIL out"

definition dap_probe_note_dapisc :: "u16 \<Rightarrow> ('e probe_scheme, unit) state" where
  "dap_probe_note_dapisc dapisc =
     (let maxwait8 = ucast (drop_bit 8 dapisc) AND 0x1F :: u32;
          mw8e = ucast (drop_bit 13 dapisc) AND 1 :: u32
      in modify (max_wait_update (\<lambda>_. if maxwait8 \<noteq> 0 then maxwait8 * 8 * (1 + mw8e * 15)
                                     else DAP_MAXWAIT_GENEROUS_CYCLES)))"

definition dap_probe_dapisc ::
  "dev \<Rightarrow> u16 \<Rightarrow> bool \<Rightarrow> dap_exchange \<Rightarrow> ('e probe_scheme, esp_err \<times> dap_exchange) state" where
  "dap_probe_dapisc D value cold out = do {
     (err, out) \<leftarrow>
       (if cold
        then send_command D DAP_CMD_DAPISC 48 (push_bit 16 DAP_DAPISC_SIGNATURE OR ucast value) 48 16 out
        else send_command D DAP_CMD_DAPISC 16 (ucast value) 16 16 out);
     if_do (err = ESP_OK) (dap_probe_note_dapisc (ucast (reply out)));
     ret (err, out) }"

definition dap_probe_client_set ::
  "dev \<Rightarrow> u8 \<Rightarrow> dap_exchange \<Rightarrow> ('e probe_scheme, esp_err \<times> dap_exchange) state" where
  "dap_probe_client_set D client out = send_command D DAP_CMD_CLIENT_SET 3 (ucast client) 3 0 out"

definition dap_probe_client_read ::
  "dev \<Rightarrow> u8 \<Rightarrow> u8 \<Rightarrow> nat \<Rightarrow> dap_exchange \<Rightarrow> ('e probe_scheme, esp_err \<times> dap_exchange) state" where
  "dap_probe_client_read D io_instruction size_exponent rbits out =
     send_command D DAP_CMD_CLIENT_READ 7
       (ucast (dap_client_read_payload io_instruction size_exponent)) 7 rbits out"

definition dap_probe_client_write ::
  "dev \<Rightarrow> u8 \<Rightarrow> u8 \<Rightarrow> u64 \<Rightarrow> nat \<Rightarrow> dap_exchange \<Rightarrow> ('e probe_scheme, esp_err \<times> dap_exchange) state" where
  "dap_probe_client_write D io_instruction size_exponent data data_bits out =
     (if data_bits > 32 then ret (ESP_ERR_INVALID_ARG, out)
      else send_command D DAP_CMD_CLIENT_WRITE (of_nat (4 + data_bits))
             (push_bit 4 data OR ucast (io_instruction AND 0x0F)) (4 + data_bits) 0 out)"

definition dap_probe_set_rw_mode_locked :: "dev \<Rightarrow> bool \<Rightarrow> ('e probe_scheme, esp_err) state" where
  "dap_probe_set_rw_mode_locked D supervisor = do {
     prio \<leftarrow> gets fpi_prio;
     let conf = DAP_IOCONF_MODE_RW OR (if supervisor then DAP_IOCONF_SVM else 0)
                OR (if prio then DAP_IOCONF_FPI_PRIO else 0);
     (err, x) \<leftarrow> dap_probe_client_write D DAP_IO_CONF 4 (ucast conf) 12 no_exchange;
     ret err }"

definition dap_probe_clear_error_state_locked :: "dev \<Rightarrow> ('e probe_scheme, esp_err) state" where
  "dap_probe_clear_error_state_locked D = do {
     (err, x) \<leftarrow> dap_probe_client_read D DAP_IO_INFO 4 16 no_exchange;
     ret err }"

section \<open>Words\<close>

definition dap_probe_read32_locked ::
  "dev \<Rightarrow> u32 \<Rightarrow> u32 \<Rightarrow> ('e probe_scheme, esp_err \<times> u32) state" where
  "dap_probe_read32_locked D addr value = do {
     (err, x) \<leftarrow> dap_probe_client_write D DAP_IO_SET_ADDRESS 5 (ucast addr) 32 no_exchange;
     if err \<noteq> ESP_OK then ret (err, value)
     else do {
       (err, x) \<leftarrow> dap_probe_client_read D DAP_IO_READ_WORD 5 32 x;
       if err \<noteq> ESP_OK then ret (err, value)
       else ret (ESP_OK, ucast (reply x)) } }"

definition dap_probe_write32_locked :: "dev \<Rightarrow> u32 \<Rightarrow> u32 \<Rightarrow> ('e probe_scheme, esp_err) state" where
  "dap_probe_write32_locked D addr value = do {
     (err, x) \<leftarrow> dap_probe_client_write D DAP_IO_SET_ADDRESS 5 (ucast addr) 32 no_exchange;
     if err \<noteq> ESP_OK then ret err
     else do {
       (err, x) \<leftarrow> dap_probe_client_write D DAP_IO_WRITE_WORD 5 (ucast value) 32 x;
       ret err } }"

text \<open>\<open>dap_lock(); err = f(...); dap_unlock(); return err;\<close>\<close>

definition with_lock :: "('e probe_scheme, 'r) state \<Rightarrow> ('e probe_scheme, 'r) state" where
  "with_lock m = do { dap_lock; r \<leftarrow> m; dap_unlock; ret r }"

definition dap_probe_set_rw_mode :: "dev \<Rightarrow> bool \<Rightarrow> ('e probe_scheme, esp_err) state" where
  "dap_probe_set_rw_mode D supervisor = with_lock (dap_probe_set_rw_mode_locked D supervisor)"

definition dap_probe_clear_error_state :: "dev \<Rightarrow> ('e probe_scheme, esp_err) state" where
  "dap_probe_clear_error_state D = with_lock (dap_probe_clear_error_state_locked D)"

definition dap_probe_read32 :: "dev \<Rightarrow> u32 \<Rightarrow> u32 \<Rightarrow> ('e probe_scheme, esp_err \<times> u32) state" where
  "dap_probe_read32 D addr value = with_lock (dap_probe_read32_locked D addr value)"

definition dap_probe_write32 :: "dev \<Rightarrow> u32 \<Rightarrow> u32 \<Rightarrow> ('e probe_scheme, esp_err) state" where
  "dap_probe_write32 D addr value = with_lock (dap_probe_write32_locked D addr value)"

definition dap_probe_enable_ocds_locked :: "dev \<Rightarrow> ('e probe_scheme, esp_err) state" where
  "dap_probe_enable_ocds_locked D = do {
     err \<leftarrow> for_ok (\<lambda>p. dap_probe_write32 D DAP_ADDR_OEC_PAT p) [0xA1, 0x5E, 0xA1, 0x5E];
     if err \<noteq> ESP_OK then ret err
     else do {
       (err, ostate) \<leftarrow> dap_probe_read32 D DAP_ADDR_OSTATE 0;
       if err \<noteq> ESP_OK then ret ESP_FAIL
       else if ostate AND 1 = 0 then ret ESP_FAIL
       else do {
         err \<leftarrow> dap_probe_write32 D DAP_ADDR_OCNTRL 0x0300;
         if err \<noteq> ESP_OK then ret ESP_FAIL
         else do {
           dap_probe_write32 D DAP_ADDR_MCDS_CLC 0;
           dap_probe_write32 D DAP_ADDR_MCDS_CT 0x8000 } } } }"

definition dap_probe_enable_ocds :: "dev \<Rightarrow> ('e probe_scheme, esp_err) state" where
  "dap_probe_enable_ocds D = with_lock (dap_probe_enable_ocds_locked D)"

section \<open>Block reads\<close>

definition blockread_payload :: "u32 \<Rightarrow> nat \<Rightarrow> u64" where
  "blockread_payload addr count =
     push_bit 2 (of_nat count AND 0xFF) OR push_bit 10 (ucast (drop_bit 2 addr))"

text \<open>The parcels of the bit-banged path: a start bit and 32 bits each; stops at the first parcel
  that does not come. The words read so far are kept.\<close>

primrec read_parcels :: "dev \<Rightarrow> nat \<Rightarrow> u32 list \<Rightarrow> ('e probe_scheme, esp_err \<times> u32 list) state" where
  "read_parcels D 0 ws = ret (ESP_OK, ws)"
| "read_parcels D (Suc n) ws = do {
     wait_limit \<leftarrow> gets max_wait;
     waited \<leftarrow> ask (EvAwaitStart (unat (wait_limit + DAP_WAIT_MARGIN))) (d_wait D);
     if waited < 0 then ret (ESP_ERR_TIMEOUT, ws)
     else do {
       bits \<leftarrow> dap_phy_read_bits D 32;
       read_parcels D n (ws @ [bits_to_word bits]) } }"

definition dap_probe_blockread_locked ::
  "dev \<Rightarrow> u32 \<Rightarrow> nat \<Rightarrow> ('e probe_scheme, esp_err \<times> u32 list) state" where
  "dap_probe_blockread_locked D addr count =
     (if count = 0 \<or> count > 256 then ret (ESP_ERR_INVALID_ARG, [])
      else do {
        in_use \<leftarrow> sense (d_in_use D);
        if in_use then dap_phy_fpga_blockread D (blockread_payload addr count) 40 count
        else do {
          ready \<leftarrow> sense (d_phy_ready D);
          if \<not> ready then ret (ESP_ERR_INVALID_STATE, [])
          else case dap_frame_build empty_frame DAP_CMD_BLOCKREAD 40 (blockread_payload addr count) 40 of
            (False, _) \<Rightarrow> ret (ESP_FAIL, [])
          | (True, f) \<Rightarrow> do {
              emit (EvIdleClocks DAP_FRAME_LEAD_CLOCKS);
              emit (EvWriteFrame f 0);
              emit EvTurnRead;
              (err, ws) \<leftarrow> read_parcels D count [];
              if_do (err = ESP_OK) (do { dap_phy_read_bits D 6; skip });
              emit EvTurnWrite;
              wait_limit \<leftarrow> gets max_wait;
              if_do (err \<noteq> ESP_OK) (emit (EvIdleClocks (unat wait_limit)));
              ret (err, ws) } } })"

definition dap_probe_blockread ::
  "dev \<Rightarrow> u32 \<Rightarrow> nat \<Rightarrow> ('e probe_scheme, esp_err \<times> u32 list) state" where
  "dap_probe_blockread D addr count = with_lock (dap_probe_blockread_locked D addr count)"

definition dap_probe_read32_fast :: "dev \<Rightarrow> u32 \<Rightarrow> u32 \<Rightarrow> ('e probe_scheme, esp_err \<times> u32) state" where
  "dap_probe_read32_fast D addr value = do {
     in_use \<leftarrow> sense (d_in_use D);
     if \<not> in_use then dap_probe_read32 D addr value
     else do {
       (err, ws) \<leftarrow> dap_probe_blockread D addr 1;
       ret (err, case ws of [] \<Rightarrow> value | w # _ \<Rightarrow> w) } }"

text \<open>One batch of a chain through the fabric, or one block after another; the words of the blocks
  in order.\<close>

primrec blocks_one_by_one ::
  "dev \<Rightarrow> (u32 \<times> nat) list \<Rightarrow> u32 list \<Rightarrow> ('e probe_scheme, esp_err \<times> u32 list) state" where
  "blocks_one_by_one D [] ws = ret (ESP_OK, ws)"
| "blocks_one_by_one D (r # rs) ws = do {
     (err, got) \<leftarrow> dap_probe_blockread_locked D (fst r) (snd r);
     if err \<noteq> ESP_OK then ret (err, ws @ got) else blocks_one_by_one D rs (ws @ got) }"

definition block_batch ::
  "dev \<Rightarrow> (u32 \<times> nat) list \<Rightarrow> ('e probe_scheme, esp_err \<times> u32 list) state" where
  "block_batch D batch = do {
     in_use \<leftarrow> sense (d_in_use D);
     if in_use then
       (if list_ex (\<lambda>r. snd r = 0 \<or> snd r > 256) batch then ret (ESP_ERR_INVALID_ARG, [])
        else dap_phy_fpga_blockread_chain D
               (map (\<lambda>r. (blockread_payload (fst r) (snd r), 40, snd r)) batch))
     else blocks_one_by_one D batch [] }"

function blockread_batches ::
  "dev \<Rightarrow> (u32 \<times> nat) list \<Rightarrow> u32 list \<Rightarrow> ('e probe_scheme, esp_err \<times> u32 list) state" where
  "blockread_batches D reqs ws =
     (if reqs = [] then ret (ESP_OK, ws)
      else do {
        (err, got) \<leftarrow> block_batch D (take BLOCKREAD_CHAIN_MAX reqs);
        if err \<noteq> ESP_OK then ret (err, ws @ got)
        else blockread_batches D (drop BLOCKREAD_CHAIN_MAX reqs) (ws @ got) })"
  by pat_completeness auto
termination
  by (relation "measure (\<lambda>(D, reqs, ws). length reqs)") (auto simp: BLOCKREAD_CHAIN_MAX_def)

declare blockread_batches.simps [simp del]

definition dap_probe_blockread_many ::
  "dev \<Rightarrow> (u32 \<times> nat) list \<Rightarrow> ('e probe_scheme, esp_err \<times> u32 list) state" where
  "dap_probe_blockread_many D reqs = with_lock (blockread_batches D reqs [])"

definition dap_probe_init :: "dev \<Rightarrow> bool \<Rightarrow> u32 \<Rightarrow> ('e probe_scheme, esp_err) state" where
  "dap_probe_init D board_has_probe clock_hz = with_lock
     (if \<not> board_has_probe then ret ESP_ERR_NOT_SUPPORTED
      else ask (EvPhyInit (if clock_hz \<noteq> 0 then clock_hz else 1000000)) (d_err D))"

definition dap_probe_park_idle :: "dev \<Rightarrow> bool \<Rightarrow> u32 \<Rightarrow> ('e probe_scheme, esp_err) state" where
  "dap_probe_park_idle D board_has_probe bringup_hz =
     (if \<not> board_has_probe then ret ESP_ERR_NOT_SUPPORTED
      else do {
        err \<leftarrow> dap_probe_init D board_has_probe bringup_hz;
        if err \<noteq> ESP_OK then ret err else ret ESP_OK })"

section \<open>What an exchange does to the history\<close>

text \<open>\<open>steps b s s'\<close>: only the history grew (and the trailer count was clamped), the lock is held as
  deep as before, and \<open>b\<close> is what the bus sees now.\<close>



definition steps :: "bus \<Rightarrow> 'e probe_scheme \<Rightarrow> 'e probe_scheme \<Rightarrow> bool" where
  "steps b s s' \<longleftrightarrow> s' = s\<lparr>hist := hist s', trailer_bits := trailer_bits s'\<rparr> \<and>
     suffix (hist s) (hist s') \<and> lock_depth (hist s') = lock_depth (hist s) \<and> bus_of (hist s') = b"

lemma exchange_phy_effect:
  fixes s :: "'e probe_scheme"
  assumes "frame_parse (frame_bits f) = Some (cmd, lf, payload, n)"
  shows "steps (client_frame cmd payload (bus_of (hist s))) s (snd (run (exchange_phy D f rb) s))"
    using assms
    by (simp add: exchange_phy_def exchange_judge_def dap_phy_read_bits_def dap_phy_read_reply_def if_do_def Let_def steps_def suffix_Cons)

lemma exchange_fpga_effect:
  fixes s :: "'e probe_scheme"
  shows "steps (client_frame (f_cmd f) (take_bit (f_data_bits f) (f_data f)) (bus_of (hist s))) s (snd (run (exchange_fpga D f rb) s))"
    by (simp add: exchange_fpga_def dap_phy_fpga_exchange_def  Let_def steps_def suffix_Cons)


lemma build_ok:
  assumes "cmd \<le> 0x1F" "lf \<le> 63" "n \<le> 63"
  obtains f where "dap_frame_build empty_frame cmd lf data n = (True, f)"
    "f_cmd f = cmd" "f_data f = data" "f_data_bits f = n" "f_len_field f = lf"
    "frame_parse (frame_bits f) = Some (cmd, lf, take_bit n data, n)"
  using dap_frame_build_wire [OF wf_empty_frame assms, of data] frame_parse_wire [OF assms, of data]
  by metis

lemma steps_refl [simp]: "steps b s s \<longleftrightarrow> b = bus_of (hist s)"
  by (auto simp: steps_def)

lemma stepsE:
  assumes "steps b s s'"
  obtains h t where "s' = s\<lparr>hist := h, trailer_bits := t\<rparr>" "suffix (hist s) h"
    "lock_depth h = lock_depth (hist s)" "bus_of h = b"
  using assms by (auto simp: steps_def)

lemma stepsI: "suffix (hist s) h \<Longrightarrow> lock_depth h = lock_depth (hist s) \<Longrightarrow> bus_of h = b \<Longrightarrow>
   steps b s (s\<lparr>hist := h, trailer_bits := t\<rparr>)"
  by (simp add: steps_def)

lemma steps_trans: "steps b s s' \<Longrightarrow> steps b' s' s'' \<Longrightarrow> steps b' s s''"
  by (elim stepsE) (auto intro!: stepsI elim: suffix_order.trans)

lemma steps_unlock:
  assumes "steps b (s\<lparr>hist := EvLock # hist s\<rparr>) s1"
  shows "steps b s (s1\<lparr>hist := EvUnlock # hist s1\<rparr>)"
  using assms
proof (elim stepsE)
  have r: "s\<lparr>trailer_bits := t, hist := h\<rparr> = s\<lparr>hist := h, trailer_bits := t\<rparr>" for h t
    by simp
  fix h t
  assume "s1 = s\<lparr>hist := EvLock # hist s\<rparr>\<lparr>hist := h, trailer_bits := t\<rparr>"
    "suffix (hist (s\<lparr>hist := EvLock # hist s\<rparr>)) h"
    "lock_depth h = lock_depth (hist (s\<lparr>hist := EvLock # hist s\<rparr>))" "bus_of h = b"
  then show ?thesis
    using stepsI [of s "EvUnlock # h" b t]
    by (auto simp: suffix_Cons r dest: suffix_ConsD)
qed

lemma run_with_lock:
  "run (with_lock m) s = (let (r, s1) = run m (s\<lparr>hist := EvLock # hist s\<rparr>)
     in (r, s1\<lparr>hist := EvUnlock # hist s1\<rparr>))"
  by (simp add: with_lock_def Let_def split: prod.split)

definition heard :: "bus \<Rightarrow> esp_err \<Rightarrow> 'e probe_scheme \<Rightarrow> 'e probe_scheme \<Rightarrow> bool" where
  "heard b err s s' \<longleftrightarrow> steps b s s' \<or> (err \<noteq> ESP_OK \<and> steps (bus_of (hist s)) s s')"

lemma exchange_locked_effect:
  assumes "frame_parse (frame_bits f) = Some (f_cmd f, lf, take_bit (f_data_bits f) (f_data f), n)"
    "run (dap_probe_exchange_locked D f rb out) s = (r, s')"
  shows "heard (client_frame (f_cmd f) (take_bit (f_data_bits f) (f_data f)) (bus_of (hist s))) (fst r) s s'"
  using assms(2) exchange_phy_effect [OF assms(1), of s D rb] exchange_fpga_effect [of f s D rb]
  by (auto simp: dap_probe_exchange_locked_def heard_def split: if_splits)

lemma dap_probe_exchange_with_lock:
  "dap_probe_exchange D f rb out = with_lock (dap_probe_exchange_locked D f rb out)"
  by (simp add: dap_probe_exchange_def with_lock_def)

lemma exchange_effect:
  assumes "frame_parse (frame_bits f) = Some (f_cmd f, lf, take_bit (f_data_bits f) (f_data f), n)"
    "run (dap_probe_exchange D f rb out) s = (r, s')"
  shows "heard (client_frame (f_cmd f) (take_bit (f_data_bits f) (f_data f)) (bus_of (hist s))) (fst r) s s'"
proof -
  obtain s1 where "run (dap_probe_exchange_locked D f rb out) (s\<lparr>hist := EvLock # hist s\<rparr>) = (r, s1)"
      "s' = s1\<lparr>hist := EvUnlock # hist s1\<rparr>"
    using assms(2)
    by (cases "run (dap_probe_exchange_locked D f rb out) (s\<lparr>hist := EvLock # hist s\<rparr>)")
      (simp add: dap_probe_exchange_with_lock run_with_lock)
  with exchange_locked_effect [OF assms(1) this(1)] show ?thesis
    by (auto simp: heard_def intro: steps_unlock)
qed

lemma send_command_effect:
  assumes "cmd \<le> 0x1F" "lf \<le> 63" "n \<le> 63" "run (send_command D cmd lf data n rb out) s = (r, s')"
  shows "heard (client_frame cmd (take_bit n data) (bus_of (hist s))) (fst r) s s'"
proof -
  obtain f where f: "dap_frame_build empty_frame cmd lf data n = (True, f)"
    "f_cmd f = cmd" "f_data f = data" "f_data_bits f = n"
    "frame_parse (frame_bits f) = Some (cmd, lf, take_bit n data, n)"
    using build_ok [OF assms(1-3), of data] by metis
  have "run (dap_probe_exchange D f rb out) s = (r, s')"
    using assms(4) f(1) by (simp add: send_command_def)
  then show ?thesis using exchange_effect [of f lf n D rb out s r s'] f by simp
qed

lemma client_write_frame:
  assumes "i \<le> 15"
  shows "ucast (take_bit 36 (push_bit 4 (ucast (v :: u32)) OR ucast (i :: u8)) AND 0xF :: u64) = i"
    "ucast (drop_bit 4 (take_bit 36 (push_bit 4 (ucast (v :: u32)) OR ucast (i :: u8)) :: u64)) = v"
proof -
  have i: "bit i n \<Longrightarrow> n < 4" for n
  proof -
    assume n: "bit i n"
    have "i = take_bit 4 i" using assms by (intro take_bit_id_le [symmetric]) (simp add: word_le_nat_alt)
    then show "n < 4" using n by (metis bit_take_bit_iff)
  qed
  have m: "(0xF :: u64) = mask 4" by (simp add: mask_numeral)
  show "ucast (take_bit 36 (push_bit 4 (ucast v) OR ucast i) AND 0xF :: u64) = i"
    unfolding m by (rule bit_word_eqI) (auto simp: bit_simps bit_mask_iff dest: i)
  show "ucast (drop_bit 4 (take_bit 36 (push_bit 4 (ucast v) OR ucast i) :: u64)) = v"
    by (rule bit_word_eqI) (auto simp: bit_simps dest: i)
qed

lemma client_read_effect:
  assumes "run (dap_probe_client_read D i e rb out) s = (r, s')"
  shows "steps (bus_of (hist s)) s s'"
  using send_command_effect [of DAP_CMD_CLIENT_READ 7 7, OF _ _ _ assms [unfolded dap_probe_client_read_def]]
  by (auto simp: client_frame_def bus_consts heard_def)

lemma client_write_effect:
  assumes "run (dap_probe_client_write D i e (ucast (v :: u32)) 32 out) s = (r, s')" "i = DAP_IO_SET_ADDRESS \<or> i = DAP_IO_WRITE_WORD"
  shows "heard (if i = DAP_IO_SET_ADDRESS then (v, snd (bus_of (hist s)))
      else (fst (bus_of (hist s)), (fst (bus_of (hist s)), v) # snd (bus_of (hist s)))) (fst r) s s'"
proof -
  have "run (send_command D DAP_CMD_CLIENT_WRITE 36 (push_bit 4 (ucast v) OR ucast (i AND 0x0F)) 36 0 out) s
      = (r, s')"
    using assms(1) by (simp add: dap_probe_client_write_def)
  then have "heard (client_frame DAP_CMD_CLIENT_WRITE (take_bit 36 (push_bit 4 (ucast v) OR ucast (i AND 0x0F)))
      (bus_of (hist s))) (fst r) s s'"
    by (rule send_command_effect [rotated -1]) (simp_all add: bus_consts)
  then show ?thesis
    using assms(2) client_write_frame [of 1 v] client_write_frame [of 4 v]
    by (auto simp: client_frame_def Let_def bus_consts)
qed

text \<open>The two facts every layer above rests on: a read commands nothing, a write commands its word
  or, failing, possibly nothing.\<close>

definition unchanged :: "'e probe_scheme \<Rightarrow> 'e probe_scheme \<Rightarrow> bool" where
  "unchanged s s' \<longleftrightarrow>
     s' = s\<lparr>hist := hist s', hung := hung s', trailer_bits := trailer_bits s', max_wait := max_wait s'\<rparr> \<and>
     suffix (hist s) (hist s') \<and> lock_depth (hist s') = lock_depth (hist s)"

lemma unchangedE:
  assumes "unchanged s s'"
  obtains h hu t w where "s' = s\<lparr>hist := h, hung := hu, trailer_bits := t, max_wait := w\<rparr>"
    "suffix (hist s) h" "lock_depth h = lock_depth (hist s)"
  using assms by (auto simp: unchanged_def)

lemma unchanged_refl [simp]: "unchanged s s"
  by (simp add: unchanged_def)

lemma unchanged_trans [trans]: "unchanged s s' \<Longrightarrow> unchanged s' s'' \<Longrightarrow> unchanged s s''"
  by (elim unchangedE) (auto simp: unchanged_def elim: suffix_order.trans)

lemma steps_unchanged: "steps b s s' \<Longrightarrow> unchanged s s' \<and> hung s' = hung s"
  by (elim stepsE) (auto simp: unchanged_def)

abbreviation blog :: "'e probe_scheme \<Rightarrow> (u32 \<times> u32) list" where
  "blog s \<equiv> bus_writes (hist s)"

lemma steps_blog: "steps b s s' \<Longrightarrow> blog s' = snd b"
  by (simp add: steps_def bus_writes_def)

lemma read32_effect:
  assumes "run (dap_probe_read32 D a v0) s = (r, s')"
  shows "unchanged s s' \<and> hung s' = hung s \<and> blog s' = blog s"
proof -
  let ?s = "s\<lparr>hist := EvLock # hist s\<rparr>"
  obtain s1 where s1: "run (dap_probe_read32_locked D a v0) ?s = (r, s1)" "s' = s1\<lparr>hist := EvUnlock # hist s1\<rparr>"
    using assms by (auto simp: dap_probe_read32_def run_with_lock Let_def split: prod.splits)
  obtain err x s2 where s2: "run (dap_probe_client_write D DAP_IO_SET_ADDRESS 5 (ucast a) 32 no_exchange) ?s
      = ((err, x), s2)"
    by (metis prod_cases3 surj_pair)
  from client_write_effect [OF s2] obtain a' where e2: "steps (a', blog s) ?s s2"
    by (auto simp: heard_def bus_writes_def) (metis prod.collapse)
  have "\<exists>a''. steps (a'', blog s) ?s s1"
  proof (cases "err = ESP_OK")
    case True
    obtain err' x' s3 where s3: "run (dap_probe_client_read D DAP_IO_READ_WORD 5 32 x) s2 = ((err', x'), s3)"
      by (metis prod_cases3 surj_pair)
    have "s1 = s3" using s1(1) s2 s3 True by (auto simp: dap_probe_read32_locked_def split: if_splits)
    moreover have "steps (bus_of (hist s2)) s2 s3" by (rule client_read_effect [OF s3])
    moreover have "bus_of (hist s2) = (a', blog s)" using e2 by (simp add: steps_def)
    ultimately show ?thesis using steps_trans [OF e2] by metis
  next
    case False
    with s1(1) s2 e2 show ?thesis by (auto simp: dap_probe_read32_locked_def)
  qed
  then obtain a'' where "steps (a'', blog s) s s'" using steps_unlock s1(2) by blast
  then show ?thesis using steps_unchanged steps_blog by (metis snd_conv)
qed

lemma write32_effect:
  assumes "run (dap_probe_write32 D a v) s = (err, s')"
  shows "unchanged s s' \<and> hung s' = hung s \<and> (blog s' = (a, v) # blog s \<or> err \<noteq> ESP_OK \<and> blog s' = blog s)"
proof -
  let ?s = "s\<lparr>hist := EvLock # hist s\<rparr>"
  obtain s1 where s1: "run (dap_probe_write32_locked D a v) ?s = (err, s1)" "s' = s1\<lparr>hist := EvUnlock # hist s1\<rparr>"
    using assms by (auto simp: dap_probe_write32_def run_with_lock Let_def split: prod.splits)
  obtain err2 x s2 where s2: "run (dap_probe_client_write D DAP_IO_SET_ADDRESS 5 (ucast a) 32 no_exchange) ?s
      = ((err2, x), s2)"
    by (metis prod_cases3 surj_pair)
  from client_write_effect [OF s2] have e2: "steps (a, blog s) ?s s2 \<or>
      err2 \<noteq> ESP_OK \<and> steps (bus_of (hist s)) ?s s2"
    by (auto simp: heard_def bus_writes_def)
  have "\<exists>b. steps b ?s s1 \<and> (snd b = (a, v) # blog s \<or> err \<noteq> ESP_OK \<and> snd b = blog s)"
  proof (cases "err2 = ESP_OK")
    case True
    then have e2: "steps (a, blog s) ?s s2" using e2 by blast
    then have b2: "bus_of (hist s2) = (a, blog s)" by (simp add: steps_def)
    obtain err' x' s3 where s3: "run (dap_probe_client_write D DAP_IO_WRITE_WORD 5 (ucast v) 32 x) s2 = ((err', x'), s3)"
      by (metis prod_cases3 surj_pair)
    have "s1 = s3" "err = err'" using s1(1) s2 s3 True by (auto simp: dap_probe_write32_locked_def split: if_splits)
    moreover have "heard (a, (a, v) # blog s) err' s2 s3"
      using client_write_effect [OF s3] b2 by (simp add: bus_consts)
    ultimately show ?thesis using steps_trans [OF e2] b2 by (auto simp: heard_def) blast+
  next
    case False
    from e2 obtain b where b: "steps b ?s s2" "snd b = blog s"
      unfolding bus_writes_def by (metis snd_conv)
    from s1(1) s2 False have "s1 = s2" "err = err2" by (auto simp: dap_probe_write32_locked_def)
    with b False show ?thesis by blast
  qed
  then obtain b where "steps b s s'" "snd b = (a, v) # blog s \<or> err \<noteq> ESP_OK \<and> snd b = blog s"
    using steps_unlock s1(2) by blast
  then show ?thesis using steps_unchanged steps_blog by (metis snd_conv)
qed

end
