(* ===== verification/Dap_Bus.thy ===== *)
theory Dap_Bus
  imports Dap_Probe
begin

text \<open>
  What the layers above \<open>dap_probe.c\<close> may rely on: the word bus as a locale, interpreted on
  \<open>dap_probe_write32\<close>, and three frames, each an interpretation of \<open>preorder_frame\<close> with the probe's
  operations classified in it: which words an operation may command (\<open>grows\<close>), that it leaves
  everything but the link alone and holds the lock as deep as before (\<open>unchanged\<close>), and that no
  polling loop in it gives up (\<open>prompt\<close>). The properties of the probe are at the end.
\<close>

section \<open>The word bus as an interface\<close>

text \<open>What a client of \<open>dap_probe_write32\<close> may rely on: one word, or on an error possibly none.\<close>

locale word_bus =
  fixes log :: "'s \<Rightarrow> (u32 \<times> u32) list"
    and wr :: "u32 \<Rightarrow> u32 \<Rightarrow> ('s, esp_err) state"
  assumes wr_log: "run (wr a v) s = (err, s') \<Longrightarrow>
    log s' = (a, v) # log s \<or> (err \<noteq> ESP_OK \<and> log s' = log s)"
begin

text \<open>A chain of writes that stops at the first failure leaves a prefix of it on the bus, and all of
  it when it succeeds.\<close>

lemma chain:
  assumes "run (for_ok (\<lambda>(a, v). wr a v) ws) s = (err, s')"
  shows "\<exists>k \<le> length ws. log s' = rev (take k ws) @ log s \<and> (err = ESP_OK \<longrightarrow> k = length ws)"
  using assms
proof (induction ws arbitrary: s)
  case (Cons w ws)
  obtain a v where w: "w = (a, v)" by (cases w)
  obtain e s1 where s1: "run (wr a v) s = (e, s1)" by (cases "run (wr a v) s")
  show ?case
  proof (cases "e = ESP_OK")
    case True
    then have l1: "log s1 = (a, v) # log s" using wr_log [OF s1] by blast
    have "run (for_ok (\<lambda>(a, v). wr a v) ws) s1 = (err, s')" using Cons.prems s1 True w by simp
    from Cons.IH [OF this] obtain k where "k \<le> length ws"
      "log s' = rev (take k ws) @ log s1" "err = ESP_OK \<longrightarrow> k = length ws" by blast
    then show ?thesis by (intro exI [of _ "Suc k"]) (simp add: l1 w)
  next
    case False
    then have "err = e" "s' = s1" using Cons.prems s1 w by auto
    then show ?thesis
      using wr_log [OF s1] False w by (elim disjE) (rule exI [of _ 1], simp, rule exI [of _ 0], simp)
  qed
qed simp

end

interpretation probe_bus: word_bus "blog :: 'e probe_scheme \<Rightarrow> (u32 \<times> u32) list" "dap_probe_write32 D" for D
  by unfold_locales (use write32_effect in blast)

section \<open>Three frames\<close>

text \<open>\<open>grows A\<close>: the words put on the bus are all in \<open>A\<close>.\<close>

definition grows :: "(u32 \<times> u32) set \<Rightarrow> 'e probe_scheme \<Rightarrow> 'e probe_scheme \<Rightarrow> bool" where
  "grows A s s' \<longleftrightarrow> (\<exists>ws. blog s' = ws @ blog s \<and> set ws \<subseteq> A)"

definition prompt :: "'e phy_scheme \<Rightarrow> 'e phy_scheme \<Rightarrow> bool" where
  "prompt s s' \<longleftrightarrow> hung s' = hung s \<and> (\<exists>es. hist s' = es @ hist s)"

interpretation grows: preorder_frame "grows A :: 'e probe_scheme \<Rightarrow> 'e probe_scheme \<Rightarrow> bool" for A
proof
  show "grows A s s" for s :: "'e probe_scheme" by (simp add: grows_def)
  show "grows A s s''" if "grows A s s'" "grows A s' s''" for s s' s'' :: "'e probe_scheme"
  proof -
    from that obtain ws ws' where "blog s' = ws @ blog s" "blog s'' = ws' @ blog s'"
        "set ws \<subseteq> A" "set ws' \<subseteq> A"
      by (auto simp: grows_def)
    then show ?thesis unfolding grows_def by (intro exI [of _ "ws' @ ws"]) simp
  qed
qed

interpretation unchanged: preorder_frame "unchanged :: 'e probe_scheme \<Rightarrow> 'e probe_scheme \<Rightarrow> bool"
  by unfold_locales (simp, rule unchanged_trans)

interpretation prompt: preorder_frame "prompt :: 'e phy_scheme \<Rightarrow> 'e phy_scheme \<Rightarrow> bool"
proof
  show "prompt s s" for s :: "'e phy_scheme" by (simp add: prompt_def)
  show "prompt s s''" if "prompt s s'" "prompt s' s''" for s s' s'' :: "'e phy_scheme"
  proof -
    from that obtain es es' where "hist s' = es @ hist s" "hist s'' = es' @ hist s'"
        "hung s'' = hung s"
      by (auto simp: prompt_def)
    then show ?thesis unfolding prompt_def by (intro conjI exI [of _ "es' @ es"]) simp_all
  qed
qed

lemma grows_mono: "rel (grows A) m \<Longrightarrow> A \<subseteq> B \<Longrightarrow> rel (grows B) m"
  by (erule rel_mono) (auto simp: grows_def)

lemma grows_blog: "blog s' = blog s \<Longrightarrow> grows A s s'"
  by (simp add: grows_def)

text \<open>Events that are no lock operation and that a device decodes no write from.\<close>

lemma emit_rules:
  "(\<And>b. bus_step e b = b) \<Longrightarrow> rel (grows A) (emit e)"
  "e \<noteq> EvLock \<Longrightarrow> e \<noteq> EvUnlock \<Longrightarrow> rel unchanged (emit e :: ('e probe_scheme, unit) state)"
  "rel prompt (emit e)"
  "(\<And>b. bus_step e b = b) \<Longrightarrow> rel (grows A) (ask e f)"
  "e \<noteq> EvLock \<Longrightarrow> e \<noteq> EvUnlock \<Longrightarrow> rel unchanged (ask e f :: ('e probe_scheme, 'r) state)"
  "rel prompt (ask e f)"
  by (simp_all add: rel_def grows_def unchanged_def prompt_def bus_writes_def suffix_Cons)

lemma sense_rules: "rel (grows A) (sense f)" "rel unchanged (sense f :: ('e probe_scheme, 'r) state)"
  "rel prompt (sense f)"
  by (simp_all add: rel_def grows_def prompt_def)

lemma time_rules: "rel (grows A) (esp_timer_get_time D)"
  "rel unchanged (esp_timer_get_time D :: ('e probe_scheme, int) state)" "rel prompt (esp_timer_get_time D)"
  "rel (grows A) (vTaskDelay n)" "rel unchanged (vTaskDelay n :: ('e probe_scheme, unit) state)"
  "rel prompt (vTaskDelay n)"
  unfolding esp_timer_get_time_def vTaskDelay_def by (auto intro!: emit_rules)

lemma with_lock_rules:
  "rel (grows A) m \<Longrightarrow> rel (grows A) (with_lock m)"
  "rel unchanged m \<Longrightarrow> rel unchanged (with_lock m)"
  "rel prompt m \<Longrightarrow> rel prompt (with_lock m)"
  unfolding with_lock_def
  subgoal by (intro grows.rules emit_rules) simp_all
  subgoal
  proof (rule relI)
    fix s r s'
    assume m: "rel unchanged m" and "run (do { emit EvLock; r \<leftarrow> m; emit EvUnlock; ret r }) s = (r, s')"
    then obtain s1 where s1: "run m (s\<lparr>hist := EvLock # hist s\<rparr>) = (r, s1)" "s' = s1\<lparr>hist := EvUnlock # hist s1\<rparr>"
      by (auto split: prod.splits)
    from relD [OF m s1(1)] show "unchanged s s'"
      unfolding s1(2) by (elim unchangedE) (auto simp: unchanged_def suffix_Cons dest: suffix_ConsD)
  qed
  subgoal by (intro prompt.rules emit_rules)
  done

lemma read32_rules: "rel (grows A) (dap_probe_read32 D a v)"
  "rel unchanged (dap_probe_read32 D a v :: ('e probe_scheme, esp_err \<times> u32) state)"
  "rel prompt (dap_probe_read32 D a v)"
  by (auto intro!: relI simp: prompt_def grows_blog unchanged_def suffix_def dest!: read32_effect)

lemma write32_rules: "(a, v) \<in> A \<Longrightarrow> rel (grows A) (dap_probe_write32 D a v)"
  "rel unchanged (dap_probe_write32 D a v :: ('e probe_scheme, esp_err) state)"
  "rel prompt (dap_probe_write32 D a v)"
  by (auto intro!: relI simp: prompt_def grows_def unchanged_def suffix_def dest!: write32_effect)


named_theorems grows_frame \<open>what an operation may command\<close>
named_theorems unchanged_frame \<open>operations that leave everything but the link alone\<close>
named_theorems prompt_frame \<open>operations whose loops end\<close>

lemmas [grows_frame] = grows.rules emit_rules(1,4) sense_rules(1) time_rules(1,4) with_lock_rules(1)
  read32_rules(1) write32_rules(1)
lemmas [unchanged_frame] = unchanged.rules emit_rules(2,5) sense_rules(2) time_rules(2,5)
  with_lock_rules(2) read32_rules(2) write32_rules(2)
lemmas [prompt_frame] = prompt.rules emit_rules(3,6) sense_rules(3) time_rules(3,6) with_lock_rules(3)
  read32_rules(3) write32_rules(3)

lemma link_modify: "rel unchanged (modify (max_wait_update f) :: ('e probe_scheme, unit) state)"
  "rel (grows A) (modify (max_wait_update f))" "rel prompt (modify (max_wait_update f))"
  "rel unchanged (modify (\<lambda>s. s\<lparr>trailer_bits := g s\<rparr>) :: ('e probe_scheme, unit) state)"
  "rel (grows A) (modify (\<lambda>s. s\<lparr>trailer_bits := g s\<rparr>))" "rel prompt (modify (\<lambda>s. s\<lparr>trailer_bits := g s\<rparr>))"
  "rel unchanged (modify (\<lambda>s. s\<lparr>hung := b\<rparr>) :: ('e probe_scheme, unit) state)"
  "rel (grows A) (modify (\<lambda>s. s\<lparr>hung := b\<rparr>))"
  by (simp_all add: rel_def unchanged_def grows_def prompt_def)

lemmas [grows_frame] = link_modify(2,5,8)
lemmas [unchanged_frame] = link_modify(1,4,7)
lemmas [prompt_frame] = link_modify(3,6)

lemma client_read_rules:
  "rel (grows A) (dap_probe_client_read D i e n out)"
  "rel unchanged (dap_probe_client_read D i e n out :: ('e probe_scheme, esp_err \<times> dap_exchange) state)"
  "rel prompt (dap_probe_client_read D i e n out)"
  subgoal by (rule relI, rule grows_blog) (metis client_read_effect steps_blog bus_writes_def)
  subgoal by (auto intro!: relI dest!: client_read_effect dest: steps_unchanged)
  subgoal by (auto intro!: relI simp: prompt_def suffix_def unchanged_def dest!: client_read_effect
        steps_unchanged)
  done

lemma clear_error_state_rules:
  "rel (grows A) (dap_probe_clear_error_state D)"
  "rel unchanged (dap_probe_clear_error_state D :: ('e probe_scheme, esp_err) state)"
  "rel prompt (dap_probe_clear_error_state D)"
  unfolding dap_probe_clear_error_state_def dap_probe_clear_error_state_locked_def
  by (intro grows_frame client_read_rules, intro unchanged_frame client_read_rules,
      intro prompt_frame client_read_rules)

lemma poll_rules:
  "rel (grows A) body \<Longrightarrow> rel (grows A) (poll D n deadline tick body)"
  "rel unchanged body \<Longrightarrow> rel unchanged (poll D n deadline tick body :: ('e probe_scheme, 'r option) state)"
  subgoal by (induction n) (auto intro!: grows_frame)
  subgoal by (induction n) (auto intro!: unchanged_frame)
  done

lemma poll_prompt:
  fixes body :: "('e phy_scheme, 'r option) state" and f :: "'r option \<Rightarrow> ('e phy_scheme, 'q) state"
  assumes "clock_ok D" "rel prompt body" "0 \<le> t" "t < int (d_polls D)" "\<And>r. rel prompt (f r)"
  shows "rel prompt (do { now \<leftarrow> esp_timer_get_time D; r \<leftarrow> poll D (d_polls D) (now + t) tick body; f r })"
proof -
  have body: "hung (final body s) = hung s \<and> (\<exists>es. hist (final body s) = es @ hist s)" for s :: "'e phy_scheme"
    using rel_final [OF assms(2), of s] by (simp add: prompt_def)
  have loop: "rel prompt (do { now \<leftarrow> (esp_timer_get_time D :: ('e phy_scheme, int) state); poll D (d_polls D) (now + t) tick body })"
  proof (rule relI)
    fix s s' :: "'e phy_scheme" and r :: "'r option"
    let ?s = "s\<lparr>hist := EvTime # hist s\<rparr>"
    assume "run (do { now \<leftarrow> (esp_timer_get_time D :: ('e phy_scheme, int) state); poll D (d_polls D) (now + t) tick body }) s = (r, s')"
    then have s': "s' = final (poll D (d_polls D) (d_time D (hist ?s) + t) tick body) ?s"
      by (simp add: esp_timer_get_time_def final_def)
    have "hung s' = hung ?s \<and> (\<exists>es. hist s' = es @ hist ?s)"
      unfolding s' by (rule poll_returns [OF assms(1) body]) (use assms(3,4) in auto)
    then obtain es where "hung s' = hung s" "hist s' = es @ EvTime # hist s" by auto
    then show "prompt s s'" unfolding prompt_def by (intro conjI exI [of _ "es @ [EvTime]"]) auto
  qed
  have "rel prompt (do { now \<leftarrow> (esp_timer_get_time D :: ('e phy_scheme, int) state); poll D (d_polls D) (now + t) tick body } \<bind> f)"
    by (intro prompt.bind loop assms(5))
  then show ?thesis by (simp add: State_Monad.bind_assoc)
qed


section \<open>The other operations of the probe\<close>

lemmas [grows_frame] = client_read_rules(1) clear_error_state_rules(1) poll_rules(1)
lemmas [unchanged_frame] = client_read_rules(2) clear_error_state_rules(2) poll_rules(2)
lemmas [prompt_frame] = client_read_rules(3) clear_error_state_rules(3)

lemma fpga_rules:
  "rel (grows A) (dap_phy_fpga_blockread D p n c)"
  "rel unchanged (dap_phy_fpga_blockread D p n c :: ('e probe_scheme, esp_err \<times> u32 list) state)"
  "rel prompt (dap_phy_fpga_blockread D p n c)"
  "rel (grows A) (dap_phy_fpga_blockread_chain D bs)"
  "rel unchanged (dap_phy_fpga_blockread_chain D bs :: ('e probe_scheme, esp_err \<times> u32 list) state)"
  "rel prompt (dap_phy_fpga_blockread_chain D bs)"
  "rel (grows A) (dap_phy_read_bits D c)"
  "rel unchanged (dap_phy_read_bits D c :: ('e probe_scheme, u8 list) state)"
  "rel prompt (dap_phy_read_bits D c)"
  "rel unchanged (dap_phy_fpga_block_write D a ws :: ('e probe_scheme, esp_err) state)"
  "rel prompt (dap_phy_fpga_block_write D a ws)"
  unfolding dap_phy_fpga_blockread_def dap_phy_fpga_blockread_chain_def dap_phy_read_bits_def
    dap_phy_fpga_block_write_def
  by (auto intro!: emit_rules)

lemma block_write_grows:
  "set (block_words a ws) \<subseteq> A \<Longrightarrow> rel (grows A) (dap_phy_fpga_block_write D a ws)"
  by (auto simp: dap_phy_fpga_block_write_def rel_def grows_def bus_writes_def)

lemmas [grows_frame] = fpga_rules(1,4,7) block_write_grows
lemmas [unchanged_frame] = fpga_rules(2,5,8,10)
lemmas [prompt_frame] = fpga_rules(3,6,9,11)

lemma read_parcels_rules:
  "rel (grows A) (read_parcels D n ws)"
  "rel unchanged (read_parcels D n ws :: ('e probe_scheme, esp_err \<times> u32 list) state)"
  "rel prompt (read_parcels D n ws)"
  subgoal by (induction n arbitrary: ws) (auto intro!: grows_frame)
  subgoal by (induction n arbitrary: ws) (auto intro!: unchanged_frame)
  subgoal by (induction n arbitrary: ws) (auto intro!: prompt_frame)
  done

lemma blockread_locked_rules:
  "rel (grows A) (dap_probe_blockread_locked D a n)"
  "rel unchanged (dap_probe_blockread_locked D a n :: ('e probe_scheme, esp_err \<times> u32 list) state)"
  "rel prompt (dap_probe_blockread_locked D a n)"
proof -
  obtain f where f: "dap_frame_build empty_frame DAP_CMD_BLOCKREAD 40 (blockread_payload a n) 40 = (True, f)"
      "frame_parse (frame_bits f) = Some (DAP_CMD_BLOCKREAD, 40, take_bit 40 (blockread_payload a n), 40)"
    using build_ok [of DAP_CMD_BLOCKREAD 40 40 "blockread_payload a n"] by (auto simp: bus_consts)
  have quiet: "bus_step (EvWriteFrame f 0) b = b" for b
    by (simp add: f(2) client_frame_def bus_consts)
  show "rel (grows A) (dap_probe_blockread_locked D a n)"
    unfolding dap_probe_blockread_locked_def f(1) prod.case bool.case
    by (intro grows_frame read_parcels_rules quiet; simp)
  show "rel unchanged (dap_probe_blockread_locked D a n :: ('e probe_scheme, esp_err \<times> u32 list) state)"
    unfolding dap_probe_blockread_locked_def f(1) prod.case bool.case
    by (intro unchanged_frame read_parcels_rules; simp)
  show "rel prompt (dap_probe_blockread_locked D a n)"
    unfolding dap_probe_blockread_locked_def f(1) prod.case bool.case
    by (intro prompt_frame read_parcels_rules)
qed

lemmas [grows_frame] = blockread_locked_rules(1)
lemmas [unchanged_frame] = blockread_locked_rules(2)
lemmas [prompt_frame] = blockread_locked_rules(3)

lemma blockread_rules [grows_frame, unchanged_frame, prompt_frame]:
  "rel (grows A) (dap_probe_blockread D a n)"
  "rel unchanged (dap_probe_blockread D a n :: ('e probe_scheme, esp_err \<times> u32 list) state)"
  "rel prompt (dap_probe_blockread D a n)"
  "rel (grows A) (dap_probe_read32_fast D a v)"
  "rel unchanged (dap_probe_read32_fast D a v :: ('e probe_scheme, esp_err \<times> u32) state)"
  "rel prompt (dap_probe_read32_fast D a v)"
  unfolding dap_probe_read32_fast_def dap_probe_blockread_def
  by (intro grows_frame | intro unchanged_frame | intro prompt_frame)+

lemma blocks_one_by_one_rules:
  "rel (grows A) (blocks_one_by_one D rs ws)"
  "rel unchanged (blocks_one_by_one D rs ws :: ('e probe_scheme, esp_err \<times> u32 list) state)"
  "rel prompt (blocks_one_by_one D rs ws)"
  subgoal by (induction rs arbitrary: ws) (auto intro!: grows_frame)
  subgoal by (induction rs arbitrary: ws) (auto intro!: unchanged_frame)
  subgoal by (induction rs arbitrary: ws) (auto intro!: prompt_frame)
  done

lemma blockread_batches_rules:
  "rel (grows A) (blockread_batches D rs ws)"
  "rel unchanged (blockread_batches D rs ws :: ('e probe_scheme, esp_err \<times> u32 list) state)"
  "rel prompt (blockread_batches D rs ws)"
  subgoal by (induction D rs ws rule: blockread_batches.induct, subst blockread_batches.simps)
    (auto simp: block_batch_def intro!: grows_frame blocks_one_by_one_rules)
  subgoal by (induction D rs ws rule: blockread_batches.induct, subst blockread_batches.simps)
    (auto simp: block_batch_def intro!: unchanged_frame blocks_one_by_one_rules)
  subgoal by (induction D rs ws rule: blockread_batches.induct, subst blockread_batches.simps)
    (auto simp: block_batch_def intro!: prompt_frame blocks_one_by_one_rules)
  done

lemma blockread_many_rules [grows_frame, unchanged_frame, prompt_frame]:
  "rel (grows A) (dap_probe_blockread_many D rs)"
  "rel unchanged (dap_probe_blockread_many D rs :: ('e probe_scheme, esp_err \<times> u32 list) state)"
  "rel prompt (dap_probe_blockread_many D rs)"
  unfolding dap_probe_blockread_many_def by (intro with_lock_rules blockread_batches_rules)+


lemma exchange_rules:
  "rel unchanged (dap_probe_exchange D f rb out :: ('e probe_scheme, esp_err \<times> dap_exchange) state)"
  "rel prompt (dap_probe_exchange D f rb out)"
  unfolding dap_probe_exchange_with_lock dap_probe_exchange_locked_def exchange_fpga_def exchange_phy_def
    exchange_judge_def dap_phy_fpga_exchange_def dap_phy_read_reply_def
  by (intro unchanged_frame; simp) (intro prompt_frame)

lemma send_command_rules [unchanged_frame, prompt_frame]:
  "rel unchanged (send_command D cmd lf data n rb out :: ('e probe_scheme, esp_err \<times> dap_exchange) state)"
  "rel prompt (send_command D cmd lf data n rb out)"
  unfolding send_command_def
  by (cases "dap_frame_build empty_frame cmd lf data n"; cases "fst (dap_frame_build empty_frame cmd lf data n)";
      auto intro: exchange_rules unchanged.return prompt.return)+

lemma attach_rules:
  "rel unchanged (dap_probe_attach D out n :: ('e probe_scheme, esp_err \<times> dap_exchange) state)"
  "rel prompt (dap_probe_attach D out n)"
proof -
  have "rel unchanged (attach_loop D n err out :: ('e probe_scheme, esp_err \<times> dap_exchange) state)" for err
    by (induction n arbitrary: err out) (auto simp: dap_probe_sync_def intro!: unchanged_frame)
  moreover have "rel prompt (attach_loop D n err out)" for err
    by (induction n arbitrary: err out) (auto simp: dap_probe_sync_def intro!: prompt_frame)
  ultimately show "rel unchanged (dap_probe_attach D out n :: ('e probe_scheme, esp_err \<times> dap_exchange) state)"
    "rel prompt (dap_probe_attach D out n)"
    by (simp_all add: dap_probe_attach_def)
qed

lemma dapisc_rules:
  "rel unchanged (dap_probe_dapisc D v cold out :: ('e probe_scheme, esp_err \<times> dap_exchange) state)"
  "rel unchanged (dap_probe_set_rw_mode D sv :: ('e probe_scheme, esp_err) state)"
  "rel unchanged (dap_probe_client_set D c out :: ('e probe_scheme, esp_err \<times> dap_exchange) state)"
  unfolding dap_probe_dapisc_def dap_probe_note_dapisc_def dap_probe_set_rw_mode_def
    dap_probe_set_rw_mode_locked_def dap_probe_client_write_def dap_probe_client_set_def
  by (intro unchanged_frame)+

section \<open>A device that answers everything\<close>

definition good_dev :: "u32 \<Rightarrow> dev" where
  "good_dev answer = \<lparr>d_in_use = \<lambda>_. True, d_fpga_ready = \<lambda>_. True, d_is_wide = \<lambda>_. False,
     d_phy_ready = \<lambda>_. True, d_err = \<lambda>_. ESP_OK, d_reply = \<lambda>_. answer, d_waited = \<lambda>_. 3,
     d_words = \<lambda>_ _. answer, d_bits = \<lambda>_ _. 0, d_wait = \<lambda>_. 3,
     d_time = \<lambda>h. int (length h), d_yes = \<lambda>_. True, d_polls = 2 ^ 43\<rparr>"

text \<open>A device that never fails an exchange, and one whose answer to a read depends on the words
  commanded so far and on the address.\<close>

definition faultless :: "dev \<Rightarrow> bool" where
  "faultless D \<longleftrightarrow> (\<forall>h. d_in_use D h \<and> d_err D h = ESP_OK)"

definition answers :: "((u32 \<times> u32) list \<Rightarrow> u32 \<Rightarrow> u32) \<Rightarrow> dev \<Rightarrow> bool" where
  "answers f D \<longleftrightarrow> (\<forall>h. d_in_use D h \<and> d_reply D h = f (snd (bus_of h)) (fst (bus_of h)))"

definition bus_dev :: "((u32 \<times> u32) list \<Rightarrow> u32 \<Rightarrow> u32) \<Rightarrow> dev" where
  "bus_dev f = (good_dev 0)\<lparr>d_reply := \<lambda>h. f (snd (bus_of h)) (fst (bus_of h))\<rparr>"

lemma good_dev_answers [simp]: "faultless (good_dev r)" "answers (\<lambda>_ _. r) (good_dev r)"
  "faultless (bus_dev f)" "answers f (bus_dev f)"
  by (simp_all add: faultless_def answers_def bus_dev_def good_dev_def)

lemma faultless_send:
  assumes "faultless D" "cmd \<le> 0x1F" "lf \<le> 63" "n \<le> 63"
  shows "fst (fst (run (send_command D cmd lf data n rb out) s)) = ESP_OK"
proof -
  obtain f where "dap_frame_build empty_frame cmd lf data n = (True, f)"
    using build_ok [OF assms(2-4), of data] by metis
  then show ?thesis
    using assms(1)
    by (simp add: send_command_def dap_probe_exchange_with_lock run_with_lock dap_probe_exchange_locked_def
        exchange_fpga_def dap_phy_fpga_exchange_def faultless_def Let_def)
qed

lemma faultless_client:
  assumes "faultless D"
  shows "fst (fst (run (dap_probe_client_write D i e (ucast (v :: u32)) 32 out) s)) = ESP_OK"
    "fst (fst (run (dap_probe_client_read D i e n out) s)) = ESP_OK"
  using faultless_send [OF assms, of DAP_CMD_CLIENT_WRITE 36 36 "push_bit 4 (ucast v) OR ucast (i AND 0x0F)" 0 out s]
    faultless_send [OF assms, of DAP_CMD_CLIENT_READ 7 7 "ucast (dap_client_read_payload i e)" n out s]
  by (simp_all add: dap_probe_client_write_def dap_probe_client_read_def bus_consts)

lemma answers_client_read:
  assumes "answers f D" "run (dap_probe_client_read D i e n out) s = ((ESP_OK, y), s')"
  shows "reply y = ucast (f (blog s) (fst (bus_of (hist s))))"
proof -
  obtain fr where fr: "dap_frame_build empty_frame DAP_CMD_CLIENT_READ 7 (ucast (dap_client_read_payload i e)) 7 = (True, fr)"
      "f_cmd fr = DAP_CMD_CLIENT_READ"
  proof (rule build_ok [of DAP_CMD_CLIENT_READ 7 7 "ucast (dap_client_read_payload i e)"])
    show "DAP_CMD_CLIENT_READ \<le> 0x1F" "(7 :: u8) \<le> 63" "(7 :: nat) \<le> 63" by (simp_all add: bus_consts)
  qed
  show ?thesis
    using assms fr
    by (auto simp: dap_probe_client_read_def send_command_def dap_probe_exchange_with_lock run_with_lock
        dap_probe_exchange_locked_def exchange_fpga_def dap_phy_fpga_exchange_def answers_def Let_def
        bus_writes_def client_frame_def bus_consts)
qed

lemma answers_read32:
  assumes "answers f D" "run (dap_probe_read32 D a v) s = ((ESP_OK, w), s')"
  shows "w = f (blog s) a"
proof -
  let ?s = "s\<lparr>hist := EvLock # hist s\<rparr>"
  obtain e x s2 where s2: "run (dap_probe_client_write D DAP_IO_SET_ADDRESS 5 (ucast a) 32 no_exchange) ?s = ((e, x), s2)"
    by (metis prod_cases3 surj_pair)
  obtain e' y s3 where s3: "run (dap_probe_client_read D DAP_IO_READ_WORD 5 32 x) s2 = ((e', y), s3)"
    by (metis prod_cases3 surj_pair)
  have ok: "e = ESP_OK" "e' = ESP_OK" "w = ucast (reply y)"
    using assms(2) s2 s3
    by (auto simp: dap_probe_read32_def run_with_lock dap_probe_read32_locked_def Let_def
        split: prod.splits if_split_asm)
  have "steps (a, blog s) ?s s2"
    using client_write_effect [OF s2] ok(1) by (auto simp: heard_def bus_writes_def)
  then have "bus_of (hist s2) = (a, blog s)" by (simp add: steps_def)
  with answers_client_read [OF assms(1) s3 [unfolded ok(2)]] ok(3) show ?thesis by (simp add: bus_writes_def)
qed

lemma faultless_clientD:
  "run (dap_probe_client_write D i e (ucast (v :: u32)) 32 out) s = ((err, x), s') \<Longrightarrow> faultless D \<Longrightarrow> err = ESP_OK"
  "run (dap_probe_client_read D i e n out) s = ((err, x), s') \<Longrightarrow> faultless D \<Longrightarrow> err = ESP_OK"
  using faultless_client [of D] by (metis fst_conv)+

lemma faultless_read32: "faultless D \<Longrightarrow> fst (fst (run (dap_probe_read32 D a v) s)) = ESP_OK"
  by (auto simp: dap_probe_read32_def run_with_lock dap_probe_read32_locked_def split: prod.splits
      dest!: faultless_clientD)

lemma faultless_write32: "faultless D \<Longrightarrow> fst (run (dap_probe_write32 D a v) s) = ESP_OK"
  by (auto simp: dap_probe_write32_def run_with_lock dap_probe_write32_locked_def split: prod.splits
      dest!: faultless_clientD)

lemma faultless_clear: "faultless D \<Longrightarrow> fst (run (dap_probe_clear_error_state D) s) = ESP_OK"
  by (auto simp: dap_probe_clear_error_state_def run_with_lock dap_probe_clear_error_state_locked_def
      split: prod.splits dest!: faultless_clientD)

lemma good_read: "faultless D \<Longrightarrow> answers f D \<Longrightarrow> fst (run (dap_probe_read32 D a v) s) = (ESP_OK, f (blog s) a)"
  using faultless_read32 [of D a v s] answers_read32 [of f D a v s]
  by (cases "run (dap_probe_read32 D a v) s") (metis prod.collapse fst_conv)

lemmas good_read32 = good_read [OF good_dev_answers(1,2)]
lemmas good_write32 = faultless_write32 [OF good_dev_answers(1)]
lemmas good_runs = good_read32 [THEN run_fst] good_write32 [THEN run_fst]
  good_read [OF good_dev_answers(3,4), THEN run_fst] faultless_write32 [OF good_dev_answers(3), THEN run_fst]
  faultless_clear [OF good_dev_answers(3), THEN run_fst]

definition probe0 :: probe where
  "probe0 = \<lparr>hist = [], hung = False, trailer_bits = 0, raw_window = 0, max_wait = 248, fpi_prio = False\<rparr>"

section \<open>Properties\<close>

text \<open>C7: \<open>dap_probe_write32\<close> commands exactly its word at its address, or fails, and then perhaps
  commands nothing; whichever way the frames go out (fabric or bit-banged), nothing else reaches
  the bus, only the link's own state changes, and the lock is released.\<close>

theorem write32_commands_one_word:
  fixes s :: "'e probe_scheme"
  shows "let m = dap_probe_write32 D a v
    in (blog (final m s) = (a, v) # blog s \<or> result m s \<noteq> ESP_OK \<and> blog (final m s) = blog s) \<and>
       unchanged s (final m s) \<and> hung (final m s) = hung s"
  using write32_effect [of D a v s] unfolding Let_def final_def result_def
  by (cases "run (dap_probe_write32 D a v) s") auto

text \<open>Reading never writes: no read of the target, single, polled or in blocks and chains of
  blocks, nor clearing the error state, puts a word on the bus, whatever the device answers; each
  leaves everything but the link alone and holds the lock as deep as before.\<close>

theorem reads_command_nothing:
  fixes s :: "'e probe_scheme"
  shows "let quiet = (\<lambda>s'. blog s' = blog s \<and> unchanged s s')
    in quiet (final (dap_probe_read32 D a v) s) \<and> quiet (final (dap_probe_read32_fast D a v) s) \<and>
       quiet (final (dap_probe_blockread D a n) s) \<and> quiet (final (dap_probe_blockread_many D reqs) s) \<and>
       quiet (final (dap_probe_clear_error_state D) s)"
proof -
  have quiet: "blog (final m s) = blog s \<and> unchanged s (final m s)"
    if "rel (grows {}) m" "rel unchanged m" for m :: "('e probe_scheme, 'r) state"
    using rel_final [OF that(1), of s] rel_final [OF that(2), of s] by (auto simp: grows_def)
  show ?thesis
    unfolding Let_def by (intro conjI quiet [THEN conjunct1] quiet [THEN conjunct2] grows_frame unchanged_frame)
qed

text \<open>C8: over the bit-banged link an exchange succeeds only on what it could check. Unless the raw window of the bench
  diagnostics is set, the reply was asked for within the configured wait and its margin and the link reported its start
  bit; a data reply then passed the CRC residue check, and what is returned is the payload of the very bits the link
  delivered; a bare acknowledge, which carries no CRC, came within \<open>DAP_ACK_MAX_WAIT\<close> clocks. With the raw window set
  the exchange reports no reply at all.\<close>

theorem accepted_reply:
  assumes "run (dap_probe_exchange_locked D f rb out) s = ((ESP_OK, x), s')" "\<not> d_in_use D (hist s)"
  shows "if raw_window s \<noteq> 0 then x = no_exchange\<lparr>sent_word := dap_frame_word f, sent_bits := f_len f\<rparr>
    else \<exists>es h bits. hist s' = es @ h \<and>
      h = EvReadReply rb (unat (max_wait s + DAP_WAIT_MARGIN)) # EvTurnRead # EvWriteFrame f DAP_FRAME_LEAD_CLOCKS # hist s \<and> wait_cycles x = d_wait D h \<and> 0 \<le> d_wait D h \<and>
      bits = map (d_bits D h) [0..<(if rb = 0 then 0 else rb + 6)] \<and> reply x = bits_to_word (take rb bits) \<and>
      (if rb = 0 then wait_cycles x \<le> DAP_ACK_MAX_WAIT else dap_crc6_residue_ok bits (rb + 6))"
  using assms
  by (auto simp: dap_probe_exchange_locked_def exchange_phy_def exchange_judge_def Let_def if_do_def
      dap_phy_read_reply_def dap_phy_read_bits_def not_less split: if_split_asm)

text \<open>\<open>dap_probe_enable_ocds\<close> reports success only after the four OEC.PAT words went out one
  right after another (anything between them would reset the matcher), then OCNTRL, then the
  miniMCDS clock enable (whose own failure it ignores), then CT.SETE.\<close>

theorem enable_ocds_order:
  assumes "result (dap_probe_enable_ocds D) s = ESP_OK"
  shows "\<exists>clc \<in> {[], [(DAP_ADDR_MCDS_CLC, 0)]}.
    blog (final (dap_probe_enable_ocds D) s) =
      (DAP_ADDR_MCDS_CT, 0x8000) # clc @ (DAP_ADDR_OCNTRL, 0x0300) #
      map (\<lambda>p. (DAP_ADDR_OEC_PAT, p)) [0x5E, 0xA1, 0x5E, 0xA1] @ blog s"
proof -
  let ?s = "s\<lparr>hist := EvLock # hist s\<rparr>" and ?W = "\<lambda>a v. dap_probe_write32 D a v"
  obtain s1 where s1: "run (dap_probe_enable_ocds_locked D) ?s = (ESP_OK, s1)"
      "final (dap_probe_enable_ocds D) s = s1\<lparr>hist := EvUnlock # hist s1\<rparr>"
    using assms by (cases "run (dap_probe_enable_ocds_locked D) ?s")
      (auto simp: dap_probe_enable_ocds_def result_def final_def run_with_lock)
  let ?pats = "[0xA1, 0x5E, 0xA1, 0x5E] :: u32 list"
  obtain e2 s2 where s2: "run (for_ok (\<lambda>p. ?W DAP_ADDR_OEC_PAT p) ?pats) ?s = (e2, s2)"
    by (cases "run (for_ok (\<lambda>p. ?W DAP_ADDR_OEC_PAT p) ?pats) ?s")
  have "run (for_ok (\<lambda>(a, v). ?W a v) (map (Pair DAP_ADDR_OEC_PAT) ?pats)) ?s = (e2, s2)"
    using s2 by (simp only: for_ok_map prod.case)
  from probe_bus.chain [OF this]
  have chain: "e2 = ESP_OK \<longrightarrow> blog s2 = rev (map (Pair DAP_ADDR_OEC_PAT) ?pats) @ blog ?s"
    by (elim exE conjE) (simp del: for_ok.simps)
  obtain e3 v3 s3 where s3: "run (dap_probe_read32 D DAP_ADDR_OSTATE 0) s2 = ((e3, v3), s3)"
    by (metis prod_cases3 surj_pair)
  obtain e4 s4 where s4: "run (?W DAP_ADDR_OCNTRL 0x0300) s3 = (e4, s4)"
    by (cases "run (?W DAP_ADDR_OCNTRL 0x0300) s3")
  obtain e5 s5 where s5: "run (?W DAP_ADDR_MCDS_CLC 0) s4 = (e5, s5)"
    by (cases "run (?W DAP_ADDR_MCDS_CLC 0) s4")
  obtain e6 s6 where s6: "run (?W DAP_ADDR_MCDS_CT 0x8000) s5 = (e6, s6)"
    by (cases "run (?W DAP_ADDR_MCDS_CT 0x8000) s5")
  have ok: "e2 = ESP_OK" "e4 = ESP_OK" "e6 = ESP_OK" "s6 = s1"
    using s1(1) s2 s3 s4 s5 s6
    by (auto simp: dap_probe_enable_ocds_locked_def simp del: for_ok.simps split: if_split_asm)
  have "blog s1 = (DAP_ADDR_MCDS_CT, 0x8000) # blog s5" "blog s4 = (DAP_ADDR_OCNTRL, 0x0300) # blog s2"
    "blog s5 = (DAP_ADDR_MCDS_CLC, 0) # blog s4 \<or> blog s5 = blog s4"
    "blog s2 = rev (map (Pair DAP_ADDR_OEC_PAT) ?pats) @ blog s"
    using write32_effect [OF s4] write32_effect [OF s5] write32_effect [OF s6] read32_effect [OF s3] ok chain
    by (auto simp: bus_writes_def)
  then show ?thesis using s1(2) by (auto simp: bus_writes_def)
qed

lemma enable_ocds_order_witness:
  "length (blog (final (dap_probe_enable_ocds (good_dev 1)) probe0)) \<in> {6, 7}"
proof -
  have "result (dap_probe_enable_ocds (good_dev 1)) probe0 = ESP_OK"
    by (simp add: good_runs result_def dap_probe_enable_ocds_def run_with_lock dap_probe_enable_ocds_locked_def)
  from enable_ocds_order [OF this] show ?thesis by (auto simp: probe0_def bus_writes_def bus_of_def)
qed


lemma accepted_reply_witness:
  "wait_cycles (snd (fst (run (dap_probe_exchange_locked (good_dev 0\<lparr>d_in_use := \<lambda>_. False\<rparr>)
     empty_frame 0 no_exchange) probe0))) \<le> DAP_ACK_MAX_WAIT"
proof -
  let ?D = "good_dev 0\<lparr>d_in_use := \<lambda>_. False\<rparr>"
  obtain x s' where r: "run (dap_probe_exchange_locked ?D empty_frame 0 no_exchange) probe0 = ((ESP_OK, x), s')"
    by (simp add: dap_probe_exchange_locked_def exchange_phy_def exchange_judge_def Let_def if_do_def
        dap_phy_read_reply_def dap_phy_read_bits_def good_dev_def probe0_def DAP_REPLY_MAX_BITS_def
        DAP_ACK_MAX_WAIT_def)
  from accepted_reply [OF r] have "wait_cycles x \<le> DAP_ACK_MAX_WAIT" by (auto simp: good_dev_def probe0_def)
  then show ?thesis by (simp add: r)
qed

text \<open>The chains of block reads a history holds, newest first.\<close>

definition chains :: "hist \<Rightarrow> (u64 \<times> nat \<times> nat) list list" where
  "chains h = concat (map (\<lambda>e. case e of EvBlockreadChain bs \<Rightarrow> [bs] | _ \<Rightarrow> []) h)"

definition chain_of :: "(u32 \<times> nat) list \<Rightarrow> (u64 \<times> nat \<times> nat) list" where
  "chain_of batch = map (\<lambda>r. (blockread_payload (fst r) (snd r), 40, snd r)) batch"

text \<open>The words the fabric answered to the chains of a history, oldest first.\<close>

fun chain_words :: "dev \<Rightarrow> phy_ev list \<Rightarrow> u32 list" where
  "chain_words D [] = []"
| "chain_words D (e # h) = chain_words D h @ (case e of
     EvBlockreadChain bs \<Rightarrow> map (d_words D (e # h)) [0..<sum_list (map (snd \<circ> snd) bs)] | _ \<Rightarrow> [])"

lemma blockread_batches_chains:
  assumes "\<And>h. d_in_use D h" "run (blockread_batches D reqs ws) s = ((ESP_OK, ws'), s')"
  shows "\<exists>batches. concat batches = reqs \<and> (\<forall>b\<in>set batches. b \<noteq> [] \<and> length b \<le> BLOCKREAD_CHAIN_MAX) \<and>
    chains (hist s') = rev (map chain_of batches) @ chains (hist s) \<and>
    (\<forall>r\<in>set reqs. 1 \<le> snd r \<and> snd r \<le> 256) \<and>
    (\<exists>got. ws' = ws @ got \<and> length got = sum_list (map snd reqs) \<and> chain_words D (hist s') = chain_words D (hist s) @ got)"
  using assms
proof (induction D reqs ws arbitrary: s rule: blockread_batches.induct)
  case (1 D reqs ws)
  show ?case
  proof (cases "reqs = []")
    case True
    with "1.prems"(2) show ?thesis by (subst (asm) blockread_batches.simps) (auto intro!: exI [of _ "[]"])
  next
    case False
    let ?b = "take BLOCKREAD_CHAIN_MAX reqs" and ?rest = "drop BLOCKREAD_CHAIN_MAX reqs"
    obtain err got s1 where s1: "run (block_batch D ?b) s = ((err, got), s1)"
      by (metis prod_cases3 surj_pair)
    with "1.prems"(2) False have ok: "err = ESP_OK"
      and rest: "run (blockread_batches D ?rest (ws @ got)) s1 = ((ESP_OK, ws'), s')"
      by (subst (asm) blockread_batches.simps, auto split: if_splits)+
    have batch: "\<forall>r\<in>set ?b. 1 \<le> snd r \<and> snd r \<le> 256" "chains (hist s1) = chain_of ?b # chains (hist s)"
      "length got = sum_list (map snd ?b)" "chain_words D (hist s1) = chain_words D (hist s) @ got"
      using s1 ok "1.prems"(1)
      by (auto simp: block_batch_def dap_phy_fpga_blockread_chain_def chains_def chain_of_def list_ex_iff
          not_less comp_def Suc_le_eq split: if_splits)
    obtain bs more where bs: "concat bs = ?rest" "\<forall>b\<in>set bs. b \<noteq> [] \<and> length b \<le> BLOCKREAD_CHAIN_MAX"
      "chains (hist s') = rev (map chain_of bs) @ chains (hist s1)"
      "\<forall>r\<in>set ?rest. 1 \<le> snd r \<and> snd r \<le> 256" "ws' = (ws @ got) @ more"
      "length more = sum_list (map snd ?rest)" "chain_words D (hist s') = chain_words D (hist s1) @ more"
      using "1.IH" [OF False _ "1.prems"(1) rest] ok by auto
    have "concat (?b # bs) = reqs" using bs(1) by simp
    moreover have "set reqs = set ?b \<union> set ?rest" by (metis append_take_drop_id set_append)
    moreover have "sum_list (map snd reqs) = sum_list (map snd ?b) + sum_list (map snd ?rest)"
      by (metis append_take_drop_id map_append sum_list_append)
    ultimately show ?thesis
      using bs batch False by (intro exI [of _ "?b # bs"]) (auto simp: BLOCKREAD_CHAIN_MAX_def intro!: exI [of _ "got @ more"])
  qed
qed

text \<open>C9: through the fabric, a successful \<open>dap_probe_blockread_many\<close> has asked for every request,
  in order and once, in chains of at most 16 whose payloads name the request's address and count,
  every count lying in 1..256, and it returns exactly the words the fabric answered to those chains, in the order
  of the chains, as many as the requests add up to.\<close>

theorem blockread_many_covers:
  assumes "\<And>h. d_in_use D h" "result (dap_probe_blockread_many D reqs) s = (ESP_OK, ws)"
  shows "\<exists>batches. concat batches = reqs \<and> (\<forall>b\<in>set batches. b \<noteq> [] \<and> length b \<le> BLOCKREAD_CHAIN_MAX) \<and>
    chains (hist (final (dap_probe_blockread_many D reqs) s)) = rev (map chain_of batches) @ chains (hist s) \<and>
    (\<forall>r\<in>set reqs. 1 \<le> snd r \<and> snd r \<le> 256) \<and> length ws = sum_list (map snd reqs) \<and>
    chain_words D (hist (final (dap_probe_blockread_many D reqs) s)) = chain_words D (hist s) @ ws"
proof -
  obtain r s1 where s1: "run (blockread_batches D reqs []) (s\<lparr>hist := EvLock # hist s\<rparr>) = (r, s1)"
    by (cases "run (blockread_batches D reqs []) (s\<lparr>hist := EvLock # hist s\<rparr>)")
  with assms(2) have r: "r = (ESP_OK, ws)"
      "final (dap_probe_blockread_many D reqs) s = s1\<lparr>hist := EvUnlock # hist s1\<rparr>"
    by (simp_all add: dap_probe_blockread_many_def result_def final_def run_with_lock)
  have "chains (EvUnlock # hist s1) = chains (hist s1)" "chains (EvLock # hist s) = chains (hist s)"
      "chain_words D (EvUnlock # hist s1) = chain_words D (hist s1)" "chain_words D (EvLock # hist s) = chain_words D (hist s)"
    by (simp_all add: chains_def)
  with blockread_batches_chains [OF assms(1) s1 [unfolded r(1)]] r(2) show ?thesis by simp
qed

lemma blockread_many_covers_witness:
  "chains (hist (final (dap_probe_blockread_many (good_dev 7) (replicate 17 (0xB8000000, 256))) probe0)) \<noteq> []"
proof -
  have "fst (result (dap_probe_blockread_many (good_dev 7) (replicate 17 (0xB8000000, 256))) probe0) = ESP_OK"
    by (simp add: result_def dap_probe_blockread_many_def run_with_lock blockread_batches.simps block_batch_def
        dap_phy_fpga_blockread_chain_def BLOCKREAD_CHAIN_MAX_def good_dev_def list_ex_iff split: prod.split)
  then obtain ws where "result (dap_probe_blockread_many (good_dev 7) (replicate 17 (0xB8000000, 256))) probe0 = (ESP_OK, ws)"
    by (metis prod.collapse)
  from blockread_many_covers [OF _ this] obtain batches where
    "concat batches = replicate 17 (0xB8000000 :: u32, 256 :: nat)"
    "chains (hist (final (dap_probe_blockread_many (good_dev 7) (replicate 17 (0xB8000000, 256))) probe0))
       = rev (map chain_of batches) @ chains (hist probe0)"
    by (auto simp: good_dev_def)
  then show ?thesis by (cases batches) auto
qed

end
