(* ===== verification/Tricore.thy ===== *)
theory Tricore
  imports Dap_Bus
begin

text \<open>
  \<open>tricore.c\<close> with the constants of \<open>tricore_priv.h\<close> and the types of \<open>tricore.h\<close>: core discovery,
  DBGSR, halting through EXEVT and a Cerberus trigger line, resuming, and the OCDS reset. The
  static arrays are functions of the core number; a core number is an \<open>int\<close>, as in the source, and
  every access is behind \<open>tricore_core_ok\<close>. The trigger slots (\<open>s_slots\<close> of \<open>tricore_regs.c\<close>) are
  here because \<open>tricore_discover\<close> resets them.
\<close>

section \<open>State\<close>

datatype tricore_bp_kind =
    TRICORE_BP_FREE | TRICORE_BP_USER | TRICORE_BP_STEP | TRICORE_BP_WATCH | TRICORE_BP_WATCH_HI

record tricore_bp =
  bp_addr :: u32
  bp_size :: u32
  bp_kind :: tricore_bp_kind
  bp_on_read :: bool
  bp_on_write :: bool

definition free_bp :: tricore_bp where
  "free_bp = \<lparr>bp_addr = 0, bp_size = 0, bp_kind = TRICORE_BP_FREE, bp_on_read = False, bp_on_write = False\<rparr>"

record tricore = probe +
  present :: "int \<Rightarrow> bool"       \<comment> \<open>\<open>tricore_present\<close>\<close>
  core_count :: int              \<comment> \<open>\<open>s_count\<close>\<close>
  halt_line :: "int \<Rightarrow> int"      \<comment> \<open>\<open>s_halt_line\<close>\<close>
  halt_tlc :: "int \<Rightarrow> u32"       \<comment> \<open>\<open>s_halt_tlc\<close>\<close>
  slots :: "int \<Rightarrow> int \<Rightarrow> tricore_bp"  \<comment> \<open>\<open>s_slots\<close>\<close>

definition TRICORE_MAX_CORES :: int where "TRICORE_MAX_CORES = 6"
definition TRICORE_NUM_TRIGGERS :: int where "TRICORE_NUM_TRIGGERS = 8"

definition all_cores :: "int list" where "all_cores = [0, 1, 2, 3, 4, 5]"

definition CBS_OCNTRL :: u32 where "CBS_OCNTRL = 0xF000047C"
definition CBS_OSTATE :: u32 where "CBS_OSTATE = 0xF0000480"
definition CBS_TLC :: u32 where "CBS_TLC = 0xF0000490"
definition CBS_TRC :: "int \<Rightarrow> u32" where "CBS_TRC core = 0xF0000420 + 4 * of_int core"
definition TRC_BRKIN_SHIFT :: nat where "TRC_BRKIN_SHIFT = 20"
definition TLSP_FORCE_ACTIVE :: u32 where "TLSP_FORCE_ACTIVE = 3"
definition OCNTRL_HARR :: u32 where "OCNTRL_HARR = 0x20000"
definition OCNTRL_HARR_P :: u32 where "OCNTRL_HARR_P = 0x10000"
definition OCNTRL_APPRESET :: u32 where "OCNTRL_APPRESET = 0x80000000"
definition OCNTRL_APPRESET_P :: u32 where "OCNTRL_APPRESET_P = 0x40000000"
definition OSTATE_HARR :: u32 where "OSTATE_HARR = 0x100"
definition OFF_DBGSR :: u32 where "OFF_DBGSR = 0xFD00"
definition OFF_EXEVT :: u32 where "OFF_EXEVT = 0xFD08"
definition OFF_CREVT :: u32 where "OFF_CREVT = 0xFD0C"
definition OFF_SWEVT :: u32 where "OFF_SWEVT = 0xFD10"
definition OFF_SYSCON :: u32 where "OFF_SYSCON = 0xFE14"
definition SYSCON_BHALT :: u32 where "SYSCON_BHALT = 0x1000000"
definition HALT_REQ_CLEAR :: u32 where "HALT_REQ_CLEAR = 2"
definition EXEVT_HALT_AND_SUSPEND :: u32 where "EXEVT_HALT_AND_SUSPEND = 0x22"
definition STM_BASE :: "int \<Rightarrow> u32" where "STM_BASE core = 0xF0001000 + 0x100 * of_int core"
definition STM_OCS :: u32 where "STM_OCS = 0xE8"
definition STM_OCS_SUS_HARD :: u32 where "STM_OCS_SUS_HARD = 0x12000000"
definition STM_OCS_SUS_OFF :: u32 where "STM_OCS_SUS_OFF = 0x10000000"

definition k_core_base :: "int \<Rightarrow> u32" where
  "k_core_base core = [0xF8810000, 0xF8830000, 0xF8850000, 0xF8870000, 0xF8890000, 0xF88B0000] ! nat core"

section \<open>Cores\<close>

definition tricore_core_ok :: "int \<Rightarrow> 'e tricore_scheme \<Rightarrow> bool" where
  "tricore_core_ok core s \<longleftrightarrow> core \<ge> 0 \<and> core < TRICORE_MAX_CORES \<and> present s core"

definition tricore_core_reg :: "int \<Rightarrow> u32 \<Rightarrow> u32" where
  "tricore_core_reg core offset = k_core_base core + offset"

definition tricore_rd :: "dev \<Rightarrow> int \<Rightarrow> u32 \<Rightarrow> u32 \<Rightarrow> ('e tricore_scheme, esp_err \<times> u32) state" where
  "tricore_rd D core offset out = dap_probe_read32 D (tricore_core_reg core offset) out"

definition tricore_wr :: "dev \<Rightarrow> int \<Rightarrow> u32 \<Rightarrow> u32 \<Rightarrow> ('e tricore_scheme, esp_err) state" where
  "tricore_wr D core offset v = dap_probe_write32 D (tricore_core_reg core offset) v"

definition tricore_forget_triggers :: "('e tricore_scheme, unit) state" where
  "tricore_forget_triggers = modify (\<lambda>s. s\<lparr>slots := \<lambda>_ _. free_bp\<rparr>)"

definition tricore_core_started :: "dev \<Rightarrow> int \<Rightarrow> ('e tricore_scheme, bool) state" where
  "tricore_core_started D core = do {
     ok \<leftarrow> gets (tricore_core_ok core);
     if \<not> ok then ret False
     else do {
       (err, syscon) \<leftarrow> tricore_rd D core OFF_SYSCON 0;
       ret (err = ESP_OK \<and> syscon AND SYSCON_BHALT = 0) } }"

text \<open>One round of the discovery loop.\<close>

definition discover_core :: "dev \<Rightarrow> int \<Rightarrow> ('e tricore_scheme, unit) state" where
  "discover_core D core = do {
     (err, dbgsr) \<leftarrow> dap_probe_read32 D (k_core_base core + OFF_DBGSR) 0;
     if err \<noteq> ESP_OK then do { dap_probe_clear_error_state D; skip }
     else do {
       modify (\<lambda>s. s\<lparr>present := (present s)(core := True)\<rparr>);
       modify (\<lambda>s. s\<lparr>core_count := core_count s + 1\<rparr>);
       tricore_core_started D core;
       skip } }"

definition tricore_discover :: "dev \<Rightarrow> ('e tricore_scheme, esp_err) state" where
  "tricore_discover D = do {
     modify (\<lambda>s. s\<lparr>present := \<lambda>_. False\<rparr>);
     tricore_forget_triggers;
     modify (\<lambda>s. s\<lparr>core_count := 0\<rparr>);
     (err, ostate) \<leftarrow> dap_probe_read32 D CBS_OSTATE 0;
     if err \<noteq> ESP_OK then ret ESP_ERR_INVALID_STATE
     else if ostate AND 1 = 0 then ret ESP_ERR_INVALID_STATE
     else do {
       for_each (discover_core D) all_cores;
       n \<leftarrow> gets core_count;
       ret (if n \<noteq> 0 then ESP_OK else ESP_ERR_NOT_FOUND) } }"

text \<open>The index of the \<open>n\<close>-th present core, or -1.\<close>

fun core_index_from :: "int list \<Rightarrow> (int \<Rightarrow> bool) \<Rightarrow> int \<Rightarrow> int" where
  "core_index_from [] here n = - 1"
| "core_index_from (core # cores) here n =
     (if here core then (if n = 0 then core else core_index_from cores here (n - 1))
      else core_index_from cores here n)"

definition tricore_core_index :: "int \<Rightarrow> 'e tricore_scheme \<Rightarrow> int" where
  "tricore_core_index n s = core_index_from all_cores (present s) n"

section \<open>State of a core\<close>

primrec dbgsr_attempts :: "dev \<Rightarrow> nat \<Rightarrow> int \<Rightarrow> u32 \<Rightarrow> ('e tricore_scheme, esp_err \<times> u32) state" where
  "dbgsr_attempts D 0 core out = ret (ESP_ERR_TIMEOUT, out)"
| "dbgsr_attempts D (Suc n) core out = do {
     (err, out) \<leftarrow> tricore_rd D core OFF_DBGSR out;
     if err = ESP_OK then ret (ESP_OK, out)
     else do {
       dap_probe_clear_error_state D;
       vTaskDelay 2;
       dbgsr_attempts D n core out } }"

definition tricore_dbgsr :: "dev \<Rightarrow> int \<Rightarrow> u32 \<Rightarrow> ('e tricore_scheme, esp_err \<times> u32) state" where
  "tricore_dbgsr D core out = do {
     ok \<leftarrow> gets (tricore_core_ok core);
     if \<not> ok then ret (ESP_ERR_INVALID_ARG, out) else dbgsr_attempts D 3 core out }"

definition tricore_is_halted :: "dev \<Rightarrow> int \<Rightarrow> ('e tricore_scheme, bool) state" where
  "tricore_is_halted D core = do {
     (err, dbgsr) \<leftarrow> tricore_dbgsr D core 0;
     ret (if err \<noteq> ESP_OK then False else drop_bit 1 dbgsr AND 1 \<noteq> 0) }"

definition tricore_wait_halted :: "dev \<Rightarrow> int \<Rightarrow> bool \<Rightarrow> u32 \<Rightarrow> ('e tricore_scheme, bool) state" where
  "tricore_wait_halted D core want timeout_ms = do {
     now \<leftarrow> esp_timer_get_time D;
     r \<leftarrow> poll D (d_polls D) (now + uint timeout_ms * 1000) 2
       (do { halted \<leftarrow> tricore_is_halted D core; ret (if halted = want then Some () else None) });
     ret (r \<noteq> None) }"

section \<open>Run control\<close>

text \<open>Releasing the trigger line: the tail of \<open>tricore_halt_release\<close>, \<open>tricore_halt_poll\<close> and
  \<open>tricore_halt\<close>.\<close>

definition release_line :: "dev \<Rightarrow> int \<Rightarrow> ('e tricore_scheme, unit) state" where
  "release_line D core = do {
     line \<leftarrow> gets (\<lambda>s. halt_line s core);
     if_do (line > 0) (do {
       tlc \<leftarrow> gets (\<lambda>s. halt_tlc s core);
       dap_probe_write32 D CBS_TLC tlc;
       modify (\<lambda>s. s\<lparr>halt_line := (halt_line s)(core := 0)\<rparr>) }) }"

text \<open>A running core still armed by an earlier halt would stop too: disarm the others.\<close>

definition disarm_other :: "dev \<Rightarrow> int \<Rightarrow> int \<Rightarrow> ('e tricore_scheme, unit) state" where
  "disarm_other D core other = do {
     ok \<leftarrow> gets (tricore_core_ok other);
     if_do (other \<noteq> core \<and> ok) (do {
       started \<leftarrow> tricore_core_started D other;
       if_do started (do {
         halted \<leftarrow> tricore_is_halted D other;
         if_do (\<not> halted) (do {
           (err, armed) \<leftarrow> tricore_rd D other OFF_EXEVT 0;
           if_do (err = ESP_OK \<and> armed \<noteq> 0) (do { tricore_wr D other OFF_EXEVT 0; skip }) }) }) }) }"

definition route_line :: "u32 \<Rightarrow> int \<Rightarrow> u32" where
  "route_line routing line = (routing AND NOT (push_bit TRC_BRKIN_SHIFT 0xF)) OR push_bit TRC_BRKIN_SHIFT (of_int line)"

definition tricore_halt_request :: "dev \<Rightarrow> int \<Rightarrow> int \<Rightarrow> ('e tricore_scheme, esp_err) state" where
  "tricore_halt_request D core line = do {
     ok \<leftarrow> gets (tricore_core_ok core);
     if \<not> ok then ret ESP_ERR_INVALID_ARG
     else if line < 1 \<or> line > 7 then ret ESP_ERR_INVALID_ARG
     else do {
       for_each (disarm_other D core) all_cores;
       err \<leftarrow> tricore_wr D core OFF_EXEVT EXEVT_HALT_AND_SUSPEND;
       if err \<noteq> ESP_OK then ret err
       else do {
         (err, routing) \<leftarrow> dap_probe_read32 D (CBS_TRC core) 0;
         if err \<noteq> ESP_OK then ret ESP_ERR_INVALID_STATE
         else do {
           err \<leftarrow> dap_probe_write32 D (CBS_TRC core) (route_line routing line);
           if err \<noteq> ESP_OK then ret ESP_ERR_INVALID_STATE
           else do {
             (err, control) \<leftarrow> dap_probe_read32 D CBS_TLC 0;
             if err \<noteq> ESP_OK then ret ESP_ERR_INVALID_STATE
             else do {
               let shift = nat (4 * line);
               let tlc = control AND NOT (push_bit shift 0xF);
               modify (\<lambda>s. s\<lparr>halt_line := (halt_line s)(core := line)\<rparr>);
               modify (\<lambda>s. s\<lparr>halt_tlc := (halt_tlc s)(core := tlc)\<rparr>);
               err \<leftarrow> dap_probe_write32 D CBS_TLC tlc;
               if err \<noteq> ESP_OK then ret ESP_ERR_INVALID_STATE
               else dap_probe_write32 D CBS_TLC (tlc OR push_bit shift TLSP_FORCE_ACTIVE) } } } } } }"

definition tricore_halt_diag :: "dev \<Rightarrow> int \<Rightarrow> ('e tricore_scheme, unit) state" where
  "tricore_halt_diag D core = do {
     ok \<leftarrow> gets (tricore_core_ok core);
     if_do ok (do {
       tricore_rd D core OFF_DBGSR 0;
       tricore_rd D core OFF_EXEVT 0;
       dap_probe_read32 D (CBS_TRC core) 0;
       dap_probe_read32 D CBS_TLC 0;
       dap_probe_read32 D CBS_OSTATE 0;
       skip }) }"

definition tricore_halt_release :: "dev \<Rightarrow> int \<Rightarrow> ('e tricore_scheme, unit) state" where
  "tricore_halt_release D core = do {
     ok \<leftarrow> gets (tricore_core_ok core);
     if_do ok (release_line D core) }"

definition tricore_halt_poll :: "dev \<Rightarrow> int \<Rightarrow> ('e tricore_scheme, bool) state" where
  "tricore_halt_poll D core = do {
     ok \<leftarrow> gets (tricore_core_ok core);
     if \<not> ok then ret False
     else do {
       halted \<leftarrow> tricore_is_halted D core;
       if \<not> halted then ret False
       else do { release_line D core; ret True } } }"

definition tricore_halt :: "dev \<Rightarrow> int \<Rightarrow> int \<Rightarrow> u32 \<Rightarrow> ('e tricore_scheme, esp_err) state" where
  "tricore_halt D core line timeout_ms = do {
     ok \<leftarrow> gets (tricore_core_ok core);
     if \<not> ok then ret ESP_ERR_INVALID_ARG
     else do {
       halted \<leftarrow> tricore_is_halted D core;
       if halted then ret ESP_OK
       else do {
         err \<leftarrow> tricore_halt_request D core line;
         if err \<noteq> ESP_OK then ret err
         else do {
           stopped \<leftarrow> tricore_wait_halted D core True timeout_ms;
           release_line D core;
           ret (if stopped then ESP_OK else ESP_ERR_TIMEOUT) } } } }"

definition tricore_request_resume :: "dev \<Rightarrow> int \<Rightarrow> ('e tricore_scheme, esp_err) state" where
  "tricore_request_resume D core = do {
     ok \<leftarrow> gets (tricore_core_ok core);
     if \<not> ok then ret ESP_ERR_INVALID_ARG
     else tricore_wr D core OFF_DBGSR (push_bit 1 HALT_REQ_CLEAR) }"

definition tricore_resume :: "dev \<Rightarrow> int \<Rightarrow> u32 \<Rightarrow> ('e tricore_scheme, esp_err) state" where
  "tricore_resume D core timeout_ms = do {
     err \<leftarrow> tricore_request_resume D core;
     if err \<noteq> ESP_OK then ret err
     else do {
       running \<leftarrow> tricore_wait_halted D core False timeout_ms;
       ret (if running then ESP_OK else ESP_ERR_TIMEOUT) } }"

definition tricore_clear_debug_events :: "dev \<Rightarrow> int \<Rightarrow> ('e tricore_scheme, unit) state" where
  "tricore_clear_debug_events D core = do {
     ok \<leftarrow> gets (tricore_core_ok core);
     if_do ok (do {
       tricore_wr D core OFF_CREVT 0;
       tricore_wr D core OFF_EXEVT 0;
       tricore_wr D core OFF_SWEVT 0;
       skip }) }"

definition tricore_halt_after_reset_pending :: "dev \<Rightarrow> ('e tricore_scheme, bool) state" where
  "tricore_halt_after_reset_pending D = do {
     (err, ostate) \<leftarrow> dap_probe_read32 D CBS_OSTATE 0;
     if err \<noteq> ESP_OK then do { dap_probe_clear_error_state D; ret False }
     else ret (ostate AND OSTATE_HARR \<noteq> 0) }"

definition tricore_set_halt_after_reset :: "dev \<Rightarrow> bool \<Rightarrow> ('e tricore_scheme, esp_err) state" where
  "tricore_set_halt_after_reset D enable = do {
     err \<leftarrow> dap_probe_write32 D CBS_OCNTRL (OCNTRL_HARR_P OR (if enable then OCNTRL_HARR else 0));
     if err \<noteq> ESP_OK then ret err
     else do {
       pending \<leftarrow> tricore_halt_after_reset_pending D;
       ret (if pending \<noteq> enable then ESP_FAIL else ESP_OK) } }"

definition tricore_request_application_reset :: "dev \<Rightarrow> ('e tricore_scheme, esp_err) state" where
  "tricore_request_application_reset D = do {
     dap_probe_write32 D CBS_OCNTRL (OCNTRL_APPRESET_P OR OCNTRL_APPRESET);
     dap_probe_clear_error_state D;
     ret ESP_OK }"

definition tricore_freeze_timer :: "dev \<Rightarrow> int \<Rightarrow> bool \<Rightarrow> ('e tricore_scheme, esp_err) state" where
  "tricore_freeze_timer D core enable = do {
     ok \<leftarrow> gets (tricore_core_ok core);
     if \<not> ok then ret ESP_ERR_INVALID_ARG
     else dap_probe_write32 D (STM_BASE core + STM_OCS) (if enable then STM_OCS_SUS_HARD else STM_OCS_SUS_OFF) }"


section \<open>What run control changes\<close>

text \<open>\<open>debug_step\<close>: nothing outside the link and run control changed, the lock is held as deep as
  before, and only peripherals were written: no word went to the flash, to the DMU's command sequence
  interpreter or to a scratchpad, which are the flasher's.\<close>

definition periph :: "(u32 \<times> u32) set" where
  "periph = {(a, v). 0xB0000000 \<le> a}"

definition debug_step :: "'e tricore_scheme \<Rightarrow> 'e tricore_scheme \<Rightarrow> bool" where
  "debug_step s s' \<longleftrightarrow> tricore.more s' = tricore.more s \<and> lock_depth (hist s') = lock_depth (hist s) \<and>
     grows periph s s'"

interpretation debug_step: preorder_frame "debug_step :: 'e tricore_scheme \<Rightarrow> 'e tricore_scheme \<Rightarrow> bool"
  by unfold_locales (auto simp: debug_step_def grows.R_refl elim: grows.R_trans)

named_theorems debug_frame \<open>operations that are run control only\<close>

lemma unchanged_more: "unchanged s s' \<Longrightarrow> tricore.more s' = tricore.more s \<and> lock_depth (hist s') = lock_depth (hist s)"
  by (elim unchangedE) simp

lemma unchanged_debug: "rel unchanged m \<Longrightarrow> rel (grows periph) m \<Longrightarrow> rel debug_step m"
  unfolding rel_def debug_step_def by (auto dest: unchanged_more)

lemma debug_modify [debug_frame]:
  "rel debug_step (modify (\<lambda>s. s\<lparr>present := f s\<rparr>) :: ('e tricore_scheme, unit) state)"
  "rel debug_step (modify (\<lambda>s. s\<lparr>core_count := f2 s\<rparr>) :: ('e tricore_scheme, unit) state)"
  "rel debug_step (modify (\<lambda>s. s\<lparr>halt_line := f3 s\<rparr>) :: ('e tricore_scheme, unit) state)"
  "rel debug_step (modify (\<lambda>s. s\<lparr>halt_tlc := f4 s\<rparr>) :: ('e tricore_scheme, unit) state)"
  "rel debug_step (modify (\<lambda>s. s\<lparr>slots := f5 s\<rparr>) :: ('e tricore_scheme, unit) state)"
  "rel debug_step (modify (\<lambda>s. s\<lparr>hung := b\<rparr>) :: ('e tricore_scheme, unit) state)"
  by (simp_all add: rel_def debug_step_def grows_def)

lemma debug_write32 [debug_frame]:
  "(a, v) \<in> periph \<Longrightarrow> rel debug_step (dap_probe_write32 D a v :: ('e tricore_scheme, esp_err) state)"
  by (intro unchanged_debug write32_rules)

lemmas [debug_frame] = debug_step.rules
  unchanged_debug [OF sense_rules(2,1)] unchanged_debug [OF time_rules(2,1)]
  unchanged_debug [OF time_rules(5,4)] unchanged_debug [OF read32_rules(2,1)]
  unchanged_debug [OF clear_error_state_rules(2,1)] unchanged_debug [OF blockread_rules(2,1)]
  unchanged_debug [OF blockread_rules(5,4)] unchanged_debug [OF blockread_many_rules(2,1)]

lemma debug_poll [debug_frame]:
  assumes "rel debug_step body"
  shows "rel debug_step (poll D n deadline tick body :: ('e tricore_scheme, 'r option) state)"
proof (induction n)
  case 0
  show ?case unfolding poll.simps by (intro debug_frame)
next
  case (Suc n)
  with assms show ?case unfolding poll.simps by (intro debug_frame)
qed

lemma core_base_cases:
  assumes "0 \<le> core" "core < 6"
  shows "k_core_base core \<in> {0xF8810000, 0xF8830000, 0xF8850000, 0xF8870000, 0xF8890000, 0xF88B0000}"
proof -
  from assms have "core = 0 \<or> core = 1 \<or> core = 2 \<or> core = 3 \<or> core = 4 \<or> core = 5" by linarith
  then show ?thesis by (elim disjE) (simp_all add: k_core_base_def)
qed

definition small_offset :: "u32 \<Rightarrow> bool" where
  "small_offset offset \<longleftrightarrow> offset < 0x10000"

lemma core_reg_periph:
  assumes "0 \<le> core" "core < 6" "small_offset offset"
  shows "(tricore_core_reg core offset, v) \<in> periph"
proof -
  have "0xF8810000 \<le> unat (k_core_base core)" "unat (k_core_base core) + 0x10000 \<le> 0xF88C0000"
    using core_base_cases [OF assms(1,2)] by auto
  moreover have "unat offset < 0x10000"
    using assms(3) by (simp add: small_offset_def word_less_nat_alt)
  ultimately have "unat (tricore_core_reg core offset) \<ge> 0xF8810000"
    by (simp add: tricore_core_reg_def unat_word_ariths(1))
  then show ?thesis by (simp add: periph_def word_le_nat_alt word_less_nat_alt)
qed

text \<open>The guard of every operation on a core.\<close>

lemma guard_core [debug_frame]:
  assumes "0 \<le> core \<Longrightarrow> core < 6 \<Longrightarrow> rel debug_step m" "rel debug_step n"
  shows "rel debug_step (gets (tricore_core_ok core) \<bind> (\<lambda>ok. if \<not> ok then n else m))"
proof (cases "0 \<le> core \<and> core < 6")
  case True
  then show ?thesis using assms by (intro debug_step.rules) auto
next
  case False
  then have "rel debug_step (gets (tricore_core_ok core) \<bind> (\<lambda>ok. if \<not> ok then n else m)) = rel debug_step n"
    by (auto simp: rel_def tricore_core_ok_def TRICORE_MAX_CORES_def)
  then show ?thesis using assms(2) by simp
qed

lemma guard_core_do [debug_frame]:
  assumes "0 \<le> core \<Longrightarrow> core < 6 \<Longrightarrow> rel debug_step m"
  shows "rel debug_step (gets (tricore_core_ok core) \<bind> (\<lambda>ok. if_do ok m))"
    "rel debug_step (gets (tricore_core_ok core) \<bind> (\<lambda>ok. if_do (b \<and> ok) m))"
proof -
  have "rel debug_step (gets (tricore_core_ok core) \<bind> (\<lambda>ok. if_do (b \<and> ok) m))" for b
  proof (cases "0 \<le> core \<and> core < 6")
    case True
    then show ?thesis using assms by (intro debug_step.rules) auto
  next
    case False
    then show ?thesis
      by (auto simp: rel_def tricore_core_ok_def TRICORE_MAX_CORES_def if_do_def debug_step.R_refl)
  qed
  from this [of True] this [of b] show
    "rel debug_step (gets (tricore_core_ok core) \<bind> (\<lambda>ok. if_do ok m))"
    "rel debug_step (gets (tricore_core_ok core) \<bind> (\<lambda>ok. if_do (b \<and> ok) m))" by simp_all
qed

lemma small_offsets [simp]:
  "small_offset OFF_DBGSR" "small_offset OFF_EXEVT" "small_offset OFF_CREVT" "small_offset OFF_SWEVT"
  "small_offset OFF_SYSCON"
  by (simp_all add: small_offset_def OFF_DBGSR_def OFF_EXEVT_def OFF_CREVT_def OFF_SWEVT_def OFF_SYSCON_def)

lemma debug_rd [debug_frame]: "rel debug_step (tricore_rd D core off v :: ('e tricore_scheme, esp_err \<times> u32) state)"
  unfolding tricore_rd_def by (intro debug_frame)

lemma debug_wr [debug_frame]:
  "0 \<le> core \<Longrightarrow> core < 6 \<Longrightarrow> small_offset off \<Longrightarrow>
   rel debug_step (tricore_wr D core off v :: ('e tricore_scheme, esp_err) state)"
  unfolding tricore_wr_def by (intro debug_frame core_reg_periph)

lemma fixed_periph [debug_frame, simp]:
  "(CBS_OCNTRL, v) \<in> periph" "(CBS_TLC, v) \<in> periph"
  by (simp_all add: periph_def CBS_OCNTRL_def CBS_TLC_def)

lemma core_word_periph [debug_frame]:
  assumes "0 \<le> core" "core < 6"
  shows "(CBS_TRC core, v) \<in> periph" "(STM_BASE core + STM_OCS, v) \<in> periph"
proof -
  from assms have "core = 0 \<or> core = 1 \<or> core = 2 \<or> core = 3 \<or> core = 4 \<or> core = 5" by linarith
  then show "(CBS_TRC core, v) \<in> periph" "(STM_BASE core + STM_OCS, v) \<in> periph"
    by (auto simp: periph_def CBS_TRC_def STM_BASE_def STM_OCS_def)
qed

lemma debug_core_started [debug_frame]:
  "rel debug_step (tricore_core_started D core :: ('e tricore_scheme, bool) state)"
  unfolding tricore_core_started_def by (intro debug_frame)

lemma debug_discover [debug_frame]: "rel debug_step (tricore_discover D :: ('e tricore_scheme, esp_err) state)"
  unfolding tricore_discover_def discover_core_def tricore_forget_triggers_def by (intro debug_frame)

lemma debug_dbgsr [debug_frame]: "rel debug_step (tricore_dbgsr D core v :: ('e tricore_scheme, esp_err \<times> u32) state)"
proof -
  have "rel debug_step (dbgsr_attempts D n core v :: ('e tricore_scheme, esp_err \<times> u32) state)" for n
    by (induction n arbitrary: v) (auto intro!: debug_frame)
  then show ?thesis unfolding tricore_dbgsr_def by (intro debug_frame)
qed

lemma debug_halted [debug_frame]:
  "rel debug_step (tricore_is_halted D core :: ('e tricore_scheme, bool) state)"
  "rel debug_step (tricore_wait_halted D core want t :: ('e tricore_scheme, bool) state)"
  unfolding tricore_wait_halted_def tricore_is_halted_def by (intro debug_frame)+

lemma debug_run_control [debug_frame]:
  "rel debug_step (release_line D core :: ('e tricore_scheme, unit) state)"
  "rel debug_step (tricore_halt_request D core line :: ('e tricore_scheme, esp_err) state)"
  "rel debug_step (tricore_request_resume D core :: ('e tricore_scheme, esp_err) state)"
  unfolding release_line_def tricore_halt_request_def disarm_other_def tricore_request_resume_def
  by (intro debug_frame; simp)+

lemma debug_run_control2 [debug_frame]:
  "rel debug_step (tricore_halt D core line t :: ('e tricore_scheme, esp_err) state)"
  "rel debug_step (tricore_halt_release D core :: ('e tricore_scheme, unit) state)"
  "rel debug_step (tricore_halt_poll D core :: ('e tricore_scheme, bool) state)"
  "rel debug_step (tricore_halt_diag D core :: ('e tricore_scheme, unit) state)"
  "rel debug_step (tricore_resume D core t :: ('e tricore_scheme, esp_err) state)"
  "rel debug_step (tricore_clear_debug_events D core :: ('e tricore_scheme, unit) state)"
  "rel debug_step (tricore_set_halt_after_reset D b :: ('e tricore_scheme, esp_err) state)"
  "rel debug_step (tricore_request_application_reset D :: ('e tricore_scheme, esp_err) state)"
  "rel debug_step (tricore_freeze_timer D core b :: ('e tricore_scheme, esp_err) state)"
  unfolding tricore_halt_def tricore_halt_release_def tricore_halt_poll_def tricore_halt_diag_def
    tricore_resume_def tricore_clear_debug_events_def tricore_set_halt_after_reset_def
    tricore_request_application_reset_def tricore_freeze_timer_def tricore_halt_after_reset_pending_def
  by (intro debug_frame; simp)+


section \<open>Termination\<close>

text \<open>The clock runs and a polling loop may take more rounds than \<open>ms\<close> milliseconds have microseconds. A time-out of
  that length is then over before the rounds are: a loop that went on past its time-out would use them up on a
  clock that moves by one microsecond a round, and raise \<open>hung\<close>.\<close>

definition polls_for :: "dev \<Rightarrow> int \<Rightarrow> bool" where
  "polls_for D ms \<longleftrightarrow> clock_ok D \<and> ms * 1000 < int (d_polls D)"

lemma polls_good [simp]: "polls_for (good_dev r) ms \<longleftrightarrow> ms * 1000 < 2 ^ 43"
  by (simp add: polls_for_def clock_ok_def good_dev_def)

lemma polls_mono: "polls_for D ms \<Longrightarrow> us \<le> ms \<Longrightarrow> polls_for D us"
  by (simp add: polls_for_def)

lemma prompt_modify [prompt_frame]:
  "rel prompt (modify (\<lambda>s. s\<lparr>present := f s\<rparr>))" "rel prompt (modify (\<lambda>s. s\<lparr>core_count := f2 s\<rparr>))"
  "rel prompt (modify (\<lambda>s. s\<lparr>halt_line := f3 s\<rparr>))" "rel prompt (modify (\<lambda>s. s\<lparr>halt_tlc := f4 s\<rparr>))"
  "rel prompt (modify (\<lambda>s. s\<lparr>slots := f5 s\<rparr>))"
  by (simp_all add: rel_def prompt_def)

lemma prompt_attempts: "rel prompt (dbgsr_attempts D n core v)"
  by (induction n arbitrary: v) (auto simp: tricore_rd_def intro!: prompt_frame)

lemma prompt_dbgsr [prompt_frame]:
  "rel prompt (tricore_dbgsr D core v)" "rel prompt (tricore_is_halted D core)"
  "rel prompt (tricore_core_started D core)"
proof -
  show d: "rel prompt (tricore_dbgsr D core v)" for D core v
    unfolding tricore_dbgsr_def by (intro prompt_frame prompt_attempts)
  show "rel prompt (tricore_is_halted D core)"
    unfolding tricore_is_halted_def by (intro prompt_frame d)
  show "rel prompt (tricore_core_started D core)"
    unfolding tricore_core_started_def tricore_rd_def by (intro prompt_frame)
qed

lemma prompt_wait_halted [prompt_frame]:
  "polls_for D (uint t) \<Longrightarrow> rel prompt (tricore_wait_halted D core want t)"
  unfolding tricore_wait_halted_def
  by (rule poll_prompt) (auto simp: polls_for_def intro!: prompt_frame)

lemma prompt_run_control [prompt_frame]:
  "rel prompt (release_line D core)" "rel prompt (tricore_halt_request D core line)"
  "rel prompt (tricore_request_resume D core)" "rel prompt (tricore_halt_release D core)"
  "rel prompt (tricore_halt_diag D core)" "rel prompt (tricore_clear_debug_events D core)"
  "rel prompt (tricore_set_halt_after_reset D b)" "rel prompt (tricore_request_application_reset D)"
  "rel prompt (tricore_discover D)"
  unfolding release_line_def tricore_halt_request_def disarm_other_def tricore_request_resume_def
    tricore_halt_release_def tricore_halt_diag_def tricore_clear_debug_events_def tricore_discover_def discover_core_def
    tricore_set_halt_after_reset_def tricore_request_application_reset_def tricore_forget_triggers_def
    tricore_halt_after_reset_pending_def tricore_rd_def tricore_wr_def
  by (intro prompt_frame)+

lemma prompt_halt [prompt_frame]:
  "polls_for D (uint t) \<Longrightarrow> rel prompt (tricore_halt D core line t)"
  "polls_for D (uint t) \<Longrightarrow> rel prompt (tricore_resume D core t)"
  unfolding tricore_halt_def tricore_resume_def by (intro prompt_frame; assumption)+

section \<open>Discovery\<close>

lemma unchanged_present: "unchanged s s' \<Longrightarrow> present s' = present s \<and> core_count s' = core_count s \<and>
    halt_line s' = halt_line s \<and> halt_tlc s' = halt_tlc s \<and> slots s' = slots s"
  by (elim unchangedE) simp

lemma unchanged_rd [unchanged_frame]:
  "rel unchanged (tricore_rd D core off v :: ('e tricore_scheme, esp_err \<times> u32) state)"
  "rel unchanged (tricore_wr D core off v :: ('e tricore_scheme, esp_err) state)"
  unfolding tricore_rd_def tricore_wr_def by (intro unchanged_frame)+

lemma unchanged_core_started [unchanged_frame]:
  "rel unchanged (tricore_core_started D core :: ('e tricore_scheme, bool) state)"
  unfolding tricore_core_started_def by (intro unchanged_frame)

lemma unchanged_attempts:
  "rel unchanged (dbgsr_attempts D n core v :: ('e tricore_scheme, esp_err \<times> u32) state)"
  by (induction n arbitrary: v) (auto intro!: unchanged_frame)

lemma unchanged_dbgsr [unchanged_frame]:
  "rel unchanged (tricore_dbgsr D core v :: ('e tricore_scheme, esp_err \<times> u32) state)"
  "rel unchanged (tricore_is_halted D core :: ('e tricore_scheme, bool) state)"
proof -
  show d: "rel unchanged (tricore_dbgsr D core v :: ('e tricore_scheme, esp_err \<times> u32) state)" for D core v
    unfolding tricore_dbgsr_def by (intro unchanged_frame unchanged_attempts)
  show "rel unchanged (tricore_is_halted D core :: ('e tricore_scheme, bool) state)"
    unfolding tricore_is_halted_def by (intro unchanged_frame d)
qed

lemma discover_core_effect:
  "let s' = final (discover_core D core) s
   in (present s' = present s \<and> core_count s' = core_count s) \<or>
      (present s' = (present s)(core := True) \<and> core_count s' = core_count s + 1)"
proof -
  obtain err v s1 where s1: "run (dap_probe_read32 D (k_core_base core + OFF_DBGSR) 0) s = ((err, v), s1)"
    by (metis prod_cases3 surj_pair)
  have p1: "present s1 = present s" "core_count s1 = core_count s"
    using unchanged_present relD [OF read32_rules(2) s1] by blast+
  show ?thesis
  proof (cases "err = ESP_OK")
    case True
    let ?s2 = "s1\<lparr>present := (present s1)(core := True), core_count := core_count s1 + 1\<rparr>"
    obtain b s3 where s3: "run (tricore_core_started D core) ?s2 = (b, s3)"
      by (cases "run (tricore_core_started D core) ?s2")
    have "present s3 = present ?s2 \<and> core_count s3 = core_count ?s2"
      using unchanged_present relD [OF unchanged_core_started s3] by blast
    then show ?thesis using s1 s3 True p1 by (simp add: discover_core_def final_def)
  next
    case False
    obtain e s2 where s2: "run (dap_probe_clear_error_state D) s1 = (e, s2)"
      by (cases "run (dap_probe_clear_error_state D) s1")
    have "present s2 = present s1 \<and> core_count s2 = core_count s1"
      using unchanged_present relD [OF clear_error_state_rules(2) s2] by blast
    then show ?thesis using s1 s2 False p1 by (simp add: discover_core_def final_def)
  qed
qed

lemma discover_loop:
  assumes "distinct xs" "\<forall>c\<in>set xs. \<not> present s c"
  shows "let s' = final (for_each (discover_core D) xs) s
    in core_count s' = core_count s + int (length (filter (present s') xs)) \<and>
       (\<forall>c. c \<notin> set xs \<longrightarrow> present s' c = present s c)"
  using assms
proof (induction xs arbitrary: s)
  case (Cons x xs)
  let ?s1 = "final (discover_core D x) s"
  let ?s' = "final (for_each (discover_core D) xs) ?s1"
  have s': "final (for_each (discover_core D) (x # xs)) s = ?s'"
    by (simp add: final_def split: prod.split)
  have e: "(present ?s1 = present s \<and> core_count ?s1 = core_count s) \<or>
      (present ?s1 = (present s)(x := True) \<and> core_count ?s1 = core_count s + 1)"
    using discover_core_effect [of D x s] by (simp add: Let_def)
  have "\<forall>c\<in>set xs. \<not> present ?s1 c" using e Cons.prems by (auto split: if_split_asm)
  with Cons.IH [of ?s1] Cons.prems(1) have ih:
    "core_count ?s' = core_count ?s1 + int (length (filter (present ?s') xs))"
    "\<forall>c. c \<notin> set xs \<longrightarrow> present ?s' c = present ?s1 c"
    by (auto simp: Let_def)
  have "present ?s' x = present ?s1 x" using ih(2) Cons.prems(1) by simp
  then show ?case
    unfolding s' Let_def using ih e Cons.prems by auto
qed (simp add: final_def)

lemma core_index_from_nth:
  "n < length (filter here cores) \<Longrightarrow> core_index_from cores here (int n) = filter here cores ! n"
proof (induction cores arbitrary: n)
  case (Cons c cs)
  then show ?case
  proof (cases "here c")
    case True
    with Cons show ?thesis by (cases n) auto
  qed simp
qed simp

section \<open>Properties\<close>

text \<open>C13: run control returns within the time-out it was called with: on a clock that runs, a halt, a resume and
  the wait for either take at most as many polling rounds as the time-out has microseconds, for every time-out,
  whatever the target answers (with that many rounds to use, none of them gives up).\<close>

theorem run_control_returns:
  assumes "clock_ok D" "uint t * 1000 < int (d_polls D)"
  shows "hung (final (tricore_halt D core line t) s) = hung s \<and>
    hung (final (tricore_resume D core t) s) = hung s \<and>
    hung (final (tricore_wait_halted D core want t) s) = hung s"
proof -
  have "polls_for D (uint t)" using assms by (simp add: polls_for_def)
  then show ?thesis
    using prompt_halt(1) [THEN rel_final] prompt_halt(2) [THEN rel_final] prompt_wait_halted [THEN rel_final]
    unfolding prompt_def by blast
qed

text \<open>After discovery the count is the number of cores that answered, it succeeds exactly when
  one did, and \<open>tricore_core_index\<close> numbers them: the n-th index is the n-th present core, in
  ascending order.\<close>

theorem discover_numbers_cores:
  fixes s :: "'e tricore_scheme"
  shows "let s' = final (tricore_discover D) s; here = filter (present s') all_cores
    in core_count s' = int (length here) \<and>
       (result (tricore_discover D) s = ESP_OK) = (here \<noteq> []) \<and>
       map (\<lambda>n. tricore_core_index (int n) s') [0..<nat (core_count s')] = here"
proof -
  let ?s0 = "s\<lparr>present := \<lambda>_. False, slots := \<lambda>_ _. free_bp, core_count := 0\<rparr>"
  let ?m = "tricore_discover D" and ?s' = "final (tricore_discover D) s"
  obtain err v s1 where s1: "run (dap_probe_read32 D CBS_OSTATE 0) ?s0 = ((err, v), s1)"
    by (metis prod_cases3 surj_pair)
  have p1: "present s1 = (\<lambda>_. False)" "core_count s1 = 0"
    using unchanged_present [OF relD [OF read32_rules(2) s1]] by simp_all
  have "core_count ?s' = int (length (filter (present ?s') all_cores)) \<and>
      (result ?m s = ESP_OK) = (filter (present ?s') all_cores \<noteq> [])"
  proof (cases "err \<noteq> ESP_OK \<or> v AND 1 = 0")
    case True
    then have "?s' = s1" "result ?m s \<noteq> ESP_OK"
      using s1 by (auto simp: tricore_discover_def final_def result_def tricore_forget_triggers_def)
    then show ?thesis using p1 by simp
  next
    case False
    let ?s2 = "final (for_each (discover_core D) all_cores) s1"
    have e: "?s' = ?s2" "result ?m s = (if core_count ?s2 \<noteq> 0 then ESP_OK else ESP_ERR_NOT_FOUND)"
      using s1 False
      by (auto simp: tricore_discover_def final_def result_def tricore_forget_triggers_def simp del: for_each.simps
          split: prod.splits)
    have "core_count ?s2 = int (length (filter (present ?s2) all_cores))"
      using discover_loop [of all_cores s1 D] p1 by (simp add: all_cores_def Let_def del: for_each.simps)
    then show ?thesis unfolding e by simp
  qed
  then show ?thesis
    unfolding Let_def
    by (auto simp: tricore_core_index_def core_index_from_nth intro!: nth_equalityI)
qed


definition tc0 :: tricore where
  "tc0 = \<lparr>hist = [], hung = False, trailer_bits = 0, raw_window = 0, max_wait = 248, fpi_prio = False,
     present = \<lambda>_. True, core_count = 4, halt_line = \<lambda>_. 0, halt_tlc = \<lambda>_. 0, slots = \<lambda>_ _. free_bp\<rparr>"

lemma run_control_returns_witness:
  "hung (final (tricore_halt (good_dev 1\<lparr>d_polls := 500001\<rparr>) 0 1 500) tc0) = False"
proof -
  have "clock_ok (good_dev 1\<lparr>d_polls := 500001\<rparr>)" by (simp add: clock_ok_def good_dev_def)
  from run_control_returns [OF this, of 500 0 1 tc0] show ?thesis by (simp add: tc0_def)
qed

lemma grows_rd [grows_frame]:
  "rel (grows A) (tricore_rd D core off v)"
  "(tricore_core_reg core off, v) \<in> A \<Longrightarrow> rel (grows A) (tricore_wr D core off v)"
  unfolding tricore_rd_def tricore_wr_def by (intro grows_frame; assumption?)+

lemma grows_attempts: "rel (grows A) (dbgsr_attempts D n core v)"
  by (induction n arbitrary: v) (auto intro!: grows_frame)

lemma grows_halted [grows_frame]:
  "rel (grows A) (tricore_dbgsr D core v)" "rel (grows A) (tricore_is_halted D core)"
  "rel (grows A) (tricore_core_started D core)" "rel (grows A) (tricore_wait_halted D core want t)"
  unfolding tricore_wait_halted_def tricore_is_halted_def tricore_dbgsr_def tricore_core_started_def
  by (intro grows_frame grows_attempts)+

lemma disarm_others:
  "rel unchanged (for_each (disarm_other D core) cores :: ('e tricore_scheme, unit) state)"
  "rel (grows {(tricore_core_reg c OFF_EXEVT, 0) |c. c \<noteq> core}) (for_each (disarm_other D core) cores)"
  unfolding disarm_other_def
  subgoal by (intro unchanged_frame)
  subgoal by (intro grows_frame; blast)
  done

text \<open>C14: a halt request that succeeds has put these words on the bus, in this order: EXEVT of other
  cores cleared, EXEVT of the core set to halt and suspend, its break-in routed to the line, the
  line released, and the line forced active, so that there is an edge whatever an earlier halt left;
  it remembers the line and the released TLC value to restore.\<close>

theorem halt_request_edge:
  fixes s :: "'e tricore_scheme"
  assumes "result (tricore_halt_request D core line) s = ESP_OK"
  defines "s' \<equiv> final (tricore_halt_request D core line) s"
  shows "\<exists>tlc routing before.
    blog s' = (CBS_TLC, tlc OR push_bit (nat (4 * line)) TLSP_FORCE_ACTIVE) # (CBS_TLC, tlc) #
      (CBS_TRC core, route_line routing line) #
      (tricore_core_reg core OFF_EXEVT, EXEVT_HALT_AND_SUSPEND) # before @ blog s \<and>
    tlc AND push_bit (nat (4 * line)) 0xF = 0 \<and>
    set before \<subseteq> {(tricore_core_reg c OFF_EXEVT, 0) |c. c \<noteq> core} \<and>
    1 \<le> line \<and> line \<le> 7 \<and> halt_line s' core = line \<and> halt_tlc s' core = tlc"
proof -
  let ?R = "\<lambda>a. dap_probe_read32 D a 0"
  obtain s1 where s1: "run (for_each (disarm_other D core) all_cores) s = ((), s1)"
    by (cases "run (for_each (disarm_other D core) all_cores) s") auto
  obtain e2 s2 where s2: "run (tricore_wr D core OFF_EXEVT EXEVT_HALT_AND_SUSPEND) s1 = (e2, s2)"
    by (metis surj_pair)
  obtain e3 routing s3 where s3: "run (?R (CBS_TRC core)) s2 = ((e3, routing), s3)"
    by (metis prod_cases3 surj_pair)
  obtain e4 s4 where s4: "run (dap_probe_write32 D (CBS_TRC core) (route_line routing line)) s3 = (e4, s4)"
    by (metis surj_pair)
  obtain e5 control s5 where s5: "run (?R CBS_TLC) s4 = ((e5, control), s5)"
    by (metis prod_cases3 surj_pair)
  define tlc where "tlc = control AND NOT (push_bit (nat (4 * line)) 0xF)"
  let ?s6 = "s5\<lparr>halt_line := (halt_line s5)(core := line), halt_tlc := (halt_tlc s5)(core := tlc)\<rparr>"
  obtain e7 s7 where s7: "run (dap_probe_write32 D CBS_TLC tlc) ?s6 = (e7, s7)"
    by (metis surj_pair)
  obtain e8 s8 where s8: "run (dap_probe_write32 D CBS_TLC (tlc OR push_bit (nat (4 * line)) TLSP_FORCE_ACTIVE)) s7 = (e8, s8)"
    by (metis surj_pair)
  have ok: "e2 = ESP_OK" "e4 = ESP_OK" "e7 = ESP_OK" "e8 = ESP_OK" "s' = s8" "1 \<le> line" "line \<le> 7"
    using assms s1 s2 s3 s4 s5 s7 s8
    by (auto simp: tricore_halt_request_def result_def final_def Let_def tlc_def
        simp del: for_each.simps split: if_split_asm)
  obtain before where before: "blog s1 = before @ blog s"
      "set before \<subseteq> {(tricore_core_reg c OFF_EXEVT, 0) |c. c \<noteq> core}"
    using relD [OF disarm_others(2) s1] unfolding grows_def by blast
  have "blog s2 = (tricore_core_reg core OFF_EXEVT, EXEVT_HALT_AND_SUSPEND) # blog s1"
    using write32_effect [OF s2 [unfolded tricore_wr_def]] ok by simp
  moreover have "blog s3 = blog s2" "blog s5 = blog s4" using read32_effect [OF s3] read32_effect [OF s5] by auto
  moreover have "blog s4 = (CBS_TRC core, route_line routing line) # blog s3"
    using write32_effect [OF s4] ok by simp
  moreover have "blog s7 = (CBS_TLC, tlc) # blog s5" using write32_effect [OF s7] ok by simp
  moreover have "blog s8 = (CBS_TLC, tlc OR push_bit (nat (4 * line)) TLSP_FORCE_ACTIVE) # blog s7"
    using write32_effect [OF s8] ok by simp
  moreover have "halt_line s8 core = line" "halt_tlc s8 core = tlc"
    using unchanged_present [of ?s6 s7] unchanged_present [of s7 s8] write32_effect [OF s7] write32_effect [OF s8]
    by auto
  moreover have "tlc AND push_bit (nat (4 * line)) 0xF = 0"
    by (rule bit_word_eqI) (auto simp: tlc_def bit_simps)
  ultimately show ?thesis using before ok by auto
qed

lemma halt_request_edge_witness:
  "\<exists>tlc. tlc AND push_bit 4 0xF = 0 \<and>
     take 2 (blog (final (tricore_halt_request (good_dev 1) 0 1) tc0)) =
       [(CBS_TLC, tlc OR push_bit 4 TLSP_FORCE_ACTIVE), (CBS_TLC, tlc)]"
proof -
  have "result (tricore_halt_request (good_dev 1) 0 1) tc0 = ESP_OK"
  proof -
    obtain s1 where s1: "run (for_each (disarm_other (good_dev 1) 0) all_cores) tc0 = ((), s1)"
      by (cases "run (for_each (disarm_other (good_dev 1) 0) all_cores) tc0") auto
    then show ?thesis
      by (simp add: result_def tricore_halt_request_def tricore_core_ok_def tc0_def TRICORE_MAX_CORES_def
          tricore_wr_def good_runs Let_def del: for_each.simps)
  qed
  from halt_request_edge [OF this] show ?thesis by (auto simp del: for_each.simps)
qed

end
