(* ===== verification/Tricore_Regs.thy ===== *)
theory Tricore_Regs
  imports Tricore
begin

text \<open>
  \<open>tricore_regs.c\<close>: the registers of a halted core, the address triggers and the breakpoint allocator
  over them, the decoder of branch targets and the single step built on it, and byte-granular target
  memory. The register numbers are GDB's. Logging is left out.
\<close>

section \<open>Registers\<close>

definition TRICORE_NUM_REGS :: int where "TRICORE_NUM_REGS = 44"
definition TRICORE_REG_A0 :: int where "TRICORE_REG_A0 = 16"
definition TRICORE_REG_PC :: int where "TRICORE_REG_PC = 36"
definition TREVT_HALT_ON_ADDR :: u32 where "TREVT_HALT_ON_ADDR = 0x0000102A"
definition TREVT_RNG :: u32 where "TREVT_RNG = 0x2000"
definition TREVT_AST :: u32 where "TREVT_AST = 0x8000000"
definition TREVT_ALD :: u32 where "TREVT_ALD = 0x10000000"
definition OFF_TRIG_ACC :: u32 where "OFF_TRIG_ACC = 0xFD30"
definition OFF_TR_EVT :: "int \<Rightarrow> u32" where "OFF_TR_EVT n = 0xF000 + 8 * of_int n"
definition OFF_TR_ADR :: "int \<Rightarrow> u32" where "OFF_TR_ADR n = 0xF004 + 8 * of_int n"
definition RESET_VECTOR_CACHED :: u32 where "RESET_VECTOR_CACHED = 0x80020000"
definition RESET_VECTOR_NONCACHED :: u32 where "RESET_VECTOR_NONCACHED = 0xA0020000"

definition all_slots :: "int list" where "all_slots = [0, 1, 2, 3, 4, 5, 6, 7]"

definition require_halted :: "dev \<Rightarrow> int \<Rightarrow> ('e tricore_scheme, esp_err) state" where
  "require_halted D core = do {
     ok \<leftarrow> gets (tricore_core_ok core);
     if \<not> ok then ret ESP_ERR_INVALID_ARG
     else do {
       halted \<leftarrow> tricore_is_halted D core;
       ret (if halted then ESP_OK else ESP_ERR_INVALID_STATE) } }"

definition reg_offset :: "int \<Rightarrow> u32" where
  "reg_offset regno =
     (if regno \<ge> 0 \<and> regno < 16 then 0xFF00 + 4 * of_int regno
      else if regno \<ge> 16 \<and> regno < 32 then 0xFF80 + 4 * of_int (regno - 16)
      else if regno = 32 then 0xFE3C
      else if regno = 33 then 0xFE38
      else if regno = 34 then 0xFE00
      else if regno = 35 then 0xFE04
      else if regno = 36 then 0xFE08
      else if regno = 37 then 0xFE2C
      else if regno = 38 then 0xFE28
      else if regno = 39 then 0xFE24
      else if regno = 40 then 0xFE20
      else if regno = 41 then 0xFE14
      else if regno = 42 then 0x920C
      else if regno = 43 then 0x9040
      else 0)"

definition tricore_read_reg :: "dev \<Rightarrow> int \<Rightarrow> int \<Rightarrow> u32 \<Rightarrow> ('e tricore_scheme, esp_err \<times> u32) state" where
  "tricore_read_reg D core regno v = do {
     err \<leftarrow> require_halted D core;
     if err \<noteq> ESP_OK then ret (err, v)
     else if regno < 0 \<or> regno \<ge> TRICORE_NUM_REGS then ret (ESP_ERR_INVALID_ARG, v)
     else tricore_rd D core (reg_offset regno) v }"

definition tricore_write_reg :: "dev \<Rightarrow> int \<Rightarrow> int \<Rightarrow> u32 \<Rightarrow> ('e tricore_scheme, esp_err) state" where
  "tricore_write_reg D core regno v = do {
     err \<leftarrow> require_halted D core;
     if err \<noteq> ESP_OK then ret err
     else if regno < 0 \<or> regno \<ge> TRICORE_NUM_REGS then ret ESP_ERR_INVALID_ARG
     else tricore_wr D core (reg_offset regno) v }"

definition read_one_reg :: "dev \<Rightarrow> int \<Rightarrow> int \<Rightarrow> u32 list \<Rightarrow> ('e tricore_scheme, u32 list) state" where
  "read_one_reg D core i regs = do {
     (err, v) \<leftarrow> tricore_rd D core (reg_offset i) 0;
     if err \<noteq> ESP_OK then do { dap_probe_clear_error_state D; ret (regs @ [0xFFFFFFFF]) }
     else ret (regs @ [v]) }"

definition tricore_read_all_regs :: "dev \<Rightarrow> int \<Rightarrow> ('e tricore_scheme, esp_err \<times> u32 list) state" where
  "tricore_read_all_regs D core = do {
     err \<leftarrow> require_halted D core;
     if err \<noteq> ESP_OK then ret (err, [])
     else do {
       regs \<leftarrow> for_acc (read_one_reg D core) (map int [0..<nat TRICORE_NUM_REGS]) [];
       ret (ESP_OK, regs) } }"

definition tricore_read_pc :: "dev \<Rightarrow> int \<Rightarrow> u32 \<Rightarrow> ('e tricore_scheme, esp_err \<times> u32) state" where
  "tricore_read_pc D core pc = tricore_read_reg D core TRICORE_REG_PC pc"

definition tricore_write_pc :: "dev \<Rightarrow> int \<Rightarrow> u32 \<Rightarrow> ('e tricore_scheme, esp_err) state" where
  "tricore_write_pc D core pc = tricore_write_reg D core TRICORE_REG_PC pc"

definition tricore_read_a :: "dev \<Rightarrow> int \<Rightarrow> int \<Rightarrow> u32 \<Rightarrow> ('e tricore_scheme, esp_err \<times> u32) state" where
  "tricore_read_a D core n v =
     (if n < 0 \<or> n > 15 then ret (ESP_ERR_INVALID_ARG, v)
      else tricore_read_reg D core (TRICORE_REG_A0 + n) v)"

section \<open>Triggers\<close>

definition bad_slot :: "int \<Rightarrow> bool" where
  "bad_slot slot \<longleftrightarrow> slot < 0 \<or> slot \<ge> TRICORE_NUM_TRIGGERS"

definition tricore_set_code_trigger :: "dev \<Rightarrow> int \<Rightarrow> int \<Rightarrow> u32 \<Rightarrow> ('e tricore_scheme, esp_err) state" where
  "tricore_set_code_trigger D core slot addr = do {
     ok \<leftarrow> gets (tricore_core_ok core);
     if \<not> ok then ret ESP_ERR_INVALID_ARG
     else if bad_slot slot then ret ESP_ERR_INVALID_ARG
     else do {
       err \<leftarrow> tricore_wr D core (OFF_TR_ADR slot) addr;
       if err \<noteq> ESP_OK then ret err
       else tricore_wr D core (OFF_TR_EVT slot) TREVT_HALT_ON_ADDR } }"

definition data_trigger_word :: "bool \<Rightarrow> bool \<Rightarrow> bool \<Rightarrow> u32" where
  "data_trigger_word on_read on_write is_range =
     0x22 OR (if on_read then TREVT_ALD else 0) OR (if on_write then TREVT_AST else 0)
       OR (if is_range then TREVT_RNG else 0)"

definition tricore_set_data_trigger ::
  "dev \<Rightarrow> int \<Rightarrow> int \<Rightarrow> u32 \<Rightarrow> u32 \<Rightarrow> bool \<Rightarrow> bool \<Rightarrow> ('e tricore_scheme, esp_err) state" where
  "tricore_set_data_trigger D core slot addr sz on_read on_write = do {
     ok \<leftarrow> gets (tricore_core_ok core);
     if \<not> ok then ret ESP_ERR_INVALID_ARG
     else if bad_slot slot then ret ESP_ERR_INVALID_ARG
     else if sz < 1 \<or> (\<not> on_read \<and> \<not> on_write) then ret ESP_ERR_INVALID_ARG
     else if sz = 1 then do {
       err \<leftarrow> tricore_wr D core (OFF_TR_ADR slot) addr;
       if err \<noteq> ESP_OK then ret err
       else tricore_wr D core (OFF_TR_EVT slot) (data_trigger_word on_read on_write False) }
     else if slot mod 2 \<noteq> 0 \<or> slot + 1 \<ge> TRICORE_NUM_TRIGGERS then ret ESP_ERR_INVALID_ARG
     else do {
       tricore_wr D core (OFF_TR_ADR slot) addr;
       tricore_wr D core (OFF_TR_ADR (slot + 1)) (addr + sz);
       tricore_wr D core (OFF_TR_EVT (slot + 1)) 0;
       tricore_wr D core (OFF_TR_EVT slot) (data_trigger_word on_read on_write True) } }"

definition tricore_clear_trigger :: "dev \<Rightarrow> int \<Rightarrow> int \<Rightarrow> ('e tricore_scheme, esp_err) state" where
  "tricore_clear_trigger D core slot = do {
     ok \<leftarrow> gets (tricore_core_ok core);
     if \<not> ok then ret ESP_ERR_INVALID_ARG
     else if bad_slot slot then ret ESP_ERR_INVALID_ARG
     else do {
       tricore_wr D core (OFF_TR_EVT slot) 0;
       tricore_wr D core (OFF_TR_ADR slot) 0 } }"

definition tricore_trigger_acc :: "dev \<Rightarrow> int \<Rightarrow> u32 \<Rightarrow> ('e tricore_scheme, esp_err \<times> u32) state" where
  "tricore_trigger_acc D core bits = do {
     ok \<leftarrow> gets (tricore_core_ok core);
     if \<not> ok then ret (ESP_ERR_INVALID_ARG, bits)
     else do {
       (err, bits) \<leftarrow> tricore_rd D core OFF_TRIG_ACC bits;
       ret (err, bits AND 0xFF) } }"

definition disarm_reset_core :: "dev \<Rightarrow> int \<Rightarrow> ('e tricore_scheme, unit) state" where
  "disarm_reset_core D core = do {
     here \<leftarrow> gets (\<lambda>s. present s core);
     if_do here (do {
       (err, evt) \<leftarrow> tricore_rd D core (OFF_TR_EVT 0) 0;
       if err \<noteq> ESP_OK then do { dap_probe_clear_error_state D; skip }
       else do {
         (err, adr) \<leftarrow> tricore_rd D core (OFF_TR_ADR 0) 0;
         if err \<noteq> ESP_OK then do { dap_probe_clear_error_state D; skip }
         else if_do (evt \<noteq> 0 \<and> (adr = RESET_VECTOR_CACHED \<or> adr = RESET_VECTOR_NONCACHED))
           (do { tricore_clear_trigger D core 0; skip }) } }) }"

definition tricore_disarm_reset_trigger :: "dev \<Rightarrow> ('e tricore_scheme, unit) state" where
  "tricore_disarm_reset_trigger D = for_each (disarm_reset_core D) all_cores"

section \<open>Breakpoint allocation\<close>

text \<open>The searches over one core's table: the first index that satisfies the test, or -1.\<close>

fun find_slot :: "(int \<Rightarrow> bool) \<Rightarrow> int list \<Rightarrow> int" where
  "find_slot P [] = - 1"
| "find_slot P (n # ns) = (if P n then n else find_slot P ns)"

definition free_slot :: "(int \<Rightarrow> tricore_bp) \<Rightarrow> int" where
  "free_slot t = find_slot (\<lambda>n. bp_kind (t n) = TRICORE_BP_FREE) all_slots"

definition free_pair :: "(int \<Rightarrow> tricore_bp) \<Rightarrow> int" where
  "free_pair t = find_slot
     (\<lambda>n. bp_kind (t n) = TRICORE_BP_FREE \<and> bp_kind (t (n + 1)) = TRICORE_BP_FREE) [0, 2, 4, 6]"

definition slot_of_addr :: "(int \<Rightarrow> tricore_bp) \<Rightarrow> u32 \<Rightarrow> int" where
  "slot_of_addr t addr = find_slot (\<lambda>n. bp_kind (t n) \<noteq> TRICORE_BP_FREE \<and> bp_addr (t n) = addr) all_slots"

definition set_slot :: "int \<Rightarrow> int \<Rightarrow> tricore_bp \<Rightarrow> ('e tricore_scheme, unit) state" where
  "set_slot core n bp = modify (\<lambda>s. s\<lparr>slots := (slots s)(core := (slots s core)(n := bp))\<rparr>)"

definition tricore_bp_add ::
  "dev \<Rightarrow> int \<Rightarrow> u32 \<Rightarrow> tricore_bp_kind \<Rightarrow> ('e tricore_scheme, int) state" where
  "tricore_bp_add D core addr kind = do {
     ok \<leftarrow> gets (tricore_core_ok core);
     if \<not> ok then ret (- 1)
     else do {
       t \<leftarrow> gets (\<lambda>s. slots s core);
       let existing = slot_of_addr t addr;
       if existing \<ge> 0 then ret existing
       else do {
         let slot = free_slot t;
         if slot < 0 then ret (- 1)
         else do {
           err \<leftarrow> tricore_set_code_trigger D core slot addr;
           if err \<noteq> ESP_OK then do { dap_probe_clear_error_state D; ret (- 1) }
           else do {
             set_slot core slot (free_bp\<lparr>bp_addr := addr, bp_kind := kind\<rparr>);
             ret slot } } } } }"

definition tricore_bp_add_watch ::
  "dev \<Rightarrow> int \<Rightarrow> u32 \<Rightarrow> u32 \<Rightarrow> bool \<Rightarrow> bool \<Rightarrow> ('e tricore_scheme, int) state" where
  "tricore_bp_add_watch D core addr sz on_read on_write = do {
     ok \<leftarrow> gets (tricore_core_ok core);
     if \<not> ok then ret (- 1)
     else do {
       t \<leftarrow> gets (\<lambda>s. slots s core);
       let existing = slot_of_addr t addr;
       if existing \<ge> 0 then ret existing
       else do {
         let needs_pair = sz > 1;
         let slot = (if needs_pair then free_pair t else free_slot t);
         if slot < 0 then ret (- 1)
         else do {
           err \<leftarrow> tricore_set_data_trigger D core slot addr sz on_read on_write;
           if err \<noteq> ESP_OK then do { dap_probe_clear_error_state D; ret (- 1) }
           else do {
             set_slot core slot \<lparr>bp_addr = addr, bp_size = sz, bp_kind = TRICORE_BP_WATCH,
               bp_on_read = on_read, bp_on_write = on_write\<rparr>;
             if_do needs_pair (set_slot core (slot + 1)
               (free_bp\<lparr>bp_addr := addr + sz, bp_kind := TRICORE_BP_WATCH_HI\<rparr>));
             ret slot } } } } }"

definition tricore_bp_remove :: "dev \<Rightarrow> int \<Rightarrow> u32 \<Rightarrow> ('e tricore_scheme, bool) state" where
  "tricore_bp_remove D core addr = do {
     ok \<leftarrow> gets (tricore_core_ok core);
     if \<not> ok then ret False
     else do {
       t \<leftarrow> gets (\<lambda>s. slots s core);
       let slot = slot_of_addr t addr;
       if slot < 0 then ret False
       else do {
         let had_pair = (bp_kind (t slot) = TRICORE_BP_WATCH \<and> bp_size (t slot) > 1);
         tricore_clear_trigger D core slot;
         set_slot core slot free_bp;
         if_do (had_pair \<and> slot + 1 < TRICORE_NUM_TRIGGERS) (do {
           tricore_clear_trigger D core (slot + 1);
           set_slot core (slot + 1) free_bp });
         ret True } } }"

definition clear_kind_slot :: "dev \<Rightarrow> int \<Rightarrow> tricore_bp_kind \<Rightarrow> int \<Rightarrow> ('e tricore_scheme, unit) state" where
  "clear_kind_slot D core kind n = do {
     k \<leftarrow> gets (\<lambda>s. bp_kind (slots s core n));
     if_do (k = kind) (do {
       tricore_clear_trigger D core n;
       set_slot core n free_bp }) }"

definition tricore_bp_clear_kind :: "dev \<Rightarrow> int \<Rightarrow> tricore_bp_kind \<Rightarrow> ('e tricore_scheme, unit) state" where
  "tricore_bp_clear_kind D core kind = do {
     ok \<leftarrow> gets (tricore_core_ok core);
     if_do ok (for_each (clear_kind_slot D core kind) all_slots) }"

definition tricore_bp_of_slot :: "int \<Rightarrow> int \<Rightarrow> 'e tricore_scheme \<Rightarrow> tricore_bp option" where
  "tricore_bp_of_slot core slot s =
     (if \<not> tricore_core_ok core s \<or> bad_slot slot then None
      else if bp_kind (slots s core slot) = TRICORE_BP_FREE then None else Some (slots s core slot))"

definition tricore_bp_at :: "int \<Rightarrow> u32 \<Rightarrow> 'e tricore_scheme \<Rightarrow> tricore_bp option" where
  "tricore_bp_at core addr s =
     (if \<not> tricore_core_ok core s then None
      else let slot = slot_of_addr (slots s core) addr
           in if slot < 0 then None else Some (slots s core slot))"

section \<open>Memory\<close>

text \<open>One round moves at most the rest of one 32-bit word; \<open>byte_of_word32 word k\<close> is
  \<open>(uint8_t)(word >> 8 * k)\<close>. On a failure the bytes before it have been stored.\<close>

definition align4 :: "u32 \<Rightarrow> u32" where
  "align4 addr = addr AND NOT 3"

function read_mem_loop ::
  "dev \<Rightarrow> u32 \<Rightarrow> nat \<Rightarrow> u8 list \<Rightarrow> ('e tricore_scheme, esp_err \<times> u8 list) state" where
  "read_mem_loop D addr len buf =
     (if len = 0 then ret (ESP_OK, buf)
      else do {
        let word_addr = align4 addr;
        let skip_n = unat (addr - word_addr);
        let take_n = (if 4 - skip_n < len then 4 - skip_n else len);
        (err, word) \<leftarrow> dap_probe_read32 D word_addr 0;
        if err \<noteq> ESP_OK then do { dap_probe_clear_error_state D; ret (ESP_FAIL, buf) }
        else read_mem_loop D (addr + of_nat take_n) (len - take_n)
               (buf @ map (\<lambda>i. byte_of_word32 word (skip_n + i)) [0..<take_n]) })"
  by pat_completeness auto

definition tricore_read_mem :: "dev \<Rightarrow> u32 \<Rightarrow> nat \<Rightarrow> ('e tricore_scheme, esp_err \<times> u8 list) state" where
  "tricore_read_mem D addr len = read_mem_loop D addr len []"

definition put_byte :: "u32 \<Rightarrow> nat \<Rightarrow> u8 \<Rightarrow> u32" where
  "put_byte word shift b = (word AND NOT (push_bit shift 0xFF)) OR push_bit shift (ucast b)"

definition put_bytes :: "u32 \<Rightarrow> nat \<Rightarrow> u8 list \<Rightarrow> u32" where
  "put_bytes word skip_n bs = foldl (\<lambda>w i. put_byte w (8 * (skip_n + i)) (bs ! i)) word [0..<length bs]"

function tricore_write_mem :: "dev \<Rightarrow> u32 \<Rightarrow> u8 list \<Rightarrow> ('e tricore_scheme, esp_err) state" where
  "tricore_write_mem D addr buf =
     (if buf = [] then ret ESP_OK
      else do {
        let word_addr = align4 addr;
        let skip_n = unat (addr - word_addr);
        let take_n = (if 4 - skip_n < length buf then 4 - skip_n else length buf);
        (err, word) \<leftarrow> (if take_n \<noteq> 4 then dap_probe_read32 D word_addr 0 else ret (ESP_OK, 0));
        if err \<noteq> ESP_OK then do { dap_probe_clear_error_state D; ret ESP_FAIL }
        else do {
          err \<leftarrow> dap_probe_write32 D word_addr (put_bytes word skip_n (take take_n buf));
          if err \<noteq> ESP_OK then do { dap_probe_clear_error_state D; ret ESP_FAIL }
          else tricore_write_mem D (addr + of_nat take_n) (drop take_n buf) } })"
  by pat_completeness auto

lemma align4_offset: "a - align4 a = take_bit 2 a"
proof -
  have "a AND NOT (mask 2) = push_bit 2 (drop_bit 2 a)"
    by (rule bit_word_eqI) (auto simp: bit_simps bit_mask_iff not_less simp flip: numeral_2_eq_2 add_2_eq_Suc)
  moreover have "(mask 2 :: u32) = 3" by (simp add: mask_eq_exp_minus_1)
  ultimately have "align4 a = push_bit 2 (drop_bit 2 a)" by (simp add: align4_def)
  moreover have "push_bit 2 (drop_bit 2 a) + take_bit 2 a = a" by (rule bits_ident)
  ultimately show ?thesis by (metis add_diff_cancel_left')
qed

lemma skip_lt4: "unat (a - align4 a) < 4"
  using take_bit_nat_less_exp [of 2 "unat a"]
  by (simp add: align4_offset unsigned_take_bit_eq)

termination read_mem_loop
proof (relation "measure (\<lambda>(D, a, len, b). len)", goal_cases)
  case (2 D addr len buf)
  then show ?case using skip_lt4 [of addr] by auto
qed simp

termination tricore_write_mem
proof (relation "measure (\<lambda>(D, a, b). length b)", goal_cases)
  case (2 D addr buf)
  then show ?case using skip_lt4 [of addr] by auto
qed simp

declare read_mem_loop.simps [simp del] tricore_write_mem.simps [simp del]

section \<open>Branch targets and the single step\<close>

definition is_b_format :: "u8 \<Rightarrow> bool" where
  "is_b_format op \<longleftrightarrow> op \<in> {0x1D, 0x5D, 0x6D, 0x61}"

definition is_disp15 :: "u8 \<Rightarrow> bool" where
  "is_disp15 op \<longleftrightarrow> op \<in> {0x1F, 0x3F, 0x5F, 0x7F, 0x9F, 0xBF, 0xDF, 0xEF, 0xFF, 0x6F}"

definition is_sb :: "u8 \<Rightarrow> bool" where
  "is_sb op \<longleftrightarrow> op \<in> {0x3C, 0xEE, 0xF6, 0x6E, 0x76, 0x5C}"

definition is_sbr :: "u8 \<Rightarrow> bool" where
  "is_sbr op \<longleftrightarrow> op \<in> {0x3E, 0xBE, 0x7E, 0xFE, 0xF2, 0x7C}"

text \<open>The \<open>int32_t\<close> result is kept as its 32-bit pattern, which is how the callers use it.\<close>

definition sign_extend :: "u32 \<Rightarrow> nat \<Rightarrow> u32" where
  "sign_extend v bits = (let sign = push_bit (bits - 1) 1 in (v XOR sign) - sign)"

text \<open>An indirect target, from an address register of the halted core.\<close>

definition target_from_a :: "dev \<Rightarrow> int \<Rightarrow> u32 \<Rightarrow> ('e tricore_scheme, u32 option) state" where
  "target_from_a D core n = do {
     (err, a) \<leftarrow> tricore_read_a D core (int (unat n)) 0;
     ret (if err = ESP_OK then Some a else None) }"

text \<open>The fall-through address, and the branch target when there is one that can be decoded.\<close>

definition decode_successors ::
  "dev \<Rightarrow> int \<Rightarrow> u32 \<Rightarrow> u8 list \<Rightarrow> ('e tricore_scheme, u32 \<times> u32 option) state" where
  "decode_successors D core pc raw =
     (let op = raw ! 0; width = (if op AND 1 \<noteq> 0 then 4 else 2); fall_through = pc + width
      in if width = 4 then
           (let insn = word32_of_bytes (raw ! 0) (raw ! 1) (raw ! 2) (raw ! 3)
            in if is_b_format op then
                 (let disp24 = push_bit 16 (drop_bit 8 insn AND 0xFF) OR (drop_bit 16 insn AND 0xFFFF)
                  in ret (fall_through, Some (pc + sign_extend disp24 24 * 2)))
               else if is_disp15 op then
                 (let disp15 = drop_bit 16 insn AND 0x7FFF
                  in ret (fall_through, Some (pc + sign_extend disp15 15 * 2)))
               else if op = 0x2D then do {
                 target \<leftarrow> target_from_a D core (drop_bit 8 insn AND 0xF);
                 ret (fall_through, target) }
               else ret (fall_through, None))
         else
           (let insn16 = word32_of_bytes (raw ! 0) (raw ! 1) 0 0
            in if is_sb op then
                 (let disp8 = drop_bit 8 insn16 AND 0xFF
                  in ret (fall_through, Some (pc + sign_extend disp8 8 * 2)))
               else if is_sbr op then
                 (let disp4 = drop_bit 12 insn16 AND 0xF
                  in ret (fall_through, Some (pc + disp4 * 2)))
               else if op = 0xDC then do {
                 target \<leftarrow> target_from_a D core (drop_bit 12 insn16 AND 0xF);
                 ret (fall_through, target) }
               else if op = 0 \<and> drop_bit 8 insn16 AND 0xFF = 0x90 then do {
                 target \<leftarrow> target_from_a D core 11;
                 ret (fall_through, target) }
               else ret (fall_through, None)))"

record tricore_step_t =
  st_pc :: u32
  st_clean :: bool
  st_hit_user_bp :: bool
  st_note :: string

definition no_step :: tricore_step_t where
  "no_step = \<lparr>st_pc = 0, st_clean = False, st_hit_user_bp = False, st_note = []\<rparr>"

text \<open>A trigger at the PC would fire again at once: it is lifted for the step. The address and kind
  of what was lifted.\<close>

definition lift_trigger :: "dev \<Rightarrow> int \<Rightarrow> u32 \<Rightarrow> ('e tricore_scheme, (u32 \<times> tricore_bp_kind) option) state" where
  "lift_trigger D core pc = do {
     here \<leftarrow> gets (tricore_bp_at core pc);
     case here of None \<Rightarrow> ret None
     | Some bp \<Rightarrow>
         if bp_kind bp \<noteq> TRICORE_BP_STEP then do {
           tricore_bp_remove D core pc;
           ret (Some (bp_addr bp, bp_kind bp)) }
         else ret None }"

text \<open>The step triggers: on the fall-through and on the branch target. What was lifted, and the record
  so far.\<close>

definition arm_step ::
  "dev \<Rightarrow> int \<Rightarrow> u32 \<Rightarrow> u32 \<Rightarrow> u32 option \<Rightarrow>
   ('e tricore_scheme, (u32 \<times> tricore_bp_kind) option \<times> tricore_step_t) state" where
  "arm_step D core pc fall_through target = do {
     tricore_bp_clear_kind D core TRICORE_BP_STEP;
     evicted \<leftarrow> lift_trigger D core pc;
     armed_fall \<leftarrow> tricore_bp_add D core fall_through TRICORE_BP_STEP;
     armed_target \<leftarrow>
       (case target of None \<Rightarrow> ret 0
        | Some a \<Rightarrow> if a \<noteq> fall_through then tricore_bp_add D core a TRICORE_BP_STEP else ret 0);
     ret (evicted, if armed_fall < 0 \<or> armed_target < 0
       then no_step\<lparr>st_note := ''out of triggers; the stop may be imprecise''\<rparr> else no_step) }"

text \<open>What comes after the core stopped: the step triggers go, the lifted one comes back.\<close>

definition finish_step ::
  "dev \<Rightarrow> int \<Rightarrow> u32 \<Rightarrow> (u32 \<times> tricore_bp_kind) option \<Rightarrow> tricore_step_t \<Rightarrow>
   ('e tricore_scheme, esp_err \<times> tricore_step_t) state" where
  "finish_step D core pc evicted out = do {
     tricore_bp_clear_kind D core TRICORE_BP_STEP;
     (case evicted of None \<Rightarrow> skip
      | Some e \<Rightarrow> do { tricore_bp_add D core (fst e) (snd e); skip });
     (err, new_pc) \<leftarrow> tricore_read_pc D core 0;
     let out = out\<lparr>st_pc := (if err \<noteq> ESP_OK then pc else new_pc)\<rparr>;
     landed \<leftarrow> gets (tricore_bp_at core (st_pc out));
     ret (ESP_OK, out\<lparr>st_hit_user_bp :=
       (case landed of None \<Rightarrow> False | Some bp \<Rightarrow> bp_kind bp = TRICORE_BP_USER)\<rparr>) }"

definition tricore_step :: "dev \<Rightarrow> int \<Rightarrow> u32 \<Rightarrow> ('e tricore_scheme, esp_err \<times> tricore_step_t) state" where
  "tricore_step D core timeout_ms = do {
     ok \<leftarrow> gets (tricore_core_ok core);
     if \<not> ok then ret (ESP_ERR_INVALID_ARG, no_step)
     else do {
       (err, pc) \<leftarrow> tricore_read_pc D core 0;
       if err \<noteq> ESP_OK then ret (err, no_step\<lparr>st_note := ''the core is running''\<rparr>)
       else do {
         (err, raw) \<leftarrow> tricore_read_mem D pc 4;
         if err \<noteq> ESP_OK then
           ret (ESP_ERR_INVALID_STATE,
                no_step\<lparr>st_note := ''could not read the instruction'', st_pc := pc\<rparr>)
         else do {
           (fall_through, target) \<leftarrow> decode_successors D core pc raw;
           (evicted, out) \<leftarrow> arm_step D core pc fall_through target;
           tricore_request_resume D core;
           stopped \<leftarrow> tricore_wait_halted D core True timeout_ms;
           if \<not> stopped then do {
             err \<leftarrow> tricore_halt D core 1 200;
             if err \<noteq> ESP_OK then do {
               tricore_bp_clear_kind D core TRICORE_BP_STEP;
               ret (ESP_ERR_TIMEOUT, out\<lparr>st_note := ''the core could not be stopped''\<rparr>) }
             else finish_step D core pc evicted
                    (out\<lparr>st_note := ''no successor was reached; forced a halt''\<rparr>) }
           else finish_step D core pc evicted (out\<lparr>st_clean := True\<rparr>) } } } }"

section \<open>Branch targets\<close>

text \<open>The fold of \<open>value ^ sign\<close> and \<open>- sign\<close> is sign extension from the field's top bit.\<close>

lemma sign_extend_signed:
  assumes "1 \<le> n" "n \<le> 32"
  shows "sign_extend (take_bit n v) n = signed_take_bit (n - 1) v"
proof -
  obtain k where n: "n = Suc k" using assms(1) by (cases n) auto
  have k: "k < 32" using assms(2) n by simp
  let ?x = "take_bit k v"
  have off: "?x = take_bit n v XOR push_bit k 1" if "bit v k"
    using that k unfolding n by (intro bit_word_eqI) (auto simp: bit_simps less_Suc_eq)
  have on: "take_bit n v = ?x" if "\<not> bit v k"
    using that unfolding n by (intro bit_word_eqI) (auto simp: bit_simps less_Suc_eq)
  have x: "?x XOR push_bit k 1 = ?x + push_bit k 1"
  proof -
    have "?x XOR push_bit k 1 = ?x OR push_bit k 1" by (rule bit_word_eqI) (auto simp: bit_simps)
    moreover have "?x + push_bit k 1 = ?x OR push_bit k 1"
      by (rule disjunctive_add) (auto simp: bit_simps)
    ultimately show ?thesis by simp
  qed
  have sgn: "signed_take_bit k v = ?x - push_bit k 1" if "bit v k"
  proof -
    have "signed_take_bit k v = ?x OR NOT (mask k)"
      using that by (simp add: signed_take_bit_def)
    also have "\<dots> = ?x + NOT (mask k)"
      by (rule disjunctive_add [symmetric]) (auto simp: bit_simps bit_mask_iff)
    also have "NOT (mask k) = (- push_bit k 1 :: u32)"
      by (simp add: mask_eq_exp_minus_1 minus_eq_not_plus_1 not_diff_distrib push_bit_eq_mult)
    finally show ?thesis by simp
  qed
  show ?thesis
  proof (cases "bit v k")
    case True
    then show ?thesis using off sgn by (simp add: sign_extend_def n Let_def)
  next
    case False
    have "signed_take_bit k v = ?x" using False by (simp add: signed_take_bit_def)
    then show ?thesis using on [OF False] x by (simp add: sign_extend_def n Let_def)
  qed
qed

text \<open>C15: the branch decoder computes, for every opcode, the fall-through address, and for every relative branch format
  it knows (B, the 15-bit ones, SB and SBR) the PC plus twice the displacement, sign-extended but for SBR's, which it
  gathers from the instruction's bytes (the 24-bit field is split around the 16-bit one); for the indirect jumps it
  reads the address register the instruction names, A11 for a return; for every other instruction it gives no target.
  Only the indirect ones touch the device.\<close>

theorem relative_targets:
  fixes b0 b1 b2 b3 :: u8
  assumes "run (decode_successors D core pc [b0, b1, b2, b3]) s = ((fall_through, target), s')"
  shows "fall_through = pc + (if b0 AND 1 \<noteq> 0 then 4 else 2) \<and>
    (if is_b_format b0 then s' = s \<and> target = Some (pc + 2 * signed_take_bit 23 (word32_of_bytes b2 b3 b1 0))
     else if is_disp15 b0 then s' = s \<and> target = Some (pc + 2 * signed_take_bit 14 (word32_of_bytes b2 b3 0 0))
     else if is_sb b0 then s' = s \<and> target = Some (pc + 2 * signed_take_bit 7 (word32_of_bytes b1 0 0 0))
     else if is_sbr b0 then s' = s \<and> target = Some (pc + 2 * ucast (drop_bit 4 b1))
     else if b0 = 0x2D then run (target_from_a D core (ucast (b1 AND 0x0F))) s = (target, s')
     else if b0 = 0xDC then run (target_from_a D core (ucast (drop_bit 4 b1))) s = (target, s')
     else if b0 = 0 \<and> b1 = 0x90 then run (target_from_a D core 11) s = (target, s')
     else s' = s \<and> target = None)"
proof -
  have d24: "push_bit 16 (drop_bit 8 (word32_of_bytes b0 b1 b2 b3) AND 0xFF) OR
      (drop_bit 16 (word32_of_bytes b0 b1 b2 b3) AND 0xFFFF) = take_bit 24 (word32_of_bytes b2 b3 b1 0)"
  proof -
    have m: "(0xFF :: u32) = mask 8" "(0xFFFF :: u32) = mask 16" by (simp_all add: mask_eq_exp_minus_1)
    show ?thesis unfolding m
      by (rule bit_word_eqI) (auto simp: bit_word32_of_bytes bit_simps bit_mask_iff dest: bit_imp_le_length)
  qed
  have d15: "drop_bit 16 (word32_of_bytes b0 b1 b2 b3) AND 0x7FFF = take_bit 15 (word32_of_bytes b2 b3 0 0)"
  proof -
    have m: "(0x7FFF :: u32) = mask 15" by (simp add: mask_eq_exp_minus_1)
    show ?thesis unfolding m
      by (rule bit_word_eqI) (auto simp: bit_word32_of_bytes bit_simps bit_mask_iff dest: bit_imp_le_length)
  qed
  have d8: "drop_bit 8 (word32_of_bytes b0 b1 0 0) AND 0xFF = take_bit 8 (word32_of_bytes b1 0 0 0)"
  proof -
    have m: "(0xFF :: u32) = mask 8" by (simp add: mask_eq_exp_minus_1)
    show ?thesis unfolding m
      by (rule bit_word_eqI) (auto simp: bit_word32_of_bytes bit_simps bit_mask_iff dest: bit_imp_le_length)
  qed
  have d4: "drop_bit 12 (word32_of_bytes c b1 0 0) AND 0xF = (ucast (drop_bit 4 b1) :: u32)"
      "drop_bit 8 (word32_of_bytes c b1 b2 b3) AND 0xF = (ucast (b1 AND 0x0F) :: u32)" for c
  proof -
    have m: "(0xF :: u32) = mask 4" "(0x0F :: u8) = mask 4" by (simp_all add: mask_eq_exp_minus_1)
    show "drop_bit 12 (word32_of_bytes c b1 0 0) AND 0xF = (ucast (drop_bit 4 b1) :: u32)"
      "drop_bit 8 (word32_of_bytes c b1 b2 b3) AND 0xF = (ucast (b1 AND 0x0F) :: u32)" unfolding m
      by (rule bit_word_eqI; auto simp: bit_word32_of_bytes bit_simps bit_mask_iff dest: bit_imp_le_length)+
  qed
  have ret90: "drop_bit 8 (word32_of_bytes c x 0 0) AND 0xFF = 0x90 \<longleftrightarrow> x = 0x90" for c x
  proof -
    have m: "(0xFF :: u32) = mask 8" by (simp add: mask_eq_exp_minus_1)
    have "drop_bit 8 (word32_of_bytes c x 0 0) AND 0xFF = ucast x" unfolding m
      by (rule bit_word_eqI) (auto simp: bit_word32_of_bytes bit_simps bit_mask_iff dest: bit_imp_le_length)
    moreover have "(ucast (ucast x :: u32) :: u8) = x" by (rule bit_word_eqI) (auto simp: bit_simps)
    moreover have "(ucast (0x90 :: u8) :: u32) = 0x90" by simp
    moreover have "(ucast (0x90 :: u32) :: u8) = 0x90" by simp
    ultimately show ?thesis by metis
  qed
  have odd: "is_b_format b0 \<Longrightarrow> b0 AND 1 \<noteq> 0" "is_disp15 b0 \<Longrightarrow> b0 AND 1 \<noteq> 0"
    "is_sb b0 \<Longrightarrow> b0 AND 1 = 0" "is_sbr b0 \<Longrightarrow> b0 AND 1 = 0" "b0 = 0x2D \<Longrightarrow> b0 AND 1 \<noteq> 0" "b0 = 0xDC \<Longrightarrow> b0 AND 1 = 0"
    by (auto simp: is_b_format_def is_disp15_def is_sb_def is_sbr_def)
  consider "is_b_format b0 \<or> is_disp15 b0" | "is_sb b0" | "is_sbr b0" "\<not> is_sb b0" | "b0 = 0x2D" | "b0 = 0xDC" | "b0 = 0" "b1 = 0x90"
    | "\<not> is_b_format b0" "\<not> is_disp15 b0" "\<not> is_sb b0" "\<not> is_sbr b0" "b0 \<noteq> 0x2D" "b0 \<noteq> 0xDC" "\<not> (b0 = 0 \<and> b1 = 0x90)"
    by blast
  then show ?thesis
  proof cases
    case 1
    then have "b0 AND 1 \<noteq> 0" using odd by blast
    with 1 assms show ?thesis
      by (auto simp: decode_successors_def Let_def d24 d15 sign_extend_signed mult.commute simp del: push_bit_and split: if_split_asm)
  next
    case 2
    then have "b0 AND 1 = 0" "\<not> is_b_format b0" "\<not> is_disp15 b0" using odd by blast+
    with 2 assms show ?thesis
      by (simp add: decode_successors_def Let_def d8 sign_extend_signed mult.commute del: push_bit_and)
  next
    case 3
    then have "b0 AND 1 = 0" "\<not> is_b_format b0" "\<not> is_disp15 b0" using odd by blast+
    with 3 assms show ?thesis by (simp add: decode_successors_def Let_def d4 mult.commute del: push_bit_and)
  next
    case 4
    then show ?thesis using assms
      by (auto simp: decode_successors_def Let_def d4 is_b_format_def is_disp15_def is_sb_def is_sbr_def simp del: push_bit_and
          split: prod.splits)
  next
    case 5
    then show ?thesis using assms
      by (auto simp: decode_successors_def Let_def d4 is_b_format_def is_disp15_def is_sb_def is_sbr_def simp del: push_bit_and
          split: prod.splits)
  next
    case 6
    then show ?thesis using assms
      by (auto simp: decode_successors_def Let_def ret90 is_b_format_def is_disp15_def is_sb_def is_sbr_def simp del: push_bit_and
          split: prod.splits)
  next
    case 7
    then show ?thesis using assms
      by (auto simp: decode_successors_def Let_def ret90 simp del: push_bit_and split: if_split_asm)
  qed
qed

text \<open>\<open>J -2\<close> at 0x80000010: 1D FF FF FF.\<close>

lemma relative_targets_witness:
  "result (decode_successors (good_dev 0) 0 0x80000010 [0x1D, 0xFF, 0xFF, 0xFF]) tc0 = (0x80000014, Some 0x8000000E)"
proof -
  obtain f t s' where r: "run (decode_successors (good_dev 0) 0 0x80000010 [0x1D, 0xFF, 0xFF, 0xFF]) tc0 = ((f, t), s')"
    by (metis prod_cases3 surj_pair)
  have "signed_take_bit 23 (word32_of_bytes 0xFF 0xFF 0xFF 0) = - 1" by code_simp
  with relative_targets [OF r] r show ?thesis by (simp add: is_b_format_def result_def)
qed

section \<open>Memory behind the bus\<close>

text \<open>A target whose words keep what the bus last wrote to them: the reply to a read is the newest
  word commanded at IOADDR, or the word of the initial memory. It may still fail any exchange.\<close>

definition bus_word :: "(u32 \<Rightarrow> u32) \<Rightarrow> (u32 \<times> u32) list \<Rightarrow> u32 \<Rightarrow> u32" where
  "bus_word M0 ws a = (case find (\<lambda>w. fst w = a) ws of None \<Rightarrow> M0 a | Some w \<Rightarrow> snd w)"

abbreviation ram_dev :: "(u32 \<Rightarrow> u32) \<Rightarrow> dev \<Rightarrow> bool" where
  "ram_dev M0 \<equiv> answers (bus_word M0)"

definition mem_byte :: "(u32 \<Rightarrow> u32) \<Rightarrow> (u32 \<times> u32) list \<Rightarrow> u32 \<Rightarrow> u8" where
  "mem_byte M0 ws x = byte_of_word32 (bus_word M0 ws (align4 x)) (unat (x - align4 x))"

lemma bus_word_Cons [simp]: "bus_word M0 ((a, v) # ws) x = (if x = a then v else bus_word M0 ws x)"
  by (auto simp: bus_word_def)

lemma unat_align4: "unat (align4 a) = unat a div 4 * 4"
proof -
  have "(mask 2 :: u32) = 3" by (simp add: mask_eq_exp_minus_1)
  then show ?thesis using unat_align [of a 2] by (simp add: align4_def)
qed

lemma unat_skip: "unat (a - align4 a) = unat a mod 4"
proof -
  have "unat (take_bit 2 a) = take_bit 2 (unat a)" by (rule unsigned_take_bit_eq)
  then show ?thesis by (simp add: align4_offset take_bit_eq_mod [of 2 "unat a"] del: take_bit_eq_mod)
qed

text \<open>The bytes of the word that holds \<open>a\<close>, from \<open>a\<close> on.\<close>

lemma word_bytes:
  assumes "i < 4 - unat (a - align4 a)"
  shows "align4 (a + of_nat i) = align4 a" "unat (a + of_nat i - align4 (a + of_nat i)) = unat (a - align4 a) + i"
    "unat (a + of_nat i) = unat a + i"
proof -
  have a: "unat a < 4294967296" using unsigned_less [of a] by simp
  have i: "unat a mod 4 + i < 4" using assms by (simp add: unat_skip)
  define q r where "q = unat a div 4" "r = unat a mod 4"
  have qr: "unat a = 4 * q + r" "r + i < 4" using i by (simp_all add: q_r_def)
  have "q < 1073741824" using a by (simp add: q_r_def)
  then have lt: "unat a + i < 4294967296" using qr by linarith
  have e: "(4 * q + r + i) mod 4 = r + i" "(4 * q + r + i) div 4 = q" using qr(2) by (simp_all only: add.assoc) (simp_all add: mod_eq_self_iff_div_eq_0 [THEN iffD2])
  have m: "(unat a + i) mod 4 = unat a mod 4 + i" and d: "(unat a + i) div 4 = unat a div 4"
    unfolding q_r_def [symmetric] using e qr(1) by simp_all
  have "unat (of_nat i :: u32) = i" using assms by (simp add: unat_of_nat)
  then show u: "unat (a + of_nat i) = unat a + i" using lt by (simp add: unat_word_ariths(1))
  show "unat (a + of_nat i - align4 (a + of_nat i)) = unat (a - align4 a) + i"
    by (simp only: unat_skip u m)
  have "unat (align4 (a + of_nat i)) = unat (align4 a)" by (simp only: unat_align4 u d)
  then show "align4 (a + of_nat i) = align4 a" by (simp only: word_unat_eq_iff)
qed

lemma same_word:
  assumes "align4 x = align4 a"
  shows "(unat (x - a) < n \<longleftrightarrow> unat (a - align4 a) \<le> unat (x - align4 x) \<and> unat (x - align4 x) < unat (a - align4 a) + n)
     \<or> 2 ^ 32 - 4 < n"
proof -
  let ?j = "unat (x - align4 x)" and ?k = "unat (a - align4 a)"
  have j: "?j < 4" "?k < 4" by (rule skip_lt4)+
  have "x - a = (x - align4 x) - (a - align4 a)" using assms by simp
  then have "unat (x - a) = (if ?k \<le> ?j then ?j - ?k else ?j + 2 ^ 32 - ?k)"
    by (simp only: unat_sub_if_size) (simp add: word_size)
  then show ?thesis using j by auto
qed

lemma put_bytes_byte:
  assumes "k + length bs \<le> 4" "j < 4"
  shows "byte_of_word32 (put_bytes w k bs) j = (if k \<le> j \<and> j < k + length bs then bs ! (j - k) else byte_of_word32 w j)"
  using assms(1)
proof (induction bs rule: rev_induct)
  case Nil
  then show ?case by (auto simp: put_bytes_def)
next
  case (snoc b bs)
  have one: "byte_of_word32 (put_byte v (8 * n) b) j = (if j = n then b else byte_of_word32 v j)" if "n < 4" for v n
  proof (rule bit_word_eqI)
    fix m assume "m < LENGTH(8)"
    have ff: "(0xFF :: u32) = mask 8" by (simp add: mask_eq_exp_minus_1)
    show "bit (byte_of_word32 (put_byte v (8 * n) b) j) m = bit (if j = n then b else byte_of_word32 v j) m"
      using \<open>m < LENGTH(8)\<close> that assms(2)
      by (auto simp: bit_byte_of_word32 put_byte_def ff bit_simps bit_mask_iff dest: bit_imp_le_length)
  qed
  have "foldl (\<lambda>w i. put_byte w (8 * (k + i)) ((bs @ [b]) ! i)) w [0..<length bs] =
      foldl (\<lambda>w i. put_byte w (8 * (k + i)) (bs ! i)) w [0..<length bs]"
    by (rule foldl_cong) (auto simp: nth_append)
  then have "put_bytes w k (bs @ [b]) = put_byte (put_bytes w k bs) (8 * (k + length bs)) b"
    by (simp add: put_bytes_def)
  then show ?case using snoc one [of "k + length bs" "put_bytes w k bs"] by (auto simp: nth_append)
qed

lemma read_mem_bytes:
  assumes "ram_dev M0 D" "run (read_mem_loop D a n buf) s = ((ESP_OK, r), s')"
  shows "r = buf @ map (\<lambda>i. mem_byte M0 (blog s) (a + of_nat i)) [0..<n] \<and> blog s' = blog s"
  using assms
proof (induction D a n buf arbitrary: s rule: read_mem_loop.induct)
  case (1 D a n buf)
  show ?case
  proof (cases "n = 0")
    case True
    with "1.prems"(2) show ?thesis by (subst (asm) read_mem_loop.simps) simp
  next
    case False
    define k where "k = unat (a - align4 a)"
    define t where "t = (if 4 - k < n then 4 - k else n)"
    have k: "k < 4" unfolding k_def by (rule skip_lt4)
    then have t: "t \<le> n" "0 < t" "t \<le> 4 - k" using False by (auto simp: t_def)
    obtain e w s1 where s1: "run (dap_probe_read32 D (align4 a) 0) s = ((e, w), s1)"
      by (metis prod_cases3 surj_pair)
    let ?got = "map (\<lambda>i. byte_of_word32 w (k + i)) [0..<t]"
    have ok: "e = ESP_OK" and rest: "run (read_mem_loop D (a + of_nat t) (n - t) (buf @ ?got)) s1 = ((ESP_OK, r), s')"
      using "1.prems"(2) False s1 unfolding k_def t_def
      by (subst (asm) read_mem_loop.simps, auto simp: Let_def split: if_split_asm prod.splits)+
    have w: "w = bus_word M0 (blog s) (align4 a)" by (rule answers_read32 [OF "1.prems"(1) s1 [unfolded ok]])
    have "?got ! i = mem_byte M0 (blog s) (a + of_nat i)" if "i < t" for i
      using that t word_bytes [of i a] by (simp add: mem_byte_def w k_def)
    then have got: "?got = map (\<lambda>i. mem_byte M0 (blog s) (a + of_nat i)) [0..<t]"
      by (auto intro: nth_equalityI)
    have b1: "blog s1 = blog s" using read32_effect [OF s1] by blast
    have "r = (buf @ ?got) @ map (\<lambda>i. mem_byte M0 (blog s1) (a + of_nat t + of_nat i)) [0..<n - t] \<and> blog s' = blog s1"
      by (rule "1.IH" [of "align4 a" k t e w]) (use False ok rest "1.prems"(1) in \<open>simp_all add: k_def t_def\<close>)
    moreover have "[0..<n] = [0..<t] @ map (\<lambda>i. t + i) [0..<n - t]"
      using t(1) by (intro nth_equalityI) (auto simp: nth_append)
    ultimately show ?thesis using got b1 by (simp add: add.assoc comp_def)
  qed
qed

lemma word32_bytes_eqI:
  assumes "\<And>j. j < 4 \<Longrightarrow> byte_of_word32 v j = byte_of_word32 w j"
  shows "v = w"
proof (rule bit_word_eqI)
  fix n assume n: "n < LENGTH(32)"
  then have "bit (byte_of_word32 v (n div 8)) (n mod 8) = bit (byte_of_word32 w (n div 8)) (n mod 8)"
    by (intro arg_cong [where f = "\<lambda>b. bit b (n mod 8)"] assms) simp
  then show "bit v n = bit w n" by (simp add: bit_byte_of_word32)
qed

lemma chunk_bytes:
  assumes "t \<le> 4 - unat (a - align4 a)" "t \<le> length buf"
  shows "mem_byte M0 ((align4 a, put_bytes (bus_word M0 ws (align4 a)) (unat (a - align4 a)) (take t buf)) # ws) x =
    (if unat (x - a) < t then buf ! unat (x - a) else mem_byte M0 ws x)"
proof (cases "align4 x = align4 a")
  case True
  let ?j = "unat (x - align4 x)" and ?k = "unat (a - align4 a)"
  have j: "?j < 4" "?k < 4" by (rule skip_lt4)+
  have in_word: "unat (x - a) < t \<longleftrightarrow> ?k \<le> ?j \<and> ?j < ?k + t" using same_word [OF True, of t] assms(1) by auto
  have "unat (x - a) = ?j - ?k" if "?k \<le> ?j"
  proof -
    have "x - a = (x - align4 x) - (a - align4 a)" using True by simp
    then show ?thesis using that by (simp only: unat_sub_if_size if_True)
  qed
  moreover have "byte_of_word32 (put_bytes w ?k (take t buf)) ?j =
      (if ?k \<le> ?j \<and> ?j < ?k + t then buf ! (?j - ?k) else byte_of_word32 w ?j)" for w
    using j assms by (subst put_bytes_byte) (auto simp: min_absorb2 less_diff_conv2)
  ultimately show ?thesis using True in_word by (simp add: mem_byte_def)
next
  case False
  have "\<not> unat (x - a) < t"
  proof
    assume "unat (x - a) < t"
    then have "align4 (a + of_nat (unat (x - a))) = align4 a" using assms(1) by (intro word_bytes) simp
    then show False using False by simp
  qed
  then show ?thesis using False by (simp add: mem_byte_def)
qed

lemma write_mem_bytes:
  assumes "ram_dev M0 D" "run (tricore_write_mem D a buf) s = (ESP_OK, s')" "length buf \<le> 2 ^ 32"
  shows "mem_byte M0 (blog s') x =
    (if unat (x - a) < length buf then buf ! unat (x - a) else mem_byte M0 (blog s) x)"
  using assms
proof (induction D a buf arbitrary: s rule: tricore_write_mem.induct)
  case (1 D a buf)
  show ?case
  proof (cases "buf = []")
    case True
    with "1.prems"(2) show ?thesis by (subst (asm) tricore_write_mem.simps) simp
  next
    case False
    define k where "k = unat (a - align4 a)"
    define t where "t = (if 4 - k < length buf then 4 - k else length buf)"
    have k: "k < 4" unfolding k_def by (rule skip_lt4)
    then have t: "t \<le> length buf" "0 < t" "t \<le> 4 - k" using False by (auto simp: t_def)
    obtain e w s1 where s1: "run (if t \<noteq> 4 then dap_probe_read32 D (align4 a) 0 else ret (ESP_OK, 0)) s = ((e, w), s1)"
      by (metis prod_cases3 surj_pair)
    let ?new = "put_bytes w k (take t buf)"
    obtain e2 s2 where s2: "run (dap_probe_write32 D (align4 a) ?new) s1 = (e2, s2)" by (metis surj_pair)
    have ok: "e = ESP_OK" "e2 = ESP_OK" and rest: "run (tricore_write_mem D (a + of_nat t) (drop t buf)) s2 = (ESP_OK, s')"
      using "1.prems"(2) False s1 s2 unfolding k_def t_def
      by (subst (asm) tricore_write_mem.simps, auto simp: Let_def split: if_split_asm prod.splits)+
    have b1: "blog s1 = blog s" using s1 by (cases "t = 4") (auto dest: read32_effect)
    have new: "?new = put_bytes (bus_word M0 (blog s) (align4 a)) k (take t buf)"
    proof (cases "t = 4")
      case True
      then have "k = 0" "length (take t buf) = 4" using t k by auto
      then show ?thesis
        by (intro word32_bytes_eqI) (simp add: put_bytes_byte)
    next
      case False
      then have "w = bus_word M0 (blog s) (align4 a)"
        using s1 ok answers_read32 [OF "1.prems"(1)] by simp
      then show ?thesis by simp
    qed
    have b2: "blog s2 = (align4 a, ?new) # blog s" using write32_effect [OF s2] ok b1 by simp
    have mid: "mem_byte M0 (blog s2) x = (if unat (x - a) < t then buf ! unat (x - a) else mem_byte M0 (blog s) x)"
      unfolding b2 new unfolding k_def by (rule chunk_bytes) (use t in \<open>simp_all add: k_def\<close>)
    have "mem_byte M0 (blog s') x = (if unat (x - (a + of_nat t)) < length (drop t buf)
        then drop t buf ! unat (x - (a + of_nat t)) else mem_byte M0 (blog s2) x)"
      by (rule "1.IH" [of "align4 a" k t e e2]) (use False ok rest "1.prems"(1,3) in \<open>simp_all add: k_def t_def\<close>)
    moreover have "unat (x - (a + of_nat t)) = (if t \<le> unat (x - a) then unat (x - a) - t else unat (x - a) + 2 ^ 32 - t)"
    proof -
      have "unat (of_nat t :: u32) = t" using t by (simp add: unat_of_nat)
      then have "unat ((x - a) - of_nat t) = (if t \<le> unat (x - a) then unat (x - a) - t else unat (x - a) + 2 ^ 32 - t)"
        by (simp only: unat_sub_if_size) (simp add: word_size)
      then show ?thesis by (simp only: diff_diff_eq)
    qed
    ultimately show ?thesis using mid t "1.prems"(3) by auto
  qed
qed

lemma faultless_write_mem: "faultless D \<Longrightarrow> fst (run (tricore_write_mem D a buf) s) = ESP_OK"
proof (induction D a buf arbitrary: s rule: tricore_write_mem.induct)
  case (1 D a buf)
  let ?t = "if 4 - unat (a - align4 a) < length buf then 4 - unat (a - align4 a) else length buf"
  have rd: "fst (fst (run (if ?t \<noteq> 4 then dap_probe_read32 D (align4 a) 0 else ret (ESP_OK, 0)) s)) = ESP_OK" for s
    using faultless_read32 [OF "1.prems", of "align4 a" 0 s] by simp
  have wr: "e = ESP_OK" if "run (dap_probe_write32 D (align4 a) w) s = (e, s')" for w s e s'
    using faultless_write32 [OF "1.prems", of "align4 a" w s] that by simp
  show ?case
    using rd [of s] "1.IH" [OF _ refl refl refl _ _ "1.prems"]
    by (subst tricore_write_mem.simps) (auto simp: Let_def split: prod.splits dest: wr)
qed

lemma faultless_read_mem: "faultless D \<Longrightarrow> fst (fst (run (read_mem_loop D a n buf) s)) = ESP_OK"
proof (induction D a n buf arbitrary: s rule: read_mem_loop.induct)
  case (1 D a n buf)
  have rd: "e = ESP_OK" if "run (dap_probe_read32 D (align4 a) 0) s = ((e, w), s')" for w s e s'
    using faultless_read32 [OF "1.prems", of "align4 a" 0 s] that by simp
  show ?case
    using "1.IH" [OF _ refl refl refl _ "1.prems"]
    by (subst read_mem_loop.simps) (auto simp: Let_def split: prod.splits dest: rd)
qed

text \<open>C16: target memory has byte granularity: on a target that keeps what it is written, what a
  successful \<open>tricore_write_mem\<close> of \<open>bs\<close> at \<open>a\<close> leaves is read back by \<open>tricore_read_mem\<close> as the bytes
  \<open>bs\<close> inside the range and as the old bytes around it, at any alignment and length and modulo the
  32-bit address space; and the write does succeed when no exchange fails.\<close>

theorem memory_round_trip:
  assumes "ram_dev M0 D" "length bs \<le> 2 ^ 32"
  shows "(run (tricore_write_mem D a bs) s = (ESP_OK, s1) \<and>
      run (tricore_read_mem D a' n) s1 = ((ESP_OK, r), s2) \<longrightarrow>
      r = map (\<lambda>i. let x = a' + of_nat i in
        if unat (x - a) < length bs then bs ! unat (x - a) else mem_byte M0 (blog s) x) [0..<n]) \<and>
    (faultless D \<longrightarrow> result (tricore_write_mem D a bs) s = ESP_OK \<and>
      fst (result (tricore_read_mem D a' n) s1) = ESP_OK)"
proof (intro conjI [OF impI impI])
  show "result (tricore_write_mem D a bs) s = ESP_OK \<and> fst (result (tricore_read_mem D a' n) s1) = ESP_OK"
    if "faultless D"
    using faultless_write_mem [OF that, of a bs s] faultless_read_mem [OF that, of a' n "[]" s1] by (simp add: result_def tricore_read_mem_def)
  assume "run (tricore_write_mem D a bs) s = (ESP_OK, s1) \<and> run (tricore_read_mem D a' n) s1 = ((ESP_OK, r), s2)"
  then have w: "run (tricore_write_mem D a bs) s = (ESP_OK, s1)"
    and r: "run (tricore_read_mem D a' n) s1 = ((ESP_OK, r), s2)" by auto
  have "r = map (\<lambda>i. mem_byte M0 (blog s1) (a' + of_nat i)) [0..<n]"
    using read_mem_bytes [OF assms(1) r [unfolded tricore_read_mem_def]] by simp
  then show "r = map (\<lambda>i. let x = a' + of_nat i in
        if unat (x - a) < length bs then bs ! unat (x - a) else mem_byte M0 (blog s) x) [0..<n]"
    using write_mem_bytes [OF assms(1) w assms(2)] by (simp add: Let_def)
qed

text \<open>Seven bytes across three words, the last of them the first word of the address space.\<close>

lemma memory_round_trip_witness:
  "\<exists>s1 s2 r. run (tricore_write_mem (bus_dev (bus_word (\<lambda>_. 0x11111111))) 0xFFFFFFFB [1, 2, 3, 4, 5, 6, 7]) tc0 = (ESP_OK, s1) \<and>
     run (tricore_read_mem (bus_dev (bus_word (\<lambda>_. 0x11111111))) 0xFFFFFFFA 9) s1 = ((ESP_OK, r), s2) \<and>
     r = [0x11, 1, 2, 3, 4, 5, 6, 7, 0x11]"
proof -
  let ?D = "bus_dev (bus_word (\<lambda>_. 0x11111111))" and ?bs = "[1, 2, 3, 4, 5, 6, 7] :: u8 list"
  have ram: "ram_dev (\<lambda>_. 0x11111111) ?D" "length ?bs \<le> 2 ^ 32" by simp_all
  obtain s1 where s1: "run (tricore_write_mem ?D 0xFFFFFFFB ?bs) tc0 = (ESP_OK, s1)"
    using memory_round_trip [OF ram, where s = tc0 and a = "0xFFFFFFFB" and ?s1.0 = tc0]
    by (cases "run (tricore_write_mem ?D 0xFFFFFFFB ?bs) tc0") (simp add: result_def)
  obtain r s2 where s2: "run (tricore_read_mem ?D 0xFFFFFFFA 9) s1 = ((ESP_OK, r), s2)"
    using memory_round_trip [OF ram, where ?s1.0 = s1 and a' = "0xFFFFFFFA" and n = 9]
    by (cases "run (tricore_read_mem ?D 0xFFFFFFFA 9) s1") (auto simp: result_def)
  have e: "mem_byte (\<lambda>_. 0x11111111) (blog tc0) 0xFFFFFFFA = 0x11" "mem_byte (\<lambda>_. 0x11111111) (blog tc0) 2 = 0x11"
    by (simp_all add: mem_byte_def bus_word_def tc0_def bus_writes_def bus_of_def align4_def byte_of_word32_def drop_bit_eq_div)
  have w: "(4294967298 :: u32) = 2" by simp
  have "r = [0x11, 1, 2, 3, 4, 5, 6, 7, 0x11]"
    unfolding memory_round_trip [OF ram, THEN conjunct1, rule_format, OF conjI [OF s1 s2]]
    using e by (simp add: upt_rec Let_def w unsigned_minus_1_eq_mask mask_eq_exp_minus_1)
  with s1 s2 show ?thesis by blast
qed

end
