(* ===== verification/Tricore_Bp.thy ===== *)
theory Tricore_Bp
  imports Tricore_Regs
begin

text \<open>
  What the breakpoint allocator and the single step of \<open>tricore_regs.c\<close> guarantee. The operations are
  first reduced to what they do to one core's table of eight slots (\<open>bp_add_table\<close>,
  \<open>bp_remove_table\<close>, \<open>bp_clear_kind_table\<close>, ...), whatever the device answers; the properties are
  then statements about tables.
\<close>

section \<open>The breakpoint table\<close>

lemma unchanged_triggers [unchanged_frame]:
  "rel unchanged (tricore_set_code_trigger D core slot addr :: ('e tricore_scheme, esp_err) state)"
  "rel unchanged (tricore_set_data_trigger D core slot addr sz rd wr :: ('e tricore_scheme, esp_err) state)"
  "rel unchanged (tricore_clear_trigger D core slot :: ('e tricore_scheme, esp_err) state)"
  unfolding tricore_set_code_trigger_def tricore_set_data_trigger_def tricore_clear_trigger_def
  by (intro unchanged_frame)+

text \<open>The table alone: what stays the same for other cores and for the link.\<close>

definition table_step :: "int \<Rightarrow> (int \<Rightarrow> tricore_bp) \<Rightarrow> 'e tricore_scheme \<Rightarrow> 'e tricore_scheme \<Rightarrow> bool" where
  "table_step core t s s' \<longleftrightarrow> slots s' = (slots s)(core := t) \<and> present s' = present s"

lemma unchanged_table: "unchanged s s' \<Longrightarrow> table_step core (slots s core) s s'"
  using unchanged_present by (auto simp: table_step_def)

lemma table_trans: "table_step core t s s1 \<Longrightarrow> table_step core t' s1 s' \<Longrightarrow> table_step core t' s s'"
  by (auto simp: table_step_def)

definition add_slot :: "(int \<Rightarrow> tricore_bp) \<Rightarrow> u32 \<Rightarrow> tricore_bp_kind \<Rightarrow> int \<Rightarrow> tricore_bp" where
  "add_slot t addr kind = t(free_slot t := free_bp\<lparr>bp_addr := addr, bp_kind := kind\<rparr>)"

lemma find_slot_cases:
  "find_slot P ns = -1 \<and> (\<forall>n\<in>set ns. \<not> P n) \<or> find_slot P ns \<in> set ns \<and> P (find_slot P ns)"
  by (induction ns) auto

lemma free_slot_cases:
  obtains "free_slot t = -1" "\<And>n. 0 \<le> n \<Longrightarrow> n < 8 \<Longrightarrow> bp_kind (t n) \<noteq> TRICORE_BP_FREE"
  | "0 \<le> free_slot t" "free_slot t < 8" "bp_kind (t (free_slot t)) = TRICORE_BP_FREE"
proof -
  have all: "n \<in> set all_slots \<longleftrightarrow> 0 \<le> n \<and> n < 8" for n by (auto simp: all_slots_def)
  show ?thesis
    using find_slot_cases [of "\<lambda>n. bp_kind (t n) = TRICORE_BP_FREE" all_slots] that
    unfolding free_slot_def [symmetric] Ball_def all by auto
qed

lemma slot_of_addr_cases:
  obtains "slot_of_addr t addr = -1" "\<And>n. 0 \<le> n \<Longrightarrow> n < 8 \<Longrightarrow> bp_kind (t n) \<noteq> TRICORE_BP_FREE \<Longrightarrow> bp_addr (t n) \<noteq> addr"
  | "0 \<le> slot_of_addr t addr" "slot_of_addr t addr < 8" "bp_kind (t (slot_of_addr t addr)) \<noteq> TRICORE_BP_FREE"
    "bp_addr (t (slot_of_addr t addr)) = addr"
proof -
  have all: "n \<in> set all_slots \<longleftrightarrow> 0 \<le> n \<and> n < 8" for n by (auto simp: all_slots_def)
  show ?thesis
    using find_slot_cases [of "\<lambda>n. bp_kind (t n) \<noteq> TRICORE_BP_FREE \<and> bp_addr (t n) = addr" all_slots] that
    unfolding slot_of_addr_def [symmetric] Ball_def all by auto
qed

lemma bp_add_table:
  fixes s :: "'e tricore_scheme"
  assumes "run (tricore_bp_add D core addr kind) s = (r, s')"
  shows "(table_step core (slots s core) s s' \<and> (r = -1 \<or> r = slot_of_addr (slots s core) addr \<and> r \<ge> 0 \<and> s' = s)) \<or>
    (table_step core (add_slot (slots s core) addr kind) s s' \<and> r = free_slot (slots s core) \<and> 0 \<le> r \<and>
     slot_of_addr (slots s core) addr < 0)"
proof -
  let ?t = "slots s core"
  have same: "table_step core ?t s s" by (simp add: table_step_def)
  show ?thesis
  proof (cases "tricore_core_ok core s \<and> slot_of_addr ?t addr < 0 \<and> free_slot ?t \<ge> 0")
    case False
    then show ?thesis using assms same by (auto simp: tricore_bp_add_def Let_def split: if_split_asm)
  next
    case True
    obtain e s1 where s1: "run (tricore_set_code_trigger D core (free_slot ?t) addr) s = (e, s1)" by (metis surj_pair)
    have t1: "table_step core ?t s s1"
      using relD [OF unchanged_triggers(1) s1] by (rule unchanged_table)
    show ?thesis
    proof (cases "e = ESP_OK")
      case ok: True
      then have "r = free_slot ?t" "s' = s1\<lparr>slots := (slots s1)(core := (slots s1 core)(free_slot ?t := free_bp\<lparr>bp_addr := addr, bp_kind := kind\<rparr>))\<rparr>"
        using assms True s1 by (auto simp: tricore_bp_add_def Let_def set_slot_def)
      then show ?thesis using t1 True by (simp add: table_step_def add_slot_def)
    next
      case False
      obtain c s2 where s2: "run (dap_probe_clear_error_state D) s1 = (c, s2)" by (metis surj_pair)
      then have "r = -1" "s' = s2" using assms True s1 False by (auto simp: tricore_bp_add_def Let_def)
      moreover have "table_step core (slots s1 core) s1 s2"
        using relD [OF clear_error_state_rules(2) s2] by (rule unchanged_table)
      moreover have "slots s1 core = ?t" using t1 by (simp add: table_step_def)
      ultimately show ?thesis using t1 table_trans by metis
    qed
  qed
qed

lemma clear_kind_loop:
  fixes s :: "'e tricore_scheme"
  assumes "distinct ns"
  shows "table_step core (\<lambda>n. if n \<in> set ns \<and> bp_kind (slots s core n) = kind then free_bp else slots s core n)
    s (final (for_each (clear_kind_slot D core kind) ns) s)"
  using assms
proof (induction ns arbitrary: s)
  case Nil
  then show ?case by (simp add: final_def table_step_def)
next
  case (Cons n ns)
  let ?s1 = "final (clear_kind_slot D core kind n) s"
  have t1: "table_step core (\<lambda>m. if m = n \<and> bp_kind (slots s core m) = kind then free_bp else slots s core m) s ?s1"
  proof (cases "bp_kind (slots s core n) = kind")
    case True
    obtain e s2 where s2: "run (tricore_clear_trigger D core n) s = (e, s2)" by (metis surj_pair)
    have "table_step core (slots s core) s s2"
      using relD [OF unchanged_triggers(3) s2] by (rule unchanged_table)
    then show ?thesis using s2 True by (auto simp: clear_kind_slot_def final_def if_do_def set_slot_def table_step_def fun_eq_iff)
  next
    case False
    then show ?thesis by (auto simp: clear_kind_slot_def final_def if_do_def table_step_def fun_eq_iff)
  qed
  have "final (for_each (clear_kind_slot D core kind) (n # ns)) s = final (for_each (clear_kind_slot D core kind) ns) ?s1"
    by (simp add: final_def split: prod.split)
  then show ?case
    using t1 Cons.IH [of ?s1] Cons.prems by (auto simp: table_step_def fun_eq_iff)
qed

definition without_kind :: "(int \<Rightarrow> tricore_bp) \<Rightarrow> tricore_bp_kind \<Rightarrow> int \<Rightarrow> tricore_bp" where
  "without_kind t kind = (\<lambda>n. if 0 \<le> n \<and> n < 8 \<and> bp_kind (t n) = kind then free_bp else t n)"

lemma bp_clear_kind_table:
  assumes "run (tricore_bp_clear_kind D core kind) s = (r, s')" "tricore_core_ok core s"
  shows "table_step core (without_kind (slots s core) kind) s s'"
proof -
  have all: "n \<in> set all_slots \<longleftrightarrow> 0 \<le> n \<and> n < 8" for n by (auto simp: all_slots_def)
  have "s' = final (for_each (clear_kind_slot D core kind) all_slots) s"
    using assms by (simp add: tricore_bp_clear_kind_def final_def if_do_def del: for_each.simps)
  moreover have "without_kind (slots s core) kind =
      (\<lambda>n. if n \<in> set all_slots \<and> bp_kind (slots s core n) = kind then free_bp else slots s core n)"
    unfolding without_kind_def all by (auto simp: fun_eq_iff)
  ultimately show ?thesis
    using clear_kind_loop [of all_slots core s kind D] by (simp add: all_slots_def)
qed

definition remove_slot :: "(int \<Rightarrow> tricore_bp) \<Rightarrow> int \<Rightarrow> int \<Rightarrow> tricore_bp" where
  "remove_slot t slot =
     (if bp_kind (t slot) = TRICORE_BP_WATCH \<and> bp_size (t slot) > 1 \<and> slot + 1 < TRICORE_NUM_TRIGGERS
      then t(slot := free_bp, slot + 1 := free_bp) else t(slot := free_bp))"

lemma bp_remove_table:
  assumes "run (tricore_bp_remove D core addr) s = (r, s')" "tricore_core_ok core s"
  shows "let slot = slot_of_addr (slots s core) addr
    in r = (slot \<ge> 0) \<and> table_step core (if r then remove_slot (slots s core) slot else slots s core) s s'"
proof -
  let ?slot = "slot_of_addr (slots s core) addr"
  obtain e s1 where s1: "run (tricore_clear_trigger D core ?slot) s = (e, s1)" by (metis surj_pair)
  have t1: "table_step core (slots s core) s s1"
    using relD [OF unchanged_triggers(3) s1] by (rule unchanged_table)
  let ?s2 = "s1\<lparr>slots := (slots s1)(core := (slots s1 core)(?slot := free_bp))\<rparr>"
  obtain e' s3 where s3: "run (tricore_clear_trigger D core (?slot + 1)) ?s2 = (e', s3)" by (metis surj_pair)
  have "table_step core (slots ?s2 core) ?s2 s3"
    using relD [OF unchanged_triggers(3) s3] by (rule unchanged_table)
  with t1 s1 s3 assms show ?thesis
    by (auto simp: tricore_bp_remove_def Let_def set_slot_def if_do_def remove_slot_def table_step_def split: if_split_asm)
qed

definition watch_pair :: "tricore_bp \<Rightarrow> bool" where
  "watch_pair bp \<longleftrightarrow> bp_kind bp = TRICORE_BP_WATCH \<and> bp_size bp > 1"

text \<open>A watchpoint wider than a byte owns an even trigger and the odd one after it, which holds its
  upper bound, and every upper bound belongs to one.\<close>

definition pairs_ok :: "(int \<Rightarrow> tricore_bp) \<Rightarrow> bool" where
  "pairs_ok t \<longleftrightarrow> (\<forall>n. 0 \<le> n \<and> n < 8 \<longrightarrow>
     (watch_pair (t n) \<longrightarrow> even n \<and> bp_kind (t (n + 1)) = TRICORE_BP_WATCH_HI \<and>
        bp_addr (t (n + 1)) = bp_addr (t n) + bp_size (t n)) \<and>
     (bp_kind (t n) = TRICORE_BP_WATCH_HI \<longrightarrow> odd n \<and> watch_pair (t (n - 1))))"

lemma free_pair_cases:
  obtains "free_pair t = -1"
  | "0 \<le> free_pair t" "free_pair t < 8" "even (free_pair t)" "bp_kind (t (free_pair t)) = TRICORE_BP_FREE"
    "bp_kind (t (free_pair t + 1)) = TRICORE_BP_FREE"
  using find_slot_cases [of "\<lambda>n. bp_kind (t n) = TRICORE_BP_FREE \<and> bp_kind (t (n + 1)) = TRICORE_BP_FREE" "[0, 2, 4, 6]"]
  unfolding free_pair_def [symmetric] by auto

lemma bp_add_watch_table:
  fixes s :: "'e tricore_scheme"
  assumes "run (tricore_bp_add_watch D core addr sz rd wr) s = (r, s')"
  shows "table_step core (slots s core) s s' \<or>
    (\<exists>slot. slot = (if sz > 1 then free_pair (slots s core) else free_slot (slots s core)) \<and> 0 \<le> slot \<and> r = slot \<and>
      (let bp = \<lparr>bp_addr = addr, bp_size = sz, bp_kind = TRICORE_BP_WATCH, bp_on_read = rd, bp_on_write = wr\<rparr>;
           t1 = (slots s core)(slot := bp)
       in table_step core (if sz > 1 then t1(slot + 1 := free_bp\<lparr>bp_addr := addr + sz, bp_kind := TRICORE_BP_WATCH_HI\<rparr>)
            else t1) s s'))"
proof -
  let ?t = "slots s core" and ?slot = "if sz > 1 then free_pair (slots s core) else free_slot (slots s core)"
  have same: "table_step core ?t s s" by (simp add: table_step_def)
  show ?thesis
  proof (cases "tricore_core_ok core s \<and> slot_of_addr ?t addr < 0 \<and> ?slot \<ge> 0")
    case False
    then show ?thesis using assms same by (auto simp: tricore_bp_add_watch_def Let_def split: if_split_asm)
  next
    case True
    obtain e s1 where s1: "run (tricore_set_data_trigger D core ?slot addr sz rd wr) s = (e, s1)" by (metis surj_pair)
    have t1: "table_step core ?t s s1"
      using relD [OF unchanged_triggers(2) s1] by (rule unchanged_table)
    show ?thesis
    proof (cases "e = ESP_OK")
      case ok: True
      then show ?thesis
        using assms True s1 t1
        by (auto simp: tricore_bp_add_watch_def Let_def set_slot_def if_do_def table_step_def split: if_split_asm)
    next
      case False
      obtain c s2 where s2: "run (dap_probe_clear_error_state D) s1 = (c, s2)" by (metis surj_pair)
      then have "s' = s2" using assms True s1 False by (auto simp: tricore_bp_add_watch_def Let_def)
      moreover have "table_step core (slots s1 core) s1 s2"
        using relD [OF clear_error_state_rules(2) s2] by (rule unchanged_table)
      moreover have "slots s1 core = ?t" using t1 by (simp add: table_step_def)
      ultimately show ?thesis using t1 table_trans by metis
    qed
  qed
qed

lemma pairs_ok_single:
  assumes "pairs_ok t" "bp_kind (t n) \<noteq> TRICORE_BP_WATCH_HI" "\<not> watch_pair (t n)" "\<not> watch_pair bp"
    "bp_kind bp \<noteq> TRICORE_BP_WATCH_HI"
  shows "pairs_ok (t(n := bp))"
  using assms unfolding pairs_ok_def by auto

lemma pairs_ok_pair:
  assumes "pairs_ok t" "even n" "0 \<le> n" "n < 8"
    "watch_pair (t n) \<or> bp_kind (t n) = TRICORE_BP_FREE \<and> bp_kind (t (n + 1)) = TRICORE_BP_FREE"
    "watch_pair bp \<and> bp_kind bp' = TRICORE_BP_WATCH_HI \<and> bp_addr bp' = bp_addr bp + bp_size bp \<or>
     bp_kind bp = TRICORE_BP_FREE \<and> bp_kind bp' = TRICORE_BP_FREE"
  shows "pairs_ok (t(n := bp, n + 1 := bp'))"
proof -
  let ?t' = "t(n := bp, n + 1 := bp')"
  have old: "watch_pair (t m) \<Longrightarrow> even m \<and> bp_kind (t (m + 1)) = TRICORE_BP_WATCH_HI \<and>
        bp_addr (t (m + 1)) = bp_addr (t m) + bp_size (t m)"
    "bp_kind (t m) = TRICORE_BP_WATCH_HI \<Longrightarrow> odd m \<and> watch_pair (t (m - 1))" if "0 \<le> m" "m < 8" for m
    using assms(1) that unfolding pairs_ok_def by blast+
  have p: "watch_pair b \<Longrightarrow> bp_kind b = TRICORE_BP_WATCH" for b by (simp add: watch_pair_def)
  have "(watch_pair (?t' m) \<longrightarrow> even m \<and> bp_kind (?t' (m + 1)) = TRICORE_BP_WATCH_HI \<and>
        bp_addr (?t' (m + 1)) = bp_addr (?t' m) + bp_size (?t' m)) \<and>
     (bp_kind (?t' m) = TRICORE_BP_WATCH_HI \<longrightarrow> odd m \<and> watch_pair (?t' (m - 1)))"
    if m: "0 \<le> m" "m < 8" for m
  proof (cases "m = n \<or> m = n + 1")
    case True
    then show ?thesis using assms(2,6) p [of bp] p [of bp'] by auto
  next
    case False
    have "m + 1 \<noteq> n" if "watch_pair (t m)"
      using old(1) [OF m that] assms(2) by (metis even_plus_one_iff)
    moreover have "m - 1 \<noteq> n + 1" if "bp_kind (t m) = TRICORE_BP_WATCH_HI"
      using old(2) [OF m that] assms(2) by auto
    moreover have "m - 1 \<noteq> n" using False by auto
    moreover have "m + 1 \<noteq> n + 1" using False by auto
    ultimately show ?thesis using old [OF m] False by auto
  qed
  then show ?thesis unfolding pairs_ok_def by blast
qed

lemma add_keeps_pairs:
  fixes s :: "'e tricore_scheme"
  assumes "pairs_ok (slots s core)" "kind \<noteq> TRICORE_BP_WATCH_HI"
  shows "pairs_ok (slots (final (tricore_bp_add D core addr kind) s) core)"
proof -
  let ?t = "slots s core"
  obtain r s' where r: "run (tricore_bp_add D core addr kind) s = (r, s')" by (metis surj_pair)
  have "pairs_ok (add_slot ?t addr kind)" if "0 \<le> free_slot ?t"
    using free_slot_cases [of ?t]
  proof cases
    case 2
    then show ?thesis unfolding add_slot_def
      by (intro pairs_ok_single assms) (use assms(2) in \<open>auto simp: watch_pair_def free_bp_def\<close>)
  qed (use that in simp)
  then show ?thesis using bp_add_table [OF r] r assms by (auto simp: table_step_def final_def)
qed

lemma watch_keeps_pairs:
  fixes s :: "'e tricore_scheme"
  assumes "pairs_ok (slots s core)"
  shows "pairs_ok (slots (final (tricore_bp_add_watch D core addr sz rd wr) s) core)"
proof -
  let ?t = "slots s core"
  obtain r s' where r: "run (tricore_bp_add_watch D core addr sz rd wr) s = (r, s')" by (metis surj_pair)
  let ?bp = "\<lparr>bp_addr = addr, bp_size = sz, bp_kind = TRICORE_BP_WATCH, bp_on_read = rd, bp_on_write = wr\<rparr>"
  have pair: "pairs_ok (?t(free_pair ?t := ?bp, free_pair ?t + 1 := free_bp\<lparr>bp_addr := addr + sz, bp_kind := TRICORE_BP_WATCH_HI\<rparr>))"
    if "sz > 1" "0 \<le> free_pair ?t"
    using free_pair_cases [of ?t]
  proof cases
    case 2
    then show ?thesis by (intro pairs_ok_pair assms) (use that in \<open>auto simp: watch_pair_def free_bp_def\<close>)
  qed (use that in simp)
  have single: "pairs_ok (?t(free_slot ?t := ?bp))" if "\<not> sz > 1" "0 \<le> free_slot ?t"
    using free_slot_cases [of ?t]
  proof cases
    case 2
    then show ?thesis by (intro pairs_ok_single assms) (use that in \<open>auto simp: watch_pair_def free_bp_def\<close>)
  qed (use that in simp)
  show ?thesis
    using bp_add_watch_table [OF r] r assms pair single
    by (auto simp: table_step_def final_def Let_def split: if_split_asm)
qed

lemma clear_slots:
  fixes s :: "'e tricore_scheme"
  shows "slots (final (tricore_bp_clear_kind D core kind) s) core =
    (if tricore_core_ok core s then without_kind (slots s core) kind else slots s core)"
    "tricore_core_ok core (final (tricore_bp_clear_kind D core kind) s) = tricore_core_ok core s"
proof -
  obtain r s' where r: "run (tricore_bp_clear_kind D core kind) s = (r, s')" by (metis surj_pair)
  show "slots (final (tricore_bp_clear_kind D core kind) s) core =
    (if tricore_core_ok core s then without_kind (slots s core) kind else slots s core)"
    "tricore_core_ok core (final (tricore_bp_clear_kind D core kind) s) = tricore_core_ok core s"
    using bp_clear_kind_table [OF r] r
    by (cases "tricore_core_ok core s"; auto simp: table_step_def final_def tricore_core_ok_def
        tricore_bp_clear_kind_def if_do_def split: if_split_asm)+
qed

lemma final_then: "final (do { m; k }) s = final k (final m s)"
  by (simp add: final_def split: prod.split)

text \<open>The only kind whose clearing alone can tear a range is the range's own, \<open>TRICORE_BP_WATCH\<close>.\<close>

lemma clear_keeps_pairs:
  fixes s :: "'e tricore_scheme"
  assumes "pairs_ok (slots s core)"
  shows "kind \<in> {TRICORE_BP_USER, TRICORE_BP_STEP} \<Longrightarrow>
      pairs_ok (slots (final (tricore_bp_clear_kind D core kind) s) core)"
    "pairs_ok (slots (final (do { tricore_bp_clear_kind D core TRICORE_BP_WATCH;
      tricore_bp_clear_kind D core TRICORE_BP_WATCH_HI }) s) core)"
proof -
  show "pairs_ok (slots (final (tricore_bp_clear_kind D core kind) s) core)"
    if "kind \<in> {TRICORE_BP_USER, TRICORE_BP_STEP}"
    using assms that unfolding clear_slots(1) pairs_ok_def without_kind_def
    by (auto simp: watch_pair_def free_bp_def)
  have "pairs_ok (without_kind (without_kind (slots s core) TRICORE_BP_WATCH) TRICORE_BP_WATCH_HI)"
    unfolding pairs_ok_def without_kind_def by (auto simp: watch_pair_def free_bp_def)
  then show "pairs_ok (slots (final (do { tricore_bp_clear_kind D core TRICORE_BP_WATCH;
      tricore_bp_clear_kind D core TRICORE_BP_WATCH_HI }) s) core)"
    using assms by (simp add: clear_slots final_then)
qed

lemma remove_keeps_pairs:
  fixes s :: "'e tricore_scheme" and addr :: u32 and core :: int
  defines "slot \<equiv> slot_of_addr (slots s core) addr"
  assumes ok: "pairs_ok (slots s core)"
    and hi: "0 \<le> slot \<longrightarrow> bp_kind (slots s core slot) \<noteq> TRICORE_BP_WATCH_HI"
  shows "pairs_ok (slots (final (tricore_bp_remove D core addr) s) core)"
proof (cases "tricore_core_ok core s")
  case True
  let ?t = "slots s core"
  obtain r s' where r: "run (tricore_bp_remove D core addr) s = (r, s')" by (metis surj_pair)
  have free: "\<not> watch_pair free_bp" "bp_kind free_bp = TRICORE_BP_FREE" by (simp_all add: watch_pair_def free_bp_def)
  have "pairs_ok (remove_slot ?t (slot_of_addr ?t addr))" if "0 \<le> slot_of_addr ?t addr"
    using slot_of_addr_cases [of ?t addr]
  proof cases
    case 2
    show ?thesis
    proof (cases "watch_pair (?t (slot_of_addr ?t addr))")
      case True
      then have "even (slot_of_addr ?t addr)" using ok 2 unfolding pairs_ok_def by blast
      moreover from this have "slot_of_addr ?t addr + 1 < 8" using 2 by presburger
      ultimately show ?thesis using True ok 2 free
        unfolding remove_slot_def by (auto simp: watch_pair_def TRICORE_NUM_TRIGGERS_def intro!: pairs_ok_pair)
    next
      case False
      then show ?thesis using hi ok free that unfolding remove_slot_def slot_def
        by (auto simp: watch_pair_def intro!: pairs_ok_single)
    qed
  qed (use that in simp)
  then show ?thesis using bp_remove_table [OF r True] r ok by (auto simp: table_step_def final_def Let_def)
next
  case False
  then show ?thesis using ok by (simp add: tricore_bp_remove_def final_def)
qed

lemma remove_tears:
  fixes s :: "'e tricore_scheme" and addr :: u32 and core :: int
  defines "slot \<equiv> slot_of_addr (slots s core) addr"
  assumes ok: "pairs_ok (slots s core)" "tricore_core_ok core s"
    and hit: "0 \<le> slot" "bp_kind (slots s core slot) = TRICORE_BP_WATCH_HI"
  shows "\<not> pairs_ok (slots (final (tricore_bp_remove D core addr) s) core)"
proof -
  let ?t = "slots s core" and ?n = "slot"
  have n: "?n < 8" using slot_of_addr_cases [of ?t addr] hit(1) unfolding slot_def by (cases, auto)
  obtain r s' where r: "run (tricore_bp_remove D core addr) s = (r, s')" by (metis surj_pair)
  have odd: "odd ?n" "watch_pair (?t (?n - 1))" using ok(1) n hit unfolding pairs_ok_def by blast+
  from odd(1) have below: "0 \<le> ?n - 1" "?n - 1 < 8" using n hit(1) by presburger+
  have "slots s' core = ?t(?n := free_bp)"
    using bp_remove_table [OF r ok(2)] hit by (auto simp: slot_def table_step_def remove_slot_def watch_pair_def)
  then have "watch_pair (slots s' core (?n - 1))" "bp_kind (slots s' core (?n - 1 + 1)) = TRICORE_BP_FREE"
    using odd by (simp_all add: free_bp_def)
  then have "\<not> pairs_ok (slots s' core)"
    using below unfolding pairs_ok_def by (auto intro!: exI [of _ "slot - 1"])
  then show ?thesis using r by (simp add: final_def)
qed



text \<open>Removing at the end address of a range watchpoint tears it: the lower half stays, without its
  upper bound. The caller is any breakpoint command at that address.\<close>

lemma range_pair_torn:
  fixes s :: tricore
  defines "s \<equiv> tc0\<lparr>slots := \<lambda>_. (\<lambda>_. free_bp)
    (0 := \<lparr>bp_addr = 0x70000000, bp_size = 4, bp_kind = TRICORE_BP_WATCH, bp_on_read = False, bp_on_write = True\<rparr>,
     1 := free_bp\<lparr>bp_addr := 0x70000004, bp_kind := TRICORE_BP_WATCH_HI\<rparr>)\<rparr>"
  shows "pairs_ok (slots s 0) \<and> \<not> pairs_ok (slots (final (tricore_bp_remove D 0 0x70000004) s) 0)"
proof -
  have ok: "pairs_ok (slots s 0)" by (auto simp: s_def pairs_ok_def watch_pair_def free_bp_def)
  obtain r s' where r: "run (tricore_bp_remove D 0 0x70000004) s = (r, s')" by (metis surj_pair)
  have "slot_of_addr (slots s 0) 0x70000004 = 1" by (simp add: s_def slot_of_addr_def all_slots_def free_bp_def)
  moreover have "tricore_core_ok 0 s" by (simp add: s_def tc0_def tricore_core_ok_def TRICORE_MAX_CORES_def)
  ultimately have "slots s' 0 = (slots s 0)(1 := free_bp)"
    using bp_remove_table [OF r] by (simp add: Let_def table_step_def remove_slot_def s_def free_bp_def)
  then have "watch_pair (slots s' 0 0)" "bp_kind (slots s' 0 (0 + 1)) \<noteq> TRICORE_BP_WATCH_HI"
    by (simp_all add: s_def watch_pair_def free_bp_def)
  then have "\<not> pairs_ok (slots s' 0)" unfolding pairs_ok_def by (metis (full_types) order.refl zero_less_numeral)
  then show ?thesis using ok r by (simp add: final_def)
qed

text \<open>A breakpoint is never live on a stale address. When \<open>tricore_bp_add\<close> takes a new slot it has
  commanded the slot's address and then its event, nothing else, and the table names the slot; an
  address already in the table commands nothing and returns its slot; and when it reports failure
  the table is as before.\<close>

theorem bp_add_arms:
  fixes s :: "'e tricore_scheme" and core :: int
  defines "t \<equiv> slots s core"
  shows "let r = result (tricore_bp_add D core addr kind) s; s' = final (tricore_bp_add D core addr kind) s
    in if r < 0 then slots s' = slots s
       else if slot_of_addr t addr \<ge> 0 then r = slot_of_addr t addr \<and> s' = s
       else blog s' = (tricore_core_reg core (OFF_TR_EVT r), TREVT_HALT_ON_ADDR) #
              (tricore_core_reg core (OFF_TR_ADR r), addr) # blog s \<and>
            r < TRICORE_NUM_TRIGGERS \<and> bp_kind (t r) = TRICORE_BP_FREE \<and>
            slots s' = (slots s)(core := t(r := free_bp\<lparr>bp_addr := addr, bp_kind := kind\<rparr>))"
proof -
  obtain r s' where r: "run (tricore_bp_add D core addr kind) s = (r, s')" by (metis surj_pair)
  have tab: "slots s' = slots s \<and> (r = -1 \<or> r = slot_of_addr t addr \<and> r \<ge> 0 \<and> s' = s) \<or>
    slots s' = (slots s)(core := add_slot t addr kind) \<and> r = free_slot t \<and> 0 \<le> r \<and> slot_of_addr t addr < 0"
    using bp_add_table [OF r] unfolding table_step_def t_def by auto
  have new: "blog s' = (tricore_core_reg core (OFF_TR_EVT r), TREVT_HALT_ON_ADDR) #
      (tricore_core_reg core (OFF_TR_ADR r), addr) # blog s" if "0 \<le> r" "slot_of_addr t addr < 0"
  proof -
    let ?sl = "free_slot t"
    obtain e s1 where s1: "run (tricore_wr D core (OFF_TR_ADR ?sl) addr) s = (e, s1)" by (metis surj_pair)
    obtain e2 s2 where s2: "run (tricore_wr D core (OFF_TR_EVT ?sl) TREVT_HALT_ON_ADDR) s1 = (e2, s2)" by (metis surj_pair)
    have "e = ESP_OK" "e2 = ESP_OK" "hist s' = hist s2" "r = ?sl"
      using r that s1 s2
      by (auto simp: tricore_bp_add_def tricore_set_code_trigger_def Let_def t_def set_slot_def split: if_split_asm prod.splits)
    then show ?thesis
      using write32_effect [OF s1 [unfolded tricore_wr_def]] write32_effect [OF s2 [unfolded tricore_wr_def]] by simp
  qed
  show ?thesis
  proof (cases "0 \<le> r \<and> slot_of_addr t addr < 0")
    case True
    with tab have "slots s' = (slots s)(core := add_slot t addr kind)" "r = free_slot t" by auto
    moreover have "r < TRICORE_NUM_TRIGGERS \<and> bp_kind (t r) = TRICORE_BP_FREE"
      using free_slot_cases [of t] True calculation(2) by (metis TRICORE_NUM_TRIGGERS_def neg_0_le_iff_le not_one_le_zero)
    ultimately show ?thesis using True new r by (auto simp: result_def final_def add_slot_def Let_def)
  next
    case False
    then show ?thesis using tab r by (auto simp: result_def final_def Let_def)
  qed
qed

section \<open>The single step\<close>

text \<open>A frame for what leaves the table and the set of cores alone.\<close>

definition keeps_table :: "'e tricore_scheme \<Rightarrow> 'e tricore_scheme \<Rightarrow> bool" where
  "keeps_table s s' \<longleftrightarrow> slots s' = slots s \<and> present s' = present s"

interpretation keeps_table: preorder_frame "keeps_table :: 'e tricore_scheme \<Rightarrow> 'e tricore_scheme \<Rightarrow> bool"
  by unfold_locales (auto simp: keeps_table_def)

lemma unchanged_keeps_table: "rel unchanged m \<Longrightarrow> rel keeps_table m"
  by (erule rel_mono) (simp add: keeps_table_def unchanged_present)

lemma unchanged_mem [unchanged_frame]:
  "rel unchanged (read_mem_loop D addr n buf :: ('e tricore_scheme, esp_err \<times> u8 list) state)"
  "rel unchanged (tricore_write_mem D addr bs :: ('e tricore_scheme, esp_err) state)"
proof -
  show "rel unchanged (read_mem_loop D addr n buf :: ('e tricore_scheme, esp_err \<times> u8 list) state)"
    by (induction D addr n buf rule: read_mem_loop.induct, subst read_mem_loop.simps)
      (intro unchanged_frame; simp add: Let_def)
  show "rel unchanged (tricore_write_mem D addr bs :: ('e tricore_scheme, esp_err) state)"
    by (induction D addr bs rule: tricore_write_mem.induct, subst tricore_write_mem.simps)
      (intro unchanged_frame; simp add: Let_def)
qed

lemma unchanged_regs [unchanged_frame]:
  "rel unchanged (tricore_read_reg D core n v :: ('e tricore_scheme, esp_err \<times> u32) state)"
  "rel unchanged (tricore_write_reg D core n v :: ('e tricore_scheme, esp_err) state)"
  "rel unchanged (tricore_read_mem D addr len :: ('e tricore_scheme, esp_err \<times> u8 list) state)"
  unfolding tricore_read_reg_def tricore_write_reg_def require_halted_def tricore_read_mem_def
  by (intro unchanged_frame)+

lemma unchanged_regs2 [unchanged_frame]:
  "rel unchanged (tricore_read_pc D core v :: ('e tricore_scheme, esp_err \<times> u32) state)"
  "rel unchanged (tricore_read_a D core n v :: ('e tricore_scheme, esp_err \<times> u32) state)"
  "rel unchanged (tricore_request_resume D core :: ('e tricore_scheme, esp_err) state)"
  "rel unchanged (tricore_wait_halted D core want t :: ('e tricore_scheme, bool) state)"
  unfolding tricore_read_pc_def tricore_read_a_def tricore_request_resume_def tricore_wait_halted_def
  by (intro unchanged_frame)+

lemma unchanged_decode [unchanged_frame]:
  "rel unchanged (decode_successors D core pc raw :: ('e tricore_scheme, u32 \<times> u32 option) state)"
  unfolding decode_successors_def target_from_a_def Let_def by (intro unchanged_frame)

lemma keeps_table_halt:
  "rel keeps_table (tricore_halt D core line t :: ('e tricore_scheme, esp_err) state)"
proof -
  have m: "rel keeps_table (modify (\<lambda>s. s\<lparr>halt_line := f s\<rparr>) :: ('e tricore_scheme, unit) state)"
    "rel keeps_table (modify (\<lambda>s. s\<lparr>halt_tlc := g s\<rparr>) :: ('e tricore_scheme, unit) state)" for f g
    by (simp_all add: rel_def keeps_table_def)
  show ?thesis
    unfolding tricore_halt_def tricore_halt_request_def release_line_def disarm_other_def
    by (intro keeps_table.rules m unchanged_keeps_table [OF unchanged_rd(1)] unchanged_keeps_table [OF unchanged_rd(2)]
        unchanged_keeps_table [OF unchanged_dbgsr(2)] unchanged_keeps_table [OF unchanged_regs2(4)]
        unchanged_keeps_table [OF read32_rules(2)] unchanged_keeps_table [OF write32_rules(2)]
        unchanged_keeps_table [OF unchanged_core_started])
qed

lemma prompt_regs [prompt_frame]:
  "rel prompt (read_mem_loop D addr n buf)" "rel prompt (tricore_write_mem D addr bs)"
  "rel prompt (tricore_read_reg D core rn v)" "rel prompt (tricore_set_code_trigger D core slot addr)"
  "rel prompt (tricore_clear_trigger D core slot)" "rel prompt (set_slot core sl bp)"
proof -
  show "rel prompt (read_mem_loop D addr n buf)"
    by (induction D addr n buf rule: read_mem_loop.induct, subst read_mem_loop.simps)
      (intro prompt_frame; simp add: Let_def)
  show "rel prompt (tricore_write_mem D addr bs)"
    by (induction D addr bs rule: tricore_write_mem.induct, subst tricore_write_mem.simps)
      (intro prompt_frame; simp add: Let_def)
  show "rel prompt (tricore_read_reg D core rn v)" "rel prompt (tricore_set_code_trigger D core slot addr)"
    "rel prompt (tricore_clear_trigger D core slot)"
    unfolding tricore_read_reg_def require_halted_def tricore_set_code_trigger_def tricore_clear_trigger_def
      tricore_rd_def tricore_wr_def
    by (intro prompt_frame)+
  show "rel prompt (set_slot core sl bp)" by (simp add: set_slot_def rel_def prompt_def)
qed

lemma prompt_bp [prompt_frame]:
  "rel prompt (tricore_bp_add D core addr kind)" "rel prompt (tricore_bp_remove D core addr)"
  "rel prompt (tricore_bp_clear_kind D core kind)" "rel prompt (decode_successors D core pc raw)"
  "rel prompt (tricore_read_pc D core v)" "rel prompt (tricore_read_mem D addr n)"
  unfolding tricore_bp_add_def tricore_bp_remove_def tricore_bp_clear_kind_def clear_kind_slot_def
    decode_successors_def target_from_a_def tricore_read_a_def tricore_read_pc_def tricore_read_mem_def Let_def
  by (intro prompt_frame)+

lemma prompt_step: "polls_for D (max (uint t) 200) \<Longrightarrow> rel prompt (tricore_step D core t)"
  unfolding tricore_step_def arm_step_def finish_step_def lift_trigger_def Let_def
  by (intro prompt_frame; erule polls_mono, simp)

definition user_addrs :: "(int \<Rightarrow> tricore_bp) \<Rightarrow> u32 set" where
  "user_addrs t = {bp_addr (t n) |n. 0 \<le> n \<and> n < 8 \<and> bp_kind (t n) = TRICORE_BP_USER}"

definition has_kind :: "(int \<Rightarrow> tricore_bp) \<Rightarrow> tricore_bp_kind \<Rightarrow> bool" where
  "has_kind t kind \<longleftrightarrow> (\<exists>n. 0 \<le> n \<and> n < 8 \<and> bp_kind (t n) = kind)"

definition distinct_addrs :: "(int \<Rightarrow> tricore_bp) \<Rightarrow> bool" where
  "distinct_addrs t \<longleftrightarrow> (\<forall>m n. 0 \<le> m \<and> m < 8 \<and> 0 \<le> n \<and> n < 8 \<and> bp_kind (t m) \<noteq> TRICORE_BP_FREE \<and>
     bp_kind (t n) \<noteq> TRICORE_BP_FREE \<and> bp_addr (t m) = bp_addr (t n) \<longrightarrow> m = n)"

text \<open>Two tables with the same breakpoints.\<close>

definition same_bps :: "(int \<Rightarrow> tricore_bp) \<Rightarrow> (int \<Rightarrow> tricore_bp) \<Rightarrow> bool" where
  "same_bps t t' \<longleftrightarrow> (\<forall>n. 0 \<le> n \<and> n < 8 \<longrightarrow> t' n = t n \<or> bp_kind (t n) = TRICORE_BP_FREE \<and> bp_kind (t' n) = TRICORE_BP_FREE)"

lemma same_bps_trans: "same_bps t t' \<Longrightarrow> same_bps t' t'' \<Longrightarrow> same_bps t t''"
  unfolding same_bps_def by (metis (full_types))

lemma same_bps_user: "same_bps t t' \<Longrightarrow> user_addrs t' = user_addrs t"
proof -
  assume s: "same_bps t t'"
  have "bp_kind (t' n) = TRICORE_BP_USER \<longleftrightarrow> bp_kind (t n) = TRICORE_BP_USER"
    "bp_kind (t n) = TRICORE_BP_USER \<Longrightarrow> t' n = t n" if "0 \<le> n" "n < 8" for n
    using s that unfolding same_bps_def by (metis tricore_bp_kind.distinct(1))+
  then show ?thesis unfolding user_addrs_def by (metis (no_types, lifting))
qed

lemma without_kind_no: "kind \<noteq> TRICORE_BP_FREE \<Longrightarrow> \<not> has_kind (without_kind t kind) kind"
  by (auto simp: has_kind_def without_kind_def free_bp_def)

lemma without_step_user: "user_addrs (without_kind t TRICORE_BP_STEP) = user_addrs t"
proof -
  have "bp_kind (without_kind t TRICORE_BP_STEP n) = TRICORE_BP_USER \<longleftrightarrow> bp_kind (t n) = TRICORE_BP_USER"
    "bp_kind (t n) = TRICORE_BP_USER \<Longrightarrow> without_kind t TRICORE_BP_STEP n = t n" for n
    by (auto simp: without_kind_def free_bp_def)
  then show ?thesis unfolding user_addrs_def by (metis (no_types, lifting))
qed

lemma add_then_clear:
  assumes "\<not> has_kind t TRICORE_BP_STEP" "t' = t \<or> t' = add_slot t a TRICORE_BP_STEP \<and> 0 \<le> free_slot t"
    "t'' = t' \<or> t'' = add_slot t' b TRICORE_BP_STEP \<and> 0 \<le> free_slot t'"
  shows "same_bps t (without_kind t'' TRICORE_BP_STEP)"
proof -
  have add: "(0 \<le> n \<and> n < 8 \<longrightarrow> u' n = u n \<or> bp_kind (u n) = TRICORE_BP_FREE \<and> bp_kind (u' n) = TRICORE_BP_STEP)"
    if "u' = u \<or> u' = add_slot u a TRICORE_BP_STEP \<and> 0 \<le> free_slot u" for u u' a n
    using free_slot_cases [of u] that by cases (auto simp: add_slot_def split: if_split_asm)
  show ?thesis
    unfolding same_bps_def
  proof (intro allI impI)
    fix n :: int
    assume n: "0 \<le> n \<and> n < 8"
    have "bp_kind (t n) \<noteq> TRICORE_BP_STEP" using assms(1) n by (auto simp: has_kind_def)
    then show "without_kind t'' TRICORE_BP_STEP n = t n \<or>
        bp_kind (t n) = TRICORE_BP_FREE \<and> bp_kind (without_kind t'' TRICORE_BP_STEP n) = TRICORE_BP_FREE"
      using add [OF assms(2), of n] add [OF assms(3), of n] n by (auto simp: without_kind_def free_bp_def)
  qed
qed

lemma remove_slot_at:
  "remove_slot t k n \<noteq> t n \<Longrightarrow> remove_slot t k n = free_bp \<and> (n = k \<or> watch_pair (t k) \<and> n = k + 1)"
  by (auto simp: remove_slot_def watch_pair_def split: if_split_asm)

lemma remove_slot_same [simp]: "remove_slot t k k = free_bp"
  by (simp add: remove_slot_def)

text \<open>Lifting the trigger at the PC and putting it back keeps the user's breakpoints.\<close>

lemma lift_and_restore:
  assumes "distinct_addrs t" "pairs_ok t" "0 \<le> slot_of_addr t pc" "same_bps (remove_slot t (slot_of_addr t pc)) u"
  shows "slot_of_addr u pc < 0 \<and> 0 \<le> free_slot u \<and>
    user_addrs (add_slot u pc (bp_kind (t (slot_of_addr t pc)))) = user_addrs t"
proof -
  let ?k = "slot_of_addr t pc"
  have k: "0 \<le> ?k" "?k < 8" "bp_kind (t ?k) \<noteq> TRICORE_BP_FREE" "bp_addr (t ?k) = pc"
    using slot_of_addr_cases [of t pc] assms(3) by auto
  have u: "u n = t n \<and> n \<noteq> ?k" if "0 \<le> n" "n < 8" "bp_kind (u n) \<noteq> TRICORE_BP_FREE" for n
    using assms(4) that remove_slot_at [of t ?k n] unfolding same_bps_def
    by (metis free_bp_def remove_slot_same tricore_bp.select_convs(3))
  have kept: "u n = t n" if "0 \<le> n" "n < 8" "bp_kind (t n) = TRICORE_BP_USER" "n \<noteq> ?k" for n
  proof -
    have "remove_slot t ?k n = t n"
    proof (rule ccontr)
      assume "remove_slot t ?k n \<noteq> t n"
      then have "watch_pair (t ?k)" "n = ?k + 1" using remove_slot_at that(4) by blast+
      then have "bp_kind (t n) = TRICORE_BP_WATCH_HI" using assms(2) k unfolding pairs_ok_def by blast
      then show False using that(3) by simp
    qed
    then show ?thesis using assms(4) that unfolding same_bps_def by (metis tricore_bp_kind.distinct(1))
  qed
  have gone: "slot_of_addr u pc < 0"
    using slot_of_addr_cases [of u pc]
  proof cases
    case 2
    then show ?thesis using u [OF 2(1,2,3)] assms(1) k unfolding distinct_addrs_def by metis
  qed simp
  have "bp_kind (u ?k) = TRICORE_BP_FREE" using u [OF k(1,2)] by blast
  then have free: "0 \<le> free_slot u" using free_slot_cases [of u] k by metis
  then have f: "free_slot u < 8" "bp_kind (u (free_slot u)) = TRICORE_BP_FREE"
    using free_slot_cases [of u] by auto
  let ?v = "add_slot u pc (bp_kind (t ?k))"
  have "user_addrs ?v = user_addrs t"
  proof (rule set_eqI)
    fix a
    show "a \<in> user_addrs ?v \<longleftrightarrow> a \<in> user_addrs t"
    proof
      assume "a \<in> user_addrs ?v"
      then obtain n where n: "0 \<le> n" "n < 8" "bp_kind (?v n) = TRICORE_BP_USER" "a = bp_addr (?v n)"
        unfolding user_addrs_def by blast
      show "a \<in> user_addrs t"
      proof (cases "n = free_slot u")
        case True
        then have "a = pc" "bp_kind (t ?k) = TRICORE_BP_USER" using n by (auto simp: add_slot_def)
        then show ?thesis unfolding user_addrs_def using k by (auto intro!: exI [of _ ?k])
      next
        case False
        then have "?v n = t n" using n u [of n] by (auto simp: add_slot_def)
        then show ?thesis unfolding user_addrs_def using n by (metis (mono_tags, lifting) mem_Collect_eq)
      qed
    next
      assume "a \<in> user_addrs t"
      then obtain n where n: "0 \<le> n" "n < 8" "bp_kind (t n) = TRICORE_BP_USER" "a = bp_addr (t n)"
        unfolding user_addrs_def by blast
      show "a \<in> user_addrs ?v"
      proof (cases "n = ?k")
        case True
        then have "?v (free_slot u) = free_bp\<lparr>bp_addr := a, bp_kind := TRICORE_BP_USER\<rparr>"
          using n k by (simp add: add_slot_def)
        then show ?thesis unfolding user_addrs_def using free f(1) by force
      next
        case False
        then have "?v n = t n" using kept [OF n(1-3)] f(2) n(3) by (auto simp: add_slot_def)
        then show ?thesis unfolding user_addrs_def using n by (metis (mono_tags, lifting) mem_Collect_eq)
      qed
    qed
  qed
  then show ?thesis using gone free by blast
qed

lemma faultless_bp_add:
  fixes s :: "'e tricore_scheme"
  assumes "faultless D" "tricore_core_ok core s" "slot_of_addr (slots s core) addr < 0" "0 \<le> free_slot (slots s core)"
    "run (tricore_bp_add D core addr kind) s = (r, s')"
  shows "table_step core (add_slot (slots s core) addr kind) s s'"
proof -
  have "0 \<le> free_slot (slots s core)" "free_slot (slots s core) < 8" using assms(4) free_slot_cases [of "slots s core"] by auto
  then have w: "fst (run (tricore_set_code_trigger D core (free_slot (slots s core)) addr) s) = ESP_OK"
    using faultless_write32 [OF assms(1)] assms(2)
    by (auto simp: tricore_set_code_trigger_def tricore_wr_def bad_slot_def TRICORE_NUM_TRIGGERS_def split: prod.split)
      (metis fst_conv)
  obtain s1 where s1: "run (tricore_set_code_trigger D core (free_slot (slots s core)) addr) s = (ESP_OK, s1)"
    using w by (metis prod.collapse)
  have "s' = s1\<lparr>slots := (slots s1)(core := (slots s1 core)(free_slot (slots s core) := free_bp\<lparr>bp_addr := addr, bp_kind := kind\<rparr>))\<rparr>"
    using assms s1 by (auto simp: tricore_bp_add_def Let_def set_slot_def)
  then show ?thesis
    using unchanged_table [OF relD [OF unchanged_triggers(1) s1]] by (simp add: table_step_def add_slot_def)
qed

lemma add_step_table:
  fixes s :: "'e tricore_scheme"
  assumes "run (tricore_bp_add D core addr TRICORE_BP_STEP) s = (r, s')"
  shows "present s' = present s \<and> (slots s' core = slots s core \<or>
    slots s' core = add_slot (slots s core) addr TRICORE_BP_STEP \<and> 0 \<le> free_slot (slots s core))"
  using bp_add_table [OF assms] by (auto simp: table_step_def)

lemma finish_step_table:
  fixes s :: "'e tricore_scheme"
  assumes "run (finish_step D core pc evicted out) s = ((err, out'), s')" "tricore_core_ok core s"
    "\<And>e. evicted = Some e \<Longrightarrow> snd e \<noteq> TRICORE_BP_STEP"
  defines "t \<equiv> without_kind (slots s core) TRICORE_BP_STEP"
  shows "\<not> has_kind (slots s' core) TRICORE_BP_STEP \<and> (evicted = None \<longrightarrow> slots s' core = t) \<and>
    (\<forall>e. evicted = Some e \<and> faultless D \<and> slot_of_addr t (fst e) < 0 \<and> 0 \<le> free_slot t \<longrightarrow>
      slots s' core = add_slot t (fst e) (snd e))"
proof -
  obtain s1 where s1: "run (tricore_bp_clear_kind D core TRICORE_BP_STEP) s = ((), s1)"
    by (cases "run (tricore_bp_clear_kind D core TRICORE_BP_STEP) s") auto
  have t1: "slots s1 core = t" "present s1 = present s"
    using bp_clear_kind_table [OF s1 assms(2)] by (simp_all add: t_def table_step_def)
  obtain s2 where s2: "run (case evicted of None \<Rightarrow> skip | Some e \<Rightarrow> do { tricore_bp_add D core (fst e) (snd e); skip }) s1 = ((), s2)"
    by (cases "run (case evicted of None \<Rightarrow> skip | Some e \<Rightarrow> do { tricore_bp_add D core (fst e) (snd e); skip }) s1") auto
  obtain e3 v3 s3 where s3: "run (tricore_read_pc D core 0) s2 = ((e3, v3), s3)" by (metis prod_cases3 surj_pair)
  have "s' = s3" using assms(1) s1 s2 s3 by (simp add: finish_step_def Let_def)
  then have t3: "slots s' core = slots s2 core"
    using unchanged_present [OF relD [OF unchanged_regs2(1) s3]] by simp
  have nt: "\<not> has_kind t TRICORE_BP_STEP" unfolding t_def by (rule without_kind_no) simp
  show ?thesis
  proof (cases evicted)
    case None
    then show ?thesis using s2 t1 t3 nt by simp
  next
    case (Some e)
    then obtain r where r: "run (tricore_bp_add D core (fst e) (snd e)) s1 = (r, s2)"
      using s2 by (auto split: prod.splits)
    have tab: "slots s2 core = t \<or> slots s2 core = add_slot t (fst e) (snd e)"
      using bp_add_table [OF r] t1(1) by (auto simp: table_step_def)
    have "\<not> has_kind (add_slot t (fst e) (snd e)) TRICORE_BP_STEP"
      using nt assms(3) [OF Some] by (auto simp: has_kind_def add_slot_def)
    then have "\<not> has_kind (slots s' core) TRICORE_BP_STEP"
      using tab nt unfolding t3 by auto
    moreover have "slots s' core = add_slot t (fst e) (snd e)"
      if "faultless D" "slot_of_addr t (fst e) < 0" "0 \<le> free_slot t"
    proof -
      have "tricore_core_ok core s1" using assms(2) t1(2) by (simp add: tricore_core_ok_def)
      then show ?thesis
        using faultless_bp_add [OF that(1) _ _ _ r] that(2,3) unfolding t3 table_step_def t1 by simp
    qed
    ultimately show ?thesis using Some by auto
  qed
qed

lemma lift_trigger_table:
  fixes s :: "'e tricore_scheme"
  assumes "run (lift_trigger D core pc) s = (evicted, s')" "tricore_core_ok core s"
    "\<not> has_kind (slots s core) TRICORE_BP_STEP"
  shows "present s' = present s \<and>
    (evicted = None \<and> slots s' core = slots s core \<or>
     (let k = slot_of_addr (slots s core) pc
      in 0 \<le> k \<and> evicted = Some (pc, bp_kind (slots s core k)) \<and> bp_kind (slots s core k) \<noteq> TRICORE_BP_STEP \<and>
         slots s' core = remove_slot (slots s core) k))"
proof -
  let ?t = "slots s core"
  show ?thesis
  proof (cases "slot_of_addr ?t pc < 0")
    case True
    then show ?thesis using assms by (simp add: lift_trigger_def tricore_bp_at_def)
  next
    case False
    then have k: "0 \<le> slot_of_addr ?t pc" "slot_of_addr ?t pc < 8" "bp_addr (?t (slot_of_addr ?t pc)) = pc"
      using slot_of_addr_cases [of ?t pc] by auto
    have step: "bp_kind (?t (slot_of_addr ?t pc)) \<noteq> TRICORE_BP_STEP" using assms(3) k unfolding has_kind_def by blast
    obtain r s1 where r: "run (tricore_bp_remove D core pc) s = (r, s1)" by (metis surj_pair)
    with assms(1,2) False step k have "evicted = Some (pc, bp_kind (?t (slot_of_addr ?t pc)))" "s' = s1"
      by (auto simp: lift_trigger_def tricore_bp_at_def Let_def)
    then show ?thesis
      using bp_remove_table [OF r assms(2)] k step by (auto simp: Let_def table_step_def)
  qed
qed

lemma remove_slot_no_kind:
  "\<not> has_kind t kind \<Longrightarrow> kind \<noteq> TRICORE_BP_FREE \<Longrightarrow> \<not> has_kind (remove_slot t k) kind"
  unfolding has_kind_def using remove_slot_at [of t k] by (metis free_bp_def tricore_bp.select_convs(3))

lemma arm_step_table:
  fixes s :: "'e tricore_scheme"
  assumes "run (arm_step D core pc fall target) s = ((evicted, out), s')" "tricore_core_ok core s"
  defines "t \<equiv> without_kind (slots s core) TRICORE_BP_STEP"
  shows "present s' = present s \<and> (\<forall>e. evicted = Some e \<longrightarrow> snd e \<noteq> TRICORE_BP_STEP) \<and>
    (evicted = None \<and> same_bps t (without_kind (slots s' core) TRICORE_BP_STEP) \<or>
     (let k = slot_of_addr t pc
      in 0 \<le> k \<and> evicted = Some (pc, bp_kind (t k)) \<and>
         same_bps (remove_slot t k) (without_kind (slots s' core) TRICORE_BP_STEP)))"
proof -
  obtain s1 where s1: "run (tricore_bp_clear_kind D core TRICORE_BP_STEP) s = ((), s1)"
    by (cases "run (tricore_bp_clear_kind D core TRICORE_BP_STEP) s") auto
  have t1: "slots s1 core = t" "present s1 = present s"
    using bp_clear_kind_table [OF s1 assms(2)] by (simp_all add: t_def table_step_def)
  have nt: "\<not> has_kind t TRICORE_BP_STEP" unfolding t_def by (rule without_kind_no) simp
  obtain ev s2 where s2: "run (lift_trigger D core pc) s1 = (ev, s2)" by (metis surj_pair)
  have core1: "tricore_core_ok core s1" using assms(2) t1(2) by (simp add: tricore_core_ok_def)
  note lift = lift_trigger_table [OF s2 core1, unfolded t1(1), OF nt]
  obtain r3 s3 where s3: "run (tricore_bp_add D core fall TRICORE_BP_STEP) s2 = (r3, s3)" by (metis surj_pair)
  obtain r4 s4 where s4: "run (case target of None \<Rightarrow> ret 0
      | Some a \<Rightarrow> if a \<noteq> fall then tricore_bp_add D core a TRICORE_BP_STEP else ret 0) s3 = (r4, s4)" by (rule prod.exhaust)
  have e: "evicted = ev" "s' = s4" using assms(1) unfolding arm_step_def by (simp_all add: s1 s2 s3 s4)
  have no2: "\<not> has_kind (slots s2 core) TRICORE_BP_STEP"
    using lift nt remove_slot_no_kind [OF nt] by (auto simp: Let_def)
  obtain a where a: "present s4 = present s3 \<and> (slots s4 core = slots s3 core \<or>
      slots s4 core = add_slot (slots s3 core) a TRICORE_BP_STEP \<and> 0 \<le> free_slot (slots s3 core))"
  proof (cases "target = None \<or> target = Some fall")
    case True
    then have "s4 = s3" using s4 by auto
    then show ?thesis using that by blast
  next
    case False
    then obtain b where "target = Some b" "b \<noteq> fall" by auto
    then have "run (tricore_bp_add D core b TRICORE_BP_STEP) s3 = (r4, s4)" using s4 by simp
    from that [OF add_step_table [OF this]] show ?thesis .
  qed
  have "same_bps (slots s2 core) (without_kind (slots s4 core) TRICORE_BP_STEP)"
    by (rule add_then_clear [OF no2, of "slots s3 core" fall "slots s4 core" a])
      (use add_step_table [OF s3] a in blast)+
  then show ?thesis using lift t1(2) add_step_table [OF s3] a unfolding e by (auto simp: Let_def)
qed


lemma halted_good: "tricore_core_ok core s \<Longrightarrow> fst (run (tricore_is_halted (good_dev 2) core) s) = True"
  by (simp add: tricore_is_halted_def tricore_dbgsr_def numeral_3_eq_3 tricore_rd_def good_runs)

lemma read_pc_good:
  assumes "tricore_core_ok core s"
  shows "fst (run (tricore_read_pc (good_dev 2) core 0) s) = (ESP_OK, 2)"
proof -
  obtain s1 where s1: "run (tricore_is_halted (good_dev 2) core) s = (True, s1)"
    using halted_good [OF assms] by (metis prod.collapse)
  then show ?thesis
    using assms
    by (simp add: tricore_read_pc_def tricore_read_reg_def require_halted_def tricore_rd_def good_runs
        TRICORE_REG_PC_def TRICORE_NUM_REGS_def)
qed

lemma wait_halted_good:
  assumes "tricore_core_ok core s"
  shows "fst (run (tricore_wait_halted (good_dev 2) core True t) s) = True"
proof -
  have "tricore_core_ok core (s\<lparr>hist := h\<rparr>)" for h using assms by (simp add: tricore_core_ok_def)
  from halted_good [OF this [of "EvTime # hist s"]]
  obtain s1 where s1: "run (tricore_is_halted (good_dev 2) core) (s\<lparr>hist := EvTime # hist s\<rparr>) = (True, s1)"
    by (metis (full_types) prod.collapse)
  obtain m where "d_polls (good_dev 2) = Suc m" by (metis good_dev_def dev.select_convs(13) Suc_pred zero_less_power zero_less_numeral)
  then show ?thesis using s1 by (simp add: tricore_wait_halted_def esp_timer_get_time_def)
qed


end
