(* ===== verification/Triples.thy ===== *)
theory Triples
  imports Prelude
begin

text \<open>
  Hoare triples for the state monad: \<open>triple P m Q\<close> says that \<open>m\<close>, started in a state with \<open>P\<close>, ends
  with a result and a state in \<open>Q\<close>. Programs of this monad always return, so the triples are of
  total correctness. There is one rule per construct of the sources, and one (\<open>of_rel\<close>) that
  carries a frame through.
\<close>

definition triple :: "('s \<Rightarrow> bool) \<Rightarrow> ('s, 'r) state \<Rightarrow> ('r \<Rightarrow> 's \<Rightarrow> bool) \<Rightarrow> bool" where
  "triple P m Q \<longleftrightarrow> (\<forall>s. P s \<longrightarrow> (case run m s of (r, s') \<Rightarrow> Q r s'))"

lemma tripleI: "(\<And>s r s'. P s \<Longrightarrow> run m s = (r, s') \<Longrightarrow> Q r s') \<Longrightarrow> triple P m Q"
  by (auto simp: triple_def split: prod.split)

lemma tripleD: "triple P m Q \<Longrightarrow> P s \<Longrightarrow> run m s = (r, s') \<Longrightarrow> Q r s'"
  by (auto simp: triple_def)

lemma triple_final: "triple P m Q \<Longrightarrow> P s \<Longrightarrow> Q (result m s) (final m s)"
  by (auto simp: triple_def result_def final_def split: prod.splits)

named_theorems triples \<open>one rule per construct\<close>

lemma triple_bind [triples]: "triple P m R \<Longrightarrow> (\<And>x. triple (R x) (f x) Q) \<Longrightarrow> triple P (m \<bind> f) Q"
  unfolding triple_def by (simp split: prod.splits) (metis case_prod_conv)

lemma triple_return [triples]: "(\<And>s. P s \<Longrightarrow> Q x s) \<Longrightarrow> triple P (ret x) Q"
  by (simp add: triple_def)

lemma triple_gets [triples]: "(\<And>s. P s \<Longrightarrow> Q (f s) s) \<Longrightarrow> triple P (gets f) Q"
  by (simp add: triple_def)

lemma triple_modify [triples]: "(\<And>s. P s \<Longrightarrow> Q () (f s)) \<Longrightarrow> triple P (modify f) Q"
  by (simp add: triple_def)

lemma triple_if [triples]: "(b \<Longrightarrow> triple P m Q) \<Longrightarrow> (\<not> b \<Longrightarrow> triple P n Q) \<Longrightarrow> triple P (if b then m else n) Q"
  by simp

lemma triple_if_do [triples]:
  "(b \<Longrightarrow> triple P m Q) \<Longrightarrow> (\<And>s. \<not> b \<Longrightarrow> P s \<Longrightarrow> Q () s) \<Longrightarrow> triple P (if_do b m) Q"
  by (auto simp: if_do_def intro: triple_return)

lemma triple_let [triples]: "triple P (f x) Q \<Longrightarrow> triple P (Let x f) Q"
  by simp

lemma triple_case_prod [triples]:
  "(\<And>a b. p = (a, b) \<Longrightarrow> triple P (f a b) Q) \<Longrightarrow> triple P (case p of (a, b) \<Rightarrow> f a b) Q"
  by (cases p) simp

lemma triple_case_option [triples]:
  "(x = None \<Longrightarrow> triple P m Q) \<Longrightarrow> (\<And>a. x = Some a \<Longrightarrow> triple P (f a) Q) \<Longrightarrow>
   triple P (case x of None \<Rightarrow> m | Some a \<Rightarrow> f a) Q"
  by (cases x) simp_all

lemma triple_case_sum [triples]:
  "(\<And>a. x = Inl a \<Longrightarrow> triple P (f a) Q) \<Longrightarrow> (\<And>b. x = Inr b \<Longrightarrow> triple P (g b) Q) \<Longrightarrow>
   triple P (case x of Inl a \<Rightarrow> f a | Inr b \<Rightarrow> g b) Q"
  by (cases x) simp_all

lemma triple_weaken:
  "triple P' m Q' \<Longrightarrow> (\<And>s. P s \<Longrightarrow> P' s) \<Longrightarrow> (\<And>r s. Q' r s \<Longrightarrow> Q r s) \<Longrightarrow> triple P m Q"
  unfolding triple_def by fastforce

lemma triple_post: "triple P m Q' \<Longrightarrow> (\<And>r s. Q' r s \<Longrightarrow> Q r s) \<Longrightarrow> triple P m Q"
  by (rule triple_weaken)

lemma triple_conj: "triple P m Q \<Longrightarrow> triple P m Q' \<Longrightarrow> triple P m (\<lambda>r s. Q r s \<and> Q' r s)"
  by (auto simp: triple_def split: prod.splits)

lemma triple_ex: "(\<And>x. triple (P x) m Q) \<Longrightarrow> triple (\<lambda>s. \<exists>x. P x s) m Q"
  by (rule tripleI) (blast dest: tripleD)

lemma triple_ex_post: "triple P m (\<lambda>r. Q r x) \<Longrightarrow> triple P m (\<lambda>r s. \<exists>x. Q r x s)"
  by (erule triple_post) (rule exI)

lemma triple_pre: "triple P' m Q \<Longrightarrow> (\<And>s. P s \<Longrightarrow> P' s) \<Longrightarrow> triple P m Q"
  by (rule tripleI) (blast dest: tripleD)

text \<open>Reading what the assertion fixes.\<close>

lemma triple_known: "(\<And>s. P s \<Longrightarrow> f s = c) \<Longrightarrow> triple P (k c) Q \<Longrightarrow> triple P (gets f \<bind> k) Q"
  by (auto simp: triple_def)

lemma triple_const: "triple (\<lambda>_. False) m Q" "b \<Longrightarrow> triple P m (\<lambda>_ _. b)"
  by (simp_all add: triple_def)

lemma triple_false: "(\<And>s. P s \<Longrightarrow> False) \<Longrightarrow> triple P m Q"
  by (auto simp: triple_def)

text \<open>A frame carries every assertion that only depends on what it keeps.\<close>

lemma of_rel: "rel R m \<Longrightarrow> (\<And>s s' r. P s \<Longrightarrow> R s s' \<Longrightarrow> Q r s') \<Longrightarrow> triple P m Q"
  by (rule tripleI) (blast dest: relD)

lemma rel_of_triple: "(\<And>s0. triple (\<lambda>s. s = s0) m (\<lambda>_ s. R s0 s)) \<Longrightarrow> rel R m"
  by (rule relI) (blast dest: tripleD)

text \<open>Loops: an invariant over the list still to do.\<close>

lemma triple_for_each:
  assumes "\<And>x. x \<in> set xs \<Longrightarrow> triple I (f x) (\<lambda>_. I)"
  shows "triple I (for_each f xs) (\<lambda>_. I)"
  using assms by (induction xs) (auto intro!: triples)

lemma triple_for_ok:
  assumes "\<And>x. x \<in> set xs \<Longrightarrow> triple I (f x) (\<lambda>_. I)"
  shows "triple I (for_ok f xs) (\<lambda>_. I)"
  using assms by (induction xs) (auto intro!: triples)

lemma triple_for_acc:
  assumes "\<And>x a. x \<in> set xs \<Longrightarrow> triple (I a) (f x a) I"
  shows "triple (I a) (for_acc f xs a) I"
  using assms by (induction xs arbitrary: a) (auto intro!: triples)

end
