(* ===== verification/Link_Frame.thy ===== *)
theory Link_Frame
  imports Dap_Bus Triples
begin

unbundle bit_operations_syntax

text \<open>
  What every operation of the probe does to the history, as one more interface: the events it adds
  are all link traffic. A frame that link traffic keeps is kept by every operation of the probe;
  the locale proves that once, and a layer above interprets it for the frame it needs.
\<close>

section \<open>Link traffic\<close>

text \<open>Everything but the settings of the fabric and the calls of the operating system.\<close>

fun traffic :: "phy_ev \<Rightarrow> bool" where
  "traffic EvFpgaAttach = False"
| "traffic (EvFpgaSetDiv d) = False"
| "traffic (EvFpgaUse b) = False"
| "traffic (EvSetRawWindow b) = False"
| "traffic (EvSetTrst b) = False"
| "traffic (EvPhyTrst b) = False"
| "traffic (EvSetSkew a b) = False"
| "traffic (EvSetRxWide b) = False"
| "traffic (EvSetWide b) = False"
| "traffic (EvSetFast b) = False"
| "traffic (EvSetFastTiming l a b) = False"
| "traffic (EvAlloc n) = False"
| "traffic EvTaskCreate = False"
| "traffic EvTaskGone = False"
| "traffic _ = True"

fun block_read :: "phy_ev \<Rightarrow> bool" where
  "block_read (EvBlockread p n c) = True"
| "block_read (EvBlockreadChain bs) = True"
| "block_read _ = False"

text \<open>\<open>word_frame\<close>: kept by word traffic; \<open>link_frame\<close>: by block reads as well.\<close>

locale word_frame = preorder_frame R for R :: "'e probe_scheme \<Rightarrow> 'e probe_scheme \<Rightarrow> bool" +
  assumes R_traffic: "traffic e \<Longrightarrow> \<not> block_read e \<Longrightarrow> R s (s\<lparr>hist := e # hist s\<rparr>)"
    and R_link: "R s (s\<lparr>trailer_bits := t\<rparr>)" "R s (max_wait_update f s)" "R s (s\<lparr>hung := b\<rparr>)"
begin

lemma link_emit: "traffic e \<Longrightarrow> \<not> block_read e \<Longrightarrow> rel R (emit e)"
  "traffic e \<Longrightarrow> \<not> block_read e \<Longrightarrow> rel R (ask e f)" "rel R (sense g)"
  by (simp_all add: rel_def R_traffic R_refl)

lemma link_fields: "rel R (modify (\<lambda>s. s\<lparr>trailer_bits := g s\<rparr>))" "rel R (modify (max_wait_update f))"
  "rel R (modify (\<lambda>s. s\<lparr>hung := b\<rparr>))"
  by (simp_all add: rel_def R_link)

lemma case_bool: "rel R m \<Longrightarrow> rel R n \<Longrightarrow> rel R (case b of True \<Rightarrow> m | False \<Rightarrow> n)"
  by (cases b) simp_all

lemma link_time: "rel R (esp_timer_get_time D)" "rel R (vTaskDelay n)"
  unfolding esp_timer_get_time_def vTaskDelay_def by (auto intro!: link_emit)

lemma link_lock: "rel R m \<Longrightarrow> rel R (with_lock m)"
  unfolding with_lock_def by (intro rules link_emit; simp)

lemma link_exchange: "rel R (dap_probe_exchange D f rb out)"
  unfolding dap_probe_exchange_def dap_probe_exchange_locked_def exchange_fpga_def exchange_phy_def
    exchange_judge_def dap_phy_fpga_exchange_def dap_phy_read_reply_def dap_phy_read_bits_def
  by (intro rules link_emit link_fields; simp)

lemma link_send: "rel R (send_command D cmd lf data n rb out)"
  unfolding send_command_def
  by (cases "dap_frame_build empty_frame cmd lf data n"; cases "fst (dap_frame_build empty_frame cmd lf data n)";
      auto intro: link_exchange return)

lemma link_client: "rel R (dap_probe_client_read D i e n out)" "rel R (dap_probe_client_write D i e v m out)"
  "rel R (dap_probe_client_set D c out)" "rel R (dap_probe_sync D out)"
  unfolding dap_probe_client_read_def dap_probe_client_write_def dap_probe_client_set_def dap_probe_sync_def
  by (intro rules link_send)+

lemma link_attach: "rel R (dap_probe_attach D out n)"
proof -
  have "rel R (attach_loop D n err out)" for err
    by (induction n arbitrary: err out) (auto intro!: rules link_emit link_client)
  then show ?thesis by (simp add: dap_probe_attach_def)
qed

lemma link_word: "rel R (dap_probe_read32 D a v)" "rel R (dap_probe_write32 D a v)"
  "rel R (dap_probe_clear_error_state D)" "rel R (dap_probe_set_rw_mode D b)"
  unfolding dap_probe_read32_def dap_probe_read32_locked_def dap_probe_write32_def dap_probe_write32_locked_def
    dap_probe_clear_error_state_def dap_probe_clear_error_state_locked_def dap_probe_set_rw_mode_def
    dap_probe_set_rw_mode_locked_def
  by (intro rules link_lock link_client)+

lemma link_dapisc: "rel R (dap_probe_dapisc D v cold out)"
  unfolding dap_probe_dapisc_def dap_probe_note_dapisc_def by (intro rules link_send link_fields)

lemma link_ocds: "rel R (dap_probe_enable_ocds D)"
  unfolding dap_probe_enable_ocds_def dap_probe_enable_ocds_locked_def by (intro rules link_lock link_word)

lemmas word = rules link_emit(3) link_time link_lock link_client link_attach link_word link_dapisc link_ocds
  link_fields

end

locale link_frame = word_frame R for R :: "'e probe_scheme \<Rightarrow> 'e probe_scheme \<Rightarrow> bool" +
  assumes R_block: "block_read e \<Longrightarrow> R s (s\<lparr>hist := e # hist s\<rparr>)"
begin

lemma link_block: "block_read e \<Longrightarrow> rel R (ask e f)"
  by (simp add: rel_def R_block)

lemma link_parcels: "rel R (read_parcels D n ws)"
  unfolding dap_phy_read_bits_def
  by (induction n arbitrary: ws) (auto simp: dap_phy_read_bits_def intro!: rules link_emit)

lemma link_blockread_locked: "rel R (dap_probe_blockread_locked D a n)"
  unfolding dap_probe_blockread_locked_def dap_phy_fpga_blockread_def dap_phy_read_bits_def
  by (intro rules case_bool link_emit link_block link_parcels; simp)

lemma link_blockread: "rel R (dap_probe_blockread D a n)" "rel R (dap_probe_read32_fast D a v)"
  unfolding dap_probe_read32_fast_def dap_probe_blockread_def
  by (intro rules link_lock link_emit link_word link_blockread_locked)+

lemma link_blockread_many: "rel R (dap_probe_blockread_many D rs)"
proof -
  have "rel R (blocks_one_by_one D rs ws)" for D rs ws
    by (induction rs arbitrary: ws) (auto intro!: rules link_blockread_locked)
  then have batch: "rel R (block_batch D rs)" for D rs
    unfolding block_batch_def dap_phy_fpga_blockread_chain_def by (intro rules link_emit link_block; simp)
  have "rel R (blockread_batches D rs ws)" for ws
    by (induction D rs ws rule: blockread_batches.induct, subst blockread_batches.simps)
      (auto intro!: rules batch)
  then show ?thesis unfolding dap_probe_blockread_many_def by (intro link_lock)
qed

lemmas link = word link_blockread link_blockread_many

end

text \<open>The lock is taken and given back around an operation.\<close>

lemma triple_with_lock:
  assumes "triple P m Q" "\<And>s. P s \<Longrightarrow> P (s\<lparr>hist := EvLock # hist s\<rparr>)"
    "\<And>r s. Q r s \<Longrightarrow> Q r (s\<lparr>hist := EvUnlock # hist s\<rparr>)"
  shows "triple P (with_lock m) Q"
proof (rule tripleI)
  fix s r s' assume P: "P s" and "run (with_lock m) s = (r, s')"
  then obtain s1 where s1: "run m (s\<lparr>hist := EvLock # hist s\<rparr>) = (r, s1)" "s' = s1\<lparr>hist := EvUnlock # hist s1\<rparr>"
    by (auto simp: with_lock_def split: prod.splits)
  from tripleD [OF assms(1) assms(2) [OF P] s1(1)] show "Q r s'" unfolding s1(2) by (rule assms(3))
qed

section \<open>Calm operations\<close>

text \<open>\<open>calm A\<close>: the lock is held as deep as before, and only words in \<open>A\<close> went to the bus. Operations
  that also change state of their own are mostly calm.\<close>

definition calm :: "(u32 \<times> u32) set \<Rightarrow> 'e probe_scheme \<Rightarrow> 'e probe_scheme \<Rightarrow> bool" where
  "calm A s s' \<longleftrightarrow> lock_depth (hist s') = lock_depth (hist s) \<and> grows A s s'"

interpretation calm: preorder_frame "calm A :: 'e probe_scheme \<Rightarrow> 'e probe_scheme \<Rightarrow> bool" for A
  by unfold_locales (auto simp: calm_def grows.R_refl elim: grows.R_trans)

named_theorems calm_frame \<open>operations that are calm\<close>

lemma unchanged_calm: "rel unchanged m \<Longrightarrow> rel (grows A) m \<Longrightarrow> rel (calm A) m"
  unfolding rel_def calm_def unchanged_def by blast

lemma calm_mono: "rel (calm A) m \<Longrightarrow> A \<subseteq> B \<Longrightarrow> rel (calm B) m"
  by (erule rel_mono) (auto simp: calm_def grows_def)

lemma calm_emit [calm_frame]:
  "e \<noteq> EvLock \<Longrightarrow> e \<noteq> EvUnlock \<Longrightarrow> (\<And>b. bus_step e b = b) \<Longrightarrow> rel (calm A) (emit e)"
  "e \<noteq> EvLock \<Longrightarrow> e \<noteq> EvUnlock \<Longrightarrow> (\<And>b. bus_step e b = b) \<Longrightarrow> rel (calm A) (ask e f)"
  by (simp_all add: rel_def calm_def grows_def bus_writes_def)

lemma calm_lock [calm_frame]: "rel (calm A) m \<Longrightarrow> rel (calm A) (with_lock m)"
proof (rule relI)
  fix s r s' assume m: "rel (calm A) m" and "run (with_lock m) s = (r, s')"
  then obtain s1 where s1: "run m (s\<lparr>hist := EvLock # hist s\<rparr>) = (r, s1)" "s' = s1\<lparr>hist := EvUnlock # hist s1\<rparr>"
    by (auto simp: with_lock_def split: prod.splits)
  from relD [OF m s1(1)] show "calm A s s'" by (simp add: s1(2) calm_def grows_def bus_writes_def)
qed

lemma unchanged_ocds [unchanged_frame]:
  "rel unchanged (dap_probe_enable_ocds D :: ('e probe_scheme, esp_err) state)"
  unfolding dap_probe_enable_ocds_def dap_probe_enable_ocds_locked_def by (intro unchanged_frame)

lemma unchanged_sync [unchanged_frame]:
  "rel unchanged (dap_probe_sync D out :: ('e probe_scheme, esp_err \<times> dap_exchange) state)"
  unfolding dap_probe_sync_def by (intro unchanged_frame)

end
