(* ===== verification/Dap_Wide.thy ===== *)
theory Dap_Wide
  imports Tricore Link_Frame
begin

unbundle bit_operations_syntax

text \<open>
  \<open>dap_dapisc.c\<close> (the telegram that configures the DAP interface) and \<open>dap_wide.c\<close> (wide and fast
  mode as sessions), with the constants of \<open>dap_fpga_priv.h\<close>. The settings of the fabric are events
  of the history; which mode it is in is read off the history by \<open>wide_on\<close> and \<open>fast_on\<close>. The state
  extends the run-control record only so that the layers above have everything in one record.
  The diagnostic sweep \<open>dap_wide_check\<close> is left out.
\<close>

section \<open>State and constants\<close>

record wide = tricore +
  rx_wide :: bool         \<comment> \<open>\<open>dap_dapisc_rx_wide\<close>\<close>
  wide_active :: bool     \<comment> \<open>\<open>s_active\<close>\<close>
  s_tap1 :: u8
  s_tap2 :: u8
  ref_block :: "u32 list" \<comment> \<open>\<open>s_ref_block\<close>\<close>
  s_fast :: bool

definition DAPISC_VALUE :: u16 where "DAPISC_VALUE = 0x0F00"
definition DAPISC_MODE_SHIFT :: nat where "DAPISC_MODE_SHIFT = 4"
definition DAPISC_MODE_NARROW :: u16 where "DAPISC_MODE_NARROW = 0"
definition DAPISC_MODE_WIDE :: u16 where "DAPISC_MODE_WIDE = 1"
definition DAPISC_SIGNATURE :: u64 where "DAPISC_SIGNATURE = 0x4ABBAF53"
definition DAPISC_CMD :: u8 where "DAPISC_CMD = 0x11"
definition WIDE_SYNC_EXPECT :: u64 where "WIDE_SYNC_EXPECT = 0xCCCCCCCC"
definition P21_IOCR4 :: u32 where "P21_IOCR4 = 0xF003B514"
definition DAP2_PIN :: nat where "DAP2_PIN = 7"
definition IOCR4_SHIFT :: "nat \<Rightarrow> nat" where "IOCR4_SHIFT n = 3 + 8 * (n - 4)"
definition IOCR_PP_OUT :: u32 where "IOCR_PP_OUT = 0x10"
definition REF_ADDR :: u32 where "REF_ADDR = 0xB8001000"
definition REF_WORDS :: nat where "REF_WORDS = 64"

section \<open>The dapisc telegram\<close>

text \<open>An exchange whose reply window is taken verbatim.\<close>

definition raw_exchange :: "dev \<Rightarrow> u8 \<Rightarrow> u64 \<Rightarrow> nat \<Rightarrow> nat \<Rightarrow> ('e wide_scheme, esp_err \<times> u32 \<times> u16) state" where
  "raw_exchange D len_field data dbits rbits = do {
     dap_phy_fpga_set_raw_window True;
     r \<leftarrow> dap_phy_fpga_exchange D DAPISC_CMD len_field data dbits rbits;
     dap_phy_fpga_set_raw_window False;
     ret r }"

definition dap_dapisc_send :: "dev \<Rightarrow> ('e wide_scheme, unit) state" where
  "dap_dapisc_send D = do {
     raw_exchange D 48 (push_bit 16 DAPISC_SIGNATURE OR ucast DAPISC_VALUE) 48 2;
     skip }"

definition raw_bits :: "u32 \<Rightarrow> u8 list" where
  "raw_bits raw = map (\<lambda>i. ucast (drop_bit i raw AND 1)) [0..<32]"

text \<open>\<open>wide\<close>: \<open>dap_dapisc_rx_wide || dap_phy_fpga_is_wide()\<close>. The value read so far is kept when there
  is no start bit or the window is too short.\<close>

definition decode :: "bool \<Rightarrow> u32 \<Rightarrow> u16 \<Rightarrow> bool \<times> u16" where
  "decode wide raw now =
     (let bits = raw_bits raw; step = (if wide then 2 else 1)
      in case find (\<lambda>i. bits ! i \<noteq> 0) [0..<32] of
        None \<Rightarrow> (False, now)
      | Some start \<Rightarrow>
          if start + step + 16 + 6 > 32 then (False, now)
          else (dap_crc6_residue_ok (drop (start + step) bits) (16 + 6),
                bits_to_word (take 16 (drop (start + step) bits))))"

primrec dapisc_attempts ::
  "dev \<Rightarrow> nat \<Rightarrow> u8 \<Rightarrow> u64 \<Rightarrow> nat \<Rightarrow> u16 \<Rightarrow> ('e wide_scheme, bool \<times> u16) state" where
  "dapisc_attempts D 0 len_field data dbits now = ret (False, now)"
| "dapisc_attempts D (Suc n) len_field data dbits now = do {
     (err, raw, waited) \<leftarrow> raw_exchange D len_field data dbits 32;
     rx \<leftarrow> gets rx_wide;
     wide \<leftarrow> sense (d_is_wide D);
     let (ok, now) = (if err = ESP_OK then decode (rx \<or> wide) raw now else (False, now));
     if ok then ret (True, now) else dapisc_attempts D n len_field data dbits now }"

definition dap_dapisc_write_read ::
  "dev \<Rightarrow> u8 \<Rightarrow> u64 \<Rightarrow> nat \<Rightarrow> ('e wide_scheme, bool \<times> u16) state" where
  "dap_dapisc_write_read D len_field data dbits =
     dapisc_attempts D (if len_field = 16 then 4 else 1) len_field data dbits 0"

definition dap_dapisc_prime :: "dev \<Rightarrow> ('e wide_scheme, unit) state" where
  "dap_dapisc_prime D =
     for_each (\<lambda>_. do { dap_dapisc_write_read D 16 (ucast DAPISC_VALUE) 16; skip }) [0, 1 :: nat]"

definition dap_dapisc_narrow :: "dev \<Rightarrow> ('e wide_scheme, bool) state" where
  "dap_dapisc_narrow D = do {
     raw_exchange D 16 (ucast (DAPISC_VALUE OR push_bit DAPISC_MODE_SHIFT DAPISC_MODE_NARROW)) 16 2;
     dap_phy_fpga_set_wide D False;
     dap_probe_clear_error_state D;
     (err, x) \<leftarrow> dap_probe_attach D no_exchange 3;
     if err = ESP_OK \<and> reply x = 0xAAAAAAAA then ret True
     else do {
       dap_phy_fpga_set_trst True;
       vTaskDelay 2;
       dap_phy_fpga_set_trst False;
       vTaskDelay 10;
       dap_probe_clear_error_state D;
       (err, x) \<leftarrow> dap_probe_attach D x 3;
       ret (err = ESP_OK) } }"

section \<open>Calibration\<close>

definition p21_7_is_input :: "dev \<Rightarrow> ('e wide_scheme, bool) state" where
  "p21_7_is_input D = do {
     (err, iocr4) \<leftarrow> dap_probe_read32 D P21_IOCR4 0;
     if err \<noteq> ESP_OK then ret False
     else do {
       let pc = drop_bit (IOCR4_SHIFT DAP2_PIN) iocr4 AND 0x1F;
       ret (pc AND IOCR_PP_OUT = 0) } }"

definition xorshift :: "u32 \<Rightarrow> u32" where
  "xorshift x = (let x = x XOR push_bit 13 x; x = x XOR drop_bit 17 x in x XOR push_bit 5 x)"

primrec reference_from :: "nat \<Rightarrow> u32 \<Rightarrow> u32 list" where
  "reference_from 0 x = []"
| "reference_from (Suc n) x = xorshift x # reference_from n (xorshift x)"

definition write_reference :: "dev \<Rightarrow> ('e wide_scheme, esp_err) state" where
  "write_reference D = do {
     modify (\<lambda>s. s\<lparr>ref_block := reference_from REF_WORDS 0x9E3779B9\<rparr>);
     ref \<leftarrow> gets ref_block;
     err \<leftarrow> for_ok (\<lambda>i. dap_probe_write32 D (REF_ADDR + 4 * of_nat i) (ref ! i)) [0..<REF_WORDS];
     if err \<noteq> ESP_OK then ret ESP_FAIL
     else do {
       (err, got) \<leftarrow> dap_probe_blockread D REF_ADDR REF_WORDS;
       ret (if err \<noteq> ESP_OK \<or> got \<noteq> ref then ESP_FAIL else ESP_OK) } }"

definition taps_carry_data :: "dev \<Rightarrow> ('e wide_scheme, bool) state" where
  "taps_carry_data D = do {
     ref \<leftarrow> gets ref_block;
     err \<leftarrow> dap_probe_set_rw_mode D True;
     ok \<leftarrow> (if err \<noteq> ESP_OK then ret False
       else do {
         (err, w) \<leftarrow> dap_probe_read32 D (REF_ADDR + 4) 0;
         if err \<noteq> ESP_OK \<or> w \<noteq> ref ! 1 then ret False
         else do {
           (err, blk) \<leftarrow> dap_probe_blockread D REF_ADDR REF_WORDS;
           ret (err = ESP_OK \<and> blk = ref) } });
     if_do (\<not> ok) (do { dap_probe_clear_error_state D; skip });
     ret ok }"

text \<open>The sync over every pair of taps, then the passing pairs, most passing neighbours first.\<close>

definition tap_pairs :: "(u8 \<times> u8) list" where
  "tap_pairs = [(t1, t2). t1 \<leftarrow> [0, 1, 2, 3], t2 \<leftarrow> [0, 1, 2, 3]]"

definition sync_pair :: "dev \<Rightarrow> u8 \<times> u8 \<Rightarrow> (u8 \<times> u8 \<Rightarrow> bool) \<Rightarrow> ('e wide_scheme, u8 \<times> u8 \<Rightarrow> bool) state" where
  "sync_pair D p ok = do {
     dap_phy_fpga_set_skew (fst p) (snd p);
     (err, x) \<leftarrow> dap_probe_sync D no_exchange;
     ret (ok(p := (reply x = WIDE_SYNC_EXPECT))) }"

definition score :: "(u8 \<times> u8 \<Rightarrow> bool) \<Rightarrow> u8 \<times> u8 \<Rightarrow> nat" where
  "score ok p =
     (if ok p then length (filter (\<lambda>(d1, d2).
         let a = uint (fst p) + d1; b = uint (snd p) + d2
         in 0 \<le> a \<and> a < 4 \<and> 0 \<le> b \<and> b < 4 \<and> ok (word_of_int a, word_of_int b))
       [(d1, d2). d1 \<leftarrow> [- 1, 0, 1], d2 \<leftarrow> [- 1, 0, 1]])
      else 0)"

definition candidates :: "(u8 \<times> u8 \<Rightarrow> bool) \<Rightarrow> (u8 \<times> u8) list" where
  "candidates ok = [p. want \<leftarrow> [9, 8, 7, 6, 5, 4, 3, 2, 1], p \<leftarrow> tap_pairs, score ok p = want]"

primrec try_taps :: "dev \<Rightarrow> (u8 \<times> u8) list \<Rightarrow> ('e wide_scheme, (u8 \<times> u8) option) state" where
  "try_taps D [] = ret None"
| "try_taps D (p # ps) = do {
     dap_phy_fpga_set_skew (fst p) (snd p);
     ok \<leftarrow> taps_carry_data D;
     if ok then ret (Some p) else try_taps D ps }"

definition calibrate :: "dev \<Rightarrow> ('e wide_scheme, (u8 \<times> u8) option) state" where
  "calibrate D = do {
     ok \<leftarrow> for_acc (sync_pair D) tap_pairs (\<lambda>_. False);
     if list_all (\<lambda>p. \<not> ok p) tap_pairs then ret None
     else try_taps D (candidates ok) }"

section \<open>Wide mode\<close>

definition dap_wide_exit :: "dev \<Rightarrow> ('e wide_scheme, unit) state" where
  "dap_wide_exit D = with_lock (do {
     active \<leftarrow> gets wide_active;
     if_do active (do {
       dap_dapisc_narrow D;
       dap_phy_fpga_set_skew 0 0;
       modify (\<lambda>s. s\<lparr>wide_active := False\<rparr>) }) })"

text \<open>The mode change goes out narrow; its reply already comes back wide.\<close>

definition switch_wide :: "dev \<Rightarrow> ('e wide_scheme, bool) state" where
  "switch_wide D = do {
     let widev = DAPISC_VALUE OR push_bit DAPISC_MODE_SHIFT DAPISC_MODE_WIDE;
     dap_phy_fpga_set_rx_wide True;
     modify (\<lambda>s. s\<lparr>rx_wide := True\<rparr>);
     (ok, now) \<leftarrow> dap_dapisc_write_read D 48 (push_bit 16 DAPISC_SIGNATURE OR ucast widev) 48;
     modify (\<lambda>s. s\<lparr>rx_wide := False\<rparr>);
     dap_phy_fpga_set_rx_wide False;
     ret (ok \<and> drop_bit DAPISC_MODE_SHIFT now AND 3 = DAPISC_MODE_WIDE) }"

definition enter_locked :: "dev \<Rightarrow> u8 \<Rightarrow> ('e wide_scheme, esp_err) state" where
  "enter_locked D dv = do {
     active \<leftarrow> gets wide_active;
     if_do active (dap_wide_exit D);
     in_use \<leftarrow> sense (d_in_use D);
     if \<not> in_use then ret ESP_ERR_INVALID_STATE
     else do {
       dap_phy_fpga_set_div dv;
       dap_probe_clear_error_state D;
       input \<leftarrow> p21_7_is_input D;
       if \<not> input then ret ESP_ERR_INVALID_STATE
       else do {
         err \<leftarrow> dap_probe_enable_ocds D;
         err \<leftarrow> (if err \<noteq> ESP_OK then ret err else write_reference D);
         if err \<noteq> ESP_OK then ret ESP_FAIL
         else do {
           dap_dapisc_prime D;
           switched \<leftarrow> switch_wide D;
           err \<leftarrow> (if switched then dap_phy_fpga_set_wide D True else ret ESP_FAIL);
           if err \<noteq> ESP_OK then do { dap_dapisc_narrow D; ret ESP_FAIL }
           else do {
             taps \<leftarrow> calibrate D;
             case taps of
               None \<Rightarrow> do {
                 dap_dapisc_narrow D;
                 dap_phy_fpga_set_skew 0 0;
                 ret ESP_FAIL }
             | Some p \<Rightarrow> do {
                 dap_phy_fpga_set_skew (fst p) (snd p);
                 modify (\<lambda>s. s\<lparr>s_tap1 := fst p, s_tap2 := snd p\<rparr>);
                 modify (\<lambda>s. s\<lparr>wide_active := True\<rparr>);
                 ret ESP_OK } } } } } }"

definition dap_wide_enter :: "dev \<Rightarrow> u8 \<Rightarrow> ('e wide_scheme, esp_err) state" where
  "dap_wide_enter D dv = with_lock (enter_locked D dv)"

section \<open>Fast mode\<close>

text \<open>LAG, the edges (bit 0 DAP1, bit 1 DAP2 falling) and the two taps, in the order they are tried.\<close>

definition k_fast_narrow :: "(u8 \<times> u8 \<times> u8 \<times> u8) list" where
  "k_fast_narrow = [(1, 0, 0, 0), (0, 0, 0, 0), (1, 1, 0, 0), (0, 1, 0, 0), (2, 0, 0, 0), (1, 0, 1, 0)]"

definition k_fast_wide :: "(u8 \<times> u8 \<times> u8 \<times> u8) list" where
  "k_fast_wide = [(1, 0, 0, 0), (2, 0, 0, 0), (0, 0, 0, 0), (3, 0, 0, 0), (1, 3, 0, 0),
     (1, 0, 1, 1), (2, 0, 1, 1), (1, 0, 0, 1), (1, 0, 1, 0)]"

definition timing_at_div :: "('e wide_scheme, unit) state" where
  "timing_at_div = do {
     dap_phy_fpga_set_fast False;
     dap_phy_fpga_set_fast_timing 0 False False;
     taps \<leftarrow> gets (\<lambda>s. if wide_active s then (s_tap1 s, s_tap2 s) else (0, 0));
     dap_phy_fpga_set_skew (fst taps) (snd taps) }"

definition dap_alive :: "dev \<Rightarrow> ('e wide_scheme, bool) state" where
  "dap_alive D = do {
     timing_at_div;
     dap_probe_clear_error_state D;
     (err, w) \<leftarrow> dap_probe_read32 D REF_ADDR 0;
     ref \<leftarrow> gets ref_block;
     ret (err = ESP_OK \<and> w = ref ! 0) }"

text \<open>The first timing that carries data three times running; \<open>Inl\<close> when the DAP stopped answering.\<close>

definition fast_timing_works :: "dev \<Rightarrow> u8 \<times> u8 \<times> u8 \<times> u8 \<Rightarrow> ('e wide_scheme, bool) state" where
  "fast_timing_works D t = (case t of (lag, edges, tap1, tap2) \<Rightarrow> do {
     dap_phy_fpga_set_skew tap1 tap2;
     dap_phy_fpga_set_fast_timing lag (edges AND 1 \<noteq> 0) (edges AND 2 \<noteq> 0);
     dap_phy_fpga_set_fast True;
     ok \<leftarrow> taps_carry_data D;
     ok \<leftarrow> (if ok then taps_carry_data D else ret False);
     (if ok then taps_carry_data D else ret False) })"

primrec fast_search :: "dev \<Rightarrow> (u8 \<times> u8 \<times> u8 \<times> u8) list \<Rightarrow>
    ('e wide_scheme, unit + (u8 \<times> u8 \<times> u8 \<times> u8) option) state" where
  "fast_search D [] = ret (Inr None)"
| "fast_search D (t # ts) = do {
     ok \<leftarrow> fast_timing_works D t;
     if ok then ret (Inr (Some t))
     else do {
       alive \<leftarrow> dap_alive D;
       if \<not> alive then ret (Inl ()) else fast_search D ts } }"

definition dap_fast_enter :: "dev \<Rightarrow> ('e wide_scheme, esp_err) state" where
  "dap_fast_enter D = with_lock (do {
     in_use \<leftarrow> sense (d_in_use D);
     if \<not> in_use then ret ESP_ERR_INVALID_STATE
     else do {
       active \<leftarrow> gets wide_active;
       err \<leftarrow> (if active then ret ESP_OK
         else do {
           err \<leftarrow> dap_probe_enable_ocds D;
           if err \<noteq> ESP_OK then ret err else write_reference D });
       if err \<noteq> ESP_OK then ret ESP_FAIL
       else do {
         found \<leftarrow> fast_search D (if active then k_fast_wide else k_fast_narrow);
         case found of
           Inl _ \<Rightarrow> ret ESP_FAIL
         | Inr None \<Rightarrow> do { timing_at_div; ret ESP_FAIL }
         | Inr (Some t) \<Rightarrow> do {
             modify (\<lambda>s. s\<lparr>s_fast := True\<rparr>);
             ret ESP_OK } } } })"

definition dap_fast_exit :: "('e wide_scheme, unit) state" where
  "dap_fast_exit = with_lock (do {
     fast \<leftarrow> gets s_fast;
     if_do fast (do { timing_at_div; modify (\<lambda>s. s\<lparr>s_fast := False\<rparr>) }) })"

section \<open>The modes a history leaves the fabric in\<close>

primrec wide_on :: "hist \<Rightarrow> bool" where
  "wide_on [] = False"
| "wide_on (e # h) = (case e of EvSetWide b \<Rightarrow> b | _ \<Rightarrow> wide_on h)"

primrec fast_on :: "hist \<Rightarrow> bool" where
  "fast_on [] = False"
| "fast_on (e # h) = (case e of EvSetFast b \<Rightarrow> b | _ \<Rightarrow> fast_on h)"

primrec taps_set :: "hist \<Rightarrow> u8 \<times> u8" where
  "taps_set [] = (0, 0)"
| "taps_set (e # h) = (case e of EvSetSkew a b \<Rightarrow> (a, b) | _ \<Rightarrow> taps_set h)"

definition modes :: "'e phy_scheme \<Rightarrow> bool \<times> bool \<times> (u8 \<times> u8)" where
  "modes s = (wide_on (hist s), fast_on (hist s), taps_set (hist s))"

text \<open>Link traffic leaves the modes alone.\<close>

definition keeps_modes :: "'e probe_scheme \<Rightarrow> 'e probe_scheme \<Rightarrow> bool" where
  "keeps_modes s s' \<longleftrightarrow> modes s' = modes s"

interpretation modes: link_frame "keeps_modes :: 'e probe_scheme \<Rightarrow> 'e probe_scheme \<Rightarrow> bool"
proof
  show "keeps_modes s (s\<lparr>hist := e # hist s\<rparr>)" if "traffic e" for e and s :: "'e probe_scheme"
    using that by (cases e) (simp_all add: keeps_modes_def modes_def)
  show "keeps_modes s (s\<lparr>hist := e # hist s\<rparr>)" if "block_read e" for e and s :: "'e probe_scheme"
    using that by (cases e) (simp_all add: keeps_modes_def modes_def)
qed (simp_all add: keeps_modes_def modes_def)

text \<open>\<open>session\<close>: the flags of the two modes beside the modes themselves. Most operations keep it
  (\<open>same_session\<close>).\<close>

definition session :: "'e wide_scheme \<Rightarrow> bool \<times> bool \<times> bool \<times> bool \<times> (u8 \<times> u8) \<times> (u8 \<times> u8)" where
  "session s = (wide_active s, s_fast s, wide_on (hist s), fast_on (hist s), taps_set (hist s), (s_tap1 s, s_tap2 s))"

definition same_session :: "'e wide_scheme \<Rightarrow> 'e wide_scheme \<Rightarrow> bool" where
  "same_session s s' \<longleftrightarrow> session s' = session s \<and> lock_depth (hist s') = lock_depth (hist s)"

interpretation same_session: preorder_frame "same_session :: 'e wide_scheme \<Rightarrow> 'e wide_scheme \<Rightarrow> bool"
  by unfold_locales (auto simp: same_session_def)

lemma unchanged_session: "unchanged s s' \<Longrightarrow> keeps_modes s s' \<Longrightarrow> same_session s s'"
  by (elim unchangedE) (simp add: same_session_def session_def keeps_modes_def modes_def)

lemma link_same_session: "rel unchanged m \<Longrightarrow> rel keeps_modes m \<Longrightarrow> rel same_session m"
  unfolding rel_def by (blast intro: unchanged_session)

named_theorems session_frame \<open>operations that keep the session\<close>

lemmas [session_frame] = same_session.rules
  link_same_session [OF sense_rules(2) modes.link_emit(3)]
  link_same_session [OF time_rules(5) modes.link_time(2)]
  link_same_session [OF read32_rules(2) modes.link_word(1)]
  link_same_session [OF write32_rules(2) modes.link_word(2)]
  link_same_session [OF clear_error_state_rules(2) modes.link_word(3)]
  link_same_session [OF dapisc_rules(2) modes.link_word(4)]
  link_same_session [OF attach_rules(1) modes.link_attach]
  link_same_session [OF blockread_rules(2) modes.link_blockread(1)]

lemma emit_session [session_frame]:
  "rel same_session (dap_phy_fpga_set_raw_window b :: ('e wide_scheme, unit) state)"
  "rel same_session (dap_phy_fpga_set_trst b :: ('e wide_scheme, unit) state)"
  "rel same_session (dap_phy_fpga_set_rx_wide b :: ('e wide_scheme, unit) state)"
  "rel same_session (dap_phy_fpga_set_div dv :: ('e wide_scheme, unit) state)"
  "rel same_session (dap_phy_fpga_set_fast_timing l a b :: ('e wide_scheme, unit) state)"
  "rel same_session (dap_phy_fpga_exchange D c lf d n rb :: ('e wide_scheme, esp_err \<times> u32 \<times> u16) state)"
  "rel same_session (modify (\<lambda>s. s\<lparr>rx_wide := b\<rparr>) :: ('e wide_scheme, unit) state)"
  "rel same_session (modify (\<lambda>s. s\<lparr>ref_block := ws\<rparr>) :: ('e wide_scheme, unit) state)"
  by (simp_all add: rel_def same_session_def session_def dap_phy_fpga_set_raw_window_def
      dap_phy_fpga_set_trst_def dap_phy_fpga_set_rx_wide_def dap_phy_fpga_set_div_def
      dap_phy_fpga_set_fast_timing_def dap_phy_fpga_exchange_def)

lemmas [session_frame] = link_same_session [OF unchanged_ocds modes.link_ocds]
  link_same_session [OF unchanged_sync modes.link_client(4)]

lemma dapisc_session [session_frame]:
  "rel same_session (raw_exchange D lf d n rb :: ('e wide_scheme, esp_err \<times> u32 \<times> u16) state)"
  "rel same_session (dap_dapisc_write_read D lf d n :: ('e wide_scheme, bool \<times> u16) state)"
  "rel same_session (dap_dapisc_prime D :: ('e wide_scheme, unit) state)"
proof -
  show raw: "rel same_session (raw_exchange D lf d n rb :: ('e wide_scheme, esp_err \<times> u32 \<times> u16) state)"
    for D lf d n rb unfolding raw_exchange_def by (intro session_frame)
  have attempts: "rel same_session (dapisc_attempts D k lf d n now :: ('e wide_scheme, bool \<times> u16) state)"
    for D k lf d n now
  proof (induction k arbitrary: now)
    case 0
    show ?case unfolding dapisc_attempts.simps by (intro session_frame)
  next
    case (Suc k)
    then show ?case unfolding dapisc_attempts.simps by (intro session_frame raw)
  qed
  show wr: "rel same_session (dap_dapisc_write_read D lf d n :: ('e wide_scheme, bool \<times> u16) state)"
    for D lf d n unfolding dap_dapisc_write_read_def by (intro attempts)
  show "rel same_session (dap_dapisc_prime D :: ('e wide_scheme, unit) state)"
    unfolding dap_dapisc_prime_def by (intro session_frame wr)
qed

lemma wide_parts_session [session_frame]:
  "rel same_session (p21_7_is_input D :: ('e wide_scheme, bool) state)"
  "rel same_session (write_reference D :: ('e wide_scheme, esp_err) state)"
  "rel same_session (taps_carry_data D :: ('e wide_scheme, bool) state)"
  "rel same_session (switch_wide D :: ('e wide_scheme, bool) state)"
  unfolding p21_7_is_input_def write_reference_def taps_carry_data_def switch_wide_def
  by (intro session_frame)+


text \<open>\<open>at\<close> a value of the session: the rules give what each operation makes of it.\<close>

definition at :: "bool \<times> bool \<times> bool \<times> bool \<times> (u8 \<times> u8) \<times> (u8 \<times> u8) \<Rightarrow> 'e wide_scheme \<Rightarrow> bool" where
  "at v s \<longleftrightarrow> session s = v"

lemma at_keep: "rel same_session m \<Longrightarrow> triple (at v) m (\<lambda>_. at v)"
  by (erule of_rel) (auto simp: at_def same_session_def)

lemma at_set:
  "triple (at (a, f, w, fo, t, r)) (dap_phy_fpga_set_wide D b :: ('e wide_scheme, esp_err) state) (\<lambda>_. at (a, f, b, fo, t, r))"
  "triple (at (a, f, w, fo, t, r)) (dap_phy_fpga_set_fast b :: ('e wide_scheme, unit) state) (\<lambda>_. at (a, f, w, b, t, r))"
  "triple (at (a, f, w, fo, t, r)) (dap_phy_fpga_set_skew t1 t2 :: ('e wide_scheme, unit) state) (\<lambda>_. at (a, f, w, fo, (t1, t2), r))"
  "triple (at (a, f, w, fo, t, r)) (modify (\<lambda>s. s\<lparr>wide_active := b\<rparr>)) (\<lambda>_. at (b, f, w, fo, t, r))"
  "triple (at (a, f, w, fo, t, r)) (modify (\<lambda>s. s\<lparr>s_fast := b\<rparr>)) (\<lambda>_. at (a, b, w, fo, t, r))"
  "triple (at (a, f, w, fo, t, r)) (modify (\<lambda>s. s\<lparr>s_tap1 := t1, s_tap2 := t2\<rparr>)) (\<lambda>_. at (a, f, w, fo, t, (t1, t2)))"
  by (auto simp: triple_def at_def session_def dap_phy_fpga_set_wide_def dap_phy_fpga_set_fast_def
      dap_phy_fpga_set_skew_def)

lemma at_with_lock:
  assumes "triple (at v) m (\<lambda>r s. Q r (session s))"
  shows "triple (at v) (with_lock m) (\<lambda>r s. Q r (session s))"
  by (rule triple_with_lock [OF assms]) (simp_all add: at_def session_def)

lemma at_narrow: "triple (at (a, f, w, fo, t, r)) (dap_dapisc_narrow D) (\<lambda>_. at (a, f, False, fo, t, r))"
  unfolding dap_dapisc_narrow_def
  apply (rule triple_bind, rule at_keep, intro session_frame)
  apply (rule triple_bind, rule at_set)
  apply (rule at_keep, intro session_frame)
  done

text \<open>A pair of taps is returned only when data came through under it.\<close>

lemma at_try_taps:
  "triple (at (a, f, w, fo, t, r)) (try_taps D ps)
     (\<lambda>p s. \<exists>t. at (a, f, w, fo, t, r) s \<and> (\<forall>q. p = Some q \<longrightarrow> t = q \<and> q \<in> set ps))"
proof (induction ps arbitrary: t)
  case Nil
  show ?case unfolding try_taps.simps by (rule triple_return, rule exI, erule conjI, simp)
next
  case (Cons q qs)
  show ?case unfolding try_taps.simps
    apply (rule triple_bind, rule at_set)
    apply (rule triple_bind, rule at_keep, intro session_frame)
    apply (rule triple_if)
     apply (rule triple_return, rule exI, erule conjI, simp)
    apply (rule triple_post [OF Cons.IH], auto)
    done
qed


lemma at_calibrate:
  "triple (at (a, f, w, fo, t, r)) (calibrate D)
     (\<lambda>p s. \<exists>t. at (a, f, w, fo, t, r) s \<and> (\<forall>q. p = Some q \<longrightarrow> t = q \<and> q \<in> set tap_pairs))"
proof -
  have sync: "triple (\<lambda>s. \<exists>t. at (a, f, w, fo, t, r) s) (sync_pair D q ok) (\<lambda>_ s. \<exists>t. at (a, f, w, fo, t, r) s)" for q ok
  proof (rule tripleI)
    fix s and x s'
    assume "\<exists>t. at (a, f, w, fo, t, r) s" "run (sync_pair D q ok) s = (x, s')"
    moreover have "triple (at (a, f, w, fo, t, r)) (sync_pair D q ok) (\<lambda>_. at (a, f, w, fo, (fst q, snd q), r))" for t
      unfolding sync_pair_def
      by (rule triple_bind, rule at_set, rule triple_bind, rule at_keep, intro session_frame, rule at_keep, intro session_frame)
    ultimately show "\<exists>t. at (a, f, w, fo, t, r) s'" by (blast dest: tripleD)
  qed
  have mem: "set (candidates ok) \<subseteq> set tap_pairs" for ok by (auto simp: candidates_def)
  have tt: "triple (\<lambda>s. \<exists>t. at (a, f, w, fo, t, r) s) (try_taps D (candidates ok))
      (\<lambda>p s. \<exists>t. at (a, f, w, fo, t, r) s \<and> (\<forall>q. p = Some q \<longrightarrow> t = q \<and> q \<in> set tap_pairs))" for ok
    using at_try_taps [of a f w fo _ r D "candidates ok"] mem [of ok] unfolding triple_def by fastforce
  have "triple (\<lambda>s. \<exists>t. at (a, f, w, fo, t, r) s) (calibrate D)
     (\<lambda>p s. \<exists>t. at (a, f, w, fo, t, r) s \<and> (\<forall>q. p = Some q \<longrightarrow> t = q \<and> q \<in> set tap_pairs))"
    unfolding calibrate_def
    by (rule triple_bind, rule triple_for_acc, rule sync, rule triple_if, rule triple_return, simp, rule tt)
  then show ?thesis by (rule triple_weaken) blast+
qed

lemma at_wide_exit:
  "triple (at (a, f, w, fo, t, r)) (dap_wide_exit D)
     (\<lambda>_. at (False, f, if a then False else w, fo, if a then (0, 0) else t, r))"
  unfolding dap_wide_exit_def at_def
  apply (rule at_with_lock [unfolded at_def])
  apply (fold at_def)
  apply (rule triple_known [where c = a], simp add: at_def session_def)
  apply (cases a; simp add: if_do_def)
   apply (rule triple_bind, rule at_narrow, rule triple_bind, rule at_set, rule at_set)
  apply (simp add: triple_return)
  done


text \<open>What a session is worth: the mode is on exactly if the flag says so, and then under the taps that
  were found.\<close>

definition wide_post :: "bool \<Rightarrow> bool \<Rightarrow> esp_err \<Rightarrow> 'e wide_scheme \<Rightarrow> bool" where
  "wide_post f fo err s \<longleftrightarrow> (let ok = (err = ESP_OK) in \<exists>t r. at (ok, f, ok, fo, t, r) s \<and> (ok \<longrightarrow> t = r))"

lemma wide_post_fail: "err \<noteq> ESP_OK \<Longrightarrow> at (False, f, False, fo, t, r) s \<Longrightarrow> wide_post f fo err s"
  by (auto simp: wide_post_def Let_def simp del: split_paired_Ex)

lemma wide_post_weaken:
  "triple P m (\<lambda>_. at (False, f, False, fo, t, r)) \<Longrightarrow> err \<noteq> ESP_OK \<Longrightarrow> triple P (do { m; ret err }) (wide_post f fo)"
  by (rule triple_bind, assumption, rule triple_return, rule wide_post_fail)

lemma calibrated_post:
  "triple (at (False, f, True, fo, t, r)) (do {
      taps \<leftarrow> calibrate D;
      case taps of
        None \<Rightarrow> do { dap_dapisc_narrow D; dap_phy_fpga_set_skew 0 0; ret ESP_FAIL }
      | Some p \<Rightarrow> do {
          dap_phy_fpga_set_skew (fst p) (snd p);
          modify (\<lambda>s. s\<lparr>s_tap1 := fst p, s_tap2 := snd p\<rparr>);
          modify (\<lambda>s. s\<lparr>wide_active := True\<rparr>);
          ret ESP_OK } }) (wide_post f fo)"
proof (rule triple_bind, rule at_calibrate, rule triple_case_option)
  fix taps :: "(u8 \<times> u8) option"
  let ?R = "\<lambda>s. \<exists>t. at (False, f, True, fo, t, r) s \<and> (\<forall>q. taps = Some q \<longrightarrow> t = q \<and> q \<in> set tap_pairs)"
  have narrow: "triple (at (False, f, True, fo, t, r))
      (do { dap_dapisc_narrow D; dap_phy_fpga_set_skew 0 0; ret ESP_FAIL }) (wide_post f fo)" for t
    by (rule triple_bind, rule at_narrow, rule wide_post_weaken, rule at_set, simp)
  have set: "triple (at (False, f, True, fo, t, r)) (do {
          dap_phy_fpga_set_skew (fst p) (snd p);
          modify (\<lambda>s. s\<lparr>s_tap1 := fst p, s_tap2 := snd p\<rparr>);
          modify (\<lambda>s. s\<lparr>wide_active := True\<rparr>);
          ret ESP_OK }) (wide_post f fo)" for t p
    by (rule triple_bind, rule at_set, rule triple_bind, rule at_set, rule triple_bind, rule at_set,
        rule triple_return) (auto simp: wide_post_def Let_def simp del: split_paired_Ex)
  show "triple ?R (do { dap_dapisc_narrow D; dap_phy_fpga_set_skew 0 0; ret ESP_FAIL }) (wide_post f fo)"
    by (rule triple_ex, rule triple_pre [OF narrow]) blast
  show "triple ?R (do {
          dap_phy_fpga_set_skew (fst p) (snd p);
          modify (\<lambda>s. s\<lparr>s_tap1 := fst p, s_tap2 := snd p\<rparr>);
          modify (\<lambda>s. s\<lparr>wide_active := True\<rparr>);
          ret ESP_OK }) (wide_post f fo)" for p
    by (rule triple_ex, rule triple_pre [OF set]) blast
qed

lemma at_enter_locked:
  "triple (at (a, f, a, fo, t, r)) (enter_locked D dv) (wide_post f fo)"
proof -
  let ?off = "\<lambda>s. \<exists>t. at (False, f, False, fo, t, r) s"
  have exit: "triple (at (a, f, a, fo, t, r)) (if_do a (dap_wide_exit D)) (\<lambda>_. ?off)"
    by (cases a) (auto intro!: triple_return triple_post [OF at_wide_exit] simp: if_do_def simp del: split_paired_Ex)
  have keep: "rel same_session m \<Longrightarrow> triple ?off m (\<lambda>_. ?off)" for m :: "('e wide_scheme, 'r) state"
    by (rule triple_ex, rule triple_ex_post, rule at_keep)
  have fail: "err \<noteq> ESP_OK \<Longrightarrow> triple ?off (ret err) (wide_post f fo)" for err
    by (rule triple_return) (auto intro: wide_post_fail)
  have narrow: "triple (\<lambda>s. \<exists>w t. at (False, f, w, fo, t, r) s) (do { dap_dapisc_narrow D; ret ESP_FAIL }) (wide_post f fo)"
    by (rule triple_ex)+ (rule wide_post_weaken, rule at_narrow, simp)
  have wide: "triple ?off (dap_phy_fpga_set_wide D True) (\<lambda>_ s. \<exists>t. at (False, f, True, fo, t, r) s)"
    by (rule triple_ex, rule triple_ex_post, rule at_set)
  show ?thesis
    unfolding enter_locked_def
    apply (rule triple_known [where c = a], simp add: at_def session_def)
    apply (rule triple_bind, rule exit)
    apply (rule triple_bind, rule keep, intro session_frame)
    apply (rule triple_if, rule fail, simp)
    apply (rule triple_bind, rule keep, intro session_frame)
    apply (rule triple_bind, rule keep, intro session_frame)
    apply (rule triple_bind, rule keep, intro session_frame)
    apply (rule triple_if, rule fail, simp)
    apply (rule triple_bind, rule keep, intro session_frame)
    apply (rule triple_bind, rule keep, intro session_frame)
    apply (rule triple_if, rule fail, simp)
    apply (rule triple_bind, rule keep, intro session_frame)
    apply (rule triple_bind, rule keep, intro session_frame)
    apply (rule triple_bind [where R = "\<lambda>err s. if err = ESP_OK then \<exists>t. at (False, f, True, fo, t, r) s
        else \<exists>w t. at (False, f, w, fo, t, r) s"])
     apply (rule triple_if, rule triple_post [OF wide], auto simp del: split_paired_Ex) []
     apply (rule triple_return, auto simp del: split_paired_Ex) []
    apply (rule triple_if)
     apply (rule triple_pre [OF narrow], simp del: split_paired_Ex)
    apply (rule triple_pre [OF triple_ex [OF calibrated_post]], simp del: split_paired_Ex)
    done
qed


section \<open>Fast mode\<close>

lemma at_timing: "triple (at (a, f, w, fo, t, r)) timing_at_div (\<lambda>_. at (a, f, w, False, if a then r else (0, 0), r))"
  unfolding timing_at_div_def
  apply (rule triple_bind, rule at_set)
  apply (rule triple_bind, rule at_keep, intro session_frame)
  apply (rule triple_known [where c = "if a then r else (0, 0)"])
     apply (auto simp: at_def session_def) []
  apply (insert at_set(3) [of a f w False t r "fst r" "snd r"] at_set(3) [of a f w False t r 0 0], cases a, simp_all)
  done

text \<open>\<open>some_timing\<close>: as before but for fast mode itself and the taps.\<close>

definition some_timing :: "bool \<times> bool \<times> bool \<times> (u8 \<times> u8) \<Rightarrow> bool \<Rightarrow> 'e wide_scheme \<Rightarrow> bool" where
  "some_timing v fo s \<longleftrightarrow> (case v of (a, f, w, r) \<Rightarrow> \<exists>t. at (a, f, w, fo, t, r) s)"

lemma some_timing_at: "at (a, f, w, fo, t, r) s \<Longrightarrow> some_timing (a, f, w, r) fo s"
  unfolding some_timing_def by (simp del: split_paired_Ex) (rule exI)

lemma timing_hist [simp]:
  "some_timing v fo (s\<lparr>hist := EvLock # hist s\<rparr>) = some_timing v fo s"
  "some_timing v fo (s\<lparr>hist := EvUnlock # hist s\<rparr>) = some_timing v fo s"
  by (auto simp: some_timing_def at_def session_def split: prod.splits)

lemma timing_keep: "rel same_session m \<Longrightarrow> triple (some_timing v fo) m (\<lambda>_. some_timing v fo)"
  by (erule of_rel) (auto simp: some_timing_def at_def same_session_def split: prod.splits)

lemma timing_set:
  "triple (some_timing v fo) (dap_phy_fpga_set_skew t1 t2) (\<lambda>_. some_timing v fo)"
  "triple (some_timing v fo) (dap_phy_fpga_set_fast b) (\<lambda>_. some_timing v b)"
  "triple (some_timing v fo) timing_at_div (\<lambda>_. some_timing v False)"
proof -
  obtain a f w r where v: "v = (a, f, w, r)" by (metis prod_cases4)
  have 1: "triple (some_timing v fo) m (\<lambda>_. some_timing v fo')"
    if ex: "\<And>t. \<exists>t'. triple (at (a, f, w, fo, t, r)) m (\<lambda>_. at (a, f, w, fo', t', r))" for fo' and m :: "('e wide_scheme, unit) state"
    unfolding v some_timing_def prod.case
  proof (rule triple_ex)
    fix t
    obtain t' where "triple (at (a, f, w, fo, t, r)) m (\<lambda>_. at (a, f, w, fo', t', r))" using ex by blast
    then show "triple (at (a, f, w, fo, t, r)) m (\<lambda>_ s. \<exists>t. at (a, f, w, fo', t, r) s)" by (rule triple_ex_post)
  qed
  show "triple (some_timing v fo) (dap_phy_fpga_set_skew t1 t2) (\<lambda>_. some_timing v fo)"
    "triple (some_timing v fo) (dap_phy_fpga_set_fast b) (\<lambda>_. some_timing v b)"
    "triple (some_timing v fo) timing_at_div (\<lambda>_. some_timing v False)"
    by (rule 1, rule exI, rule at_set at_timing)+
qed

lemma timing_works: "triple (some_timing v fo) (fast_timing_works D x) (\<lambda>_. some_timing v True)"
  unfolding fast_timing_works_def
  apply (rule triple_case_prod)+
  apply (rule triple_bind, rule timing_set)
  apply (rule triple_bind, rule timing_keep, intro session_frame)
  apply (rule triple_bind, rule timing_set)
  apply (rule timing_keep, intro session_frame)
  done

lemma timing_alive: "triple (some_timing v fo) (dap_alive D) (\<lambda>_. some_timing v False)"
  unfolding dap_alive_def
  by (rule triple_bind, rule timing_set, rule timing_keep, intro session_frame)

lemma timing_search:
  "triple (\<lambda>s. \<exists>fo. some_timing v fo s) (fast_search D ts)
     (\<lambda>x s. \<exists>fo. some_timing v fo s \<and> (x = Inl () \<longrightarrow> \<not> fo))"
proof (induction ts)
  case Nil
  show ?case unfolding fast_search.simps by (rule triple_return) simp
next
  case (Cons t ts)
  show ?case unfolding fast_search.simps
    apply (rule triple_bind, rule triple_ex, rule timing_works)
    apply (rule triple_if, rule triple_return, rule exI, erule conjI, simp)
    apply (rule triple_bind, rule timing_alive)
    apply (rule triple_if, rule triple_return, rule exI, erule conjI, simp)
    apply (rule triple_pre [OF Cons.IH], erule exI)
    done
qed

lemma timing_flag:
  "triple (some_timing (a, f, w, r) fo) (modify (\<lambda>s. s\<lparr>s_fast := b\<rparr>)) (\<lambda>_. some_timing (a, b, w, r) fo)"
  unfolding some_timing_def prod.case by (rule triple_ex, rule triple_ex_post, rule at_set)

text \<open>After entering fast mode the fabric is fast only if the flag says so.\<close>

lemma fast_entered:
  assumes "fo \<longrightarrow> f"
  shows "triple (some_timing (a, f, w, r) fo) (dap_fast_enter D)
    (\<lambda>err s. \<exists>fo'. some_timing (a, err = ESP_OK \<or> f, w, r) fo' s \<and> (fo' \<longrightarrow> err = ESP_OK \<or> f))"
proof -
  let ?Q = "\<lambda>err s. \<exists>fo'. some_timing (a, err = ESP_OK \<or> f, w, r) fo' s \<and> (fo' \<longrightarrow> err = ESP_OK \<or> f)"
  have fail: "err \<noteq> ESP_OK \<Longrightarrow> fo' \<longrightarrow> f \<Longrightarrow> triple (some_timing (a, f, w, r) fo') (ret err) ?Q" for err fo'
    by (rule triple_return, rule exI [of _ fo']) auto
  show ?thesis
    unfolding dap_fast_enter_def
    apply (rule triple_with_lock)
      prefer 3 apply (simp only: timing_hist)
     prefer 2 apply (simp only: timing_hist)
    apply (rule triple_bind, rule timing_keep, intro session_frame)
    apply (rule triple_if, rule fail, simp, use assms in simp)
    apply (rule triple_known [where c = a])
     apply (auto simp: some_timing_def at_def session_def) []
    apply (rule triple_bind, rule timing_keep, intro session_frame)
    apply (rule triple_if, rule fail, simp, use assms in simp)
    apply (rule triple_bind, rule triple_pre [OF timing_search], erule exI)
    apply (rule triple_case_sum)
     apply (rule triple_return, auto) []
    apply (rule triple_case_option)
     apply (rule triple_bind)
      apply (rule triple_ex, rule triple_pre [OF timing_set(3)], erule conjunct1)
     apply (rule fail, simp, simp)
    apply (rule triple_bind)
     apply (rule triple_ex, rule triple_pre, rule triple_ex_post, rule timing_flag, erule conjunct1)
    apply (rule triple_return, auto) []
    done
qed

lemma fast_exited:
  "triple (some_timing (a, f, w, r) fo) dap_fast_exit (\<lambda>_. some_timing (a, False, w, r) (fo \<and> \<not> f))"
proof -
  have "triple (some_timing (a, f, w, r) fo) (do { fast \<leftarrow> gets s_fast;
      if_do fast (do { timing_at_div; modify (\<lambda>s. s\<lparr>s_fast := False\<rparr>) }) }) (\<lambda>_. some_timing (a, False, w, r) (fo \<and> \<not> f))"
    apply (rule triple_known [where c = f])
     apply (auto simp: some_timing_def at_def session_def) []
    apply (cases f; simp add: if_do_def)
     apply (rule triple_bind, rule timing_set, rule timing_flag)
    apply (rule triple_return, simp)
    done
  then show ?thesis unfolding dap_fast_exit_def by (rule triple_with_lock) simp_all
qed


section \<open>What the device was told\<close>

text \<open>The device is in the mode of the last telegram that configured its interface: a raw exchange of
  \<open>DAPISC_CMD\<close>, with 16 bits, or with 48 of which the upper 32 are the signature. \<open>told_wide\<close> reads it
  off the history. Only \<open>raw_exchange\<close> sends telegrams, and nothing else closes a raw window.\<close>

definition telegram :: "u8 \<Rightarrow> u8 \<Rightarrow> u64 \<Rightarrow> nat \<Rightarrow> bool" where
  "telegram c lf d n \<longleftrightarrow> c = DAPISC_CMD \<and>
     (lf = 16 \<and> n = 16 \<or> lf = 48 \<and> n = 48 \<and> drop_bit 16 d = DAPISC_SIGNATURE)"

definition asks_wide :: "u64 \<Rightarrow> bool" where
  "asks_wide d \<longleftrightarrow> drop_bit DAPISC_MODE_SHIFT (ucast d) AND 3 = DAPISC_MODE_WIDE"

primrec told_wide :: "hist \<Rightarrow> bool" where
  "told_wide [] = False"
| "told_wide (e # h) =
     (if e = EvSetRawWindow False
      then (case h of EvExchange c lf d n rb # _ \<Rightarrow> if telegram c lf d n then asks_wide d else told_wide h
            | _ \<Rightarrow> told_wide h)
      else told_wide h)"

definition keeps_told :: "'e probe_scheme \<Rightarrow> 'e probe_scheme \<Rightarrow> bool" where
  "keeps_told s s' \<longleftrightarrow> told_wide (hist s') = told_wide (hist s)"

interpretation told: link_frame "keeps_told :: 'e probe_scheme \<Rightarrow> 'e probe_scheme \<Rightarrow> bool"
proof
  show "keeps_told s (s\<lparr>hist := e # hist s\<rparr>)" if "traffic e" for e and s :: "'e probe_scheme"
    using that by (cases e) (simp_all add: keeps_told_def)
  show "keeps_told s (s\<lparr>hist := e # hist s\<rparr>)" if "block_read e" for e and s :: "'e probe_scheme"
    using that by (cases e) (simp_all add: keeps_told_def)
qed (simp_all add: keeps_told_def)

definition same_told :: "'e wide_scheme \<Rightarrow> 'e wide_scheme \<Rightarrow> bool" where
  "same_told s s' \<longleftrightarrow> told_wide (hist s') = told_wide (hist s) \<and> lock_depth (hist s') = lock_depth (hist s)"

interpretation same_told: preorder_frame "same_told :: 'e wide_scheme \<Rightarrow> 'e wide_scheme \<Rightarrow> bool"
  by unfold_locales (auto simp: same_told_def)

lemma unchanged_told: "unchanged s s' \<Longrightarrow> keeps_told s s' \<Longrightarrow> same_told s s'"
  by (elim unchangedE) (simp add: same_told_def keeps_told_def)

lemma link_same_told: "rel unchanged m \<Longrightarrow> rel keeps_told m \<Longrightarrow> rel same_told m"
  unfolding rel_def by (blast intro: unchanged_told)

named_theorems told_frame \<open>operations that send the device no telegram\<close>

lemmas [told_frame] = same_told.rules
  link_same_told [OF sense_rules(2) told.link_emit(3)]
  link_same_told [OF time_rules(5) told.link_time(2)]
  link_same_told [OF read32_rules(2) told.link_word(1)]
  link_same_told [OF write32_rules(2) told.link_word(2)]
  link_same_told [OF clear_error_state_rules(2) told.link_word(3)]
  link_same_told [OF dapisc_rules(2) told.link_word(4)]
  link_same_told [OF attach_rules(1) told.link_attach]
  link_same_told [OF blockread_rules(2) told.link_blockread(1)]
  link_same_told [OF unchanged_ocds told.link_ocds]
  link_same_told [OF unchanged_sync told.link_client(4)]

lemma emit_told [told_frame]:
  "rel same_told (dap_phy_fpga_set_trst b :: ('e wide_scheme, unit) state)"
  "rel same_told (dap_phy_fpga_set_rx_wide b :: ('e wide_scheme, unit) state)"
  "rel same_told (dap_phy_fpga_set_div dv :: ('e wide_scheme, unit) state)"
  "rel same_told (dap_phy_fpga_set_wide D b :: ('e wide_scheme, esp_err) state)"
  "rel same_told (dap_phy_fpga_set_skew t1 t2 :: ('e wide_scheme, unit) state)"
  "rel same_told (modify (\<lambda>s. s\<lparr>rx_wide := b\<rparr>) :: ('e wide_scheme, unit) state)"
  "rel same_told (modify (\<lambda>s. s\<lparr>ref_block := ws\<rparr>) :: ('e wide_scheme, unit) state)"
  "rel same_told (modify (\<lambda>s. s\<lparr>wide_active := b\<rparr>) :: ('e wide_scheme, unit) state)"
  "rel same_told (modify (\<lambda>s. s\<lparr>s_tap1 := t1, s_tap2 := t2\<rparr>) :: ('e wide_scheme, unit) state)"
  by (simp_all add: rel_def same_told_def dap_phy_fpga_set_trst_def dap_phy_fpga_set_rx_wide_def
      dap_phy_fpga_set_div_def dap_phy_fpga_set_wide_def dap_phy_fpga_set_skew_def)

lemma wide_parts_told [told_frame]:
  "rel same_told (p21_7_is_input D :: ('e wide_scheme, bool) state)"
  "rel same_told (write_reference D :: ('e wide_scheme, esp_err) state)"
  "rel same_told (taps_carry_data D :: ('e wide_scheme, bool) state)"
  "rel same_told (sync_pair D p ok :: ('e wide_scheme, u8 \<times> u8 \<Rightarrow> bool) state)"
  unfolding p21_7_is_input_def write_reference_def taps_carry_data_def sync_pair_def
  by (intro told_frame)+

lemma calibrate_told [told_frame]: "rel same_told (calibrate D :: ('e wide_scheme, (u8 \<times> u8) option) state)"
proof -
  have "rel same_told (try_taps D ps :: ('e wide_scheme, (u8 \<times> u8) option) state)" for ps
  proof (induction ps)
    case Nil
    show ?case unfolding try_taps.simps by (intro told_frame)
  next
    case (Cons p ps)
    show ?case unfolding try_taps.simps by (intro told_frame Cons.IH)
  qed
  then show ?thesis unfolding calibrate_def by (intro told_frame)
qed

text \<open>\<open>held b d\<close>: the device was told the mode \<open>b\<close>, and the lock is held \<open>d\<close> times.\<close>

definition held :: "bool \<Rightarrow> int \<Rightarrow> 'e wide_scheme \<Rightarrow> bool" where
  "held b d s \<longleftrightarrow> told_wide (hist s) = b \<and> lock_depth (hist s) = d"

lemma held_keep: "rel same_told m \<Longrightarrow> triple (held b d) m (\<lambda>_. held b d)"
  by (erule of_rel) (simp add: held_def same_told_def)

lemma held_lock:
  assumes "triple (\<lambda>s. held b (d + 1) s \<and> P (wide_active s)) m (\<lambda>r. held (b' r) (d + 1))"
  shows "triple (\<lambda>s. held b d s \<and> P (wide_active s)) (with_lock m) (\<lambda>r. held (b' r) d)"
proof (rule tripleI)
  fix s r s' assume P: "held b d s \<and> P (wide_active s)" and "run (with_lock m) s = (r, s')"
  then obtain s1 where s1: "run m (s\<lparr>hist := EvLock # hist s\<rparr>) = (r, s1)" "s' = s1\<lparr>hist := EvUnlock # hist s1\<rparr>"
    by (auto simp: with_lock_def split: prod.splits)
  have "held (b' r) (d + 1) s1" by (rule tripleD [OF assms _ s1(1)]) (use P in \<open>simp add: held_def\<close>)
  then show "held (b' r) d s'" unfolding s1(2) by (simp add: held_def)
qed

lemma held_raw:
  assumes "telegram DAPISC_CMD lf data n"
  shows "triple (held b d) (raw_exchange D lf data n rb) (\<lambda>_. held (asks_wide data) d)"
  using assms by (auto simp: triple_def raw_exchange_def dap_phy_fpga_set_raw_window_def dap_phy_fpga_exchange_def held_def)

lemma held_attempts:
  assumes "telegram DAPISC_CMD lf data n"
  shows "triple (held b d) (dapisc_attempts D (Suc k) lf data n now) (\<lambda>_. held (asks_wide data) d)"
proof (induction k arbitrary: b now)
  case 0
  show ?case unfolding dapisc_attempts.simps
    by (rule triple_bind, rule held_raw [OF assms], rule held_keep, intro told_frame)
next
  case (Suc k)
  show ?case
    apply (subst dapisc_attempts.simps)
    apply (rule triple_bind, rule held_raw [OF assms])
    apply (rule triple_case_prod)+
    apply (rule triple_bind, rule held_keep, intro told_frame)
    apply (rule triple_bind, rule held_keep, intro told_frame)
    apply (rule triple_case_prod | unfold Let_def)+
    apply (rule triple_if, rule triple_return, assumption, rule Suc.IH)
    done
qed

lemma telegrams:
  "telegram DAPISC_CMD 16 (ucast DAPISC_VALUE) 16" "\<not> asks_wide (ucast DAPISC_VALUE)"
  "telegram DAPISC_CMD 16 (ucast (DAPISC_VALUE OR push_bit DAPISC_MODE_SHIFT DAPISC_MODE_NARROW)) 16"
  "\<not> asks_wide (ucast (DAPISC_VALUE OR push_bit DAPISC_MODE_SHIFT DAPISC_MODE_NARROW))"
  "telegram DAPISC_CMD 48
     (push_bit 16 DAPISC_SIGNATURE OR ucast (DAPISC_VALUE OR push_bit DAPISC_MODE_SHIFT DAPISC_MODE_WIDE)) 48"
  "asks_wide (push_bit 16 DAPISC_SIGNATURE OR ucast (DAPISC_VALUE OR push_bit DAPISC_MODE_SHIFT DAPISC_MODE_WIDE))"
  by (simp_all add: telegram_def asks_wide_def DAPISC_VALUE_def DAPISC_MODE_SHIFT_def DAPISC_MODE_NARROW_def
      DAPISC_MODE_WIDE_def DAPISC_SIGNATURE_def)

lemma held_narrow: "triple (held b d) (dap_dapisc_narrow D) (\<lambda>_. held False d)"
proof -
  have "triple (held b d)
      (raw_exchange D 16 (ucast (DAPISC_VALUE OR push_bit DAPISC_MODE_SHIFT DAPISC_MODE_NARROW)) 16 2) (\<lambda>_. held False d)"
    using held_raw [OF telegrams(3), of b d D 2] telegrams(4) by simp
  then show ?thesis unfolding dap_dapisc_narrow_def by (rule triple_bind) (rule held_keep, intro told_frame)
qed

lemma held_prime: "triple (held False d) (dap_dapisc_prime D) (\<lambda>_. held False d)"
proof -
  have "triple (held False d) (dapisc_attempts D (Suc 3) 16 (ucast DAPISC_VALUE) 16 0) (\<lambda>_. held False d)"
    using held_attempts [OF telegrams(1), of False d D 3 0] telegrams(2) by simp
  then have "triple (held False d) (dap_dapisc_write_read D 16 (ucast DAPISC_VALUE) 16) (\<lambda>_. held False d)"
    by (simp only: dap_dapisc_write_read_def if_True simp_thms Suc_numeral semiring_norm)
  then show ?thesis
    unfolding dap_dapisc_prime_def
    by (intro triple_for_each triple_bind [of _ _ "\<lambda>_. held False d"]) (assumption, rule held_keep, intro told_frame)
qed

lemma held_switch: "triple (held b d) (switch_wide D) (\<lambda>_. held True d)"
proof -
  have "triple (held b d) (dap_dapisc_write_read D 48 (push_bit 16 DAPISC_SIGNATURE OR
      ucast (DAPISC_VALUE OR push_bit DAPISC_MODE_SHIFT DAPISC_MODE_WIDE)) 48) (\<lambda>_. held True d)"
    using held_attempts [OF telegrams(5), of b d D 0 0] telegrams(6) by (simp add: dap_dapisc_write_read_def)
  then show ?thesis unfolding switch_wide_def Let_def
    apply -
    apply (rule triple_bind, rule held_keep, intro told_frame)
    apply (rule triple_bind, rule held_keep, intro told_frame)
    apply (rule triple_bind, assumption)
    apply (rule held_keep, intro told_frame)
    done
qed

lemma held_exit:
  "triple (\<lambda>s. held b d s \<and> wide_active s = a) (dap_wide_exit D) (\<lambda>_. held (b \<and> \<not> a) d)"
proof -
  have "triple (\<lambda>s. held b (d + 1) s \<and> wide_active s = a) (do {
      active \<leftarrow> gets wide_active;
      if_do active (do { dap_dapisc_narrow D; dap_phy_fpga_set_skew 0 0; modify (\<lambda>s. s\<lparr>wide_active := False\<rparr>) }) })
    (\<lambda>_. held (b \<and> \<not> a) (d + 1))"
    apply (rule triple_known [where c = a], simp)
    apply (cases a; simp add: if_do_def)
     apply (rule triple_pre [where P' = "held b (d + 1)"])
      apply (rule triple_bind, rule held_narrow, rule held_keep, intro told_frame, simp)
    apply (rule triple_return, simp)
    done
  then show ?thesis unfolding dap_wide_exit_def by (rule held_lock)
qed

lemma held_enter:
  "triple (\<lambda>s. held a d s \<and> wide_active s = a) (dap_wide_enter D dv) (\<lambda>err. held (err = ESP_OK) d)"
proof -
  have keep: "rel same_told m \<Longrightarrow> triple (held b d) m (\<lambda>_. held b d)" for m :: "('e wide_scheme, 'r) state" and b d
    by (rule held_keep)
  have fail: "err \<noteq> ESP_OK \<Longrightarrow> triple (held False d) (ret err) (\<lambda>err. held (err = ESP_OK) d)" for err d
    by (rule triple_return) simp
  have narrow: "triple (held b d) (do { dap_dapisc_narrow D; ret ESP_FAIL }) (\<lambda>err. held (err = ESP_OK) d)" for b d
    by (rule triple_bind, rule held_narrow, rule fail, simp)
  have calibrated: "triple (held True d) (do { taps \<leftarrow> calibrate D; case taps of
        None \<Rightarrow> do { dap_dapisc_narrow D; dap_phy_fpga_set_skew 0 0; ret ESP_FAIL }
      | Some p \<Rightarrow> do { dap_phy_fpga_set_skew (fst p) (snd p); modify (\<lambda>s. s\<lparr>s_tap1 := fst p, s_tap2 := snd p\<rparr>);
          modify (\<lambda>s. s\<lparr>wide_active := True\<rparr>); ret ESP_OK } }) (\<lambda>err. held (err = ESP_OK) d)" for d
    apply (rule triple_bind, rule keep, intro told_frame)
    apply (rule triple_case_option)
     apply (rule triple_bind, rule held_narrow, rule triple_bind, rule keep, intro told_frame, rule fail, simp)
    apply (rule triple_bind, rule keep, intro told_frame)+
    apply (rule triple_return, simp)
    done
  have exit: "triple (\<lambda>s. held a d s \<and> wide_active s = a) (if_do a (dap_wide_exit D)) (\<lambda>_. held False d)" for d
  proof (cases a)
    case True
    then show ?thesis using held_exit [of a d a D] by (simp add: if_do_def)
  next
    case False
    then show ?thesis by (simp add: if_do_def triple_def)
  qed
  have "triple (\<lambda>s. held a d s \<and> wide_active s = a) (enter_locked D dv) (\<lambda>err. held (err = ESP_OK) d)" for d
    unfolding enter_locked_def
    apply (rule triple_known [where c = a], simp)
    apply (rule triple_bind, rule exit)
    apply (rule triple_bind, rule keep, intro told_frame)
    apply (rule triple_if, rule fail, simp)
    apply (rule triple_bind, rule keep, intro told_frame)+
    apply (rule triple_if, rule fail, simp)
    apply (rule triple_bind, rule keep, intro told_frame)+
    apply (rule triple_if, rule fail, simp)
    apply (rule triple_bind, rule held_prime)
    apply (rule triple_bind, rule held_switch)
    apply (rule triple_bind, rule keep, intro told_frame)
    apply (rule triple_if, rule narrow, rule calibrated)
    done
  then show ?thesis unfolding dap_wide_enter_def by (rule held_lock)
qed

section \<open>What a receive timing carried\<close>

text \<open>The receive timing of the fabric, and how many block reads of the reference came back whole since the
  timing, the taps or fast mode itself were last set.\<close>

primrec timing_set :: "hist \<Rightarrow> u8 \<times> bool \<times> bool" where
  "timing_set [] = (0, False, False)"
| "timing_set (e # h) = (case e of EvSetFastTiming lag fall1 fall2 \<Rightarrow> (lag, fall1, fall2) | _ \<Rightarrow> timing_set h)"

primrec carried :: "dev \<Rightarrow> u32 list \<Rightarrow> hist \<Rightarrow> nat" where
  "carried D ws [] = 0"
| "carried D ws (e # h) = (case e of
     EvSetFast _ \<Rightarrow> 0 | EvSetFastTiming _ _ _ \<Rightarrow> 0 | EvSetSkew _ _ \<Rightarrow> 0
   | EvBlockread p n c \<Rightarrow> carried D ws h + of_bool (p = blockread_payload REF_ADDR REF_WORDS \<and> c = REF_WORDS \<and>
         d_err D (e # h) = ESP_OK \<and> map (d_words D (e # h)) [0..<c] = ws)
   | _ \<Rightarrow> carried D ws h)"

definition under_timing :: "u8 \<times> u8 \<times> u8 \<times> u8 \<Rightarrow> hist \<Rightarrow> bool" where
  "under_timing t h \<longleftrightarrow> (case t of (lag, edges, tap1, tap2) \<Rightarrow> fast_on h \<and>
     timing_set h = (lag, edges AND 1 \<noteq> 0, edges AND 2 \<noteq> 0) \<and> taps_set h = (tap1, tap2))"

definition keeps_timing :: "dev \<Rightarrow> 'e probe_scheme \<Rightarrow> 'e probe_scheme \<Rightarrow> bool" where
  "keeps_timing D s s' \<longleftrightarrow> (\<forall>t. under_timing t (hist s) \<longrightarrow> under_timing t (hist s')) \<and>
     (\<forall>ws. carried D ws (hist s) \<le> carried D ws (hist s'))"

interpretation timing: link_frame "keeps_timing D :: 'e probe_scheme \<Rightarrow> 'e probe_scheme \<Rightarrow> bool"
proof
  show "keeps_timing D s s" for s :: "'e probe_scheme" by (simp add: keeps_timing_def)
  show "keeps_timing D s s''" if "keeps_timing D s s'" "keeps_timing D s' s''" for s s' s'' :: "'e probe_scheme"
    using that unfolding keeps_timing_def by (meson order_trans)
  show "keeps_timing D s (s\<lparr>hist := e # hist s\<rparr>)" if "traffic e" for e and s :: "'e probe_scheme"
    using that by (cases e) (simp_all add: keeps_timing_def under_timing_def)
  show "keeps_timing D s (s\<lparr>hist := e # hist s\<rparr>)" if "block_read e" for e and s :: "'e probe_scheme"
    using that by (cases e) (simp_all add: keeps_timing_def under_timing_def)
qed (simp_all add: keeps_timing_def)

definition same_timing :: "dev \<Rightarrow> 'e wide_scheme \<Rightarrow> 'e wide_scheme \<Rightarrow> bool" where
  "same_timing D s s' \<longleftrightarrow> keeps_timing D s s' \<and> ref_block s' = ref_block s"

interpretation same_timing: preorder_frame "same_timing D :: 'e wide_scheme \<Rightarrow> 'e wide_scheme \<Rightarrow> bool"
  by unfold_locales (auto simp: same_timing_def intro: timing.R_refl timing.R_trans)

lemma unchanged_ref_block: "unchanged s s' \<Longrightarrow> ref_block s' = ref_block s"
  by (elim unchangedE) simp

lemma link_same_timing: "rel unchanged m \<Longrightarrow> rel (keeps_timing D) m \<Longrightarrow> rel (same_timing D) m"
  unfolding rel_def same_timing_def by (simp add: unchanged_ref_block)

text \<open>A good reading of the reference under the fabric is one more block read that came back whole.\<close>

lemma blockread_carried:
  fixes s :: "'e wide_scheme"
  assumes "\<And>h. d_in_use D h" "run (dap_probe_blockread D REF_ADDR REF_WORDS) s = ((ESP_OK, ws), s')"
  shows "Suc (carried D ws (hist s)) \<le> carried D ws (hist s')"
  using assms(2)
  by (auto simp: dap_probe_blockread_def run_with_lock dap_probe_blockread_locked_def assms(1) dap_phy_fpga_blockread_def
      REF_WORDS_def)

definition reading :: "dev \<Rightarrow> u8 \<times> u8 \<times> u8 \<times> u8 \<Rightarrow> nat \<Rightarrow> 'e wide_scheme \<Rightarrow> bool" where
  "reading D t n s \<longleftrightarrow> under_timing t (hist s) \<and> ((\<forall>h. d_in_use D h) \<longrightarrow> n \<le> carried D (ref_block s) (hist s))"

lemma reading_step: "reading D t n s \<Longrightarrow> same_timing D s s' \<Longrightarrow> reading D t n s'"
  unfolding reading_def same_timing_def keeps_timing_def by (metis order_trans)

lemma reading_keep: "rel (same_timing D) m \<Longrightarrow> triple (reading D t n) m (\<lambda>_. reading D t n)"
  by (erule of_rel) (rule reading_step)

lemmas timing_frame = same_timing.rules
  link_same_timing [OF sense_rules(2) timing.link_emit(3)]
  link_same_timing [OF read32_rules(2) timing.link_word(1)]
  link_same_timing [OF clear_error_state_rules(2) timing.link_word(3)]
  link_same_timing [OF dapisc_rules(2) timing.link_word(4)]
  link_same_timing [OF blockread_rules(2) timing.link_blockread(1)]

lemma blockread_reading:
  "triple (\<lambda>s. reading D t n s \<and> ref_block s = ref) (dap_probe_blockread D REF_ADDR REF_WORDS)
     (\<lambda>(err, ws) s. reading D t (if err = ESP_OK \<and> ws = ref then Suc n else n) s)"
proof (rule tripleI)
  fix s :: "'e wide_scheme" and x s' assume P: "reading D t n s \<and> ref_block s = ref" and r: "run (dap_probe_blockread D REF_ADDR REF_WORDS) s = (x, s')"
  obtain err ws where x: "x = (err, ws)" by (metis surj_pair)
  have "rel (same_timing D) (dap_probe_blockread D REF_ADDR REF_WORDS :: ('e wide_scheme, esp_err \<times> u32 list) state)"
    by (intro timing_frame)
  from relD [OF this r] have f: "same_timing D s s'" .
  show "(case x of (err, ws) \<Rightarrow> \<lambda>s. reading D t (if err = ESP_OK \<and> ws = ref then Suc n else n) s) s'"
    using reading_step [OF conjunct1 [OF P] f] P f r blockread_carried [of D s ws s'] unfolding x
    by (auto simp: reading_def same_timing_def intro: order_trans)
qed

lemma taps_reading:
  "triple (reading D t n) (taps_carry_data D) (\<lambda>ok s. ok \<longrightarrow> reading D t (Suc n) s)"
proof -
  let ?Q = "\<lambda>ok s. ok \<longrightarrow> reading D t (Suc n) s"
  have keep: "rel (same_timing D) m \<Longrightarrow> triple (\<lambda>s. reading D t n s \<and> ref_block s = ref) m
      (\<lambda>_ s. reading D t n s \<and> ref_block s = ref)" for m :: "('e wide_scheme, 'r) state" and ref
    by (erule of_rel) (auto intro: reading_step simp: same_timing_def)
  have no: "triple P (ret False) ?Q" for P by (rule triple_return) simp
  have report: "triple (?Q ok) (if_do (\<not> ok) (do { dap_probe_clear_error_state D; skip })) (\<lambda>_. ?Q ok)" for ok
    by (cases ok) (simp_all add: triple_def if_do_def)
  have "triple (\<lambda>s. reading D t n s \<and> ref_block s = ref) (taps_carry_data D) ?Q" for ref
    unfolding taps_carry_data_def
    apply (rule triple_known [where c = ref], simp)
    apply (rule triple_bind, rule keep, intro timing_frame)
    apply (rule triple_bind [where R = ?Q])
     apply (rule triple_if, rule no)
     apply (rule triple_bind, rule keep, intro timing_frame, rule triple_case_prod)
     apply (rule triple_if, rule no)
     apply (rule triple_bind, rule blockread_reading, rule triple_case_prod, rule triple_return, auto split: if_splits)
    apply (rule triple_bind, rule report, rule triple_return, assumption)
    done
  from triple_ex [of "\<lambda>ref s. reading D t n s \<and> ref_block s = ref", OF this] show ?thesis by (rule triple_pre) simp
qed

lemma timing_reading:
  "triple (\<lambda>_. True) (fast_timing_works D t) (\<lambda>ok s. ok \<longrightarrow> reading D t 3 s)"
proof -
  obtain lag edges t1 t2 where t: "t = (lag, edges, t1, t2)" by (metis prod_cases4)
  have set: "triple (\<lambda>_. True) (dap_phy_fpga_set_skew t1 t2) (\<lambda>_ s. taps_set (hist s) = (t1, t2))"
    "triple (\<lambda>s. taps_set (hist s) = (t1, t2)) (dap_phy_fpga_set_fast_timing lag a b)
       (\<lambda>_ s. taps_set (hist s) = (t1, t2) \<and> timing_set (hist s) = (lag, a, b))"
    "triple (\<lambda>s. taps_set (hist s) = (t1, t2) \<and> timing_set (hist s) = (lag, edges AND 1 \<noteq> 0, edges AND 2 \<noteq> 0))
       (dap_phy_fpga_set_fast True) (\<lambda>_. reading D t 0)" for a b
    by (simp_all add: triple_def dap_phy_fpga_set_skew_def dap_phy_fpga_set_fast_timing_def dap_phy_fpga_set_fast_def
        reading_def under_timing_def t)
  have again: "triple (\<lambda>s. ok \<longrightarrow> reading D t n s) (if ok then taps_carry_data D else ret False)
      (\<lambda>ok s. ok \<longrightarrow> reading D t (Suc n) s)" for ok n
    using taps_reading [of D t n] by (cases ok) (auto intro: triple_return)
  have "triple (\<lambda>_. True) (fast_timing_works D t) (\<lambda>ok s. ok \<longrightarrow> reading D t (Suc (Suc (Suc 0))) s)"
    unfolding fast_timing_works_def t prod.case
    apply (rule triple_bind, rule set(1))
    apply (rule triple_bind, rule set(2))
    apply (rule triple_bind, rule set(3) [unfolded t])
    apply (rule triple_bind, rule taps_reading)
    apply (rule triple_bind, rule again [unfolded t])
    apply (rule again [unfolded t])
    done
  then show ?thesis by (simp add: numeral_eq_Suc)
qed

lemma search_reading:
  "triple (\<lambda>_. True) (fast_search D ts) (\<lambda>x s. \<forall>t. x = Inr (Some t) \<longrightarrow> t \<in> set ts \<and> reading D t 3 s)"
proof (induction ts)
  case Nil
  show ?case unfolding fast_search.simps by (rule triple_return) simp
next
  case (Cons t ts)
  have alive: "triple (\<lambda>_. True) (dap_alive D) (\<lambda>_ _. True)" by (rule triple_const(2)) simp
  show ?case unfolding fast_search.simps
    apply (rule triple_bind, rule timing_reading)
    apply (rule triple_if)
     apply (rule triple_return, simp)
    apply (rule triple_pre [where P' = "\<lambda>_. True"])
     apply (rule triple_bind, rule alive)
     apply (rule triple_if, rule triple_return, simp)
     apply (rule triple_post [OF Cons.IH], simp)
    apply simp
    done
qed

text \<open>The table of \<open>dap_fast_enter\<close>, and what its success is worth.\<close>

lemma fast_enter_reading:
  "triple (\<lambda>s. wide_active s = a) (dap_fast_enter D)
    (\<lambda>err s. err = ESP_OK \<longrightarrow> (\<exists>t\<in>set (if a then k_fast_wide else k_fast_narrow). reading D t 3 s))"
proof -
  let ?Q = "\<lambda>err s. err = ESP_OK \<longrightarrow> (\<exists>t\<in>set (if a then k_fast_wide else k_fast_narrow). reading D t 3 s)"
  have fail: "err \<noteq> ESP_OK \<Longrightarrow> triple P (ret err) ?Q" for err P by (rule triple_return) simp
  have any: "triple P m (\<lambda>_ _. True)" for P and m :: "('e wide_scheme, 'r) state" by (rule triple_const(2)) simp
  have found: "triple (\<lambda>s. t \<in> set ts \<and> reading D t 3 s) (modify (\<lambda>s. s\<lparr>s_fast := True\<rparr>))
      (\<lambda>_ s. t \<in> set ts \<and> reading D t 3 s)" for t ts
    by (simp add: triple_def reading_def)
  have sense: "triple (\<lambda>s. wide_active s = a) (sense f) (\<lambda>_ s. wide_active s = a)" for f
    by (simp add: triple_def sense_def)
  show ?thesis
    unfolding dap_fast_enter_def
    apply (rule triple_with_lock)
      prefer 2 apply simp
     prefer 2 apply (simp add: reading_def under_timing_def)
    apply (rule triple_bind, rule sense)
    apply (rule triple_if, rule fail, simp)
    apply (rule triple_known [where c = a], simp)
    apply (rule triple_bind, rule any)
    apply (rule triple_if, rule fail, simp)
    apply (rule triple_bind, rule search_reading)
    apply (rule triple_case_sum, rule fail, simp)
    apply (rule triple_case_option)
     apply (rule triple_bind, rule any, rule fail, simp)
    apply (rule triple_bind, rule triple_pre [OF found], blast)
    apply (rule triple_return, blast)
    done
qed

section \<open>Properties\<close>


text \<open>C20: \<open>dap_fast_enter\<close> succeeds only with fast mode on, under a receive timing and taps of its table (of the
  table for the mode the link is in), and, if the fabric owns the link throughout, only after three block reads of the
  reference came back whole since that timing was set. From a state where the fabric is fast only if the session flag
  says so, that stays so whatever the search meets: success sets the flag, a failure does not set it (so that after a
  failure outside a session the link is at its dividers), and \<open>dap_fast_exit\<close> always ends at the dividers with the
  flag clear. Neither touches wide mode.\<close>

theorem fast_mode_session:
  fixes s :: "'e wide_scheme"
  assumes "fast_on (hist s) \<longrightarrow> s_fast s"
  shows "let s' = final (dap_fast_enter D) s; ok = (result (dap_fast_enter D) s = ESP_OK);
             s'' = final dap_fast_exit s
    in (ok \<longrightarrow> fast_on (hist s') \<and> (\<exists>t\<in>set (if wide_active s then k_fast_wide else k_fast_narrow).
          under_timing t (hist s') \<and> ((\<forall>h. d_in_use D h) \<longrightarrow> 3 \<le> carried D (ref_block s') (hist s')))) \<and>
       (fast_on (hist s') \<longrightarrow> s_fast s') \<and> s_fast s' = (ok \<or> s_fast s) \<and> \<not> fast_on (hist s'') \<and> \<not> s_fast s'' \<and>
       wide_on (hist s') = wide_on (hist s) \<and> wide_active s' = wide_active s \<and>
       wide_on (hist s'') = wide_on (hist s) \<and> wide_active s'' = wide_active s"
proof -
  let ?v = "(wide_active s, s_fast s, wide_on (hist s), (s_tap1 s, s_tap2 s))"
  have st: "some_timing ?v (fast_on (hist s)) s"
    by (auto simp: some_timing_def at_def session_def)
  have fast: "under_timing t h \<Longrightarrow> fast_on h" for t h by (simp add: under_timing_def split: prod.splits)
  from triple_final [OF fast_enter_reading refl, of D s]
  have "result (dap_fast_enter D) s = ESP_OK \<longrightarrow> (\<exists>t\<in>set (if wide_active s then k_fast_wide else k_fast_narrow).
      under_timing t (hist (final (dap_fast_enter D) s)) \<and> ((\<forall>h. d_in_use D h) \<longrightarrow>
        3 \<le> carried D (ref_block (final (dap_fast_enter D) s)) (hist (final (dap_fast_enter D) s))))"
    unfolding reading_def by blast
  with triple_final [OF fast_entered [OF assms] st, of D] triple_final [OF fast_exited st] assms show ?thesis
    by (auto simp: some_timing_def Let_def at_def session_def dest: fast)
qed

definition wide0 :: wide where
  "wide0 = tricore.extend tc0 \<lparr>rx_wide = False, wide_active = False, s_tap1 = 0, s_tap2 = 0, ref_block = [], s_fast = False\<rparr>"

lemma wide0_hist [simp]: "hist wide0 = []" "wide_active wide0 = False" "s_fast wide0 = False"
  by (simp_all add: wide0_def tc0_def tricore.defs)


text \<open>A wide session whose reference the device answers: fast mode is entered under the first timing.\<close>

definition ones :: "wide \<Rightarrow> bool" where
  "ones s \<longleftrightarrow> ref_block s = replicate REF_WORDS 1 \<and> wide_active s"

lemma ones_step:
  assumes "rel unchanged m" "\<And>s. fst (run m s) = v"
  shows "triple ones m (\<lambda>r s. r = v \<and> ones s)"
proof (rule tripleI)
  fix s r s' assume "ones s" and r: "run m s = (r, s')"
  with relD [OF assms(1) r] assms(2) [of s] show "r = v \<and> ones s'" by (elim unchangedE) (simp add: ones_def)
qed

lemma ones_set:
  "triple ones (dap_phy_fpga_set_skew t1 t2) (\<lambda>_. ones)" "triple ones (dap_phy_fpga_set_fast b) (\<lambda>_. ones)"
  "triple ones (dap_phy_fpga_set_fast_timing l a c) (\<lambda>_. ones)"
  by (simp_all add: triple_def ones_def dap_phy_fpga_set_skew_def dap_phy_fpga_set_fast_def
      dap_phy_fpga_set_fast_timing_def)

lemma ones_taps: "triple ones (taps_carry_data (good_dev 1)) (\<lambda>ok s. ok \<and> ones s)"
proof -
  have conf: "fst (fst (run (dap_probe_client_write (good_dev 1) i e v 12 x) s)) = ESP_OK" for i e v x and s :: wide
    using faultless_send [of "good_dev 1" DAP_CMD_CLIENT_WRITE 16 16 "push_bit 4 v OR ucast (i AND 0x0F)" 0 x s]
    by (simp add: dap_probe_client_write_def bus_consts)
  have mode: "triple ones (dap_probe_set_rw_mode (good_dev 1) True) (\<lambda>r s. r = ESP_OK \<and> ones s)"
  proof (intro ones_step dapisc_rules)
    fix s :: wide
    show "fst (run (dap_probe_set_rw_mode (good_dev 1) True) s) = ESP_OK"
      using conf by (simp add: dap_probe_set_rw_mode_def run_with_lock dap_probe_set_rw_mode_locked_def split_beta Let_def)
  qed
  have word: "triple ones (dap_probe_read32 (good_dev 1) a 0) (\<lambda>r s. r = (ESP_OK, 1) \<and> ones s)" for a
    by (intro ones_step read32_rules) (simp add: good_read32)
  have block: "triple ones (dap_probe_blockread (good_dev 1) REF_ADDR REF_WORDS)
      (\<lambda>r s. r = (ESP_OK, replicate REF_WORDS 1) \<and> ones s)"
    by (intro ones_step blockread_rules) (simp add: dap_probe_blockread_def run_with_lock dap_probe_blockread_locked_def
        dap_phy_fpga_blockread_def good_dev_def REF_WORDS_def map_replicate_const)
  have report: "triple (\<lambda>s. ok \<and> ones s) (if_do (\<not> ok) m) (\<lambda>_ s. ok \<and> ones s)" for ok m
    by (cases ok) (auto simp: triple_def if_do_def)
  show ?thesis
    unfolding taps_carry_data_def
    apply (rule triple_known [where c = "replicate REF_WORDS 1"], simp add: ones_def)
    apply (rule triple_bind, rule mode)
    apply (rule triple_bind [where R = "\<lambda>ok s. ok \<and> ones s"])
     apply (rule triple_if, rule triple_false, simp)
     apply (rule triple_bind, rule triple_pre [OF word], simp)
     apply (rule triple_case_prod, rule triple_if, rule triple_false, simp add: REF_WORDS_def)
     apply (rule triple_bind, rule triple_pre [OF block], simp)
     apply (rule triple_case_prod, rule triple_return, simp)
    apply (rule triple_bind, rule report, rule triple_return, assumption)
    done
qed

lemma fast_entered_good:
  assumes "ones s"
  shows "result (dap_fast_enter (good_dev 1)) s = ESP_OK"
proof -
  have works: "triple ones (fast_timing_works (good_dev 1) t) (\<lambda>ok s. ok \<and> ones s)" for t
  proof -
    have again: "triple (\<lambda>s. ok \<and> ones s) (if ok then taps_carry_data (good_dev 1) else ret False) (\<lambda>ok s. ok \<and> ones s)" for ok
      using ones_taps by (cases ok) (auto simp: triple_const)
    show ?thesis unfolding fast_timing_works_def
      by (rule triple_case_prod)+ (rule triple_bind, rule ones_set, rule triple_bind, rule ones_set, rule triple_bind,
          rule ones_set, rule triple_bind, rule ones_taps, rule triple_bind, rule again, rule again)
  qed
  have search: "triple ones (fast_search (good_dev 1) (t # ts)) (\<lambda>x _. x = Inr (Some t))" for t ts
    unfolding fast_search.simps
    by (rule triple_bind, rule works, rule triple_if, rule triple_return, simp, rule triple_false, simp)
  obtain t ts where table: "k_fast_wide = t # ts" by (simp add: k_fast_wide_def)
  have "triple ones (dap_fast_enter (good_dev 1)) (\<lambda>err _. err = ESP_OK)"
    unfolding dap_fast_enter_def
    apply (rule triple_with_lock)
      prefer 2 apply (simp add: ones_def)
     prefer 2 apply assumption
    apply (rule triple_bind [where R = "\<lambda>u s. u \<and> ones s"], simp add: triple_def sense_def good_dev_def)
    apply (rule triple_if, rule triple_false, simp)
    apply (rule triple_known [where c = True], simp add: ones_def)
    apply (rule triple_bind [where R = "\<lambda>err s. err = ESP_OK \<and> ones s"], simp, rule triple_return, simp)
    apply (rule triple_if, rule triple_false, simp)
    apply (rule triple_bind [where R = "\<lambda>x _. x = Inr (Some t)"])
     apply (simp only: if_True table, rule triple_pre [OF search], simp)
    apply (rule triple_case_sum, rule triple_false, simp)
    apply (rule triple_case_option, rule triple_false, simp)
    apply (rule triple_bind, rule triple_const(2), rule TrueI, rule triple_return, rule refl)
    done
  from triple_final [OF this assms] show ?thesis .
qed


lemma fast_mode_session_witness:
  defines "s \<equiv> wide0\<lparr>wide_active := True, ref_block := replicate REF_WORDS 1\<rparr>"
  defines "s' \<equiv> final (dap_fast_enter (good_dev 1)) s"
  shows "fast_on (hist s') \<and> s_fast s' \<and>
    (\<exists>t\<in>set k_fast_wide. under_timing t (hist s') \<and> 3 \<le> carried (good_dev 1) (ref_block s') (hist s'))"
proof -
  have "result (dap_fast_enter (good_dev 1)) s = ESP_OK" by (rule fast_entered_good) (simp add: ones_def s_def)
  moreover have "\<forall>h. d_in_use (good_dev 1) h" by (simp add: good_dev_def)
  ultimately show ?thesis
    using fast_mode_session [of s "good_dev 1"] unfolding s'_def by (auto simp: Let_def s_def)
qed

section \<open>Reading a telegram\<close>

text \<open>The reply window as the source describes it: idle line, the start bit (on both lines at once in wide
  mode), 16 bits LSB first, the CRC6.\<close>

definition dapisc_window :: "bool \<Rightarrow> nat \<Rightarrow> u16 \<Rightarrow> u8 list" where
  "dapisc_window wide k v =
     (let value = map (bit_at v) [0..<16]
      in replicate k 0 @ replicate (if wide then 2 else 1) 1 @ value @ map (bit_at (dap_crc6 value 16)) [0..<6])"

lemma raw_bits_word_of_bits:
  assumes "length bs \<le> 32" "\<And>b. b \<in> set bs \<Longrightarrow> b = 0 \<or> b = 1"
  shows "raw_bits (word_of_bits bs) = bs @ replicate (32 - length bs) 0"
proof (rule nth_equalityI)
  show "length (raw_bits (word_of_bits bs)) = length (bs @ replicate (32 - length bs) 0)"
    using assms(1) by (simp add: raw_bits_def)
  fix i assume "i < length (raw_bits (word_of_bits bs))"
  then have i: "i < 32" by (simp add: raw_bits_def)
  have "raw_bits (word_of_bits bs) ! i = of_bool (bit (word_of_bits bs :: u32) i)"
    using i bit_at_eq [of "word_of_bits bs :: u32" i] by (simp add: raw_bits_def bit_at_def)
  also have "\<dots> = (bs @ replicate (32 - length bs) 0) ! i"
    using i assms(2) [of "bs ! i"] by (auto simp: bit_word_of_bits nth_append)
  finally show "raw_bits (word_of_bits bs) ! i = (bs @ replicate (32 - length bs) 0) ! i" .
qed

lemma bits_to_word_map: "bits_to_word (map (bit_at (w :: 'a::len word)) [0..<n]) = (take_bit n w :: 'a word)"
proof -
  let ?bs = "map (bit_at w) [0..<n]"
  have "foldl (\<lambda>v i. v OR push_bit i (ucast (?bs ! i AND 1))) 0 [0..<m] = (take_bit m w :: 'a word)" if "m \<le> n" for m
    using that
  proof (induction m)
    case (Suc m)
    have "take_bit m w OR push_bit m (ucast (?bs ! m AND 1)) = (take_bit (Suc m) w :: 'a word)"
      using Suc.prems by (intro bit_word_eqI) (auto simp: bit_at_eq bit_simps less_Suc_eq)
    with Suc show ?case by simp
  qed simp
  from this [of n] show ?thesis by (simp add: bits_to_word_def)
qed

lemma find_start: "find (\<lambda>i. (replicate k 0 @ (1 :: u8) # bs) ! i \<noteq> 0) [0..<n] = Some k" if "k < n"
  using that by (auto simp: find_Some_iff nth_append intro!: exI [of _ k])

text \<open>C21: a DAPISC reply is decoded to its value wherever in the raw window it starts, narrow and wide.\<close>

theorem dapisc_round_trip:
  assumes "k + (if wide then 2 else 1) + 22 \<le> 32"
  shows "decode wide (word_of_bits (dapisc_window wide k v)) now = (True, v)"
proof -
  let ?step = "if wide then 2 else 1 :: nat" and ?v = "map (bit_at v) [0..<16]"
  let ?c = "map (bit_at (dap_crc6 ?v 16)) [0..<6]"
  let ?w = "dapisc_window wide k v"
  have w: "?w = replicate k 0 @ replicate ?step 1 @ ?v @ ?c" by (simp add: dapisc_window_def Let_def)
  have len: "length ?w = k + ?step + 22" by (simp add: w)
  have "raw_bits (word_of_bits ?w) = ?w @ replicate (32 - length ?w) 0"
  proof (rule raw_bits_word_of_bits)
    show "length ?w \<le> 32" using assms len by simp
    show "b = 0 \<or> b = 1" if "b \<in> set ?w" for b using that by (auto simp: w bit_at_eq)
  qed
  then have bits: "raw_bits (word_of_bits ?w) = (replicate k 0 @ replicate ?step 1) @ ?v @ ?c @ replicate (32 - length ?w) 0"
    by (simp add: w)
  have split: "replicate ?step (1 :: u8) = 1 # replicate (?step - 1) 1" by (simp add: numeral_2_eq_2)
  have start: "find (\<lambda>i. raw_bits (word_of_bits ?w) ! i \<noteq> 0) [0..<32] = Some k"
    unfolding bits split using assms find_start [of k 32] by simp
  have rest: "drop (k + ?step) (raw_bits (word_of_bits ?w)) = ?v @ ?c @ replicate (32 - length ?w) 0"
    unfolding bits by simp
  have "dap_crc6_residue_ok (?v @ ?c) (length ?v + 6)"
    by (subst residue_ok_iff) (auto simp: bit_at_eq)
  then have crc: "dap_crc6_residue_ok (?v @ ?c @ replicate (32 - length ?w) 0) (16 + 6)"
    by (simp add: dap_crc6_residue_ok_def)
  have "take_bit 16 v = v" by (rule bit_word_eqI) (auto simp: bit_simps dest: bit_imp_le_length)
  then have "bits_to_word (take 16 (?v @ ?c @ replicate (32 - length ?w) 0)) = v"
    by (simp add: bits_to_word_map)
  with start rest crc assms show ?thesis by (simp add: decode_def Let_def)
qed

lemma dapisc_round_trip_witness:
  "decode True (word_of_bits (dapisc_window True 3 0x0F10)) 0 = (True, 0x0F10)"
  by (rule dapisc_round_trip) simp

section \<open>What a session changes\<close>

text \<open>\<open>link_step\<close>: nothing outside the link and its two modes changed, the lock is held as deep as before,
  and no word went to the DMU's command sequence interpreter.\<close>

definition link_step :: "'e wide_scheme \<Rightarrow> 'e wide_scheme \<Rightarrow> bool" where
  "link_step s s' \<longleftrightarrow> calm periph s s' \<and> wide.more s' = wide.more s \<and> present s' = present s \<and> slots s' = slots s"

interpretation link_step: preorder_frame "link_step :: 'e wide_scheme \<Rightarrow> 'e wide_scheme \<Rightarrow> bool"
  by unfold_locales (auto simp: link_step_def calm.R_refl elim: calm.R_trans)

named_theorems link_step_frame \<open>operations of the link and its modes\<close>

lemma unchanged_link_step:
  fixes m :: "('e wide_scheme, 'r) state"
  assumes "rel unchanged m" "rel (grows periph) m"
  shows "rel link_step m"
  unfolding rel_def
proof
  fix s :: "'e wide_scheme"
  have u: "unchanged s (snd (run m s))" and g: "grows periph s (snd (run m s))" using assms by (auto simp: rel_def)
  from u show "link_step s (snd (run m s))"
  proof (cases rule: unchangedE)
    case (1 h hu t w)
    with g show ?thesis by (simp add: link_step_def calm_def grows_def)
  qed
qed

lemma link_step_emit [link_step_frame]:
  assumes "e \<noteq> EvLock" "e \<noteq> EvUnlock" "\<And>b. bus_step e b = b"
  shows "rel link_step (emit e :: ('e wide_scheme, unit) state)" "rel link_step (ask e f :: ('e wide_scheme, 'r) state)"
  using assms by (simp_all add: rel_def link_step_def calm_def grows_def bus_writes_def)

lemma link_step_lock [link_step_frame]:
  assumes "rel link_step m" shows "rel link_step (with_lock m :: ('e wide_scheme, 'r) state)"
proof (rule relI)
  fix s r s' assume "run (with_lock m :: ('e wide_scheme, 'r) state) s = (r, s')"
  then obtain s1 where s1: "run m (s\<lparr>hist := EvLock # hist s\<rparr>) = (r, s1)" "s' = s1\<lparr>hist := EvUnlock # hist s1\<rparr>"
    by (auto simp: with_lock_def split: prod.splits)
  from relD [OF assms s1(1)] show "link_step s s'"
    by (simp add: s1(2) link_step_def calm_def grows_def bus_writes_def)
qed

lemma link_step_modify [link_step_frame]:
  "rel link_step (modify (\<lambda>s. s\<lparr>rx_wide := b\<rparr>) :: ('e wide_scheme, unit) state)"
  "rel link_step (modify (\<lambda>s. s\<lparr>ref_block := ws\<rparr>) :: ('e wide_scheme, unit) state)"
  "rel link_step (modify (\<lambda>s. s\<lparr>wide_active := b\<rparr>) :: ('e wide_scheme, unit) state)"
  "rel link_step (modify (\<lambda>s. s\<lparr>s_fast := b\<rparr>) :: ('e wide_scheme, unit) state)"
  "rel link_step (modify (\<lambda>s. s\<lparr>s_tap1 := t1, s_tap2 := t2\<rparr>) :: ('e wide_scheme, unit) state)"
  by (simp_all add: rel_def link_step_def calm_def grows_def)

lemma grows_ocds [grows_frame]: "rel (grows periph) (dap_probe_enable_ocds D)"
  unfolding dap_probe_enable_ocds_def dap_probe_enable_ocds_locked_def
  by (intro grows_frame) (auto simp: periph_def DAP_ADDR_OEC_PAT_def DAP_ADDR_OCNTRL_def DAP_ADDR_MCDS_CLC_def DAP_ADDR_MCDS_CT_def)

text \<open>Commands that no device decodes a write from put nothing on the bus.\<close>

lemma grows_send:
  assumes "\<And>b. snd (client_frame cmd (take_bit n data) b) = snd b" "cmd \<le> 0x1F" "lf \<le> 63" "n \<le> 63"
  shows "rel (grows A) (send_command D cmd lf data n rb out)"
proof (rule relI, rule grows_blog)
  fix s r s' assume "run (send_command D cmd lf data n rb out) s = (r, s')"
  from send_command_effect [OF assms(2-4) this] show "blog s' = blog s"
    unfolding heard_def by (auto dest!: steps_blog simp: assms(1) bus_writes_def)
qed

lemma grows_sync [grows_frame]: "rel (grows A) (dap_probe_sync D out)" "rel (grows A) (dap_probe_attach D out n)"
  "rel (grows A) (dap_probe_client_set D c out)"
proof -
  show s: "rel (grows A) (dap_probe_sync D out)" for D out
    unfolding dap_probe_sync_def by (rule grows_send) (simp_all add: bus_consts client_frame_def)
  have "rel (grows A) (attach_loop D n err out)" for n err out
    by (induction n arbitrary: err out) (auto intro!: grows_frame s)
  then show "rel (grows A) (dap_probe_attach D out n)" by (simp add: dap_probe_attach_def)
  show "rel (grows A) (dap_probe_client_set D c out)"
    unfolding dap_probe_client_set_def by (rule grows_send) (simp_all add: bus_consts client_frame_def)
qed

lemma grows_rw_mode [grows_frame]: "rel (grows A) (dap_probe_set_rw_mode D b)"
proof -
  have low: "ucast (take_bit 16 (push_bit 4 (c :: u64)) AND 0xF) = (0 :: u8)" for c
  proof -
    have m: "(0xF :: u64) = mask 4" by (simp add: mask_numeral)
    show ?thesis unfolding m by (rule bit_word_eqI) (auto simp: bit_simps bit_mask_iff DAP_IO_CONF_def)
  qed
  have "rel (grows A) (dap_probe_client_write D DAP_IO_CONF 4 (ucast (c :: u16)) 12 out)" for c out
    unfolding dap_probe_client_write_def
    by (intro grows_frame grows_send) (simp_all add: client_frame_def low bus_consts Let_def)
  then show ?thesis
    unfolding dap_probe_set_rw_mode_def dap_probe_set_rw_mode_locked_def by (intro grows_frame)
qed

lemma ref_periph: "i < REF_WORDS \<Longrightarrow> (REF_ADDR + 4 * of_nat i, v) \<in> periph"
proof -
  assume "i < REF_WORDS"
  then have "i < 64" by (simp add: REF_WORDS_def)
  then have "unat (4 * of_nat i :: u32) = 4 * i" by (simp add: unat_word_ariths(2) unat_of_nat)
  then have "unat (REF_ADDR + 4 * of_nat i) \<ge> 0xB8001000"
    using \<open>i < 64\<close> by (simp add: REF_ADDR_def unat_word_ariths(1))
  then show ?thesis by (simp add: periph_def word_le_nat_alt word_less_nat_alt)
qed

lemmas [link_step_frame] = link_step.rules
  unchanged_link_step [OF sense_rules(2,1)] unchanged_link_step [OF time_rules(2,1)]
  unchanged_link_step [OF time_rules(5,4)] unchanged_link_step [OF read32_rules(2,1)]
  unchanged_link_step [OF clear_error_state_rules(2,1)] unchanged_link_step [OF blockread_rules(2,1)]
  unchanged_link_step [OF blockread_rules(5,4)] unchanged_link_step [OF blockread_many_rules(2,1)]
  unchanged_link_step [OF attach_rules(1) grows_sync(2)] unchanged_link_step [OF unchanged_sync grows_sync(1)]
  unchanged_link_step [OF unchanged_ocds grows_ocds] unchanged_link_step [OF dapisc_rules(2) grows_rw_mode]

lemma link_step_write32 [link_step_frame]:
  "(a, v) \<in> periph \<Longrightarrow> rel link_step (dap_probe_write32 D a v :: ('e wide_scheme, esp_err) state)"
  by (intro unchanged_link_step write32_rules)

lemma link_step_settings [link_step_frame]:
  "rel link_step (dap_phy_fpga_set_raw_window b :: ('e wide_scheme, unit) state)"
  "rel link_step (dap_phy_fpga_set_trst b :: ('e wide_scheme, unit) state)"
  "rel link_step (dap_phy_fpga_set_rx_wide b :: ('e wide_scheme, unit) state)"
  "rel link_step (dap_phy_fpga_set_div dv :: ('e wide_scheme, unit) state)"
  "rel link_step (dap_phy_fpga_set_fast b :: ('e wide_scheme, unit) state)"
  "rel link_step (dap_phy_fpga_set_fast_timing l b1 b2 :: ('e wide_scheme, unit) state)"
  "rel link_step (dap_phy_fpga_set_skew t1 t2 :: ('e wide_scheme, unit) state)"
  "rel link_step (dap_phy_fpga_set_wide D b :: ('e wide_scheme, esp_err) state)"
  "rel link_step (dap_phy_fpga_exchange D DAPISC_CMD lf data n rb :: ('e wide_scheme, esp_err \<times> u32 \<times> u16) state)"
  unfolding dap_phy_fpga_set_raw_window_def dap_phy_fpga_set_trst_def dap_phy_fpga_set_rx_wide_def
    dap_phy_fpga_set_div_def dap_phy_fpga_set_fast_def dap_phy_fpga_set_fast_timing_def dap_phy_fpga_set_skew_def
    dap_phy_fpga_set_wide_def dap_phy_fpga_exchange_def
  by (intro link_step_frame; simp add: client_frame_def DAPISC_CMD_def DAP_CMD_CLIENT_WRITE_def)+

lemma link_step_dapisc [link_step_frame]:
  "rel link_step (dap_dapisc_write_read D lf d n :: ('e wide_scheme, bool \<times> u16) state)"
  "rel link_step (dap_dapisc_prime D :: ('e wide_scheme, unit) state)"
  "rel link_step (dap_dapisc_narrow D :: ('e wide_scheme, bool) state)"
proof -
  have raw: "rel link_step (raw_exchange D lf d n rb :: ('e wide_scheme, esp_err \<times> u32 \<times> u16) state)"
    for D lf d n rb unfolding raw_exchange_def by (intro link_step_frame)
  have attempts: "rel link_step (dapisc_attempts D k lf d n now :: ('e wide_scheme, bool \<times> u16) state)" for D k lf d n now
  proof (induction k arbitrary: now)
    case 0
    show ?case unfolding dapisc_attempts.simps by (intro link_step_frame)
  next
    case (Suc k)
    then show ?case unfolding dapisc_attempts.simps by (intro link_step_frame raw)
  qed
  show wr: "rel link_step (dap_dapisc_write_read D lf d n :: ('e wide_scheme, bool \<times> u16) state)"
    for D lf d n unfolding dap_dapisc_write_read_def by (intro attempts)
  show "rel link_step (dap_dapisc_prime D :: ('e wide_scheme, unit) state)"
    unfolding dap_dapisc_prime_def by (intro link_step_frame wr)
  show "rel link_step (dap_dapisc_narrow D :: ('e wide_scheme, bool) state)"
    unfolding dap_dapisc_narrow_def by (intro link_step_frame raw)
qed

lemma link_step_parts [link_step_frame]:
  "rel link_step (p21_7_is_input D :: ('e wide_scheme, bool) state)"
  "rel link_step (write_reference D :: ('e wide_scheme, esp_err) state)"
  "rel link_step (taps_carry_data D :: ('e wide_scheme, bool) state)"
  "rel link_step (switch_wide D :: ('e wide_scheme, bool) state)"
  "rel link_step (timing_at_div :: ('e wide_scheme, unit) state)"
  unfolding p21_7_is_input_def write_reference_def taps_carry_data_def switch_wide_def timing_at_div_def
  by (intro link_step_frame ref_periph; simp)+

lemma link_step_search [link_step_frame]:
  "rel link_step (calibrate D :: ('e wide_scheme, (u8 \<times> u8) option) state)"
  "rel link_step (fast_search D ts :: ('e wide_scheme, unit + (u8 \<times> u8 \<times> u8 \<times> u8) option) state)"
proof -
  have "rel link_step (try_taps D ps :: ('e wide_scheme, (u8 \<times> u8) option) state)" for ps
    by (induction ps) (auto intro!: link_step_frame)
  then show "rel link_step (calibrate D :: ('e wide_scheme, (u8 \<times> u8) option) state)"
    unfolding calibrate_def sync_pair_def by (intro link_step_frame)
  show "rel link_step (fast_search D ts :: ('e wide_scheme, unit + (u8 \<times> u8 \<times> u8 \<times> u8) option) state)"
    unfolding dap_alive_def
    by (induction ts) (auto simp: fast_timing_works_def dap_alive_def intro!: link_step_frame)
qed

lemma link_step_session [link_step_frame]:
  "rel link_step (dap_wide_exit D :: ('e wide_scheme, unit) state)"
  "rel link_step (dap_wide_enter D dv :: ('e wide_scheme, esp_err) state)"
  "rel link_step (dap_fast_exit :: ('e wide_scheme, unit) state)"
  "rel link_step (dap_fast_enter D :: ('e wide_scheme, esp_err) state)"
proof -
  show exit: "rel link_step (dap_wide_exit D :: ('e wide_scheme, unit) state)" for D
    unfolding dap_wide_exit_def by (intro link_step_frame)
  show "rel link_step (dap_wide_enter D dv :: ('e wide_scheme, esp_err) state)"
    unfolding dap_wide_enter_def enter_locked_def by (intro link_step_frame exit)
  show "rel link_step (dap_fast_exit :: ('e wide_scheme, unit) state)"
    unfolding dap_fast_exit_def by (intro link_step_frame)
  show "rel link_step (dap_fast_enter D :: ('e wide_scheme, esp_err) state)"
    unfolding dap_fast_enter_def by (intro link_step_frame) (auto intro!: link_step_frame split: sum.splits option.splits)
qed

end
