(* ===== verification/Dap_Trace.thy ===== *)
theory Dap_Trace
  imports Dap_Wide Flash_Api
begin

unbundle bit_operations_syntax

text \<open>
  \<open>dap_trace.c\<close>: the drain of the miniMCDS trace FIFO and the single-producer single-consumer ring
  between the drain task and the stream sender. The ring's array is a function from the index to the byte,
  \<open>None\<close> before it is allocated; indices are natural numbers below its size (at most 4 MB). What the
  FIFO registers read is up to the device. Another task ends the drain task, so whether it has left is an
  answer of the system; logging and the watchdog are left out. A division by a span of zero, which C
  leaves undefined, is the total one of HOL here; when it can happen is shown in \<open>Mcds_Session\<close>.
\<close>

section \<open>Constants\<close>

definition TRACE_MCDS_BASE :: u32 where "TRACE_MCDS_BASE = 0xFB718000"
definition TRACE_FIFONOW :: u32 where "TRACE_FIFONOW = TRACE_MCDS_BASE + 0x200"
definition TRACE_FIFOBOT :: u32 where "TRACE_FIFOBOT = TRACE_MCDS_BASE + 0x204"
definition TRACE_FIFOTOP :: u32 where "TRACE_FIFOTOP = TRACE_MCDS_BASE + 0x20C"
definition TRACE_FIFOWARN0 :: u32 where "TRACE_FIFOWARN0 = TRACE_MCDS_BASE + 0x214"
definition TRACE_FIFOWARN1 :: u32 where "TRACE_FIFOWARN1 = TRACE_MCDS_BASE + 0x218"
definition TRACE_FIFOOVRCNT :: u32 where "TRACE_FIFOOVRCNT = TRACE_MCDS_BASE + 0x21C"
definition TRACE_TRAM_BASE :: u32 where "TRACE_TRAM_BASE = 0xB8000000"
definition TRACE_PARAGRAPH :: u32 where "TRACE_PARAGRAPH = 0x400"
definition TRACE_WORDS_PER_PAR :: nat where "TRACE_WORDS_PER_PAR = 256"
definition TRACE_CHAIN_PARS :: nat where "TRACE_CHAIN_PARS = 8"
definition TRACE_NOW_EVERY :: nat where "TRACE_NOW_EVERY = 4"
definition TRACE_PTR_MASK :: u32 where "TRACE_PTR_MASK = 0x1FE0"
definition TRACE_RING_PSRAM :: nat where "TRACE_RING_PSRAM = 4 * 1024 * 1024"
definition TRACE_RING_PSRAM_MIN :: nat where "TRACE_RING_PSRAM_MIN = 1024 * 1024"
definition TRACE_RING_INTERNAL :: nat where "TRACE_RING_INTERNAL = 64 * 1024"
definition TRACE_MARGIN :: u32 where "TRACE_MARGIN = 3"
definition TRACE_OVRCNT_EVERY :: u32 where "TRACE_OVRCNT_EVERY = 16"
definition DAP_TRACE_MAGIC :: u32 where "DAP_TRACE_MAGIC = 0x50525444"
definition DAP_TRACE_FLAG_GAP :: u16 where "DAP_TRACE_FLAG_GAP = 1"
definition DAP_TRACE_FLAG_FINAL :: u16 where "DAP_TRACE_FLAG_FINAL = 2"
definition SELFTEST_PARAGRAPHS :: nat where "SELFTEST_PARAGRAPHS = 2"

section \<open>State\<close>

record dap_trace_record =
  r_magic :: u32
  r_seq :: u32
  r_tram_offset :: u32
  r_length :: u16
  r_flags :: u16
  r_lost :: u32

record dap_trace_stats =
  st_running :: bool
  st_paragraphs :: u32
  st_lost :: u32
  st_laps :: u32
  st_overruns :: u32
  st_read_errors :: u32
  st_bytes :: u32
  st_fifonow :: u32
  st_queue_free :: u32
  st_queue_dropped :: u32
  st_poll_us_max :: u32
  st_read_us :: u32
  st_read_paragraphs :: u32
  st_passes :: u32
  st_queue_size :: u32

definition no_stats :: dap_trace_stats where
  "no_stats = \<lparr>st_running = False, st_paragraphs = 0, st_lost = 0, st_laps = 0, st_overruns = 0,
     st_read_errors = 0, st_bytes = 0, st_fifonow = 0, st_queue_free = 0, st_queue_dropped = 0,
     st_poll_us_max = 0, st_read_us = 0, st_read_paragraphs = 0, st_passes = 0, st_queue_size = 0\<rparr>"

record trace = wide +
  ring :: "(nat \<Rightarrow> u8) option"   \<comment> \<open>\<open>s_ring\<close>\<close>
  ring_bytes :: nat
  ring_head :: nat              \<comment> \<open>next write; the drain's\<close>
  ring_tail :: nat              \<comment> \<open>next read; the sender's\<close>
  ring_reset_to :: nat
  ring_reset :: bool
  draining :: bool              \<comment> \<open>\<open>s_running\<close>\<close>
  s_bot :: u32
  s_top :: u32
  s_span :: u32
  s_next_par :: u32
  s_last_ovrcnt :: u32
  s_pending_lost :: u32
  s_seq :: u32
  stats :: dap_trace_stats
  s_task :: bool                \<comment> \<open>the drain task exists\<close>
  last_read_us :: int
  ovr_polls :: u32              \<comment> \<open>the counter of \<open>dap_trace_poll\<close>\<close>

definition count :: "(dap_trace_stats \<Rightarrow> dap_trace_stats) \<Rightarrow> ('e trace_scheme, unit) state" where
  "count f = modify (\<lambda>s. s\<lparr>stats := f (stats s)\<rparr>)"

section \<open>The ring\<close>

definition ring_used :: "'e trace_scheme \<Rightarrow> nat" where
  "ring_used s = (if ring_head s \<ge> ring_tail s then ring_head s - ring_tail s
     else ring_bytes s - ring_tail s + ring_head s)"

definition ring_free :: "'e trace_scheme \<Rightarrow> nat" where
  "ring_free s = ring_bytes s - 1 - ring_used s"

text \<open>What an operation does to the memory both cores share is a list of single accesses in the order of the code,
  so that they can also be run one at a time, between those of the other core: a copy is its bytes from the
  first to the last, the store of an index comes where the code has it.\<close>

datatype mem_access = Store nat u8 | Load nat | StoreHead nat | StoreTail nat

fun access :: "mem_access \<Rightarrow> ('e trace_scheme, u8 list) state" where
  "access (Store i b) = do { modify (\<lambda>s. s\<lparr>ring := Some ((the (ring s))(i := b))\<rparr>); ret [] }"
| "access (Load i) = gets (\<lambda>s. [the (ring s) i])"
| "access (StoreHead h) = do { modify (\<lambda>s. s\<lparr>ring_head := h\<rparr>); ret [] }"
| "access (StoreTail k) = do { modify (\<lambda>s. s\<lparr>ring_tail := k\<rparr>); ret [] }"

primrec accesses :: "mem_access list \<Rightarrow> ('e trace_scheme, u8 list) state" where
  "accesses [] = ret []"
| "accesses (a # as) = do { x \<leftarrow> access a; y \<leftarrow> accesses as; ret (x @ y) }"

text \<open>The two copies of \<open>ring_put\<close>, and the head it moves on: a local variable of its caller.\<close>

definition ring_put :: "nat \<Rightarrow> u8 list \<Rightarrow> mem_access list \<times> nat \<Rightarrow> mem_access list \<times> nat" where
  "ring_put bytes src p =
     (let (done, head) = p; len = length src;
          first = (if len < bytes - head then len else bytes - head);
          done = done @ map2 Store [head..<head + first] (take first src);
          done = done @ map2 Store [0..<len - first] (drop first src)
      in (done, (head + len) mod bytes))"

text \<open>The bytes of a header and of a paragraph in memory.\<close>

definition le_bytes32 :: "u32 \<Rightarrow> u8 list" where
  "le_bytes32 w = map (byte_of_word32 w) [0, 1, 2, 3]"

definition header_bytes :: "dap_trace_record \<Rightarrow> u8 list" where
  "header_bytes h = le_bytes32 (r_magic h) @ le_bytes32 (r_seq h) @ le_bytes32 (r_tram_offset h) @
     take 2 (le_bytes32 (ucast (r_length h))) @ take 2 (le_bytes32 (ucast (r_flags h))) @ le_bytes32 (r_lost h)"

definition words_bytes :: "u32 list \<Rightarrow> u8 list" where
  "words_bytes ws = concat (map le_bytes32 ws)"

definition record_of :: "u32 \<Rightarrow> u32 \<Rightarrow> u32 \<Rightarrow> u32 \<Rightarrow> u16 \<Rightarrow> dap_trace_record" where
  "record_of fbot sq par_index lost extra =
     \<lparr>r_magic = DAP_TRACE_MAGIC, r_seq = sq, r_tram_offset = fbot + par_index * TRACE_PARAGRAPH,
      r_length = ucast TRACE_PARAGRAPH, r_flags = (if lost \<noteq> 0 then DAP_TRACE_FLAG_GAP else 0) OR extra,
      r_lost = lost\<rparr>"

definition RECORD_SIZE :: nat where "RECORD_SIZE = 20"

text \<open>The record becomes visible to the sender whole, after its bytes.\<close>

definition record_accesses :: "nat \<Rightarrow> nat \<Rightarrow> dap_trace_record \<Rightarrow> u32 list \<Rightarrow> mem_access list" where
  "record_accesses bytes head hdr words =
     (let p = ring_put bytes (header_bytes hdr) ([], head);
          p = ring_put bytes (words_bytes words) p
      in fst p @ [StoreHead (snd p)])"

definition publish_flags :: "u32 \<Rightarrow> u32 list \<Rightarrow> u32 \<Rightarrow> u16 \<Rightarrow> ('e trace_scheme, unit) state" where
  "publish_flags par_index words lost extra = do {
     hdr \<leftarrow> gets (\<lambda>s. record_of (s_bot s) (s_seq s) par_index lost extra);
     modify (\<lambda>s. s\<lparr>s_seq := s_seq s + 1\<rparr>);
     free \<leftarrow> gets ring_free;
     (if free \<ge> RECORD_SIZE + unat TRACE_PARAGRAPH then do {
       bytes \<leftarrow> gets ring_bytes;
       head \<leftarrow> gets ring_head;
       accesses (record_accesses bytes head hdr words);
       count (\<lambda>t. t\<lparr>st_paragraphs := st_paragraphs t + 1, st_bytes := st_bytes t + TRACE_PARAGRAPH\<rparr>) }
     else count (\<lambda>t. t\<lparr>st_queue_dropped := st_queue_dropped t + TRACE_PARAGRAPH\<rparr>));
     free \<leftarrow> gets ring_free;
     count (\<lambda>t. t\<lparr>st_queue_free := of_nat free\<rparr>) }"

definition publish :: "u32 \<Rightarrow> u32 list \<Rightarrow> u32 \<Rightarrow> ('e trace_scheme, unit) state" where
  "publish par_index words lost = publish_flags par_index words lost 0"

text \<open>The frame of the accesses, and of a publication.\<close>

lemma accesses_state: "\<exists>r h k. snd (run (accesses as) s) = s\<lparr>ring := r, ring_head := h, ring_tail := k\<rparr>"
proof (induction as arbitrary: s)
  case Nil
  show ?case by (rule exI [of _ "ring s"], rule exI [of _ "ring_head s"], rule exI [of _ "ring_tail s"]) simp
next
  case (Cons a as)
  obtain x s1 where 1: "run (access a) s = (x, s1)" by (metis surj_pair)
  have "\<exists>r h k. s1 = s\<lparr>ring := r, ring_head := h, ring_tail := k\<rparr>"
  proof (cases a)
    case (Load i)
    with 1 have "s1 = s\<lparr>ring := ring s, ring_head := ring_head s, ring_tail := ring_tail s\<rparr>" by simp
    then show ?thesis by blast
  next
    case (Store i b)
    with 1 have "s1 = s\<lparr>ring := Some ((the (ring s))(i := b)), ring_head := ring_head s, ring_tail := ring_tail s\<rparr>" by auto
    then show ?thesis by blast
  next
    case (StoreHead h)
    with 1 have "s1 = s\<lparr>ring := ring s, ring_head := h, ring_tail := ring_tail s\<rparr>" by auto
    then show ?thesis by blast
  next
    case (StoreTail k)
    with 1 have "s1 = s\<lparr>ring := ring s, ring_head := ring_head s, ring_tail := k\<rparr>" by auto
    then show ?thesis by blast
  qed
  moreover obtain r h k where "snd (run (accesses as) s1) = s1\<lparr>ring := r, ring_head := h, ring_tail := k\<rparr>"
    using Cons.IH [of s1] by blast
  ultimately have "snd (run (accesses (a # as)) s) = s\<lparr>ring := r, ring_head := h, ring_tail := k\<rparr>"
    using 1 by (auto split: prod.splits)
  then show ?case by blast
qed

lemma publish_state:
  "\<exists>r h k st. snd (run (publish_flags par words lost extra) s) =
      s\<lparr>s_seq := s_seq s + 1, ring := r, ring_head := h, ring_tail := k, stats := st\<rparr> \<and> st_lost st = st_lost (stats s)"
proof -
  let ?as = "record_accesses (ring_bytes s) (ring_head s) (record_of (s_bot s) (s_seq s) par lost extra) words"
  let ?s = "s\<lparr>s_seq := s_seq s + 1\<rparr>"
  obtain r h k where 1: "snd (run (accesses ?as) ?s) = ?s\<lparr>ring := r, ring_head := h, ring_tail := k\<rparr>"
    using accesses_state by blast
  obtain x where "run (accesses ?as) ?s = (x, ?s\<lparr>ring := r, ring_head := h, ring_tail := k\<rparr>)"
    using 1 by (metis prod.collapse)
  then have "\<exists>st. snd (run (publish_flags par words lost extra) s) = ?s\<lparr>ring := r, ring_head := h, ring_tail := k, stats := st\<rparr>
        \<and> st_lost st = st_lost (stats s)" if "ring_free ?s \<ge> RECORD_SIZE + unat TRACE_PARAGRAPH"
    using that by (simp add: publish_flags_def count_def Let_def) (rule exI, rule conjI, rule refl, simp)
  moreover have "\<exists>st. snd (run (publish_flags par words lost extra) s) =
        ?s\<lparr>ring := ring s, ring_head := ring_head s, ring_tail := ring_tail s, stats := st\<rparr>
        \<and> st_lost st = st_lost (stats s)" if "\<not> ring_free ?s \<ge> RECORD_SIZE + unat TRACE_PARAGRAPH"
    using that by (simp add: publish_flags_def count_def Let_def) (rule exI, rule conjI, rule refl, simp)
  ultimately show ?thesis by (cases "ring_free ?s \<ge> RECORD_SIZE + unat TRACE_PARAGRAPH") blast+
qed

lemma publish_triple:
  assumes "\<And>s r h k st. P s \<Longrightarrow> st_lost st = st_lost (stats s) \<Longrightarrow>
    Q (s\<lparr>s_seq := s_seq s + 1, ring := r, ring_head := h, ring_tail := k, stats := st\<rparr>)"
  shows "triple P (publish_flags par words lost extra) (\<lambda>_. Q)"
proof (rule tripleI)
  fix s x s' assume "P s" "run (publish_flags par words lost extra) s = (x, s')"
  with publish_state [of par words lost extra s] assms show "Q s'" by (metis snd_conv)
qed

lemma publish_rel:
  assumes "\<And>s r h k st. R s (s\<lparr>s_seq := s_seq s + 1, ring := r, ring_head := h, ring_tail := k, stats := st\<rparr>)"
  shows "rel R (publish_flags par words lost extra)"
  unfolding rel_def using publish_state assms by metis

section \<open>Starting and stopping\<close>

definition alloc_ring :: "dev \<Rightarrow> nat \<Rightarrow> ('e trace_scheme, unit) state" where
  "alloc_ring D bytes = do {
     r \<leftarrow> gets ring;
     if_do (r = None) (do {
       modify (\<lambda>s. s\<lparr>ring_bytes := bytes\<rparr>);
       ok \<leftarrow> ask (EvAlloc bytes) (d_yes D);
       if_do ok (modify (\<lambda>s. s\<lparr>ring := Some (\<lambda>_. 0)\<rparr>)) }) }"

definition trace_begin :: "dev \<Rightarrow> ('e trace_scheme, esp_err) state" where
  "trace_begin D = do {
     alloc_ring D TRACE_RING_PSRAM;
     alloc_ring D TRACE_RING_PSRAM_MIN;
     alloc_ring D TRACE_RING_INTERNAL;
     r \<leftarrow> gets ring;
     if r = None then ret ESP_ERR_NO_MEM
     else do {
       (e1, fbot) \<leftarrow> dap_probe_read32 D TRACE_FIFOBOT 0;
       (e2, ftop) \<leftarrow> (if e1 \<noteq> ESP_OK then ret (e1, 0) else dap_probe_read32 D TRACE_FIFOTOP 0);
       (e3, now) \<leftarrow> (if e2 \<noteq> ESP_OK then ret (e2, 0) else dap_probe_read32 D TRACE_FIFONOW 0);
       (e4, ovr) \<leftarrow> (if e3 \<noteq> ESP_OK then ret (e3, 0) else dap_probe_read32 D TRACE_FIFOOVRCNT 0);
       if e4 \<noteq> ESP_OK then ret ESP_ERR_INVALID_STATE
       else if ftop \<le> fbot \<or> (ftop - fbot + 1) mod TRACE_PARAGRAPH \<noteq> 0 then ret ESP_ERR_INVALID_STATE
       else do {
         dap_probe_write32 D TRACE_FIFOWARN0 0;
         dap_probe_write32 D TRACE_FIFOWARN1 0;
         let span = ftop - fbot + 1;
         let now_par = ((now - fbot) mod span) div TRACE_PARAGRAPH;
         modify (\<lambda>s. s\<lparr>s_bot := fbot, s_top := ftop, s_span := span, s_next_par := now_par,
           s_last_ovrcnt := ovr, s_pending_lost := 0, s_seq := 0\<rparr>);
         modify (\<lambda>s. s\<lparr>ring_reset_to := ring_head s\<rparr>);
         modify (\<lambda>s. s\<lparr>ring_reset := True\<rparr>);
         t \<leftarrow> esp_timer_get_time D;
         modify (\<lambda>s. s\<lparr>last_read_us := t\<rparr>);
         modify (\<lambda>s. s\<lparr>stats := no_stats\<lparr>st_queue_free := of_nat (ring_bytes s - 1), st_fifonow := now\<rparr>\<rparr>);
         modify (\<lambda>s. s\<lparr>draining := True\<rparr>);
         ret ESP_OK } } }"

definition dap_trace_start :: "dev \<Rightarrow> ('e trace_scheme, esp_err) state" where
  "dap_trace_start D = do {
     err \<leftarrow> trace_begin D;
     if err \<noteq> ESP_OK then ret err
     else do {
       task \<leftarrow> gets s_task;
       created \<leftarrow> (if task then ret True else ask EvTaskCreate (d_yes D));
       if \<not> created then do { modify (\<lambda>s. s\<lparr>draining := False\<rparr>); ret ESP_ERR_NO_MEM }
       else do { modify (\<lambda>s. s\<lparr>s_task := True\<rparr>); ret ESP_OK } } }"

text \<open>\<open>for (i = 0; i < 100 && s_task != NULL; i++)\<close>; the drain task clears its handle when it leaves.\<close>

primrec await_task :: "dev \<Rightarrow> nat \<Rightarrow> ('e trace_scheme, unit) state" where
  "await_task D 0 = skip"
| "await_task D (Suc n) = do {
     task \<leftarrow> gets s_task;
     if_do task (do {
       gone \<leftarrow> ask EvTaskGone (d_yes D);
       if gone then modify (\<lambda>s. s\<lparr>s_task := False\<rparr>)
       else do { vTaskDelay 2; await_task D n } }) }"

definition dap_trace_stop :: "dev \<Rightarrow> ('e trace_scheme, unit) state" where
  "dap_trace_stop D = do {
     modify (\<lambda>s. s\<lparr>draining := False\<rparr>);
     count (st_running_update (\<lambda>_. False));
     await_task D 100 }"

section \<open>The drain\<close>

text \<open>The block requests of one chain: the paragraphs, and FIFONOW after each group and the last.
  \<open>n\<close> of the \<open>batch\<close> paragraphs are still to be requested, from paragraph \<open>par\<close>.\<close>

primrec batch_reqs :: "u32 \<Rightarrow> u32 \<Rightarrow> nat \<Rightarrow> nat \<Rightarrow> u32 \<Rightarrow> (u32 \<times> nat) list" where
  "batch_reqs fbot total_par batch 0 par = []"
| "batch_reqs fbot total_par batch (Suc n) par =
     (let k = batch - Suc n
      in [(TRACE_TRAM_BASE + fbot + par * TRACE_PARAGRAPH, TRACE_WORDS_PER_PAR)] @
         (if (k + 1) mod TRACE_NOW_EVERY = 0 \<or> k + 1 = batch then [(TRACE_FIFONOW, 1)] else []) @
         batch_reqs fbot total_par batch n ((par + 1) mod total_par))"

text \<open>The paragraph of a write pointer.\<close>

definition par_of :: "u32 \<Rightarrow> 'e trace_scheme \<Rightarrow> u32" where
  "par_of now s = ((now - s_bot s) mod s_span s) div TRACE_PARAGRAPH"

text \<open>The paragraphs of a group, oldest first; \<open>True\<close> when the writer reached one of them.\<close>

primrec publish_group ::
  "u32 list list \<Rightarrow> u32 \<Rightarrow> u32 \<Rightarrow> u32 \<Rightarrow> nat \<Rightarrow> u32 \<Rightarrow> nat \<Rightarrow> ('e trace_scheme, bool \<times> u32) state" where
  "publish_group [] moved margin w_par to_read lost i = ret (False, lost)"
| "publish_group (p # ps) moved margin w_par to_read lost i =
     (if moved \<ge> margin + of_nat i then do {
        let n = of_nat (to_read - i);
        count (\<lambda>t. t\<lparr>st_laps := st_laps t + 1, st_lost := st_lost t + n\<rparr>);
        modify (\<lambda>s. s\<lparr>s_next_par := w_par\<rparr>);
        ret (True, lost + n) }
      else do {
        par \<leftarrow> gets s_next_par;
        publish par p lost;
        total_par \<leftarrow> gets (\<lambda>s. s_span s div TRACE_PARAGRAPH);
        modify (\<lambda>s. s\<lparr>s_next_par := (par + 1) mod total_par\<rparr>);
        publish_group ps moved margin w_par to_read 0 (i + 1) })"

definition paragraphs :: "nat \<Rightarrow> u32 list \<Rightarrow> u32 list list" where
  "paragraphs n ws = map (\<lambda>g. take TRACE_WORDS_PER_PAR (drop (g * TRACE_WORDS_PER_PAR) ws)) [0..<n]"

text \<open>The groups of a chain: returns whether it was torn, the index after it, how far the writer moved, its
  paragraph, and the paragraphs lost and not yet flagged.\<close>

function publish_chain ::
  "nat \<Rightarrow> u32 list \<Rightarrow> u32 \<Rightarrow> u32 \<Rightarrow> u32 \<Rightarrow> nat \<Rightarrow> u32 \<Rightarrow> nat \<Rightarrow>
   ('e trace_scheme, bool \<times> u32 \<times> u32 \<times> u32) state" where
  "publish_chain left pw moved margin prev_par to_read lost i =
     (if left = 0 then ret (False, moved, prev_par, lost)
      else do {
        let group = min left TRACE_NOW_EVERY;
        let w = pw ! (group * TRACE_WORDS_PER_PAR);
        w_par \<leftarrow> gets (par_of (w AND TRACE_PTR_MASK));
        total_par \<leftarrow> gets (\<lambda>s. s_span s div TRACE_PARAGRAPH);
        let moved = moved + (w_par + total_par - prev_par) mod total_par;
        (torn, lost) \<leftarrow> publish_group (paragraphs group pw) moved margin w_par to_read lost i;
        if torn then ret (True, moved, w_par, lost)
        else publish_chain (left - group) (drop (group * TRACE_WORDS_PER_PAR + 1) pw) moved margin w_par
               to_read lost (i + group) })"
  by pat_completeness auto
termination
  by (relation "measure (\<lambda>(left, pw, moved, margin, prev_par, to_read, lost, i). left)")
    (auto simp: TRACE_NOW_EVERY_def)

declare publish_chain.simps [simp del]

text \<open>The chains of a pass: the code and the paragraphs lost and not yet flagged.\<close>

function drain_chains ::
  "dev \<Rightarrow> nat \<Rightarrow> u32 \<Rightarrow> u32 \<Rightarrow> u32 \<Rightarrow> u32 \<Rightarrow> nat \<Rightarrow> ('e trace_scheme, esp_err \<times> u32) state" where
  "drain_chains D to_read margin moved prev_par lost i =
     (if i \<ge> to_read then ret (ESP_OK, lost)
      else do {
        let batch = min (to_read - i) TRACE_CHAIN_PARS;
        reqs \<leftarrow> gets (\<lambda>s. batch_reqs (s_bot s) (s_span s div TRACE_PARAGRAPH) batch batch (s_next_par s));
        r0 \<leftarrow> esp_timer_get_time D;
        (err, words) \<leftarrow> dap_probe_blockread_many D reqs;
        if err \<noteq> ESP_OK then do {
          count (\<lambda>t. t\<lparr>st_read_errors := st_read_errors t + 1\<rparr>);
          dap_probe_clear_error_state D;
          ret (ESP_ERR_TIMEOUT, lost) }
        else do {
          r1 \<leftarrow> esp_timer_get_time D;
          count (\<lambda>t. t\<lparr>st_read_us := st_read_us t + of_int (r1 - r0),
            st_read_paragraphs := st_read_paragraphs t + of_nat batch\<rparr>);
          (torn, moved, prev_par, lost) \<leftarrow> publish_chain batch words moved margin prev_par to_read lost i;
          if torn then ret (ESP_OK, lost)
          else drain_chains D to_read margin moved prev_par lost (i + batch) } })"
  by pat_completeness auto
termination
  by (relation "measure (\<lambda>(D, to_read, margin, moved, prev_par, lost, i). to_read - i)")
    (auto simp: TRACE_CHAIN_PARS_def)

declare drain_chains.simps [simp del]

text \<open>What is left to read after a lap and after the margin: the paragraphs skipped, and those to read.\<close>

definition lap_skip :: "u32 \<Rightarrow> u32 \<Rightarrow> bool" where
  "lap_skip total_par available \<longleftrightarrow> available \<ge> total_par - 1 \<and> available \<noteq> 0"

definition drain_to :: "dev \<Rightarrow> u32 \<Rightarrow> u32 \<Rightarrow> ('e trace_scheme, esp_err) state" where
  "drain_to D now ovr = do {
     t0 \<leftarrow> esp_timer_get_time D;
     last_ovr \<leftarrow> gets s_last_ovrcnt;
     if_do (ovr \<noteq> last_ovr) (do {
       count (\<lambda>t. t\<lparr>st_overruns := st_overruns t + (ovr - last_ovr)\<rparr>);
       modify (\<lambda>s. s\<lparr>s_last_ovrcnt := ovr\<rparr>) });
     total_par \<leftarrow> gets (\<lambda>s. s_span s div TRACE_PARAGRAPH);
     now_par \<leftarrow> gets (par_of now);
     next_par \<leftarrow> gets s_next_par;
     lost \<leftarrow> gets s_pending_lost;
     let available = (now_par + total_par - next_par) mod total_par;
     (available, lost) \<leftarrow> (if lap_skip total_par available then do {
         count (\<lambda>t. t\<lparr>st_laps := st_laps t + 1, st_lost := st_lost t + available\<rparr>);
         modify (\<lambda>s. s\<lparr>s_next_par := now_par\<rparr>);
         ret (0, lost + available) }
       else ret (available, lost));
     (available, lost) \<leftarrow> (if available + TRACE_MARGIN > total_par then do {
         let n = available + TRACE_MARGIN - total_par;
         count (\<lambda>t. t\<lparr>st_lost := st_lost t + n, st_laps := st_laps t + 1\<rparr>);
         modify (\<lambda>s. s\<lparr>s_next_par := (s_next_par s + n) mod total_par\<rparr>);
         ret (available - n, lost + n) }
       else ret (available, lost));
     if_do (available \<noteq> 0) (count (\<lambda>t. t\<lparr>st_passes := st_passes t + 1\<rparr>));
     (err, lost) \<leftarrow> drain_chains D (unat available) (total_par - available) 0 now_par lost 0;
     modify (\<lambda>s. s\<lparr>s_pending_lost := lost\<rparr>);
     if err \<noteq> ESP_OK then ret err
     else do {
       t1 \<leftarrow> esp_timer_get_time D;
       let us = of_int (t1 - t0);
       count (\<lambda>t. t\<lparr>st_poll_us_max := max us (st_poll_us_max t), st_fifonow := now, st_running := True\<rparr>);
       ret (if available \<noteq> 0 then ESP_OK else ESP_ERR_NOT_FOUND) } }"

definition dap_trace_finish :: "dev \<Rightarrow> ('e trace_scheme, esp_err) state" where
  "dap_trace_finish D = do {
     idle \<leftarrow> gets (\<lambda>s. ring s = None \<or> s_span s = 0);
     if idle then ret ESP_ERR_INVALID_STATE
     else do {
       (err, now) \<leftarrow> dap_probe_read32 D TRACE_FIFONOW 0;
       if err \<noteq> ESP_OK then ret ESP_ERR_TIMEOUT
       else do {
         let now = now AND TRACE_PTR_MASK;
         modify (\<lambda>s. s\<lparr>draining := True\<rparr>);
         ovr \<leftarrow> gets s_last_ovrcnt;
         drain_to D now ovr;
         modify (\<lambda>s. s\<lparr>draining := False\<rparr>);
         par \<leftarrow> gets (par_of now);
         fbot \<leftarrow> gets s_bot;
         (err, words) \<leftarrow> dap_probe_blockread D (TRACE_TRAM_BASE + fbot + par * TRACE_PARAGRAPH) TRACE_WORDS_PER_PAR;
         if err \<noteq> ESP_OK then ret ESP_ERR_TIMEOUT
         else do {
           publish_flags par words 0 DAP_TRACE_FLAG_FINAL;
           count (st_running_update (\<lambda>_. False));
           ret ESP_OK } } } }"

definition dap_trace_poll :: "dev \<Rightarrow> ('e trace_scheme, esp_err) state" where
  "dap_trace_poll D = do {
     active \<leftarrow> gets draining;
     if \<not> active then ret ESP_OK
     else do {
       (err, now) \<leftarrow> dap_probe_read32_fast D TRACE_FIFONOW 0;
       if err \<noteq> ESP_OK then do {
         count (\<lambda>t. t\<lparr>st_read_errors := st_read_errors t + 1\<rparr>);
         dap_probe_clear_error_state D;
         ret ESP_ERR_TIMEOUT }
       else do {
         n \<leftarrow> gets ovr_polls;
         modify (\<lambda>s. s\<lparr>ovr_polls := n + 1\<rparr>);
         last_ovr \<leftarrow> gets s_last_ovrcnt;
         (err, ovr) \<leftarrow> (if n mod TRACE_OVRCNT_EVERY = 0 then dap_probe_read32 D TRACE_FIFOOVRCNT last_ovr
           else ret (ESP_OK, last_ovr));
         drain_to D (now AND TRACE_PTR_MASK) (if err \<noteq> ESP_OK then last_ovr else ovr) } } }"

text \<open>\<open>n\<close> rounds of the drain task, which leaves when another task has cleared \<open>s_running\<close>.\<close>

primrec trace_task :: "dev \<Rightarrow> nat \<Rightarrow> ('e trace_scheme, unit) state" where
  "trace_task D 0 = skip"
| "trace_task D (Suc n) = do {
     active \<leftarrow> gets draining;
     if \<not> active then modify (\<lambda>s. s\<lparr>s_task := False\<rparr>)
     else do {
       err \<leftarrow> dap_trace_poll D;
       if_do (err \<noteq> ESP_OK \<and> err \<noteq> ESP_ERR_NOT_FOUND) (vTaskDelay 10);
       trace_task D n } }"

section \<open>The sender's side\<close>

definition dap_trace_reader_idle_ms :: "dev \<Rightarrow> ('e trace_scheme, u32) state" where
  "dap_trace_reader_idle_ms D = do {
     now \<leftarrow> esp_timer_get_time D;
     since \<leftarrow> gets last_read_us;
     ret (of_int ((now - since) div 1000)) }"

text \<open>The space is handed back only after the bytes are out.\<close>

definition read_accesses :: "nat \<Rightarrow> nat \<Rightarrow> nat \<Rightarrow> mem_access list" where
  "read_accesses bytes tail n =
     (let first = (if n < bytes - tail then n else bytes - tail)
      in map Load [tail..<tail + first] @ map Load [0..<n - first] @ [StoreTail ((tail + n) mod bytes)])"

definition dap_trace_read :: "dev \<Rightarrow> nat \<Rightarrow> ('e trace_scheme, u8 list) state" where
  "dap_trace_read D limit = do {
     now \<leftarrow> esp_timer_get_time D;
     modify (\<lambda>s. s\<lparr>last_read_us := now\<rparr>);
     r \<leftarrow> gets ring;
     case r of None \<Rightarrow> ret []
     | Some r \<Rightarrow> do {
       reset \<leftarrow> gets ring_reset;
       if_do reset (modify (\<lambda>s. s\<lparr>ring_tail := ring_reset_to s, ring_reset := False\<rparr>));
       used \<leftarrow> gets ring_used;
       tail \<leftarrow> gets ring_tail;
       bytes \<leftarrow> gets ring_bytes;
       let n = (if used < limit then used else limit);
       out \<leftarrow> accesses (read_accesses bytes tail n);
       free \<leftarrow> gets ring_free;
       count (\<lambda>t. t\<lparr>st_queue_free := of_nat free\<rparr>);
       ret out } }"

definition dap_trace_get_stats :: "'e trace_scheme \<Rightarrow> dap_trace_stats" where
  "dap_trace_get_stats s = (stats s)\<lparr>st_running := draining s, st_queue_size := of_nat (ring_bytes s)\<rparr>"

section \<open>Self-test\<close>

definition pattern :: "nat \<Rightarrow> nat \<Rightarrow> u32" where
  "pattern par i = push_bit 24 (of_nat par) OR (of_nat i AND 0x00FFFFFF)"

definition write_pattern :: "dev \<Rightarrow> u32 \<Rightarrow> nat \<Rightarrow> ('e trace_scheme, esp_err) state" where
  "write_pattern D fbot par = do {
     let addr = TRACE_TRAM_BASE + fbot + of_nat par * TRACE_PARAGRAPH;
     err \<leftarrow> for_ok (\<lambda>i. dap_probe_write32 D (addr + of_nat i * 4) (pattern par i)) [0..<TRACE_WORDS_PER_PAR];
     if err \<noteq> ESP_OK then ret ESP_ERR_NOT_SUPPORTED
     else do {
       (err, back) \<leftarrow> dap_probe_read32 D (addr + 4) 0;
       ret (if err \<noteq> ESP_OK \<or> back \<noteq> pattern par 1 then ESP_ERR_NOT_SUPPORTED else ESP_OK) } }"

text \<open>Little-endian words of the drained bytes.\<close>

definition le32_at :: "u8 list \<Rightarrow> nat \<Rightarrow> u32" where
  "le32_at p k = word32_of_bytes (p ! k) (p ! (k + 1)) (p ! (k + 2)) (p ! (k + 3))"

definition header_of_bytes :: "u8 list \<Rightarrow> dap_trace_record" where
  "header_of_bytes p =
     \<lparr>r_magic = le32_at p 0, r_seq = le32_at p 4, r_tram_offset = le32_at p 8,
      r_length = ucast (le32_at p 12), r_flags = ucast (drop_bit 16 (le32_at p 12)), r_lost = le32_at p 16\<rparr>"

definition record_passes :: "u32 \<Rightarrow> nat \<Rightarrow> u8 list \<Rightarrow> bool" where
  "record_passes fbot par p =
     (let hdr = header_of_bytes p
      in r_magic hdr = DAP_TRACE_MAGIC \<and> r_seq hdr = of_nat par \<and>
         r_tram_offset hdr = fbot + of_nat par * TRACE_PARAGRAPH \<and>
         ucast (r_length hdr) = TRACE_PARAGRAPH \<and> r_flags hdr = 0 \<and> r_lost hdr = 0 \<and>
         list_all (\<lambda>i. le32_at p (RECORD_SIZE + i * 4) = pattern par i) [0..<TRACE_WORDS_PER_PAR])"

definition SELFTEST_BYTES :: nat where
  "SELFTEST_BYTES = SELFTEST_PARAGRAPHS * (RECORD_SIZE + unat TRACE_PARAGRAPH)"

text \<open>At most eight passes, until enough has been drained.\<close>

primrec selftest_passes :: "dev \<Rightarrow> u32 \<Rightarrow> nat \<Rightarrow> u8 list \<Rightarrow> ('e trace_scheme, u8 list) state" where
  "selftest_passes D fbot 0 got = ret got"
| "selftest_passes D fbot (Suc n) got =
     (if length got \<ge> SELFTEST_BYTES then ret got
      else do {
        ovr \<leftarrow> gets s_last_ovrcnt;
        err \<leftarrow> drain_to D (fbot + of_nat SELFTEST_PARAGRAPHS * TRACE_PARAGRAPH) ovr;
        if err \<noteq> ESP_OK \<and> err \<noteq> ESP_ERR_NOT_FOUND then ret got
        else do {
          more \<leftarrow> dap_trace_read D (SELFTEST_BYTES - length got);
          selftest_passes D fbot n (got @ more) } })"

definition dap_trace_selftest :: "dev \<Rightarrow> ('e trace_scheme, esp_err) state" where
  "dap_trace_selftest D = do {
     dap_trace_stop D;
     (err, fbot) \<leftarrow> dap_probe_read32 D TRACE_FIFOBOT 0;
     (err, ftop) \<leftarrow> (if err \<noteq> ESP_OK then ret (err, 0) else dap_probe_read32 D TRACE_FIFOTOP 0);
     if err \<noteq> ESP_OK then ret ESP_ERR_INVALID_STATE
     else if ftop \<le> fbot \<or> (ftop - fbot + 1) mod TRACE_PARAGRAPH \<noteq> 0 then ret ESP_ERR_INVALID_STATE
     else do {
       err \<leftarrow> for_ok (write_pattern D fbot) [0..<SELFTEST_PARAGRAPHS];
       if err \<noteq> ESP_OK then ret err
       else do {
         err \<leftarrow> trace_begin D;
         if err \<noteq> ESP_OK then ret ESP_FAIL
         else do {
           modify (\<lambda>s. s\<lparr>s_next_par := 0\<rparr>);
           got \<leftarrow> selftest_passes D fbot 8 [];
           modify (\<lambda>s. s\<lparr>draining := False\<rparr>);
           if length got \<noteq> SELFTEST_BYTES then ret ESP_FAIL
           else ret (if list_all (\<lambda>par. record_passes fbot par
                  (drop (par * (RECORD_SIZE + unat TRACE_PARAGRAPH)) got)) [0..<SELFTEST_PARAGRAPHS]
                then ESP_OK else ESP_FAIL) } } } }"

end
