(* ===== verification/Trace_Ring.thy ===== *)
theory Trace_Ring
  imports Dap_Trace
begin

text \<open>
  The ring of \<open>dap_trace.c\<close> between two cores: the single memory accesses of both sides as a step relation,
  its invariant under every interleaving, and the operations of the model as runs of it. A start that
  drops an old trace is taken as one step of the sender.
\<close>

section \<open>The two sides, interleaved\<close>

text \<open>The ring as the two cores share it. Each side works in single memory accesses: the drain reads the tail
  once, copies byte by byte and only then publishes the head; the sender reads the head once, copies out
  byte by byte and only then gives the space back. \<open>published\<close> and \<open>received\<close> are what each side has
  finished with, in order.\<close>

record spsc =
  arr :: "nat \<Rightarrow> u8"
  hd_i :: nat
  tl_i :: nat
  flight :: "(u8 list \<times> nat) option"     \<comment> \<open>being written: the bytes, how many are copied\<close>
  fetch :: "(nat \<times> u8 list) option"      \<comment> \<open>being read: how many to read, what is copied\<close>
  published :: "u8 list"
  received :: "u8 list"

definition used :: "nat \<Rightarrow> nat \<Rightarrow> nat \<Rightarrow> nat" where
  "used B h t = (if h \<ge> t then h - t else B - t + h)"

inductive ring_step :: "nat \<Rightarrow> spsc \<Rightarrow> spsc \<Rightarrow> bool" for B where
  put_start: "flight s = None \<Longrightarrow> B - 1 - used B (hd_i s) (tl_i s) \<ge> length src \<Longrightarrow>
    ring_step B s (s\<lparr>flight := Some (src, 0)\<rparr>)"
| put_copy: "flight s = Some (src, k) \<Longrightarrow> k < length src \<Longrightarrow>
    ring_step B s (s\<lparr>arr := (arr s)((hd_i s + k) mod B := src ! k), flight := Some (src, Suc k)\<rparr>)"
| put_publish: "flight s = Some (src, length src) \<Longrightarrow>
    ring_step B s (s\<lparr>hd_i := (hd_i s + length src) mod B, flight := None, published := published s @ src\<rparr>)"
| get_start: "fetch s = None \<Longrightarrow> n \<le> used B (hd_i s) (tl_i s) \<Longrightarrow>
    ring_step B s (s\<lparr>fetch := Some (n, [])\<rparr>)"
| get_copy: "fetch s = Some (n, out) \<Longrightarrow> length out < n \<Longrightarrow>
    ring_step B s (s\<lparr>fetch := Some (n, out @ [arr s ((tl_i s + length out) mod B)])\<rparr>)"
| get_done: "fetch s = Some (n, out) \<Longrightarrow> length out = n \<Longrightarrow>
    ring_step B s (s\<lparr>tl_i := (tl_i s + n) mod B, fetch := None, received := received s @ out\<rparr>)"

text \<open>The invariant, in the numbers of bytes published and received: \<open>w\<close> and \<open>r\<close>.\<close>

definition ring_inv :: "nat \<Rightarrow> spsc \<Rightarrow> bool" where
  "ring_inv B s \<longleftrightarrow>
    (let w = length (published s); r = length (received s);
         ahead = (case flight s of None \<Rightarrow> 0 | Some (src, k) \<Rightarrow> length src)
     in hd_i s = w mod B \<and> tl_i s = r mod B \<and> r \<le> w \<and> w + ahead < r + B \<and>
        received s = take r (published s) \<and>
        (\<forall>j. r \<le> j \<and> j < w \<longrightarrow> arr s (j mod B) = published s ! j) \<and>
        (case flight s of None \<Rightarrow> True
         | Some (src, k) \<Rightarrow> k \<le> length src \<and> (\<forall>i<k. arr s ((w + i) mod B) = src ! i)) \<and>
        (case fetch s of None \<Rightarrow> True
         | Some (n, out) \<Rightarrow> r + n \<le> w \<and> length out \<le> n \<and> out = take (length out) (drop r (published s))))"

lemma used_eq:
  assumes "r \<le> w" "w < r + B"
  shows "used B (w mod B) (r mod B) = w - r"
proof -
  obtain d where d: "w = r + d" "d < B" using assms by (metis add_less_cancel_left le_iff_add)
  then have "B > 0" by simp
  show ?thesis
  proof (cases "r mod B + d < B")
    case True
    then have "w mod B = r mod B + d" by (metis d(1) mod_add_left_eq mod_less)
    then show ?thesis by (simp add: used_def d(1))
  next
    case False
    have "w mod B = (r mod B + d) mod B" by (simp add: d(1) mod_simps)
    also have "\<dots> = (r mod B + d - B) mod B" using False by (simp add: le_mod_geq)
    also have "\<dots> = r mod B + d - B" using d(2) mod_less_divisor [OF \<open>B > 0\<close>, of r] by (intro mod_less) linarith
    finally have "w mod B = r mod B + d - B" .
    moreover have "r mod B < B" using \<open>B > 0\<close> by simp
    ultimately show ?thesis using False d(2) unfolding used_def d(1) by auto
  qed
qed

text \<open>Positions less than a lap apart are different places.\<close>

lemma place_neq:
  fixes i j :: nat
  assumes "i < j" "j < i + B"
  shows "i mod B \<noteq> j mod B"
proof
  assume "i mod B = j mod B"
  then have "B dvd j - i" using assms(1) by (metis less_imp_le mod_eq_dvd_iff_nat)
  then have "B \<le> j - i" using assms(1) by (auto dest: dvd_imp_le)
  then show False using assms by simp
qed


lemma ring_inv_step:
  assumes "ring_inv B s" "ring_step B s s'" shows "ring_inv B s'"
  using assms(2)
proof (cases rule: ring_step.cases)
  case (put_start src)
  have "length (published s) < length (received s) + B" "length (received s) \<le> length (published s)"
    using assms(1) put_start(2) by (auto simp: ring_inv_def Let_def)
  with used_eq [of "length (received s)" "length (published s)" B] put_start assms(1)
  show ?thesis by (auto simp: ring_inv_def Let_def split: option.splits)
next
  case (put_copy src k)
  let ?w = "length (published s)" and ?r = "length (received s)"
  have b: "?w + length src < ?r + B" "hd_i s = ?w mod B" using assms(1) put_copy(2) by (auto simp: ring_inv_def Let_def)
  have place: "(hd_i s + k) mod B = (?w + k) mod B" by (simp add: b(2) mod_simps)
  have old: "j mod B \<noteq> (?w + k) mod B" if "?r \<le> j" "j < ?w" for j
    by (rule place_neq) (use that b put_copy(3) in linarith)+
  have new: "(?w + i) mod B \<noteq> (?w + k) mod B" if "i < k" for i
    by (rule place_neq) (use that b put_copy(3) assms(1) in \<open>auto simp: ring_inv_def Let_def\<close>)
  show ?thesis
    using assms(1) put_copy old new unfolding place
    by (auto simp: ring_inv_def Let_def less_Suc_eq split: option.splits)
next
  case (put_publish src)
  let ?w = "length (published s)"
  have "hd_i s = ?w mod B" using assms(1) by (simp add: ring_inv_def Let_def)
  then have "(hd_i s + length src) mod B = (?w + length src) mod B" by (simp add: mod_simps)
  moreover have "arr s (j mod B) = src ! (j - ?w)" if "?w \<le> j" "j < ?w + length src" for j
  proof -
    have "\<forall>i<length src. arr s ((?w + i) mod B) = src ! i"
      using assms(1) put_publish(2) by (auto simp: ring_inv_def Let_def)
    from this [rule_format, of "j - ?w"] show ?thesis using that by simp
  qed
  ultimately show ?thesis
    using assms(1) put_publish
    by (auto simp: ring_inv_def Let_def nth_append split: option.splits)
next
  case (get_start n)
  have "length (published s) < length (received s) + B" "length (received s) \<le> length (published s)"
    using assms(1) by (auto simp: ring_inv_def Let_def)
  with used_eq [of "length (received s)" "length (published s)" B] get_start assms(1)
  show ?thesis by (auto simp: ring_inv_def Let_def split: option.splits)
next
  case (get_copy n out)
  let ?r = "length (received s)" and ?m = "length out"
  have b: "?r + n \<le> length (published s)" "out = take ?m (drop ?r (published s))" "tl_i s = ?r mod B"
    using assms(1) get_copy(2) by (auto simp: ring_inv_def Let_def)
  have "arr s ((?r + ?m) mod B) = published s ! (?r + ?m)"
    using assms(1) get_copy(3) b(1) by (auto simp: ring_inv_def Let_def)
  moreover have "(tl_i s + ?m) mod B = (?r + ?m) mod B" by (simp add: b(3) mod_simps)
  moreover have "take (Suc ?m) (drop ?r (published s)) = out @ [published s ! (?r + ?m)]"
    using b get_copy(3) by (simp add: take_Suc_conv_app_nth)
  ultimately show ?thesis
    using assms(1) get_copy by (auto simp: ring_inv_def Let_def split: option.splits)
next
  case (get_done n out)
  let ?r = "length (received s)"
  have b: "?r + n \<le> length (published s)" "out = take n (drop ?r (published s))" "tl_i s = ?r mod B"
      "received s = take ?r (published s)"
    using assms(1) get_done(2,3) by (auto simp: ring_inv_def Let_def)
  have "(tl_i s + n) mod B = (?r + n) mod B" by (simp add: b(3) mod_simps)
  moreover have "received s @ out = take (?r + n) (published s)"
    using b(2,4) by (metis take_add)
  ultimately show ?thesis
    using assms(1) get_done b(1) by (auto simp: ring_inv_def Let_def split: option.splits)
qed


lemma ring_inv_steps: "(ring_step B)\<^sup>*\<^sup>* s s' \<Longrightarrow> ring_inv B s \<Longrightarrow> ring_inv B s'"
  by (induction rule: rtranclp_induct) (auto intro: ring_inv_step)

section \<open>The code's operations are runs of it\<close>

text \<open>The shared state of the model, with the bytes each side is known to have finished with.\<close>

definition shared :: "'e trace_scheme \<Rightarrow> u8 list \<Rightarrow> u8 list \<Rightarrow> spsc" where
  "shared s pub rec = \<lparr>arr = the (ring s), hd_i = ring_head s, tl_i = ring_tail s, flight = None, fetch = None,
     published = pub, received = rec\<rparr>"

text \<open>Byte by byte, \<open>ring_put\<close> writes what its two copies write.\<close>

definition put_bytes_at :: "nat \<Rightarrow> nat \<Rightarrow> u8 list \<Rightarrow> nat \<Rightarrow> (nat \<Rightarrow> u8) \<Rightarrow> nat \<Rightarrow> u8" where
  "put_bytes_at B h src n r = fold (\<lambda>k r. r((h + k) mod B := src ! k)) [0..<n] r"

lemma put_bytes_at_Suc: "put_bytes_at B h src (Suc n) r = (put_bytes_at B h src n r)((h + n) mod B := src ! n)"
  by (simp add: put_bytes_at_def)

text \<open>In the order of the code they are the bytes at ascending places, mod the size.\<close>

definition stores :: "nat \<Rightarrow> nat \<Rightarrow> u8 list \<Rightarrow> mem_access list" where
  "stores B h src = map (\<lambda>k. Store ((h + k) mod B) (src ! k)) [0..<length src]"

lemma length_stores [simp]: "length (stores B h src) = length src"
  by (simp add: stores_def)

lemma ring_put_eq:
  assumes "length src < B" "h < B"
  shows "ring_put B src (done, h) = (done @ stores B h src, (h + length src) mod B)"
proof (cases "length src < B - h")
  case True
  then have "map2 Store [h..<h + length src] src = stores B h src"
    by (intro nth_equalityI) (simp_all add: stores_def)
  then show ?thesis using True by (simp add: ring_put_def Let_def)
next
  case False
  let ?s = "\<lambda>k. Store ((h + k) mod B) (src ! k)"
  have "map2 Store [h..<h + (B - h)] (take (B - h) src) = map ?s [0..<B - h]"
    using False by (intro nth_equalityI) simp_all
  moreover have "map2 Store [0..<length src - (B - h)] (drop (B - h) src) = map ?s [B - h..<length src]"
    using False assms by (intro nth_equalityI) (simp_all add: add.assoc [symmetric] mod_if)
  moreover have "[0..<length src] = [0..<B - h] @ [B - h..<length src]"
    using False by (metis le_add_diff_inverse linorder_not_less upt_add_eq_append zero_le)
  ultimately show ?thesis using False by (simp add: ring_put_def Let_def stores_def)
qed

lemma stores_append: "stores B h a @ stores B ((h + length a) mod B) b = stores B h (a @ b)"
  by (rule nth_equalityI) (auto simp: stores_def nth_append mod_simps)

lemma record_accesses_eq:
  assumes "length (header_bytes hdr) + length (words_bytes words) < B" "h < B"
  shows "record_accesses B h hdr words = (let src = header_bytes hdr @ words_bytes words
    in stores B h src @ [StoreHead ((h + length src) mod B)])"
  using assms by (simp add: record_accesses_def ring_put_eq Let_def stores_append mod_simps add.assoc)

lemma read_accesses_eq:
  assumes "n < B" "t < B"
  shows "read_accesses B t n = map (\<lambda>k. Load ((t + k) mod B)) [0..<n] @ [StoreTail ((t + n) mod B)]"
proof (cases "n < B - t")
  case True
  then have "map Load [t..<t + n] = map (\<lambda>k. Load ((t + k) mod B)) [0..<n]" by (intro nth_equalityI) simp_all
  then show ?thesis using True by (simp add: read_accesses_def Let_def)
next
  case False
  let ?l = "\<lambda>k. Load ((t + k) mod B)"
  have "map Load [t..<t + (B - t)] = map ?l [0..<B - t]" by (intro nth_equalityI) simp_all
  moreover have "map Load [0..<n - (B - t)] = map ?l [B - t..<n]"
    using False assms by (intro nth_equalityI) (simp_all add: add.assoc [symmetric] mod_if)
  moreover have "[0..<n] = [0..<B - t] @ [B - t..<n]"
    using False by (metis le_add_diff_inverse linorder_not_less upt_add_eq_append zero_le)
  ultimately show ?thesis using False by (simp add: read_accesses_def Let_def)
qed

lemma run_accesses_append:
  "run (accesses (xs @ ys)) s = (case run (accesses xs) s of (a, s1) \<Rightarrow> case run (accesses ys) s1 of (b, s2) \<Rightarrow> (a @ b, s2))"
  by (induction xs arbitrary: s) (auto split: prod.splits)

lemma run_stores:
  assumes "ring s = Some r"
  shows "run (accesses (stores B h src)) s = ([], s\<lparr>ring := Some (put_bytes_at B h src (length src) r)\<rparr>)"
proof -
  have "run (accesses (map (\<lambda>k. Store ((h + k) mod B) (src ! k)) [0..<n])) s = ([], s\<lparr>ring := Some (put_bytes_at B h src n r)\<rparr>)" for n
  proof (induction n)
    case 0
    have "s\<lparr>ring := Some r\<rparr> = s" using assms by (cases s) simp
    then show ?case by (simp add: put_bytes_at_def)
  next
    case (Suc n)
    then show ?case
      by (simp add: run_accesses_append put_bytes_at_Suc)
        (rule arg_cong [where f = "\<lambda>r. s\<lparr>ring := Some r\<rparr>"], simp add: fun_eq_iff)
  qed
  then show ?thesis by (simp add: stores_def)
qed

lemma run_loads:
  "run (accesses (map (\<lambda>k. Load ((t + k) mod B)) ks)) s = (map (\<lambda>k. the (ring s) ((t + k) mod B)) ks, s)"
  by (induction ks) simp_all

lemma put_run:
  assumes "flight s = None" "length src \<le> B - 1 - used B (hd_i s) (tl_i s)"
  shows "(ring_step B)\<^sup>*\<^sup>* s (s\<lparr>arr := put_bytes_at B (hd_i s) src (length src) (arr s),
    hd_i := (hd_i s + length src) mod B, flight := None, published := published s @ src\<rparr>)"
proof -
  let ?s = "\<lambda>k. s\<lparr>arr := put_bytes_at B (hd_i s) src k (arr s), flight := Some (src, k)\<rparr>"
  have "(ring_step B)\<^sup>*\<^sup>* s (?s k)" if "k \<le> length src" for k
    using that
  proof (induction k)
    case 0
    have "ring_step B s (?s 0)" using put_start [OF assms] by (simp add: put_bytes_at_def)
    then show ?case by blast
  next
    case (Suc k)
    have "ring_step B (?s k) (?s (Suc k))"
      using put_copy [of "?s k" src k B] Suc.prems by (simp add: put_bytes_at_Suc)
    with Suc show ?case by (meson Suc_leD rtranclp.rtrancl_into_rtrancl)
  qed
  then have "(ring_step B)\<^sup>*\<^sup>* s (?s (length src))" by simp
  moreover have "flight (?s (length src)) = Some (src, length src)" by simp
  from put_publish [OF this, of B] have "ring_step B (?s (length src))
      (s\<lparr>arr := put_bytes_at B (hd_i s) src (length src) (arr s),
        hd_i := (hd_i s + length src) mod B, flight := None, published := published s @ src\<rparr>)"
    by simp
  ultimately show ?thesis by (rule rtranclp.rtrancl_into_rtrancl)
qed

lemma get_run:
  assumes "fetch s = None" "n \<le> used B (hd_i s) (tl_i s)"
  shows "(ring_step B)\<^sup>*\<^sup>* s (s\<lparr>tl_i := (tl_i s + n) mod B, fetch := None,
    received := received s @ map (\<lambda>k. arr s ((tl_i s + k) mod B)) [0..<n]\<rparr>)"
proof -
  let ?out = "\<lambda>k. map (\<lambda>k. arr s ((tl_i s + k) mod B)) [0..<k]"
  let ?s = "\<lambda>k. s\<lparr>fetch := Some (n, ?out k)\<rparr>"
  have "(ring_step B)\<^sup>*\<^sup>* s (?s k)" if "k \<le> n" for k
    using that
  proof (induction k)
    case 0
    show ?case using get_start [OF assms] by auto
  next
    case (Suc k)
    have "ring_step B (?s k) (?s (Suc k))"
      using get_copy [of "?s k" n "?out k" B] Suc.prems by simp
    with Suc show ?case by (meson Suc_leD rtranclp.rtrancl_into_rtrancl)
  qed
  then have "(ring_step B)\<^sup>*\<^sup>* s (?s n)" by simp
  moreover have "ring_step B (?s n) (s\<lparr>tl_i := (tl_i s + n) mod B, fetch := None, received := received s @ ?out n\<rparr>)"
    using get_done [of "?s n" n "?out n" B] by simp
  ultimately show ?thesis by (rule rtranclp.rtrancl_into_rtrancl)
qed

lemma length_record: "length (header_bytes h) = RECORD_SIZE"
  by (simp add: header_bytes_def le_bytes32_def RECORD_SIZE_def)

lemma length_words_bytes [simp]: "length (words_bytes ws) = 4 * length ws"
  by (induction ws) (simp_all add: words_bytes_def le_bytes32_def)

lemma ring_free_used: "ring_free s = ring_bytes s - 1 - used (ring_bytes s) (ring_head s) (ring_tail s)"
  by (simp add: ring_free_def ring_used_def used_def)

section \<open>Both cores at once\<close>

text \<open>A race of the two sides over the memory they share, in single accesses: the drain, when it has found room for a
  record, runs the accesses of \<open>publish_flags\<close> in their order, the sender those of \<open>dap_trace_read\<close> for as many
  bytes as its one reading of the head allows, and between any two accesses of one the other may run. \<open>begun\<close> are
  the bytes of the records begun, \<open>handed\<close> what the reads have returned.\<close>

record race =
  mem :: trace
  putting :: "mem_access list option"
  getting :: "(u8 list \<times> mem_access list) option"
  begun :: "u8 list"
  handed :: "u8 list"

inductive race_step :: "race \<Rightarrow> race \<Rightarrow> bool" where
  put_begin: "putting c = None \<Longrightarrow> ring_free (mem c) \<ge> RECORD_SIZE + unat TRACE_PARAGRAPH \<Longrightarrow> length words = TRACE_WORDS_PER_PAR \<Longrightarrow>
    race_step c (c\<lparr>putting := Some (record_accesses (ring_bytes (mem c)) (ring_head (mem c)) hdr words),
      begun := begun c @ header_bytes hdr @ words_bytes words\<rparr>)"
| put_access: "putting c = Some (a # as) \<Longrightarrow> race_step c (c\<lparr>mem := snd (run (access a) (mem c)), putting := Some as\<rparr>)"
| put_end: "putting c = Some [] \<Longrightarrow> race_step c (c\<lparr>putting := None\<rparr>)"
| get_begin: "getting c = None \<Longrightarrow>
    race_step c (c\<lparr>getting := Some ([], read_accesses (ring_bytes (mem c)) (ring_tail (mem c)) (min (ring_used (mem c)) limit))\<rparr>)"
| get_access: "getting c = Some (out, a # as) \<Longrightarrow>
    race_step c (c\<lparr>mem := snd (run (access a) (mem c)), getting := Some (out @ fst (run (access a) (mem c)), as)\<rparr>)"
| get_end: "getting c = Some (out, []) \<Longrightarrow> race_step c (c\<lparr>getting := None, handed := handed c @ out\<rparr>)"

text \<open>The state of the protocol that a state of the race stands for; \<open>pre\<close> counts the bytes before the race, so
  that it can start anywhere in the ring.\<close>

definition putting_is :: "nat \<Rightarrow> nat \<Rightarrow> u8 list \<Rightarrow> mem_access list option \<Rightarrow> (u8 list \<times> nat) option \<Rightarrow> u8 list \<Rightarrow> bool" where
  "putting_is B h all p fl pub \<longleftrightarrow>
     fl = None \<and> pub = all \<and> (p = None \<or> p = Some []) \<or>
     (\<exists>src k. fl = Some (src, k) \<and> k \<le> length src \<and> all = pub @ src \<and>
        p = Some (drop k (stores B h src) @ [StoreHead ((h + length src) mod B)]))"

definition getting_is :: "nat \<Rightarrow> nat \<Rightarrow> u8 list \<Rightarrow> (u8 list \<times> mem_access list) option \<Rightarrow> (nat \<times> u8 list) option \<Rightarrow> u8 list \<Rightarrow> bool" where
  "getting_is B t all g fe rec \<longleftrightarrow>
     fe = None \<and> (g = None \<and> rec = all \<or> (\<exists>out. g = Some (out, []) \<and> rec = all @ out)) \<or>
     (\<exists>n out. fe = Some (n, out) \<and> length out \<le> n \<and> rec = all \<and>
        g = Some (out, map (\<lambda>k. Load ((t + k) mod B)) [length out..<n] @ [StoreTail ((t + n) mod B)]))"

definition matches :: "nat \<Rightarrow> u8 list \<Rightarrow> race \<Rightarrow> spsc \<Rightarrow> bool" where
  "matches B pre c sp \<longleftrightarrow> ring_bytes (mem c) = B \<and> ring (mem c) = Some (arr sp) \<and> hd_i sp = ring_head (mem c) \<and>
     tl_i sp = ring_tail (mem c) \<and>
     putting_is B (hd_i sp) (pre @ begun c) (putting c) (flight sp) (published sp) \<and>
     getting_is B (tl_i sp) (pre @ handed c) (getting c) (fetch sp) (received sp)"

lemma ring_inv_bounds:
  assumes "ring_inv B sp"
  shows "hd_i sp < B" "tl_i sp < B" "used B (hd_i sp) (tl_i sp) = length (published sp) - length (received sp)"
    "used B (hd_i sp) (tl_i sp) < B"
proof -
  let ?w = "length (published sp)" and ?r = "length (received sp)"
  have i: "hd_i sp = ?w mod B" "tl_i sp = ?r mod B" "?r \<le> ?w" "?w < ?r + B"
    using assms by (auto simp: ring_inv_def Let_def)
  then have "0 < B" by simp
  then show "hd_i sp < B" "tl_i sp < B" using i by simp_all
  show "used B (hd_i sp) (tl_i sp) = ?w - ?r" using used_eq [OF i(3,4)] i by simp
  then show "used B (hd_i sp) (tl_i sp) < B" using i by simp
qed

lemma race_put_begin:
  assumes "matches B pre c sp" "ring_inv B sp" "putting c = None"
    "ring_free (mem c) \<ge> RECORD_SIZE + unat TRACE_PARAGRAPH" "length words = TRACE_WORDS_PER_PAR"
  shows "\<exists>sp'. ring_step B sp sp' \<and> matches B pre (c\<lparr>putting := Some (record_accesses (ring_bytes (mem c)) (ring_head (mem c)) hdr words),
      begun := begun c @ header_bytes hdr @ words_bytes words\<rparr>) sp'"
proof -
  let ?src = "header_bytes hdr @ words_bytes words"
  have fl: "flight sp = None" using assms(1,3) by (auto simp: matches_def putting_is_def)
  have len: "length ?src = RECORD_SIZE + unat TRACE_PARAGRAPH"
    using assms(5) by (simp add: length_record TRACE_WORDS_PER_PAR_def TRACE_PARAGRAPH_def)
  have m: "ring_bytes (mem c) = B" "hd_i sp = ring_head (mem c)" "tl_i sp = ring_tail (mem c)"
    using assms(1) by (simp_all add: matches_def)
  have room: "length ?src \<le> B - 1 - used B (hd_i sp) (tl_i sp)"
    using assms(4) len m by (simp add: ring_free_used)
  moreover have "0 < length ?src" using len by (simp add: RECORD_SIZE_def)
  ultimately have "length ?src < B" by linarith
  then have eq: "record_accesses B (hd_i sp) hdr words = stores B (hd_i sp) ?src @ [StoreHead ((hd_i sp + length ?src) mod B)]"
    using record_accesses_eq [of hdr words B "hd_i sp"] ring_inv_bounds(1) [OF assms(2)] by (simp add: Let_def)
  have "ring_step B sp (sp\<lparr>flight := Some (?src, 0)\<rparr>)" by (rule ring_step.put_start [OF fl room])
  moreover have "matches B pre (c\<lparr>putting := Some (record_accesses (ring_bytes (mem c)) (ring_head (mem c)) hdr words),
      begun := begun c @ ?src\<rparr>) (sp\<lparr>flight := Some (?src, 0)\<rparr>)"
    using assms(1,3) eq m by (auto simp: matches_def putting_is_def)
  ultimately show ?thesis by blast
qed

lemma race_put_access:
  assumes "matches B pre c sp" "putting c = Some (a # as)"
  shows "\<exists>sp'. ring_step B sp sp' \<and> matches B pre (c\<lparr>mem := snd (run (access a) (mem c)), putting := Some as\<rparr>) sp'"
proof -
  obtain src k where k: "flight sp = Some (src, k)" "k \<le> length src" "pre @ begun c = published sp @ src"
      "a # as = drop k (stores B (hd_i sp) src) @ [StoreHead ((hd_i sp + length src) mod B)]"
    using assms by (auto simp: matches_def putting_is_def)
  show ?thesis
  proof (cases "k < length src")
    case True
    then have "drop k (stores B (hd_i sp) src) = Store ((hd_i sp + k) mod B) (src ! k) # drop (Suc k) (stores B (hd_i sp) src)"
      by (simp add: Cons_nth_drop_Suc [symmetric] stores_def)
    with k(4) have a: "a = Store ((hd_i sp + k) mod B) (src ! k)"
        "as = drop (Suc k) (stores B (hd_i sp) src) @ [StoreHead ((hd_i sp + length src) mod B)]" by simp_all
    let ?sp = "sp\<lparr>arr := (arr sp)((hd_i sp + k) mod B := src ! k), flight := Some (src, Suc k)\<rparr>"
    have "ring_step B sp ?sp" by (rule ring_step.put_copy [OF k(1) True])
    moreover have "matches B pre (c\<lparr>mem := snd (run (access a) (mem c)), putting := Some as\<rparr>) ?sp"
      using assms(1) k(3) True a by (auto simp: matches_def putting_is_def)
    ultimately show ?thesis by blast
  next
    case False
    then have l: "k = length src" using k(2) by simp
    with k(4) have a: "a = StoreHead ((hd_i sp + length src) mod B)" "as = []" by simp_all
    let ?sp = "sp\<lparr>hd_i := (hd_i sp + length src) mod B, flight := None, published := published sp @ src\<rparr>"
    have "ring_step B sp ?sp" using k(1) unfolding l by (rule ring_step.put_publish)
    moreover have "matches B pre (c\<lparr>mem := snd (run (access a) (mem c)), putting := Some as\<rparr>) ?sp"
      using assms(1) k(3) a by (auto simp: matches_def putting_is_def)
    ultimately show ?thesis by blast
  qed
qed

lemma race_get_begin:
  assumes "matches B pre c sp" "ring_inv B sp" "getting c = None"
  shows "\<exists>sp'. ring_step B sp sp' \<and> matches B pre (c\<lparr>getting := Some ([],
      read_accesses (ring_bytes (mem c)) (ring_tail (mem c)) (min (ring_used (mem c)) limit))\<rparr>) sp'"
proof -
  have fe: "fetch sp = None" using assms(1,3) by (auto simp: matches_def getting_is_def)
  have m: "ring_bytes (mem c) = B" "hd_i sp = ring_head (mem c)" "tl_i sp = ring_tail (mem c)"
    using assms(1) by (simp_all add: matches_def)
  let ?n = "min (ring_used (mem c)) limit"
  have n: "?n \<le> used B (hd_i sp) (tl_i sp)" using m by (simp add: ring_used_def used_def)
  then have "?n < B" using ring_inv_bounds(4) [OF assms(2)] by linarith
  then have eq: "read_accesses B (tl_i sp) ?n = map (\<lambda>k. Load ((tl_i sp + k) mod B)) [0..<?n] @ [StoreTail ((tl_i sp + ?n) mod B)]"
    by (rule read_accesses_eq [OF _ ring_inv_bounds(2) [OF assms(2)]])
  have "ring_step B sp (sp\<lparr>fetch := Some (?n, [])\<rparr>)" by (rule ring_step.get_start [OF fe n])
  moreover have "matches B pre (c\<lparr>getting := Some ([], read_accesses (ring_bytes (mem c)) (ring_tail (mem c)) ?n)\<rparr>)
      (sp\<lparr>fetch := Some (?n, [])\<rparr>)"
    using assms(1,3) eq m by (auto simp: matches_def getting_is_def)
  ultimately show ?thesis by blast
qed

lemma race_get_access:
  assumes "matches B pre c sp" "getting c = Some (out, a # as)"
  shows "\<exists>sp'. ring_step B sp sp' \<and> matches B pre
    (c\<lparr>mem := snd (run (access a) (mem c)), getting := Some (out @ fst (run (access a) (mem c)), as)\<rparr>) sp'"
proof -
  obtain n where n: "fetch sp = Some (n, out)" "length out \<le> n" "received sp = pre @ handed c"
      "a # as = map (\<lambda>k. Load ((tl_i sp + k) mod B)) [length out..<n] @ [StoreTail ((tl_i sp + n) mod B)]"
    using assms by (auto simp: matches_def getting_is_def)
  show ?thesis
  proof (cases "length out < n")
    case True
    then have a: "a = Load ((tl_i sp + length out) mod B)"
        "as = map (\<lambda>k. Load ((tl_i sp + k) mod B)) [Suc (length out)..<n] @ [StoreTail ((tl_i sp + n) mod B)]"
      using n(4) by (simp_all add: upt_conv_Cons)
    let ?sp = "sp\<lparr>fetch := Some (n, out @ [arr sp ((tl_i sp + length out) mod B)])\<rparr>"
    have "ring_step B sp ?sp" by (rule ring_step.get_copy [OF n(1) True])
    moreover have "matches B pre (c\<lparr>mem := snd (run (access a) (mem c)), getting := Some (out @ fst (run (access a) (mem c)), as)\<rparr>) ?sp"
      using assms(1) n(3) True a by (auto simp: matches_def getting_is_def)
    ultimately show ?thesis by blast
  next
    case False
    then have l: "length out = n" using n(2) by simp
    with n(4) have a: "a = StoreTail ((tl_i sp + n) mod B)" "as = []" by simp_all
    let ?sp = "sp\<lparr>tl_i := (tl_i sp + n) mod B, fetch := None, received := received sp @ out\<rparr>"
    have "ring_step B sp ?sp" by (rule ring_step.get_done [OF n(1) l])
    moreover have "matches B pre (c\<lparr>mem := snd (run (access a) (mem c)), getting := Some (out @ fst (run (access a) (mem c)), as)\<rparr>) ?sp"
      using assms(1) n(3) a by (auto simp: matches_def getting_is_def)
    ultimately show ?thesis by blast
  qed
qed

lemma race_refines:
  assumes "race_step c c'" "matches B pre c sp" "ring_inv B sp"
  shows "\<exists>sp'. (ring_step B)\<^sup>*\<^sup>* sp sp' \<and> matches B pre c' sp'"
  using assms(1)
proof (cases rule: race_step.cases)
  case (put_begin words hdr)
  then show ?thesis using race_put_begin [OF assms(2,3)] by blast
next
  case (put_access a as)
  then show ?thesis using race_put_access [OF assms(2)] by blast
next
  case put_end
  then have "matches B pre c' sp" using assms(2) by (auto simp: matches_def putting_is_def)
  then show ?thesis by blast
next
  case (get_begin limit)
  then show ?thesis using race_get_begin [OF assms(2,3)] by blast
next
  case (get_access out a as)
  then show ?thesis using race_get_access [OF assms(2)] by blast
next
  case (get_end out)
  then have "matches B pre c' sp" using assms(2) by (auto simp: matches_def getting_is_def)
  then show ?thesis by blast
qed

definition race_start :: "trace \<Rightarrow> race" where
  "race_start s = \<lparr>mem = s, putting = None, getting = None, begun = [], handed = []\<rparr>"

lemma race_runs:
  assumes "race_step\<^sup>*\<^sup>* (race_start s) c" "ring s \<noteq> None" "ring_tail s = ring_head s" "ring_head s < ring_bytes s"
  shows "\<exists>sp. ring_inv (ring_bytes s) sp \<and> matches (ring_bytes s) (replicate (ring_head s) 0) c sp"
  using assms(1)
proof (induction rule: rtranclp_induct)
  case base
  let ?pre = "replicate (ring_head s) (0 :: u8)"
  let ?sp = "\<lparr>arr = the (ring s), hd_i = ring_head s, tl_i = ring_head s, flight = None, fetch = None, published = ?pre, received = ?pre\<rparr>"
  have "ring_inv (ring_bytes s) ?sp" using assms(4) by (auto simp: ring_inv_def Let_def)
  moreover have "matches (ring_bytes s) ?pre (race_start s) ?sp"
    using assms(2,3) by (auto simp: matches_def putting_is_def getting_is_def race_start_def)
  ultimately show ?case by blast
next
  case (step c c')
  then obtain sp where sp: "ring_inv (ring_bytes s) sp" "matches (ring_bytes s) (replicate (ring_head s) 0) c sp" by blast
  with race_refines [OF step(2)] obtain sp' where "(ring_step (ring_bytes s))\<^sup>*\<^sup>* sp sp'"
      "matches (ring_bytes s) (replicate (ring_head s) 0) c' sp'" by blast
  then show ?case using ring_inv_steps sp(1) by blast
qed

text \<open>C27: (The ring refines a queue.) Within one trace (no restart is pending: the ring starts empty, anywhere in its
  array), however the accesses of \<open>publish_flags\<close> and \<open>dap_trace_read\<close> to the shared memory interleave, each side's
  in the order of the code: what the reads have returned is a prefix of the records the drain has begun, in
  order, so no byte is lost, duplicated, torn or read before it is written; and whenever both sides are between
  operations the ring holds exactly the rest.\<close>

theorem ring_is_queue:
  assumes "race_step\<^sup>*\<^sup>* (race_start s) c" "ring s \<noteq> None" "ring_tail s = ring_head s" "ring_head s < ring_bytes s"
  shows "prefix (handed c) (begun c) \<and>
    (putting c = None \<and> getting c = None \<longrightarrow> length (begun c) = length (handed c) + ring_used (mem c))"
proof -
  let ?B = "ring_bytes s" and ?pre = "replicate (ring_head s) (0 :: u8)"
  obtain sp where sp: "ring_inv ?B sp" "matches ?B ?pre c sp" using race_runs [OF assms] by blast
  have "received sp = take (length (received sp)) (published sp)" "length (received sp) \<le> length (published sp)"
    using sp(1) by (simp_all add: ring_inv_def Let_def)
  then have "prefix (received sp) (published sp)" by (metis take_is_prefix)
  moreover have "prefix (?pre @ handed c) (received sp)" "prefix (published sp) (?pre @ begun c)"
    using sp(2) by (auto simp: matches_def putting_is_def getting_is_def)
  ultimately have "prefix (?pre @ handed c) (?pre @ begun c)" by (blast intro: prefix_order.trans)
  moreover have "length (begun c) = length (handed c) + ring_used (mem c)" if "putting c = None" "getting c = None"
  proof -
    have "published sp = ?pre @ begun c" "received sp = ?pre @ handed c" using sp(2) that
      by (auto simp: matches_def putting_is_def getting_is_def)
    moreover have "ring_used (mem c) = used ?B (hd_i sp) (tl_i sp)"
      using sp(2) by (simp add: matches_def ring_used_def used_def)
    ultimately show ?thesis
      using ring_inv_bounds(3) [OF sp(1)] \<open>length (received sp) \<le> length (published sp)\<close> by simp
  qed
  ultimately show ?thesis by simp
qed

text \<open>C28: \<open>publish_flags\<close> is a run of the drain's side of that ring: a record goes in whole, header
  first, when there is room for it, and not at all otherwise; it never waits.\<close>

theorem publish_refines:
  fixes s :: "'e trace_scheme"
  assumes "length words = 256" "ring s \<noteq> None" "ring_head s < ring_bytes s" "ring_tail s < ring_bytes s"
  shows "let s' = final (publish_flags par words lost extra) s;
             rec = (if ring_free s \<ge> 1044
                    then header_bytes (record_of (s_bot s) (s_seq s) par lost extra) @ words_bytes words else [])
    in (ring_step (ring_bytes s))\<^sup>*\<^sup>* (shared s pub rcv) (shared s' (pub @ rec) rcv) \<and>
       ring_bytes s' = ring_bytes s \<and> s_seq s' = s_seq s + 1"
proof -
  let ?h = "header_bytes (record_of (s_bot s) (s_seq s) par lost extra)"
  let ?src = "?h @ words_bytes words" and ?B = "ring_bytes s"
  obtain r where r: "ring s = Some r" using assms(2) by blast
  have len: "length ?src = 1044" using assms(1) by (simp add: length_record RECORD_SIZE_def)
  have free: "ring_free (s\<lparr>s_seq := q\<rparr>) = ring_free s" for q by (simp add: ring_free_def ring_used_def)
  show ?thesis
  proof (cases "ring_free s \<ge> 1044")
    case True
    then have "1044 < ?B" by (simp add: ring_free_def)
    have "record_accesses ?B (ring_head s) (record_of (s_bot s) (s_seq s) par lost extra) words =
        stores ?B (ring_head s) ?src @ [StoreHead ((ring_head s + length ?src) mod ?B)]"
      using len \<open>1044 < ?B\<close> assms(3) by (subst record_accesses_eq) (simp_all add: Let_def)
    then have put: "run (accesses (record_accesses ?B (ring_head s) (record_of (s_bot s) (s_seq s) par lost extra) words)) t =
        ([], t\<lparr>ring := Some (put_bytes_at ?B (ring_head s) ?src (length ?src) r), ring_head := (ring_head s + length ?src) mod ?B\<rparr>)"
      if "ring t = Some r" for t :: "'e trace_scheme"
      using run_stores [OF that] by (simp add: run_accesses_append del: append_assoc)
    have "(ring_step ?B)\<^sup>*\<^sup>* (shared s pub rcv) ((shared s pub rcv)\<lparr>arr := put_bytes_at ?B (ring_head s) ?src (length ?src) r,
        hd_i := (ring_head s + length ?src) mod ?B, published := pub @ ?src\<rparr>)"
      using put_run [of "shared s pub rcv" ?src ?B] True len ring_free_used [of s] r by (simp add: shared_def)
    then show ?thesis
      using True free put r
      by (simp add: publish_flags_def final_def count_def Let_def RECORD_SIZE_def TRACE_PARAGRAPH_def shared_def)
  next
    case False
    then show ?thesis
      using free by (simp add: publish_flags_def final_def count_def Let_def RECORD_SIZE_def TRACE_PARAGRAPH_def shared_def)
  qed
qed


text \<open>C29: \<open>dap_trace_read\<close> is a run of the sender's side: it returns the oldest bytes not yet handed out, as many
  as are asked for and there are. After a new start it first drops what is left of the trace before.\<close>

theorem read_refines:
  fixes s :: "'e trace_scheme"
  assumes "ring s \<noteq> None" "ring_head s < ring_bytes s" "ring_tail s < ring_bytes s" "ring_reset_to s < ring_bytes s"
  shows "let s' = final (dap_trace_read D limit) s; out = result (dap_trace_read D limit) s;
             s0 = (if ring_reset s then s\<lparr>ring_tail := ring_reset_to s\<rparr> else s)
    in (ring_step (ring_bytes s))\<^sup>*\<^sup>* (shared s0 pub rcv) (shared s' pub (rcv @ out)) \<and>
       length out = min (ring_used s0) limit \<and> \<not> ring_reset s'"
proof -
  define s0 where "s0 = (if ring_reset s then s\<lparr>ring_tail := ring_reset_to s\<rparr> else s)"
  let ?B = "ring_bytes s" and ?n = "min (ring_used s0) limit" and ?t = "ring_tail s0"
  obtain r where r: "ring s = Some r" using assms(1) by blast
  have s0: "ring s0 = Some r" "ring_head s0 = ring_head s" "ring_bytes s0 = ?B" "?t < ?B"
    using r assms by (auto simp: s0_def)
  have "?n \<le> ring_used s0" by simp
  moreover have "ring_used s0 < ?B" using s0 assms(2) by (auto simp: ring_used_def)
  ultimately have n: "?n < ?B" "?n \<le> used ?B (ring_head s0) ?t"
    using s0 by (auto simp: ring_used_def used_def)
  have run: "(ring_step ?B)\<^sup>*\<^sup>* (shared s0 pub rcv) ((shared s0 pub rcv)\<lparr>tl_i := (?t + ?n) mod ?B,
      received := rcv @ map (\<lambda>k. r ((?t + k) mod ?B)) [0..<?n]\<rparr>)"
    using get_run [of "shared s0 pub rcv" ?n ?B] n(2) s0 by (simp add: shared_def)
  let ?m = "dap_trace_read D limit" and ?n' = "if ring_used s0 < limit then ring_used s0 else limit"
  let ?out = "map (\<lambda>k. r ((?t + k) mod ?B)) [0..<?n]"
  have nn: "?n' = ?n" by (simp add: min_def)
  have acc: "run (accesses (read_accesses ?B ?t ?n')) x = (?out, x\<lparr>ring_tail := (?t + ?n) mod ?B\<rparr>)"
    if "ring x = Some r" for x :: "'e trace_scheme"
    unfolding nn read_accesses_eq [OF n(1) s0(4)] using that by (simp add: run_accesses_append run_loads)
  have used: "ring_used (s\<lparr>hist := h, last_read_us := t, ring_tail := tl, ring_reset := b\<rparr>) = ring_used (s\<lparr>ring_tail := tl\<rparr>)"
    "ring_used (s\<lparr>hist := h, last_read_us := t\<rparr>) = ring_used s" for h t tl b by (simp_all add: ring_used_def)
  define f where "f x = (if ring_reset s then x\<lparr>ring_tail := ring_reset_to s, ring_reset := False\<rparr> else x)"
    for x :: "'e trace_scheme"
  have ex: "\<exists>st h t. run ?m s = (?out, (f (s\<lparr>hist := h, last_read_us := t\<rparr>))\<lparr>ring_tail := (?t + ?n) mod ?B, stats := st\<rparr>)"
  proof (cases "ring_reset s")
    case True
    then have "s0 = s\<lparr>ring_tail := ring_reset_to s\<rparr>" "f = (\<lambda>x. x\<lparr>ring_tail := ring_reset_to s, ring_reset := False\<rparr>)"
      by (auto simp: s0_def f_def)
    with True r acc show ?thesis
      by (simp add: dap_trace_read_def esp_timer_get_time_def if_do_def count_def Let_def used split del: if_split
          cong: if_cong) (intro exI, rule refl)
  next
    case False
    then have "s0 = s" "f = (\<lambda>x. x)" by (auto simp: s0_def f_def)
    with False r acc show ?thesis
      by (simp add: dap_trace_read_def esp_timer_get_time_def if_do_def count_def Let_def used split del: if_split
          cong: if_cong) (intro exI, rule refl)
  qed
  obtain st h t where "run ?m s = (?out, (f (s\<lparr>hist := h, last_read_us := t\<rparr>))\<lparr>ring_tail := (?t + ?n) mod ?B, stats := st\<rparr>)"
    using ex by blast
  then have m: "result ?m s = ?out" "ring (final ?m s) = Some r" "ring_head (final ?m s) = ring_head s"
    "ring_tail (final ?m s) = (?t + ?n) mod ?B" "\<not> ring_reset (final ?m s)"
    using r by (simp_all add: result_def final_def f_def)
  show ?thesis
    unfolding s0_def [symmetric] Let_def m(1)
    using run m(2-5) by (simp add: shared_def s0)
qed

lemma le32_at_bytes:
  "k + 4 \<le> length p \<Longrightarrow> take 4 (drop k p) = le_bytes32 w \<Longrightarrow> le32_at p k = w"
proof -
  assume k: "k + 4 \<le> length p" "take 4 (drop k p) = le_bytes32 w"
  have "p ! (k + i) = le_bytes32 w ! i" if "i < 4" for i
    using that k by (metis add_leE nth_drop nth_take)
  from this [of 0] this [of 1] this [of 2] this [of 3]
  have "le32_at p k = word32_of_bytes (byte_of_word32 w 0) (byte_of_word32 w 1) (byte_of_word32 w 2) (byte_of_word32 w 3)"
    by (simp add: le32_at_def le_bytes32_def)
  also have "\<dots> = w"
    by (rule bit_word_eqI) (auto simp: bit_word32_of_bytes bit_byte_of_word32)
  finally show ?thesis .
qed

lemma le32_at_words: "i < length ws \<Longrightarrow> le32_at (words_bytes ws @ rest) (4 * i) = ws ! i"
proof (rule le32_at_bytes)
  assume i: "i < length ws"
  have "take 4 (drop (4 * i) (words_bytes ws @ rest)) = le_bytes32 (ws ! i)"
    using i
  proof (induction ws arbitrary: i)
    case (Cons w ws)
    have "words_bytes (w # ws) = le_bytes32 w @ words_bytes ws" "length (le_bytes32 w) = 4"
      by (simp_all add: words_bytes_def le_bytes32_def)
    with Cons show ?case by (cases i) simp_all
  qed simp
  then show "take 4 (drop (4 * i) (words_bytes ws @ rest)) = le_bytes32 (ws ! i)" .
qed simp

lemma le32_at_drop: "k \<le> length p \<Longrightarrow> le32_at (p @ q) (length p + k) = le32_at q k"
  by (simp add: le32_at_def nth_append)

text \<open>A record in the drained stream is decoded, by the little-endian layout \<open>dap_trace.h\<close> documents,
  to the header it was written from and to the paragraph's words.\<close>

theorem record_round_trip:
  "header_of_bytes (header_bytes h @ words_bytes ws) = h \<and>
   map (\<lambda>i. le32_at (header_bytes h @ words_bytes ws) (RECORD_SIZE + i * 4)) [0..<length ws] = ws"
proof
  let ?p = "header_bytes h @ words_bytes ws"
  have w16: "ucast (word32_of_bytes (byte_of_word32 (ucast a) 0) (byte_of_word32 (ucast a) 1)
      (byte_of_word32 (ucast b) 0) (byte_of_word32 (ucast b) 1)) = (a :: u16)"
    "ucast (drop_bit 16 (word32_of_bytes (byte_of_word32 (ucast a) 0) (byte_of_word32 (ucast a) 1)
      (byte_of_word32 (ucast b) 0) (byte_of_word32 (ucast b) 1))) = (b :: u16)" for a b :: u16
    by (rule bit_word_eqI; auto simp: bit_simps bit_word32_of_bytes bit_byte_of_word32)+
  have "le32_at ?p 0 = r_magic h" "le32_at ?p 4 = r_seq h" "le32_at ?p 8 = r_tram_offset h" "le32_at ?p 16 = r_lost h"
    by (rule le32_at_bytes; simp add: header_bytes_def le_bytes32_def)+
  moreover have "ucast (le32_at ?p 12) = r_length h" "ucast (drop_bit 16 (le32_at ?p 12)) = r_flags h"
    using w16 [of "r_length h" "r_flags h"] by (simp_all add: le32_at_def header_bytes_def le_bytes32_def)
  ultimately show "header_of_bytes ?p = h" by (simp add: header_of_bytes_def)
  have "le32_at ?p (RECORD_SIZE + i * 4) = ws ! i" if "i < length ws" for i
    using that le32_at_words [of i ws "[]"]
    by (simp add: le32_at_def nth_append length_record add.assoc mult.commute)
  then show "map (\<lambda>i. le32_at ?p (RECORD_SIZE + i * 4)) [0..<length ws] = ws"
    by (auto intro: nth_equalityI)
qed

definition trace0 :: trace where
  "trace0 = wide.extend wide0 \<lparr>ring = Some (\<lambda>_. 0), ring_bytes = 4096, ring_head = 0, ring_tail = 0, ring_reset_to = 0,
     ring_reset = False, draining = True, s_bot = 0, s_top = 0x1FFF, s_span = 0x2000, s_next_par = 0,
     s_last_ovrcnt = 0, s_pending_lost = 0, s_seq = 0, stats = no_stats, s_task = False, last_read_us = 0,
     ovr_polls = 0\<rparr>"

lemma trace0_simps [simp]:
  "ring trace0 = Some (\<lambda>_. 0)" "ring_bytes trace0 = 4096" "ring_head trace0 = 0" "ring_tail trace0 = 0"
  "ring_reset_to trace0 = 0" "ring_reset trace0 = False" "s_bot trace0 = 0" "s_span trace0 = 0x2000"
  "s_next_par trace0 = 0" "s_seq trace0 = 0" "stats trace0 = no_stats" "s_pending_lost trace0 = 0" "hist trace0 = []"
  "s_last_ovrcnt trace0 = 0"
  by (simp_all add: trace0_def wide.defs wide0_def tc0_def tricore.defs)

text \<open>A read that starts between two stores of a record being written.\<close>

lemma ring_is_queue_witness:
  "\<exists>c. race_step\<^sup>*\<^sup>* (race_start trace0) c \<and> length (begun c) = 1044 \<and> getting c \<noteq> None \<and> prefix (handed c) (begun c)"
proof -
  have free: "ring_free (mem (race_start trace0)) \<ge> RECORD_SIZE + unat TRACE_PARAGRAPH"
    by (simp add: ring_free_def ring_used_def race_start_def RECORD_SIZE_def TRACE_PARAGRAPH_def)
  define hdr where "hdr = record_of 0 0 3 2 0"
  define ws :: "u32 list" where "ws = replicate TRACE_WORDS_PER_PAR 7"
  have ws: "length ws = TRACE_WORDS_PER_PAR" by (simp add: ws_def)
  define c1 where "c1 = (race_start trace0)\<lparr>putting := Some (record_accesses (ring_bytes (mem (race_start trace0)))
      (ring_head (mem (race_start trace0))) hdr ws),
    begun := begun (race_start trace0) @ header_bytes hdr @ words_bytes ws\<rparr>"
  define c2 where "c2 = c1\<lparr>getting := Some ([], read_accesses (ring_bytes (mem c1)) (ring_tail (mem c1)) (min (ring_used (mem c1)) 10))\<rparr>"
  have "race_step (race_start trace0) c1" unfolding c1_def by (rule put_begin [OF _ free ws]) (simp add: race_start_def)
  moreover have "race_step c1 c2" unfolding c2_def by (rule get_begin) (simp add: c1_def race_start_def)
  ultimately have run: "race_step\<^sup>*\<^sup>* (race_start trace0) c2" by (meson rtranclp.simps)
  have "prefix (handed c2) (begun c2)" by (rule ring_is_queue [OF run, THEN conjunct1]) simp_all
  moreover have "length (begun c2) = 1044"
    by (simp add: c2_def c1_def race_start_def length_record ws RECORD_SIZE_def TRACE_WORDS_PER_PAR_def)
  ultimately show ?thesis using run by (intro exI [of _ c2]) (simp add: c2_def)
qed

lemma publish_refines_witness:
  "let s' = final (publish_flags 3 (replicate 256 7) 2 0) trace0
   in ring_bytes s' = 4096 \<and> (\<exists>rec. length rec = 1044 \<and> (ring_step 4096)\<^sup>*\<^sup>* (shared trace0 [] []) (shared s' rec []))"
proof -
  have "ring_free trace0 = 4095" by (simp add: ring_free_def ring_used_def)
  with publish_refines [of "replicate 256 7" trace0 3 2 0 "[]" "[]"]
  have "let s' = final (publish_flags 3 (replicate 256 7) 2 0) trace0; rec = header_bytes (record_of 0 0 3 2 0) @ words_bytes (replicate 256 7)
    in (ring_step 4096)\<^sup>*\<^sup>* (shared trace0 [] []) (shared s' rec []) \<and> ring_bytes s' = 4096"
    by (simp add: Let_def)
  moreover have "length (header_bytes (record_of 0 0 3 2 0) @ words_bytes (replicate 256 7)) = 1044"
    by (simp add: length_record RECORD_SIZE_def)
  ultimately show ?thesis unfolding Let_def by blast
qed

lemma read_refines_witness:
  "length (result (dap_trace_read (good_dev 0) 10) (trace0\<lparr>ring_head := 5\<rparr>)) = 5"
  using read_refines [of "trace0\<lparr>ring_head := 5\<rparr>" "good_dev 0" 10 "[]" "[]"] by (simp add: Let_def ring_used_def)

end
