(* ===== verification/Trace_Drain.thy ===== *)
theory Trace_Drain
  imports Trace_Ring
begin

text \<open>
  What a pass of the drain (\<open>drain_to\<close> of \<open>dap_trace.c\<close>) accounts for and asks for: the counters add up
  to the paragraphs that were waiting, and no block is asked for that the writer is about to overwrite.
  The target is arbitrary: FIFONOW and the paragraphs read whatever it answers.
\<close>

unbundle bit_operations_syntax

section \<open>What a pass accounts for\<close>

text \<open>Every paragraph a pass is done with is either published (or dropped whole for want of room: its
  sequence number is used up) or counted lost.\<close>

definition accounted :: "'e trace_scheme \<Rightarrow> u32" where
  "accounted s = s_seq s + st_lost (stats s)"

text \<open>\<open>fifo s\<close>: what the drain reads of the FIFO's geometry and never changes.\<close>

definition fifo :: "'e trace_scheme \<Rightarrow> u32 \<times> u32" where
  "fifo s = (s_bot s, s_span s)"

definition acc_at :: "u32 \<Rightarrow> (u32 \<times> u32) \<Rightarrow> 'e trace_scheme \<Rightarrow> bool" where
  "acc_at n g s \<longleftrightarrow> accounted s = n \<and> fifo s = g"

lemma acc_keep: "rel unchanged m \<Longrightarrow> triple (acc_at n g) m (\<lambda>_. acc_at n g)"
  by (erule of_rel) (auto simp: acc_at_def accounted_def fifo_def elim!: unchangedE)

lemma acc_modify [triples]:
  "triple (acc_at n g) (modify (\<lambda>s. s\<lparr>s_next_par := f s\<rparr>)) (\<lambda>_. acc_at n g)"
  "triple (acc_at n g) (modify (\<lambda>s. s\<lparr>s_pending_lost := l\<rparr>)) (\<lambda>_. acc_at n g)"
  "triple (acc_at n g) (modify (\<lambda>s. s\<lparr>s_last_ovrcnt := l\<rparr>)) (\<lambda>_. acc_at n g)"
  by (auto simp: triple_def acc_at_def accounted_def fifo_def)

lemma acc_count:
  "(\<And>t. st_lost (f t) = st_lost t + k) \<Longrightarrow> triple (acc_at n g) (count f) (\<lambda>_. acc_at (n + k) g)"
  by (auto simp: triple_def acc_at_def accounted_def fifo_def count_def)

lemmas acc_count0 = acc_count [where k = 0, simplified]

lemma acc_publish: "triple (acc_at n g) (publish_flags par ws lost extra) (\<lambda>_. acc_at (n + 1) g)"
  by (rule publish_triple) (auto simp: acc_at_def accounted_def fifo_def)

lemma acc_group:
  "triple (acc_at n g) (publish_group ps moved margin w to_read lost i)
     (\<lambda>r. acc_at (n + (if fst r then of_nat (to_read - i) else of_nat (length ps))) g)"
  if "i + length ps \<le> to_read"
  using that
proof (induction ps arbitrary: n lost i)
  case Nil
  show ?case unfolding publish_group.simps by (rule triple_return) simp
next
  case (Cons p ps)
  have left: "to_read - i = Suc (to_read - Suc i)" using Cons.prems by simp
  show ?case unfolding publish_group.simps publish_def
    apply (rule triple_if)
     apply (rule triple_let, rule triple_bind, rule acc_count [where k = "of_nat (to_read - i)"], simp)
     apply (rule triple_bind, rule acc_modify, rule triple_return, simp)
    apply (rule triple_bind, rule acc_keep, intro unchanged_frame)
    apply (rule triple_bind, rule acc_publish)
    apply (rule triple_bind, rule acc_keep, intro unchanged_frame)
    apply (rule triple_bind, rule acc_modify)
    apply (rule triple_post, rule Cons.IH)
    using Cons.prems apply simp
    using left apply (simp add: algebra_simps split: if_splits)
    done
qed


lemma acc_chain:
  assumes "i + left \<le> to_read"
  shows "triple (acc_at n g) (publish_chain left pw moved margin prev to_read lost i)
     (\<lambda>r. acc_at (n + (if fst r then of_nat (to_read - i) else of_nat left)) g)"
  using assms
proof (induction left pw moved margin prev to_read lost i arbitrary: n rule: publish_chain.induct)
  case (1 left pw moved margin prev to_read lost i)
  let ?group = "min left TRACE_NOW_EVERY"
  show ?case
  proof (cases "left = 0")
    case True
    then show ?thesis by (subst publish_chain.simps) (auto intro: triple_return)
  next
    case False
    have len: "length (paragraphs ?group pw) = ?group" by (simp add: paragraphs_def)
    have le: "i + ?group \<le> to_read" "i + ?group + (left - ?group) \<le> to_read" using "1.prems" by auto
    have sum: "(of_nat ?group + of_nat (to_read - (i + ?group)) :: u32) = of_nat (to_read - i)"
      "(of_nat ?group + of_nat (left - ?group) :: u32) = of_nat left"
      using "1.prems" by (simp_all only: flip: of_nat_add) auto
    have nf: "\<not> False" by simp
    show ?thesis
      apply (subst publish_chain.simps)
      apply (rule triple_if, use False in simp)
      apply (rule triple_let, rule triple_let)
      apply (rule triple_bind, rule acc_keep, intro unchanged_frame)
      apply (rule triple_bind, rule acc_keep, intro unchanged_frame)
      apply (rule triple_let)
      apply (rule triple_bind, rule acc_group, use le len in simp)
      apply (rule triple_case_prod, rule triple_if)
       apply (rule triple_return, simp)
      apply (rule triple_post, rule "1.IH" [OF False refl refl refl nf le(2)])
      using sum len apply (simp add: add.assoc split: if_splits)
      done
  qed
qed


lemma acc_chains:
  "triple (acc_at n g) (drain_chains D to_read margin moved prev lost i)
     (\<lambda>r s. if fst r = ESP_OK then acc_at (n + of_nat (to_read - i)) g s else fst r = ESP_ERR_TIMEOUT)"
proof (induction D to_read margin moved prev lost i arbitrary: n rule: drain_chains.induct)
  case (1 D to_read margin moved prev lost i)
  let ?batch = "min (to_read - i) TRACE_CHAIN_PARS"
  show ?case
  proof (cases "i \<ge> to_read")
    case True
    then show ?thesis by (subst drain_chains.simps) (auto intro: triple_return)
  next
    case False
    have le: "i + ?batch \<le> to_read" using False by simp
    have sum: "(of_nat ?batch + of_nat (to_read - (i + ?batch)) :: u32) = of_nat (to_read - i)"
      using False by (simp only: flip: of_nat_add) auto
    have e: "\<not> ESP_OK \<noteq> ESP_OK" and nf: "\<not> False" by simp_all
    show ?thesis
      apply (subst drain_chains.simps)
      apply (rule triple_if, use False in simp)
      apply (rule triple_let)
      apply (rule triple_bind, rule acc_keep, intro unchanged_frame)
      apply (rule triple_bind, rule acc_keep, intro unchanged_frame)
      apply (rule triple_bind, rule acc_keep, intro unchanged_frame)
      apply (rule triple_case_prod, rule triple_if)
       apply (rule triple_bind, rule acc_count0, simp)
       apply (rule triple_bind, rule acc_keep, intro unchanged_frame)
       apply (rule triple_return, simp)
      apply (rule triple_bind, rule acc_keep, intro unchanged_frame)
      apply (rule triple_bind, rule acc_count0, simp)
      apply (rule triple_bind, rule acc_chain, rule le)
      apply (rule triple_case_prod, rule triple_case_prod, rule triple_case_prod, rule triple_if)
       apply (rule triple_return, simp)
      apply (rule triple_post, rule "1.IH" [OF False refl e nf])
      using sum apply (simp add: add.assoc split: if_splits)
      done
  qed
qed

definition waiting :: "u32 \<Rightarrow> 'e trace_scheme \<Rightarrow> u32" where
  "waiting now s = (let total_par = s_span s div TRACE_PARAGRAPH
     in (par_of now s + total_par - s_next_par s) mod total_par)"

lemma acc_drain:
  fixes s0 :: "'e trace_scheme"
  shows "triple (\<lambda>s :: 'e trace_scheme. acc_at (accounted s0) (fifo s0) s \<and> s_next_par s = s_next_par s0) (drain_to D now ovr)
    (\<lambda>r s. r = ESP_OK \<or> r = ESP_ERR_NOT_FOUND \<longrightarrow> acc_at (accounted s0 + waiting now s0) (fifo s0) s)"
proof -
  let ?n = "accounted s0" and ?g = "fifo s0" and ?w = "waiting now s0"
  let ?P = "\<lambda>s :: 'e trace_scheme. acc_at ?n ?g s \<and> s_next_par s = s_next_par s0"
  let ?total = "s_span s0 div TRACE_PARAGRAPH"
  have keep: "rel unchanged m \<Longrightarrow> triple ?P m (\<lambda>_. ?P)" for m :: "('e trace_scheme, 'r) state"
    by (erule of_rel) (auto simp: acc_at_def accounted_def fifo_def elim!: unchangedE)
  have ovr: "triple ?P (if_do b (do { count (\<lambda>t. t\<lparr>st_overruns := st_overruns t + k\<rparr>);
      modify (\<lambda>s. s\<lparr>s_last_ovrcnt := ovr\<rparr>) })) (\<lambda>_. ?P)" for b k
    by (auto simp: triple_def acc_at_def accounted_def fifo_def count_def if_do_def)
  have w: "?w = (par_of now s0 + ?total - s_next_par s0) mod ?total" by (simp add: waiting_def Let_def)
  have skip: "triple (acc_at (?n + ?w - a) ?g) (do { count f; modify (\<lambda>s. s\<lparr>s_next_par := h s\<rparr>); ret (a - k, l) })
      (\<lambda>r. acc_at (?n + ?w - fst r) ?g)" if "\<And>t. st_lost (f t) = st_lost t + k" for a k l f and h :: "'e trace_scheme \<Rightarrow> u32"
    by (rule triple_bind, rule acc_count [OF that], rule triple_bind, rule acc_modify, rule triple_return) (simp add: algebra_simps)
  have passes: "triple (acc_at m ?g) (if_do b (count (\<lambda>t. t\<lparr>st_passes := st_passes t + 1\<rparr>))) (\<lambda>_. acc_at m ?g)"
    for m b by (rule triple_if_do, rule acc_count0, simp, simp)
  have pending: "triple (\<lambda>s. if e = ESP_OK then acc_at m ?g s else e = ESP_ERR_TIMEOUT)
      (modify (\<lambda>s. s\<lparr>s_pending_lost := l\<rparr>)) (\<lambda>_ s. if e = ESP_OK then acc_at m ?g s else e = ESP_ERR_TIMEOUT)"
    for m e l by (auto simp: triple_def acc_at_def accounted_def fifo_def)
  have last: "triple (acc_at m ?g) (do { t1 \<leftarrow> esp_timer_get_time D; let us = of_int (t1 - t0);
      count (\<lambda>t. t\<lparr>st_poll_us_max := max us (st_poll_us_max t), st_fifonow := now, st_running := True\<rparr>);
      ret (if a then ESP_OK else ESP_ERR_NOT_FOUND) }) (\<lambda>_. acc_at m ?g)" for m t0 a
    by (rule triple_bind, rule acc_keep, intro unchanged_frame, rule triple_let, rule triple_bind, rule acc_count0, simp)
      (rule triple_return)
  show ?thesis
    unfolding drain_to_def
    apply (rule triple_bind, rule keep, intro unchanged_frame)
    apply (rule triple_bind, rule keep, intro unchanged_frame)
    apply (rule triple_bind, rule ovr)
    apply (rule triple_known [where c = ?total], simp add: acc_at_def fifo_def)
    apply (rule triple_known [where c = "par_of now s0"], simp add: acc_at_def fifo_def par_of_def)
    apply (rule triple_known [where c = "s_next_par s0"], simp)
    apply (rule triple_bind, rule keep, intro unchanged_frame)
    apply (rule triple_let, fold w)
    apply (rule triple_pre [where P' = "acc_at ?n ?g"])
     apply (rule triple_bind [where R = "\<lambda>r. acc_at (?n + ?w - fst r) ?g"])
      apply (rule triple_if)
       apply (rule triple_post, rule skip [of _ ?w ?w, simplified], simp, simp)
      apply (rule triple_return, simp)
     apply (rule triple_case_prod)
     apply (rule triple_bind [where R = "\<lambda>r. acc_at (?n + ?w - fst r) ?g"])
      apply (rule triple_if, rule triple_let, simp only: fst_conv, rule skip, simp)
      apply (rule triple_return, simp)
     apply (rule triple_case_prod, simp only: fst_conv)
     apply (rule triple_bind, rule passes)
     apply (rule triple_bind, rule acc_chains)
     apply (rule triple_case_prod)
     apply (rule triple_bind, rule pending)
     apply (rule triple_if, rule triple_return, simp)
     apply (rule triple_weaken, rule last, auto)
    done
qed



section \<open>What a pass asks for\<close>

text \<open>Only the chained block reads ask for paragraphs; the rest of the traffic keeps the list of chains.\<close>

definition same_chains :: "'e probe_scheme \<Rightarrow> 'e probe_scheme \<Rightarrow> bool" where
  "same_chains s s' \<longleftrightarrow> chains (hist s') = chains (hist s)"

interpretation chains: word_frame "same_chains :: 'e probe_scheme \<Rightarrow> 'e probe_scheme \<Rightarrow> bool"
proof
  show "same_chains s (s\<lparr>hist := e # hist s\<rparr>)" if "traffic e" "\<not> block_read e" for e and s :: "'e probe_scheme"
    using that by (cases e) (simp_all add: same_chains_def chains_def)
qed (simp_all add: same_chains_def)

lemma batches_chains:
  assumes "\<And>h. d_in_use D h" "run (blockread_batches D reqs ws) s = (r, s')"
  shows "\<exists>cs. chains (hist s') = cs @ chains (hist s) \<and> (\<forall>c\<in>set cs. set c \<subseteq> set (chain_of reqs))"
  using assms
proof (induction D reqs ws arbitrary: s rule: blockread_batches.induct)
  case (1 D reqs ws)
  show ?case
  proof (cases "reqs = []")
    case True
    with "1.prems"(2) show ?thesis by (subst (asm) blockread_batches.simps) (auto intro!: exI [of _ "[]"])
  next
    case False
    let ?b = "take BLOCKREAD_CHAIN_MAX reqs" and ?rest = "drop BLOCKREAD_CHAIN_MAX reqs"
    obtain err got s1 where s1: "run (block_batch D ?b) s = ((err, got), s1)" by (metis prod_cases3 surj_pair)
    have b: "\<exists>cs. chains (hist s1) = cs @ chains (hist s) \<and> (\<forall>c\<in>set cs. set c \<subseteq> set (chain_of ?b))"
      using s1 "1.prems"(1)
      by (auto simp: block_batch_def dap_phy_fpga_blockread_chain_def chains_def chain_of_def split: if_splits)
    have sub: "set (chain_of ?b) \<subseteq> set (chain_of reqs)" "set (chain_of ?rest) \<subseteq> set (chain_of reqs)"
      by (auto simp: chain_of_def dest: in_set_takeD in_set_dropD)
    show ?thesis
    proof (cases "err = ESP_OK")
      case True
      then have "run (blockread_batches D ?rest (ws @ got)) s1 = (r, s')"
        using "1.prems"(2) False s1 by (subst (asm) blockread_batches.simps) simp
      from "1.IH" [OF False _ "1.prems"(1) this] True obtain cs where
        "chains (hist s') = cs @ chains (hist s1)" "\<forall>c\<in>set cs. set c \<subseteq> set (chain_of ?rest)" by auto
      moreover from b obtain bs where "chains (hist s1) = bs @ chains (hist s)" "\<forall>c\<in>set bs. set c \<subseteq> set (chain_of ?b)" by blast
      ultimately show ?thesis using sub by (intro exI [of _ "cs @ bs"]) fastforce
    next
      case False2: False
      then have "s' = s1" using "1.prems"(2) False s1 by (subst (asm) blockread_batches.simps) simp
      then show ?thesis using b sub by blast
    qed
  qed
qed

lemma many_chains:
  assumes "\<And>h. d_in_use D h" "run (dap_probe_blockread_many D reqs) s = (r, s')"
  shows "\<exists>cs. chains (hist s') = cs @ chains (hist s) \<and> (\<forall>c\<in>set cs. set c \<subseteq> set (chain_of reqs))"
proof -
  obtain s1 where s1: "run (blockread_batches D reqs []) (s\<lparr>hist := EvLock # hist s\<rparr>) = (r, s1)"
    "s' = s1\<lparr>hist := EvUnlock # hist s1\<rparr>"
    using assms(2) by (auto simp: dap_probe_blockread_many_def with_lock_def split: prod.splits)
  have "chains (EvUnlock # h) = chains h" "chains (EvLock # h) = chains h" for h by (simp_all add: chains_def)
  with batches_chains [OF assms(1) s1(1)] s1(2) show ?thesis by simp
qed

text \<open>Positions around the FIFO: \<open>a\<close> paragraphs wait between the reader \<open>q\<close> and the writer \<open>w\<close>.\<close>

lemma mod_once: "T \<le> x \<Longrightarrow> x < 2 * T \<Longrightarrow> x mod T = x - T" for x T :: nat
  by (simp add: le_mod_geq)

lemma behind_writer:
  fixes q w T a k :: nat
  assumes "q < T" "w < T" "a = (w + T - q) mod T" "k < a"
  shows "((q + k) mod T + T - w) mod T = T - a + k"
proof (cases "q \<le> w")
  case True
  then have "a = w - q" using assms(1-3) mod_once [of T "w + T - q"] by simp
  moreover have "(q + k) mod T = q + k" using calculation assms(2,4) by simp
  ultimately show ?thesis using assms True by simp
next
  case False
  then have a: "a = w + T - q" using assms(1-3) by simp
  show ?thesis
  proof (cases "q + k < T")
    case True
    have "(q + k + T - w) mod T = q + k - w"
      using mod_once [of T "q + k + T - w"] False True assms by simp
    then show ?thesis using a False True assms(1,2) by simp
  next
    case f2: False
    then have "(q + k) mod T = q + k - T" using mod_once [of T "q + k"] a assms by simp
    moreover have "q + k - T + T - w < T" using a assms f2 by simp
    ultimately show ?thesis using a False f2 assms by simp
  qed
qed


text \<open>What may be asked for while the writer is in paragraph \<open>w\<close> of \<open>T\<close>: the pointer, and the paragraphs
  at least \<open>TRACE_MARGIN\<close> ahead of the writer in the order it overwrites them.\<close>

definition safe_blocks :: "u32 \<Rightarrow> nat \<Rightarrow> nat \<Rightarrow> (u64 \<times> nat \<times> nat) set" where
  "safe_blocks fbot T w = insert (blockread_payload TRACE_FIFONOW 1, 40, 1)
     {(blockread_payload (TRACE_TRAM_BASE + fbot + p * TRACE_PARAGRAPH) 256, 40, 256) | p.
        unat p < T \<and> unat TRACE_MARGIN \<le> (unat p + T - w) mod T}"

lemma next_par: "unat (p :: u32) < unat tot \<Longrightarrow> unat ((p + 1) mod tot) = (unat p + 1) mod unat tot"
proof -
  assume p: "unat p < unat tot"
  moreover have "unat tot < 2 ^ 32" using unsigned_less [of tot] by simp
  ultimately have "unat (p + 1) = unat p + 1" by (simp add: unat_word_ariths(1))
  then show ?thesis by (simp add: unat_mod)
qed

lemma batch_reqs_safe:
  assumes "unat par < T" "unat tot = T" "\<And>k. k < n \<Longrightarrow> unat TRACE_MARGIN \<le> ((unat par + k) mod T + T - w) mod T"
  shows "set (chain_of (batch_reqs fbot tot batch n par)) \<subseteq> safe_blocks fbot T w"
  using assms
proof (induction n arbitrary: par)
  case (Suc n)
  let ?par = "(par + 1) mod tot"
  have p: "unat ?par = (unat par + 1) mod T" using next_par [of par tot] Suc.prems(1,2) by simp
  have "set (chain_of (batch_reqs fbot tot batch n ?par)) \<subseteq> safe_blocks fbot T w"
  proof (rule Suc.IH)
    show "unat ?par < T" using p Suc.prems(1) by simp
    show "unat TRACE_MARGIN \<le> ((unat ?par + k) mod T + T - w) mod T" if "k < n" for k
      using Suc.prems(3) [of "Suc k"] that by (simp add: p mod_simps)
  qed (rule Suc.prems(2))
  moreover have "(blockread_payload (TRACE_TRAM_BASE + fbot + par * TRACE_PARAGRAPH) 256, 40, 256) \<in> safe_blocks fbot T w"
    using Suc.prems(1) Suc.prems(3) [of 0] unfolding safe_blocks_def by fastforce
  moreover have "(blockread_payload TRACE_FIFONOW 1, 40, 1) \<in> safe_blocks fbot T w" by (simp add: safe_blocks_def)
  ultimately show ?case by (auto simp: chain_of_def Let_def TRACE_WORDS_PER_PAR_def)
qed (simp add: chain_of_def)

text \<open>\<open>asked\<close>: only such blocks since \<open>h0\<close>; \<open>at_par\<close>: and the next paragraph is the \<open>i\<close>-th after \<open>q\<close>.\<close>

definition asked :: "(u64 \<times> nat \<times> nat) set \<Rightarrow> hist \<Rightarrow> (u32 \<times> u32) \<Rightarrow> 'e trace_scheme \<Rightarrow> bool" where
  "asked A h0 g s \<longleftrightarrow> fifo s = g \<and> (\<exists>cs. chains (hist s) = cs @ chains h0 \<and> (\<forall>c\<in>set cs. set c \<subseteq> A))"

definition at_par :: "(u64 \<times> nat \<times> nat) set \<Rightarrow> hist \<Rightarrow> (u32 \<times> u32) \<Rightarrow> nat \<Rightarrow> nat \<Rightarrow> 'e trace_scheme \<Rightarrow> bool" where
  "at_par A h0 g q i s \<longleftrightarrow> asked A h0 g s \<and>
     unat (s_next_par s) = (q + i) mod unat (snd g div TRACE_PARAGRAPH)"

lemma par_keep:
  fixes m :: "('e trace_scheme, 'r) state"
  assumes "rel unchanged m" "rel same_chains m"
  shows "triple (at_par A h0 g q i) m (\<lambda>_. at_par A h0 g q i)"
    "triple (asked A h0 g) m (\<lambda>_. asked A h0 g)"
proof -
  have "rel (\<lambda>s s'. unchanged s s' \<and> same_chains s s') m" using assms by (auto simp: rel_def)
  then show "triple (at_par A h0 g q i) m (\<lambda>_. at_par A h0 g q i)" "triple (asked A h0 g) m (\<lambda>_. asked A h0 g)"
    by (elim of_rel; auto simp: at_par_def asked_def fifo_def same_chains_def elim!: unchangedE)+
qed

lemma par_count: "triple (at_par A h0 g q i) (count f) (\<lambda>_. at_par A h0 g q i)"
  "triple (asked A h0 g) (count f) (\<lambda>_. asked A h0 g)"
  by (auto simp: triple_def at_par_def asked_def fifo_def count_def)

lemma par_publish: "triple (at_par A h0 g q i) (publish_flags par ws lost extra) (\<lambda>_. at_par A h0 g q i)"
  by (rule publish_triple) (simp add: at_par_def asked_def fifo_def)

lemma asked_modify:
  "triple (asked A h0 g) (modify (\<lambda>s. s\<lparr>s_next_par := f s\<rparr>)) (\<lambda>_. asked A h0 g)"
  "triple (asked A h0 g) (modify (\<lambda>s. s\<lparr>s_pending_lost := l\<rparr>)) (\<lambda>_. asked A h0 g)"
  by (auto simp: triple_def asked_def fifo_def)

lemma at_par_asked: "at_par A h0 g q i s \<Longrightarrow> asked A h0 g s"
  by (simp add: at_par_def)

lemma par_group:
  assumes T: "0 < unat (snd g div TRACE_PARAGRAPH)"
  shows "triple (at_par A h0 g q j) (publish_group ps moved margin w to_read lost i)
     (\<lambda>r s. if fst r then asked A h0 g s else at_par A h0 g q (j + length ps) s)"
proof (induction ps arbitrary: lost i j)
  case Nil
  show ?case unfolding publish_group.simps by (rule triple_return) simp
next
  case (Cons p ps)
  let ?tot = "snd g div TRACE_PARAGRAPH"
  have step: "triple (\<lambda>s :: 'z trace_scheme. at_par A h0 g q j s \<and> s_next_par s = par) (modify (\<lambda>s. s\<lparr>s_next_par := (par + 1) mod ?tot\<rparr>))
      (\<lambda>_. at_par A h0 g q (Suc j))" for par
  proof (rule triple_modify)
    fix s :: "'z trace_scheme" assume s: "at_par A h0 g q j s \<and> s_next_par s = par"
    then have "unat par = (q + j) mod unat ?tot" unfolding at_par_def by blast
    then have "unat ((par + 1) mod ?tot) = (q + Suc j) mod unat ?tot"
      using next_par [of par ?tot] T by (simp add: mod_simps)
    then show "at_par A h0 g q (Suc j) (s\<lparr>s_next_par := (par + 1) mod ?tot\<rparr>)"
      using s by (simp add: at_par_def asked_def fifo_def)
  qed
  have pub: "triple (\<lambda>s. at_par A h0 g q j s \<and> s_next_par s = par) (publish_flags par ws lost extra)
      (\<lambda>_ s. at_par A h0 g q j s \<and> s_next_par s = par)" for par ws lost extra
    by (rule publish_triple) (auto simp: at_par_def asked_def fifo_def)
  show ?case unfolding publish_group.simps publish_def
    apply (rule triple_if)
     apply (rule triple_let, rule triple_pre [where P' = "asked A h0 g"])
      apply (rule triple_bind, rule par_count, rule triple_bind, rule asked_modify, rule triple_return, simp)
     apply (erule at_par_asked)
    apply (rule triple_bind [where R = "\<lambda>par s. at_par A h0 g q j s \<and> s_next_par s = par"])
     apply (rule triple_gets, simp)
    apply (rule triple_bind, rule pub)
    apply (rule triple_known [where c = ?tot], simp add: at_par_def asked_def fifo_def, fastforce)
    apply (rule triple_bind, rule step)
    apply (rule triple_post, rule Cons.IH)
    apply (simp split: if_splits)
    done
qed

lemma par_chain:
  assumes T: "0 < unat (snd g div TRACE_PARAGRAPH)"
  shows "triple (at_par A h0 g q j) (publish_chain left pw moved margin prev to_read lost i)
     (\<lambda>r s. if fst r then asked A h0 g s else at_par A h0 g q (j + left) s)"
proof (induction left pw moved margin prev to_read lost i arbitrary: j rule: publish_chain.induct)
  case (1 left pw moved margin prev to_read lost i)
  let ?group = "min left TRACE_NOW_EVERY"
  show ?case
  proof (cases "left = 0")
    case True
    then show ?thesis by (subst publish_chain.simps) (auto intro: triple_return)
  next
    case False
    have len: "length (paragraphs ?group pw) = ?group" by (simp add: paragraphs_def)
    have sum: "j + ?group + (left - ?group) = j + left" by simp
    have nf: "\<not> False" by simp
    show ?thesis
      apply (subst publish_chain.simps)
      apply (rule triple_if, use False in simp)
      apply (rule triple_let, rule triple_let)
      apply (rule triple_bind, rule par_keep, intro unchanged_frame, intro chains.word)
      apply (rule triple_bind, rule par_keep, intro unchanged_frame, intro chains.word)
      apply (rule triple_let)
      apply (rule triple_bind, rule par_group, rule T)
      apply (rule triple_case_prod, rule triple_if)
       apply (rule triple_return, simp)
      apply (rule triple_pre [where P' = "at_par A h0 g q (j + ?group)"])
       apply (rule triple_post, rule "1.IH" [OF False refl refl refl nf])
       apply (simp only: sum)
      using len apply simp
      done
  qed
qed

lemma unchanged_fifo:
  fixes s :: "'e trace_scheme"
  assumes "unchanged s s'"
  shows "fifo s' = fifo s" "s_next_par s' = s_next_par s"
  using assms by (elim unchangedE; simp add: fifo_def)+

lemma at_par_step:
  assumes "at_par A h0 g q i s" "unchanged s s'" "chains (hist s') = cs @ chains (hist s)" "\<forall>c\<in>set cs. set c \<subseteq> A"
  shows "at_par A h0 g q i s'"
proof -
  from assms(1) obtain bs where "chains (hist s) = bs @ chains h0" "\<forall>c\<in>set bs. set c \<subseteq> A" "fifo s = g"
    unfolding at_par_def asked_def by blast
  then have "asked A h0 g s'"
    unfolding asked_def using assms(3,4) unchanged_fifo [OF assms(2)] by (intro conjI exI [of _ "cs @ bs"]) auto
  then show ?thesis using assms(1) unchanged_fifo [OF assms(2)] by (simp add: at_par_def)
qed

lemma par_chains:
  assumes D: "\<And>h. d_in_use D h" and T: "unat (snd g div TRACE_PARAGRAPH) = T" "0 < T"
    and safe: "\<And>k. k < to_read \<Longrightarrow> unat TRACE_MARGIN \<le> ((q + k) mod T + T - w) mod T"
  shows "triple (at_par (safe_blocks (fst g) T w) h0 g q i) (drain_chains D to_read margin moved prev lost i)
     (\<lambda>_. asked (safe_blocks (fst g) T w) h0 g)"
proof (induction D\<equiv>D to_read\<equiv>to_read margin moved prev lost i rule: drain_chains.induct)
  case (1 margin moved prev lost i)
  let ?A = "safe_blocks (fst g) T w" and ?batch = "min (to_read - i) TRACE_CHAIN_PARS" and ?tot = "snd g div TRACE_PARAGRAPH"
  show ?case
  proof (cases "i \<ge> to_read")
    case True
    then show ?thesis by (subst drain_chains.simps) (auto intro!: triple_return elim: at_par_asked)
  next
    case False
    have T0: "0 < unat ?tot" using T by simp
    have e: "\<not> ESP_OK \<noteq> ESP_OK" and nf: "\<not> False" by simp_all
    have many: "triple (\<lambda>s. at_par ?A h0 g q i s \<and> s_next_par s = par \<and> unat par = (q + i) mod T)
        (dap_probe_blockread_many D (batch_reqs (fst g) ?tot ?batch ?batch par)) (\<lambda>_. at_par ?A h0 g q i)" for par
    proof (rule tripleI)
      fix s :: "'z trace_scheme" and r s'
      assume s: "at_par ?A h0 g q i s \<and> s_next_par s = par \<and> unat par = (q + i) mod T"
        and run: "run (dap_probe_blockread_many D (batch_reqs (fst g) ?tot ?batch ?batch par)) s = (r, s')"
      have sub: "set (chain_of (batch_reqs (fst g) ?tot ?batch ?batch par)) \<subseteq> ?A"
      proof (rule batch_reqs_safe)
        show "unat par < T" "unat ?tot = T" using s T by simp_all
        show "unat TRACE_MARGIN \<le> ((unat par + k) mod T + T - w) mod T" if "k < ?batch" for k
        proof -
          have "i + k < to_read" using that by linarith
          from safe [OF this] show ?thesis using s by (simp add: mod_simps add.assoc)
        qed
      qed
      obtain cs where "chains (hist s') = cs @ chains (hist s)" "\<forall>c\<in>set cs. set c \<subseteq> ?A"
        using many_chains [OF D run] sub by fast
      moreover have "unchanged s s'" by (rule relD [OF _ run], intro unchanged_frame)
      ultimately show "at_par ?A h0 g q i s'" using s by (blast intro: at_par_step)
    qed
    have keep: "triple (\<lambda>s. at_par ?A h0 g q i s \<and> s_next_par s = par \<and> unat par = (q + i) mod T) (esp_timer_get_time D)
        (\<lambda>_ s. at_par ?A h0 g q i s \<and> s_next_par s = par \<and> unat par = (q + i) mod T)" for par :: u32
    proof -
      have "rel unchanged (esp_timer_get_time D :: ('z trace_scheme, int) state)"
        "rel same_chains (esp_timer_get_time D :: ('z trace_scheme, int) state)"
        by (intro unchanged_frame, intro chains.word)
      then have "rel (\<lambda>s s'. unchanged s s' \<and> same_chains s s') (esp_timer_get_time D :: ('z trace_scheme, int) state)"
        by (auto simp: rel_def)
      then show ?thesis
        by (rule of_rel) (auto simp: same_chains_def unchanged_fifo intro: at_par_step [where cs = "[]"])
    qed
    show ?thesis
      apply (subst drain_chains.simps)
      apply (rule triple_if, use False in simp)
      apply (rule triple_let)
      apply (rule triple_pre [where P' = "\<lambda>s. \<exists>par. at_par ?A h0 g q i s \<and> s_next_par s = par \<and> unat par = (q + i) mod T"])
       apply (rule triple_ex)
       apply (rule triple_known [where c = "batch_reqs (fst g) ?tot ?batch ?batch par" for par])
        apply (simp add: at_par_def asked_def fifo_def, fastforce)
       apply (rule triple_bind, rule keep)
       apply (rule triple_bind, rule many)
       apply (rule triple_case_prod, rule triple_if)
        apply (rule triple_pre [where P' = "asked ?A h0 g"])
         apply (rule triple_bind, rule par_count)
         apply (rule triple_bind, rule par_keep, intro unchanged_frame, intro chains.word)
         apply (rule triple_return, simp)
        apply (erule at_par_asked)
       apply (rule triple_bind, rule par_keep, intro unchanged_frame, intro chains.word)
       apply (rule triple_bind, rule par_count)
       apply (rule triple_bind, rule par_chain [OF T0])
       apply (rule triple_case_prod, rule triple_case_prod, rule triple_case_prod, rule triple_if)
        apply (rule triple_return, simp)
       apply (rule triple_pre, rule "1.hyps" [OF False refl e nf])
       apply simp
      apply (simp add: at_par_def T)
      done
  qed
qed

text \<open>The two ways a pass gives paragraphs up before it reads any: what is then left is safe.\<close>

lemma unat_available:
  fixes w tot q :: u32
  assumes "unat w < unat tot" "unat q < unat tot" "unat tot < 2 ^ 30"
  shows "unat ((w + tot - q) mod tot) = (unat w + unat tot - unat q) mod unat tot"
proof -
  have le: "q \<le> w + tot" using assms by (simp add: word_le_nat_alt unat_word_ariths(1))
  then have "unat (w + tot - q) = unat w + unat tot - unat q"
    using assms by (simp add: unat_sub unat_word_ariths(1))
  then show ?thesis by (simp add: unat_mod)
qed

lemma margin_skip:
  fixes q w T a m k n :: nat
  assumes "q < T" "w < T" "a = (w + T - q) mod T" "m \<le> T" "k < a - n" "n = a + m - T"
  shows "m \<le> (((q + n) mod T + k) mod T + T - w) mod T"
proof -
  have "((q + (n + k)) mod T + T - w) mod T = T - a + (n + k)"
    using assms(5) by (intro behind_writer assms) linarith
  moreover have "a < T" using assms by simp
  ultimately show ?thesis using assms(4-6) by (simp add: mod_simps add.assoc)
qed

lemma par_of_less: "s_span s mod TRACE_PARAGRAPH = 0 \<Longrightarrow> 0 < s_span s \<Longrightarrow>
  unat (par_of now s) < unat (s_span s div TRACE_PARAGRAPH)"
proof -
  assume span: "s_span s mod TRACE_PARAGRAPH = 0" "0 < s_span s"
  let ?n = "unat (s_span s)"
  have "?n mod 1024 = 0" using arg_cong [OF span(1), of unat] by (simp add: unat_mod TRACE_PARAGRAPH_def)
  then have n: "?n div 1024 * 1024 = ?n" using div_mult_mod_eq [of ?n 1024] by linarith
  have "?n > 0" using span(2) by (simp add: word_less_nat_alt)
  then have "unat (now - s_bot s) mod ?n < ?n div 1024 * 1024" unfolding n by (rule mod_less_divisor)
  then have "unat (now - s_bot s) mod ?n div 1024 < ?n div 1024" by (rule less_mult_imp_div_less)
  then show ?thesis by (simp add: par_of_def unat_div unat_mod TRACE_PARAGRAPH_def)
qed

lemma par_drain:
  fixes s0 :: "'e trace_scheme" and now :: u32
  defines "tot \<equiv> s_span s0 div TRACE_PARAGRAPH"
  defines "T \<equiv> unat tot" and "w \<equiv> unat (par_of now s0)"
  assumes D: "\<And>h. d_in_use D h" and span: "s_span s0 mod TRACE_PARAGRAPH = 0"
    and T: "unat TRACE_MARGIN \<le> T" and q: "unat (s_next_par s0) < T"
  shows "triple (\<lambda>s. s = s0) (drain_to D now ovr) (\<lambda>_. asked (safe_blocks (s_bot s0) T w) (hist s0) (fifo s0))"
proof -
  let ?g = "fifo s0" and ?A = "safe_blocks (s_bot s0) T w" and ?h0 = "hist s0" and ?q = "unat (s_next_par s0)"
  let ?w = "par_of now s0"
  have g: "unat (snd ?g div TRACE_PARAGRAPH) = T" "fst ?g = s_bot s0" by (simp_all add: fifo_def T_def tot_def)
  have T0: "0 < T" using T by (simp add: TRACE_MARGIN_def)
  have w: "w < T" unfolding w_def T_def tot_def using span T0 by (intro par_of_less) (auto simp: T_def tot_def word_gt_0)
  have "unat (s_span s0) < 2 ^ 32" using unsigned_less [of "s_span s0"] by simp
  then have small: "unat tot < 2 ^ 30"
    by (simp add: tot_def unat_div TRACE_PARAGRAPH_def)
  have avail: "unat ((?w + tot - s_next_par s0) mod tot) = (w + T - ?q) mod T"
    unfolding w_def T_def using w q small by (intro unat_available) (simp_all add: w_def T_def)
  let ?P = "\<lambda>s :: 'e trace_scheme. at_par ?A ?h0 ?g ?q 0 s \<and> s_next_par s = s_next_par s0"
  let ?R = "\<lambda>a (s :: 'e trace_scheme). \<exists>q. at_par ?A ?h0 ?g q 0 s \<and> unat (s_next_par s) = q \<and> q < T \<and> unat a = (w + T - q) mod T"
  let ?Q = "\<lambda>a (s :: 'e trace_scheme). \<exists>q. at_par ?A ?h0 ?g q 0 s \<and>
    (\<forall>k<unat a. unat TRACE_MARGIN \<le> ((q + k) mod T + T - w) mod T)"
  have keep: "triple ?P (esp_timer_get_time D) (\<lambda>_. ?P)"
  proof -
    have "rel unchanged (esp_timer_get_time D :: ('e trace_scheme, int) state)"
      "rel same_chains (esp_timer_get_time D :: ('e trace_scheme, int) state)"
      by (intro unchanged_frame, intro chains.word)
    then have "rel (\<lambda>s s'. unchanged s s' \<and> same_chains s s') (esp_timer_get_time D :: ('e trace_scheme, int) state)"
      by (auto simp: rel_def)
    then show ?thesis
      by (rule of_rel) (auto simp: same_chains_def unchanged_fifo intro: at_par_step [where cs = "[]"])
  qed
  have keep_gets: "triple ?P (gets f) (\<lambda>_. ?P)" for f :: "'e trace_scheme \<Rightarrow> u32" by (rule triple_gets)
  have ovr: "triple ?P (if_do b (do { count (\<lambda>t. t\<lparr>st_overruns := st_overruns t + k\<rparr>);
      modify (\<lambda>s. s\<lparr>s_last_ovrcnt := ovr\<rparr>) })) (\<lambda>_. ?P)" for b k
    by (auto simp: triple_def at_par_def asked_def fifo_def count_def if_do_def)
  have par_count2: "triple ?P (count f) (\<lambda>_. ?P)" for f
    by (auto simp: triple_def at_par_def asked_def fifo_def count_def)
  have par_countR: "triple (?R a) (count f) (\<lambda>_. ?R a)" for a f
    by (rule tripleI) (auto simp: at_par_def asked_def fifo_def count_def)
  have countQ: "triple (?Q a) (if_do b (count f)) (\<lambda>_. ?Q a)" for a b f
    by (rule triple_if_do) (auto simp: triple_def at_par_def asked_def fifo_def count_def)
  have lapped: "triple ?P (modify (\<lambda>s. s\<lparr>s_next_par := ?w\<rparr>)) (\<lambda>_. ?R 0)"
    by (rule triple_modify, rule exI [of _ w])
      (use w T0 in \<open>auto simp: at_par_def asked_def fifo_def g w_def T_def tot_def\<close>)
  have R0: "?R ((?w + tot - s_next_par s0) mod tot) s" if "?P s" for s
    using that avail q by (intro exI [of _ ?q]) simp
  have kept: "?Q a s" if "?R a s" "\<not> a + TRACE_MARGIN > tot" for a s
  proof -
    from that(1) obtain q' where q': "at_par ?A ?h0 ?g q' 0 s" "q' < T" "unat a = (w + T - q') mod T" by blast
    have a: "unat a < T" using q'(3) T0 by simp
    then have n: "unat a + unat TRACE_MARGIN - T = 0"
      using that(2) small by (simp add: word_less_nat_alt unat_word_ariths(1) TRACE_MARGIN_def T_def)
    have "\<forall>k<unat a. unat TRACE_MARGIN \<le> ((q' + k) mod T + T - w) mod T"
      using margin_skip [OF q'(2) w q'(3) T _ n [symmetric]] q'(2) by simp
    then show ?thesis using q'(1) by blast
  qed
  have skipped: "triple (?R a) (modify (\<lambda>s. s\<lparr>s_next_par := (s_next_par s + (a + TRACE_MARGIN - tot)) mod tot\<rparr>))
      (\<lambda>_. ?Q (a - (a + TRACE_MARGIN - tot)))" if "a + TRACE_MARGIN > tot" for a
  proof (rule triple_modify)
    fix s :: "'e trace_scheme" assume "?R a s"
    then obtain q' where q': "at_par ?A ?h0 ?g q' 0 s" "unat (s_next_par s) = q'" "q' < T" "unat a = (w + T - q') mod T"
      by blast
    let ?n = "a + TRACE_MARGIN - tot"
    have a: "unat a < T" using q'(4) T0 by simp
    have n: "unat ?n = unat a + unat TRACE_MARGIN - T"
      using that small a by (simp add: word_less_nat_alt unat_sub_if_size unat_word_ariths(1) TRACE_MARGIN_def T_def word_size)
    have le: "unat ?n \<le> unat a" using n T by simp
    then have d: "unat (a - ?n) = unat a - unat ?n" by (intro unat_sub) (simp only: word_le_nat_alt)
    have lt: "x < 2 ^ 30 \<Longrightarrow> y < 2 ^ 30 \<Longrightarrow> x + y < 2 ^ 32" for x y :: nat by simp
    have "q' < 2 ^ 30" using q'(3) small unfolding T_def by (rule less_trans)
    moreover have "unat ?n < 2 ^ 30" using le_less_trans [OF le a] small unfolding T_def by (rule less_trans)
    ultimately have "q' + unat ?n < 2 ^ 32" by (rule lt)
    then have pos: "unat ((s_next_par s + ?n) mod tot) = (q' + unat ?n) mod T"
      unfolding unat_mod unat_word_ariths(1) q'(2) T_def by simp
    have "\<forall>k<unat (a - ?n). unat TRACE_MARGIN \<le> (((q' + unat ?n) mod T + k) mod T + T - w) mod T"
      using margin_skip [OF q'(3) w q'(4) T _ n] d by simp
    moreover have "at_par ?A ?h0 ?g ((q' + unat ?n) mod T) 0 (s\<lparr>s_next_par := (s_next_par s + ?n) mod tot\<rparr>)"
      using q'(1) pos T0 unfolding at_par_def asked_def g by (simp add: fifo_def)
    ultimately show "?Q (a - ?n) (s\<lparr>s_next_par := (s_next_par s + ?n) mod tot\<rparr>)" by blast
  qed
  have chains: "triple (?Q a) (drain_chains D (unat a) margin moved prev lost 0) (\<lambda>_. asked ?A ?h0 ?g)"
    for a margin moved prev lost
  proof (rule triple_ex, rule tripleI)
    fix q r and s s' :: "'e trace_scheme"
    assume "at_par ?A ?h0 ?g q 0 s \<and> (\<forall>k<unat a. unat TRACE_MARGIN \<le> ((q + k) mod T + T - w) mod T)"
      and run: "run (drain_chains D (unat a) margin moved prev lost 0) s = (r, s')"
    then show "asked ?A ?h0 ?g s'"
      using tripleD [OF par_chains [where q = q and w = w, OF D g(1) T0] _ run] g(2) by simp
  qed
  have start: "?P s" if "s = s0" for s
    using that q by (auto simp: at_par_def asked_def g intro!: exI [of _ "[]"])
  show ?thesis
    unfolding drain_to_def
    apply (rule triple_pre [where P' = ?P])
     apply (rule triple_bind, rule keep)
     apply (rule triple_bind, rule keep_gets)
     apply (rule triple_bind, rule ovr)
     apply (rule triple_known [where c = tot], simp add: at_par_def asked_def fifo_def tot_def)
     apply (rule triple_known [where c = ?w], simp add: at_par_def asked_def fifo_def par_of_def)
     apply (rule triple_known [where c = "s_next_par s0"], simp)
     apply (rule triple_bind, rule keep_gets)
     apply (rule triple_let)
     apply (rule triple_bind [where R = "\<lambda>r. ?R (fst r)"])
      apply (rule triple_if)
       apply (rule triple_bind, rule par_count2)
       apply (rule triple_bind [where R = "\<lambda>_. ?R 0"], rule lapped, rule triple_return, unfold fst_conv, assumption)
      apply (rule triple_return, unfold fst_conv, rule R0, assumption)
     apply (rule triple_case_prod, simp only: fst_conv)
     apply (rule triple_bind [where R = "\<lambda>r. ?Q (fst r)"])
      apply (rule triple_if, rule triple_let)
       apply (rule triple_bind, rule par_countR)
       apply (rule triple_bind, rule skipped, assumption, rule triple_return, unfold fst_conv, assumption)
      apply (rule triple_return, unfold fst_conv, rule kept, assumption, assumption)
     apply (rule triple_case_prod, simp only: fst_conv)
     apply (rule triple_bind, rule countQ)
     apply (rule triple_bind, rule chains)
     apply (rule triple_case_prod)
     apply (rule triple_bind, rule asked_modify)
     apply (rule triple_if, rule triple_return, simp)
     apply (rule triple_bind, rule par_keep(2), intro unchanged_frame, intro chains.word)
     apply (rule triple_let, rule triple_bind, rule par_count, rule triple_return, simp)
    apply (erule start)
    done
qed


lemma faultless_batches:
  assumes "faultless D" "\<forall>r\<in>set reqs. 1 \<le> snd r \<and> snd r \<le> 256"
  shows "fst (fst (run (blockread_batches D reqs ws) s)) = ESP_OK"
  using assms
proof (induction D reqs ws arbitrary: s rule: blockread_batches.induct)
  case (1 D reqs ws)
  have reqs: "\<forall>r\<in>set (take BLOCKREAD_CHAIN_MAX reqs). 1 \<le> snd r \<and> snd r \<le> 256"
    "\<forall>r\<in>set (drop BLOCKREAD_CHAIN_MAX reqs). 1 \<le> snd r \<and> snd r \<le> 256"
    using "1.prems"(2) by (meson in_set_takeD, meson in_set_dropD)
  then have valid: "\<not> list_ex (\<lambda>r. snd r = 0 \<or> snd r > 256) (take BLOCKREAD_CHAIN_MAX reqs)"
    by (auto simp: list_ex_iff)
  show ?case
  proof (cases "reqs = []")
    case True
    then show ?thesis by (subst blockread_batches.simps) simp
  next
    case False
    obtain got s1 where b: "run (block_batch D (take BLOCKREAD_CHAIN_MAX reqs)) s = ((ESP_OK, got), s1)"
      using "1.prems"(1) valid by (auto simp: block_batch_def dap_phy_fpga_blockread_chain_def faultless_def)
    have "fst (fst (run (blockread_batches D (drop BLOCKREAD_CHAIN_MAX reqs) (ws @ got)) s1)) = ESP_OK"
      using "1.IH" [OF False] "1.prems"(1) reqs(2) by blast
    then show ?thesis using b False by (subst blockread_batches.simps) simp
  qed
qed

lemma batch_reqs_valid: "r \<in> set (batch_reqs fbot tot batch n par) \<Longrightarrow> 1 \<le> snd r \<and> snd r \<le> 256"
  by (induction n arbitrary: par) (auto simp: Let_def TRACE_WORDS_PER_PAR_def split: if_splits)

lemma faultless_chains:
  fixes s :: "'a trace_scheme"
  assumes "faultless D"
  shows "fst (fst (run (drain_chains D to_read margin moved prev lost i) s)) = ESP_OK"
proof -
  have read: "triple (\<lambda>_ :: 'a trace_scheme. True) (dap_probe_blockread_many D (batch_reqs fbot tot b n par)) (\<lambda>r _. fst r = ESP_OK)"
    if D: "faultless D" for D fbot tot b n par
  proof (rule tripleI)
    fix t r t' assume "run (dap_probe_blockread_many D (batch_reqs fbot tot b n par)) t = (r, t')"
    then have "r = fst (run (blockread_batches D (batch_reqs fbot tot b n par) []) (t\<lparr>hist := EvLock # hist t\<rparr>))"
      by (auto simp: dap_probe_blockread_many_def run_with_lock split_beta)
    then show "fst r = ESP_OK" using faultless_batches [OF D] batch_reqs_valid by blast
  qed
  have any: "triple (\<lambda>_. True) m (\<lambda>_ _. True)" for m :: "('a trace_scheme, 'r) state" by (rule triple_const(2)) simp
  have each: "(\<And>s. triple P (k (f s)) Q) \<Longrightarrow> triple P (gets f \<bind> k) Q"
    for P Q f and k :: "'q \<Rightarrow> ('a trace_scheme, 'r) state" by (auto simp: triple_def)
  have "triple (\<lambda>_ :: 'a trace_scheme. True) (drain_chains D to_read margin moved prev lost i) (\<lambda>r _. fst r = ESP_OK)"
    using assms
  proof (induction D to_read margin moved prev lost i rule: drain_chains.induct)
    case (1 D to_read margin moved prev lost i)
    show ?case
      apply (subst drain_chains.simps)
      apply (rule triple_if, rule triple_return, simp)
      apply (rule triple_let)
      apply (rule each)
      apply (rule triple_bind, rule any)
      apply (rule triple_bind, rule read, rule "1.prems")
      apply (rule triple_case_prod, rule triple_if, rule triple_false, simp)
      apply (rule triple_pre [where P' = "\<lambda>_. True"])
       apply (rule triple_bind, rule any, rule triple_bind, rule any, rule triple_bind, rule any)
       apply (rule triple_case_prod)+
       apply (rule triple_if, rule triple_return, simp)
       apply (rule "1.IH", simp_all add: "1.prems")
      done
  qed
  from triple_final [OF this, of s] show ?thesis by (simp add: result_def)
qed

lemma faultless_drain:
  fixes s :: "'a trace_scheme"
  assumes "faultless D"
  shows "result (drain_to D now ovr) s = ESP_OK \<or> result (drain_to D now ovr) s = ESP_ERR_NOT_FOUND"
proof -
  have any: "triple (\<lambda>_. True) m (\<lambda>_ _. True)" for m :: "('a trace_scheme, 'r) state" by (rule triple_const(2)) simp
  have drained: "triple (\<lambda>_ :: 'a trace_scheme. True) (drain_chains D to_read margin moved prev lost i) (\<lambda>r _. fst r = ESP_OK)"
    for to_read margin moved prev lost i
  proof (rule tripleI)
    fix t :: "'a trace_scheme" and r t' assume "run (drain_chains D to_read margin moved prev lost i) t = (r, t')"
    then show "fst r = ESP_OK" using faultless_chains [OF assms, of to_read margin moved prev lost i t] by simp
  qed
  have keep: "triple (\<lambda>_. b) m (\<lambda>_ _. b)" for b and m :: "('a trace_scheme, 'r) state" by (cases b) (simp_all add: triple_const)
  have any': "triple P m (\<lambda>_ _. True)" for P and m :: "('a trace_scheme, 'r) state" by (rule triple_const(2)) simp
  have "triple (\<lambda>_ :: 'a trace_scheme. True) (drain_to D now ovr) (\<lambda>r _. r = ESP_OK \<or> r = ESP_ERR_NOT_FOUND)"
    unfolding drain_to_def Let_def
    apply (rule triple_bind, rule any)
    apply (rule triple_bind, rule any)
    apply (rule triple_bind, rule any)
    apply (rule triple_bind, rule any)
    apply (rule triple_bind, rule any)
    apply (rule triple_bind, rule any)
    apply (rule triple_bind, rule any)
    apply (rule triple_bind, rule any, rule triple_case_prod)
    apply (rule triple_bind, rule any, rule triple_case_prod)
    apply (rule triple_bind, rule any)
    apply (rule triple_bind, rule drained, rule triple_case_prod)
    apply (rule triple_bind [OF keep])
    apply (rule triple_if, rule triple_false, simp)
    apply (rule triple_bind [OF any'], rule triple_bind [OF any'], rule triple_return, simp)
    done
  from triple_final [OF this, of s] show ?thesis by simp
qed



text \<open>Without the bound on the size of the FIFO the margin underflows: a FIFO of two paragraphs, which
  \<open>trace_begin\<close> accepts, makes the pass plan to read \<open>2\<^sup>3\<^sup>2 - 1\<close> paragraphs.\<close>

lemma margin_underflow:
  "let tot = 2 :: u32; available = 0; n = available + TRACE_MARGIN - tot in
   available + TRACE_MARGIN > tot \<and> \<not> lap_skip tot available \<and> available - n = 0xFFFFFFFF"
  by (simp add: TRACE_MARGIN_def lap_skip_def Let_def)

end
