(* ===== verification/Dap_Mcds.thy ===== *)
theory Dap_Mcds
  imports Trace_Drain
begin

unbundle bit_operations_syntax

text \<open>
  \<open>dap_mcds.c\<close>: the setup of the miniMCDS for data and watch-point trace, and the life of a trace session.
  The writer \<open>wr\<close> is threaded through \<open>configure\<close> as the code threads it: after the first failure the
  later writes are skipped. Bytes of a snapshot behind its length are not kept when a block read fails.
\<close>

section \<open>Configuration\<close>

datatype dap_mcds_source = DAP_MCDS_SRC_CPU | DAP_MCDS_SRC_MEMSLAVE | DAP_MCDS_SRC_LMU0
datatype dap_mcds_mode = DAP_MCDS_MODE_FULL | DAP_MCDS_MODE_COMPACT
datatype dap_mcds_payload = DAP_MCDS_PAYLOAD_ADDR_DATA | DAP_MCDS_PAYLOAD_DATA | DAP_MCDS_PAYLOAD_ADDR
datatype dap_mcds_timestamps = DAP_MCDS_TS_HIT | DAP_MCDS_TS_TICKS | DAP_MCDS_TS_NONE

definition DAP_MCDS_SLOTS :: nat where "DAP_MCDS_SLOTS = 2"
definition DAP_MCDS_SNAPSHOT_BYTES :: nat where "DAP_MCDS_SNAPSHOT_BYTES = 2048"

record dap_mcds_slot =
  sl_enabled :: bool
  sl_name :: string
  sl_addr :: u32
  sl_size :: u32
  sl_rd :: bool
  sl_wr :: bool
  sl_value_en :: bool
  sl_value_lo :: u32
  sl_value_hi :: u32
  sl_value_mask :: u32
  sl_value_signed :: bool

record dap_mcds_config =
  c_source :: dap_mcds_source
  c_cpu :: u8
  c_mode :: dap_mcds_mode
  c_payload :: dap_mcds_payload
  c_timestamps :: dap_mcds_timestamps
  c_masters :: bool
  c_dap_div :: u8
  c_wide :: bool
  c_fast :: bool
  c_slot :: "nat \<Rightarrow> dap_mcds_slot"

record dap_mcds_snapshot =
  sn_addr :: u32
  sn_len :: u16
  sn_bytes :: "u8 list"

record dap_mcds_info =
  i_emu_hz :: u32
  i_tsu_start :: u32
  i_wide :: bool
  i_fast :: bool
  i_snapshot :: "nat \<Rightarrow> dap_mcds_snapshot"

definition dap_mcds_default_config :: dap_mcds_config where
  "dap_mcds_default_config =
     \<lparr>c_source = DAP_MCDS_SRC_CPU, c_cpu = 0, c_mode = DAP_MCDS_MODE_FULL,
      c_payload = DAP_MCDS_PAYLOAD_ADDR_DATA, c_timestamps = DAP_MCDS_TS_HIT, c_masters = False,
      c_dap_div = 0, c_wide = True, c_fast = True,
      c_slot = (\<lambda>_. \<lparr>sl_enabled = False, sl_name = [], sl_addr = 0, sl_size = 4, sl_rd = False, sl_wr = True,
        sl_value_en = False, sl_value_lo = 0, sl_value_hi = 0xFFFFFFFF, sl_value_mask = 0xFFFFFFFF,
        sl_value_signed = False\<rparr>)\<rparr>"

section \<open>Registers\<close>

definition DAP_ADDR_MCDS_BASE :: u32 where "DAP_ADDR_MCDS_BASE = 0xFB718000"
definition MCDS :: "u32 \<Rightarrow> u32" where "MCDS off = DAP_ADDR_MCDS_BASE + off"
definition REG_CT :: u32 where "REG_CT = MCDS 0x10"
definition REG_MUX :: u32 where "REG_MUX = MCDS 0x14"
definition REG_MUX_TC_RC :: u32 where "REG_MUX_TC_RC = MCDS 0x20"
definition REG_FIFOPRE :: u32 where "REG_FIFOPRE = MCDS 0x208"
definition REG_TSUEMUCNT :: u32 where "REG_TSUEMUCNT = MCDS 0x408"
definition REG_MCXEVT :: "nat \<Rightarrow> u32" where "REG_MCXEVT x = MCDS (0x800 + of_nat x * 4)"
definition REG_MCXACT :: "nat \<Rightarrow> u32" where "REG_MCXACT x = MCDS (0x880 + of_nat x * 4)"
definition REG_TCXEABND :: "nat \<Rightarrow> u32" where "REG_TCXEABND j = MCDS (0x2400 + of_nat j * 0x10)"
definition REG_TCXEARNG :: "nat \<Rightarrow> u32" where "REG_TCXEARNG j = MCDS (0x2404 + of_nat j * 0x10)"
definition REG_TCXWDBND :: "nat \<Rightarrow> u32" where "REG_TCXWDBND j = MCDS (0x2480 + of_nat j * 0x20)"
definition REG_TCXWDRNG :: "nat \<Rightarrow> u32" where "REG_TCXWDRNG j = MCDS (0x2488 + of_nat j * 0x20)"
definition REG_TCXWDMSK :: "nat \<Rightarrow> u32" where "REG_TCXWDMSK j = MCDS (0x2490 + of_nat j * 0x20)"
definition REG_TCXWDSGN :: "nat \<Rightarrow> u32" where "REG_TCXWDSGN j = MCDS (0x249C + of_nat j * 0x20)"
definition REG_TCXACBND :: "nat \<Rightarrow> u32" where "REG_TCXACBND j = MCDS (0x2500 + of_nat j * 0x18)"
definition REG_TCXACRNG :: "nat \<Rightarrow> u32" where "REG_TCXACRNG j = MCDS (0x2504 + of_nat j * 0x18)"
definition REG_TCXACMSK :: "nat \<Rightarrow> u32" where "REG_TCXACMSK j = MCDS (0x2508 + of_nat j * 0x18)"
definition DAP_ADDR_FIFOBOT :: u32 where "DAP_ADDR_FIFOBOT = DAP_ADDR_MCDS_BASE + 0x204"
definition DAP_ADDR_FIFOTOP :: u32 where "DAP_ADDR_FIFOTOP = DAP_ADDR_MCDS_BASE + 0x20C"
definition DAP_ADDR_FIFOCTL :: u32 where "DAP_ADDR_FIFOCTL = DAP_ADDR_MCDS_BASE + 0x210"
definition DAP_ADDR_FIFOWARN0 :: u32 where "DAP_ADDR_FIFOWARN0 = DAP_ADDR_MCDS_BASE + 0x214"
definition DAP_ADDR_FIFOWARN1 :: u32 where "DAP_ADDR_FIFOWARN1 = DAP_ADDR_MCDS_BASE + 0x218"
definition DAP_ADDR_FIFOOVRCNT :: u32 where "DAP_ADDR_FIFOOVRCNT = DAP_ADDR_MCDS_BASE + 0x21C"
definition CT_SETE :: u32 where "CT_SETE = 0x00008000"
definition CT_SETR :: u32 where "CT_SETR = 0x80000000"
definition CT_RES :: u32 where "CT_RES = push_bit 29 1"
definition FIFOCTL_FFE :: u32 where "FIFOCTL_FFE = push_bit 1 1"
definition FIFOCTL_TRON :: u32 where "FIFOCTL_TRON = 0x400"
definition FIFOCTL_TROFF :: u32 where "FIFOCTL_TROFF = 0x800"
definition FIFOCTL_CLR :: u32 where "FIFOCTL_CLR = 0x4000"
definition FIFOCTL_SET :: u32 where "FIFOCTL_SET = 0x8000"
definition TRAM_BASE :: u32 where "TRAM_BASE = 0xB8000000"
definition TRAM_BYTES :: u32 where "TRAM_BYTES = 0x2000"
definition AC_WR :: u32 where "AC_WR = push_bit 12 1"
definition AC_RD :: u32 where "AC_RD = push_bit 13 1"
definition AC_MSK :: u32 where "AC_MSK = push_bit 14 1"
definition ACT_TSU_REL_EN :: nat where "ACT_TSU_REL_EN = 0"
definition ACT_TSU_REL_SYNC :: nat where "ACT_TSU_REL_SYNC = 1"
definition ACT_WTU_ENABLE :: "nat \<Rightarrow> nat" where "ACT_WTU_ENABLE n = 5 + n"
definition ACT_TICK_ENABLE :: nat where "ACT_TICK_ENABLE = 21"
definition ACT_DTU_WDAT :: nat where "ACT_DTU_WDAT = 27"
definition ACT_DTU_WADR :: nat where "ACT_DTU_WADR = 28"
definition ACT_DTU_RDAT :: nat where "ACT_DTU_RDAT = 29"
definition ACT_DTU_RADR :: nat where "ACT_DTU_RADR = 30"
definition ACT_COUNT :: nat where "ACT_COUNT = 42"
definition AIN_LEVEL :: "u32 \<Rightarrow> u32" where "AIN_LEVEL ev = 0xC0 OR ev"
definition AIN_EDGE :: "u32 \<Rightarrow> u32" where "AIN_EDGE ev = 0x40 OR ev"
definition AIN_ALWAYS :: u32 where "AIN_ALWAYS = 0xE0"
definition EVENT_SYNC_RQ :: u32 where "EVENT_SYNC_RQ = 20"
definition DAP_FPGA_BLOCK_WORDS :: nat where "DAP_FPGA_BLOCK_WORDS = 128"
definition ORPHAN_MS :: u32 where "ORPHAN_MS = 10000"

text \<open>The MCXEVT column of each slot, and the EIQ bit of each DTU trigger in it.\<close>

record slot_evt =
  k_evt :: nat
  k_ea :: nat
  k_dat :: nat
  k_acc :: nat

definition k_slot_evt :: "slot_evt list" where
  "k_slot_evt = [\<lparr>k_evt = 8, k_ea = 2, k_dat = 4, k_acc = 6\<rparr>, \<lparr>k_evt = 10, k_ea = 3, k_dat = 5, k_acc = 7\<rparr>]"

section \<open>State and helpers\<close>

record mcds = trace +
  mcds_running :: bool     \<comment> \<open>\<open>s_running\<close>\<close>
  s_wide :: bool           \<comment> \<open>this session switched the link wide\<close>
  s_watch :: bool          \<comment> \<open>the watcher task exists\<close>

definition wr :: "dev \<Rightarrow> esp_err \<Rightarrow> u32 \<Rightarrow> u32 \<Rightarrow> ('e mcds_scheme, esp_err) state" where
  "wr D err addr val = (if err = ESP_OK then dap_probe_write32 D addr val else ret err)"

text \<open>Appends an input to an action, up to four, ORed: \<open>act_lane q\<close> is the first free lane from \<open>q\<close> on.\<close>

primrec act_put :: "nat list \<Rightarrow> u32 \<Rightarrow> u32 \<Rightarrow> u32" where
  "act_put [] act input = act"
| "act_put (q # qs) act input =
     (if drop_bit (8 * q) act AND 0xFF = 0 then act OR push_bit (8 * q) input else act_put qs act input)"

definition act_add :: "u32 \<Rightarrow> u32 \<Rightarrow> u32" where
  "act_add act input = act_put [0, 1, 2, 3] act input"

definition evt_connect :: "u32 \<Rightarrow> nat \<Rightarrow> u32" where
  "evt_connect evt b = (evt AND NOT (push_bit (2 * b) 3)) OR push_bit (2 * b) 2"

definition program_value :: "dev \<Rightarrow> esp_err \<Rightarrow> nat \<Rightarrow> dap_mcds_slot \<Rightarrow> ('e mcds_scheme, esp_err) state" where
  "program_value D w j s =
     (if \<not> sl_value_en s then ret w
      else do {
        let width = (if sl_size s \<ge> 4 then 32 else sl_size s * 8);
        let shift = (if sl_size s \<ge> 4 then 0 else 8 * (sl_addr s AND 3));
        let full = (if width = 32 then 0xFFFFFFFF else push_bit (unat width) 1 - 1);
        let mask = sl_value_mask s AND full;
        let lo = sl_value_lo s AND mask;
        let hi = sl_value_hi s AND mask;
        w \<leftarrow> wr D w (REG_TCXWDMSK j) (push_bit (unat shift) mask);
        w \<leftarrow> wr D w (REG_TCXWDBND j) (push_bit (unat shift) lo);
        w \<leftarrow> wr D w (REG_TCXWDRNG j) (push_bit (unat shift) ((hi - lo) AND full));
        wr D w (REG_TCXWDSGN j) (if sl_value_signed s then shift + width - 1 else 0) })"

text \<open>At most twenty looks at the reset flag.\<close>

primrec await_reset :: "dev \<Rightarrow> nat \<Rightarrow> ('e mcds_scheme, unit) state" where
  "await_reset D 0 = skip"
| "await_reset D (Suc n) = do {
     (err, ct) \<leftarrow> dap_probe_read32 D REG_CT 0;
     if err = ESP_OK \<and> ct AND CT_RES = 0 then skip
     else do { vTaskDelay 1; await_reset D n } }"

definition mcds_reset :: "dev \<Rightarrow> ('e mcds_scheme, esp_err) state" where
  "mcds_reset D = do {
     dap_probe_write32 D REG_CT CT_SETR;
     await_reset D 20;
     dap_probe_write32 D REG_CT CT_SETE }"

definition measure_emu_hz :: "dev \<Rightarrow> ('e mcds_scheme, u32) state" where
  "measure_emu_hz D = do {
     t0 \<leftarrow> esp_timer_get_time D;
     (e1, a) \<leftarrow> dap_probe_read32 D REG_TSUEMUCNT 0;
     vTaskDelay 50;
     (e2, b) \<leftarrow> dap_probe_read32 D REG_TSUEMUCNT 0;
     t1 \<leftarrow> esp_timer_get_time D;
     let us = t1 - t0;
     ret (if us > 0 then of_int (uint (b - a) * 1000000 div us) else 0) }"

text \<open>One block of ones, by a block write or, failing that, word by word.\<close>

definition tram_block :: "dev \<Rightarrow> u32 \<Rightarrow> ('e mcds_scheme, esp_err) state" where
  "tram_block D off = do {
     in_use \<leftarrow> sense (d_in_use D);
     err \<leftarrow> (if in_use then dap_phy_fpga_block_write D (TRAM_BASE + off) (replicate DAP_FPGA_BLOCK_WORDS 0xFFFFFFFF)
       else ret ESP_FAIL);
     if err \<noteq> ESP_OK
     then for_ok (\<lambda>k. dap_probe_write32 D (TRAM_BASE + off + 4 * of_nat k) 0xFFFFFFFF) [0..<DAP_FPGA_BLOCK_WORDS]
     else ret ESP_OK }"

definition tram_init :: "dev \<Rightarrow> ('e mcds_scheme, esp_err) state" where
  "tram_init D = do {
     err \<leftarrow> for_ok (\<lambda>b. tram_block D (of_nat (b * 4 * DAP_FPGA_BLOCK_WORDS)))
       [0..<unat TRAM_BYTES div (4 * DAP_FPGA_BLOCK_WORDS)];
     if err \<noteq> ESP_OK then ret err
     else do {
       dap_probe_clear_error_state D;
       for_each (\<lambda>p. do { dap_probe_write32 D (TRAM_BASE + of_nat p * 0x400) 0xFFFFFFFF; skip })
         [0..<unat TRAM_BYTES div 0x400];
       (err, check) \<leftarrow> dap_probe_read32 D (TRAM_BASE + 0x404) 0;
       ret (if err \<noteq> ESP_OK \<or> check \<noteq> 0xFFFFFFFF then ESP_FAIL else ESP_OK) } }"

section \<open>Configuring\<close>

text \<open>The actions of a slot, and the inputs that hits of the slots raise.\<close>

definition slot_armed :: "dap_mcds_slot \<Rightarrow> bool" where
  "slot_armed s \<longleftrightarrow> sl_enabled s \<and> (sl_rd s \<or> sl_wr s)"

definition act_on :: "bool \<Rightarrow> nat \<Rightarrow> u32 \<Rightarrow> u32 list \<Rightarrow> u32 list" where
  "act_on b a input act = (if b then act[a := act_add (act ! a) input] else act)"

definition slot_actions :: "dap_mcds_config \<Rightarrow> nat \<Rightarrow> u32 list \<times> u32 list \<Rightarrow> u32 list \<times> u32 list" where
  "slot_actions cfg j p =
     (let (act, hits) = p; s = c_slot cfg j
      in if \<not> slot_armed s then (act, hits)
         else let ev = of_nat (k_evt (k_slot_evt ! j)); hits = hits @ [AIN_EDGE ev]
         in if c_mode cfg = DAP_MCDS_MODE_COMPACT then (act[ACT_WTU_ENABLE j := AIN_EDGE ev], hits)
            else
              let data = (c_payload cfg \<noteq> DAP_MCDS_PAYLOAD_ADDR);
                  addr = (c_payload cfg \<noteq> DAP_MCDS_PAYLOAD_DATA);
                  act = act_on (sl_wr s \<and> data) ACT_DTU_WDAT (AIN_LEVEL ev) act;
                  act = act_on (sl_wr s \<and> addr) ACT_DTU_WADR (AIN_LEVEL ev) act;
                  act = act_on (sl_rd s \<and> data) ACT_DTU_RDAT (AIN_LEVEL ev) act;
                  act = act_on (sl_rd s \<and> addr) ACT_DTU_RADR (AIN_LEVEL ev) act
              in (act, hits))"

definition time_actions :: "dap_mcds_config \<Rightarrow> u32 list \<Rightarrow> u32 list \<Rightarrow> u32 list" where
  "time_actions cfg hits act =
     (let act = act[ACT_TSU_REL_EN := AIN_ALWAYS];
          act = act[ACT_TSU_REL_SYNC := AIN_EDGE EVENT_SYNC_RQ];
          act = (if c_timestamps cfg = DAP_MCDS_TS_HIT
                 then foldl (\<lambda>act h. act[ACT_TSU_REL_SYNC := act_add (act ! ACT_TSU_REL_SYNC) h]) act hits
                 else act)
      in act[ACT_TICK_ENABLE := (if c_timestamps cfg = DAP_MCDS_TS_TICKS then AIN_ALWAYS else 0)])"

definition slot_event :: "dap_mcds_config \<Rightarrow> nat \<Rightarrow> u32" where
  "slot_event cfg j =
     (let s = c_slot cfg j; k = k_slot_evt ! j
      in if slot_armed s then
           let evt = evt_connect 0xFFFFFFFF (k_ea k);
               evt = evt_connect evt (k_acc k)
           in if sl_value_en s then evt_connect evt (k_dat k) else evt
         else 0)"

definition program_slot :: "dev \<Rightarrow> dap_mcds_config \<Rightarrow> nat \<Rightarrow> esp_err \<Rightarrow> ('e mcds_scheme, esp_err) state" where
  "program_slot D cfg j w = do {
     let s = c_slot cfg j;
     let nbytes = (if sl_size s \<noteq> 0 then sl_size s else 1);
     w \<leftarrow> wr D w (REG_TCXEABND j) (sl_addr s);
     w \<leftarrow> wr D w (REG_TCXEARNG j) (nbytes - 1);
     let acmsk = (if sl_wr s then AC_WR else 0) OR (if sl_rd s then AC_RD else 0) OR
                 (if c_masters cfg then 0 else AC_MSK);
     let lo = (if sl_wr s then AC_WR else AC_RD);
     let hi = (if sl_rd s then AC_RD else AC_WR);
     w \<leftarrow> wr D w (REG_TCXACMSK j) acmsk;
     w \<leftarrow> wr D w (REG_TCXACBND j) lo;
     w \<leftarrow> wr D w (REG_TCXACRNG j) (hi - lo);
     program_value D w j s }"

definition program_source :: "dev \<Rightarrow> dap_mcds_config \<Rightarrow> esp_err \<Rightarrow> ('e mcds_scheme, esp_err) state" where
  "program_source D cfg w = do {
     let cpu = c_cpu cfg mod 6;
     if c_source cfg = DAP_MCDS_SRC_LMU0 then wr D w REG_MUX (0x80 OR 0x9)
     else do {
       let tc = (if c_source cfg = DAP_MCDS_SRC_MEMSLAVE then 2 else 0);
       w \<leftarrow> wr D w REG_MUX_TC_RC (0x8000 OR push_bit (2 * unat cpu) tc);
       wr D w REG_MUX (0x80 OR (ucast cpu + 1)) } }"

definition configure :: "dev \<Rightarrow> dap_mcds_config \<Rightarrow> ('e mcds_scheme, esp_err) state" where
  "configure D cfg = do {
     err \<leftarrow> mcds_reset D;
     if err \<noteq> ESP_OK then ret ESP_FAIL
     else do {
       w \<leftarrow> wr D ESP_OK DAP_ADDR_FIFOCTL FIFOCTL_SET;
       w \<leftarrow> wr D w DAP_ADDR_FIFOCTL FIFOCTL_TROFF;
       w \<leftarrow> program_source D cfg w;
       let (act, hits) = fold (slot_actions cfg) [0..<DAP_MCDS_SLOTS] (replicate ACT_COUNT 0, []);
       if hits = [] then ret ESP_ERR_INVALID_ARG
       else do {
         let act = time_actions cfg hits act;
         w \<leftarrow> for_acc (\<lambda>a w. wr D w (REG_MCXACT a) (act ! a)) [0..<ACT_COUNT] w;
         w \<leftarrow> for_acc (\<lambda>j w. wr D w (REG_MCXEVT (k_evt (k_slot_evt ! j))) (slot_event cfg j)) [0..<DAP_MCDS_SLOTS] w;
         w \<leftarrow> for_acc (program_slot D cfg) [0..<DAP_MCDS_SLOTS] w;
         w \<leftarrow> wr D w DAP_ADDR_FIFOBOT 0;
         w \<leftarrow> wr D w DAP_ADDR_FIFOTOP (TRAM_BYTES - 1);
         w \<leftarrow> wr D w REG_FIFOPRE ((TRAM_BYTES - 1) AND 0x1FE0);
         w \<leftarrow> wr D w DAP_ADDR_FIFOWARN0 0;
         w \<leftarrow> wr D w DAP_ADDR_FIFOWARN1 0;
         wr D w DAP_ADDR_FIFOOVRCNT (push_bit 15 1) } } }"

section \<open>The session\<close>

definition restore_link :: "dev \<Rightarrow> ('e mcds_scheme, unit) state" where
  "restore_link D = do {
     in_use \<leftarrow> sense (d_in_use D);
     if_do in_use (do {
       dap_fast_exit;
       wide \<leftarrow> gets s_wide;
       if_do wide (do { dap_wide_exit D; modify (\<lambda>s. s\<lparr>s_wide := False\<rparr>) });
       dap_phy_fpga_set_div 5 }) }"

text \<open>The DAP's address for one the traced CPU uses.\<close>

definition dap_seg :: "u32 list" where
  "dap_seg = [0x70000000, 0x60000000, 0x50000000, 0x40000000, 0x30000000, 0x10000000]"

definition dap_view :: "u32 \<Rightarrow> u8 \<Rightarrow> u32" where
  "dap_view addr cpu =
     (if unat cpu \<ge> length dap_seg then addr
      else if addr AND 0xFFF00000 = 0xD0000000 then dap_seg ! unat cpu OR (addr AND 0x000FFFFF)
      else if addr AND 0xFFF00000 = 0xC0000000 then (dap_seg ! unat cpu + 0x00100000) OR (addr AND 0x000FFFFF)
      else addr)"

function snapshot_loop :: "dev \<Rightarrow> u32 \<Rightarrow> nat \<Rightarrow> nat \<Rightarrow> u8 list \<Rightarrow> ('e mcds_scheme, nat \<times> u8 list) state" where
  "snapshot_loop D start len stored bytes =
     (if stored \<ge> len then ret (stored, bytes)
      else do {
        let n = min (len - stored) 1024;
        (err, ws) \<leftarrow> dap_probe_blockread D (start + of_nat stored) (n div 4);
        if err \<noteq> ESP_OK then do { dap_probe_clear_error_state D; ret (stored, bytes) }
        else snapshot_loop D start len (stored + n)
          (take stored bytes @ words_bytes ws @ drop (stored + length (words_bytes ws)) bytes) })"
  by pat_completeness auto
termination
  by (relation "measure (\<lambda>(D, start, len, stored, bytes). len - stored)") auto

declare snapshot_loop.simps [simp del]

definition snapshot_span :: "dap_mcds_slot \<Rightarrow> u32 \<times> u32" where
  "snapshot_span s =
     (let lo = sl_addr s AND NOT 3; len = ((sl_addr s + sl_size s + 3) AND NOT 3) - lo
      in (lo, if len > of_nat DAP_MCDS_SNAPSHOT_BYTES then of_nat DAP_MCDS_SNAPSHOT_BYTES else len))"

definition snapshot_slot :: "dev \<Rightarrow> dap_mcds_config \<Rightarrow> nat \<Rightarrow> dap_mcds_info \<Rightarrow> ('e mcds_scheme, dap_mcds_info) state" where
  "snapshot_slot D cfg j info = do {
     let s = c_slot cfg j;
     let sn = (i_snapshot info j)\<lparr>sn_len := 0\<rparr>;
     if \<not> sl_enabled s \<or> sl_size s = 0 then ret (info\<lparr>i_snapshot := (i_snapshot info)(j := sn)\<rparr>)
     else do {
       let (lo, len) = snapshot_span s;
       (stored, bytes) \<leftarrow> snapshot_loop D (dap_view lo (c_cpu cfg)) (unat len) 0 (sn_bytes sn);
       ret (info\<lparr>i_snapshot := (i_snapshot info)(j := \<lparr>sn_addr = lo, sn_len = of_nat stored, sn_bytes = bytes\<rparr>)\<rparr>) } }"

definition take_snapshot :: "dev \<Rightarrow> dap_mcds_config \<Rightarrow> dap_mcds_info \<Rightarrow> ('e mcds_scheme, dap_mcds_info) state" where
  "take_snapshot D cfg info = for_acc (snapshot_slot D cfg) [0..<DAP_MCDS_SLOTS] info"

text \<open>At most fifty looks at the flush flag.\<close>

primrec await_flush :: "dev \<Rightarrow> nat \<Rightarrow> ('e mcds_scheme, unit) state" where
  "await_flush D 0 = skip"
| "await_flush D (Suc n) = do {
     (err, ctl) \<leftarrow> dap_probe_read32 D DAP_ADDR_FIFOCTL 0;
     if err = ESP_OK \<and> ctl AND FIFOCTL_FFE \<noteq> 0 then skip
     else do { vTaskDelay 1; await_flush D n } }"

definition dap_mcds_stop :: "dev \<Rightarrow> ('e mcds_scheme, esp_err) state" where
  "dap_mcds_stop D = do {
     was \<leftarrow> gets mcds_running;
     modify (\<lambda>s. s\<lparr>mcds_running := False\<rparr>);
     if \<not> was then ret ESP_OK
     else do {
       dap_probe_write32 D DAP_ADDR_FIFOCTL FIFOCTL_SET;
       await_flush D 50;
       dap_trace_stop D;
       with_lock (do {
         dap_trace_finish D;
         mcds_reset D;
         restore_link D });
       ret ESP_OK } }"

text \<open>\<open>n\<close> rounds of the watcher.\<close>

primrec watch_task :: "dev \<Rightarrow> nat \<Rightarrow> ('e mcds_scheme, unit) state" where
  "watch_task D 0 = skip"
| "watch_task D (Suc n) = do {
     vTaskDelay 500;
     running \<leftarrow> gets mcds_running;
     idle \<leftarrow> (if running then dap_trace_reader_idle_ms D else ret 0);
     if_do (running \<and> idle > ORPHAN_MS) (do { dap_mcds_stop D; skip });
     watch_task D n }"

text \<open>The link at the session's clock: wide when it calibrates, then fast on top.\<close>

definition session_link :: "dev \<Rightarrow> dap_mcds_config \<Rightarrow> dap_mcds_info \<Rightarrow> ('e mcds_scheme, dap_mcds_info) state" where
  "session_link D cfg info = do {
     in_use \<leftarrow> sense (d_in_use D);
     if \<not> in_use then ret info
     else do {
       info \<leftarrow> (if c_wide cfg then do {
           err \<leftarrow> dap_wide_enter D (c_dap_div cfg);
           ret (info\<lparr>i_wide := (err = ESP_OK)\<rparr>) } else ret info);
       dap_phy_fpga_set_div (c_dap_div cfg);
       (if c_fast cfg then do {
          err \<leftarrow> dap_fast_enter D;
          ret (info\<lparr>i_fast := (err = ESP_OK)\<rparr>) } else ret info) } }"

definition arm_trace :: "dev \<Rightarrow> dap_mcds_config \<Rightarrow> dap_mcds_info \<Rightarrow> ('e mcds_scheme, esp_err \<times> dap_mcds_info) state" where
  "arm_trace D cfg info = do {
     err \<leftarrow> dap_probe_enable_ocds D;
     err \<leftarrow> (if err = ESP_OK then configure D cfg else ret err);
     err \<leftarrow> (if err = ESP_OK then tram_init D else ret err);
     (err, info) \<leftarrow> (if err = ESP_OK then do {
         hz \<leftarrow> measure_emu_hz D;
         info \<leftarrow> take_snapshot D cfg (info\<lparr>i_emu_hz := hz\<rparr>);
         (_, t) \<leftarrow> dap_probe_read32 D REG_TSUEMUCNT (i_tsu_start info);
         dap_probe_write32 D DAP_ADDR_FIFOCTL FIFOCTL_TRON;
         err \<leftarrow> dap_probe_write32 D DAP_ADDR_FIFOCTL FIFOCTL_CLR;
         ret (err, info\<lparr>i_tsu_start := t\<rparr>) } else ret (err, info));
     err \<leftarrow> (if err = ESP_OK then dap_trace_start D else ret err);
     ret (err, info) }"

definition dap_mcds_start :: "dev \<Rightarrow> dap_mcds_config \<Rightarrow> dap_mcds_info \<Rightarrow> ('e mcds_scheme, esp_err \<times> dap_mcds_info) state" where
  "dap_mcds_start D cfg info = do {
     watch \<leftarrow> gets s_watch;
     if_do (\<not> watch) (do {
       created \<leftarrow> ask EvTaskCreate (d_yes D);
       modify (\<lambda>s. s\<lparr>s_watch := created\<rparr>) });
     running \<leftarrow> gets mcds_running;
     if_do running (do { dap_mcds_stop D; skip });
     (err, info) \<leftarrow> with_lock (do {
       info \<leftarrow> session_link D cfg (info\<lparr>i_wide := False, i_fast := False\<rparr>);
       modify (\<lambda>s. s\<lparr>s_wide := i_wide info\<rparr>);
       arm_trace D cfg info });
     if err \<noteq> ESP_OK then do { restore_link D; ret (err, info) }
     else do {
       modify (\<lambda>s. s\<lparr>mcds_running := True\<rparr>);
       ret (ESP_OK, info) } }"

end
