(* ===== verification/Mcds_Session.thy ===== *)
theory Mcds_Session
  imports Dap_Mcds
begin

unbundle bit_operations_syntax

text \<open>
  The life of a trace session (\<open>dap_mcds.c\<close>, \<open>dap_trace.c\<close>): what the operations of the trace layers leave
  alone, how the flags of the session follow the modes of the link, and that the drain always finds its
  FIFO in the shape \<open>trace_begin\<close> checked.
\<close>

section \<open>What the trace layers change\<close>

text \<open>\<open>trace_step\<close>: the session of the link is as before, the lock is held as deep, only peripherals were
  written on the bus, and nothing but the trace's own state changed.\<close>

definition trace_step :: "'e trace_scheme \<Rightarrow> 'e trace_scheme \<Rightarrow> bool" where
  "trace_step s s' \<longleftrightarrow> same_session s s' \<and> calm periph s s' \<and> trace.more s' = trace.more s \<and>
     present s' = present s \<and> slots s' = slots s"

interpretation trace_step: preorder_frame "trace_step :: 'e trace_scheme \<Rightarrow> 'e trace_scheme \<Rightarrow> bool"
  by unfold_locales (auto simp: trace_step_def same_session.R_refl calm.R_refl elim: same_session.R_trans calm.R_trans)

named_theorems trace_frame \<open>operations of the trace layers\<close>

lemma unchanged_trace_step:
  fixes m :: "('e trace_scheme, 'r) state"
  assumes "rel unchanged m" "rel keeps_modes m" "rel (grows periph) m"
  shows "rel trace_step m"
  unfolding rel_def
proof
  fix s :: "'e trace_scheme"
  have u: "unchanged s (snd (run m s))" and k: "keeps_modes s (snd (run m s))" and g: "grows periph s (snd (run m s))"
    using assms by (auto simp: rel_def)
  from unchanged_session [OF u k] have "same_session s (snd (run m s))" .
  with u show "trace_step s (snd (run m s))"
  proof (cases rule: unchangedE)
    case (1 h hu t w)
    with g \<open>same_session s (snd (run m s))\<close> show ?thesis by (simp add: trace_step_def calm_def grows_def)
  qed
qed

lemmas [trace_frame] = trace_step.rules
  unchanged_trace_step [OF sense_rules(2) modes.link_emit(3) sense_rules(1)]
  unchanged_trace_step [OF time_rules(2) modes.link_time(1) time_rules(1)]
  unchanged_trace_step [OF time_rules(5) modes.link_time(2) time_rules(4)]
  unchanged_trace_step [OF read32_rules(2) modes.link_word(1) read32_rules(1)]
  unchanged_trace_step [OF clear_error_state_rules(2) modes.link_word(3) clear_error_state_rules(1)]
  unchanged_trace_step [OF blockread_rules(2) modes.link_blockread(1) blockread_rules(1)]
  unchanged_trace_step [OF blockread_rules(5) modes.link_blockread(2) blockread_rules(4)]
  unchanged_trace_step [OF blockread_many_rules(2) modes.link_blockread_many blockread_many_rules(1)]
  unchanged_trace_step [OF unchanged_ocds modes.link_ocds grows_ocds]

lemma trace_write32 [trace_frame]:
  "(a, v) \<in> periph \<Longrightarrow> rel trace_step (dap_probe_write32 D a v :: ('e trace_scheme, esp_err) state)"
  by (intro unchanged_trace_step write32_rules modes.link_word)

lemma trace_ask [trace_frame]:
  "rel trace_step (ask (EvAlloc n) f :: ('e trace_scheme, 'r) state)"
  "rel trace_step (ask EvTaskCreate f :: ('e trace_scheme, 'r) state)"
  "rel trace_step (ask EvTaskGone f :: ('e trace_scheme, 'r) state)"
  by (simp_all add: rel_def trace_step_def same_session_def session_def calm_def grows_def bus_writes_def)

lemma trace_modify:
  "(\<And>s. trace_step s (f s)) \<Longrightarrow> rel trace_step (modify f)"
  by (simp add: rel_def)

lemma trace_lock [trace_frame]:
  assumes "rel trace_step m" shows "rel trace_step (with_lock m :: ('e trace_scheme, 'r) state)"
proof (rule relI)
  fix s r s' assume "run (with_lock m :: ('e trace_scheme, 'r) state) s = (r, s')"
  then obtain s1 where s1: "run m (s\<lparr>hist := EvLock # hist s\<rparr>) = (r, s1)" "s' = s1\<lparr>hist := EvUnlock # hist s1\<rparr>"
    by (auto simp: with_lock_def split: prod.splits)
  from relD [OF assms s1(1)] show "trace_step s s'"
    by (simp add: s1(2) trace_step_def same_session_def session_def calm_def grows_def bus_writes_def)
qed

lemmas trace_step_simps = trace_step_def same_session_def session_def calm_def grows_def

lemma trace_count [trace_frame]: "rel trace_step (count f :: ('e trace_scheme, unit) state)"
  by (simp add: rel_def count_def trace_step_simps)

lemma trace_fields [trace_frame]:
  "rel trace_step (modify (\<lambda>s. s\<lparr>s_next_par := f s\<rparr>) :: ('e trace_scheme, unit) state)"
  "rel trace_step (modify (\<lambda>s. s\<lparr>s_last_ovrcnt := x\<rparr>) :: ('e trace_scheme, unit) state)"
  "rel trace_step (modify (\<lambda>s. s\<lparr>s_pending_lost := x\<rparr>) :: ('e trace_scheme, unit) state)"
  "rel trace_step (modify (\<lambda>s. s\<lparr>s_task := b\<rparr>) :: ('e trace_scheme, unit) state)"
  "rel trace_step (modify (\<lambda>s. s\<lparr>draining := b\<rparr>) :: ('e trace_scheme, unit) state)"
  "rel trace_step (modify (\<lambda>s. s\<lparr>ring_bytes := n\<rparr>) :: ('e trace_scheme, unit) state)"
  "rel trace_step (modify (\<lambda>s. s\<lparr>ring := r\<rparr>) :: ('e trace_scheme, unit) state)"
  "rel trace_step (modify (\<lambda>s. s\<lparr>s_bot := fbot, s_top := ftop, s_span := span, s_next_par := now_par,
     s_last_ovrcnt := ovr, s_pending_lost := 0, s_seq := 0\<rparr>) :: ('e trace_scheme, unit) state)"
  "rel trace_step (modify (\<lambda>s. s\<lparr>ring_reset_to := ring_head s\<rparr>) :: ('e trace_scheme, unit) state)"
  "rel trace_step (modify (\<lambda>s. s\<lparr>ring_reset := b\<rparr>) :: ('e trace_scheme, unit) state)"
  "rel trace_step (modify (\<lambda>s. s\<lparr>last_read_us := t\<rparr>) :: ('e trace_scheme, unit) state)"
  "rel trace_step (modify (\<lambda>s. s\<lparr>ovr_polls := u\<rparr>) :: ('e trace_scheme, unit) state)"
  "rel trace_step (modify (\<lambda>s. s\<lparr>stats := g s\<rparr>) :: ('e trace_scheme, unit) state)"
  by (simp_all add: rel_def trace_step_simps)

lemma trace_publish [trace_frame]:
  "rel trace_step (publish_flags par ws lost extra :: ('e trace_scheme, unit) state)"
  "rel trace_step (publish par ws lost :: ('e trace_scheme, unit) state)"
  unfolding publish_def by (rule publish_rel, simp add: trace_step_simps)+

lemma trace_group [trace_frame]: "rel trace_step (publish_group ps moved margin w to_read lost i :: ('e trace_scheme, bool \<times> u32) state)"
  by (induction ps arbitrary: lost i) (auto intro!: trace_frame simp: Let_def)

lemma trace_chain [trace_frame]:
  "rel trace_step (publish_chain left pw moved margin prev to_read lost i :: ('e trace_scheme, bool \<times> u32 \<times> u32 \<times> u32) state)"
  by (induction left pw moved margin prev to_read lost i rule: publish_chain.induct, subst publish_chain.simps)
    (intro trace_frame, blast)

lemma trace_chains [trace_frame]:
  "rel trace_step (drain_chains D to_read margin moved prev lost i :: ('e trace_scheme, esp_err \<times> u32) state)"
  by (induction D to_read margin moved prev lost i rule: drain_chains.induct, subst drain_chains.simps)
    (intro trace_frame, blast)

lemma trace_drain [trace_frame]:
  "rel trace_step (drain_to D now ovr :: ('e trace_scheme, esp_err) state)"
  unfolding drain_to_def by (intro trace_frame)

lemma trace_ops [trace_frame]:
  "rel trace_step (dap_trace_finish D :: ('e trace_scheme, esp_err) state)"
  "rel trace_step (dap_trace_stop D :: ('e trace_scheme, unit) state)"
  "rel trace_step (dap_trace_start D :: ('e trace_scheme, esp_err) state)"
proof -
  show "rel trace_step (dap_trace_finish D :: ('e trace_scheme, esp_err) state)"
    unfolding dap_trace_finish_def by (intro trace_frame)
  have "rel trace_step (await_task D n :: ('e trace_scheme, unit) state)" for n
    by (induction n) (auto intro!: trace_frame)
  then show "rel trace_step (dap_trace_stop D :: ('e trace_scheme, unit) state)"
    unfolding dap_trace_stop_def by (intro trace_frame)
  have "(TRACE_FIFOWARN0, 0) \<in> periph" "(TRACE_FIFOWARN1, 0) \<in> periph"
    by (simp_all add: periph_def TRACE_FIFOWARN0_def TRACE_FIFOWARN1_def TRACE_MCDS_BASE_def)
  then show "rel trace_step (dap_trace_start D :: ('e trace_scheme, esp_err) state)"
    unfolding dap_trace_start_def trace_begin_def alloc_ring_def by (intro trace_frame)
qed

section \<open>The drain finds its FIFO in shape\<close>

definition drain_ready :: "'e trace_scheme \<Rightarrow> bool" where
  "drain_ready s \<longleftrightarrow> 0 < s_span s \<and> s_span s mod TRACE_PARAGRAPH = 0 \<and> s_next_par s < s_span s div TRACE_PARAGRAPH"

text \<open>\<open>next_in\<close>: the geometry is \<open>g\<close> and the next paragraph lies in it.\<close>

definition next_in :: "u32 \<times> u32 \<Rightarrow> 'e trace_scheme \<Rightarrow> bool" where
  "next_in g s \<longleftrightarrow> fifo s = g \<and> s_next_par s < snd g div TRACE_PARAGRAPH"

lemma next_keep: "rel unchanged m \<Longrightarrow> triple (next_in g) m (\<lambda>_. next_in g)"
  by (erule of_rel) (simp add: next_in_def unchanged_fifo)

lemma next_count: "triple (next_in g) (count f) (\<lambda>_. next_in g)"
  and next_pending: "triple (next_in g) (modify (\<lambda>s. s\<lparr>s_pending_lost := l\<rparr>)) (\<lambda>_. next_in g)"
  and next_ovr: "triple (next_in g) (modify (\<lambda>s. s\<lparr>s_last_ovrcnt := l\<rparr>)) (\<lambda>_. next_in g)"
  by (auto simp: triple_def next_in_def fifo_def count_def)

lemma next_publish: "triple (next_in g) (publish_flags par ws lost extra) (\<lambda>_. next_in g)"
  by (rule publish_triple) (simp add: next_in_def fifo_def)

lemma next_set:
  "(\<And>s. fifo s = g \<Longrightarrow> f s < snd g div TRACE_PARAGRAPH) \<Longrightarrow>
   triple (next_in g) (modify (\<lambda>s. s\<lparr>s_next_par := f s\<rparr>)) (\<lambda>_. next_in g)"
  by (auto simp: triple_def next_in_def fifo_def)

lemma word_mod_less: "0 < n \<Longrightarrow> x mod n < n" for n :: u32
  by (simp add: word_less_nat_alt unat_mod)

lemma next_group:
  assumes "w < snd g div TRACE_PARAGRAPH"
  shows "triple (next_in g) (publish_group ps moved margin w to_read lost i) (\<lambda>_. next_in g)"
proof (induction ps arbitrary: lost i)
  case Nil
  show ?case unfolding publish_group.simps by (rule triple_return)
next
  case (Cons p ps)
  have pos: "0 < snd g div TRACE_PARAGRAPH" using assms by (simp add: word_less_nat_alt)
  show ?case unfolding publish_group.simps publish_def
    apply (rule triple_if)
     apply (rule triple_let, rule triple_bind, rule next_count, rule triple_bind, rule next_set, rule assms, rule triple_return, assumption)
    apply (rule triple_bind, rule next_keep, intro unchanged_frame)
    apply (rule triple_bind, rule next_publish)
    apply (rule triple_known [where c = "snd g div TRACE_PARAGRAPH"])
     apply (auto simp: next_in_def fifo_def) []
    apply (rule triple_bind, rule next_set, rule word_mod_less, rule pos)
    apply (rule Cons.IH)
    done
qed

lemma next_par_of:
  assumes "0 < snd g" "snd g mod TRACE_PARAGRAPH = 0" "fifo s = g"
  shows "par_of w s < snd g div TRACE_PARAGRAPH"
proof -
  have span: "s_span s = snd g" using assms(3) by (auto simp: fifo_def)
  show ?thesis using par_of_less [of s w] assms(1,2) unfolding span word_less_nat_alt by blast
qed

lemma next_pointer:
  assumes "0 < snd g" "snd g mod TRACE_PARAGRAPH = 0"
  shows "triple (next_in g) (gets (par_of x)) (\<lambda>w s. next_in g s \<and> w < snd g div TRACE_PARAGRAPH)"
proof (rule triple_gets)
  fix s :: "'a trace_scheme" assume "next_in g s"
  then show "next_in g s \<and> par_of x s < snd g div TRACE_PARAGRAPH"
    using next_par_of [OF assms, of s x] by (simp add: next_in_def)
qed

lemma next_chain:
  assumes g: "0 < snd g" "snd g mod TRACE_PARAGRAPH = 0"
  shows "triple (next_in g) (publish_chain left pw moved margin prev to_read lost i) (\<lambda>_. next_in g)"
proof (induction left pw moved margin prev to_read lost i rule: publish_chain.induct)
  case (1 left pw moved margin prev to_read lost i)
  have grp: "triple (\<lambda>s. next_in g s \<and> w < snd g div TRACE_PARAGRAPH) (publish_group ps moved margin w to_read lost i)
      (\<lambda>_. next_in g)" for w ps moved lost i
    by (cases "w < snd g div TRACE_PARAGRAPH") (auto intro: triple_pre [OF next_group] simp: triple_const)
  show ?case
  proof (cases "left = 0")
    case True
    then show ?thesis by (subst publish_chain.simps) (auto intro: triple_return)
  next
    case False
    have nf: "\<not> False" by simp
    show ?thesis
      apply (subst publish_chain.simps)
      apply (rule triple_if, use False in simp)
      apply (rule triple_let, rule triple_let)
      apply (rule triple_bind, rule next_pointer [OF g])
      apply (rule triple_bind [where R = "\<lambda>_ s. next_in g s \<and> w < snd g div TRACE_PARAGRAPH" for w])
       apply (rule triple_gets, assumption)
      apply (rule triple_let, rule triple_bind, rule grp)
      apply (rule triple_case_prod, rule triple_if)
       apply (rule triple_return, assumption)
      apply (rule "1.IH" [OF False refl refl refl nf])
      done
  qed
qed

lemma next_chains:
  assumes g: "0 < snd g" "snd g mod TRACE_PARAGRAPH = 0"
  shows "triple (next_in g) (drain_chains D to_read margin moved prev lost i) (\<lambda>_. next_in g)"
proof (induction D to_read margin moved prev lost i rule: drain_chains.induct)
  case (1 D to_read margin moved prev lost i)
  show ?case
  proof (cases "i \<ge> to_read")
    case True
    then show ?thesis by (subst drain_chains.simps) (auto intro: triple_return)
  next
    case False
    have e: "\<not> ESP_OK \<noteq> ESP_OK" and nf: "\<not> False" by simp_all
    show ?thesis
      apply (subst drain_chains.simps)
      apply (rule triple_if, use False in simp)
      apply (rule triple_let)
      apply (rule triple_bind, rule next_keep, intro unchanged_frame)
      apply (rule triple_bind, rule next_keep, intro unchanged_frame)
      apply (rule triple_bind, rule next_keep, intro unchanged_frame)
      apply (rule triple_case_prod, rule triple_if)
       apply (rule triple_bind, rule next_count)
       apply (rule triple_bind, rule next_keep, intro unchanged_frame)
       apply (rule triple_return, assumption)
      apply (rule triple_bind, rule next_keep, intro unchanged_frame)
      apply (rule triple_bind, rule next_count)
      apply (rule triple_bind, rule next_chain, rule g, rule g)
      apply (rule triple_case_prod, rule triple_case_prod, rule triple_case_prod, rule triple_if)
       apply (rule triple_return, assumption)
      apply (rule "1.IH" [OF False refl e nf])
      done
  qed
qed

lemma next_drain:
  fixes s0 :: "'e trace_scheme"
  assumes "drain_ready s0"
  shows "triple (next_in (fifo s0)) (drain_to D now ovr) (\<lambda>_. next_in (fifo s0))"
proof -
  let ?g = "fifo s0"
  have g: "0 < snd ?g" "snd ?g mod TRACE_PARAGRAPH = 0" and pos: "0 < snd ?g div TRACE_PARAGRAPH"
    using assms by (auto simp: drain_ready_def fifo_def word_less_nat_alt)
  have count_w: "triple (\<lambda>s. next_in ?g s \<and> w < snd ?g div TRACE_PARAGRAPH) (count f)
      (\<lambda>_ s. next_in ?g s \<and> w < snd ?g div TRACE_PARAGRAPH)" for w f
    by (auto simp: triple_def next_in_def fifo_def count_def)
  have set_w: "triple (\<lambda>s. next_in ?g s \<and> w < snd ?g div TRACE_PARAGRAPH) (modify (\<lambda>s. s\<lparr>s_next_par := w\<rparr>))
      (\<lambda>_. next_in ?g)" for w
    by (auto simp: triple_def next_in_def fifo_def)
  show ?thesis
    unfolding drain_to_def
    apply (rule triple_bind, rule next_keep, intro unchanged_frame)
    apply (rule triple_bind, rule next_keep, intro unchanged_frame)
    apply (rule triple_bind)
     apply (rule triple_if_do, rule triple_bind, rule next_count, rule next_ovr, assumption)
    apply (rule triple_known [where c = "snd ?g div TRACE_PARAGRAPH"])
     apply (auto simp: next_in_def fifo_def) []
    apply (rule triple_bind, rule next_pointer [OF g])
    apply (rule triple_bind [where R = "\<lambda>_ s. next_in ?g s \<and> w < snd ?g div TRACE_PARAGRAPH" for w])
     apply (rule triple_gets, assumption)
    apply (rule triple_bind [where R = "\<lambda>_ s. next_in ?g s \<and> w < snd ?g div TRACE_PARAGRAPH" for w])
     apply (rule triple_gets, assumption)
    apply (rule triple_let)
    apply (rule triple_bind [where R = "\<lambda>_. next_in ?g"])
     apply (rule triple_if)
      apply (rule triple_bind [where R = "\<lambda>_ s. next_in ?g s \<and> w < snd ?g div TRACE_PARAGRAPH" for w], rule count_w)
      apply (rule triple_bind, rule set_w, rule triple_return, assumption)
     apply (rule triple_return, erule conjunct1)
    apply (rule triple_case_prod)
    apply (rule triple_bind [where R = "\<lambda>_. next_in ?g"])
     apply (rule triple_if, rule triple_let, rule triple_bind, rule next_count)
      apply (rule triple_bind, rule next_set, rule word_mod_less, rule pos)
      apply (rule triple_return, assumption)
     apply (rule triple_return, assumption)
    apply (rule triple_case_prod)
    apply (rule triple_bind, rule triple_if_do, rule next_count, assumption)
    apply (rule triple_bind, rule next_chains, rule g, rule g)
    apply (rule triple_case_prod, rule triple_bind, rule next_pending)
    apply (rule triple_if, rule triple_return, assumption)
    apply (rule triple_bind, rule next_keep, intro unchanged_frame)
    apply (rule triple_let, rule triple_bind, rule next_count, rule triple_return, assumption)
    done
qed

lemma triple_any: "triple P m (\<lambda>_ _. True)"
  by (simp add: triple_def split: prod.split)

lemma begin_ready:
  "triple P (trace_begin D) (\<lambda>err s. err = ESP_OK \<and> s_span s \<noteq> 0 \<longrightarrow> drain_ready (s :: 'e trace_scheme))"
proof -
  let ?G = "\<lambda>s :: 'e trace_scheme. s_span s \<noteq> 0 \<longrightarrow> drain_ready s"
  have geometry: "triple P (modify (\<lambda>s. s\<lparr>s_bot := fbot, s_top := ftop, s_span := span,
      s_next_par := ((now - fbot) mod span) div TRACE_PARAGRAPH, s_last_ovrcnt := ovr, s_pending_lost := 0, s_seq := 0\<rparr>)) (\<lambda>_. ?G)"
    if "span mod TRACE_PARAGRAPH = 0" for P fbot ftop span now ovr
  proof (rule triple_modify)
    fix s :: "'e trace_scheme"
    let ?s = "s\<lparr>s_bot := fbot, s_top := ftop, s_span := span,
      s_next_par := ((now - fbot) mod span) div TRACE_PARAGRAPH, s_last_ovrcnt := ovr, s_pending_lost := 0, s_seq := 0\<rparr>"
    show "?G ?s"
    proof
      assume "s_span ?s \<noteq> 0"
      then have "par_of now ?s < span div TRACE_PARAGRAPH"
        using that by (intro next_par_of [of "(fbot, span)", unfolded snd_conv]) (auto simp: fifo_def word_gt_0)
      then show "drain_ready ?s" using \<open>s_span ?s \<noteq> 0\<close> that by (simp add: drain_ready_def par_of_def word_gt_0)
    qed
  qed
  have keep: "rel unchanged m \<Longrightarrow> triple ?G m (\<lambda>_. ?G)" for m :: "('e trace_scheme, 'r) state"
    by (erule of_rel, erule unchangedE, simp add: drain_ready_def)
  have fields: "triple ?G (modify (\<lambda>s. s\<lparr>ring_reset_to := ring_head s\<rparr>)) (\<lambda>_. ?G)"
    "triple ?G (modify (\<lambda>s. s\<lparr>ring_reset := True\<rparr>)) (\<lambda>_. ?G)"
    "triple ?G (modify (\<lambda>s. s\<lparr>last_read_us := t\<rparr>)) (\<lambda>_. ?G)"
    "triple ?G (modify (\<lambda>s. s\<lparr>stats := f s\<rparr>)) (\<lambda>_. ?G)"
    "triple ?G (modify (\<lambda>s. s\<lparr>draining := True\<rparr>)) (\<lambda>_. ?G)" for t f
    by (auto simp: triple_def drain_ready_def)
  show ?thesis
    unfolding trace_begin_def
    apply (rule triple_bind, rule triple_any)+
    apply (rule triple_if, rule triple_return, simp)
    apply (rule triple_bind, rule triple_any, rule triple_case_prod)+
    apply (rule triple_if, rule triple_return, simp)
    apply (rule triple_if, rule triple_return, simp)
    apply (rule triple_bind, rule triple_any, rule triple_bind, rule triple_any)
    apply (rule triple_let, rule triple_let)
    apply (rule triple_bind, rule geometry, simp)
    apply (rule triple_bind, rule fields, rule triple_bind, rule fields)
    apply (rule triple_bind, rule keep, intro unchanged_frame)
    apply (rule triple_bind, rule fields, rule triple_bind, rule fields, rule triple_bind, rule fields)
    apply (rule triple_return, simp)
    done
qed

text \<open>The drain always finds the FIFO as \<open>trace_begin\<close> checked it: once a trace has begun (and the
  FIFO registers did not span the whole address space, which the check misses), the span is a whole number of
  paragraphs and the next one lies in it, and every pass, whatever the target answers, keeps it so.\<close>

theorem drain_ready_invariant:
  fixes s :: "'e trace_scheme"
  shows "(result (trace_begin D) s = ESP_OK \<and> s_span (final (trace_begin D) s) \<noteq> 0 \<longrightarrow> drain_ready (final (trace_begin D) s)) \<and>
    (drain_ready s \<longrightarrow> drain_ready (final (drain_to D now ovr) s))"
proof (intro conjI impI)
  show "drain_ready (final (trace_begin D) s)"
    if "result (trace_begin D) s = ESP_OK \<and> s_span (final (trace_begin D) s) \<noteq> 0"
    using that triple_final [OF begin_ready [where P = "\<lambda>_. True" and D = D], of s] by simp
  assume r: "drain_ready s"
  then have "next_in (fifo s) s" by (simp add: next_in_def drain_ready_def fifo_def)
  from triple_final [OF next_drain [OF r] this] r show "drain_ready (final (drain_to D now ovr) s)"
    by (auto simp: next_in_def drain_ready_def fifo_def)
qed

lemma trace0_ready: "drain_ready trace0"
  by (simp add: drain_ready_def TRACE_PARAGRAPH_def)

lemma drain_ready_invariant_witness: "drain_ready (final (drain_to (good_dev 7) 0x1400 0) trace0)"
  using drain_ready_invariant [where D = "good_dev 7" and s = trace0 and now = "0x1400" and ovr = 0] trace0_ready by blast

text \<open>What the check misses: a FIFO that spans the address space has a span of zero, and the pass then
  divides by it.\<close>

lemma span_overflow:
  "let fbot = 0; ftop = 0xFFFFFFFF :: u32 in \<not> (ftop \<le> fbot \<or> (ftop - fbot + 1) mod TRACE_PARAGRAPH \<noteq> 0) \<and> ftop - fbot + 1 = 0"
  by (simp add: TRACE_PARAGRAPH_def)

section \<open>The miniMCDS setup\<close>

lemma in_periph: "unat a \<ge> 0xB0000000 \<Longrightarrow> (a, v) \<in> periph"
  by (simp add: periph_def word_le_nat_alt word_less_nat_alt)

lemma mcds_periph:
  assumes "unat off < 0x8000" shows "(MCDS off, v) \<in> periph"
proof (rule in_periph)
  have "unat (MCDS off) = 0xFB718000 + unat off"
    using assms by (simp add: MCDS_def DAP_ADDR_MCDS_BASE_def unat_word_ariths(1))
  then show "unat (MCDS off) \<ge> 0xB0000000" by simp
qed

lemma reg_periph [simp]:
  "(REG_CT, v) \<in> periph" "(REG_MUX, v) \<in> periph" "(REG_MUX_TC_RC, v) \<in> periph" "(REG_FIFOPRE, v) \<in> periph"
  "(DAP_ADDR_FIFOBOT, v) \<in> periph" "(DAP_ADDR_FIFOTOP, v) \<in> periph" "(DAP_ADDR_FIFOCTL, v) \<in> periph"
  "(DAP_ADDR_FIFOWARN0, v) \<in> periph" "(DAP_ADDR_FIFOWARN1, v) \<in> periph" "(DAP_ADDR_FIFOOVRCNT, v) \<in> periph"
  by (simp_all add: periph_def REG_CT_def REG_MUX_def REG_MUX_TC_RC_def REG_FIFOPRE_def MCDS_def DAP_ADDR_MCDS_BASE_def
      DAP_ADDR_FIFOBOT_def DAP_ADDR_FIFOTOP_def DAP_ADDR_FIFOCTL_def DAP_ADDR_FIFOWARN0_def DAP_ADDR_FIFOWARN1_def
      DAP_ADDR_FIFOOVRCNT_def)

lemma indexed_periph:
  assumes "j < 64"
  shows "(REG_MCXEVT j, v) \<in> periph" "(REG_MCXACT j, v) \<in> periph" "(REG_TCXEABND j, v) \<in> periph"
    "(REG_TCXEARNG j, v) \<in> periph" "(REG_TCXWDBND j, v) \<in> periph" "(REG_TCXWDRNG j, v) \<in> periph"
    "(REG_TCXWDMSK j, v) \<in> periph" "(REG_TCXWDSGN j, v) \<in> periph" "(REG_TCXACBND j, v) \<in> periph"
    "(REG_TCXACRNG j, v) \<in> periph" "(REG_TCXACMSK j, v) \<in> periph"
proof -
  have "unat (of_nat j * c :: u32) = j * unat c" if "unat c < 64" for c
    using assms that mult_le_mono [of j 63 "unat c" 63] by (simp add: unat_word_ariths(2) unat_of_nat)
  then have "unat (b + of_nat j * c :: u32) < 0x8000" if "unat b \<le> 0x2510" "unat c < 64" for b c
    using assms that mult_le_mono [of j 63 "unat c" 63] by (simp add: unat_word_ariths(1))
  then show "(REG_MCXEVT j, v) \<in> periph" "(REG_MCXACT j, v) \<in> periph" "(REG_TCXEABND j, v) \<in> periph"
    "(REG_TCXEARNG j, v) \<in> periph" "(REG_TCXWDBND j, v) \<in> periph" "(REG_TCXWDRNG j, v) \<in> periph"
    "(REG_TCXWDMSK j, v) \<in> periph" "(REG_TCXWDSGN j, v) \<in> periph" "(REG_TCXACBND j, v) \<in> periph"
    "(REG_TCXACRNG j, v) \<in> periph" "(REG_TCXACMSK j, v) \<in> periph"
    by (simp_all add: REG_MCXEVT_def REG_MCXACT_def REG_TCXEABND_def REG_TCXEARNG_def REG_TCXWDBND_def REG_TCXWDRNG_def
        REG_TCXWDMSK_def REG_TCXWDSGN_def REG_TCXACBND_def REG_TCXACRNG_def REG_TCXACMSK_def mcds_periph)
qed

lemma tram_periph: "n < 0x4000 \<Longrightarrow> (TRAM_BASE + of_nat n, v) \<in> periph"
  by (rule in_periph) (simp add: TRAM_BASE_def unat_word_ariths(1) unat_of_nat)

lemma trace_wr [trace_frame]: "(a, v) \<in> periph \<Longrightarrow> rel trace_step (wr D w a v :: ('e mcds_scheme, esp_err) state)"
  unfolding wr_def by (intro trace_frame)

lemma trace_mcds_reset [trace_frame]: "rel trace_step (mcds_reset D :: ('e mcds_scheme, esp_err) state)"
proof -
  have "rel trace_step (await_reset D n :: ('e mcds_scheme, unit) state)" for n
    by (induction n) (auto intro!: trace_frame)
  then show ?thesis unfolding mcds_reset_def by (intro trace_frame reg_periph)
qed

lemma trace_measure [trace_frame]: "rel trace_step (measure_emu_hz D :: ('e mcds_scheme, u32) state)"
  unfolding measure_emu_hz_def by (intro trace_frame)

lemma tram_words: "off < 0x2000 \<Longrightarrow> length ws \<le> 128 \<Longrightarrow> set (block_words (TRAM_BASE + of_nat off) ws) \<subseteq> periph"
proof -
  have "n + 4 * length ws \<le> 0x4000 \<Longrightarrow> set (block_words (TRAM_BASE + of_nat n) ws) \<subseteq> periph" for n
  proof (induction ws arbitrary: n)
    case (Cons w ws)
    have eq: "TRAM_BASE + of_nat n + 4 = TRAM_BASE + of_nat (n + 4)" by simp
    have "set (block_words (TRAM_BASE + of_nat (n + 4)) ws) \<subseteq> periph"
      by (rule Cons.IH) (use Cons.prems in simp)
    then show ?case using tram_periph [of n w] Cons.prems unfolding block_words.simps eq by simp
  qed simp
  then show "off < 0x2000 \<Longrightarrow> length ws \<le> 128 \<Longrightarrow> set (block_words (TRAM_BASE + of_nat off) ws) \<subseteq> periph" by simp
qed

lemma trace_tram_block [trace_frame]:
  assumes "off < 0x2000"
  shows "rel trace_step (tram_block D (of_nat off) :: ('e mcds_scheme, esp_err) state)"
proof -
  have blk: "rel trace_step (dap_phy_fpga_block_write D (TRAM_BASE + of_nat off) (replicate DAP_FPGA_BLOCK_WORDS 0xFFFFFFFF) :: ('e mcds_scheme, esp_err) state)"
    using tram_words [OF assms, of "replicate DAP_FPGA_BLOCK_WORDS 0xFFFFFFFF"]
    by (auto simp: rel_def dap_phy_fpga_block_write_def trace_step_simps bus_writes_def DAP_FPGA_BLOCK_WORDS_def)
  have w: "rel trace_step (dap_probe_write32 D (TRAM_BASE + of_nat off + 4 * of_nat k) v :: ('e mcds_scheme, esp_err) state)"
    if "k < DAP_FPGA_BLOCK_WORDS" for k v
    using tram_periph [of "off + 4 * k" v] that assms
    by (intro trace_frame) (simp add: DAP_FPGA_BLOCK_WORDS_def add.assoc)
  show ?thesis
    unfolding tram_block_def by (intro trace_frame blk w) simp_all
qed

lemma trace_tram_init [trace_frame]: "rel trace_step (tram_init D :: ('e mcds_scheme, esp_err) state)"
proof -
  have blk: "rel trace_step (tram_block D (of_nat (b * 4 * DAP_FPGA_BLOCK_WORDS)) :: ('e mcds_scheme, esp_err) state)"
    if "b \<in> set [0..<unat TRAM_BYTES div (4 * DAP_FPGA_BLOCK_WORDS)]" for b
    by (rule trace_tram_block) (use that in \<open>simp add: DAP_FPGA_BLOCK_WORDS_def TRAM_BYTES_def\<close>)
  have w: "rel trace_step (dap_probe_write32 D (TRAM_BASE + of_nat p * 0x400) v :: ('e mcds_scheme, esp_err) state)"
    if "p \<in> set [0..<unat TRAM_BYTES div 0x400]" for p v
    using tram_periph [of "p * 0x400" v] that by (intro trace_frame) (simp add: TRAM_BYTES_def)
  show ?thesis unfolding tram_init_def by (intro trace_frame blk w)
qed

lemma trace_program [trace_frame]:
  assumes "j < 64"
  shows "rel trace_step (program_value D w j s :: ('e mcds_scheme, esp_err) state)"
    "rel trace_step (program_slot D cfg j w :: ('e mcds_scheme, esp_err) state)"
proof -
  show v: "rel trace_step (program_value D w j s :: ('e mcds_scheme, esp_err) state)" for w s
    unfolding program_value_def using assms by (intro trace_frame indexed_periph)
  show "rel trace_step (program_slot D cfg j w :: ('e mcds_scheme, esp_err) state)"
    unfolding program_slot_def using assms by (intro trace_frame v indexed_periph)
qed

lemma k_slot_evt_less: "j < DAP_MCDS_SLOTS \<Longrightarrow> k_evt (k_slot_evt ! j) < 64"
  by (auto simp: DAP_MCDS_SLOTS_def k_slot_evt_def less_Suc_eq numeral_2_eq_2)

lemma trace_configure [trace_frame]: "rel trace_step (configure D cfg :: ('e mcds_scheme, esp_err) state)"
proof -
  have act: "rel trace_step (wr D w (REG_MCXACT a) v :: ('e mcds_scheme, esp_err) state)" if "a \<in> set [0..<ACT_COUNT]" for a w v
    using that by (intro trace_frame indexed_periph) (simp add: ACT_COUNT_def)
  have evt: "rel trace_step (wr D w (REG_MCXEVT (k_evt (k_slot_evt ! j))) v :: ('e mcds_scheme, esp_err) state)"
    if "j \<in> set [0..<DAP_MCDS_SLOTS]" for j w v
    using that by (intro trace_frame indexed_periph k_slot_evt_less) simp
  have slot: "rel trace_step (program_slot D cfg j w :: ('e mcds_scheme, esp_err) state)" if "j \<in> set [0..<DAP_MCDS_SLOTS]" for j w
    using that by (intro trace_frame) (simp add: DAP_MCDS_SLOTS_def)
  show ?thesis
    unfolding configure_def program_source_def by (intro trace_frame act evt slot reg_periph)
qed

lemma trace_snapshot [trace_frame]:
  "rel trace_step (snapshot_loop D start len stored bytes :: ('e mcds_scheme, nat \<times> u8 list) state)"
  by (induction D start len stored bytes rule: snapshot_loop.induct, subst snapshot_loop.simps)
    (intro trace_frame, blast)

lemma trace_take_snapshot [trace_frame]:
  "rel trace_step (take_snapshot D cfg info :: ('e mcds_scheme, dap_mcds_info) state)"
  unfolding take_snapshot_def snapshot_slot_def by (intro trace_frame)

lemma trace_arm [trace_frame]:
  "rel trace_step (arm_trace D cfg info :: ('e mcds_scheme, esp_err \<times> dap_mcds_info) state)"
  unfolding arm_trace_def by (intro trace_frame reg_periph)

lemma trace_flush [trace_frame]: "rel trace_step (await_flush D n :: ('e mcds_scheme, unit) state)"
  by (induction n) (auto intro!: trace_frame)

section \<open>Sessions\<close>

text \<open>\<open>linked a f\<close>: wide mode is on exactly as \<open>a\<close> and its flag say, and fast mode as \<open>f\<close> and its flag.
  \<open>mcds_at\<close> adds the flags of the trace session and how deep the lock is held.\<close>

definition linked :: "bool \<Rightarrow> bool \<Rightarrow> 'e wide_scheme \<Rightarrow> bool" where
  "linked a f s \<longleftrightarrow> wide_active s = a \<and> wide_on (hist s) = a \<and> s_fast s = f \<and> fast_on (hist s) = f"

definition mcds_at :: "bool \<Rightarrow> bool \<Rightarrow> bool \<Rightarrow> bool \<Rightarrow> int \<Rightarrow> 'e mcds_scheme \<Rightarrow> bool" where
  "mcds_at a f w r d s \<longleftrightarrow> linked a f s \<and> s_wide s = w \<and> mcds_running s = r \<and> lock_depth (hist s) = d"

lemma mcds_keep: "rel trace_step m \<Longrightarrow> triple (mcds_at a f w r d) m (\<lambda>_. mcds_at a f w r d)"
proof (erule of_rel)
  fix s s' :: "'e mcds_scheme" assume "mcds_at a f w r d s" "trace_step s s'"
  then show "mcds_at a f w r d s'"
    by (cases s; cases s') (simp add: mcds_at_def linked_def trace_step_def same_session_def session_def mcds.defs)
qed

lemma mcds_enter: "triple (mcds_at a f w r d) (dap_wide_enter D dv) (\<lambda>err. mcds_at (err = ESP_OK) f w r d)"
proof (rule tripleI)
  fix s s' :: "'e mcds_scheme" and err
  assume s: "mcds_at a f w r d s" and run: "run (dap_wide_enter D dv) s = (err, s')"
  let ?v = "(a, f, a, fast_on (hist s), taps_set (hist s), (s_tap1 s, s_tap2 s))"
  have at: "at ?v s" using s by (simp add: mcds_at_def linked_def at_def session_def)
  have "triple (at ?v) (dap_wide_enter D dv) (wide_post f (fast_on (hist s)))"
    unfolding dap_wide_enter_def
    by (rule triple_with_lock [OF at_enter_locked]) (simp_all add: at_def session_def wide_post_def Let_def)
  from tripleD [OF this at run] have p: "wide_post f (fast_on (hist s)) err s'" .
  moreover have "link_step s s'" by (rule relD [OF link_step_session(2) run])
  ultimately show "mcds_at (err = ESP_OK) f w r d s'"
    using s by (cases s; cases s')
      (auto simp: wide_post_def Let_def at_def session_def mcds_at_def linked_def link_step_def calm_def mcds.defs)
qed

lemma mcds_exit: "triple (mcds_at a f w r d) (dap_wide_exit D) (\<lambda>_. mcds_at False f w r d)"
proof (rule tripleI)
  fix s s' :: "'e mcds_scheme" and u
  assume s: "mcds_at a f w r d s" and run: "run (dap_wide_exit D) s = (u, s')"
  let ?v = "(a, f, a, fast_on (hist s), taps_set (hist s), (s_tap1 s, s_tap2 s))"
  have at: "at ?v s" using s by (simp add: mcds_at_def linked_def at_def session_def)
  from tripleD [OF at_wide_exit at run] have "\<exists>t. at (False, f, False, fast_on (hist s), t, (s_tap1 s, s_tap2 s)) s'"
    by (intro exI [of _ "if a then (0, 0) else taps_set (hist s)"]) (cases a; simp)
  moreover have "link_step s s'" by (rule relD [OF link_step_session(1) run])
  ultimately show "mcds_at False f w r d s'"
    using s by (cases s; cases s')
      (auto simp: at_def session_def mcds_at_def linked_def link_step_def calm_def mcds.defs)
qed

lemma mcds_fast: "triple (mcds_at a False w r d) (dap_fast_enter D) (\<lambda>err. mcds_at a (err = ESP_OK) w r d)"
proof (rule tripleI)
  fix s s' :: "'e mcds_scheme" and err
  assume s: "mcds_at a False w r d s" and run: "run (dap_fast_enter D) s = (err, s')"
  let ?r = "(s_tap1 s, s_tap2 s)"
  have st: "some_timing (a, False, a, ?r) (fast_on (hist s)) s"
    using s by (auto simp: some_timing_def at_def session_def mcds_at_def linked_def)
  have fo: "fast_on (hist s) \<longrightarrow> False" using s by (simp add: mcds_at_def linked_def)
  from tripleD [OF fast_entered [OF fo] st run] have
    "\<exists>fo'. some_timing (a, err = ESP_OK, a, ?r) fo' s' \<and> (fo' \<longrightarrow> err = ESP_OK)" by simp
  moreover have "err = ESP_OK \<longrightarrow> fast_on (hist s')"
    using tripleD [OF fast_enter_reading refl run] by (auto simp: reading_def under_timing_def)
  moreover have "link_step s s'" by (rule relD [OF link_step_session(4) run])
  ultimately show "mcds_at a (err = ESP_OK) w r d s'"
    using s by (cases s; cases s')
      (auto simp: some_timing_def at_def session_def mcds_at_def linked_def link_step_def calm_def mcds.defs)
qed

lemma mcds_slow: "triple (mcds_at a f w r d) dap_fast_exit (\<lambda>_. mcds_at a False w r d)"
proof (rule tripleI)
  fix s s' :: "'e mcds_scheme" and u
  assume s: "mcds_at a f w r d s" and run: "run dap_fast_exit s = (u, s')"
  let ?r = "(s_tap1 s, s_tap2 s)"
  have st: "some_timing (a, f, a, ?r) (fast_on (hist s)) s"
    using s by (auto simp: some_timing_def at_def session_def mcds_at_def linked_def)
  from tripleD [OF fast_exited st run] have "some_timing (a, False, a, ?r) (fast_on (hist s) \<and> \<not> f) s'" .
  moreover have "link_step s s'" by (rule relD [OF link_step_session(3) run])
  ultimately show "mcds_at a False w r d s'"
    using s by (cases s; cases s')
      (auto simp: some_timing_def at_def session_def mcds_at_def linked_def link_step_def calm_def mcds.defs)
qed

lemma mcds_flags:
  "triple (mcds_at a f w r d) (modify (\<lambda>s. s\<lparr>s_wide := w'\<rparr>)) (\<lambda>_. mcds_at a f w' r d)"
  "triple (mcds_at a f w r d) (modify (\<lambda>s. s\<lparr>mcds_running := r'\<rparr>)) (\<lambda>_. mcds_at a f w r' d)"
  "triple (mcds_at a f w r d) (modify (\<lambda>s. s\<lparr>s_watch := b\<rparr>)) (\<lambda>_. mcds_at a f w r d)"
  by (auto simp: triple_def mcds_at_def linked_def)

lemma mcds_div: "triple (mcds_at a f w r d) (dap_phy_fpga_set_div dv) (\<lambda>_. mcds_at a f w r d)"
  by (auto simp: triple_def mcds_at_def linked_def dap_phy_fpga_set_div_def)

lemma mcds_lock:
  fixes m :: "('e mcds_scheme, 'r) state"
  assumes "triple (mcds_at a f w r (d + 1)) m (\<lambda>x s. \<exists>a f w. mcds_at a f w r (d + 1) s \<and> Q x a f w)"
  shows "triple (mcds_at a f w r d) (with_lock m) (\<lambda>x s. \<exists>a f w. mcds_at a f w r d s \<and> Q x a f w)"
proof (rule tripleI)
  fix s s' :: "'e mcds_scheme" and x
  assume s: "mcds_at a f w r d s" and "run (with_lock m) s = (x, s')"
  then obtain s1 where s1: "run m (s\<lparr>hist := EvLock # hist s\<rparr>) = (x, s1)" "s' = s1\<lparr>hist := EvUnlock # hist s1\<rparr>"
    by (auto simp: with_lock_def split: prod.splits)
  have "mcds_at a f w r (d + 1) (s\<lparr>hist := EvLock # hist s\<rparr>)" using s by (simp add: mcds_at_def linked_def)
  from tripleD [OF assms this s1(1)] show "\<exists>a f w. mcds_at a f w r d s' \<and> Q x a f w"
    by (auto simp: s1(2) mcds_at_def linked_def)
qed

lemma mcds_restore:
  assumes "\<And>h. d_in_use D h" "a \<longrightarrow> w"
  shows "triple (mcds_at a f w r d) (restore_link D) (\<lambda>_. mcds_at False False False r d)"
  unfolding restore_link_def sense_def
  apply (rule triple_known [where c = True])
  using assms(1) apply simp
  apply (simp add: if_do_def)
  apply (rule triple_bind, rule mcds_slow)
  apply (rule triple_known [where c = w], simp add: mcds_at_def)
  using assms(2) apply (cases w; simp add: if_do_def)
   apply (rule triple_bind, rule mcds_exit, rule triple_bind, rule mcds_flags, rule mcds_div)
  apply (rule mcds_div)
  done

lemma mcds_stopped:
  assumes "\<And>h. d_in_use D h" "a \<longrightarrow> w"
  shows "triple (mcds_at a f w True d) (dap_mcds_stop D) (\<lambda>_. mcds_at False False False False d)"
proof -
  have last: "triple (mcds_at a f w False (d + 1)) (do { dap_trace_finish D; mcds_reset D; restore_link D })
      (\<lambda>_ s. \<exists>a' f' w'. mcds_at a' f' w' False (d + 1) s \<and> \<not> a' \<and> \<not> f' \<and> \<not> w')"
    apply (rule triple_bind, rule mcds_keep, intro trace_frame)
    apply (rule triple_bind, rule mcds_keep, intro trace_frame)
    apply (rule triple_post, rule mcds_restore, rule assms, rule assms, auto)
    done
  show ?thesis
    unfolding dap_mcds_stop_def
    apply (rule triple_known [where c = True], simp add: mcds_at_def)
    apply (rule triple_bind, rule mcds_flags)
    apply simp
    apply (rule triple_bind, rule mcds_keep, intro trace_frame reg_periph)
    apply (rule triple_bind, rule mcds_keep, intro trace_frame)
    apply (rule triple_bind, rule mcds_keep, intro trace_frame)
    apply (rule triple_bind, rule mcds_lock [OF last])
    apply (rule triple_return, auto)
    done
qed

text \<open>\<open>mcds_sound\<close>: the flags say what the link is, and only a running trace holds it wide or fast.\<close>

definition mcds_sound :: "'e mcds_scheme \<Rightarrow> bool" where
  "mcds_sound s \<longleftrightarrow> wide_on (hist s) = wide_active s \<and> fast_on (hist s) = s_fast s \<and> (wide_active s \<longrightarrow> s_wide s) \<and>
     (wide_active s \<or> s_fast s \<longrightarrow> mcds_running s)"

lemma triple_pure: "triple P m Q \<Longrightarrow> triple (\<lambda>s. P s \<and> b) m (\<lambda>r s. Q r s \<and> b)"
  by (cases b) (simp_all add: triple_const)

lemma mcds_link:
  "triple (mcds_at False False w r d) (session_link D cfg (info\<lparr>i_wide := False, i_fast := False\<rparr>))
     (\<lambda>info. mcds_at (i_wide info) (i_fast info) w r d)"
  unfolding session_link_def
  apply (rule triple_bind, rule mcds_keep, intro trace_frame)
  apply (rule triple_if, rule triple_return, simp)
  apply (rule triple_bind [where R = "\<lambda>info s. mcds_at (i_wide info) False w r d s \<and> \<not> i_fast info"])
   apply (rule triple_if, rule triple_bind, rule mcds_enter, rule triple_return, simp)
   apply (rule triple_return, simp)
  apply (rule triple_bind, rule triple_pure, rule mcds_div)
  apply (rule triple_if)
   apply (rule triple_bind, rule triple_pre [OF mcds_fast], erule conjunct1)
   apply (rule triple_return, simp)
  apply (rule triple_return, simp)
  done

lemma mcds_started:
  assumes use: "\<And>h. d_in_use D h"
  shows "triple (\<lambda>s. mcds_at a f w r d s \<and> (a \<longrightarrow> w) \<and> (a \<or> f \<longrightarrow> r)) (dap_mcds_start D cfg info)
    (\<lambda>(err, info) s. if err = ESP_OK then mcds_at (i_wide info) (i_fast info) (i_wide info) True d s
       else mcds_at False False False False d s)"
proof -
  let ?K = "\<lambda>w info s. mcds_at (i_wide info) (i_fast info) w False (d + 1) s"
  have snapshot: "triple (\<lambda>s. mcds_at a f w False (d + 1) s \<and> (i_wide info = a \<and> i_fast info = f)) (take_snapshot D cfg info)
      (\<lambda>info s. mcds_at a f w False (d + 1) s \<and> (i_wide info = a \<and> i_fast info = f))" for a f w info
    unfolding take_snapshot_def
  proof (rule triple_for_acc)
    fix j :: nat and info
    show "triple (\<lambda>s. mcds_at a f w False (d + 1) s \<and> (i_wide info = a \<and> i_fast info = f)) (snapshot_slot D cfg j info)
        (\<lambda>info s. mcds_at a f w False (d + 1) s \<and> (i_wide info = a \<and> i_fast info = f))"
      unfolding snapshot_slot_def
      apply (rule triple_let, rule triple_let, rule triple_if, rule triple_return, simp)
      apply (rule triple_let, rule triple_case_prod)
      apply (rule triple_bind, rule triple_pure, rule mcds_keep, rule trace_snapshot)
      apply (rule triple_case_prod, rule triple_return, simp)
      done
  qed
  have arm: "triple (mcds_at (i_wide info) (i_fast info) w False (d + 1)) (arm_trace D cfg info)
      (\<lambda>x s. mcds_at (i_wide info) (i_fast info) w False (d + 1) s \<and> (i_wide (snd x) = i_wide info \<and> i_fast (snd x) = i_fast info))" for w info
    unfolding arm_trace_def
    apply (rule triple_bind, rule mcds_keep, intro trace_frame)
    apply (rule triple_bind, rule mcds_keep, intro trace_frame)
    apply (rule triple_bind, rule mcds_keep, intro trace_frame)
    apply (rule triple_bind [where R = "\<lambda>x s. mcds_at (i_wide info) (i_fast info) w False (d + 1) s \<and>
        (i_wide (snd x) = i_wide info \<and> i_fast (snd x) = i_fast info)"])
     apply (rule triple_if)
      apply (rule triple_bind, rule mcds_keep, intro trace_frame)
      apply (rule triple_bind, rule triple_pre [OF snapshot], simp)
      apply (rule triple_bind, rule triple_pure, rule mcds_keep, intro trace_frame)
      apply (rule triple_case_prod)
      apply (rule triple_bind, rule triple_pure, rule mcds_keep, intro trace_frame reg_periph)
      apply (rule triple_bind, rule triple_pure, rule mcds_keep, intro trace_frame reg_periph)
      apply (rule triple_return, simp)
     apply (rule triple_return, simp)
    apply (rule triple_case_prod)
    apply (rule triple_bind, rule triple_pure, rule mcds_keep, intro trace_frame)
    apply (rule triple_return, simp)
    done
  let ?L = "with_lock (do {
       info \<leftarrow> session_link D cfg (info\<lparr>i_wide := False, i_fast := False\<rparr>);
       modify (\<lambda>s. s\<lparr>s_wide := i_wide info\<rparr>);
       arm_trace D cfg info })"
  let ?A = "\<lambda>x s. \<exists>a f w. mcds_at a f w False d s \<and> (w = a \<and> a = i_wide (snd x) \<and> f = i_fast (snd x))"
  have armed: "triple (mcds_at False False w False d) ?L ?A" for w
    apply (rule mcds_lock)
    apply (rule triple_bind, rule mcds_link, rule triple_bind, rule mcds_flags, rule triple_post, rule arm)
    apply blast
    done
  have rest: "triple (?A (err, info)) (if err \<noteq> ESP_OK then do { restore_link D; ret (err, info) }
      else do { modify (\<lambda>s. s\<lparr>mcds_running := True\<rparr>); ret (ESP_OK, info) })
     (\<lambda>(err, info) s. if err = ESP_OK then mcds_at (i_wide info) (i_fast info) (i_wide info) True d s
       else mcds_at False False False False d s)" for err info
    apply (rule triple_pre [where P' = "mcds_at (i_wide info) (i_fast info) (i_wide info) False d"])
     apply (rule triple_if)
      apply (rule triple_bind, rule mcds_restore, rule use, simp)
      apply (rule triple_return, simp)
     apply (rule triple_bind, rule mcds_flags, rule triple_return, simp)
    apply auto
    done
  have before: "triple (\<lambda>s. mcds_at a f w r d s \<and> (a \<longrightarrow> w) \<and> (a \<or> f \<longrightarrow> r)) (if_do r (do { dap_mcds_stop D; skip }))
      (\<lambda>_ s. \<exists>w. mcds_at False False w False d s)"
  proof (cases r)
    case True
    have "triple (\<lambda>s. mcds_at a f w True d s \<and> (a \<longrightarrow> w)) (do { dap_mcds_stop D; skip }) (\<lambda>_ s. \<exists>w. mcds_at False False w False d s)"
      by (cases "a \<longrightarrow> w")
        (auto intro!: triple_bind [OF mcds_stopped [OF use]] triple_return simp: triple_const)
    then show ?thesis using True by (simp add: if_do_def)
  next
    case False
    then show ?thesis by (auto simp: if_do_def intro!: triple_return)
  qed
  show ?thesis
    unfolding dap_mcds_start_def
    apply (rule triple_bind, rule triple_gets, assumption)
    apply (rule triple_bind, rule triple_if_do)
      apply (rule triple_pure, rule triple_bind, rule mcds_keep, intro trace_frame, rule mcds_flags)
     apply assumption
    apply (rule triple_known [where c = r], simp add: mcds_at_def)
    apply (rule triple_bind [where R = "\<lambda>_ s. \<exists>w. mcds_at False False w False d s"])
     apply (rule before)
    apply (rule triple_ex, rule triple_bind, rule armed, rule triple_case_prod)
    apply (simp only: rest)
    done
qed

text \<open>C32: the trace session and the link stay in step, provided the fabric owns the link throughout and the session
  starts from a state in which the flags say what the link is and only a running trace holds it wide or fast
  (\<open>mcds_sound\<close>, which the first state satisfies and both operations keep). Then starting a trace, whatever the target
  answers, either succeeds, with the fabric in exactly the wide and fast modes it reports, or leaves it narrow and slow;
  stopping always does; and both give the lock back as deep as they found it.\<close>

theorem mcds_session:
  fixes s :: "'e mcds_scheme"
  assumes "\<And>h. d_in_use D h" "mcds_sound s"
  shows "let (err, info') = result (dap_mcds_start D cfg info) s; s' = final (dap_mcds_start D cfg info) s;
             s'' = final (dap_mcds_stop D) s
    in mcds_sound s' \<and> mcds_running s' = (err = ESP_OK) \<and>
       (if err = ESP_OK then wide_on (hist s') = i_wide info' \<and> fast_on (hist s') = i_fast info' \<and>
          wide_active s' = i_wide info' \<and> s_fast s' = i_fast info'
        else \<not> wide_on (hist s') \<and> \<not> fast_on (hist s')) \<and>
       mcds_sound s'' \<and> \<not> mcds_running s'' \<and> \<not> wide_on (hist s'') \<and> \<not> fast_on (hist s'') \<and>
       lock_depth (hist s') = lock_depth (hist s) \<and> lock_depth (hist s'') = lock_depth (hist s)"
proof -
  let ?at = "mcds_at (wide_active s) (s_fast s) (s_wide s) (mcds_running s) (lock_depth (hist s))"
  have at: "?at s \<and> (wide_active s \<longrightarrow> s_wide s) \<and> (wide_active s \<or> s_fast s \<longrightarrow> mcds_running s)"
    using assms(2) by (auto simp: mcds_sound_def mcds_at_def linked_def)
  obtain err info' where r: "result (dap_mcds_start D cfg info) s = (err, info')" by (cases "result (dap_mcds_start D cfg info) s")
  let ?s' = "final (dap_mcds_start D cfg info) s" and ?s'' = "final (dap_mcds_stop D) s"
  have start: "if err = ESP_OK then mcds_at (i_wide info') (i_fast info') (i_wide info') True (lock_depth (hist s)) ?s'
       else mcds_at False False False False (lock_depth (hist s)) ?s'"
    using triple_final [OF mcds_started [OF assms(1)] at, of cfg info] by (simp add: r)
  have "mcds_at False False (s_wide ?s'') False (lock_depth (hist s)) ?s''"
  proof (cases "mcds_running s")
    case True
    then show ?thesis
      using triple_final [OF mcds_stopped [OF assms(1)], of "wide_active s" "s_wide s" "s_fast s" _ s] at
      by (simp add: mcds_at_def)
  next
    case False
    then show ?thesis using at assms(2) by (auto simp: dap_mcds_stop_def final_def mcds_at_def linked_def)
  qed
  with start show ?thesis
    by (auto simp: r Let_def mcds_sound_def mcds_at_def linked_def split: if_splits)
qed

definition mcds0 :: mcds where
  "mcds0 = trace.extend trace0 \<lparr>mcds_running = False, s_wide = False, s_watch = False\<rparr>"

lemma mcds_session_witness:
  "\<forall>info. \<not> mcds_running (final (dap_mcds_stop (good_dev 0)) (final (dap_mcds_start (good_dev 0) dap_mcds_default_config info) mcds0))"
proof
  fix info
  have use: "d_in_use (good_dev 0) h" for h by (simp add: good_dev_def)
  have "mcds_sound mcds0"
    by (simp add: mcds_sound_def mcds0_def trace0_def wide0_def tc0_def trace.defs wide.defs tricore.defs)
  then have "mcds_sound (final (dap_mcds_start (good_dev 0) dap_mcds_default_config info) mcds0)"
    using mcds_session [OF use, of mcds0 dap_mcds_default_config info] by (auto simp: Let_def split: prod.splits)
  then show "\<not> mcds_running (final (dap_mcds_stop (good_dev 0)) (final (dap_mcds_start (good_dev 0) dap_mcds_default_config info) mcds0))"
    using mcds_session [OF use, of _ dap_mcds_default_config info] by (auto simp: Let_def split: prod.splits)
qed

end
