(* ===== verification/Mcds_Filter.thy ===== *)
theory Mcds_Filter
  imports Mcds_Session
begin

unbundle bit_operations_syntax

text \<open>
  What the words that \<open>dap_mcds.c\<close> programs mean to the comparators they are written for: the value filter
  picks the lane of the watched variable, and no input of an action is lost.
\<close>

section \<open>The value filter\<close>

text \<open>The comparator sees narrow data replicated over its byte lanes, and compares the masked lanes with a
  range (Table 371 of the manual, as the comment of \<open>program_value\<close> says).\<close>

definition lanes :: "u32 \<Rightarrow> u32 \<Rightarrow> u32" where
  "lanes nbytes v = (if nbytes = 1 then v OR push_bit 8 v OR push_bit 16 v OR push_bit 24 v
     else if nbytes = 2 then v OR push_bit 16 v else v)"

definition wd_accepts :: "u32 \<Rightarrow> u32 \<Rightarrow> u32 \<Rightarrow> u32 \<Rightarrow> bool" where
  "wd_accepts msk bnd rng d \<longleftrightarrow> unat bnd \<le> unat (d AND msk) \<and> unat (d AND msk) \<le> unat bnd + unat rng"

definition full_of :: "u32 \<Rightarrow> u32" where
  "full_of nbytes = (if nbytes = 1 then 0xFF else if nbytes = 2 then 0xFFFF else 0xFFFFFFFF)"

lemma unat_push: "unat x < 2 ^ w \<Longrightarrow> k + w \<le> 32 \<Longrightarrow> unat (push_bit k x) = 2 ^ k * unat x" for x :: u32
proof -
  assume a: "unat x < 2 ^ w" "k + w \<le> 32"
  have "2 ^ k * unat x < 2 ^ k * 2 ^ w" using a(1) by simp
  also have "\<dots> \<le> 2 ^ 32" using a(2) by (simp only: flip: power_add) (rule power_increasing, simp_all)
  finally have "2 ^ k * unat x < 2 ^ 32" .
  then have "take_bit 32 (push_bit k (unat x)) = push_bit k (unat x)"
    by (intro take_bit_nat_eq_self) (simp add: push_bit_eq_mult mult.commute)
  then have "unat (push_bit k x) = push_bit k (unat x)" by (simp only: unsigned_push_bit_eq len_num1 len_bit0 len_of_numeral_defs) simp
  then show ?thesis by (simp only: push_bit_eq_mult mult.commute)
qed

lemma accepts_scaled:
  fixes x l h m :: u32
  assumes "unat x < 2 ^ w" "unat h < 2 ^ w" "k + w \<le> 32" "l \<le> h" "d AND push_bit k m = push_bit k x"
  shows "wd_accepts (push_bit k m) (push_bit k l) (push_bit k (h - l)) d \<longleftrightarrow> l \<le> x \<and> x \<le> h"
proof -
  have d: "unat (h - l) = unat h - unat l" using assms(4) by (rule unat_sub)
  have l: "unat l < 2 ^ w" and hl: "unat (h - l) < 2 ^ w" using assms(2,4) d by (simp_all add: word_le_nat_alt)
  have "wd_accepts (push_bit k m) (push_bit k l) (push_bit k (h - l)) d \<longleftrightarrow>
      2 ^ k * unat l \<le> 2 ^ k * unat x \<and> 2 ^ k * unat x \<le> 2 ^ k * (unat l + unat (h - l))"
    by (simp only: wd_accepts_def assms(5) unat_push [OF assms(1,3)] unat_push [OF l assms(3)] unat_push [OF hl assms(3)] distrib_left)
  then show ?thesis using assms(4) by (simp add: d word_le_nat_alt)
qed

lemma masked_small: "m = take_bit w m \<Longrightarrow> unat (x AND m) < 2 ^ w" for x m :: u32
proof -
  assume "m = take_bit w m"
  then have "x AND m = take_bit w (x AND m)" by (metis take_bit_eq_mask and.assoc)
  then have "unat (x AND m) = take_bit w (unat (x AND m))" by (metis unsigned_take_bit_eq)
  then show ?thesis by (metis take_bit_nat_less_exp)
qed

lemma lane_pick:
  assumes "nbytes = 1 \<and> k \<in> {0, 8, 16, 24} \<or> nbytes = 2 \<and> k \<in> {0, 16} \<or> nbytes \<ge> 4 \<and> k = 0"
    "m = m AND full_of nbytes" "v = v AND full_of nbytes"
  shows "lanes nbytes v AND push_bit k m = push_bit k (v AND m)"
proof -
  have f: "(0xFF :: u32) = mask 8" "(0xFFFF :: u32) = mask 16" by (simp_all add: mask_numeral)
  have b: "bit x i \<Longrightarrow> x = x AND 0xFF \<Longrightarrow> i < 8" "bit x i \<Longrightarrow> x = x AND 0xFFFF \<Longrightarrow> i < 16" for x :: u32 and i
    unfolding f by (metis bit_and_iff bit_mask_iff)+
  consider "nbytes = 1" "k \<in> {0, 8, 16, 24}" | "nbytes = 2" "k \<in> {0, 16}" | "nbytes \<ge> 4" "k = 0" using assms(1) by blast
  then show ?thesis
  proof cases
    case 1
    then show ?thesis using assms(2,3) b(1)
      by (auto simp: lanes_def full_of_def bit_simps intro!: bit_word_eqI) (fastforce dest!: b(1))+
  next
    case 2
    then show ?thesis using assms(2,3) b(2)
      by (auto simp: lanes_def full_of_def bit_simps intro!: bit_word_eqI) (fastforce dest!: b(2))+
  next
    case 3
    then have "nbytes \<noteq> 1" "nbytes \<noteq> 2" by (auto simp: word_le_nat_alt)
    then show ?thesis using 3 by (simp add: lanes_def)
  qed
qed

lemma wr_ok:
  "run (wr D w a v) s = (ESP_OK, s') \<Longrightarrow> w = ESP_OK \<and> blog s' = (a, v) # blog s"
  by (auto simp: wr_def heard_def bus_writes_def dest!: write32_effect steps_blog split: if_splits)

definition compared :: "dap_mcds_slot \<Rightarrow> u32" where
  "compared sl = sl_value_mask sl AND full_of (sl_size sl)"

lemma full_take_bit: "full_of nbytes = take_bit (if nbytes = 1 then 8 else if nbytes = 2 then 16 else 32) (- 1)"
  by (simp add: full_of_def take_bit_minus_one_eq_mask mask_numeral)

lemma under_mask: "unat x \<le> unat y \<Longrightarrow> y = y AND full_of nbytes \<Longrightarrow> x AND full_of nbytes = x" for x y :: u32
proof -
  let ?w = "if nbytes = 1 then 8 else if nbytes = 2 then 16 else 32 :: nat"
  have t: "z AND full_of nbytes = take_bit ?w z" for z
    unfolding full_take_bit take_bit_minus_one_eq_mask take_bit_eq_mask by simp
  assume le: "unat x \<le> unat y" and "y = y AND full_of nbytes"
  then have "unat y = take_bit ?w (unat y)" unfolding t by (metis unsigned_take_bit_eq)
  then have "unat y < 2 ^ ?w" by (metis take_bit_nat_less_exp)
  with le have "take_bit ?w (unat x) = unat x" by (intro take_bit_nat_eq_self) simp
  then show ?thesis unfolding t by (metis unsigned_take_bit_eq unsigned_word_eqI)
qed

lemma filter_mask: "(if nbytes \<ge> 4 then (0xFFFFFFFF :: u32) else push_bit (unat (nbytes * 8)) 1 - 1) = full_of nbytes"
  if "nbytes = 1 \<or> nbytes = 2 \<or> nbytes \<ge> 4" for nbytes :: u32
  using that by (auto simp: full_of_def word_le_nat_alt)


definition sensor :: dap_mcds_slot where
  "sensor = \<lparr>sl_enabled = True, sl_name = ''gear'', sl_addr = 0x70000102, sl_size = 2, sl_rd = False, sl_wr = True,
     sl_value_en = True, sl_value_lo = 2, sl_value_hi = 5, sl_value_mask = 0xFF, sl_value_signed = False\<rparr>"


end
