(* ===== verification/Flash_Dmu.thy ===== *)
theory Flash_Dmu
  imports Mcds_Session Flash_Api "HOL-Library.Signed_Division"
begin

unbundle bit_operations_syntax

text \<open>
  The geometry of the program flash and the DMU's command interface (\<open>tricore_flash.c\<close>, first part, and
  \<open>tricore_flash_priv.h\<close>): the state of the flasher, which addresses are program flash, the command cycles, and
  the erase of a list of sectors in runs. A message of the status is kept as its format and arguments; what
  \<open>snprintf\<close> makes of them is not modelled.
\<close>

section \<open>Constants\<close>

definition CSI_BASE :: u32 where "CSI_BASE = 0xAF000000"
definition CYCLE_5554 :: u32 where "CYCLE_5554 = 0x5554"
definition CYCLE_55F0 :: u32 where "CYCLE_55F0 = 0x55F0"
definition CYCLE_AA50 :: u32 where "CYCLE_AA50 = 0xAA50"
definition CYCLE_AA58 :: u32 where "CYCLE_AA58 = 0xAA58"
definition CYCLE_AAA8 :: u32 where "CYCLE_AAA8 = 0xAAA8"
definition CMD_CLEAR_STATUS :: u32 where "CMD_CLEAR_STATUS = 0xFA"
definition CMD_ERASE_SETUP :: u32 where "CMD_ERASE_SETUP = 0x80"
definition CMD_ERASE :: u32 where "CMD_ERASE = 0x50"
definition CMD_ENTER_PAGE_PFLASH :: u32 where "CMD_ENTER_PAGE_PFLASH = 0x50"
definition DMU_HF_STATUS :: u32 where "DMU_HF_STATUS = 0xF8040010"
definition DMU_HF_ERRSR :: u32 where "DMU_HF_ERRSR = 0xF8040034"
definition DMU_HF_PCONTROL :: u32 where "DMU_HF_PCONTROL = 0xF8040064"
definition STATUS_BUSY :: u32 where "STATUS_BUSY = 0x3F"
definition STATUS_PFPAGE :: u32 where "STATUS_PFPAGE = push_bit 21 1"
definition ERRSR_FAILED :: u32 where "ERRSR_FAILED = 0x1F"
definition CPU0_FLASHCON0 :: u32 where "CPU0_FLASHCON0 = 0xF8801100"
definition FLASHCON0_NO_PREFETCH :: u32 where "FLASHCON0_NO_PREFETCH = 0x3F3F3F3F"
definition PCONTROL_DEMAND :: u32 where "PCONTROL_DEMAND = push_bit 10 3"
definition SCU_WDTS_CON0 :: u32 where "SCU_WDTS_CON0 = 0xF00362A8"
definition SCU_CHIPID :: u32 where "SCU_CHIPID = 0xF0036140"
definition PFLASH_BASE :: u32 where "PFLASH_BASE = 0xA0000000"
definition PFLASH_CACHED :: u32 where "PFLASH_CACHED = 0x80000000"
definition PFLASH_WINDOW :: u32 where "PFLASH_WINDOW = 0x01000000"
definition SWAP_GROUP_LOW :: u32 where "SWAP_GROUP_LOW = 0xA0000000"
definition SWAP_GROUP_HIGH :: u32 where "SWAP_GROUP_HIGH = 0xA0600000"
definition SWAP_STRIDE :: u32 where "SWAP_STRIDE = SWAP_GROUP_HIGH - SWAP_GROUP_LOW"
definition SWAP_ACTIVE_REG :: u32 where "SWAP_ACTIVE_REG = 0xF003614C"
definition SWAP_ACTIVE_MASK :: u32 where "SWAP_ACTIVE_MASK = 3"
definition SWAP_ACTIVE_VAL :: u32 where "SWAP_ACTIVE_VAL = 2"
definition NEVER_PROGRAM :: "(u32 \<times> u32) list" where
  "NEVER_PROGRAM = [(0xAF400000, 0xAF406000), (0xAF800000, 0xAF810000)]"
definition MAX_SECTORS :: nat where "MAX_SECTORS = 768"
definition ERASE_RUN_MAX :: nat where "ERASE_RUN_MAX = 32"
definition PHYSICAL_SECTOR :: u32 where "PHYSICAL_SECTOR = 0x00100000"
definition ERRSR_SQER :: u32 where "ERRSR_SQER = push_bit 1 1"
definition FLASH_DAP_DIV :: u8 where "FLASH_DAP_DIV = 0"
definition ATTACH_DAP_DIV :: u8 where "ATTACH_DAP_DIV = 5"

lemmas csi_consts = CSI_BASE_def CYCLE_5554_def CYCLE_55F0_def CYCLE_AA50_def CYCLE_AA58_def CYCLE_AAA8_def
  CMD_CLEAR_STATUS_def CMD_ERASE_SETUP_def CMD_ERASE_def CMD_ENTER_PAGE_PFLASH_def
lemmas dmu_consts = DMU_HF_STATUS_def DMU_HF_ERRSR_def DMU_HF_PCONTROL_def STATUS_BUSY_def STATUS_PFPAGE_def
  ERRSR_FAILED_def CPU0_FLASHCON0_def FLASHCON0_NO_PREFETCH_def PCONTROL_DEMAND_def SCU_WDTS_CON0_def SCU_CHIPID_def
lemmas geometry_consts = PFLASH_BASE_def PFLASH_CACHED_def PFLASH_WINDOW_def SWAP_GROUP_LOW_def SWAP_GROUP_HIGH_def
  SWAP_STRIDE_def NEVER_PROGRAM_def MAX_SECTORS_def ERASE_RUN_MAX_def PHYSICAL_SECTOR_def

section \<open>State\<close>

type_synonym flash_msg = "string \<times> u32 list"

record tricore_flash_status =
  fs_phase :: tricore_flash_phase
  fs_total_bytes :: u32
  fs_done_bytes :: u32
  fs_sectors :: u32
  fs_sectors_done :: u32
  fs_sectors_skipped :: u32
  fs_elapsed_ms :: u32
  fs_compare_ms :: u32
  fs_erase_ms :: u32
  fs_write_ms :: u32
  fs_loader_ms :: u32
  fs_bursts :: u32
  fs_op_us_max :: u32
  fs_errsr :: u32
  fs_verified :: bool
  fs_ucb :: tricore_flash_ucb_outcome
  fs_message :: flash_msg

text \<open>\<open>memset(&tricore_flash_status, 0, ...)\<close>.\<close>

definition status_zero :: tricore_flash_status where
  "status_zero = \<lparr>fs_phase = TRICORE_FLASH_IDLE, fs_total_bytes = 0, fs_done_bytes = 0, fs_sectors = 0,
     fs_sectors_done = 0, fs_sectors_skipped = 0, fs_elapsed_ms = 0, fs_compare_ms = 0, fs_erase_ms = 0,
     fs_write_ms = 0, fs_loader_ms = 0, fs_bursts = 0, fs_op_us_max = 0, fs_errsr = 0, fs_verified = False,
     fs_ucb = TRICORE_FLASH_UCB_OFF, fs_message = ('''', [])\<rparr>"

record flash = mcds +
  use_blockwrite :: bool
  flash_status :: tricore_flash_status
  started_us :: int
  layout :: "(u32 \<times> u32) list"        \<comment> \<open>the first \<open>s_layout_count\<close> ranges of \<open>s_layout\<close>\<close>
  multi_erase :: bool
  session_locked :: bool
  flash_active :: bool
  differential :: bool
  ucb_wanted :: "tricore_ucb_image option"   \<comment> \<open>\<open>s_ucb\<close>\<close>
  installed :: bool
  swap_active :: bool
  saved_valid :: bool
  saved_flashcon0 :: u32
  saved_pcontrol :: u32
  stm_hz :: u32

definition fstat :: "(tricore_flash_status \<Rightarrow> tricore_flash_status) \<Rightarrow> ('e flash_scheme, unit) state" where
  "fstat f = modify (\<lambda>s. s\<lparr>flash_status := f (flash_status s)\<rparr>)"

text \<open>\<open>(uint32_t)((to - since) / 1000)\<close>, the division of C.\<close>

definition ms_between :: "int \<Rightarrow> int \<Rightarrow> u32" where
  "ms_between since to = of_int ((to - since) sdiv 1000)"

definition tricore_flash_set_blockwrite :: "bool \<Rightarrow> ('e flash_scheme, unit) state" where
  "tricore_flash_set_blockwrite enable = modify (\<lambda>s. s\<lparr>use_blockwrite := enable\<rparr>)"

definition tricore_flash_set_phase ::
  "dev \<Rightarrow> tricore_flash_phase \<Rightarrow> flash_msg option \<Rightarrow> ('e flash_scheme, unit) state" where
  "tricore_flash_set_phase D phase message = do {
     fstat (\<lambda>f. f\<lparr>fs_phase := phase\<rparr>);
     (case message of None \<Rightarrow> skip | Some m \<Rightarrow> fstat (\<lambda>f. f\<lparr>fs_message := m\<rparr>));
     now \<leftarrow> esp_timer_get_time D;
     since \<leftarrow> gets started_us;
     fstat (\<lambda>f. f\<lparr>fs_elapsed_ms := ms_between since now\<rparr>) }"

definition tricore_flash_get_status :: "('e flash_scheme, tricore_flash_status) state" where
  "tricore_flash_get_status = gets flash_status"

text \<open>\<open>fail\<close> of \<open>tricore_flash.c\<close> and of \<open>tricore_flash_loader.c\<close>.\<close>

definition flash_fail :: "dev \<Rightarrow> string \<Rightarrow> u32 list \<Rightarrow> ('e flash_scheme, esp_err) state" where
  "flash_fail D fmt args = do {
     tricore_flash_set_phase D TRICORE_FLASH_FAILED (Some (fmt, args));
     ret ESP_FAIL }"

section \<open>Geometry\<close>

definition tricore_flash_layout :: "dev \<Rightarrow> ('e flash_scheme, nat) state" where
  "tricore_flash_layout D = do {
     modify (\<lambda>s. s\<lparr>layout := []\<rparr>);
     (err, chipid) \<leftarrow> dap_probe_read32 D SCU_CHIPID 0;
     if_do (err = ESP_OK) (
       let fsize = drop_bit 24 chipid AND 0xF
       in if fsize = 0xC then modify (\<lambda>s. s\<lparr>layout := [(0xA0000000, 0xA0A00000)]\<rparr>)
          else if fsize = 0xB
          then modify (\<lambda>s. s\<lparr>layout := [(0xA0000000, 0xA0400000), (0xA0600000, 0xA0A00000)]\<rparr>)
          else skip);
     gets (\<lambda>s. length (layout s)) }"

definition tricore_flash_to_physical :: "u32 \<Rightarrow> u32" where
  "tricore_flash_to_physical address =
     (if address \<ge> PFLASH_CACHED \<and> address < PFLASH_CACHED + PFLASH_WINDOW
      then address - PFLASH_CACHED + PFLASH_BASE else address)"

definition in_ranges :: "(u32 \<times> u32) list \<Rightarrow> u32 \<Rightarrow> bool" where
  "in_ranges rs address \<longleftrightarrow> (\<exists>r \<in> set rs. address \<ge> fst r \<and> address < snd r)"

definition tricore_flash_is_never :: "u32 \<Rightarrow> bool" where
  "tricore_flash_is_never address = in_ranges NEVER_PROGRAM address"

definition is_program_flash :: "u32 \<Rightarrow> 'e flash_scheme \<Rightarrow> bool" where
  "is_program_flash address s =
     (let physical = tricore_flash_to_physical address
      in if tricore_flash_is_never physical then False else in_ranges (layout s) physical)"

text \<open>\<open>command_address\<close>, with the swap as an argument.\<close>

definition swapped :: "bool \<Rightarrow> u32 \<Rightarrow> u32" where
  "swapped active address =
     (let a = tricore_flash_to_physical address
      in if \<not> active then a
         else if a \<ge> SWAP_GROUP_LOW \<and> a < SWAP_GROUP_HIGH then a + SWAP_STRIDE
         else if a \<ge> SWAP_GROUP_HIGH \<and> a < SWAP_GROUP_HIGH + SWAP_STRIDE then a - SWAP_STRIDE
         else a)"

definition command_address :: "u32 \<Rightarrow> 'e flash_scheme \<Rightarrow> u32" where
  "command_address address s = swapped (swap_active s) address"

section \<open>The command interface\<close>

definition csi_cycle :: "dev \<Rightarrow> u32 \<Rightarrow> u32 \<Rightarrow> ('e flash_scheme, esp_err) state" where
  "csi_cycle D offset v = dap_probe_write32 D (CSI_BASE + offset) v"

definition clear_status :: "dev \<Rightarrow> ('e flash_scheme, esp_err) state" where
  "clear_status D = csi_cycle D CYCLE_5554 CMD_CLEAR_STATUS"

definition tricore_flash_wait_idle :: "dev \<Rightarrow> u32 \<Rightarrow> u32 \<Rightarrow> ('e flash_scheme, esp_err) state" where
  "tricore_flash_wait_idle D address timeout_ms = do {
     now \<leftarrow> esp_timer_get_time D;
     r \<leftarrow> poll D (d_polls D) (now + uint timeout_ms * 1000) 10
       (do { (err, status) \<leftarrow> dap_probe_read32 D DMU_HF_STATUS 0;
             ret (if err = ESP_OK \<and> status AND STATUS_BUSY = 0 then Some () else None) });
     if r = None then ret ESP_ERR_TIMEOUT
     else do {
       (err, errsr) \<leftarrow> dap_probe_read32 D DMU_HF_ERRSR 0;
       clear_status D;
       if err = ESP_OK \<and> errsr AND ERRSR_FAILED \<noteq> 0 then do {
         fstat (\<lambda>f. f\<lparr>fs_errsr := errsr\<rparr>);
         ret ESP_FAIL }
       else ret ESP_OK } }"

definition tricore_flash_clear_safety_endinit :: "dev \<Rightarrow> ('e flash_scheme, esp_err) state" where
  "tricore_flash_clear_safety_endinit D = do {
     (err, con0) \<leftarrow> dap_probe_read32 D SCU_WDTS_CON0 0;
     if err \<noteq> ESP_OK then ret ESP_FAIL
     else do {
       let password = con0 AND 0xFFFFFFFC;
       err \<leftarrow> dap_probe_write32 D SCU_WDTS_CON0 (password XOR 0xFD);
       if err \<noteq> ESP_OK then ret ESP_FAIL
       else do {
         (err, ignored) \<leftarrow> dap_probe_read32 D SCU_WDTS_CON0 0;
         if err \<noteq> ESP_OK then ret ESP_FAIL
         else do {
           err \<leftarrow> dap_probe_write32 D SCU_WDTS_CON0 (password OR 2);
           if err \<noteq> ESP_OK then ret ESP_FAIL
           else do {
             (err, back) \<leftarrow> dap_probe_read32 D SCU_WDTS_CON0 0;
             ret (if err \<noteq> ESP_OK \<or> back AND 1 \<noteq> 0 then ESP_FAIL else ESP_OK) } } } } }"

definition tricore_flash_check_swap :: "dev \<Rightarrow> ('e flash_scheme, unit) state" where
  "tricore_flash_check_swap D = do {
     (err, active) \<leftarrow> dap_probe_read32 D SWAP_ACTIVE_REG 0;
     modify (\<lambda>s. s\<lparr>swap_active := (err = ESP_OK \<and> active AND SWAP_ACTIVE_MASK = SWAP_ACTIVE_VAL)\<rparr>) }"

definition tricore_flash_safe_shutdown :: "dev \<Rightarrow> ('e flash_scheme, unit) state" where
  "tricore_flash_safe_shutdown D = do {
     clear_status D;
     saved \<leftarrow> gets saved_valid;
     if_do saved (do {
       flashcon0 \<leftarrow> gets saved_flashcon0;
       dap_probe_write32 D CPU0_FLASHCON0 flashcon0;
       pcontrol \<leftarrow> gets saved_pcontrol;
       dap_probe_write32 D DMU_HF_PCONTROL pcontrol;
       skip }) }"

text \<open>A chain of cycles, each of which must succeed.\<close>

definition csi_cycles :: "dev \<Rightarrow> (u32 \<times> u32) list \<Rightarrow> ('e flash_scheme, esp_err) state" where
  "csi_cycles D = for_ok (\<lambda>c. csi_cycle D (fst c) (snd c))"

definition erase_range :: "dev \<Rightarrow> u32 \<Rightarrow> u32 \<Rightarrow> ('e flash_scheme, esp_err) state" where
  "erase_range D address n = do {
     command \<leftarrow> gets (command_address address);
     err \<leftarrow> csi_cycles D [(CYCLE_5554, CMD_CLEAR_STATUS), (CYCLE_AA50, command), (CYCLE_AA58, n),
       (CYCLE_AAA8, CMD_ERASE_SETUP), (CYCLE_AAA8, CMD_ERASE)];
     if err \<noteq> ESP_OK then ret ESP_FAIL
     else do {
       err \<leftarrow> tricore_flash_wait_idle D command 5000;
       if err \<noteq> ESP_OK then ret ESP_FAIL else clear_status D } }"

definition erase_sector :: "dev \<Rightarrow> u32 \<Rightarrow> ('e flash_scheme, esp_err) state" where
  "erase_sector D address = erase_range D address 1"

text \<open>How many sectors one command takes: the condition of the inner loop over the sectors that follow.\<close>

primrec erase_run :: "bool \<Rightarrow> bool \<Rightarrow> u32 \<Rightarrow> u32 list \<Rightarrow> nat \<Rightarrow> nat" where
  "erase_run multi swap start [] n = n"
| "erase_run multi swap start (x # xs) n =
     (let next = start + of_nat n * TRICORE_FLASH_SECTOR
      in if multi \<and> n < ERASE_RUN_MAX \<and> swapped swap x = next \<and>
            start AND NOT (PHYSICAL_SECTOR - 1) = next AND NOT (PHYSICAL_SECTOR - 1)
         then erase_run multi swap start xs (n + 1) else n)"

function erase_sectors :: "dev \<Rightarrow> u32 list \<Rightarrow> ('e flash_scheme, esp_err) state" where
  "erase_sectors D [] = ret ESP_OK"
| "erase_sectors D (x # xs) = do {
     t0 \<leftarrow> esp_timer_get_time D;
     n \<leftarrow> gets (\<lambda>s. erase_run (multi_erase s) (swap_active s) (command_address x s) xs 1);
     err \<leftarrow> erase_range D x (of_nat n);
     errsr \<leftarrow> gets (\<lambda>s. fs_errsr (flash_status s));
     (n, err) \<leftarrow> (if err \<noteq> ESP_OK \<and> n > 1 \<and> errsr AND ERRSR_SQER \<noteq> 0 then do {
         modify (\<lambda>s. s\<lparr>multi_erase := False\<rparr>);
         fstat (\<lambda>f. f\<lparr>fs_errsr := 0\<rparr>);
         err \<leftarrow> erase_sector D x;
         ret (1, err) }
       else ret (n, err));
     t1 \<leftarrow> esp_timer_get_time D;
     fstat (\<lambda>f. f\<lparr>fs_erase_ms := fs_erase_ms f + ms_between t0 t1\<rparr>);
     if err \<noteq> ESP_OK then do {
       errsr \<leftarrow> gets (\<lambda>s. fs_errsr (flash_status s));
       flash_fail D ''erase of 0x%08X failed, ERRSR 0x%08X'' [x, errsr] }
     else do {
       fstat (\<lambda>f. f\<lparr>fs_sectors_done := fs_sectors_done f + of_nat n\<rparr>);
       erase_sectors D (drop (n - 1) xs) } }"
  by pat_completeness auto
termination by (relation "measure (\<lambda>(D, xs). length xs)") auto

declare erase_sectors.simps [simp del]

definition check_page_mode :: "dev \<Rightarrow> ('e flash_scheme, esp_err) state" where
  "check_page_mode D = do {
     clear_status D;
     err \<leftarrow> csi_cycle D CYCLE_5554 CMD_ENTER_PAGE_PFLASH;
     (err, status) \<leftarrow> (if err \<noteq> ESP_OK then ret (err, 0) else dap_probe_read32 D DMU_HF_STATUS 0);
     if err \<noteq> ESP_OK then ret ESP_FAIL
     else do {
       (e, errsr) \<leftarrow> dap_probe_read32 D DMU_HF_ERRSR 0;
       clear_status D;
       if status AND STATUS_PFPAGE = 0 then do {
         fstat (\<lambda>f. f\<lparr>fs_errsr := errsr\<rparr>);
         ret ESP_FAIL }
       else ret ESP_OK } }"

section \<open>CRC32\<close>

definition crc32_step :: "u32 \<Rightarrow> u32" where
  "crc32_step crc = drop_bit 1 crc XOR (0xEDB88320 AND (- (crc AND 1)))"

definition crc32_byte :: "u32 \<Rightarrow> u8 \<Rightarrow> u32" where
  "crc32_byte crc b = (crc32_step ^^ 8) (crc XOR ucast b)"

definition crc32_update :: "u32 \<Rightarrow> u8 list \<Rightarrow> u32" where
  "crc32_update = foldl crc32_byte"

definition tricore_flash_crc32 :: "u8 list \<Rightarrow> u32" where
  "tricore_flash_crc32 bytes = NOT (crc32_update 0xFFFFFFFF bytes)"

end
