(* ===== verification/Flash_Loader.thy ===== *)
theory Flash_Loader
  imports Flash_Dmu Tricore_Bp
begin

unbundle bit_operations_syntax

text \<open>
  The RAM loader (\<open>tricore_flash_loader.c\<close>): bulk writes to target RAM, bringing the link up, the reset that
  leaves every core halted, installing the stub in CPU0's scratchpad, and running one of its commands. The stub
  itself is machine code of the target: its bytes are here, what it does on the target is not.
\<close>

section \<open>Constants\<close>

definition LOADER_CODE :: u32 where "LOADER_CODE = 0x70100000"
definition LOADER_PARAMS :: u32 where "LOADER_PARAMS = 0x70000000"
definition LOADER_BUFFER :: u32 where "LOADER_BUFFER = 0x70004000"
definition LOADER_STACK :: u32 where "LOADER_STACK = 0x70038000"
definition LOADER_BUFFER_BYTES :: nat where "LOADER_BUFFER_BYTES = 32 * 1024"
definition LOADER_CMD_PROGRAM :: u32 where "LOADER_CMD_PROGRAM = 1"
definition LOADER_CMD_CHECKSUM :: u32 where "LOADER_CMD_CHECKSUM = 3"
definition LOADER_FLAG_BURST :: u32 where "LOADER_FLAG_BURST = 1"
definition LOADER_FLAG_POLL :: u32 where "LOADER_FLAG_POLL = 2"
definition LOADER_PARAM_WORDS :: nat where "LOADER_PARAM_WORDS = 14"
definition LOADER_ST_RUNNING :: u32 where "LOADER_ST_RUNNING = 0"
definition LOADER_ST_OK :: u32 where "LOADER_ST_OK = 1"
definition PROGRAM_SETTLE :: u32 where "PROGRAM_SETTLE = 12000"
definition SETTLE_MOV_MASK :: u32 where "SETTLE_MOV_MASK = 0x0FFFFFFF"
definition SETTLE_MOV_WORD :: "u32 \<Rightarrow> u32" where "SETTLE_MOV_WORD c = push_bit 12 (c AND 0xFFFF) OR 0x3B"
definition STM0_TIM0 :: u32 where "STM0_TIM0 = 0xF0001010"
definition STM0_OCS :: u32 where "STM0_OCS = 0xF00010E8"
definition STM_OCS_SUS :: u32 where "STM_OCS_SUS = push_bit 24 0xF"
definition STM_OCS_SUS_P :: u32 where "STM_OCS_SUS_P = push_bit 28 1"
definition PAGE_MAX_US :: u32 where "PAGE_MAX_US = 115"
definition BURST_MAX_US :: u32 where "BURST_MAX_US = 530"
definition POLL_FACTOR :: u32 where "POLL_FACTOR = 8"
definition POLL_START_US :: u32 where "POLL_START_US = 20"
definition CPU0_BASE :: u32 where "CPU0_BASE = 0xF8810000"
definition SWEVT_HALT :: u32 where "SWEVT_HALT = 2"
definition HALT_LINE :: int where "HALT_LINE = 1"

lemmas loader_consts = LOADER_CODE_def LOADER_PARAMS_def LOADER_BUFFER_def LOADER_STACK_def LOADER_BUFFER_BYTES_def
  LOADER_CMD_PROGRAM_def LOADER_CMD_CHECKSUM_def LOADER_PARAM_WORDS_def

definition LOADER_BLOB :: "u8 list" where
  "LOADER_BLOB = [
   0x82, 0x0F, 0xA5, 0x7F, 0x10, 0x00, 0xA5, 0x7F, 0x18, 0x00, 0xA5, 0x7F, 0x14, 0x00, 0xA5, 0x7F, 0x30, 0x00, 0xA5, 0x7F, 0x34, 0x00, 0x85, 0x7F,
   0x00, 0x00, 0x20, 0x08, 0xDF, 0x1F, 0xAC, 0x80, 0x85, 0x73, 0x0C, 0x08, 0x91, 0x00, 0xF0, 0x2A, 0x85, 0x77, 0x04, 0x00, 0x91, 0x00, 0xF0, 0x6A,
   0x91, 0x10, 0xF0, 0x7A, 0x91, 0x10, 0xF0, 0xCA, 0x91, 0x10, 0xF0, 0x4A, 0x91, 0x40, 0x80, 0x5F, 0x91, 0x40, 0x80, 0xDF, 0x85, 0x76, 0x08, 0x00,
   0x3B, 0x80, 0x00, 0x90, 0xD9, 0x22, 0x54, 0x55, 0x3B, 0xA0, 0x0F, 0x00, 0x3B, 0x00, 0x05, 0xA0, 0xD9, 0x66, 0x70, 0x75, 0xD9, 0x77, 0x90, 0x9A,
   0xD9, 0xCC, 0x98, 0x9A, 0x82, 0x0B, 0xD9, 0x44, 0xA8, 0xAA, 0x3B, 0x00, 0x0A, 0xC0, 0x3B, 0x60, 0x0A, 0xD0, 0xD9, 0x55, 0x10, 0x00, 0xD9, 0xDD,
   0x34, 0x00, 0x3B, 0x00, 0xFA, 0x10, 0xDF, 0x06, 0xA2, 0x00, 0x85, 0x7F, 0x20, 0x00, 0x82, 0x14, 0x2E, 0x09, 0x02, 0x7F, 0x16, 0xFF, 0x8B, 0x86,
   0xA0, 0x42, 0x8B, 0x0F, 0x00, 0x44, 0xAB, 0x19, 0x80, 0x44, 0x74, 0x20, 0x0D, 0x00, 0x80, 0x04, 0x74, 0x2A, 0x0D, 0x00, 0x80, 0x04, 0x8F, 0x54,
   0x00, 0x80, 0x40, 0x3F, 0x01, 0x38, 0x00, 0x36, 0x01, 0xF3, 0x20, 0xE0, 0x80, 0xE5, 0x06, 0xD5, 0x9F, 0x05, 0x03, 0x80, 0x3C, 0x08, 0x09, 0xF2,
   0x48, 0x01, 0x89, 0x62, 0x40, 0x09, 0x0D, 0x00, 0x80, 0x04, 0x3C, 0xF7, 0x74, 0x77, 0x74, 0xCB, 0x8B, 0x84, 0x00, 0x52, 0x74, 0x4C, 0xAB, 0xAD,
   0x8A, 0xF5, 0x6C, 0x40, 0x0D, 0x00, 0x80, 0x04, 0x8B, 0x84, 0x20, 0xF2, 0xEE, 0x04, 0x85, 0x73, 0x28, 0x00, 0x3C, 0x03, 0x85, 0x73, 0x24, 0x00,
   0x85, 0xF2, 0x10, 0x01, 0x85, 0x7F, 0x20, 0x00, 0x6F, 0x1F, 0x18, 0x80, 0xF6, 0x39, 0x59, 0xA1, 0x04, 0x00, 0x58, 0x01, 0x6E, 0x70, 0x58, 0x01,
   0xC2, 0xFF, 0x78, 0x01, 0x3C, 0xFB, 0x85, 0xFF, 0x10, 0x01, 0xA2, 0x2F, 0x3F, 0x3F, 0xFD, 0xFF, 0x3C, 0x66, 0x85, 0xFF, 0x10, 0x01, 0x85, 0x7E,
   0x2C, 0x00, 0xA2, 0x2F, 0x3F, 0xFE, 0x1B, 0x80, 0x4C, 0x50, 0x16, 0x3F, 0x6E, 0xF7, 0x4C, 0x50, 0x16, 0x3F, 0x6E, 0x08, 0x85, 0xFF, 0x10, 0x01,
   0xA2, 0x2F, 0x7F, 0xF3, 0xFA, 0xFF, 0x82, 0x3F, 0x3C, 0x42, 0x85, 0xFF, 0x10, 0x01, 0x52, 0x22, 0x85, 0x7F, 0x34, 0x00, 0x7F, 0x2F, 0x04, 0x80,
   0xA5, 0x72, 0x34, 0x00, 0x4C, 0xD0, 0x16, 0x1F, 0x6E, 0x0A, 0x91, 0x40, 0x80, 0xFF, 0xD9, 0xFF, 0x34, 0x00, 0x4C, 0xF0, 0xA5, 0x7F, 0x14, 0x00,
   0x82, 0x2F, 0x3C, 0x2D, 0x74, 0x20, 0x0D, 0x00, 0x80, 0x04, 0x3C, 0x39, 0x85, 0x72, 0x00, 0x00, 0x82, 0x4F, 0xDF, 0x32, 0x25, 0x80, 0x85, 0x74,
   0x04, 0x08, 0x85, 0x7F, 0x08, 0x08, 0x7B, 0x90, 0xDB, 0x3E, 0xA0, 0x03, 0x82, 0xFF, 0x1B, 0x03, 0x32, 0x38, 0xFD, 0xF0, 0x0A, 0x00, 0x46, 0x0F,
   0xA5, 0x7F, 0x1C, 0x00, 0x85, 0x7F, 0x08, 0x00, 0xA5, 0x7F, 0x18, 0x00, 0x3C, 0x0F, 0x01, 0x43, 0x10, 0x20, 0x14, 0x22, 0xA0, 0x72, 0xC6, 0x2F,
   0x8F, 0xFF, 0x1F, 0x20, 0x37, 0x0F, 0x41, 0xF0, 0x26, 0x3F, 0xC6, 0x2F, 0xFC, 0x2A, 0xB0, 0x13, 0x3C, 0xE9, 0x82, 0x1F, 0x85, 0x72, 0x14, 0x00,
   0xF6, 0x28, 0x91, 0x40, 0x80, 0xFF, 0xD9, 0xFF, 0x34, 0x00, 0x48, 0x02, 0xA5, 0x72, 0x14, 0x00, 0xA5, 0x7F, 0x10, 0x00, 0x0D, 0x00, 0x80, 0x04,
   0x00, 0xA0, 0x3C, 0x00, 0x85, 0x7F, 0x08, 0x00, 0xA2, 0x46, 0xA2, 0x6F, 0xA5, 0x7F, 0x18, 0x00, 0x42, 0x87, 0xDF, 0x05, 0x46, 0x7F, 0x85, 0x7F,
   0x30, 0x00, 0xC2, 0x1F, 0xA5, 0x7F, 0x30, 0x00, 0x1D, 0xFF, 0x3F, 0xFF]"

section \<open>Bulk writes\<close>

definition loader_le32 :: "u8 list \<Rightarrow> nat \<Rightarrow> u32" where
  "loader_le32 bs off = word32_of_bytes (bs ! off) (bs ! (off + 1)) (bs ! (off + 2)) (bs ! (off + 3))"

definition words_of :: "u8 list \<Rightarrow> u32 list" where
  "words_of bs = map (\<lambda>i. loader_le32 bs (4 * i)) [0..<length bs div 4]"

definition write_chunk :: "dev \<Rightarrow> u32 \<Rightarrow> u32 list \<Rightarrow> ('e flash_scheme, esp_err) state" where
  "write_chunk D address words = do {
     use \<leftarrow> gets use_blockwrite;
     ready \<leftarrow> sense (d_fpga_ready D);
     err \<leftarrow> (if use \<and> ready then dap_phy_fpga_block_write D address words else ret ESP_ERR_NOT_SUPPORTED);
     if err = ESP_OK then do {
       dap_probe_clear_error_state D;
       dap_probe_write32 D address (words ! 0) }
     else if err = ESP_ERR_NOT_SUPPORTED
     then for_ok (\<lambda>i. dap_probe_write32 D (address + 4 * of_nat i) (words ! i)) [0..<length words]
     else ret err }"

function write_chunks :: "dev \<Rightarrow> u32 \<Rightarrow> u8 list \<Rightarrow> ('e flash_scheme, esp_err) state" where
  "write_chunks D address bs =
     (if bs = [] then ret ESP_OK
      else do {
        let chunk = min (length bs) (4 * DAP_FPGA_BLOCK_WORDS);
        err \<leftarrow> write_chunk D address (words_of (take chunk bs));
        if err \<noteq> ESP_OK then ret err
        else write_chunks D (address + of_nat chunk) (drop chunk bs) })"
  by pat_completeness auto
termination by (relation "measure (\<lambda>(D, a, bs). length bs)") (auto simp: DAP_FPGA_BLOCK_WORDS_def)

declare write_chunks.simps [simp del]

definition tricore_flash_write_block :: "dev \<Rightarrow> u32 \<Rightarrow> u8 list \<Rightarrow> ('e flash_scheme, esp_err) state" where
  "tricore_flash_write_block D address bs =
     (if length bs mod 4 \<noteq> 0 then ret ESP_ERR_INVALID_ARG else write_chunks D address bs)"

section \<open>Link, reset, halt\<close>

definition link_up :: "dev \<Rightarrow> ('e flash_scheme, esp_err) state" where
  "link_up D = do {
     err \<leftarrow> ask EvFpgaAttach (d_err D);
     err \<leftarrow> (if err = ESP_OK then ret ESP_OK
       else do {
         emit (EvFpgaUse False);
         (err, x) \<leftarrow> dap_probe_attach D no_exchange 3;
         if err \<noteq> ESP_OK \<or> reply x \<noteq> 0xAAAAAAAA then ret ESP_ERR_INVALID_STATE
         else do {
           dap_probe_client_set D 1 x;
           ret ESP_OK } });
     if err \<noteq> ESP_OK then ret err
     else do {
       dap_probe_clear_error_state D;
       dap_probe_set_rw_mode D True;
       dap_probe_enable_ocds D } }"

primrec reset_attempts :: "dev \<Rightarrow> nat \<Rightarrow> ('e flash_scheme, bool) state" where
  "reset_attempts D 0 = ret False"
| "reset_attempts D (Suc n) = do {
     vTaskDelay 25;
     (err, dbgsr) \<leftarrow> tricore_dbgsr D 0 0;
     if err = ESP_OK then ret True
     else do {
       dap_probe_clear_error_state D;
       link_up D;
       reset_attempts D n } }"

definition tricore_flash_reset_and_halt :: "dev \<Rightarrow> ('e flash_scheme, bool) state" where
  "tricore_flash_reset_and_halt D = do {
     err \<leftarrow> tricore_set_halt_after_reset D True;
     let armed = (err = ESP_OK);
     tricore_request_application_reset D;
     back \<leftarrow> reset_attempts D 20;
     if_do armed (do { tricore_set_halt_after_reset D False; skip });
     if \<not> back then ret False
     else do {
       tricore_disarm_reset_trigger D;
       tricore_discover D;
       ret True } }"

definition halt_sibling :: "dev \<Rightarrow> int \<Rightarrow> ('e flash_scheme, unit) state" where
  "halt_sibling D core = do {
     here \<leftarrow> gets (tricore_core_ok core);
     started \<leftarrow> (if here then tricore_core_started D core else ret False);
     if_do started (do {
       tricore_halt_release D core;
       tricore_halt D core HALT_LINE 500;
       skip }) }"

definition halt_all :: "dev \<Rightarrow> ('e flash_scheme, esp_err) state" where
  "halt_all D = do {
     for_each (halt_sibling D) [1, 2, 3, 4, 5];
     tricore_halt_release D 0;
     tricore_clear_debug_events D 0;
     err \<leftarrow> tricore_halt D 0 HALT_LINE 500;
     if err \<noteq> ESP_OK then do {
       tricore_halt_diag D 0;
       flash_fail D ''CPU0 would not halt'' [] }
     else ret ESP_OK }"

section \<open>The blob\<close>

text \<open>The offsets at which the settle constant is loaded: 16-bit aligned, the whole word inside.\<close>

definition settle_sites :: "u8 list \<Rightarrow> nat list" where
  "settle_sites blob =
     filter (\<lambda>off. off + 4 \<le> length blob \<and> loader_le32 blob off AND SETTLE_MOV_MASK = SETTLE_MOV_WORD 4000)
       (map (\<lambda>k. 2 * k) [0..<length blob div 2])"

definition patch_settle :: "u8 list \<Rightarrow> nat \<Rightarrow> u8 list" where
  "patch_settle blob off =
     (let settle = (loader_le32 blob off AND NOT SETTLE_MOV_MASK) OR SETTLE_MOV_WORD PROGRAM_SETTLE
      in blob[off := byte_of_word32 settle 0, off + 1 := byte_of_word32 settle 1,
              off + 2 := byte_of_word32 settle 2, off + 3 := byte_of_word32 settle 3])"

text \<open>The buffer is the blob padded with zeros to a multiple of four.\<close>

definition blob_buffer :: "u8 list \<Rightarrow> u8 list" where
  "blob_buffer blob = blob @ replicate ((4 - length blob mod 4) mod 4) 0"

text \<open>Word-for-word read-back, from a byte offset.\<close>

definition check_blob_word :: "dev \<Rightarrow> u8 list \<Rightarrow> nat \<Rightarrow> ('e flash_scheme, esp_err) state" where
  "check_blob_word D blob i = do {
     (err, got) \<leftarrow> dap_probe_read32 D (LOADER_CODE + of_nat i) 0;
     if err \<noteq> ESP_OK \<or> got \<noteq> loader_le32 blob i
     then flash_fail D ''loader readback +0x%02X: 0x%08X not 0x%08X'' [of_nat i, got, loader_le32 blob i]
     else ret ESP_OK }"

definition load_blob :: "dev \<Rightarrow> ('e flash_scheme, esp_err) state" where
  "load_blob D =
     (case settle_sites LOADER_BLOB of
        [] \<Rightarrow> flash_fail D ''loader blob: settle constant not found'' []
      | [off] \<Rightarrow> do {
          let blob = patch_settle (blob_buffer LOADER_BLOB) off;
          err \<leftarrow> tricore_flash_write_block D LOADER_CODE blob;
          if err \<noteq> ESP_OK then flash_fail D ''could not write the loader to PSPR'' []
          else for_ok (\<lambda>k. check_blob_word D blob (4 * k)) [0..<length blob div 4] }
      | _ \<Rightarrow> flash_fail D ''loader blob: settle constant found twice'' [])"

section \<open>The System Timer\<close>

definition measure_stm_hz :: "dev \<Rightarrow> ('e flash_scheme, u32) state" where
  "measure_stm_hz D = do {
     (err, ocs) \<leftarrow> dap_probe_read32 D STM0_OCS 0;
     let suspended = (err = ESP_OK \<and> ocs AND STM_OCS_SUS \<noteq> 0);
     if_do suspended (do { dap_probe_write32 D STM0_OCS STM_OCS_SUS_P; skip });
     t0 \<leftarrow> esp_timer_get_time D;
     (err, a) \<leftarrow> dap_probe_read32 D STM0_TIM0 0;
     let ok = (err = ESP_OK);
     now \<leftarrow> esp_timer_get_time D;
     let t0 = (t0 + now) sdiv 2;
     vTaskDelay 20;
     t1 \<leftarrow> esp_timer_get_time D;
     (ok, b) \<leftarrow> (if ok then do { (err, b) \<leftarrow> dap_probe_read32 D STM0_TIM0 0; ret (err = ESP_OK, b) }
       else ret (False, 0));
     now \<leftarrow> esp_timer_get_time D;
     let t1 = (t1 + now) sdiv 2;
     if_do suspended (do { dap_probe_write32 D STM0_OCS (STM_OCS_SUS_P OR (ocs AND STM_OCS_SUS)); skip });
     if \<not> ok then ret 0
     else do {
       let hz = ucast (b - a) * 1000000 div (of_int (t1 - t0) :: u64);
       ret (if hz \<ge> 1000000 \<and> hz \<le> 500000000 then ucast hz else 0) } }"

definition ticks_of :: "u32 \<Rightarrow> u32 \<Rightarrow> u32" where
  "ticks_of hz us =
     (let t = (ucast hz * ucast us :: u64) div 1000000
      in if hz \<noteq> 0 then ucast (if t \<noteq> 0 then t else 1) else 0)"

section \<open>Installing and running\<close>

definition tricore_flash_install_loader :: "dev \<Rightarrow> ('e flash_scheme, esp_err) state" where
  "tricore_flash_install_loader D = do {
     present \<leftarrow> gets installed;
     if present then ret ESP_OK
     else do {
       err \<leftarrow> link_up D;
       if err \<noteq> ESP_OK then flash_fail D ''the debug link would not come up'' []
       else do {
         back \<leftarrow> tricore_flash_reset_and_halt D;
         if \<not> back then flash_fail D ''the target would not reset for programming'' []
         else do {
           err \<leftarrow> halt_all D;
           err \<leftarrow> (if err \<noteq> ESP_OK then ret err else load_blob D);
           if err \<noteq> ESP_OK then ret ESP_FAIL
           else do {
             err \<leftarrow> dap_probe_write32 D (CPU0_BASE + OFF_SWEVT) SWEVT_HALT;
             if err \<noteq> ESP_OK then flash_fail D ''could not arm the stub's self-halt'' []
             else do {
               old \<leftarrow> gets saved_flashcon0;
               (err, flashcon0) \<leftarrow> dap_probe_read32 D CPU0_FLASHCON0 old;
               modify (\<lambda>s. s\<lparr>saved_flashcon0 := flashcon0\<rparr>);
               old \<leftarrow> gets saved_pcontrol;
               (err, pcontrol) \<leftarrow> (if err \<noteq> ESP_OK then ret (err, old) else dap_probe_read32 D DMU_HF_PCONTROL old);
               modify (\<lambda>s. s\<lparr>saved_pcontrol := pcontrol, saved_valid := (err = ESP_OK)\<rparr>);
               dap_probe_write32 D CPU0_FLASHCON0 FLASHCON0_NO_PREFETCH;
               dap_probe_write32 D DMU_HF_PCONTROL PCONTROL_DEMAND;
               tricore_flash_check_swap D;
               err \<leftarrow> tricore_flash_clear_safety_endinit D;
               if err \<noteq> ESP_OK then flash_fail D ''the safety ENDINIT would not clear'' []
               else do {
                 hz \<leftarrow> measure_stm_hz D;
                 modify (\<lambda>s. s\<lparr>stm_hz := hz\<rparr>);
                 modify (\<lambda>s. s\<lparr>installed := True\<rparr>);
                 ret ESP_OK } } } } } } }"

definition dump_stop :: "dev \<Rightarrow> ('e flash_scheme, unit) state" where
  "dump_stop D = do {
     dap_probe_read32 D (CPU0_BASE + 0xFE38) 0;
     dap_probe_read32 D (CPU0_BASE + 0xFE24) 0;
     dap_probe_read32 D (CPU0_BASE + 0x9018) 0;
     dap_probe_read32 D (CPU0_BASE + 0x901C) 0;
     dap_probe_read32 D (CPU0_BASE + 0x9200) 0;
     skip }"

definition loader_params :: "u32 \<Rightarrow> u32 \<Rightarrow> u32 \<Rightarrow> u32 \<Rightarrow> u32 list" where
  "loader_params hz cmd address n =
     (let factor = (if hz \<noteq> 0 then POLL_FACTOR else 1)
      in [cmd, address, n, LOADER_BUFFER, 0, 0, 0, 0, (if hz \<noteq> 0 then LOADER_FLAG_BURST OR LOADER_FLAG_POLL else 0),
          ticks_of hz (PAGE_MAX_US * factor), ticks_of hz (BURST_MAX_US * factor), ticks_of hz POLL_START_US, 0, 0])"

definition bytes_of_words :: "u32 list \<Rightarrow> u8 list" where
  "bytes_of_words ws = concat (map (\<lambda>w. map (byte_of_word32 w) [0, 1, 2, 3]) ws)"

text \<open>The wait for the stub's \<open>debug\<close> instruction, at most \<open>n\<close> rounds.\<close>

primrec loader_wait :: "dev \<Rightarrow> nat \<Rightarrow> int \<Rightarrow> int \<Rightarrow> ('e flash_scheme, unit) state" where
  "loader_wait D 0 started deadline = modify (\<lambda>s. s\<lparr>hung := True\<rparr>)"
| "loader_wait D (Suc n) started deadline = do {
     now \<leftarrow> esp_timer_get_time D;
     if \<not> now < deadline then skip
     else do {
       (err, dbgsr) \<leftarrow> tricore_dbgsr D 0 0;
       if err = ESP_OK \<and> dbgsr AND 2 \<noteq> 0 then skip
       else do {
         now \<leftarrow> esp_timer_get_time D;
         (if now - started < 20000 then emit (EvRomDelay 250) else vTaskDelay 10);
         loader_wait D n started deadline } } }"

text \<open>The parameters read back, but for our own inputs, which stay 0: \<open>None\<close> if a read fails.\<close>

primrec read_out :: "dev \<Rightarrow> nat list \<Rightarrow> u32 list \<Rightarrow> ('e flash_scheme, u32 list option) state" where
  "read_out D [] out = ret (Some out)"
| "read_out D (i # is) out =
     (if i \<ge> 8 \<and> i < 12 then read_out D is out
      else do {
        (err, w) \<leftarrow> dap_probe_read32 D (LOADER_PARAMS + 4 * of_nat i) (out ! i);
        if err \<noteq> ESP_OK then ret None else read_out D is (out[i := w]) })"

definition point_at_loader :: "dev \<Rightarrow> ('e flash_scheme, esp_err \<times> u32) state" where
  "point_at_loader D = do {
     err \<leftarrow> tricore_write_reg D 0 26 LOADER_STACK;
     err \<leftarrow> (if err \<noteq> ESP_OK then ret err else tricore_write_reg D 0 27 LOADER_CODE);
     err \<leftarrow> (if err \<noteq> ESP_OK then ret err else tricore_write_pc D 0 LOADER_CODE);
     if err \<noteq> ESP_OK then ret (err, 0) else tricore_read_pc D 0 0 }"

definition tricore_flash_run_loader ::
  "dev \<Rightarrow> u32 \<Rightarrow> u32 \<Rightarrow> u32 \<Rightarrow> u32 \<Rightarrow> u32 \<Rightarrow> ('e flash_scheme, esp_err \<times> u32) state" where
  "tricore_flash_run_loader D cmd address n timeout_ms checksum = do {
     err \<leftarrow> tricore_flash_install_loader D;
     if err \<noteq> ESP_OK then ret (ESP_FAIL, checksum)
     else do {
       hz \<leftarrow> gets stm_hz;
       err \<leftarrow> tricore_flash_write_block D LOADER_PARAMS (bytes_of_words (loader_params hz cmd address n));
       if err \<noteq> ESP_OK
       then do { err \<leftarrow> flash_fail D ''could not write the loader parameters'' []; ret (err, checksum) }
       else do {
         (err, pc) \<leftarrow> point_at_loader D;
         if err \<noteq> ESP_OK \<or> pc \<noteq> LOADER_CODE
         then do { err \<leftarrow> flash_fail D ''could not point CPU0 at the loader'' []; ret (err, checksum) }
         else do {
           err \<leftarrow> tricore_request_resume D 0;
           if err \<noteq> ESP_OK
           then do { err \<leftarrow> flash_fail D ''could not resume into the loader'' []; ret (err, checksum) }
           else do {
             started \<leftarrow> esp_timer_get_time D;
             loader_wait D (d_polls D) started (started + uint timeout_ms * 1000);
             tricore_halt D 0 HALT_LINE 200;
             (err, pc) \<leftarrow> tricore_read_pc D 0 pc;
             result \<leftarrow> read_out D [0..<LOADER_PARAM_WORDS] (replicate LOADER_PARAM_WORDS 0);
             case result of
               None \<Rightarrow> do { err \<leftarrow> flash_fail D ''could not read the loader's result'' []; ret (err, checksum) }
             | Some out \<Rightarrow> do {
                 if_do (cmd = LOADER_CMD_PROGRAM) (
                   let us = (if hz \<noteq> 0 then ucast ((ucast (out ! 13) * 1000000 :: u64) div ucast hz) else 0)
                   in fstat (\<lambda>f. f\<lparr>fs_bursts := fs_bursts f + out ! 12, fs_op_us_max := max us (fs_op_us_max f)\<rparr>));
                 if out ! 4 \<noteq> LOADER_ST_OK then do {
                   dump_stop D;
                   fstat (\<lambda>f. f\<lparr>fs_errsr := out ! 5\<rparr>);
                   flash_fail D ''loader status %u at 0x%08X, %u/%u done, ERRSR 0x%08X, PC 0x%08X''
                     [out ! 4, address, out ! 6, n, out ! 5, pc];
                   ret (if out ! 4 = LOADER_ST_RUNNING then ESP_ERR_TIMEOUT else ESP_FAIL, checksum) }
                 else do {
                   err \<leftarrow> tricore_flash_wait_idle D address 2000;
                   ret (err, out ! 7) } } } } } } }"

end
