(* ===== verification/Flash_Stages.thy ===== *)
theory Flash_Stages
  imports Flash_Loader
begin

unbundle bit_operations_syntax

text \<open>
  The stages of a flash session and the whole-image path (\<open>tricore_flash.c\<close>, second part): begin, erase, program,
  checksum, verify, end, the differential comparison and \<open>tricore_flash_apply\<close>. Image bytes are lists or, for a
  region, a function of the offset; the static work buffers are local values.
\<close>

section \<open>The session\<close>

definition flash_clock :: "dev \<Rightarrow> bool \<Rightarrow> ('e flash_scheme, unit) state" where
  "flash_clock D fast = do {
     ready \<leftarrow> sense (d_fpga_ready D);
     wide \<leftarrow> sense (d_is_wide D);
     if_do (ready \<and> \<not> wide) (dap_phy_fpga_set_div (if fast then FLASH_DAP_DIV else ATTACH_DAP_DIV)) }"

definition session_unlock :: "dev \<Rightarrow> ('e flash_scheme, unit) state" where
  "session_unlock D = do {
     locked \<leftarrow> gets session_locked;
     if_do locked (do {
       modify (\<lambda>s. s\<lparr>session_locked := False\<rparr>);
       flash_clock D False;
       dap_unlock }) }"

definition begin_locked :: "dev \<Rightarrow> ('e flash_scheme, esp_err) state" where
  "begin_locked D = do {
     now \<leftarrow> esp_timer_get_time D;
     modify (\<lambda>s. s\<lparr>started_us := now\<rparr>);
     fstat (\<lambda>_. status_zero);
     modify (\<lambda>s. s\<lparr>installed := False\<rparr>);
     tricore_flash_set_phase D TRICORE_FLASH_PREPARING (Some (''halting the target'', []));
     err \<leftarrow> tricore_flash_install_loader D;
     if err \<noteq> ESP_OK then ret ESP_FAIL
     else do {
       flash_clock D True;
       n \<leftarrow> tricore_flash_layout D;
       if n = 0 then do {
         tricore_flash_safe_shutdown D;
         flash_fail D ''unknown flash layout (SCU_CHIPID)'' [] }
       else do {
         err \<leftarrow> check_page_mode D;
         if err \<noteq> ESP_OK then do {
           tricore_flash_safe_shutdown D;
           errsr \<leftarrow> gets (\<lambda>s. fs_errsr (flash_status s));
           flash_fail D ''no program flash page mode, ERRSR 0x%08X'' [errsr] }
         else ret ESP_OK } } }"

definition stop_trace :: "dev \<Rightarrow> ('e flash_scheme, unit) state" where
  "stop_trace D = do {
     running \<leftarrow> gets mcds_running;
     if_do running (do { dap_mcds_stop D; skip }) }"

definition tricore_flash_active :: "('e flash_scheme, bool) state" where
  "tricore_flash_active = gets (\<lambda>s. flash_active s \<or> session_locked s)"

definition tricore_flash_begin :: "dev \<Rightarrow> ('e flash_scheme, esp_err) state" where
  "tricore_flash_begin D = do {
     locked \<leftarrow> gets session_locked;
     if_do (\<not> locked) (stop_trace D);
     dap_lock;
     locked \<leftarrow> gets session_locked;
     if_do locked dap_unlock;
     modify (\<lambda>s. s\<lparr>session_locked := True\<rparr>);
     err \<leftarrow> begin_locked D;
     if_do (err \<noteq> ESP_OK) (session_unlock D);
     ret err }"

section \<open>Erase\<close>

text \<open>The values of \<open>at\<close> in \<open>for (at = first; at < end; at += TRICORE_FLASH_SECTOR)\<close>, in 32 bits. When
  \<open>at\<close> wraps the loop walks the whole address space, which has \<open>2 ^ 18\<close> sectors.\<close>

primrec sector_walk :: "nat \<Rightarrow> u32 \<Rightarrow> u32 \<Rightarrow> u32 list" where
  "sector_walk 0 first stop = []"
| "sector_walk (Suc n) first stop =
     (if first < stop then first # sector_walk n (first + TRICORE_FLASH_SECTOR) stop else [])"

definition sector_of :: "u32 \<Rightarrow> u32" where
  "sector_of address = address AND NOT (TRICORE_FLASH_SECTOR - 1)"

definition sectors_between :: "u32 \<Rightarrow> u32 \<Rightarrow> u32 list" where
  "sectors_between address stop = sector_walk (2 ^ 18) (sector_of address) stop"

text \<open>One round of each of the two loops.\<close>

definition check_erasable :: "dev \<Rightarrow> u32 \<Rightarrow> ('e flash_scheme, esp_err) state" where
  "check_erasable D x = do {
     ok \<leftarrow> gets (\<lambda>s. is_program_flash (command_address x s) s);
     if \<not> ok then flash_fail D ''0x%08X is not erasable program flash'' [x] else ret ESP_OK }"

definition erase_one :: "dev \<Rightarrow> u32 \<Rightarrow> ('e flash_scheme, esp_err) state" where
  "erase_one D x = do {
     t0 \<leftarrow> esp_timer_get_time D;
     err \<leftarrow> erase_sector D x;
     t1 \<leftarrow> esp_timer_get_time D;
     fstat (\<lambda>f. f\<lparr>fs_erase_ms := fs_erase_ms f + ms_between t0 t1\<rparr>);
     if err \<noteq> ESP_OK then do {
       errsr \<leftarrow> gets (\<lambda>s. fs_errsr (flash_status s));
       flash_fail D ''erase of 0x%08X failed, ERRSR 0x%08X'' [x, errsr] }
     else do {
       fstat (\<lambda>f. f\<lparr>fs_sectors_done := fs_sectors_done f + 1\<rparr>);
       ret ESP_OK } }"

definition tricore_flash_erase :: "dev \<Rightarrow> u32 \<Rightarrow> u32 \<Rightarrow> ('e flash_scheme, esp_err) state" where
  "tricore_flash_erase D address len = do {
     tricore_flash_set_phase D TRICORE_FLASH_ERASING (Some (''erasing'', []));
     err \<leftarrow> for_ok (check_erasable D) (sectors_between address (address + len));
     if err \<noteq> ESP_OK then ret err
     else for_ok (erase_one D) (sectors_between address (address + len)) }"

section \<open>Program, checksum, verify\<close>

text \<open>A chunk in the loader buffer: the image bytes, and the rest of the last page erased.\<close>

definition padded_chunk :: "u8 list \<Rightarrow> u8 list" where
  "padded_chunk bs =
     bs @ replicate (unat ((of_nat (length bs) + TRICORE_FLASH_PAGE - 1) AND NOT (TRICORE_FLASH_PAGE - 1)) - length bs)
            TRICORE_FLASH_ERASED"

definition program_chunk :: "dev \<Rightarrow> u32 \<Rightarrow> u8 list \<Rightarrow> ('e flash_scheme, esp_err) state" where
  "program_chunk D address bs = do {
     ok \<leftarrow> gets (\<lambda>s. is_program_flash (command_address address s) s);
     if \<not> ok then flash_fail D ''0x%08X is not programmable'' [address]
     else do {
       let buf = padded_chunk bs;
       t0 \<leftarrow> esp_timer_get_time D;
       err \<leftarrow> tricore_flash_write_block D LOADER_BUFFER buf;
       if err \<noteq> ESP_OK then flash_fail D ''could not fill the loader buffer'' []
       else do {
         t1 \<leftarrow> esp_timer_get_time D;
         command \<leftarrow> gets (command_address address);
         (err, ignored) \<leftarrow> tricore_flash_run_loader D LOADER_CMD_PROGRAM command
           (of_nat (length buf) div TRICORE_FLASH_PAGE) 20000 0;
         t2 \<leftarrow> esp_timer_get_time D;
         fstat (\<lambda>f. f\<lparr>fs_write_ms := fs_write_ms f + ms_between t0 t1, fs_loader_ms := fs_loader_ms f + ms_between t1 t2\<rparr>);
         if err \<noteq> ESP_OK then do {
           fstat (\<lambda>f. f\<lparr>fs_phase := TRICORE_FLASH_FAILED\<rparr>);
           ret ESP_FAIL }
         else do {
           fstat (\<lambda>f. f\<lparr>fs_done_bytes := fs_done_bytes f + of_nat (length bs)\<rparr>);
           ret ESP_OK } } } }"

function program_chunks :: "dev \<Rightarrow> u32 \<Rightarrow> u8 list \<Rightarrow> ('e flash_scheme, esp_err) state" where
  "program_chunks D address bs =
     (if bs = [] then ret ESP_OK
      else do {
        let chunk = min (length bs) LOADER_BUFFER_BYTES;
        err \<leftarrow> program_chunk D address (take chunk bs);
        if err \<noteq> ESP_OK then ret err
        else program_chunks D (address + of_nat chunk) (drop chunk bs) })"
  by pat_completeness auto
termination by (relation "measure (\<lambda>(D, a, bs). length bs)") (auto simp: LOADER_BUFFER_BYTES_def)

declare program_chunks.simps [simp del]

definition tricore_flash_program :: "dev \<Rightarrow> u32 \<Rightarrow> u8 list \<Rightarrow> ('e flash_scheme, esp_err) state" where
  "tricore_flash_program D address bs =
     (if address mod TRICORE_FLASH_PAGE \<noteq> 0
      then flash_fail D ''program address 0x%08X is not page aligned'' [address]
      else do {
        tricore_flash_set_phase D TRICORE_FLASH_PROGRAMMING (Some (''programming'', []));
        program_chunks D address bs })"

definition tricore_flash_checksum :: "dev \<Rightarrow> u32 \<Rightarrow> u32 \<Rightarrow> u32 \<Rightarrow> ('e flash_scheme, esp_err \<times> u32) state" where
  "tricore_flash_checksum D address len out =
     tricore_flash_run_loader D LOADER_CMD_CHECKSUM address len (2000 + len div 500) out"

definition tricore_flash_verify :: "dev \<Rightarrow> u32 \<Rightarrow> u8 list \<Rightarrow> ('e flash_scheme, esp_err) state" where
  "tricore_flash_verify D address bs = do {
     tricore_flash_set_phase D TRICORE_FLASH_VERIFYING (Some (''verifying'', []));
     (err, on_target) \<leftarrow> tricore_flash_checksum D address (of_nat (length bs)) 0;
     if err \<noteq> ESP_OK then ret ESP_FAIL
     else do {
       let expect = tricore_flash_crc32 bs;
       if on_target \<noteq> expect
       then flash_fail D ''CRC 0x%08X on target, 0x%08X in image'' [on_target, expect]
       else ret ESP_OK } }"

section \<open>The end of a session\<close>

definition start_core :: "dev \<Rightarrow> int \<Rightarrow> ('e flash_scheme, unit) state" where
  "start_core D core = do {
     here \<leftarrow> gets (tricore_core_ok core);
     started \<leftarrow> (if here then tricore_core_started D core else ret False);
     if_do started (do {
       tricore_halt_release D core;
       tricore_clear_debug_events D core;
       tricore_resume D core 500;
       skip }) }"

definition end_locked :: "dev \<Rightarrow> bool \<Rightarrow> ('e flash_scheme, esp_err) state" where
  "end_locked D start_target = do {
     tricore_flash_safe_shutdown D;
     back \<leftarrow> tricore_flash_reset_and_halt D;
     if \<not> back then flash_fail D ''the target would not reset after flashing'' []
     else do {
       modify (\<lambda>s. s\<lparr>installed := False\<rparr>);
       if_do start_target (for_each (start_core D) all_cores);
       ret ESP_OK } }"

definition tricore_flash_end :: "dev \<Rightarrow> bool \<Rightarrow> ('e flash_scheme, esp_err) state" where
  "tricore_flash_end D start_target = do {
     err \<leftarrow> end_locked D start_target;
     session_unlock D;
     ret err }"

section \<open>The differential comparison\<close>

definition tricore_flash_set_differential :: "bool \<Rightarrow> ('e flash_scheme, unit) state" where
  "tricore_flash_set_differential enable = modify (\<lambda>s. s\<lparr>differential := enable\<rparr>)"

definition target_crc_quiet :: "dev \<Rightarrow> u32 \<Rightarrow> u32 \<Rightarrow> u32 \<Rightarrow> ('e flash_scheme, bool \<times> u32) state" where
  "target_crc_quiet D address len crc = do {
     before \<leftarrow> gets flash_status;
     (err, crc) \<leftarrow> tricore_flash_run_loader D LOADER_CMD_CHECKSUM address len (60 + len div 2000) crc;
     if_do (err \<noteq> ESP_OK) (fstat (\<lambda>f. f\<lparr>fs_phase := fs_phase before, fs_message := fs_message before,
       fs_errsr := fs_errsr before\<rparr>));
     ret (err = ESP_OK, crc) }"

text \<open>Bytes of a region from an address to before another.\<close>

definition region_bytes :: "tricore_flash_region \<Rightarrow> u32 \<Rightarrow> u32 \<Rightarrow> u8 list" where
  "region_bytes r lo hi = map (\<lambda>i. rg_data r (unat (lo - rg_address r) + i)) [0..<unat (hi - lo)]"

text \<open>The part of a region that lies in a sector, and the padding of the region's last page.\<close>

definition region_end :: "tricore_flash_region \<Rightarrow> u32" where
  "region_end r = rg_address r + rg_length r"

definition overlap :: "tricore_flash_region \<Rightarrow> u32 \<Rightarrow> u32 \<times> u32" where
  "overlap r sector =
     ((if rg_address r > sector then rg_address r else sector),
      (if region_end r < sector + TRICORE_FLASH_SECTOR then region_end r else sector + TRICORE_FLASH_SECTOR))"

definition region_pad :: "tricore_flash_region \<Rightarrow> u32 \<Rightarrow> u32" where
  "region_pad r hi =
     (if hi = region_end r then (TRICORE_FLASH_PAGE - hi mod TRICORE_FLASH_PAGE) mod TRICORE_FLASH_PAGE else 0)"

text \<open>The CRC the comparison expects; the static array it pads with is all zeros.\<close>

definition expected_crc :: "tricore_flash_region \<Rightarrow> u32 \<Rightarrow> u32 \<Rightarrow> u32" where
  "expected_crc r lo hi =
     NOT (crc32_update (crc32_update 0xFFFFFFFF (region_bytes r lo hi)) (replicate (unat (region_pad r hi)) 0))"

primrec sector_differs :: "dev \<Rightarrow> u32 \<Rightarrow> tricore_flash_region list \<Rightarrow> ('e flash_scheme, bool) state" where
  "sector_differs D sector [] = ret False"
| "sector_differs D sector (r # rs) =
     (let (lo, hi) = overlap r sector
      in if lo \<ge> hi then sector_differs D sector rs
         else do {
           (ok, actual) \<leftarrow> target_crc_quiet D (tricore_flash_to_physical lo) (hi - lo + region_pad r hi) 0;
           if \<not> ok \<or> actual \<noteq> expected_crc r lo hi then ret True else sector_differs D sector rs })"

section \<open>The whole image\<close>

text \<open>How many of the following sectors a run of kept sectors takes in.\<close>

primrec kept_run :: "u32 \<Rightarrow> u32 \<Rightarrow> (u32 \<times> bool) list \<Rightarrow> nat" where
  "kept_run prev stop [] = 0"
| "kept_run prev stop (x # xs) =
     (if snd x \<and> fst x = prev + TRICORE_FLASH_SECTOR \<and> fst x < stop then Suc (kept_run (fst x) stop xs) else 0)"

function program_kept :: "dev \<Rightarrow> tricore_flash_region \<Rightarrow> (u32 \<times> bool) list \<Rightarrow> ('e flash_scheme, esp_err) state" where
  "program_kept D r [] = ret ESP_OK"
| "program_kept D r (x # xs) =
     (if \<not> snd x \<or> fst x + TRICORE_FLASH_SECTOR \<le> rg_address r \<or> fst x \<ge> region_end r then program_kept D r xs
      else do {
        let m = kept_run (fst x) (region_end r) xs;
        let lo = (if fst x > rg_address r then fst x else rg_address r);
        let top = fst (last (x # take m xs)) + TRICORE_FLASH_SECTOR;
        let hi = (if top < region_end r then top else region_end r);
        err \<leftarrow> tricore_flash_program D lo (region_bytes r lo hi);
        if err \<noteq> ESP_OK then ret ESP_FAIL else program_kept D r (drop m xs) })"
  by pat_completeness auto
termination by (relation "measure (\<lambda>(D, r, xs). length xs)") auto

declare program_kept.simps [simp del]

text \<open>The sectors the regions touch, each once; \<open>None\<close> when there are too many.\<close>

primrec add_sectors :: "u32 list \<Rightarrow> u32 list \<Rightarrow> u32 list option" where
  "add_sectors [] sectors = Some sectors"
| "add_sectors (x # xs) sectors =
     (if x \<in> set sectors then add_sectors xs sectors
      else if length sectors = MAX_SECTORS then None
      else add_sectors xs (sectors @ [x]))"

definition touched_sectors :: "tricore_flash_region list \<Rightarrow> u32 list option" where
  "touched_sectors regions =
     add_sectors (concat (map (\<lambda>r. sectors_between (rg_address r) (region_end r)) regions)) []"

primrec compare_sectors :: "dev \<Rightarrow> tricore_flash_region list \<Rightarrow> u32 list \<Rightarrow> ('e flash_scheme, bool list) state" where
  "compare_sectors D regions [] = ret []"
| "compare_sectors D regions (x # xs) = do {
     diff \<leftarrow> gets differential;
     keep \<leftarrow> (if \<not> diff then ret True else sector_differs D x regions);
     keeps \<leftarrow> compare_sectors D regions xs;
     ret (keep # keeps) }"

definition kept_bytes :: "tricore_flash_region list \<Rightarrow> (u32 \<times> bool) list \<Rightarrow> u32" where
  "kept_bytes regions sectors =
     sum_list (map (\<lambda>r. sum_list (map (\<lambda>x. let (lo, hi) = overlap r (fst x) in if snd x \<and> lo < hi then hi - lo else 0)
       sectors)) regions)"

definition compare_all :: "dev \<Rightarrow> tricore_flash_region list \<Rightarrow> u32 list \<Rightarrow> ('e flash_scheme, bool list) state" where
  "compare_all D regions sectors = do {
     diff \<leftarrow> gets differential;
     if_do diff (tricore_flash_set_phase D TRICORE_FLASH_PREPARING (Some (''comparing with the target'', [])));
     t0 \<leftarrow> esp_timer_get_time D;
     keep \<leftarrow> compare_sectors D regions sectors;
     t1 \<leftarrow> esp_timer_get_time D;
     let changed = (of_nat (length (filter id keep)) :: u32);
     fstat (\<lambda>f. f\<lparr>fs_compare_ms := ms_between t0 t1, fs_sectors := changed,
       fs_sectors_skipped := of_nat (length sectors) - changed,
       fs_total_bytes := fs_total_bytes f + kept_bytes regions (zip sectors keep)\<rparr>);
     ret keep }"

text \<open>Erase the kept sectors, then program them.\<close>

definition rewrite_kept :: "dev \<Rightarrow> tricore_flash_region list \<Rightarrow> (u32 \<times> bool) list \<Rightarrow> ('e flash_scheme, esp_err) state" where
  "rewrite_kept D regions sectors =
     (let erase_list = map fst (filter snd sectors)
      in if erase_list = [] then ret ESP_OK
         else do {
           tricore_flash_set_phase D TRICORE_FLASH_ERASING (Some (''erasing'', []));
           err \<leftarrow> erase_sectors D erase_list;
           if err \<noteq> ESP_OK then ret err else for_ok (\<lambda>r. program_kept D r sectors) regions })"

definition verify_region :: "dev \<Rightarrow> tricore_flash_region \<Rightarrow> ('e flash_scheme, esp_err) state" where
  "verify_region D r = tricore_flash_verify D (rg_address r) (map (rg_data r) [0..<unat (rg_length r)])"

text \<open>The rounds over the sectors the image touches: compare, rewrite what differs, verify everything.\<close>

definition write_sectors :: "dev \<Rightarrow> tricore_flash_region list \<Rightarrow> u32 list \<Rightarrow> ('e flash_scheme, esp_err) state" where
  "write_sectors D regions sectors = do {
     keep \<leftarrow> compare_all D regions sectors;
     err \<leftarrow> rewrite_kept D regions (zip sectors keep);
     if err \<noteq> ESP_OK then do {
       tricore_flash_safe_shutdown D;
       ret err }
     else do {
       tricore_flash_safe_shutdown D;
       err \<leftarrow> for_ok (verify_region D) regions;
       fstat (\<lambda>f. f\<lparr>fs_verified := (err = ESP_OK)\<rparr>);
       if_do (err = ESP_OK) (tricore_flash_set_phase D TRICORE_FLASH_DONE (Some (''programmed and verified'', [])));
       ret err } }"

definition first_foreign :: "u32 list \<Rightarrow> 'e flash_scheme \<Rightarrow> u32 option" where
  "first_foreign sectors s = find (\<lambda>x. \<not> is_program_flash (command_address x s) s) sectors"

definition tricore_flash_apply :: "dev \<Rightarrow> tricore_flash_region list \<Rightarrow> ('e flash_scheme, esp_err) state" where
  "tricore_flash_apply D regions =
     (if regions = [] then ret ESP_ERR_INVALID_ARG
      else case touched_sectors regions of
        None \<Rightarrow> do {
          tricore_flash_safe_shutdown D;
          flash_fail D ''more than %u sectors'' [of_nat MAX_SECTORS] }
      | Some found \<Rightarrow> do {
          bad \<leftarrow> gets (first_foreign (sort found));
          case bad of
            Some x \<Rightarrow> do {
              tricore_flash_safe_shutdown D;
              flash_fail D ''0x%08X is not erasable program flash'' [x] }
          | None \<Rightarrow> write_sectors D regions (sort found) })"

end
