(* ===== verification/Flash_Ucb.thy ===== *)
theory Flash_Ucb
  imports Flash_Stages
begin

unbundle bit_operations_syntax

text \<open>
  The user configuration blocks (\<open>tricore_ucb.c\<close>): the catalogue, the formal check of a block's bytes, the plan
  for an img and the writer. Texts (the report, the reasons, what went wrong) are kept as trees of formats and
  arguments; what \<open>vsnprintf\<close> makes of them and the truncation to the static buffers are not modelled
  (the line ends of the report are left out).
\<close>

section \<open>The catalogue\<close>

datatype ucb_text = Fmt string "ucb_text list" | Num u32 | Str string | Joined "ucb_text list"

record ucb_block =
  ub_name :: string
  ub_base :: u32
  ub_dual :: bool
  ub_confirm_register :: u8
  ub_confirm_mask :: u32
  ub_is_bmhd :: bool

definition ucb_entry :: "string \<Rightarrow> u32 \<Rightarrow> bool \<Rightarrow> u8 \<Rightarrow> u32 \<Rightarrow> bool \<Rightarrow> ucb_block" where
  "ucb_entry name base dual register msk bmhd =
     \<lparr>ub_name = name, ub_base = base, ub_dual = dual, ub_confirm_register = register, ub_confirm_mask = msk,
      ub_is_bmhd = bmhd\<rparr>"

definition BLOCKS :: "ucb_block list" where
  "BLOCKS = [
     ucb_entry ''BMHD0_ORIG'' 0xAF400000 True 0 0x00000003 True,
     ucb_entry ''BMHD1_ORIG'' 0xAF400200 True 0 0x0000000C True,
     ucb_entry ''BMHD2_ORIG'' 0xAF400400 True 0 0x00000030 True,
     ucb_entry ''BMHD3_ORIG'' 0xAF400600 True 0 0x000000C0 True,
     ucb_entry ''SSW'' 0xAF400800 False 0 0x00000100 False,
     ucb_entry ''BMHD0_COPY'' 0xAF401000 True 0 0x00030000 True,
     ucb_entry ''BMHD1_COPY'' 0xAF401200 True 0 0x000C0000 True,
     ucb_entry ''BMHD2_COPY'' 0xAF401400 True 0 0x00300000 True,
     ucb_entry ''BMHD3_COPY'' 0xAF401600 True 0 0x00C00000 True,
     ucb_entry ''RETEST'' 0xAF401E00 False 0 0xC0000000 False,
     ucb_entry ''PFLASH_ORIG'' 0xAF402000 True 1 0x00000003 False,
     ucb_entry ''DFLASH_ORIG'' 0xAF402200 True 1 0x0000000C False,
     ucb_entry ''DBG_ORIG'' 0xAF402400 True 1 0x00000030 False,
     ucb_entry ''HSM_ORIG'' 0xAF402600 True 1 0x000000C0 False,
     ucb_entry ''HSMCOTP0_ORIG'' 0xAF402800 True 1 0x00000300 False,
     ucb_entry ''HSMCOTP1_ORIG'' 0xAF402A00 True 1 0x00000C00 False,
     ucb_entry ''ECPRIO_ORIG'' 0xAF402C00 True 1 0x00003000 False,
     ucb_entry ''SWAP_ORIG'' 0xAF402E00 True 1 0x0000C000 False,
     ucb_entry ''PFLASH_COPY'' 0xAF403000 True 1 0x00030000 False,
     ucb_entry ''DFLASH_COPY'' 0xAF403200 True 1 0x000C0000 False,
     ucb_entry ''DBG_COPY'' 0xAF403400 True 1 0x00300000 False,
     ucb_entry ''HSM_COPY'' 0xAF403600 True 1 0x00C00000 False,
     ucb_entry ''HSMCOTP0_COPY'' 0xAF403800 True 1 0x03000000 False,
     ucb_entry ''HSMCOTP1_COPY'' 0xAF403A00 True 1 0x0C000000 False,
     ucb_entry ''ECPRIO_COPY'' 0xAF403C00 True 1 0x30000000 False,
     ucb_entry ''SWAP_COPY'' 0xAF403E00 True 1 0xC0000000 False,
     ucb_entry ''OTP0_ORIG'' 0xAF404000 True 2 0x00000003 False,
     ucb_entry ''OTP1_ORIG'' 0xAF404200 True 2 0x0000000C False,
     ucb_entry ''OTP2_ORIG'' 0xAF404400 True 2 0x00000030 False,
     ucb_entry ''OTP3_ORIG'' 0xAF404600 True 2 0x000000C0 False,
     ucb_entry ''OTP4_ORIG'' 0xAF404800 True 2 0x00000300 False,
     ucb_entry ''OTP5_ORIG'' 0xAF404A00 True 2 0x00000C00 False,
     ucb_entry ''OTP6_ORIG'' 0xAF404C00 True 2 0x00003000 False,
     ucb_entry ''OTP7_ORIG'' 0xAF404E00 True 2 0x0000C000 False,
     ucb_entry ''OTP0_COPY'' 0xAF405000 True 2 0x00030000 False,
     ucb_entry ''OTP1_COPY'' 0xAF405200 True 2 0x000C0000 False,
     ucb_entry ''OTP2_COPY'' 0xAF405400 True 2 0x00300000 False,
     ucb_entry ''OTP3_COPY'' 0xAF405600 True 2 0x00C00000 False,
     ucb_entry ''OTP4_COPY'' 0xAF405800 True 2 0x03000000 False,
     ucb_entry ''OTP5_COPY'' 0xAF405A00 True 2 0x0C000000 False,
     ucb_entry ''OTP6_COPY'' 0xAF405C00 True 2 0x30000000 False,
     ucb_entry ''OTP7_COPY'' 0xAF405E00 True 2 0xC0000000 False]"

definition CONFIRM_BASE :: u32 where "CONFIRM_BASE = 0xF8040020"
definition CODE_UNLOCKED :: u32 where "CODE_UNLOCKED = 0x43211234"
definition CODE_CONFIRMED :: u32 where "CODE_CONFIRMED = 0x57B5327F"
definition STATE_OFFSET :: nat where "STATE_OFFSET = 0x1F0"
definition ERASED_BYTE :: u8 where "ERASED_BYTE = 0"
definition BMHD_ID :: u16 where "BMHD_ID = 0xB359"
definition CYCLE_55F4 :: u32 where "CYCLE_55F4 = 0x55F4"
definition CMD_ENTER_PAGE_DFLASH :: u32 where "CMD_ENTER_PAGE_DFLASH = 0x5D"
definition CMD_WRITE_PAGE :: u32 where "CMD_WRITE_PAGE = 0xA0"
definition CMD_PROGRAM :: u32 where "CMD_PROGRAM = 0xAA"
definition STATUS_DFPAGE :: u32 where "STATUS_DFPAGE = push_bit 20 1"
definition UCB_PAGE_SIZE :: nat where "UCB_PAGE_SIZE = 8"
definition ERASE_TIMEOUT_MS :: u32 where "ERASE_TIMEOUT_MS = 5000"
definition PROGRAM_TIMEOUT_MS :: u32 where "PROGRAM_TIMEOUT_MS = 10000"

definition UCB_BYTES :: nat where "UCB_BYTES = 0x200"      \<comment> \<open>\<open>TRICORE_UCB_SIZE\<close>\<close>

lemmas ucb_consts = STATE_OFFSET_def ERASED_BYTE_def UCB_PAGE_SIZE_def UCB_BYTES_def CYCLE_55F4_def
  CMD_ENTER_PAGE_DFLASH_def CMD_WRITE_PAGE_def CMD_PROGRAM_def

definition IMAGE_OWNED :: "string list" where
  "IMAGE_OWNED = [''BMHD0_ORIG'', ''BMHD1_ORIG'', ''BMHD2_ORIG'', ''BMHD3_ORIG'',
     ''BMHD0_COPY'', ''BMHD1_COPY'', ''BMHD2_COPY'', ''BMHD3_COPY'']"

definition NOT_IMAGE_OWNED :: "(string \<times> string) list" where
  "NOT_IMAGE_OWNED =
     [(''SWAP'', ''the bootloader maintains it at runtime -- it records which bank was '' @
        ''swapped in, and resetting it changes which bank the part boots''),
      (''OTP'', ''it installs one-time protection, which no debugger takes back''),
      (''HSM'', ''it belongs to the HSM and can lock the part out of further programming''),
      (''DBG'', ''it configures the debug interface and can lock the probe out''),
      (''PFLASH'', ''it installs flash write protection''),
      (''DFLASH'', ''it installs flash write protection''),
      (''ECPRIO'', ''it configures error correction priorities''),
      (''RETEST'', ''it is Infineon's''),
      (''SSW'', ''it is Infineon's'')]"

record ucb = flash +
  ucb_report :: "ucb_text list"
  ucb_why :: ucb_text

definition report :: "string \<Rightarrow> ucb_text list \<Rightarrow> ('e ucb_scheme, unit) state" where
  "report fmt args = modify (\<lambda>s. s\<lparr>ucb_report := ucb_report s @ [Fmt fmt args]\<rparr>)"

definition tricore_ucb_report :: "('e ucb_scheme, ucb_text list) state" where
  "tricore_ucb_report = gets ucb_report"

definition tricore_ucb_slot_name :: "u32 \<Rightarrow> string option" where
  "tricore_ucb_slot_name slot =
     map_option ub_name (find (\<lambda>b. ub_base b = TRICORE_UCB_BASE + slot * TRICORE_UCB_SIZE) BLOCKS)"

definition slot_of :: "ucb_block \<Rightarrow> u32" where
  "slot_of b = (ub_base b - TRICORE_UCB_BASE) div TRICORE_UCB_SIZE"

definition by_name :: "string \<Rightarrow> ucb_block option" where
  "by_name name = find (\<lambda>b. ub_name b = name) BLOCKS"

definition is_owned :: "ucb_block \<Rightarrow> bool" where
  "is_owned b \<longleftrightarrow> ub_name b \<in> set IMAGE_OWNED"

definition not_owned_reason :: "string \<Rightarrow> string" where
  "not_owned_reason name =
     (case find (\<lambda>p. take (length (fst p)) name = fst p) NOT_IMAGE_OWNED of
        Some p \<Rightarrow> snd p | None \<Rightarrow> ''it is not a boot mode header'')"

section \<open>The checks\<close>

definition ucb_le16 :: "u8 list \<Rightarrow> nat \<Rightarrow> u16" where
  "ucb_le16 bs off = ucast (bs ! off) OR push_bit 8 (ucast (bs ! (off + 1)))"

definition code_offsets :: "ucb_block \<Rightarrow> nat list" where
  "code_offsets b = (if ub_dual b then [0x1F0] else [0x1F0, 0x1F8])"

definition crc_bmhd :: "u8 list \<Rightarrow> u32" where
  "crc_bmhd blob =
     tricore_flash_crc32 [blob ! 3, blob ! 2, blob ! 1, blob ! 0, blob ! 7, blob ! 6, blob ! 5, blob ! 4]"

definition when_problem :: "bool \<Rightarrow> string \<Rightarrow> ucb_text list \<Rightarrow> ucb_text list" where
  "when_problem b fmt args = (if b then [Fmt fmt args] else [])"

definition check_codes :: "ucb_block \<Rightarrow> u8 list \<Rightarrow> ucb_text list" where
  "check_codes b blob = concat (map (\<lambda>off.
     let word = loader_le32 blob off
     in when_problem (word \<noteq> CODE_UNLOCKED \<and> word \<noteq> CODE_CONFIRMED)
          ''confirmation word at +0x%03X is 0x%08X, neither unlocked (0x%08X) nor confirmed (0x%08X)''
          [Num (of_nat off), Num word, Num CODE_UNLOCKED, Num CODE_CONFIRMED]) (code_offsets b))"

definition check_bmhd :: "u8 list \<Rightarrow> ucb_text list" where
  "check_bmhd blob =
     (let ident = ucb_le16 blob 2;
          hwcfg = drop_bit 1 (ucb_le16 blob 0) AND 7;
          stad = loader_le32 blob 4;
          expected = crc_bmhd blob;
          crc = loader_le32 blob 8;
          complement = loader_le32 blob 12
      in when_problem (ident \<noteq> BMHD_ID) ''BMHDID is 0x%04X, not 0x%04X'' [Num (ucast ident), Num (ucast BMHD_ID)] @
         when_problem (hwcfg \<noteq> 3 \<and> hwcfg \<noteq> 4 \<and> hwcfg \<noteq> 6 \<and> hwcfg \<noteq> 7)
           ''BMI.HWCFG is %u; only 3, 4, 6, 7 are valid'' [Num (ucast hwcfg)] @
         (if stad mod 4 \<noteq> 0 then [Fmt ''STAD 0x%08X is not word aligned'' [Num stad]]
          else when_problem (stad AND 0xDF000000 \<noteq> 0x80000000)
            ''STAD 0x%08X is outside program flash (0x80000000--0x80FFFFFF or 0xA0000000--0xA0FFFFFF)'' [Num stad]) @
         when_problem (crc \<noteq> expected) ''CRCBMHD is 0x%08X, computed 0x%08X'' [Num crc, Num expected] @
         when_problem (complement \<noteq> NOT expected) ''CRCBMHD_N is 0x%08X, expected 0x%08X''
           [Num complement, Num (NOT expected)])"

definition check :: "ucb_block \<Rightarrow> u8 list \<Rightarrow> ucb_text list" where
  "check b blob =
     (if list_all (\<lambda>x. x = ERASED_BYTE) (take UCB_BYTES blob)
      then [Fmt ''erased (all 0x%02X)'' [Num (ucast ERASED_BYTE)]]
      else check_codes b blob @ (if ub_is_bmhd b then check_bmhd blob else []))"

definition set_bits :: "u32 \<Rightarrow> nat list" where
  "set_bits w = filter (bit w) [0..<32]"

definition state_on_target :: "dev \<Rightarrow> ucb_block \<Rightarrow> ('e ucb_scheme, ucb_text) state" where
  "state_on_target D b = do {
     (err, word) \<leftarrow> dap_probe_read32 D (CONFIRM_BASE + 4 * ucast (ub_confirm_register b)) 0;
     if err \<noteq> ESP_OK then do {
       dap_probe_clear_error_state D;
       ret (Str ''unreadable'') }
     else if length (set_bits (ub_confirm_mask b)) \<noteq> 2
     then ret (Fmt ''bit %d %s'' [Num (of_nat (last (set_bits (ub_confirm_mask b)))),
       Str (if word AND ub_confirm_mask b \<noteq> 0 then ''set'' else ''clear'')])
     else do {
       let shift = (case find (\<lambda>k. drop_bit (2 * k) (ub_confirm_mask b) AND 3 = 3) [0..<16] of
                      None \<Rightarrow> 0 | Some k \<Rightarrow> 2 * k);
       ret (Str ([''UNREAD'', ''UNLOCKED'', ''CONFIRMED'', ''ERRORED''] !
         unat (drop_bit shift (word AND ub_confirm_mask b) AND 3))) } }"

definition read_block :: "dev \<Rightarrow> ucb_block \<Rightarrow> ('e ucb_scheme, esp_err \<times> u8 list) state" where
  "read_block D b = tricore_read_mem D (ub_base b) UCB_BYTES"

text \<open>The offsets at which two versions of a block differ, in order.\<close>

definition differences :: "u8 list \<Rightarrow> u8 list \<Rightarrow> nat list" where
  "differences img target = filter (\<lambda>i. img ! i \<noteq> target ! i) [0..<UCB_BYTES]"

section \<open>The plan\<close>

datatype ucb_action = ACT_WRITE | ACT_SKIP | ACT_REFUSE

record decision =
  de_block :: ucb_block
  de_action :: ucb_action
  de_state :: ucb_text
  de_reason :: ucb_text

definition decide :: "ucb_block \<Rightarrow> ucb_action \<Rightarrow> ucb_text \<Rightarrow> ucb_text \<Rightarrow> decision" where
  "decide b action state reason = \<lparr>de_block = b, de_action = action, de_state = state, de_reason = reason\<rparr>"

definition blob_of :: "tricore_ucb_image \<Rightarrow> ucb_block \<Rightarrow> u8 list" where
  "blob_of img b = map (\<lambda>i. ui_data img (unat (ub_base b - TRICORE_UCB_BASE) + i)) [0..<UCB_BYTES]"

definition confirmed_at :: "ucb_block \<Rightarrow> u8 list \<Rightarrow> nat list" where
  "confirmed_at b blob = filter (\<lambda>off. loader_le32 blob off = CODE_CONFIRMED) (code_offsets b)"

definition plan_block :: "dev \<Rightarrow> tricore_ucb_image \<Rightarrow> ucb_block \<Rightarrow> ('e ucb_scheme, decision) state" where
  "plan_block D img b =
     (let blob = blob_of img b
      in if \<not> is_owned b then ret (decide b ACT_SKIP (Str '''') (Str (not_owned_reason (ub_name b))))
         else if check b blob \<noteq> [] then ret (decide b ACT_REFUSE (Str '''') (Joined (check b blob)))
         else if confirmed_at b blob \<noteq> []
         then ret (decide b ACT_REFUSE (Str '''') (Fmt (''the image would confirm the block (%s holds 0x%08X), '' @
                ''and this tool has no unlock path to undo that'')
                [Joined (map (\<lambda>off. Num (of_nat off)) (confirmed_at b blob)), Num CODE_CONFIRMED]))
         else do {
           state \<leftarrow> state_on_target D b;
           if state \<noteq> Str ''UNREAD'' \<and> state \<noteq> Str ''UNLOCKED''
           then ret (decide b ACT_REFUSE state (Fmt (''the device reports %s; only UNREAD or UNLOCKED can be written '' @
                  ''without the block's password'') [state]))
           else do {
             (err, on_target) \<leftarrow> read_block D b;
             if err \<noteq> ESP_OK
             then ret (decide b ACT_REFUSE state (Str (''the device will not let us read the block (bus error), '' @
                    ''so a write could not be verified'')))
             else do {
               let differing = differences blob on_target;
               ret (if differing \<noteq> []
                    then decide b ACT_WRITE state (Fmt ''differs from the image in %u bytes'' [Num (of_nat (length differing))])
                    else decide b ACT_SKIP state (Str ''already holds the image's bytes'')) } } })"

definition image_has :: "tricore_ucb_image \<Rightarrow> ucb_block \<Rightarrow> bool" where
  "image_has img b \<longleftrightarrow> ui_present img AND push_bit (unat (slot_of b)) 1 \<noteq> 0"

primrec plan_blocks :: "dev \<Rightarrow> tricore_ucb_image \<Rightarrow> ucb_block list \<Rightarrow> ('e ucb_scheme, decision list) state" where
  "plan_blocks D img [] = ret []"
| "plan_blocks D img (b # bs) = do {
     d \<leftarrow> plan_block D img b;
     ds \<leftarrow> plan_blocks D img bs;
     ret (d # ds) }"

text \<open>The blocks in the order they are considered: the headers, then the rest.\<close>

definition considered :: "tricore_ucb_image \<Rightarrow> ucb_block list" where
  "considered img =
     filter (image_has img) (map (\<lambda>name. the (by_name name)) IMAGE_OWNED @ filter (\<lambda>b. \<not> is_owned b) BLOCKS)"

definition plan :: "dev \<Rightarrow> tricore_ucb_image \<Rightarrow> ('e ucb_scheme, decision list) state" where
  "plan D img = plan_blocks D img (considered img)"

section \<open>The writer\<close>

definition why :: "string \<Rightarrow> ucb_text list \<Rightarrow> ('e ucb_scheme, esp_err) state" where
  "why fmt args = do { modify (\<lambda>s. s\<lparr>ucb_why := Fmt fmt args\<rparr>); ret ESP_FAIL }"

definition error_names :: "u32 \<Rightarrow> ucb_text" where
  "error_names errsr = Joined (concat (map (\<lambda>p. if errsr AND fst p \<noteq> 0 then [Str (snd p)] else [])
     [(1, ''OPER (operation error)''), (2, ''SQER (command sequence error)''), (4, ''PROER (protection error)''),
      (8, ''PVER (program verify error)''), (16, ''EVER (erase verify error)'')]))"

definition ucb_wait_idle :: "dev \<Rightarrow> ucb_text \<Rightarrow> u32 \<Rightarrow> u32 \<Rightarrow> ('e ucb_scheme, esp_err) state" where
  "ucb_wait_idle D what address timeout_ms = do {
     fstat (\<lambda>f. f\<lparr>fs_errsr := 0\<rparr>);
     err \<leftarrow> tricore_flash_wait_idle D address timeout_ms;
     if err = ESP_ERR_TIMEOUT then why ''%s did not finish within %u s'' [what, Num (timeout_ms div 1000)]
     else if err \<noteq> ESP_OK then do {
       errsr \<leftarrow> gets (\<lambda>s. fs_errsr (flash_status s));
       why ''%s failed: %s'' [what, error_names errsr] }
     else ret ESP_OK }"

definition ucb_check_page_mode :: "dev \<Rightarrow> ucb_block \<Rightarrow> ('e ucb_scheme, esp_err) state" where
  "ucb_check_page_mode D b = do {
     clear_status D;
     err \<leftarrow> csi_cycle D CYCLE_5554 CMD_ENTER_PAGE_DFLASH;
     (err, status) \<leftarrow> (if err \<noteq> ESP_OK then ret (err, 0) else dap_probe_read32 D DMU_HF_STATUS 0);
     if err \<noteq> ESP_OK
     then why ''data flash did not enter page mode for %s (the probe lost the target)'' [Str (ub_name b)]
     else do {
       (err, errsr) \<leftarrow> dap_probe_read32 D DMU_HF_ERRSR 0;
       clear_status D;
       if status AND STATUS_DFPAGE = 0
       then why ''data flash did not enter page mode for %s (%s)''
         [Str (ub_name b), if errsr AND ERRSR_FAILED \<noteq> 0 then error_names errsr else Str ''no error reported'']
       else ret ESP_OK } }"

definition ucb_erase :: "dev \<Rightarrow> ucb_block \<Rightarrow> ('e ucb_scheme, esp_err) state" where
  "ucb_erase D b = do {
     let what = Fmt ''erase of %s'' [Str (ub_name b)];
     clear_status D;
     err \<leftarrow> csi_cycles D [(CYCLE_AA50, ub_base b), (CYCLE_AA58, 1), (CYCLE_AAA8, CMD_ERASE_SETUP), (CYCLE_AAA8, CMD_ERASE)];
     if err \<noteq> ESP_OK then why ''%s: the probe lost the target'' [what]
     else do {
       err \<leftarrow> ucb_wait_idle D what (ub_base b) ERASE_TIMEOUT_MS;
       if err \<noteq> ESP_OK then ret ESP_FAIL
       else do {
         clear_status D;
         (err, after) \<leftarrow> read_block D b;
         if err \<noteq> ESP_OK then why ''%s could not be read back after the erase'' [Str (ub_name b)]
         else do {
           let unerased = filter (\<lambda>i. after ! i \<noteq> ERASED_BYTE) [0..<UCB_BYTES];
           if unerased \<noteq> []
           then why ''%s is not erased after the erase command: %u bytes still set, first at +0x%03X''
             [Str (ub_name b), Num (of_nat (length unerased)), Num (of_nat (hd unerased))]
           else ret ESP_OK } } } }"

text \<open>The cycles that program a page.\<close>

definition page_cycles :: "u32 \<Rightarrow> u8 list \<Rightarrow> (u32 \<times> u32) list" where
  "page_cycles address page =
     [(CYCLE_5554, CMD_CLEAR_STATUS), (CYCLE_5554, CMD_ENTER_PAGE_DFLASH), (CYCLE_55F0, loader_le32 page 0),
      (CYCLE_55F4, loader_le32 page 4), (CYCLE_AA50, address), (CYCLE_AA58, 0), (CYCLE_AAA8, CMD_WRITE_PAGE),
      (CYCLE_AAA8, CMD_PROGRAM)]"

definition program_page :: "dev \<Rightarrow> u32 \<Rightarrow> u8 list \<Rightarrow> ('e ucb_scheme, esp_err) state" where
  "program_page D address page = do {
     let what = Fmt ''program of 0x%08X'' [Num address];
     err \<leftarrow> csi_cycles D (page_cycles address page);
     if err \<noteq> ESP_OK then why ''%s: the probe lost the target'' [what]
     else do {
       err \<leftarrow> ucb_wait_idle D what address PROGRAM_TIMEOUT_MS;
       if err \<noteq> ESP_OK then ret ESP_FAIL else clear_status D } }"

definition page_of :: "u8 list \<Rightarrow> nat \<Rightarrow> u8 list" where
  "page_of blob off = take UCB_PAGE_SIZE (drop off blob)"

definition state_page :: nat where
  "state_page = STATE_OFFSET - STATE_OFFSET mod UCB_PAGE_SIZE"

text \<open>The pages in the order they are programmed: the one with the confirmation word last.\<close>

definition page_order :: "nat list" where
  "page_order = filter (\<lambda>off. off \<noteq> state_page) (map (\<lambda>k. k * UCB_PAGE_SIZE) [0..<UCB_BYTES div UCB_PAGE_SIZE]) @ [state_page]"

definition program_at :: "dev \<Rightarrow> ucb_block \<Rightarrow> u8 list \<Rightarrow> nat \<Rightarrow> ('e ucb_scheme, esp_err) state" where
  "program_at D b blob off = program_page D (ub_base b + of_nat off) (page_of blob off)"

definition write_block :: "dev \<Rightarrow> ucb_block \<Rightarrow> u8 list \<Rightarrow> ('e ucb_scheme, esp_err \<times> ucb_text list) state" where
  "write_block D b blob = do {
     halted \<leftarrow> tricore_is_halted D 0;
     if \<not> halted
     then do { err \<leftarrow> why ''the core must be halted to write %s; it is running'' [Str (ub_name b)]; ret (err, []) }
     else do {
       err \<leftarrow> ucb_check_page_mode D b;
       err \<leftarrow> (if err \<noteq> ESP_OK then ret err else ucb_erase D b);
       if err \<noteq> ESP_OK then ret (ESP_FAIL, [])
       else do {
         err \<leftarrow> for_ok (program_at D b blob) page_order;
         if err \<noteq> ESP_OK then ret (ESP_FAIL, [])
         else do {
           (err, after) \<leftarrow> read_block D b;
           if err \<noteq> ESP_OK
           then do { err \<leftarrow> why ''%s could not be read back after programming'' [Str (ub_name b)]; ret (err, []) }
           else do {
             let differing = differences blob after;
             let problems = check b after;
             if differing \<noteq> []
             then do {
               err \<leftarrow> why ''read-back differs in %u bytes, first at +0x%03X (wrote 0x%02X, read 0x%02X)''
                 [Num (of_nat (length differing)), Num (of_nat (hd differing)), Num (ucast (blob ! hd differing)),
                  Num (ucast (after ! hd differing))];
               ret (err, problems) }
             else if problems \<noteq> []
             then do { err \<leftarrow> why ''programmed, but the block does not pass the formal check'' []; ret (err, problems) }
             else do {
               modify (\<lambda>s. s\<lparr>ucb_why := Str ''programmed and verified''\<rparr>);
               ret (ESP_OK, []) } } } } } }"

section \<open>The whole run\<close>

definition report_decision :: "decision \<Rightarrow> ('e ucb_scheme, unit) state" where
  "report_decision d = report ''  %-14s %-8s %s%s%s%s''
     [Str (ub_name (de_block d)), Str (case de_action d of ACT_WRITE \<Rightarrow> ''write'' | ACT_SKIP \<Rightarrow> ''skip'' | ACT_REFUSE \<Rightarrow> ''REFUSED''),
      Str (if de_state d \<noteq> Str [] then ''['' else []), de_state d, Str (if de_state d \<noteq> Str [] then ''] '' else []),
      de_reason d]"

text \<open>One decision to write; the count of failures is carried along.\<close>

definition carry_out :: "dev \<Rightarrow> tricore_ucb_image \<Rightarrow> decision \<Rightarrow> nat \<Rightarrow> ('e ucb_scheme, nat) state" where
  "carry_out D img d failed =
     (if de_action d \<noteq> ACT_WRITE then ret failed
      else do {
        t0 \<leftarrow> esp_timer_get_time D;
        (err, problems) \<leftarrow> write_block D (de_block d) (blob_of img (de_block d));
        t1 \<leftarrow> esp_timer_get_time D;
        reason \<leftarrow> gets ucb_why;
        report ''  %-14s %s: %s (%u.%u s)''
          [Str (ub_name (de_block d)), Str (if err = ESP_OK then ''ok'' else ''FAILED''), reason, Num (ms_between t0 t1)];
        if_do (problems \<noteq> []) (report ''                 %s'' [Joined problems]);
        ret (if err = ESP_OK then failed else failed + 1) })"

text \<open>What follows the plan.\<close>

definition run_decisions :: "dev \<Rightarrow> tricore_ucb_image \<Rightarrow> decision list \<Rightarrow> ('e ucb_scheme, esp_err) state" where
  "run_decisions D img decisions = do {
     report ''user configuration blocks:'' [];
     if_do (decisions = []) (report ''  the image carries none'' []);
     for_each report_decision decisions;
     let writing = length (filter (\<lambda>d. de_action d = ACT_WRITE) decisions);
     let refused = length (filter (\<lambda>d. de_action d = ACT_REFUSE) decisions);
     if writing = 0 then do {
       report ''  nothing to write'' [];
       ret (if refused \<noteq> 0 then ESP_FAIL else ESP_OK) }
     else do {
       report ''programming %u block(s) ...'' [Num (of_nat writing)];
       failed \<leftarrow> for_acc (carry_out D img) decisions 0;
       clear_status D;
       if_do (failed \<noteq> 0) (report ''  %u block(s) failed'' [Num (of_nat failed)]);
       ret (if failed \<noteq> 0 \<or> refused \<noteq> 0 then ESP_FAIL else ESP_OK) } }"

definition tricore_ucb_program :: "dev \<Rightarrow> tricore_ucb_image option \<Rightarrow> ('e ucb_scheme, esp_err) state" where
  "tricore_ucb_program D wanted = do {
     modify (\<lambda>s. s\<lparr>ucb_report := []\<rparr>);
     case wanted of
       None \<Rightarrow> ret ESP_ERR_INVALID_ARG
     | Some img \<Rightarrow> do {
         decisions \<leftarrow> plan D img;
         run_decisions D img decisions } }"

end
