(* ===== verification/Flash_Write.thy ===== *)
theory Flash_Write
  imports Flash_Ucb
begin

text \<open>
  The whole-image path with the session around it, for the web flasher (\<open>tricore_flash.c\<close>, last part): begin,
  apply, the boot mode headers, end; and what it gives back however it ends.
\<close>

definition tricore_flash_set_ucb :: "tricore_ucb_image option \<Rightarrow> ('e flash_scheme, unit) state" where
  "tricore_flash_set_ucb img = modify (\<lambda>s. s\<lparr>ucb_wanted := img\<rparr>)"

definition write_locked :: "dev \<Rightarrow> tricore_flash_region list \<Rightarrow> ('e ucb_scheme, esp_err) state" where
  "write_locked D regions =
     (if regions = [] then ret ESP_ERR_INVALID_ARG
      else do {
        err \<leftarrow> tricore_flash_begin D;
        if err \<noteq> ESP_OK then ret ESP_FAIL
        else do {
          err \<leftarrow> tricore_flash_apply D regions;
          if err \<noteq> ESP_OK then ret ESP_FAIL
          else do {
            wanted \<leftarrow> gets ucb_wanted;
            if_do (wanted \<noteq> None) (do {
              tricore_flash_set_phase D TRICORE_FLASH_PROGRAMMING (Some (''programming the boot mode headers'', []));
              err \<leftarrow> tricore_ucb_program D wanted;
              fstat (\<lambda>f. f\<lparr>fs_ucb := (if err = ESP_OK then TRICORE_FLASH_UCB_OK else TRICORE_FLASH_UCB_FAILED)\<rparr>) });
            tricore_flash_set_phase D TRICORE_FLASH_DONE (Some (''starting the target'', []));
            err \<leftarrow> tricore_flash_end D True;
            if err \<noteq> ESP_OK then ret ESP_FAIL
            else do {
              outcome \<leftarrow> gets (\<lambda>s. fs_ucb (flash_status s));
              if outcome = TRICORE_FLASH_UCB_FAILED then do {
                tricore_flash_set_phase D TRICORE_FLASH_FAILED (Some (''programmed, verified and started, but '' @
                  ''a boot mode header was refused or failed (UCB report)'', []));
                ret ESP_FAIL }
              else do {
                tricore_flash_set_phase D TRICORE_FLASH_DONE (Some (''programmed, verified and started'', []));
                ret ESP_OK } } } } })"

definition tricore_flash_write :: "dev \<Rightarrow> tricore_flash_region list \<Rightarrow> ('e ucb_scheme, esp_err) state" where
  "tricore_flash_write D regions = do {
     modify (\<lambda>s. s\<lparr>flash_active := True\<rparr>);
     stop_trace D;
     dap_lock;
     err \<leftarrow> write_locked D regions;
     session_unlock D;
     dap_unlock;
     modify (\<lambda>s. s\<lparr>flash_active := False\<rparr>);
     ret err }"

end
