(* ===== verification/Flash_Returns.thy ===== *)
theory Flash_Returns
  imports Flash_Write
begin

unbundle bit_operations_syntax

text \<open>
  Every operation of the flasher returns: the frame \<open>prompt\<close> (no polling loop used up its bound, the history only
  grew) through the trace layers, the loader, the stages and the boot mode headers.
\<close>

section \<open>Every operation returns\<close>

lemma prompt_more_fields [prompt_frame]:
  "(\<And>s. hung (f s) = hung s \<and> hist (f s) = hist s) \<Longrightarrow> rel prompt (modify f)"
  by (simp add: rel_def prompt_def)

lemma prompt_fstat [prompt_frame]: "rel prompt (fstat f)"
  unfolding fstat_def by (intro prompt_frame) simp

lemma prompt_phase [prompt_frame]: "rel prompt (tricore_flash_set_phase D p m)" "rel prompt (flash_fail D fmt args)"
  unfolding flash_fail_def tricore_flash_set_phase_def by (intro prompt_frame)+

lemma prompt_cycle [prompt_frame]: "rel prompt (csi_cycle D off v)" "rel prompt (clear_status D)" "rel prompt (csi_cycles D cs)"
  unfolding csi_cycles_def clear_status_def csi_cycle_def by (intro prompt_frame)+

lemma prompt_wait_idle [prompt_frame]:
  "polls_for D (uint t) \<Longrightarrow> rel prompt (tricore_flash_wait_idle D a t)"
  unfolding tricore_flash_wait_idle_def
  by (rule poll_prompt) (auto simp: polls_for_def intro!: prompt_frame)

lemma prompt_dmu [prompt_frame]:
  "rel prompt (tricore_flash_layout D)" "rel prompt (tricore_flash_clear_safety_endinit D)"
  "rel prompt (tricore_flash_check_swap D)" "rel prompt (tricore_flash_safe_shutdown D)" "rel prompt (check_page_mode D)"
  unfolding tricore_flash_layout_def tricore_flash_clear_safety_endinit_def tricore_flash_check_swap_def
    tricore_flash_safe_shutdown_def check_page_mode_def Let_def
  by (intro prompt_frame; simp)+

lemma prompt_erase [prompt_frame]:
  "polls_for D 5000 \<Longrightarrow> rel prompt (erase_range D a n)" "polls_for D 5000 \<Longrightarrow> rel prompt (erase_sector D a)"
  unfolding erase_sector_def erase_range_def by (intro prompt_frame; erule polls_mono, simp)+

lemma prompt_erase_sectors [prompt_frame]: "polls_for D 5000 \<Longrightarrow> rel prompt (erase_sectors D xs)"
  by (induction D xs rule: erase_sectors.induct) (auto simp: erase_sectors.simps Let_def intro!: prompt_frame)


lemma prompt_sends [prompt_frame]:
  "rel prompt (send_command D c lf d n rb out)" "rel prompt (dap_phy_fpga_exchange D c lf data dn rb)"
  "rel prompt (dap_phy_fpga_set_wide D b)" "rel prompt (dap_phy_fpga_set_raw_window b)"
  "rel prompt (dap_phy_fpga_set_div dv)" "rel prompt (dap_phy_fpga_set_skew a b2)"
  "rel prompt (dap_phy_fpga_set_trst b)" "rel prompt (dap_phy_fpga_set_fast b)" "rel prompt (dap_phy_fpga_set_fast_timing l e1 e2)"
  unfolding dap_phy_fpga_exchange_def dap_phy_fpga_set_wide_def dap_phy_fpga_set_raw_window_def
    dap_phy_fpga_set_div_def dap_phy_fpga_set_skew_def dap_phy_fpga_set_trst_def dap_phy_fpga_set_fast_def
    dap_phy_fpga_set_fast_timing_def
  by (intro prompt_frame)+

lemma prompt_attach [prompt_frame]: "rel prompt (dap_probe_attach D out n)" "rel prompt (dap_probe_client_set D c out)"
  "rel prompt (dap_probe_set_rw_mode D b)" "rel prompt (dap_probe_enable_ocds D)"
proof -
  have "rel prompt (attach_loop D n err out)" for err
    unfolding dap_probe_sync_def
    by (induction n arbitrary: err out) (auto simp: dap_probe_sync_def intro!: prompt_frame)
  then show "rel prompt (dap_probe_attach D out n)" by (simp add: dap_probe_attach_def)
  show "rel prompt (dap_probe_client_set D c out)" "rel prompt (dap_probe_set_rw_mode D b)" "rel prompt (dap_probe_enable_ocds D)"
    unfolding dap_probe_client_set_def dap_probe_set_rw_mode_def dap_probe_set_rw_mode_locked_def
      dap_probe_client_read_def dap_probe_client_write_def dap_probe_enable_ocds_def dap_probe_enable_ocds_locked_def
    by (intro prompt_frame)+
qed

lemma prompt_wide [prompt_frame]: "rel prompt (dap_wide_exit D)" "rel prompt dap_fast_exit"
proof -
  show "rel prompt (dap_wide_exit D)"
    unfolding dap_wide_exit_def dap_dapisc_narrow_def raw_exchange_def by (intro prompt_frame; simp)
  show "rel prompt dap_fast_exit"
    unfolding dap_fast_exit_def timing_at_div_def by (intro prompt_frame; simp)
qed

lemma prompt_publish [prompt_frame]: "rel prompt (publish_flags par ws lost extra)" "rel prompt (count f)"
proof -
  show "rel prompt (publish_flags par ws lost extra)" by (rule publish_rel) (simp add: prompt_def)
  show "rel prompt (count f)" unfolding count_def by (intro prompt_frame; simp)
qed

lemma prompt_group [prompt_frame]: "rel prompt (publish_group ps moved margin w to_read lost i)"
  by (induction ps arbitrary: lost i) (auto simp: Let_def publish_def intro!: prompt_frame)

lemma prompt_chain [prompt_frame]: "rel prompt (publish_chain left pw moved margin prev to_read lost i)"
  by (induction left pw moved margin prev to_read lost i rule: publish_chain.induct, subst publish_chain.simps)
    (intro prompt_frame, blast)

lemma prompt_chains [prompt_frame]: "rel prompt (drain_chains D to_read margin moved prev lost i)"
  by (induction D to_read margin moved prev lost i rule: drain_chains.induct, subst drain_chains.simps)
    (intro prompt_frame, blast)

lemma prompt_drain [prompt_frame]: "rel prompt (drain_to D now ovr)"
  unfolding drain_to_def by (intro prompt_frame; simp)

lemma prompt_trace [prompt_frame]: "rel prompt (dap_trace_finish D)" "rel prompt (dap_trace_stop D)"
proof -
  show "rel prompt (dap_trace_finish D)" unfolding dap_trace_finish_def by (intro prompt_frame; simp)
  have "rel prompt (await_task D n)" for n by (induction n) (auto intro!: prompt_frame)
  then show "rel prompt (dap_trace_stop D)" unfolding dap_trace_stop_def by (intro prompt_frame; simp)
qed

lemma prompt_mcds [prompt_frame]: "rel prompt (dap_mcds_stop D)" "rel prompt (stop_trace D)"
proof -
  have "rel prompt (await_flush D n)" for n by (induction n) (auto intro!: prompt_frame)
  moreover have "rel prompt (mcds_reset D)"
  proof -
    have "rel prompt (await_reset D n)" for n by (induction n) (auto intro!: prompt_frame)
    then show ?thesis unfolding mcds_reset_def by (intro prompt_frame)
  qed
  ultimately show "rel prompt (dap_mcds_stop D)"
    unfolding dap_mcds_stop_def restore_link_def by (intro prompt_frame; simp)
  then show "rel prompt (stop_trace D)" unfolding stop_trace_def by (intro prompt_frame)
qed


lemma prompt_loader_ops [prompt_frame]:
  "rel prompt (link_up D)" "rel prompt (reset_attempts D n)" "rel prompt (tricore_disarm_reset_trigger D)"
  "rel prompt (tricore_flash_reset_and_halt D)" "rel prompt (check_blob_word D b i)" "rel prompt (write_chunk D a ws)"
proof -
  show l: "rel prompt (link_up D)" for D unfolding link_up_def by (intro prompt_frame)
  show r: "rel prompt (reset_attempts D n)" for D n by (induction n) (auto intro!: prompt_frame l)
  show d: "rel prompt (tricore_disarm_reset_trigger D)" for D
    unfolding tricore_disarm_reset_trigger_def disarm_reset_core_def tricore_rd_def tricore_wr_def Let_def
    by (intro prompt_frame)
  show "rel prompt (tricore_flash_reset_and_halt D)"
    unfolding tricore_flash_reset_and_halt_def by (intro prompt_frame r d)
  show "rel prompt (check_blob_word D b i)" unfolding check_blob_word_def by (intro prompt_frame)
  show "rel prompt (write_chunk D a ws)" unfolding write_chunk_def by (intro prompt_frame)
qed

lemma prompt_write_block [prompt_frame]: "rel prompt (tricore_flash_write_block D a bs)"
proof -
  have "rel prompt (write_chunks D a bs)"
    by (induction D a bs rule: write_chunks.induct, subst write_chunks.simps) (auto simp: Let_def intro!: prompt_frame)
  then show ?thesis unfolding tricore_flash_write_block_def by (intro prompt_frame)
qed

lemma prompt_halt_all [prompt_frame]: "polls_for D 500 \<Longrightarrow> rel prompt (halt_all D)"
  unfolding halt_all_def halt_sibling_def by (intro prompt_frame; erule polls_mono, simp)

lemma prompt_load_blob [prompt_frame]: "rel prompt (load_blob D)"
  unfolding load_blob_def by (intro prompt_frame)

lemma prompt_install [prompt_frame]: "polls_for D 500 \<Longrightarrow> rel prompt (tricore_flash_install_loader D)"
  unfolding tricore_flash_install_loader_def measure_stm_hz_def by (intro prompt_frame; (assumption | simp))


text \<open>The wait for the stub has more rounds than microseconds, and each round that goes on delays.\<close>

lemma prompt_time: "clock_ok D \<Longrightarrow> prompt s s' \<Longrightarrow> d_time D (hist s) \<le> d_time D (hist s')"
  by (auto simp: prompt_def intro: clock_mono)

lemma loader_wait_returns:
  fixes s :: "'e flash_scheme"
  assumes clock: "clock_ok D" and rounds: "deadline < d_time D (hist s) + int n" "n > 0"
  shows "prompt s (final (loader_wait D n started deadline) s)"
  using rounds
proof (induction n arbitrary: s)
  case (Suc n)
  let ?s1 = "s\<lparr>hist := EvTime # hist s\<rparr>"
  have s1: "prompt s ?s1" by (simp add: prompt_def)
  obtain err w s2 where s2: "run (tricore_dbgsr D 0 0) ?s1 = ((err, w), s2)" by (metis prod.exhaust_sel)
  have p2: "prompt ?s1 s2" using relD [OF prompt_dbgsr(1) s2] .
  let ?s3 = "s2\<lparr>hist := EvTime # hist s2\<rparr>"
  define e where "e = (if d_time D (hist ?s3) - started < 20000 then EvRomDelay 250 else EvDelay 10)"
  let ?s4 = "?s3\<lparr>hist := e # hist ?s3\<rparr>"
  have p4: "prompt s ?s4"
    using prompt.R_trans [OF prompt.R_trans [OF s1 p2], of ?s4] by (auto simp: prompt_def)
  have "d_time D (hist s) \<le> d_time D (hist ?s1)" "d_time D (hist ?s1) \<le> d_time D (hist ?s3)"
    using prompt_time [OF clock s1] prompt_time [OF clock prompt.R_trans [OF p2, of ?s3]] by (auto simp: prompt_def)
  moreover have "d_time D (hist ?s3) + 1 \<le> d_time D (hist ?s4)"
    using clock by (auto simp: clock_ok_def e_def)
  ultimately have t4: "d_time D (hist s) + 1 \<le> d_time D (hist ?s4)" "d_time D (hist s) \<le> d_time D (hist ?s1)" by auto
  show ?case
  proof (cases "d_time D (hist ?s1) < deadline \<and> \<not> (err = ESP_OK \<and> w AND 2 \<noteq> 0)")
    case True
    then have "0 < n" using Suc.prems(1) t4(2) by (cases n) auto
    have "final (loader_wait D (Suc n) started deadline) s = final (loader_wait D n started deadline) ?s4"
      using True s2 by (auto simp: final_def esp_timer_get_time_def vTaskDelay_def e_def)
    moreover have "prompt ?s4 (final (loader_wait D n started deadline) ?s4)"
      by (rule Suc.IH) (use Suc.prems(1) t4(1) \<open>0 < n\<close> in auto)
    ultimately show ?thesis using prompt.R_trans [OF p4] by simp
  next
    case False
    then have "final (loader_wait D (Suc n) started deadline) s = ?s1 \<or>
        final (loader_wait D (Suc n) started deadline) s = s2"
      using s2 by (auto simp: final_def esp_timer_get_time_def)
    then show ?thesis using s1 prompt.R_trans [OF s1 p2] by auto
  qed
qed simp

lemma prompt_loader_wait:
  fixes f :: "int \<Rightarrow> ('e flash_scheme, 'r) state"
  assumes "polls_for D (uint t)" "\<And>t. rel prompt (f t)"
  shows "rel prompt (do { started \<leftarrow> esp_timer_get_time D;
    loader_wait D (d_polls D) started (started + uint (t :: u32) * 1000); f started } :: ('e flash_scheme, 'r) state)"
proof (rule relI)
  fix s s' :: "'e flash_scheme" and r
  let ?s1 = "s\<lparr>hist := EvTime # hist s\<rparr>" and ?t = "d_time D (EvTime # hist s)"
  assume "run (do { started \<leftarrow> esp_timer_get_time D;
    loader_wait D (d_polls D) started (started + uint t * 1000); f started } :: ('e flash_scheme, 'r) state) s = (r, s')"
  then have r: "run (f ?t) (final (loader_wait D (d_polls D) ?t (?t + uint t * 1000)) ?s1) = (r, s')"
    by (simp add: final_def esp_timer_get_time_def split: prod.splits)
  have "0 < d_polls D" using assms(1) uint_ge_0 [of t] unfolding polls_for_def by linarith
  then have "prompt ?s1 (final (loader_wait D (d_polls D) ?t (?t + uint t * 1000)) ?s1)"
    using assms(1) by (intro loader_wait_returns) (auto simp: polls_for_def)
  moreover have "prompt s ?s1" by (simp add: prompt_def)
  ultimately show "prompt s s'" using relD [OF assms(2) r] prompt.R_trans by blast
qed

lemma prompt_read_out [prompt_frame]: "rel prompt (read_out D is out)"
  by (induction "is" arbitrary: out) (auto intro!: prompt_frame)

lemma prompt_point [prompt_frame]: "rel prompt (point_at_loader D)" "rel prompt (dump_stop D)"
  unfolding point_at_loader_def dump_stop_def tricore_write_pc_def tricore_write_reg_def require_halted_def tricore_wr_def
  by (intro prompt_frame)+

lemma prompt_run_loader [prompt_frame]: "polls_for D (max (uint t) 2000) \<Longrightarrow> rel prompt (tricore_flash_run_loader D c a n t out)"
  unfolding tricore_flash_run_loader_def
  by (intro prompt_frame prompt_loader_wait; erule polls_mono, simp)


section \<open>The stages\<close>

lemma prompt_session [prompt_frame]: "rel prompt (flash_clock D b)" "rel prompt (session_unlock D)"
  unfolding session_unlock_def flash_clock_def by (intro prompt_frame; simp)+

lemma prompt_begin [prompt_frame]: "polls_for D 500 \<Longrightarrow> rel prompt (tricore_flash_begin D)"
  unfolding tricore_flash_begin_def begin_locked_def by (intro prompt_frame; (assumption | simp))

lemma prompt_program [prompt_frame]: "polls_for D 20000 \<Longrightarrow> rel prompt (tricore_flash_program D a bs)"
proof -
  assume ok: "polls_for D 20000"
  have c: "polls_for D 20000 \<Longrightarrow> rel prompt (program_chunk D a bs)" for D a bs
    unfolding program_chunk_def by (intro prompt_frame; (erule polls_mono)?; simp)
  from ok have "rel prompt (program_chunks D a bs)"
    by (induction D a bs rule: program_chunks.induct, subst program_chunks.simps)
      (auto simp: Let_def intro!: prompt_frame c)
  then show ?thesis unfolding tricore_flash_program_def by (intro prompt_frame)
qed

text \<open>The time-outs of the checksum grow with the length, the longest being that of the whole address space.\<close>

definition longest_ms :: int where
  "longest_ms = 8591934"

lemma uint_div_bound: "0 < k \<Longrightarrow> 0 \<le> uint (len :: u32) div k \<and> uint len div k \<le> 4294967295 div k"
proof -
  have "uint len < 2 ^ 32" using unsigned_less [of len] by simp
  then show "0 < k \<Longrightarrow> 0 \<le> uint len div k \<and> uint len div k \<le> 4294967295 div k"
    by (auto intro!: zdiv_mono1 pos_imp_zdiv_nonneg_iff [THEN iffD2])
qed

lemma checksum_timeout: "uint (2000 + len div 500 :: u32) \<le> 2000 + uint len div 500" "uint (60 + len div 2000 :: u32) \<le> 60 + uint len div 2000"
  "uint (2000 + len div 500 :: u32) \<le> longest_ms" "uint (60 + len div 2000 :: u32) \<le> longest_ms"
proof -
  have add: "uint (a + b) \<le> uint a + uint b" for a b :: u32
    by (simp only: uint_word_ariths(1)) (intro zmod_le_nonneg_dividend, simp)
  show a: "uint (2000 + len div 500) \<le> 2000 + uint len div 500" "uint (60 + len div 2000) \<le> 60 + uint len div 2000"
    using add [of 2000 "len div 500"] add [of 60 "len div 2000"] by (simp_all add: uint_div)
  show "uint (2000 + len div 500) \<le> longest_ms" "uint (60 + len div 2000) \<le> longest_ms"
    using a uint_div_bound [of 500 len] uint_div_bound [of 2000 len] by (simp_all add: longest_ms_def)
qed

lemma prompt_checksum [prompt_frame]:
  "polls_for D (2000 + uint len div 500) \<Longrightarrow> rel prompt (tricore_flash_checksum D a len out)"
proof -
  assume p: "polls_for D (2000 + uint len div 500)"
  have "polls_for D (max (uint (2000 + len div 500)) 2000)" 
    using checksum_timeout(1) [of len] uint_div_bound [of 500 len] by (intro polls_mono [OF p]) simp
  then show "rel prompt (tricore_flash_checksum D a len out)" unfolding tricore_flash_checksum_def by (rule prompt_run_loader)
qed

lemma prompt_verify [prompt_frame]: "polls_for D longest_ms \<Longrightarrow> rel prompt (tricore_flash_verify D a bs)"
proof -
  assume p: "polls_for D longest_ms"
  have "polls_for D (2000 + uint len div 500)" for len :: u32
    using uint_div_bound [of 500 len] by (intro polls_mono [OF p]) (simp add: longest_ms_def)
  then show "rel prompt (tricore_flash_verify D a bs)" unfolding tricore_flash_verify_def by (intro prompt_frame)
qed

lemma prompt_erase_op: "polls_for D 5000 \<Longrightarrow> rel prompt (tricore_flash_erase D a n)"
  unfolding tricore_flash_erase_def check_erasable_def erase_one_def by (intro prompt_frame; assumption?)

lemma prompt_end [prompt_frame]: "polls_for D 500 \<Longrightarrow> rel prompt (tricore_flash_end D b)"
  unfolding tricore_flash_end_def end_locked_def start_core_def by (intro prompt_frame; (erule polls_mono)?; simp)

lemma prompt_differs [prompt_frame]: "polls_for D longest_ms \<Longrightarrow> rel prompt (sector_differs D x rs)"
proof -
  assume p: "polls_for D longest_ms"
  have "polls_for D (max (uint (60 + len div 2000 :: u32)) 2000)" for len
    using checksum_timeout(4) [of len] by (intro polls_mono [OF p]) (simp add: longest_ms_def)
  then show "rel prompt (sector_differs D x rs)"
    by (induction rs) (auto simp: target_crc_quiet_def Let_def split: prod.split intro!: prompt_frame)
qed

lemma prompt_kept [prompt_frame]:
  "polls_for D 20000 \<Longrightarrow> rel prompt (program_kept D r xs :: ('e flash_scheme, esp_err) state)"
proof (induction xs rule: length_induct)
  case (1 xs)
  show ?case
  proof (cases xs)
    case Nil
    then show ?thesis by (simp add: program_kept.simps prompt.return)
  next
    case (Cons x ys)
    with 1 have "rel prompt (program_kept D r ys :: ('e flash_scheme, esp_err) state)"
      "rel prompt (program_kept D r (drop m ys) :: ('e flash_scheme, esp_err) state)" for m by auto
    then show ?thesis unfolding Cons program_kept.simps by (intro prompt_frame 1(2))
  qed
qed

lemma prompt_compare [prompt_frame]: "polls_for D longest_ms \<Longrightarrow> rel prompt (compare_all D rs xs)"
proof -
  assume ok: "polls_for D longest_ms"
  have "rel prompt (compare_sectors D rs xs)" by (induction xs) (auto intro!: prompt_frame ok)
  then show ?thesis unfolding compare_all_def by (intro prompt_frame)
qed

lemma prompt_apply [prompt_frame]: "polls_for D longest_ms \<Longrightarrow> rel prompt (tricore_flash_apply D rs)"
  unfolding tricore_flash_apply_def write_sectors_def rewrite_kept_def verify_region_def
  by (intro prompt_frame; (erule polls_mono)?; simp add: longest_ms_def)

section \<open>The boot mode headers and the whole write\<close>

lemma prompt_report [prompt_frame]: "rel prompt (report fmt args)" "rel prompt (why fmt args)" "rel prompt (read_block D b)"
  unfolding report_def why_def read_block_def by (intro prompt_frame; simp)+

lemma prompt_plan [prompt_frame]: "rel prompt (plan D img)"
proof -
  have "rel prompt (plan_block D img b)" for b
    unfolding plan_block_def state_on_target_def by (intro prompt_frame)
  then have "rel prompt (plan_blocks D img bs)" for bs by (induction bs) (auto intro!: prompt_frame)
  then show ?thesis by (simp add: plan_def)
qed

lemma prompt_ucb_ops [prompt_frame]:
  "polls_for D (uint t) \<Longrightarrow> rel prompt (ucb_wait_idle D what a t)" "rel prompt (ucb_check_page_mode D b)"
  unfolding ucb_wait_idle_def ucb_check_page_mode_def by (intro prompt_frame; assumption?)+

lemma prompt_ucb_block [prompt_frame]: "polls_for D 10000 \<Longrightarrow> rel prompt (write_block D b blob)"
  unfolding write_block_def ucb_erase_def program_at_def program_page_def
  by (intro prompt_frame; (erule polls_mono)?; simp add: ERASE_TIMEOUT_MS_def PROGRAM_TIMEOUT_MS_def)

lemma prompt_ucb_program [prompt_frame]: "polls_for D 10000 \<Longrightarrow> rel prompt (tricore_ucb_program D wanted)"
  unfolding tricore_ucb_program_def run_decisions_def carry_out_def report_decision_def by (intro prompt_frame; (assumption | simp))

lemma prompt_write: "polls_for D longest_ms \<Longrightarrow> rel prompt (tricore_flash_write D rs)"
  unfolding tricore_flash_write_def write_locked_def
  by (intro prompt_frame; (erule polls_mono)?; simp add: longest_ms_def)

text \<open>C34: every operation of the flasher returns within its own time-outs: on a clock that runs, and whatever the target,
  the link and the image do, the waits for the flash and for the stub take at most as many polling rounds as the time-out
  they are called with has microseconds (2 s and 500 ms being the fixed ones beside the stub's), and the session's
  beginning and end (500 ms), erasing (5 s), programming (20 s), the checksum (2 s and 2 ms a kilobyte), the boot mode
  headers (10 s), verifying, the differential write and the whole-image write no more than the longest of theirs.\<close>

theorem flash_returns:
  fixes s :: "'e flash_scheme" and u :: "'f ucb_scheme"
  assumes "clock_ok D"
  defines "enough ms \<equiv> ms * 1000 < int (d_polls D)"
  shows "(enough (uint t) \<longrightarrow> hung (final (tricore_flash_wait_idle D a t) s) = hung s) \<and>
    (enough (max (uint t) 2000) \<longrightarrow> hung (final (tricore_flash_run_loader D c a n t out) s) = hung s) \<and>
    (enough 500 \<longrightarrow> hung (final (tricore_flash_begin D) s) = hung s \<and> hung (final (tricore_flash_end D b) s) = hung s) \<and>
    (enough 5000 \<longrightarrow> hung (final (tricore_flash_erase D a n) s) = hung s) \<and>
    (enough 20000 \<longrightarrow> hung (final (tricore_flash_program D a bs) s) = hung s) \<and>
    (enough (2000 + uint n div 500) \<longrightarrow> hung (final (tricore_flash_checksum D a n out) s) = hung s) \<and>
    (enough 10000 \<longrightarrow> hung (final (tricore_ucb_program D wanted) u) = hung u) \<and>
    (enough longest_ms \<longrightarrow> hung (final (tricore_flash_verify D a bs) s) = hung s \<and>
      hung (final (tricore_flash_apply D regions) s) = hung s \<and> hung (final (tricore_flash_write D regions) u) = hung u)"
proof -
  have enough: "enough ms \<Longrightarrow> polls_for D ms" for ms using assms(1) by (simp add: enough_def polls_for_def)
  have h: "hung (final m x) = hung x" if "rel prompt m" for m :: "('g phy_scheme, 'r) state" and x
    using rel_final [OF that, of x] by (simp add: prompt_def)
  show ?thesis
    by (intro conjI impI h prompt_wait_idle prompt_run_loader prompt_begin prompt_end prompt_erase_op prompt_program
        prompt_checksum prompt_ucb_program prompt_verify prompt_apply prompt_write enough)
qed

definition flash0 :: ucb where
  "flash0 = flash.extend (mcds.extend mcds0 \<lparr>use_blockwrite = True, flash_status = status_zero, started_us = 0,
     layout = [(0xA0000000, 0xA0A00000)], multi_erase = True, session_locked = False, flash_active = False,
     differential = True, ucb_wanted = None, installed = False, swap_active = False, saved_valid = False,
     saved_flashcon0 = 0, saved_pcontrol = 0, stm_hz = 0\<rparr>) \<lparr>ucb_report = [], ucb_why = Str []\<rparr>"

lemma flash0_simps [simp]:
  "hung flash0 = False" "session_locked flash0 = False" "installed flash0 = False" "swap_active flash0 = False"
  "layout flash0 = [(0xA0000000, 0xA0A00000)]" "hist flash0 = []" "mcds_running flash0 = False"
  by (simp_all add: flash0_def mcds0_def trace0_def wide0_def tc0_def tricore.defs wide.defs trace.defs mcds.defs flash.defs)

lemma flash_returns_witness:
  "\<not> hung (final (tricore_flash_write (good_dev 0) [\<lparr>rg_address = 0xA0000000, rg_length = 5, rg_data = \<lambda>_. 7\<rparr>]) flash0)"
proof -
  have "clock_ok (good_dev 0)" "int (d_polls (good_dev 0)) = 2 ^ 43" by (simp_all add: clock_ok_def good_dev_def)
  then show ?thesis
    using flash_returns [of "good_dev 0" 0 0 flash0 0 0 0 False "[]" None flash0
      "[\<lparr>rg_address = 0xA0000000, rg_length = 5, rg_data = \<lambda>_. 7\<rparr>]"] by (simp add: longest_ms_def)
qed

end
