(* ===== verification/Flash_Geometry.thy ===== *)
theory Flash_Geometry
  imports Flash_Stages
begin

unbundle bit_operations_syntax

text \<open>
  Two facts of arithmetic the flasher rests on: where the command interface finds an address when the bank groups
  are exchanged, and what CRC32 makes of the padding of a partial page.
\<close>

section \<open>Addresses of commands\<close>

lemma unat_swap_consts:
  "unat SWAP_GROUP_LOW = 0xA0000000" "unat SWAP_GROUP_HIGH = 0xA0600000" "unat SWAP_STRIDE = 0x600000"
  "unat PFLASH_CACHED = 0x80000000" "unat PFLASH_BASE = 0xA0000000" "unat (PFLASH_CACHED + PFLASH_WINDOW) = 0x81000000"
  "unat (SWAP_GROUP_HIGH + SWAP_STRIDE) = 0xA0C00000"
  by (simp_all add: geometry_consts)

lemma unat_to_physical:
  "unat (tricore_flash_to_physical a) =
     (if 0x80000000 \<le> unat a \<and> unat a < 0x81000000 then unat a + 0x20000000 else unat a)"
  unfolding tricore_flash_to_physical_def word_le_nat_alt word_less_nat_alt unat_swap_consts
  by (auto simp: unat_word_ariths(1) unat_sub word_le_nat_alt unat_swap_consts)

text \<open>The exchange of the two groups on natural numbers.\<close>

definition exchanged :: "bool \<Rightarrow> nat \<Rightarrow> nat" where
  "exchanged active p =
     (if active \<and> 0xA0000000 \<le> p \<and> p < 0xA0600000 then p + 0x600000
      else if active \<and> 0xA0600000 \<le> p \<and> p < 0xA0C00000 then p - 0x600000 else p)"

lemma exchanged_twice: "exchanged active (exchanged active p) = p"
  by (cases active; cases "p < 0xA0000000"; cases "p < 0xA0600000"; cases "p < 0xA0C00000") (auto simp: exchanged_def)

lemma unat_swapped: "unat (swapped active a) = exchanged active (unat (tricore_flash_to_physical a))"
  unfolding swapped_def exchanged_def Let_def word_le_nat_alt word_less_nat_alt unat_swap_consts
  by (auto simp: unat_word_ariths(1) unat_sub word_le_nat_alt unat_swap_consts)

lemma to_physical_id: "unat a < 0x80000000 \<or> 0x81000000 \<le> unat a \<Longrightarrow> tricore_flash_to_physical a = a"
  by (auto simp: tricore_flash_to_physical_def word_le_nat_alt word_less_nat_alt unat_swap_consts)

text \<open>\<open>command_address\<close> translates both windows of the program flash to the bank group the command
  interface must name: naming it twice gives the physical address back, so no two physical addresses share a
  command address; the flash maps to the flash, and the offset inside a 1 MB physical sector is kept, so a run of
  sectors stays a run.\<close>

theorem command_address_swaps:
  "swapped active (swapped active a) = tricore_flash_to_physical a \<and>
   unat (swapped active a) mod 0x100000 = unat a mod 0x100000 \<and>
   (0xA0000000 \<le> unat (tricore_flash_to_physical a) \<and> unat (tricore_flash_to_physical a) < 0xA0C00000 \<longleftrightarrow>
     0xA0000000 \<le> unat (swapped active a) \<and> unat (swapped active a) < 0xA0C00000)"
proof (intro conjI)
  let ?p = "unat (tricore_flash_to_physical a)"
  have "unat (swapped active a) < 0x80000000 \<or> 0x81000000 \<le> unat (swapped active a)"
    unfolding unat_swapped unat_to_physical by (auto simp: exchanged_def)
  then have "unat (swapped active (swapped active a)) = ?p"
    by (simp add: unat_swapped to_physical_id exchanged_twice)
  then show "swapped active (swapped active a) = tricore_flash_to_physical a" by (rule unsigned_word_eqI)
  have "(p + 0x600000) mod 0x100000 = p mod 0x100000" for p :: nat
    using mod_mult_self1 [of p 6 "0x100000"] by simp
  moreover have "(p - 0x600000) mod 0x100000 = p mod 0x100000" if "0x600000 \<le> p" for p :: nat
    using mod_mult_self1 [of "p - 0x600000" 6 "0x100000"] that by simp
  ultimately have "unat (swapped active a) mod 0x100000 = ?p mod 0x100000"
    by (simp add: unat_swapped exchanged_def)
  then show "unat (swapped active a) mod 0x100000 = unat a mod 0x100000"
    using mod_mult_self1 [of "unat a" 512 "0x100000"] by (simp add: unat_to_physical)
  show "(0xA0000000 \<le> ?p \<and> ?p < 0xA0C00000) = (0xA0000000 \<le> unat (swapped active a) \<and> unat (swapped active a) < 0xA0C00000)"
    by (auto simp: unat_swapped exchanged_def)
qed

section \<open>The padding of a partial page\<close>

lemma xor4: "(a XOR b) XOR (c XOR d) = (a XOR c) XOR (b XOR d)" for a b c d :: u32
  by (simp add: ac_simps)

lemma low_bit_mask: "- (a AND 1) = (if bit a 0 then - 1 else 0)" for a :: u32
  by (simp add: and_one_eq mod_2_eq_odd bit_0)

lemma crc32_step_xor: "crc32_step (a XOR b) = crc32_step a XOR crc32_step b"
  unfolding crc32_step_def low_bit_mask by (rule bit_word_eqI) (auto simp: bit_simps)

lemma crc32_steps_xor: "(crc32_step ^^ n) (a XOR b) = (crc32_step ^^ n) a XOR (crc32_step ^^ n) b"
  by (induction n) (simp_all add: crc32_step_xor)

lemma crc32_byte_xor: "crc32_byte (a XOR b) (x XOR y) = crc32_byte a x XOR crc32_byte b y"
proof -
  have "(a XOR b) XOR ucast (x XOR y) = (a XOR ucast x) XOR (b XOR ucast y)"
    by (rule bit_word_eqI) (auto simp: bit_simps)
  then show ?thesis by (simp add: crc32_byte_def crc32_steps_xor)
qed

lemma crc32_update_xor:
  "length xs = length ys \<Longrightarrow>
   crc32_update (a XOR b) (map2 (XOR) xs ys) = crc32_update a xs XOR crc32_update b ys"
  unfolding crc32_update_def
  by (induction xs ys arbitrary: a b rule: list_induct2) (simp_all add: crc32_byte_xor)

lemma crc32_append: "crc32_update c (xs @ ys) = crc32_update (crc32_update c xs) ys"
  by (simp add: crc32_update_def)

lemma crc32_step_odd: "crc32_step c = (if odd c then drop_bit 1 c XOR 0xEDB88320 else drop_bit 1 c)"
  by (auto simp: crc32_step_def and_one_eq mod_2_eq_odd)

lemma crc32_byte_steps:
  "crc32_byte c b = crc32_step (crc32_step (crc32_step (crc32_step (crc32_step (crc32_step (crc32_step (crc32_step
     (c XOR ucast b))))))))"
  by (simp add: crc32_byte_def eval_nat_numeral)

text \<open>No run of up to \<open>n\<close> bytes 0xFF brings the register back to zero.\<close>

primrec ff_nonzero :: "nat \<Rightarrow> u32 \<Rightarrow> bool" where
  "ff_nonzero 0 c \<longleftrightarrow> True"
| "ff_nonzero (Suc n) c \<longleftrightarrow> (let c' = crc32_byte c 0xFF in c' \<noteq> 0 \<and> ff_nonzero n c')"

lemma ff_nonzero: "ff_nonzero n c \<Longrightarrow> 0 < p \<Longrightarrow> p \<le> n \<Longrightarrow> crc32_update c (replicate p 0xFF) \<noteq> 0"
proof (induction n arbitrary: c p)
  case (Suc n)
  then obtain q where q: "p = Suc q" by (cases p) auto
  with Suc show ?case by (cases "q = 0") (auto simp: crc32_update_def Let_def)
qed simp

lemma crc32_ff:
  "crc32_byte 0 0xFF = 0x2D02EF8D" "crc32_byte 0x2D02EF8D 0xFF = 0xBE2612FF" "crc32_byte 0xBE2612FF 0xFF = 0xBE2612"
  "crc32_byte 0xBE2612 0xFF = 0xDEBB20E3" "crc32_byte 0xDEBB20E3 0xFF = 0x14DFE76F" "crc32_byte 0x14DFE76F 0xFF = 0xF01B4CA3"
  "crc32_byte 0xF01B4CA3 0xFF = 0x622D0693" "crc32_byte 0x622D0693 0xFF = 0x44660075" "crc32_byte 0x44660075 0xFF = 0xD290C3E"
  "crc32_byte 0xD290C3E 0xFF = 0xEC6EDB2A" "crc32_byte 0xEC6EDB2A 0xFF = 0xF6554880" "crc32_byte 0xF6554880 0xFF = 0xC04C39E5"
  "crc32_byte 0xC04C39E5 0xFF = 0xFDA2B543" "crc32_byte 0xFDA2B543 0xFF = 0xC22A5D12" "crc32_byte 0xC22A5D12 0xFF = 0xDE79B498"
  "crc32_byte 0xDE79B498 0xFF = 0xD3088D4F" "crc32_byte 0xD3088D4F 0xFF = 0xCBB2BB01" "crc32_byte 0xCBB2BB01 0xFF = 0x5ACE6DA0"
  "crc32_byte 0x5ACE6DA0 0xFF = 0xFB8E8208" "crc32_byte 0xFB8E8208 0xFF = 0x2322E93D" "crc32_byte 0x2322E93D 0xFF = 0x75498175"
  "crc32_byte 0x75498175 0xFF = 0xD1823BF" "crc32_byte 0xD1823BF 0xFF = 0x76D159B3" "crc32_byte 0x76D159B3 0xFF = 0x7F1CDCE2"
  "crc32_byte 0x7F1CDCE2 0xFF = 0x63797005" "crc32_byte 0x63797005 0xFF = 0x5D0B6272" "crc32_byte 0x5D0B6272 0xFF = 0x9354F4FF"
  "crc32_byte 0x9354F4FF 0xFF = 0x9354F4" "crc32_byte 0x9354F4 0xFF = 0x97D24ADC" "crc32_byte 0x97D24ADC 0xFF = 0xA2F0A338"
  "crc32_byte 0xA2F0A338 0xFF = 0x5A2A7B0"
  by (simp_all only: crc32_byte_steps, simp_all add: crc32_step_odd)

lemma pad_crcs: "ff_nonzero 31 0"
  proof -
  have "(31 :: nat) = Suc (Suc (Suc (Suc (Suc (Suc (Suc (Suc (Suc (Suc (Suc (Suc (Suc (Suc (Suc (Suc (Suc (Suc (Suc (Suc (Suc
      (Suc (Suc (Suc (Suc (Suc (Suc (Suc (Suc (Suc (Suc 0))))))))))))))))))))))))))))))"
    by simp
  then show ?thesis by (simp only: ff_nonzero.simps crc32_ff Let_def) simp
qed

lemma pad_differs:
  assumes "0 < p" "p < 32"
  shows "crc32_update c (replicate p 0) \<noteq> crc32_update c (replicate p 0xFF)"
proof
  assume eq: "crc32_update c (replicate p 0) = crc32_update c (replicate p 0xFF)"
  have "map2 (XOR) (replicate p 0) (replicate p (0xFF :: u8)) = replicate p 0xFF"
    by (induction p) simp_all
  then have "crc32_update 0 (replicate p 0xFF) = crc32_update c (replicate p 0) XOR crc32_update c (replicate p 0xFF)"
    using crc32_update_xor [of "replicate p 0" "replicate p 0xFF" c c] by simp
  with eq have "crc32_update 0 (replicate p 0xFF) = 0" by simp
  with ff_nonzero [OF pad_crcs, of p] assms show False by simp
qed

lemma region_pad_less: "unat (region_pad r hi) < 32"
  by (simp add: region_pad_def TRICORE_FLASH_PAGE_def unat_mod)

lemma page_fill: "(n + 31) div 32 * 32 - n = (32 - n mod 32) mod 32" for n :: nat
proof -
  obtain q r where n: "n = 32 * q + r" and r: "r < 32"
    using div_mult_mod_eq [of n 32] by (metis mult.commute mod_less_divisor zero_less_numeral)
  have "(32 * q + r + 31) div 32 = q + (r + 31) div 32" by simp
  moreover have "(r + 31) div 32 = (if r = 0 then 0 else 1)" using r by auto
  ultimately show ?thesis using r by (cases "r = 0") (simp_all add: n)
qed

lemma diff_page: "a mod 32 = 0 \<Longrightarrow> a \<le> b \<Longrightarrow> (b - a) mod 32 = b mod 32" for a b :: nat
  by (auto simp: mod_eq_0_iff_dvd elim!: dvdE intro: le_mod_geq) (metis le_add_diff_inverse2 mod_mult_self2)

lemma padded_chunk_eq:
  assumes "length bs \<le> 0x8000"
  shows "padded_chunk bs = bs @ replicate ((32 - length bs mod 32) mod 32) TRICORE_FLASH_ERASED"
proof -
  have "unat (of_nat (length bs) :: u32) = length bs" using assms by (simp add: unat_of_nat)
  then have n: "unat (of_nat (length bs) + 31 :: u32) = length bs + 31"
    using assms by (simp add: unat_word_ariths(1))
  have "unat ((of_nat (length bs) + TRICORE_FLASH_PAGE - 1) AND NOT (TRICORE_FLASH_PAGE - 1)) =
      (length bs + 31) div 32 * 32"
    using unat_align [of "of_nat (length bs) + 31 :: u32" 5] unfolding n
    by (simp add: TRICORE_FLASH_PAGE_def mask_eq_exp_minus_1 add.commute)
  then show ?thesis by (simp add: padded_chunk_def page_fill)
qed

lemma unat_region_pad: "unat (region_pad r (region_end r)) = (32 - unat (region_end r) mod 32) mod 32"
proof -
  have "unat (32 - region_end r mod 32) = 32 - unat (region_end r) mod 32"
    by (subst unat_sub) (simp_all add: unat_mod word_le_nat_alt less_imp_le)
  then show ?thesis by (simp add: region_pad_def TRICORE_FLASH_PAGE_def unat_mod)
qed

lemma aligned_end:
  assumes "lo mod TRICORE_FLASH_PAGE = 0" "lo \<le> hi"
  shows "unat (hi - lo) mod 32 = unat hi mod 32"
proof -
  have "unat lo mod 32 = 0" using assms(1) unat_mod [of lo 32] by (simp add: TRICORE_FLASH_PAGE_def)
  moreover have "unat (hi - lo) = unat hi - unat lo" "unat lo \<le> unat hi"
    using assms(2) by (simp_all add: unat_sub word_le_nat_alt)
  ultimately show ?thesis using diff_page by simp
qed

text \<open>C33: for a part of a region that ends with the region and starts at a page, the comparison expects the CRC of
  what programming puts there exactly when the region ends at a page boundary. Programming fills the last page with
  0xFF, the comparison with 0, and CRC32 tells the two apart whatever the image bytes are: a sector that ends in a
  partial page is found different, erased and written again, even if it holds the image already.\<close>

theorem comparison_padding:
  assumes "lo mod TRICORE_FLASH_PAGE = 0" "lo \<le> region_end r" "unat (region_end r - lo) \<le> LOADER_BUFFER_BYTES"
  shows "expected_crc r lo (region_end r) = tricore_flash_crc32 (padded_chunk (region_bytes r lo (region_end r))) \<longleftrightarrow>
    region_end r mod TRICORE_FLASH_PAGE = 0"
proof -
  let ?hi = "region_end r" and ?p = "unat (region_pad r (region_end r))"
  have len: "length (region_bytes r lo ?hi) = unat (?hi - lo)" by (simp add: region_bytes_def)
  have "padded_chunk (region_bytes r lo ?hi) = region_bytes r lo ?hi @ replicate ?p TRICORE_FLASH_ERASED"
    using assms(3) by (subst padded_chunk_eq)
      (simp_all add: len LOADER_BUFFER_BYTES_def unat_region_pad aligned_end [OF assms(1,2)])
  then have "expected_crc r lo ?hi = tricore_flash_crc32 (padded_chunk (region_bytes r lo ?hi)) \<longleftrightarrow>
      crc32_update (crc32_update 0xFFFFFFFF (region_bytes r lo ?hi)) (replicate ?p 0) =
      crc32_update (crc32_update 0xFFFFFFFF (region_bytes r lo ?hi)) (replicate ?p 0xFF)"
    by (simp add: expected_crc_def tricore_flash_crc32_def crc32_append TRICORE_FLASH_ERASED_def)
  also have "\<dots> \<longleftrightarrow> ?p = 0"
    using pad_differs [of ?p] region_pad_less [of r ?hi] by auto
  also have "\<dots> \<longleftrightarrow> unat ?hi mod 32 = 0"
    unfolding unat_region_pad by presburger
  also have "\<dots> \<longleftrightarrow> ?hi mod TRICORE_FLASH_PAGE = 0"
    using unat_mod [of ?hi 32] by (simp add: TRICORE_FLASH_PAGE_def flip: unat_eq_0)
  finally show ?thesis .
qed

lemma comparison_padding_witness:
  "let r = \<lparr>rg_address = 0xA0000000, rg_length = 5, rg_data = \<lambda>_. 7\<rparr>
   in expected_crc r 0xA0000000 (region_end r) \<noteq> tricore_flash_crc32 (padded_chunk (region_bytes r 0xA0000000 (region_end r)))"
  using comparison_padding [of "0xA0000000" "\<lparr>rg_address = 0xA0000000, rg_length = 5, rg_data = \<lambda>_. 7\<rparr>"]
  by (simp add: region_end_def TRICORE_FLASH_PAGE_def LOADER_BUFFER_BYTES_def)

end
