(* ===== verification/Flash_Frame.thy ===== *)
theory Flash_Frame
  imports Flash_Returns Flash_Geometry
begin

unbundle bit_operations_syntax

text \<open>
  What a flash session does to the target, read off the words on the bus: the erase commands of the command interface
  and the commands given to the loader stub. A frame \<open>inside\<close> carries both through the operations of the
  flasher, for a session whose layout and bank swap are fixed, and the last section follows the sectors of the flash
  through the two address windows.
\<close>

section \<open>The device's view\<close>

record csi =
  csi_at :: u32
  csi_n :: u32
  csi_armed :: bool
  csi_erases :: "(u32 \<times> u32) list"

definition csi_word :: "u32 \<times> u32 \<Rightarrow> csi \<Rightarrow> csi" where
  "csi_word w c = (case w of (a, v) \<Rightarrow>
     if a = CSI_BASE + CYCLE_AA50 then c\<lparr>csi_at := v\<rparr>
     else if a = CSI_BASE + CYCLE_AA58 then c\<lparr>csi_n := v\<rparr>
     else if a = CSI_BASE + CYCLE_AAA8 \<and> v = CMD_ERASE_SETUP then c\<lparr>csi_armed := True\<rparr>
     else if a = CSI_BASE + CYCLE_AAA8 \<and> v = CMD_ERASE \<and> csi_armed c
     then c\<lparr>csi_armed := False, csi_erases := (csi_at c, csi_n c) # csi_erases c\<rparr>
     else if a = CSI_BASE + CYCLE_AAA8 \<or> a = CSI_BASE + CYCLE_5554 then c\<lparr>csi_armed := False\<rparr>
     else c)"

definition csi_of :: "(u32 \<times> u32) list \<Rightarrow> csi" where
  "csi_of ws = foldr csi_word ws \<lparr>csi_at = 0, csi_n = 0, csi_armed = False, csi_erases = []\<rparr>"

record job =
  job_cmd :: u32
  job_at :: u32
  job_list :: "(u32 \<times> u32 \<times> u32) list"

definition job_word :: "u32 \<times> u32 \<Rightarrow> job \<Rightarrow> job" where
  "job_word w j = (case w of (a, v) \<Rightarrow>
     if a = LOADER_PARAMS then j\<lparr>job_cmd := v\<rparr>
     else if a = LOADER_PARAMS + 4 then j\<lparr>job_at := v\<rparr>
     else if a = LOADER_PARAMS + 8 then j\<lparr>job_list := (job_cmd j, job_at j, v) # job_list j\<rparr>
     else j)"

definition job_of :: "(u32 \<times> u32) list \<Rightarrow> job" where
  "job_of ws = foldr job_word ws \<lparr>job_cmd = 0, job_at = 0, job_list = []\<rparr>"

abbreviation erases :: "'e probe_scheme \<Rightarrow> (u32 \<times> u32) list" where
  "erases s \<equiv> csi_erases (csi_of (blog s))"

abbreviation jobs :: "'e probe_scheme \<Rightarrow> (u32 \<times> u32 \<times> u32) list" where
  "jobs s \<equiv> job_list (job_of (blog s))"

text \<open>Words that neither erase nor start the stub.\<close>

definition neutral :: "(u32 \<times> u32) set" where
  "neutral = {(a, v). a \<notin> {CSI_BASE + CYCLE_AA50, CSI_BASE + CYCLE_AA58, CSI_BASE + CYCLE_AAA8,
     LOADER_PARAMS, LOADER_PARAMS + 4, LOADER_PARAMS + 8}}"

lemma csi_neutral:
  "\<forall>w\<in>set ws. fst w \<notin> {CSI_BASE + CYCLE_AA50, CSI_BASE + CYCLE_AA58, CSI_BASE + CYCLE_AAA8} \<Longrightarrow>
   csi_erases (foldr csi_word ws c) = csi_erases c"
  by (induction ws) (auto simp: csi_word_def split: prod.splits)

lemma job_neutral:
  "\<forall>w\<in>set ws. fst w \<notin> {LOADER_PARAMS, LOADER_PARAMS + 4, LOADER_PARAMS + 8} \<Longrightarrow> foldr job_word ws j = j"
  by (induction ws) (auto simp: job_word_def split: prod.splits)

lemma grows_neutral: "grows neutral s s' \<Longrightarrow> erases s' = erases s \<and> jobs s' = jobs s"
proof -
  assume "grows neutral s s'"
  then obtain ws where ws: "blog s' = ws @ blog s" "set ws \<subseteq> neutral" by (auto simp: grows_def)
  from ws(2) show ?thesis
    unfolding ws(1) csi_of_def job_of_def foldr_append comp_def
    by (subst csi_neutral, (auto simp: neutral_def) [1], subst job_neutral) (auto simp: neutral_def)
qed

lemma neutral_at: "a \<notin> {CSI_BASE + CYCLE_AA50, CSI_BASE + CYCLE_AA58, CSI_BASE + CYCLE_AAA8,
     LOADER_PARAMS, LOADER_PARAMS + 4, LOADER_PARAMS + 8} \<Longrightarrow> (a, v) \<in> neutral"
  by (simp add: neutral_def)

lemma periph_neutral: "periph \<subseteq> neutral"
  by (auto simp: periph_def neutral_def csi_consts loader_consts)

lemma clear_neutral: "(CSI_BASE + CYCLE_5554, v) \<in> neutral"
  by (simp add: neutral_def csi_consts loader_consts)

section \<open>Inside the session\<close>

text \<open>A log, newest first, grew by entries with \<open>P\<close>.\<close>

definition extended :: "('x \<Rightarrow> bool) \<Rightarrow> 'x list \<Rightarrow> 'x list \<Rightarrow> bool" where
  "extended P old new \<longleftrightarrow> (\<exists>es. new = es @ old \<and> (\<forall>e\<in>set es. P e))"

lemma extended_refl: "extended P l l"
  by (simp add: extended_def)

lemma extended_Cons: "P e \<Longrightarrow> extended P l (e # l)"
  unfolding extended_def by (intro exI [of _ "[e]"]) simp

lemma extended_trans: "extended P a b \<Longrightarrow> extended P b c \<Longrightarrow> extended P a c"
  unfolding extended_def by (metis append.assoc set_append UnE)

definition inside ::
  "(u32 \<times> u32 \<Rightarrow> bool) \<Rightarrow> (u32 \<times> u32 \<times> u32 \<Rightarrow> bool) \<Rightarrow> bool \<Rightarrow> (u32 \<times> u32) list \<Rightarrow>
   'e flash_scheme \<Rightarrow> 'e flash_scheme \<Rightarrow> bool" where
  "inside Q J sw lay s s' \<longleftrightarrow> (installed s \<and> swap_active s = sw \<and> layout s = lay \<longrightarrow>
     installed s' \<and> swap_active s' = sw \<and> layout s' = lay \<and>
     extended Q (erases s) (erases s') \<and> extended J (jobs s) (jobs s'))"

interpretation inside: preorder_frame "inside Q J sw lay :: 'e flash_scheme \<Rightarrow> 'e flash_scheme \<Rightarrow> bool" for Q J sw lay
  by unfold_locales (auto simp: inside_def extended_refl elim: extended_trans)

named_theorems inside_frame \<open>operations inside a session\<close>

lemma same_flash_inside:
  assumes "\<And>s. installed (snd (run m s)) = installed s \<and> swap_active (snd (run m s)) = swap_active s \<and>
      layout (snd (run m s)) = layout s"
    and "rel (grows neutral) m"
  shows "rel (inside Q J sw lay) m"
  unfolding rel_def
proof
  fix s
  have "grows neutral s (snd (run m s))" using assms(2) by (simp add: rel_def)
  then show "inside Q J sw lay s (snd (run m s))"
    using assms(1) [of s] grows_neutral [of s "snd (run m s)"] by (simp add: inside_def extended_refl)
qed

lemma more_flash: "tricore.more s' = tricore.more s \<Longrightarrow>
    installed s' = installed s \<and> swap_active s' = swap_active s \<and> layout s' = layout (s :: 'e flash_scheme)"
  by (cases s; cases s') (simp add: tricore.defs)

lemma inside_debug:
  fixes m :: "('e flash_scheme, 'r) state"
  assumes "rel debug_step m" shows "rel (inside Q J sw lay) m"
proof (rule same_flash_inside)
  show "installed (snd (run m s)) = installed s \<and> swap_active (snd (run m s)) = swap_active s \<and>
      layout (snd (run m s)) = layout s" for s
    using assms more_flash [of "snd (run m s)" s] by (auto simp: rel_def debug_step_def)
  have "rel (grows periph) m" using assms by (simp add: rel_def debug_step_def)
  then show "rel (grows neutral) m" by (rule grows_mono [OF _ periph_neutral])
qed

lemma inside_unchanged:
  fixes m :: "('e flash_scheme, 'r) state"
  assumes "rel unchanged m" "rel (grows neutral) m" shows "rel (inside Q J sw lay) m"
proof (rule same_flash_inside [OF _ assms(2)])
  fix s
  have "unchanged s (snd (run m s))" using assms(1) by (simp add: rel_def)
  then have "tricore.more (snd (run m s)) = tricore.more s" using unchanged_more by blast
  then show "installed (snd (run m s)) = installed s \<and> swap_active (snd (run m s)) = swap_active s \<and>
      layout (snd (run m s)) = layout s"
    by (rule more_flash)
qed

lemma inside_modify:
  "(\<And>s. hist (f s) = hist s \<and> installed (f s) = installed s \<and> swap_active (f s) = swap_active s \<and> layout (f s) = layout s) \<Longrightarrow>
   rel (inside Q J sw lay) (modify f)"
  by (simp add: rel_def inside_def extended_refl)

lemma inside_fstat [inside_frame]: "rel (inside Q J sw lay) (fstat f)"
  unfolding fstat_def by (rule inside_modify) simp


lemmas [inside_frame] = inside.rules
  inside_unchanged [OF sense_rules(2,1)] inside_unchanged [OF time_rules(2,1)] inside_unchanged [OF time_rules(5,4)]
  inside_unchanged [OF read32_rules(2,1)] inside_unchanged [OF clear_error_state_rules(2,1)]

lemma inside_write32 [inside_frame]:
  "(a, v) \<in> neutral \<Longrightarrow> rel (inside Q J sw lay) (dap_probe_write32 D a v :: ('e flash_scheme, esp_err) state)"
  by (intro inside_unchanged write32_rules)

lemma inside_poll [inside_frame]:
  assumes "rel unchanged body" "rel (grows neutral) body"
  shows "rel (inside Q J sw lay) (poll D n deadline tick body :: ('e flash_scheme, 'r option) state)"
  using assms by (intro inside_unchanged poll_rules)

text \<open>What the state fixes is known inside the session.\<close>

definition in_layout :: "(u32 \<times> u32) list \<Rightarrow> u32 \<Rightarrow> bool" where
  "in_layout lay a \<longleftrightarrow> \<not> tricore_flash_is_never (tricore_flash_to_physical a) \<and> in_ranges lay (tricore_flash_to_physical a)"

lemma is_program_flash_layout: "is_program_flash a s = in_layout (layout s) a"
  by (simp add: is_program_flash_def in_layout_def Let_def)

lemma inside_gets:
  fixes f :: "'c \<Rightarrow> ('e flash_scheme, 'r) state" and g :: "'e flash_scheme \<Rightarrow> 'c"
  assumes "\<And>s. installed s \<Longrightarrow> swap_active s = sw \<Longrightarrow> layout s = lay \<Longrightarrow> P (g s)"
    "\<And>c. P c \<Longrightarrow> rel (inside Q J sw lay) (f c)"
  shows "rel (inside Q J sw lay) (gets g \<bind> f)"
  unfolding rel_def
proof
  fix s :: "'e flash_scheme"
  show "inside Q J sw lay s (snd (run (gets g \<bind> f) s))"
  proof (cases "installed s \<and> swap_active s = sw \<and> layout s = lay")
    case True
    then have "rel (inside Q J sw lay) (f (g s))" using assms by blast
    then show ?thesis by (simp add: rel_def)
  qed (auto simp: inside_def)
qed

lemma inside_known:
  assumes "\<And>s. installed s \<Longrightarrow> swap_active s = sw \<Longrightarrow> layout s = lay \<Longrightarrow> g s = c" "rel (inside Q J sw lay) (f c)"
  shows "rel (inside Q J sw lay) (gets g \<bind> f)"
  using assms by (intro inside_gets [where P = "\<lambda>c'. c' = c"]) auto

lemma inside_command:
  "rel (inside Q J sw lay) (f (swapped sw a)) \<Longrightarrow> rel (inside Q J sw lay) (gets (command_address a) \<bind> f)"
  by (rule inside_known) (simp_all add: command_address_def)

lemma inside_is_flash:
  "rel (inside Q J sw lay) (f (in_layout lay (swapped sw a))) \<Longrightarrow>
   rel (inside Q J sw lay) (gets (\<lambda>s. is_program_flash (command_address a s) s) \<bind> f)"
  by (rule inside_known) (simp_all add: command_address_def is_program_flash_layout)

lemma inside_phase [inside_frame]:
  "rel (inside Q J sw lay) (tricore_flash_set_phase D p m :: ('e flash_scheme, unit) state)"
  "rel (inside Q J sw lay) (flash_fail D fmt args :: ('e flash_scheme, esp_err) state)"
  unfolding flash_fail_def tricore_flash_set_phase_def by (intro inside_frame)+

lemma inside_clear [inside_frame]:
  "rel (inside Q J sw lay) (clear_status D :: ('e flash_scheme, esp_err) state)"
  unfolding clear_status_def csi_cycle_def by (intro inside_frame clear_neutral)

lemma inside_wait_idle [inside_frame]:
  "rel (inside Q J sw lay) (tricore_flash_wait_idle D a t :: ('e flash_scheme, esp_err) state)"
  unfolding tricore_flash_wait_idle_def by (intro inside_frame unchanged_frame grows_frame)

lemma inside_shutdown [inside_frame]:
  "rel (inside Q J sw lay) (tricore_flash_safe_shutdown D :: ('e flash_scheme, unit) state)"
  unfolding tricore_flash_safe_shutdown_def
  by (intro inside_frame) (simp_all add: neutral_def dmu_consts csi_consts loader_consts)

section \<open>Erase commands\<close>

lemma csi_cycles_log:
  fixes s :: "'e flash_scheme"
  assumes "run (csi_cycles D cs) s = (err, s')"
  shows "\<exists>k \<le> length cs. blog s' = rev (take k (map (\<lambda>c. (CSI_BASE + fst c, snd c)) cs)) @ blog s \<and>
    (err = ESP_OK \<longrightarrow> k = length cs)"
proof -
  have "(csi_cycles D cs :: ('e flash_scheme, esp_err) state) =
      for_ok (\<lambda>(a, v). dap_probe_write32 D a v) (map (\<lambda>c. (CSI_BASE + fst c, snd c)) cs)"
    by (simp add: csi_cycles_def csi_cycle_def for_ok_map)
  with assms probe_bus.chain [of D "map (\<lambda>c. (CSI_BASE + fst c, snd c)) cs" s err s'] show ?thesis by simp
qed

lemma unchanged_cycles [unchanged_frame]:
  "rel unchanged (csi_cycles D cs :: ('e flash_scheme, esp_err) state)"
  unfolding csi_cycles_def csi_cycle_def by (intro unchanged_frame)

definition erase_cycles :: "u32 \<Rightarrow> u32 \<Rightarrow> (u32 \<times> u32) list" where
  "erase_cycles command n = [(CYCLE_5554, CMD_CLEAR_STATUS), (CYCLE_AA50, command), (CYCLE_AA58, n),
     (CYCLE_AAA8, CMD_ERASE_SETUP), (CYCLE_AAA8, CMD_ERASE)]"

lemma erase_cycles_erase:
  assumes "k \<le> 5"
  shows "let ws = rev (take k (map (\<lambda>c. (CSI_BASE + fst c, snd c)) (erase_cycles command n)))
    in csi_erases (csi_of (ws @ old)) = (if k = 5 then [(command, n)] else []) @ csi_erases (csi_of old) \<and>
       job_list (job_of (ws @ old)) = job_list (job_of old)"
proof -
  have "k = 0 \<or> k = 1 \<or> k = 2 \<or> k = 3 \<or> k = 4 \<or> k = 5" using assms by linarith
  then show ?thesis
    by (elim disjE) (simp_all add: erase_cycles_def csi_of_def job_of_def csi_word_def job_word_def csi_consts loader_consts)
qed

lemma inside_erase_cycles:
  assumes "Q (command, n)"
  shows "rel (inside Q J sw lay) (csi_cycles D (erase_cycles command n) :: ('e flash_scheme, esp_err) state)"
proof (rule relI)
  fix s s' :: "'e flash_scheme" and err
  assume run: "run (csi_cycles D (erase_cycles command n)) s = (err, s')"
  from csi_cycles_log [OF this] obtain k where "k \<le> length (erase_cycles command n)" and
    k2: "blog s' = rev (take k (map (\<lambda>c. (CSI_BASE + fst c, snd c)) (erase_cycles command n))) @ blog s"
    by blast
  then have k: "k \<le> 5" by (simp add: erase_cycles_def)
  have "unchanged s s'" using relD [OF unchanged_cycles run] .
  then have "tricore.more s' = tricore.more s" using unchanged_more by blast
  from more_flash [OF this] erase_cycles_erase [OF k, of command n "blog s"] assms show "inside Q J sw lay s s'"
    by (auto simp: inside_def k2 Let_def extended_refl intro: extended_Cons)
qed

lemma inside_erase_range:
  assumes "Q (swapped sw x, n)"
  shows "rel (inside Q J sw lay) (erase_range D x n :: ('e flash_scheme, esp_err) state)"
  unfolding erase_range_def erase_cycles_def [symmetric]
  by (intro inside_command) (intro inside_frame inside_erase_cycles assms)


text \<open>One erase command of a run: at most \<open>ERASE_RUN_MAX\<close> sectors, all of them in \<open>S\<close>, in one physical
  sector.\<close>

definition erase_ok :: "bool \<Rightarrow> u32 set \<Rightarrow> u32 \<times> u32 \<Rightarrow> bool" where
  "erase_ok sw S e \<longleftrightarrow> unat (snd e) \<le> ERASE_RUN_MAX \<and>
     (\<forall>k < unat (snd e). let x = fst e + of_nat k * TRICORE_FLASH_SECTOR in
        x \<in> swapped sw ` S \<and> x AND NOT (PHYSICAL_SECTOR - 1) = fst e AND NOT (PHYSICAL_SECTOR - 1))"

lemma erase_run_ok:
  "let m = erase_run multi sw start xs n in n \<le> m \<and> (m \<le> ERASE_RUN_MAX \<or> m = n) \<and>
     (\<forall>k. n \<le> k \<and> k < m \<longrightarrow> (let x = start + of_nat k * TRICORE_FLASH_SECTOR in
        x \<in> swapped sw ` set xs \<and> x AND NOT (PHYSICAL_SECTOR - 1) = start AND NOT (PHYSICAL_SECTOR - 1)))"
proof (induction xs arbitrary: n)
  case (Cons x xs)
  let ?next = "start + of_nat n * TRICORE_FLASH_SECTOR"
  show ?case
  proof (cases "multi \<and> n < ERASE_RUN_MAX \<and> swapped sw x = ?next \<and>
      start AND NOT (PHYSICAL_SECTOR - 1) = ?next AND NOT (PHYSICAL_SECTOR - 1)")
    case True
    then have m: "erase_run multi sw start (x # xs) n = erase_run multi sw start xs (n + 1)" by (simp add: Let_def)
    have "k = n \<or> n + 1 \<le> k" if "n \<le> k" for k using that by linarith
    with Cons.IH [of "n + 1"] True show ?thesis
      unfolding m Let_def by (auto simp: image_iff)
  next
    case False
    then have m: "erase_run multi sw start (x # xs) n = n" by (auto simp: Let_def)
    show ?thesis unfolding m Let_def by auto
  qed
qed simp

lemma erase_run_erase_ok:
  assumes "set (x # xs) \<subseteq> S"
  shows "erase_ok sw S (swapped sw x, of_nat (erase_run multi sw (swapped sw x) xs 1))"
proof -
  let ?m = "erase_run multi sw (swapped sw x) xs 1"
  have m: "1 \<le> ?m" "?m \<le> ERASE_RUN_MAX"
    "\<And>k. 1 \<le> k \<Longrightarrow> k < ?m \<Longrightarrow> swapped sw x + of_nat k * TRICORE_FLASH_SECTOR \<in> swapped sw ` set xs \<and>
       (swapped sw x + of_nat k * TRICORE_FLASH_SECTOR) AND NOT (PHYSICAL_SECTOR - 1) = swapped sw x AND NOT (PHYSICAL_SECTOR - 1)"
    using erase_run_ok [of multi sw "swapped sw x" xs 1] by (auto simp: Let_def ERASE_RUN_MAX_def)
  then have u: "unat (of_nat ?m :: u32) = ?m" by (simp add: unat_of_nat ERASE_RUN_MAX_def)
  show ?thesis
    unfolding erase_ok_def Let_def fst_conv snd_conv u
  proof (intro conjI allI impI)
    fix k assume "k < ?m"
    then show "swapped sw x + of_nat k * TRICORE_FLASH_SECTOR \<in> swapped sw ` S"
      "(swapped sw x + of_nat k * TRICORE_FLASH_SECTOR) AND NOT (PHYSICAL_SECTOR - 1) = swapped sw x AND NOT (PHYSICAL_SECTOR - 1)"
      using m(3) [of k] assms by (cases "k = 0"; fastforce)+
  qed (rule m(2))
qed

lemma inside_erase_sectors:
  assumes "set xs \<subseteq> S"
  shows "rel (inside (erase_ok sw S) J sw lay) (erase_sectors D xs :: ('e flash_scheme, esp_err) state)"
  using assms
proof (induction xs rule: length_induct)
  case (1 xs)
  show ?case
  proof (cases xs)
    case Nil
    then show ?thesis by (simp add: erase_sectors.simps inside.return)
  next
    case (Cons x ys)
    have rest: "rel (inside (erase_ok sw S) J sw lay) (erase_sectors D (drop k ys) :: ('e flash_scheme, esp_err) state)" for k
      using 1 set_drop_subset [of k ys] by (auto simp: Cons)
    have n: "erase_ok sw S (swapped sw x, of_nat (erase_run multi sw (swapped sw x) ys 1))" for multi
      using erase_run_erase_ok [of x ys S sw] 1(2) by (simp add: Cons)
    have one: "erase_ok sw S (swapped sw x, 1)"
      using n [of False] by (cases ys) simp_all
    show ?thesis
      unfolding Cons erase_sectors.simps erase_sector_def
      apply (rule inside.bind, intro inside_frame)
      apply (rule inside_gets [where P = "\<lambda>k. erase_ok sw S (swapped sw x, of_nat k)"])
       apply (simp add: command_address_def n [unfolded One_nat_def])
      by (intro inside_frame inside_erase_range one rest inside_modify; simp)
  qed
qed


section \<open>Jobs of the stub\<close>

lemma upt_0_Suc: "[0..<Suc n] = 0 # map Suc [0..<n]"
  by (simp add: upt_conv_Cons map_Suc_upt del: upt_Suc)

lemma block_words_map: "block_words a ws = rev (map (\<lambda>i. (a + 4 * of_nat i, ws ! i)) [0..<length ws])"
proof (induction ws arbitrary: a)
  case (Cons w ws)
  have "[0..<length (w # ws)] = 0 # map Suc [0..<length ws]" by (simp only: list.size add_0_right add_Suc_right upt_0_Suc)
  then have "map (\<lambda>i. (a + 4 * of_nat i, (w # ws) ! i)) [0..<length (w # ws)] =
      (a, w) # map (\<lambda>i. (a + 4 + 4 * of_nat i, ws ! i)) [0..<length ws]"
    by (simp add: algebra_simps)
  with Cons.IH [of "a + 4"] show ?case by simp
qed simp

lemma word32_bytes: "word32_of_bytes (byte_of_word32 w 0) (byte_of_word32 w (Suc 0)) (byte_of_word32 w 2) (byte_of_word32 w 3) = w"
  by (rule bit_word_eqI) (auto simp: bit_word32_of_bytes bit_byte_of_word32)

lemma words_of_Cons: "words_of (b0 # b1 # b2 # b3 # bs) = word32_of_bytes b0 b1 b2 b3 # words_of bs"
proof -
  have "[0..<length (b0 # b1 # b2 # b3 # bs) div 4] = 0 # map Suc [0..<length bs div 4]"
  proof -
    have "length (b0 # b1 # b2 # b3 # bs) div 4 = Suc (length bs div 4)" by simp
    then show ?thesis by (simp only: upt_0_Suc)
  qed
  then show ?thesis by (simp add: words_of_def loader_le32_def add.commute)
qed

lemma words_of_bytes: "words_of (bytes_of_words ws) = ws"
proof (induction ws)
  case Nil
  then show ?case by (simp add: bytes_of_words_def words_of_def)
next
  case (Cons w ws)
  have "bytes_of_words (w # ws) =
      byte_of_word32 w 0 # byte_of_word32 w (Suc 0) # byte_of_word32 w 2 # byte_of_word32 w 3 # bytes_of_words ws"
    by (simp add: bytes_of_words_def)
  then show ?case using Cons.IH by (simp only: words_of_Cons word32_bytes)
qed

lemma length_bytes_of_words: "length (bytes_of_words ws) = 4 * length ws"
  by (induction ws) (simp_all add: bytes_of_words_def)

definition param_words :: "u32 list \<Rightarrow> (u32 \<times> u32) list" where
  "param_words ws = map (\<lambda>i. (LOADER_PARAMS + 4 * of_nat i, ws ! i)) [0..<length ws]"

lemma param_words_job:
  assumes "length ws = LOADER_PARAM_WORDS" "k \<le> LOADER_PARAM_WORDS"
  shows "csi_erases (csi_of (rev (take k (param_words ws)) @ old)) = csi_erases (csi_of old)"
    "extended (\<lambda>j. j = (ws ! 0, ws ! 1, ws ! 2)) (job_list (job_of old)) (job_list (job_of (rev (take k (param_words ws)) @ old)))"
proof -
  have pw: "param_words ws = [(LOADER_PARAMS, ws ! 0), (LOADER_PARAMS + 4, ws ! 1), (LOADER_PARAMS + 8, ws ! 2)] @
      map (\<lambda>i. (LOADER_PARAMS + 4 * of_nat i, ws ! i)) [3..<14]" (is "_ = ?first @ ?rest")
  proof -
    have "[0..<14] = [0, 1, 2] @ [3..<14 :: nat]" by code_simp
    then show ?thesis by (simp add: param_words_def assms(1) LOADER_PARAM_WORDS_def)
  qed
  have far: "\<forall>w\<in>set (take k (param_words ws)). fst w \<notin> {CSI_BASE + CYCLE_AA50, CSI_BASE + CYCLE_AA58, CSI_BASE + CYCLE_AAA8}"
  proof
    fix w assume "w \<in> set (take k (param_words ws))"
    then obtain i where "i < 14" "fst w = LOADER_PARAMS + 4 * of_nat i"
      using set_take_subset [of k "param_words ws"] by (auto simp: param_words_def assms(1) LOADER_PARAM_WORDS_def)
    moreover from this have "unat (fst w) = 0x70000000 + 4 * i"
      by (simp add: LOADER_PARAMS_def unat_word_ariths unat_of_nat)
    ultimately have "unat (fst w) < 0x80000000" by simp
    then show "fst w \<notin> {CSI_BASE + CYCLE_AA50, CSI_BASE + CYCLE_AA58, CSI_BASE + CYCLE_AAA8}"
      by (auto simp: csi_consts)
  qed
  then show "csi_erases (csi_of (rev (take k (param_words ws)) @ old)) = csi_erases (csi_of old)"
    unfolding csi_of_def foldr_append comp_def by (subst csi_neutral) auto
  have rest: "foldr job_word (rev (take (k - 3) ?rest)) j = j" for j
  proof (rule job_neutral, intro ballI)
    fix w assume "w \<in> set (rev (take (k - 3) ?rest))"
    then have "w \<in> set ?rest" unfolding set_rev by (rule in_set_takeD)
    then obtain i where "3 \<le> i" "i < 14" "fst w = LOADER_PARAMS + 4 * of_nat i"
      unfolding set_map set_upt by (elim imageE) auto
    moreover from this have "unat (fst w) = 0x70000000 + 4 * i"
      by (simp add: LOADER_PARAMS_def unat_word_ariths unat_of_nat)
    ultimately have "unat (fst w) \<ge> 0x7000000C" by simp
    then show "fst w \<notin> {LOADER_PARAMS, LOADER_PARAMS + 4, LOADER_PARAMS + 8}" by (auto simp: LOADER_PARAMS_def)
  qed
  have three: "length ?first = 3" by simp
  have "rev (take k (param_words ws)) = rev (take (k - 3) ?rest) @ rev (take k ?first)"
    by (simp only: pw take_append rev_append three)
  then have job: "job_of (rev (take k (param_words ws)) @ old) = foldr job_word (rev (take k ?first)) (job_of old)"
    by (simp only: job_of_def foldr_append comp_def rest)
  have "k = 0 \<or> k = 1 \<or> k = 2 \<or> 3 \<le> k" by linarith
  then show "extended (\<lambda>j. j = (ws ! 0, ws ! 1, ws ! 2)) (job_list (job_of old)) (job_list (job_of (rev (take k (param_words ws)) @ old)))"
    unfolding job
    by (elim disjE) (auto simp: job_word_def LOADER_PARAMS_def extended_refl intro: extended_Cons)
qed


lemma length_words_of: "length (words_of bs) = length bs div 4"
  by (simp add: words_of_def)

lemma write_chunk_rules:
  "rel unchanged (write_chunk D a ws :: ('e flash_scheme, esp_err) state)"
  "ws \<noteq> [] \<Longrightarrow> (\<And>i v. i < length ws \<Longrightarrow> (a + 4 * of_nat i, v) \<in> A) \<Longrightarrow>
   rel (grows A) (write_chunk D a ws :: ('e flash_scheme, esp_err) state)"
proof -
  show "rel unchanged (write_chunk D a ws :: ('e flash_scheme, esp_err) state)"
    unfolding write_chunk_def by (intro unchanged_frame)
  assume "ws \<noteq> []" and A: "\<And>i v. i < length ws \<Longrightarrow> (a + 4 * of_nat i, v) \<in> A"
  then have "(a, v) \<in> A" for v using A [of 0] by simp
  moreover have "set (block_words a ws) \<subseteq> A" using A by (auto simp: block_words_map)
  ultimately show "rel (grows A) (write_chunk D a ws :: ('e flash_scheme, esp_err) state)"
    unfolding write_chunk_def using A by (intro grows_frame write32_rules) auto
qed

lemma write_block_rules:
  "rel unchanged (tricore_flash_write_block D a bs :: ('e flash_scheme, esp_err) state)"
  "(\<And>i v. i < length bs \<Longrightarrow> (a + of_nat i, v) \<in> A) \<Longrightarrow>
   rel (grows A) (tricore_flash_write_block D a bs :: ('e flash_scheme, esp_err) state)"
proof -
  have "rel unchanged (write_chunks D a bs :: ('e flash_scheme, esp_err) state)"
    by (induction D a bs rule: write_chunks.induct, subst write_chunks.simps)
      (auto simp: Let_def intro!: unchanged_frame write_chunk_rules)
  then show "rel unchanged (tricore_flash_write_block D a bs :: ('e flash_scheme, esp_err) state)"
    unfolding tricore_flash_write_block_def by (intro unchanged_frame)
  assume A: "\<And>i v. i < length bs \<Longrightarrow> (a + of_nat i, v) \<in> A"
  have "rel (grows A) (write_chunks D a bs :: ('e flash_scheme, esp_err) state)" if "length bs mod 4 = 0"
    using that A
  proof (induction bs arbitrary: a rule: length_induct)
    case (1 bs)
    show ?case
    proof (cases "bs = []")
      case True
      then show ?thesis by (subst write_chunks.simps) (simp add: grows.return)
    next
      case False
      let ?n = "min (length bs) (4 * DAP_FPGA_BLOCK_WORDS)"
      have n: "?n mod 4 = 0" "0 < ?n" "?n \<le> length bs"
        using False 1(2) by (auto simp: min_def DAP_FPGA_BLOCK_WORDS_def)
      have len: "length (words_of (take ?n bs)) = ?n div 4" by (simp add: length_words_of)
      have "rel (grows A) (write_chunk D a (words_of (take ?n bs)) :: ('e flash_scheme, esp_err) state)"
      proof (rule write_chunk_rules(2))
        have "?n div 4 \<noteq> 0" using n(1,2) div_mult_mod_eq [of ?n 4] by (metis add_0 mult_0 less_irrefl)
        then show "words_of (take ?n bs) \<noteq> []" using len by auto
        fix i v assume "i < length (words_of (take ?n bs))"
        then have "4 * i < length bs" using n unfolding len by linarith
        from 1(3) [OF this] show "(a + 4 * of_nat i, v) \<in> A" by simp
      qed
      moreover have "rel (grows A) (write_chunks D (a + of_nat ?n) (drop ?n bs) :: ('e flash_scheme, esp_err) state)"
      proof (rule 1(1) [rule_format])
        show "length (drop ?n bs) < length bs" using n by simp
        show "length (drop ?n bs) mod 4 = 0" using n(1,3) 1(2) by (simp add: mod_eq_0_iff_dvd dvd_diff_nat)
        fix i v assume "i < length (drop ?n bs)"
        then have "?n + i < length bs" by simp
        from 1(3) [OF this] show "(a + of_nat ?n + of_nat i, v) \<in> A" by (simp add: add.assoc)
      qed
      ultimately show ?thesis
        by (subst write_chunks.simps) (intro grows.rules)
    qed
  qed
  then show "rel (grows A) (tricore_flash_write_block D a bs :: ('e flash_scheme, esp_err) state)"
    unfolding tricore_flash_write_block_def by (intro grows.rules; simp)
qed

lemma params_inside:
  assumes ws: "length ws = LOADER_PARAM_WORDS" "k \<le> LOADER_PARAM_WORDS" and J: "J (ws ! 0, ws ! 1, ws ! 2)"
    and un: "unchanged s s'" and log: "blog s' = rev (take k (param_words ws)) @ blog s"
  shows "inside Q J sw lay s (s' :: 'e flash_scheme)"
proof -
  have "tricore.more s' = tricore.more s" using un unchanged_more by blast
  moreover have "extended J (jobs s) (jobs s')"
    using param_words_job(2) [OF ws, of "blog s"] J unfolding log extended_def by auto
  moreover have "extended Q (erases s) (erases s')"
    using param_words_job(1) [OF ws, of "blog s"] by (simp add: log extended_refl)
  ultimately show ?thesis using more_flash [of s' s] by (simp add: inside_def)
qed

lemma inside_params:
  assumes ws: "length ws = LOADER_PARAM_WORDS" and J: "J (ws ! 0, ws ! 1, ws ! 2)"
  shows "rel (inside Q J sw lay) (tricore_flash_write_block D LOADER_PARAMS (bytes_of_words ws) :: ('e flash_scheme, esp_err) state)"
proof -
  have block: "rel (inside Q J sw lay) (dap_phy_fpga_block_write D LOADER_PARAMS ws :: ('e flash_scheme, esp_err) state)"
  proof (rule relI)
    fix s s' :: "'e flash_scheme" and err
    assume run: "run (dap_phy_fpga_block_write D LOADER_PARAMS ws) s = (err, s')"
    have "param_words ws = take LOADER_PARAM_WORDS (param_words ws)" using ws by (simp add: param_words_def)
    then have "blog s' = rev (take LOADER_PARAM_WORDS (param_words ws)) @ blog s"
      using run by (auto simp: dap_phy_fpga_block_write_def bus_writes_def block_words_map param_words_def ws)
    then show "inside Q J sw lay s s'"
      by (rule params_inside [where J = J, OF ws order_refl J relD [OF fpga_rules(10) run]])
  qed
  have each: "rel (inside Q J sw lay) (for_ok (\<lambda>i. dap_probe_write32 D (LOADER_PARAMS + 4 * of_nat i) (ws ! i)) [0..<length ws]
      :: ('e flash_scheme, esp_err) state)" (is "rel _ ?m")
  proof (rule relI)
    fix s s' :: "'e flash_scheme" and err
    assume run: "run ?m s = (err, s')"
    have m: "(?m :: ('e flash_scheme, esp_err) state) = for_ok (\<lambda>(a, v). dap_probe_write32 D a v) (param_words ws)"
      by (simp add: param_words_def for_ok_map)
    from probe_bus.chain [OF run [unfolded m]] obtain k where
      k: "k \<le> length (param_words ws)" "blog s' = rev (take k (param_words ws)) @ blog s" by blast
    have "rel unchanged (?m :: ('e flash_scheme, esp_err) state)" by (intro unchanged_frame)
    from params_inside [where J = J, OF ws _ J relD [OF this run] k(2)] k(1) ws show "inside Q J sw lay s s'"
      by (simp add: param_words_def)
  qed
  have first: "rel (inside Q J sw lay) (dap_probe_write32 D LOADER_PARAMS (ws ! 0) :: ('e flash_scheme, esp_err) state)"
  proof (rule relI)
    fix s s' :: "'e flash_scheme" and err
    assume run: "run (dap_probe_write32 D LOADER_PARAMS (ws ! 0)) s = (err, s')"
    have "take 1 (param_words ws) = [(LOADER_PARAMS, ws ! 0)]"
      using ws by (simp add: param_words_def LOADER_PARAM_WORDS_def take_map)
    with probe_bus.wr_log [OF run] obtain k where "k \<le> 1" "blog s' = rev (take k (param_words ws)) @ blog s"
      by (metis append_Cons append_Nil le_numeral_extra(4) rev.simps take0 zero_le_one)
    then show "inside Q J sw lay s s'"
      by (intro params_inside [where J = J, OF ws _ J relD [OF write32_rules(2) run]]) (simp_all add: LOADER_PARAM_WORDS_def)
  qed
  have chunk: "rel (inside Q J sw lay) (write_chunk D LOADER_PARAMS ws :: ('e flash_scheme, esp_err) state)"
    unfolding write_chunk_def by (intro inside_frame block each first)
  let ?b = "bytes_of_words ws"
  have len: "length ?b = 56" using ws by (simp add: length_bytes_of_words LOADER_PARAM_WORDS_def)
  then have whole: "?b \<noteq> []" "min 56 (4 * DAP_FPGA_BLOCK_WORDS) = 56" "take 56 ?b = ?b" "drop 56 ?b = []"
    by (auto simp: DAP_FPGA_BLOCK_WORDS_def)
  have nil: "write_chunks D a [] = ret ESP_OK" for a by (subst write_chunks.simps) simp
  have one: "(tricore_flash_write_block D LOADER_PARAMS ?b :: ('e flash_scheme, esp_err) state) =
      do { err \<leftarrow> write_chunk D LOADER_PARAMS ws; if err \<noteq> ESP_OK then ret err else ret ESP_OK }"
    unfolding tricore_flash_write_block_def
    by (subst write_chunks.simps) (simp only: len whole Let_def words_of_bytes nil, simp)
  show ?thesis unfolding one by (intro inside_frame chunk)
qed


lemma inside_install:
  fixes f :: "esp_err \<Rightarrow> ('e flash_scheme, 'r) state"
  assumes "rel (inside Q J sw lay) (f ESP_OK)"
  shows "rel (inside Q J sw lay) (tricore_flash_install_loader D \<bind> f)"
  unfolding rel_def
proof
  fix s :: "'e flash_scheme"
  show "inside Q J sw lay s (snd (run (tricore_flash_install_loader D \<bind> f) s))"
  proof (cases "installed s")
    case True
    then show ?thesis using assms by (simp add: tricore_flash_install_loader_def rel_def)
  qed (simp add: inside_def)
qed

lemma core0_neutral: "small_offset off \<Longrightarrow> (tricore_core_reg 0 off, v) \<in> neutral"
  using core_reg_periph [of 0 off v] periph_neutral by auto

lemma grows_regs [grows_frame]:
  "rel (grows A) (tricore_read_pc D core v)"
  "small_offset (reg_offset n) \<Longrightarrow> rel (grows neutral) (tricore_write_reg D 0 n v)"
  unfolding tricore_read_pc_def tricore_read_reg_def tricore_write_reg_def require_halted_def
  by (intro grows_frame core0_neutral; assumption?)+

lemma loader_wait_rules [unchanged_frame, grows_frame]:
  "rel unchanged (loader_wait D n t dl :: ('e flash_scheme, unit) state)"
  "rel (grows A) (loader_wait D n t dl :: ('e flash_scheme, unit) state)"
  subgoal by (induction n) (auto intro!: unchanged_frame)
  subgoal by (induction n) (auto intro!: grows_frame)
  done

lemma read_out_rules [unchanged_frame, grows_frame]:
  "rel unchanged (read_out D is out :: ('e flash_scheme, u32 list option) state)"
  "rel (grows A) (read_out D is out :: ('e flash_scheme, u32 list option) state)"
  subgoal by (induction "is" arbitrary: out) (auto intro!: unchanged_frame)
  subgoal by (induction "is" arbitrary: out) (auto intro!: grows_frame)
  done

lemma inside_loader_parts [inside_frame]:
  "rel (inside Q J sw lay) (point_at_loader D :: ('e flash_scheme, esp_err \<times> u32) state)"
  "rel (inside Q J sw lay) (dump_stop D :: ('e flash_scheme, unit) state)"
  "rel (inside Q J sw lay) (loader_wait D k st dl :: ('e flash_scheme, unit) state)"
  "rel (inside Q J sw lay) (read_out D is out :: ('e flash_scheme, u32 list option) state)"
  "rel (inside Q J sw lay) (tricore_read_pc D core v :: ('e flash_scheme, esp_err \<times> u32) state)"
proof -
  have small: "small_offset (reg_offset 26)" "small_offset (reg_offset 27)" "small_offset (reg_offset TRICORE_REG_PC)"
    by (simp_all add: small_offset_def reg_offset_def TRICORE_REG_PC_def)
  show "rel (inside Q J sw lay) (point_at_loader D :: ('e flash_scheme, esp_err \<times> u32) state)"
    unfolding point_at_loader_def tricore_write_pc_def
    by (intro inside_unchanged) (intro unchanged_frame, intro grows_frame small)
  show "rel (inside Q J sw lay) (dump_stop D :: ('e flash_scheme, unit) state)"
    unfolding dump_stop_def by (intro inside_frame)
qed (intro inside_unchanged unchanged_frame grows_frame)+

lemma inside_run_loader:
  assumes "J (cmd, a, n)"
  shows "rel (inside Q J sw lay) (tricore_flash_run_loader D cmd a n t out :: ('e flash_scheme, esp_err \<times> u32) state)"
proof -
  have "rel (inside Q J sw lay) (tricore_flash_write_block D LOADER_PARAMS (bytes_of_words (loader_params hz cmd a n))
      :: ('e flash_scheme, esp_err) state)" for hz
    using assms by (intro inside_params) (simp_all add: loader_params_def LOADER_PARAM_WORDS_def Let_def)
  moreover have "rel (inside Q J sw lay) (tricore_request_resume D 0 :: ('e flash_scheme, esp_err) state)"
    "rel (inside Q J sw lay) (tricore_halt D 0 HALT_LINE 200 :: ('e flash_scheme, esp_err) state)"
    by (intro inside_debug debug_frame)+
  ultimately show ?thesis
    unfolding tricore_flash_run_loader_def
    by (intro inside_install) (simp, intro inside_frame)
qed

section \<open>Sectors in the flash\<close>

text \<open>The two windows on natural numbers, and the command address of a sector.\<close>

definition window :: "nat \<Rightarrow> nat" where
  "window u = (if 0x80000000 \<le> u \<and> u < 0x81000000 then u + 0x20000000 else u)"

definition command_nat :: "bool \<Rightarrow> nat \<Rightarrow> nat" where
  "command_nat sw u = exchanged sw (window u)"

definition commanded :: "bool \<Rightarrow> nat \<Rightarrow> bool" where
  "commanded sw u \<longleftrightarrow> 0xA0000000 \<le> command_nat sw u \<and> command_nat sw u < 0xA0A00000"

lemma unat_command: "unat (swapped sw a) = command_nat sw (unat a)"
  by (simp add: unat_swapped command_nat_def window_def unat_to_physical)

lemma command_in_sector:
  assumes "s mod 0x4000 = 0" "j < 0x4000"
  shows "command_nat sw (s + j) = command_nat sw s + j"
proof -
  obtain m where s: "s = 0x4000 * m" using assms(1) by (auto simp: mod_eq_0_iff_dvd)
  show ?thesis
    unfolding s command_nat_def exchanged_def window_def using assms(2)
    by (cases "m < 0x20000"; cases "m < 0x20400"; cases "m < 0x28000"; cases "m < 0x28180"; cases "m < 0x28300"; cases sw) auto
qed

lemma exchanged_next:
  assumes "w = 0x4000 * m" "0xA0000000 \<le> exchanged sw w" "exchanged sw w < 0xA0A00000"
    "0xA0000000 \<le> exchanged sw (w + 0x4000)" "exchanged sw (w + 0x4000) < 0xA0A00000"
  shows "exchanged sw (w + 0x4000) = exchanged sw w + 0x4000"
proof (cases sw)
  case True
  have "0xA0000000 \<le> w \<and> w < 0xA0C00000" "0xA0000000 \<le> w + 0x4000 \<and> w + 0x4000 < 0xA0C00000"
    using assms(2-5) True by (auto simp: exchanged_def split: if_splits)
  moreover have "w < 0xA0600000 \<Longrightarrow> w + 0x4000 < 0xA0600000"
    using assms(1,3) True calculation(1) by (cases "m < 0x2817F") (auto simp: exchanged_def)
  ultimately show ?thesis using True by (auto simp: exchanged_def)
qed (simp add: exchanged_def)

lemma command_next_sector:
  assumes "s mod 0x4000 = 0" "commanded sw s" "commanded sw (s + 0x4000)"
  shows "command_nat sw (s + 0x4000) = command_nat sw s + 0x4000"
proof -
  obtain m where s: "s = 0x4000 * m" using assms(1) by (auto simp: mod_eq_0_iff_dvd)
  have b: "0xA0000000 \<le> window u \<and> window u < 0xA0C00000" if "commanded sw u" for u
    using that by (cases sw) (auto simp: commanded_def command_nat_def exchanged_def split: if_splits)
  have w: "window (s + 0x4000) = window s + 0x4000"
    using b [OF assms(2)] b [OF assms(3)] by (cases "m < 0x203FF") (auto simp: window_def s split: if_splits)
  have "\<exists>k. window s = 0x4000 * k"
  proof (cases "0x80000000 \<le> s \<and> s < 0x81000000")
    case True
    then have "window s = 0x4000 * (m + 0x8000)" by (simp add: window_def s)
    then show ?thesis ..
  qed (auto simp: window_def s)
  then show ?thesis
    using assms(2,3) exchanged_next unfolding commanded_def command_nat_def w by blast
qed

lemma command_aligned: "s mod 0x4000 = 0 \<Longrightarrow> command_nat sw s mod 0x4000 = 0"
proof -
  assume "s mod 0x4000 = 0"
  then obtain m where s: "s = 0x4000 * m" by (auto simp: mod_eq_0_iff_dvd)
  have "0x4000 * m + 0x20000000 = 0x4000 * (m + 0x8000)" "0x4000 * m + 0x600000 = 0x4000 * (m + 0x180)"
    "0x4000 * m - 0x600000 = 0x4000 * (m - 0x180)" "0x4000 * m + 0x20000000 + 0x600000 = 0x4000 * (m + 0x8180)"
    "0x4000 * m + 0x20000000 - 0x600000 = 0x4000 * (m + 0x8000 - 0x180)" for m :: nat by simp_all
  then show ?thesis unfolding s command_nat_def exchanged_def window_def by (simp only: mod_mult_self1_is_0 split: if_split) simp
qed

text \<open>From one page to the next.\<close>

lemma command_next_page:
  assumes "commanded sw (u div 0x4000 * 0x4000)" "commanded sw ((u + 32) div 0x4000 * 0x4000)" "u mod 32 = 0"
  shows "command_nat sw (u + 32) = command_nat sw u + 32"
proof -
  let ?s = "u div 0x4000 * 0x4000" and ?j = "u mod 0x4000"
  have u: "u = ?s + ?j" "?j < 0x4000" "?s mod 0x4000 = 0" by simp_all
  have cu: "command_nat sw u = command_nat sw ?s + ?j" using command_in_sector [OF u(3,2), of sw] u(1) by simp
  show ?thesis
  proof (cases "?j + 32 < 0x4000")
    case True
    have "command_nat sw (?s + (?j + 32)) = command_nat sw ?s + (?j + 32)" by (rule command_in_sector [OF u(3) True])
    moreover have "?s + (?j + 32) = u + 32" by (metis u(1) add.assoc)
    ultimately show ?thesis using cu by simp
  next
    case False
    have "?j mod 32 = 0" using assms(3) by (simp add: mod_mod_cancel)
    then obtain q where q: "?j = 32 * q" by (auto simp: mod_eq_0_iff_dvd)
    then have j: "?j + 32 = 0x4000" using False u(2) by simp
    then have next_s: "u + 32 = ?s + 0x4000" by (metis u(1) add.assoc)
    have "(?s + 0x4000) div 0x4000 * 0x4000 = ?s + 0x4000" by simp
    then have "commanded sw (?s + 0x4000)" using assms(2) unfolding next_s by (simp only: add.commute)
    then show ?thesis unfolding next_s using command_next_sector [OF u(3) assms(1)] cu j by simp
  qed
qed

end
