(* ===== verification/Flash_Safety.thy ===== *)
theory Flash_Safety
  imports Flash_Frame
begin

unbundle bit_operations_syntax

text \<open>
  Where a flash session erases and programs: the sectors an image touches, what the stages between the comparison and
  the last page ask of them, and that \<open>tricore_flash_apply\<close> never leaves them.
\<close>

section \<open>Pages and sectors\<close>

lemma unat_sector_of: "unat (sector_of a) = unat a div 0x4000 * 0x4000"
  using unat_align [of a 14] by (simp add: sector_of_def TRICORE_FLASH_SECTOR_def mask_eq_exp_minus_1)

lemma command_high: "commanded sw u \<Longrightarrow> u < 0xA0C00000"
  by (rule ccontr) (auto simp: commanded_def command_nat_def window_def exchanged_def split: if_splits)

lemma sector_of_swapped: "sector_of (swapped sw a) = swapped sw (sector_of a)"
proof -
  let ?s = "unat a div 0x4000 * 0x4000" and ?j = "unat a mod 0x4000"
  have j: "?s mod 0x4000 = 0" "?j < 0x4000" by simp_all
  have "unat (swapped sw a) = command_nat sw (?s + ?j)" by (simp add: unat_command)
  also have "\<dots> = command_nat sw ?s + ?j" by (rule command_in_sector [OF j])
  finally have "unat (swapped sw a) = command_nat sw ?s + ?j" .
  moreover obtain q where "command_nat sw ?s = 0x4000 * q" using command_aligned [OF j(1), of sw] by (auto simp: mod_eq_0_iff_dvd)
  ultimately have "unat (sector_of (swapped sw a)) = command_nat sw ?s" using j(2) by (simp add: unat_sector_of)
  also have "\<dots> = unat (swapped sw (sector_of a))" by (simp add: unat_command unat_sector_of)
  finally show ?thesis by (rule unsigned_word_eqI)
qed

text \<open>A set of sectors in the flash, by the address the command interface takes.\<close>

definition good_sectors :: "bool \<Rightarrow> u32 set \<Rightarrow> bool" where
  "good_sectors sw S \<longleftrightarrow> (\<forall>x\<in>S. sector_of x = x \<and> commanded sw (unat x))"

lemma good_sectorD: "good_sectors sw S \<Longrightarrow> sector_of q \<in> S \<Longrightarrow> commanded sw (unat q div 0x4000 * 0x4000)"
  by (metis good_sectors_def unat_sector_of)

lemma good_below: "good_sectors sw S \<Longrightarrow> sector_of q \<in> S \<Longrightarrow> unat q < 0xA0C04000"
  using good_sectorD [of sw S q] command_high [of sw "unat q div 0x4000 * 0x4000"]
    div_mult_mod_eq [of "unat q" "0x4000"] mod_less_divisor [of "0x4000" "unat q"] by linarith

text \<open>Pages that follow one another in the image are programmed one after another.\<close>

lemma pages_follow:
  assumes "good_sectors sw S" "unat p mod 32 = 0" "\<And>i. i \<le> k \<Longrightarrow> sector_of (p + of_nat i * TRICORE_FLASH_PAGE) \<in> S"
  shows "unat (p + of_nat k * TRICORE_FLASH_PAGE) = unat p + 32 * k \<and>
    swapped sw (p + of_nat k * TRICORE_FLASH_PAGE) = swapped sw p + of_nat k * TRICORE_FLASH_PAGE"
  using assms(3)
proof (induction k)
  case (Suc k)
  let ?q = "p + of_nat k * TRICORE_FLASH_PAGE"
  have IH: "unat ?q = unat p + 32 * k" "swapped sw ?q = swapped sw p + of_nat k * TRICORE_FLASH_PAGE"
    using Suc by simp_all
  have next_q: "p + of_nat (Suc k) * TRICORE_FLASH_PAGE = ?q + 32" by (simp add: TRICORE_FLASH_PAGE_def algebra_simps)
  have S: "sector_of ?q \<in> S" "sector_of (?q + 32) \<in> S"
    using Suc.prems [of k] Suc.prems [of "Suc k"] unfolding next_q by simp_all
  have "unat ?q < 0xA0C04000" by (rule good_below [OF assms(1) S(1)])
  then have u: "unat (?q + 32) = unat ?q + 32" by (simp add: unat_word_ariths(1))
  have "unat ?q mod 32 = 0" using assms(2) IH(1) by simp
  with good_sectorD [OF assms(1) S(1)] good_sectorD [OF assms(1) S(2)]
  have "command_nat sw (unat ?q + 32) = command_nat sw (unat ?q) + 32"
    by (intro command_next_page) (simp_all add: u)
  then have "unat (swapped sw (?q + 32)) = unat (swapped sw ?q) + 32" by (simp add: unat_command u)
  moreover have "unat (swapped sw (?q + 32)) < 2 ^ 32"
    using unsigned_less [where ?w = "swapped sw (?q + 32)" and 'a = nat] by simp
  ultimately have "unat (swapped sw (?q + 32)) = unat (swapped sw ?q + 32)" by (simp add: unat_word_ariths(1))
  then have "swapped sw (?q + 32) = swapped sw ?q + 32" by (rule unsigned_word_eqI)
  then show ?case unfolding next_q using u IH by (simp add: TRICORE_FLASH_PAGE_def algebra_simps)
qed simp

text \<open>A command to the stub programs only pages of \<open>S\<close>.\<close>

definition job_ok :: "bool \<Rightarrow> u32 set \<Rightarrow> u32 \<times> u32 \<times> u32 \<Rightarrow> bool" where
  "job_ok sw S j = (case j of (cmd, a, n) \<Rightarrow> cmd = LOADER_CMD_PROGRAM \<longrightarrow>
     (\<forall>k < unat n. sector_of (a + of_nat k * TRICORE_FLASH_PAGE) \<in> swapped sw ` S))"

lemma job_ok_checksum: "job_ok sw S (LOADER_CMD_CHECKSUM, a, n)"
  by (simp add: job_ok_def loader_consts)

lemma job_ok_pages:
  assumes "good_sectors sw S" "unat p mod 32 = 0" "\<And>i. i < unat n \<Longrightarrow> sector_of (p + of_nat i * TRICORE_FLASH_PAGE) \<in> S"
  shows "job_ok sw S (LOADER_CMD_PROGRAM, swapped sw p, n)"
  unfolding job_ok_def
proof (clarsimp, rule conjI [THEN conjunct1])
  fix k assume k: "k < unat n"
  have "swapped sw (p + of_nat k * TRICORE_FLASH_PAGE) = swapped sw p + of_nat k * TRICORE_FLASH_PAGE"
    using pages_follow [OF assms(1,2), of k] assms(3) k by auto
  then have "sector_of (swapped sw p + of_nat k * TRICORE_FLASH_PAGE) = swapped sw (sector_of (p + of_nat k * TRICORE_FLASH_PAGE))"
    by (metis sector_of_swapped)
  then show "sector_of (swapped sw p + of_nat k * TRICORE_FLASH_PAGE) \<in> swapped sw ` S" using assms(3) [OF k] by simp
qed simp

section \<open>Programming\<close>

lemma buffer_neutral: "i < 0x8000 \<Longrightarrow> (LOADER_BUFFER + of_nat i, v) \<in> neutral"
proof -
  assume i: "i < 0x8000"
  then have "unat (of_nat i :: u32) = i" by (simp add: unat_of_nat)
  then have "unat (LOADER_BUFFER + of_nat i) = 0x70004000 + i"
    using i by (simp add: loader_consts unat_word_ariths(1))
  then have "unat (LOADER_BUFFER + of_nat i) \<notin> {0xAF00AA50, 0xAF00AA58, 0xAF00AAA8, 0x70000000, 0x70000004, 0x70000008}"
    using i by auto
  moreover have "(a, v) \<in> neutral" if "unat a \<notin> {0xAF00AA50, 0xAF00AA58, 0xAF00AAA8, 0x70000000, 0x70000004, 0x70000008}" for a
    using that by (intro neutral_at) (auto simp: csi_consts loader_consts)
  ultimately show ?thesis by blast
qed

lemma inside_fill:
  assumes "length bs \<le> 0x8000"
  shows "rel (inside Q J sw lay) (tricore_flash_write_block D LOADER_BUFFER bs :: ('e flash_scheme, esp_err) state)"
  using assms by (intro inside_unchanged write_block_rules buffer_neutral) simp

text \<open>The pages of a chunk all hold bytes of the image.\<close>

lemma chunk_pages:
  assumes "length bs \<le> 0x8000"
  shows "length (padded_chunk bs) \<le> 0x8000"
    and "i < unat (of_nat (length (padded_chunk bs)) div TRICORE_FLASH_PAGE :: u32) \<Longrightarrow> 32 * i < length bs"
proof -
  obtain q where q: "0x8000 = 32 * (q :: nat)" by (auto intro: that [of "0x400"])
  have len: "length (padded_chunk bs) = length bs + (32 - length bs mod 32) mod 32"
    by (simp add: padded_chunk_eq [OF assms])
  have "length bs = 32 * (length bs div 32) + length bs mod 32" by simp
  then obtain a b where ab: "length bs = 32 * a + b" "b < 32" by (metis mod_less_divisor zero_less_numeral)
  then have pad: "length (padded_chunk bs) = 32 * (if b = 0 then a else a + 1)" unfolding len by auto
  show le: "length (padded_chunk bs) \<le> 0x8000" using assms unfolding pad unfolding ab by auto
  then have "unat (of_nat (length (padded_chunk bs)) :: u32) = length (padded_chunk bs)" by (simp add: unat_of_nat)
  then have "unat (of_nat (length (padded_chunk bs)) div TRICORE_FLASH_PAGE :: u32) = (if b = 0 then a else a + 1)"
    by (simp add: unat_div TRICORE_FLASH_PAGE_def pad)
  moreover assume "i < unat (of_nat (length (padded_chunk bs)) div TRICORE_FLASH_PAGE :: u32)"
  ultimately show "32 * i < length bs" unfolding ab by (auto split: if_splits)
qed

lemma inside_program_chunk:
  assumes S: "good_sectors sw S" "p mod TRICORE_FLASH_PAGE = 0" and len: "length bs \<le> LOADER_BUFFER_BYTES"
    and bs: "\<And>i. i < length bs \<Longrightarrow> sector_of (p + of_nat i) \<in> S"
  shows "rel (inside Q (job_ok sw S) sw lay) (program_chunk D p bs :: ('e flash_scheme, esp_err) state)"
proof -
  have len': "length bs \<le> 0x8000" using len by (simp add: LOADER_BUFFER_BYTES_def)
  have "unat p mod 32 = 0" using S(2) unat_mod [of p 32] by (simp add: TRICORE_FLASH_PAGE_def)
  then have job: "job_ok sw S (LOADER_CMD_PROGRAM, swapped sw p, of_nat (length (padded_chunk bs)) div TRICORE_FLASH_PAGE)"
  proof (rule job_ok_pages [OF S(1)])
    fix i assume "i < unat (of_nat (length (padded_chunk bs)) div TRICORE_FLASH_PAGE :: u32)"
    from bs [OF chunk_pages(2) [OF len' this]]
    show "sector_of (p + of_nat i * TRICORE_FLASH_PAGE) \<in> S" by (simp add: TRICORE_FLASH_PAGE_def mult.commute)
  qed
  show ?thesis
    unfolding program_chunk_def Let_def
    by (intro inside_is_flash) (auto intro!: inside_frame inside_command inside_fill inside_run_loader chunk_pages(1) len' job)
qed

lemma inside_program_chunks:
  assumes S: "good_sectors sw S"
  shows "p mod TRICORE_FLASH_PAGE = 0 \<Longrightarrow> (\<And>i. i < length bs \<Longrightarrow> sector_of (p + of_nat i) \<in> S) \<Longrightarrow>
    rel (inside Q (job_ok sw S) sw lay) (program_chunks D p bs :: ('e flash_scheme, esp_err) state)"
proof (induction bs arbitrary: p rule: length_induct)
  case (1 bs)
  let ?n = "min (length bs) LOADER_BUFFER_BYTES"
  show ?case
  proof (cases "bs = []")
    case False
    have "rel (inside Q (job_ok sw S) sw lay) (program_chunk D p (take ?n bs) :: ('e flash_scheme, esp_err) state)"
      using 1(3) by (intro inside_program_chunk [OF S 1(2)]) auto
    moreover have "rel (inside Q (job_ok sw S) sw lay) (program_chunks D (p + of_nat ?n) (drop ?n bs) :: ('e flash_scheme, esp_err) state)"
    proof (cases "length bs \<le> LOADER_BUFFER_BYTES")
      case True
      then show ?thesis by (subst program_chunks.simps) (simp add: inside.return)
    next
      case long: False
      show ?thesis
      proof (rule 1(1) [rule_format])
        show "length (drop ?n bs) < length bs" using False by (simp add: LOADER_BUFFER_BYTES_def)
        have "(p + 0x8000) mod 32 = 0" if "p mod 32 = 0" for p :: u32
        proof -
          have "unat p mod 32 = 0" using that unat_mod [of p 32] by simp
          then obtain q where "unat p = 32 * q" by (auto simp: mod_eq_0_iff_dvd)
          then have "unat (p + 0x8000) = (32 * (q + 0x400)) mod (32 * 0x8000000)" by (simp add: unat_word_ariths(1))
          then have "unat (p + 0x8000) mod 32 = 0" by (simp only: mod_mult_mult1 mod_mult_self1_is_0)
          then show ?thesis using unat_mod [of "p + 0x8000" 32] by (simp flip: unat_eq_0)
        qed
        then show "(p + of_nat ?n) mod TRICORE_FLASH_PAGE = 0"
          using long 1(2) by (simp add: LOADER_BUFFER_BYTES_def TRICORE_FLASH_PAGE_def)
        fix i assume "i < length (drop ?n bs)"
        then have "?n + i < length bs" by simp
        from 1(3) [OF this] show "sector_of (p + of_nat ?n + of_nat i) \<in> S" by (simp add: add.assoc)
      qed
    qed
    ultimately show ?thesis using False
      by (subst program_chunks.simps) (simp add: Let_def inside.rules)
  qed (subst program_chunks.simps, simp add: inside.return)
qed

lemma inside_program:
  assumes "good_sectors sw S" "\<And>i. i < length bs \<Longrightarrow> sector_of (p + of_nat i) \<in> S"
  shows "rel (inside Q (job_ok sw S) sw lay) (tricore_flash_program D p bs :: ('e flash_scheme, esp_err) state)"
  unfolding tricore_flash_program_def by (intro inside_frame inside_program_chunks assms) auto

lemma kept_run_nth:
  "j < kept_run prev stop xs \<Longrightarrow> j < length xs \<and> fst (xs ! j) = prev + of_nat (Suc j) * TRICORE_FLASH_SECTOR"
proof (induction xs arbitrary: prev j)
  case (Cons x xs)
  then show ?case by (cases j) (auto simp: algebra_simps split: if_splits)
qed simp

text \<open>A run of kept sectors is one stretch of the flash.\<close>

lemma run_stretch:
  assumes "good_sectors sw S" "\<And>j. j \<le> m \<Longrightarrow> x + of_nat j * TRICORE_FLASH_SECTOR \<in> S" "k \<le> m"
  shows "unat (x + of_nat k * TRICORE_FLASH_SECTOR) = unat x + 0x4000 * k"
  using assms(3)
proof (induction k)
  case (Suc k)
  let ?y = "x + of_nat k * TRICORE_FLASH_SECTOR"
  have "commanded sw (unat ?y)" using assms(1) assms(2) [of k] Suc.prems by (simp add: good_sectors_def)
  then have "unat ?y < 0xA0C00000" by (rule command_high)
  then have "unat (?y + 0x4000) = unat ?y + 0x4000" by (simp add: unat_word_ariths(1))
  moreover have "x + of_nat (Suc k) * TRICORE_FLASH_SECTOR = ?y + 0x4000" by (simp add: TRICORE_FLASH_SECTOR_def algebra_simps)
  ultimately show ?case using Suc.IH Suc.prems by (simp only: mult_Suc_right)
qed simp

lemma stretch_sector:
  assumes S: "good_sectors sw S" "\<And>j. j \<le> m \<Longrightarrow> x + of_nat j * TRICORE_FLASH_SECTOR \<in> S"
    and b: "unat x \<le> unat b" "unat b < unat x + 0x4000 * (m + 1)"
  shows "sector_of b \<in> S"
proof -
  have "sector_of x = x" using S(1) S(2) [of 0] by (simp add: good_sectors_def)
  then have "unat x = unat x div 0x4000 * 0x4000" using unat_sector_of [of x] by simp
  then obtain q where q: "unat x = 0x4000 * q" by (metis mult.commute)
  let ?j = "(unat b - unat x) div 0x4000"
  have "?j \<le> m" using b by (simp add: div_less_iff_less_mult less_Suc_eq_le [symmetric])
  have "unat b = 0x4000 * q + (unat b - unat x)" using b(1) q by simp
  then have "unat b div 0x4000 = q + ?j" by (metis div_mult_self4 zero_neq_numeral)
  then have "unat (sector_of b) = unat x + 0x4000 * ?j" by (simp add: unat_sector_of q)
  also have "\<dots> = unat (x + of_nat ?j * TRICORE_FLASH_SECTOR)" using run_stretch [OF S] \<open>?j \<le> m\<close> by simp
  finally have "sector_of b = x + of_nat ?j * TRICORE_FLASH_SECTOR" by (rule unsigned_word_eqI)
  then show ?thesis using S(2) [OF \<open>?j \<le> m\<close>] by simp
qed

lemma run_bytes_in:
  assumes S: "good_sectors sw S" "\<And>y. y \<in> set (x # xs) \<Longrightarrow> fst y \<in> S"
    and r: "unat (rg_address r) + unat (rg_length r) < 2 ^ 32"
    and x: "\<not> fst x + TRICORE_FLASH_SECTOR \<le> rg_address r" "\<not> fst x \<ge> region_end r"
  defines "m \<equiv> kept_run (fst x) (region_end r) xs"
  defines "lo \<equiv> (if fst x > rg_address r then fst x else rg_address r)"
    and "top' \<equiv> fst (last (x # take m xs)) + TRICORE_FLASH_SECTOR"
  defines "hi \<equiv> (if top' < region_end r then top' else region_end r)"
  assumes i: "i < length (region_bytes r lo hi)"
  shows "sector_of (lo + of_nat i) \<in> S"
proof -
  have nth: "j < length xs \<and> fst (xs ! j) = fst x + of_nat (Suc j) * TRICORE_FLASH_SECTOR" if "j < m" for j
    using kept_run_nth [of j "fst x" "region_end r" xs] that by (simp add: m_def)
  have run: "fst x + of_nat j * TRICORE_FLASH_SECTOR \<in> S" if "j \<le> m" for j
  proof (cases j)
    case (Suc k)
    then have "k < m" using that by simp
    from nth [OF this] S(2) [of "xs ! k"] show ?thesis by (auto simp: Suc)
  qed (use S(2) [of x] in simp)
  have last_x: "fst (last (x # take m xs)) = fst x + of_nat m * TRICORE_FLASH_SECTOR"
  proof (cases m)
    case (Suc k)
    with nth [of k] show ?thesis by (auto simp: take_Suc_conv_app_nth)
  qed simp
  have "commanded sw (unat (fst x + of_nat m * TRICORE_FLASH_SECTOR))" using run [of m] S(1) by (simp add: good_sectors_def)
  then have "unat (fst x + of_nat m * TRICORE_FLASH_SECTOR) < 0xA0C00000" by (rule command_high)
  moreover have u: "unat (fst x + of_nat m * TRICORE_FLASH_SECTOR) = unat (fst x) + 0x4000 * m" by (rule run_stretch [OF S(1) run]) auto
  ultimately have t: "unat top' = unat (fst x) + 0x4000 * (m + 1)"
    unfolding top'_def last_x by (subst unat_word_ariths(1)) (simp add: u, simp add: TRICORE_FLASH_SECTOR_def)
  have e: "unat (region_end r) = unat (rg_address r) + unat (rg_length r)" using r by (simp add: region_end_def unat_word_ariths(1))
  have lo: "unat lo = max (unat (fst x)) (unat (rg_address r))" by (auto simp: lo_def word_less_nat_alt)
  have hi: "unat hi = min (unat top') (unat (region_end r))" by (auto simp: hi_def word_less_nat_alt)
  have "unat (fst x + TRICORE_FLASH_SECTOR) = unat (fst x) + 0x4000"
    using command_high [of sw "unat (fst x)"] run [of 0] S(1)
    by (simp add: good_sectors_def unat_word_ariths(1) TRICORE_FLASH_SECTOR_def)
  then have le: "unat lo \<le> unat hi" unfolding lo hi e t using x by (simp add: word_le_nat_alt e)
  then have "unat (hi - lo) = unat hi - unat lo" by (simp add: unat_sub word_le_nat_alt)
  then have i': "i < unat hi - unat lo" using i by (simp add: region_bytes_def)
  moreover have "unat hi < 2 ^ 32" using unsigned_less [where ?w = hi and 'a = nat] by simp
  ultimately have "unat (lo + of_nat i) = unat lo + i" by (simp add: unat_word_ariths(1) unat_of_nat)
  then show ?thesis using i' hi lo t by (intro stretch_sector [OF S(1), of m "fst x"] run) auto
qed

lemma inside_program_kept:
  assumes S: "good_sectors sw S" and r: "unat (rg_address r) + unat (rg_length r) < 2 ^ 32"
  shows "(\<And>y. y \<in> set xs \<Longrightarrow> fst y \<in> S) \<Longrightarrow>
    rel (inside Q (job_ok sw S) sw lay) (program_kept D r xs :: ('e flash_scheme, esp_err) state)"
proof (induction xs rule: length_induct)
  case (1 xs)
  show ?case
  proof (cases xs)
    case (Cons x ys)
    have rest: "rel (inside Q (job_ok sw S) sw lay) (program_kept D r (drop m ys) :: ('e flash_scheme, esp_err) state)" for m
      using 1 by (intro 1(1) [rule_format]) (auto simp: Cons dest: in_set_dropD)
    have "rel (inside Q (job_ok sw S) sw lay) (program_kept D r ys :: ('e flash_scheme, esp_err) state)"
      using rest [of 0] by simp
    then show ?thesis
      unfolding Cons program_kept.simps Let_def
      by (intro inside_frame inside_program [OF S] run_bytes_in [OF S _ r] rest) (use 1(2) Cons in auto)
  qed (simp add: program_kept.simps inside.return)
qed

section \<open>The sectors of an image\<close>

text \<open>The layouts \<open>tricore_flash_layout\<close> knows.\<close>

definition known_layout :: "(u32 \<times> u32) list \<Rightarrow> bool" where
  "known_layout lay \<longleftrightarrow>
     lay = [(0xA0000000, 0xA0A00000)] \<or> lay = [(0xA0000000, 0xA0400000), (0xA0600000, 0xA0A00000)]"

text \<open>The erasable sectors the regions touch.\<close>

definition touched :: "bool \<Rightarrow> (u32 \<times> u32) list \<Rightarrow> tricore_flash_region list \<Rightarrow> u32 set" where
  "touched sw lay regions =
     {x. sector_of x = x \<and> in_layout lay (swapped sw x) \<and>
         (\<exists>r \<in> set regions. sector_of (rg_address r) \<le> x \<and> x < region_end r)}"

lemma layout_commanded: "known_layout lay \<Longrightarrow> in_layout lay (swapped sw x) \<Longrightarrow> commanded sw (unat x)"
proof -
  have "unat (swapped sw x) < 0x80000000 \<or> 0x81000000 \<le> unat (swapped sw x)"
    unfolding unat_swapped unat_to_physical by (auto simp: exchanged_def)
  then have "tricore_flash_to_physical (swapped sw x) = swapped sw x" by (rule to_physical_id)
  moreover assume "known_layout lay" "in_layout lay (swapped sw x)"
  ultimately have "0xA0000000 \<le> unat (swapped sw x) \<and> unat (swapped sw x) < 0xA0A00000"
    by (auto simp: known_layout_def in_layout_def in_ranges_def word_le_nat_alt word_less_nat_alt)
  then show ?thesis by (simp add: commanded_def unat_command)
qed

lemma touched_good: "known_layout lay \<Longrightarrow> good_sectors sw (touched sw lay regions)"
  by (auto simp: good_sectors_def touched_def intro: layout_commanded)

lemma sector_of_next: "sector_of x = x \<Longrightarrow> unat x < 0xA0C00000 \<Longrightarrow>
  sector_of (x + TRICORE_FLASH_SECTOR) = x + TRICORE_FLASH_SECTOR \<and> x \<le> x + TRICORE_FLASH_SECTOR"
proof -
  assume x: "sector_of x = x" "unat x < 0xA0C00000"
  then have u: "unat (x + TRICORE_FLASH_SECTOR) = unat x + 0x4000" by (simp add: unat_word_ariths(1) TRICORE_FLASH_SECTOR_def)
  have "unat x = unat x div 0x4000 * 0x4000" using x(1) unat_sector_of [of x] by simp
  then obtain q where "unat x = 0x4000 * q" by (metis mult.commute)
  then have "unat (x + TRICORE_FLASH_SECTOR) = 0x4000 * (q + 1)" using u by simp
  then have "unat (sector_of (x + TRICORE_FLASH_SECTOR)) = unat (x + TRICORE_FLASH_SECTOR)"
    unfolding unat_sector_of by simp
  then have "sector_of (x + TRICORE_FLASH_SECTOR) = x + TRICORE_FLASH_SECTOR" by (rule unsigned_word_eqI)
  then show ?thesis using u by (simp add: word_le_nat_alt)
qed

lemma sector_walk_in:
  "x \<in> set (sector_walk n a e) \<Longrightarrow> (\<And>y. y \<in> set (sector_walk n a e) \<Longrightarrow> unat y < 0xA0C00000) \<Longrightarrow> sector_of a = a \<Longrightarrow>
   sector_of x = x \<and> a \<le> x \<and> x < e"
proof (induction n arbitrary: a)
  case (Suc n)
  show ?case
  proof (cases "x = a")
    case False
    then have ae: "a < e" and x: "x \<in> set (sector_walk n (a + TRICORE_FLASH_SECTOR) e)" using Suc.prems(1) by (auto split: if_splits)
    from sector_of_next [OF Suc.prems(3) Suc.prems(2) [of a]] ae
    have "sector_of (a + TRICORE_FLASH_SECTOR) = a + TRICORE_FLASH_SECTOR \<and> a \<le> a + TRICORE_FLASH_SECTOR" by simp
    moreover have "unat y < 0xA0C00000" if "y \<in> set (sector_walk n (a + TRICORE_FLASH_SECTOR) e)" for y
      using Suc.prems(2) [of y] that ae by simp
    ultimately show ?thesis using Suc.IH [OF x] by (auto intro: order_trans)
  qed (use Suc.prems in \<open>auto split: if_splits\<close>)
qed simp

lemma add_sectors_set: "add_sectors xs acc = Some ys \<Longrightarrow> set ys = set acc \<union> set xs"
  by (induction xs arbitrary: acc) (auto split: if_splits)

lemma found_touched:
  assumes lay: "known_layout lay" and found: "touched_sectors regions = Some found"
    and ok: "\<And>x. x \<in> set found \<Longrightarrow> in_layout lay (swapped sw x)"
  shows "set found \<subseteq> touched sw lay regions"
proof
  fix x assume x: "x \<in> set found"
  have all: "set found = (\<Union>r\<in>set regions. set (sectors_between (rg_address r) (region_end r)))"
    using add_sectors_set [of _ "[]" found] found by (simp add: touched_sectors_def)
  with x obtain r where r: "r \<in> set regions" "x \<in> set (sectors_between (rg_address r) (region_end r))" by auto
  have "unat y < 0xA0C00000" if "y \<in> set (sectors_between (rg_address r) (region_end r))" for y
  proof -
    have "y \<in> set found" using that r(1) all by auto
    then show ?thesis by (rule command_high [OF layout_commanded [OF lay ok]])
  qed
  moreover have "sector_of (sector_of a) = sector_of a" for a by (simp add: sector_of_def)
  ultimately have "sector_of x = x \<and> sector_of (rg_address r) \<le> x \<and> x < region_end r"
    using r(2) unfolding sectors_between_def by (intro sector_walk_in) auto
  then show "x \<in> touched sw lay regions" using r(1) ok [OF x] by (auto simp: touched_def)
qed

section \<open>The whole image\<close>

lemma inside_checksum [inside_frame]:
  "rel (inside Q (job_ok sw S) sw lay) (tricore_flash_run_loader D LOADER_CMD_CHECKSUM a n t out :: ('e flash_scheme, esp_err \<times> u32) state)"
  by (intro inside_run_loader job_ok_checksum)

lemma inside_differs [inside_frame]:
  "rel (inside Q (job_ok sw S) sw lay) (sector_differs D x regions :: ('e flash_scheme, bool) state)"
  by (induction regions) (auto simp: target_crc_quiet_def intro!: inside_frame)

lemma inside_compare [inside_frame]:
  "rel (inside Q (job_ok sw S) sw lay) (compare_sectors D regions xs :: ('e flash_scheme, bool list) state)"
  by (induction xs) (auto intro!: inside_frame)

lemma inside_compare_all [inside_frame]:
  "rel (inside Q (job_ok sw S) sw lay) (compare_all D regions xs :: ('e flash_scheme, bool list) state)"
  unfolding compare_all_def Let_def by (intro inside_frame)

lemma inside_verify [inside_frame]:
  "rel (inside Q (job_ok sw S) sw lay) (verify_region D r :: ('e flash_scheme, esp_err) state)"
  unfolding verify_region_def tricore_flash_verify_def tricore_flash_checksum_def by (intro inside_frame)

lemma inside_rewrite:
  assumes "good_sectors sw S" "set xs \<subseteq> S" "\<forall>r\<in>set regions. unat (rg_address r) + unat (rg_length r) < 2 ^ 32"
  shows "rel (inside (erase_ok sw S) (job_ok sw S) sw lay) (rewrite_kept D regions (zip xs keep) :: ('e flash_scheme, esp_err) state)"
  unfolding rewrite_kept_def Let_def
  by (intro inside_frame inside_erase_sectors inside_program_kept [OF assms(1)])
    (use assms in \<open>auto dest: set_zip_leftD\<close>)

lemma inside_write_sectors:
  assumes "good_sectors sw S" "set xs \<subseteq> S" "\<forall>r\<in>set regions. unat (rg_address r) + unat (rg_length r) < 2 ^ 32"
  shows "rel (inside (erase_ok sw S) (job_ok sw S) sw lay) (write_sectors D regions xs :: ('e flash_scheme, esp_err) state)"
  unfolding write_sectors_def by (intro inside_frame inside_rewrite assms)

lemma inside_apply:
  assumes lay: "known_layout lay" and r: "\<forall>r\<in>set regions. unat (rg_address r) + unat (rg_length r) < 2 ^ 32"
    and S: "S = touched sw lay regions"
  shows "rel (inside (erase_ok sw S) (job_ok sw S) sw lay) (tricore_flash_apply D regions :: ('e flash_scheme, esp_err) state)"
proof -
  let ?R = "inside (erase_ok sw S) (job_ok sw S) sw lay"
  have found: "rel ?R (gets (first_foreign (sort found)) \<bind> f :: ('e flash_scheme, esp_err) state)"
    if "touched_sectors regions = Some found" "\<And>x. rel ?R (f (Some x))" "set (sort found) \<subseteq> S \<Longrightarrow> rel ?R (f None)" for found f
  proof (rule inside_known)
    show "first_foreign (sort found) s = find (\<lambda>x. \<not> in_layout lay (swapped sw x)) (sort found)"
      if "swap_active s = sw" "layout s = lay" for s :: "'e flash_scheme"
      using that by (simp add: first_foreign_def command_address_def is_program_flash_layout)
    show "rel ?R (f (find (\<lambda>x. \<not> in_layout lay (swapped sw x)) (sort found)))"
    proof (cases "find (\<lambda>x. \<not> in_layout lay (swapped sw x)) (sort found)")
      case None
      then have "set found \<subseteq> S" unfolding S
        by (intro found_touched [OF lay that(1)]) (simp add: find_None_iff)
      then show ?thesis using that(3) None by simp
    qed (use that(2) in simp)
  qed
  show ?thesis
  proof (cases "touched_sectors regions")
    case None
    then show ?thesis by (auto simp: tricore_flash_apply_def intro!: inside_frame)
  next
    case (Some fnd)
    have "rel ?R (gets (first_foreign (sort fnd)) \<bind> case_option (write_sectors D regions (sort fnd)) (\<lambda>x. do {
              tricore_flash_safe_shutdown D;
              flash_fail D ''0x%08X is not erasable program flash'' [x] }) :: ('e flash_scheme, esp_err) state)"
      by (rule found [OF Some]) (simp_all, intro inside_frame, intro inside_write_sectors r, simp_all add: S touched_good [OF lay])
    then show ?thesis by (simp add: tricore_flash_apply_def Some inside.return)
  qed
qed

text \<open>(The flasher stays in the image's sectors.) Inside a session, whatever the link and the target answer,
  \<open>tricore_flash_apply\<close> gives the command interface only erase commands of at most 32 sectors inside one physical
  sector, each of them the command address of an erasable sector the regions touch; and it gives the loader stub only
  programming commands all of whose pages lie in such sectors. The erase commands and the stub's commands are read off
  the words that reach the bus.\<close>

theorem apply_stays_in_flash:
  fixes s :: "'e flash_scheme"
  assumes "installed s" "known_layout (layout s)"
    "\<forall>r\<in>set regions. unat (rg_address r) + unat (rg_length r) < 2 ^ 32"
  shows "let s' = final (tricore_flash_apply D regions) s; sw = swap_active s; S = touched sw (layout s) regions
    in extended (erase_ok sw S) (erases s) (erases s') \<and> extended (job_ok sw S) (jobs s) (jobs s')"
proof -
  have "rel (inside (erase_ok (swap_active s) (touched (swap_active s) (layout s) regions))
      (job_ok (swap_active s) (touched (swap_active s) (layout s) regions)) (swap_active s) (layout s))
      (tricore_flash_apply D regions :: ('e flash_scheme, esp_err) state)"
    by (rule inside_apply [OF assms(2,3) refl])
  from rel_final [OF this, of s] assms(1) show ?thesis by (simp add: inside_def Let_def)
qed

lemma no_commands: "csi_erases (csi_of (bus_writes [])) = []" "job_list (job_of (bus_writes [])) = []"
  by (simp_all add: bus_writes_def bus_of_def csi_of_def job_of_def)

lemma apply_stays_in_flash_witness:
  "let s = flash0\<lparr>installed := True\<rparr>; r = \<lparr>rg_address = 0x80004020, rg_length = 5, rg_data = \<lambda>_. 7\<rparr>;
       s' = final (tricore_flash_apply (good_dev 0) [r]) s; S = touched False [(0xA0000000, 0xA0A00000)] [r]
   in extended (erase_ok False S) [] (erases s') \<and> extended (job_ok False S) [] (jobs s')"
  using apply_stays_in_flash [of "flash0\<lparr>installed := True\<rparr>"
      "[\<lparr>rg_address = 0x80004020, rg_length = 5, rg_data = \<lambda>_. 7\<rparr>]" "good_dev 0"]
  by (simp add: known_layout_def Let_def no_commands)

end
