(* ===== verification/Ucb_Safety.thy ===== *)
theory Ucb_Safety
  imports Flash_Frame
begin

unbundle bit_operations_syntax

text \<open>
  What the writer of the boot mode headers tells the command interface: the words of a block as one list, computations
  that give a prefix of such a list and all of it when they succeed (\<open>gives\<close>), the blocks the plan selects, and
  the whole run.
\<close>

section \<open>What the writer tells the command interface\<close>

text \<open>Words other than the reset of the command interpreter, which clears latched errors and commands nothing.\<close>

definition effective :: "(u32 \<times> u32) list \<Rightarrow> (u32 \<times> u32) list" where
  "effective ws = filter (\<lambda>w. w \<noteq> (CSI_BASE + CYCLE_5554, CMD_CLEAR_STATUS)) ws"

lemma effective_simps: "effective (xs @ ys) = effective xs @ effective ys" "effective (rev xs) = rev (effective xs)"
  by (simp_all add: effective_def rev_filter)

text \<open>The words of an interpreter cycle, of erasing a block, of one page, and of the whole block: the page with the
  confirmation word is the last.\<close>

definition csi_words :: "(u32 \<times> u32) list \<Rightarrow> (u32 \<times> u32) list" where
  "csi_words cs = map (\<lambda>(offset, v). (CSI_BASE + offset, v)) cs"

definition page_words :: "u32 \<Rightarrow> u8 list \<Rightarrow> nat \<Rightarrow> (u32 \<times> u32) list" where
  "page_words base blob off = csi_words
     [(CYCLE_5554, CMD_ENTER_PAGE_DFLASH), (CYCLE_55F0, loader_le32 blob off), (CYCLE_55F4, loader_le32 blob (off + 4)),
      (CYCLE_AA50, base + of_nat off), (CYCLE_AA58, 0), (CYCLE_AAA8, CMD_WRITE_PAGE), (CYCLE_AAA8, CMD_PROGRAM)]"

definition block_words_of :: "u32 \<Rightarrow> u8 list \<Rightarrow> (u32 \<times> u32) list" where
  "block_words_of base blob =
     csi_words [(CYCLE_5554, CMD_ENTER_PAGE_DFLASH), (CYCLE_AA50, base), (CYCLE_AA58, 1), (CYCLE_AAA8, CMD_ERASE_SETUP),
       (CYCLE_AAA8, CMD_ERASE)] @
     concat (map (page_words base blob) (map ((*) 8) [0..<62] @ [0x1F8, 0x1F0]))"

section \<open>Progress through a list of words\<close>

text \<open>The words a computation still has to give are \<open>V\<close>: it gives the first of them, all if it succeeds.\<close>

definition wrote :: "(u32 \<times> u32) list \<Rightarrow> (u32 \<times> u32) list \<Rightarrow> 'e probe_scheme \<Rightarrow> bool" where
  "wrote old W s \<longleftrightarrow> effective (blog s) = rev W @ old"

definition gives :: "('r \<Rightarrow> bool) \<Rightarrow> (u32 \<times> u32) list \<Rightarrow> ('e probe_scheme, 'r) state \<Rightarrow> bool" where
  "gives ok V m \<longleftrightarrow> (\<forall>old W. triple (wrote old W) m (\<lambda>r s. \<exists>k. wrote old (W @ take k V) s \<and> (ok r \<longrightarrow> length V \<le> k)))"

definition never :: "('r \<Rightarrow> bool) \<Rightarrow> ('s, 'r) state \<Rightarrow> bool" where
  "never ok m \<longleftrightarrow> triple (\<lambda>_. True) m (\<lambda>r _. \<not> ok r)"

abbreviation is_ok :: "esp_err \<Rightarrow> bool" where
  "is_ok err \<equiv> err = ESP_OK"

definition idle_words :: "(u32 \<times> u32) set" where
  "idle_words = {(CSI_BASE + CYCLE_5554, CMD_CLEAR_STATUS)}"

lemma grows_idle: "grows idle_words s s' \<Longrightarrow> effective (blog s') = effective (blog s)"
  by (auto simp: grows_def effective_def idle_words_def filter_empty_conv)

lemma quiet_never: "rel (grows idle_words) m \<Longrightarrow> never ok m \<Longrightarrow> triple (wrote old W) m (\<lambda>r s. wrote old W s \<and> \<not> ok r)"
  unfolding never_def by (intro triple_conj, erule of_rel, simp add: wrote_def grows_idle, erule triple_pre, simp)

lemma gives_quiet: "rel (grows idle_words) m \<Longrightarrow> gives ok [] m"
  unfolding gives_def by (intro allI, erule of_rel, simp add: wrote_def grows_idle)

lemma gives_nothing: "rel (grows idle_words) m \<Longrightarrow> never ok m \<Longrightarrow> gives ok V m"
  unfolding gives_def by (intro allI, erule (1) triple_post [OF quiet_never]) (rule exI [of _ 0], simp)

lemma gives_first:
  assumes "rel (grows idle_words) m" "\<And>x. gives ok V (f x)"
  shows "gives ok V (m \<bind> f)"
  unfolding gives_def
proof (intro allI triple_bind)
  show "triple (wrote old W) m (\<lambda>_. wrote old W)" for old W
    using assms(1) by (rule of_rel) (simp add: wrote_def grows_idle)
qed (use assms(2) in \<open>simp add: gives_def\<close>)

lemma gives_bind:
  assumes m: "gives is_ok V m" and bad: "\<And>err. err \<noteq> ESP_OK \<Longrightarrow> rel (grows idle_words) (f err) \<and> never ok (f err)"
    and good: "gives ok V2 (f ESP_OK)"
  shows "gives ok (V @ V2) (m \<bind> f)"
  unfolding gives_def
proof (intro allI triple_bind)
  fix old W
  show "triple (wrote old W) m (\<lambda>r s. \<exists>k. wrote old (W @ take k V) s \<and> (r = ESP_OK \<longrightarrow> length V \<le> k))"
    using m by (simp add: gives_def)
  show "triple (\<lambda>s. \<exists>k. wrote old (W @ take k V) s \<and> (err = ESP_OK \<longrightarrow> length V \<le> k)) (f err)
      (\<lambda>r s. \<exists>k. wrote old (W @ take k (V @ V2)) s \<and> (ok r \<longrightarrow> length (V @ V2) \<le> k))" for err
  proof (cases "err = ESP_OK")
    case True
    have "triple (wrote old (W @ V)) (f ESP_OK)
        (\<lambda>r s. \<exists>k. wrote old ((W @ V) @ take k V2) s \<and> (ok r \<longrightarrow> length V2 \<le> k))"
      using good unfolding gives_def by blast
    then have "triple (wrote old (W @ V)) (f ESP_OK)
      (\<lambda>r s. \<exists>k. wrote old (W @ take k (V @ V2)) s \<and> (ok r \<longrightarrow> length (V @ V2) \<le> k))"
    proof (rule triple_post)
      fix r and s :: "'a probe_scheme" assume "\<exists>k. wrote old ((W @ V) @ take k V2) s \<and> (ok r \<longrightarrow> length V2 \<le> k)"
      then obtain k where "wrote old ((W @ V) @ take k V2) s" "ok r \<longrightarrow> length V2 \<le> k" by blast
      then show "\<exists>k. wrote old (W @ take k (V @ V2)) s \<and> (ok r \<longrightarrow> length (V @ V2) \<le> k)"
        by (intro exI [of _ "length V + k"]) simp
    qed
    then have "triple (\<lambda>s. \<exists>k. wrote old (W @ take k V) s \<and> length V \<le> k) (f ESP_OK)
      (\<lambda>r s. \<exists>k. wrote old (W @ take k (V @ V2)) s \<and> (ok r \<longrightarrow> length (V @ V2) \<le> k))"
      by (rule triple_pre) auto
    then show ?thesis using True by simp
  next
    case False
    with bad have "triple (wrote old X) (f err) (\<lambda>r s. wrote old X s \<and> \<not> ok r)" for X by (intro quiet_never) auto
    then have "triple (wrote old (W @ take k V)) (f err)
        (\<lambda>r s. \<exists>k. wrote old (W @ take k (V @ V2)) s \<and> (ok r \<longrightarrow> length (V @ V2) \<le> k))" for k
      by (rule triple_post) (rule exI [of _ "min k (length V)"], auto simp: min_def)
    from triple_ex [OF this] show ?thesis using False by simp
  qed
qed

lemma gives_cycles:
  "gives is_ok (effective (csi_words cs)) (csi_cycles D cs :: ('e flash_scheme, esp_err) state)"
  unfolding gives_def
proof (intro allI tripleI)
  fix old W err and s s' :: "'e flash_scheme"
  assume w: "wrote old W s" and run: "run (csi_cycles D cs) s = (err, s')"
  from csi_cycles_log [OF run] obtain k where k: "k \<le> length cs" "err = ESP_OK \<longrightarrow> k = length cs"
    "blog s' = rev (take k (csi_words cs)) @ blog s"
    by (auto simp: csi_words_def case_prod_beta')
  have "csi_words cs = take k (csi_words cs) @ drop k (csi_words cs)" by simp
  then have "effective (csi_words cs) = effective (take k (csi_words cs)) @ effective (drop k (csi_words cs))"
    by (metis effective_simps(1))
  then have "take (length (effective (take k (csi_words cs)))) (effective (csi_words cs)) = effective (take k (csi_words cs))" by simp
  with w k show "\<exists>k. wrote old (W @ take k (effective (csi_words cs))) s' \<and> (err = ESP_OK \<longrightarrow> length (effective (csi_words cs)) \<le> k)"
    by (intro exI [of _ "length (effective (take k (csi_words cs)))"])
      (auto simp: wrote_def effective_simps, simp add: csi_words_def)
qed

lemma gives_cycle:
  "effective (csi_words [(offset, v)]) = [(CSI_BASE + offset, v)] \<Longrightarrow>
   gives is_ok [(CSI_BASE + offset, v)] (csi_cycle D offset v :: ('e flash_scheme, esp_err) state)"
proof -
  have r: "(\<lambda>err. if err \<noteq> ESP_OK then ret err else ret ESP_OK) = (ret :: _ \<Rightarrow> ('e flash_scheme, esp_err) state)" by auto
  have "(csi_cycles D [(offset, v)] :: ('e flash_scheme, esp_err) state) = csi_cycle D offset v"
    by (simp only: csi_cycles_def for_ok.simps fst_conv snd_conv r bind_right_identity)
  moreover have "gives is_ok (effective (csi_words [(offset, v)])) (csi_cycles D [(offset, v)] :: ('e flash_scheme, esp_err) state)"
    by (rule gives_cycles)
  ultimately show "effective (csi_words [(offset, v)]) = [(CSI_BASE + offset, v)] \<Longrightarrow> ?thesis" by simp
qed

section \<open>Reading commands nothing\<close>

lemma grows_read_mem [grows_frame]: "rel (grows A) (tricore_read_mem D a n)"
proof -
  have "rel (grows A) (read_mem_loop D a n buf)" for buf
    by (induction D a n buf rule: read_mem_loop.induct, subst read_mem_loop.simps) (intro grows_frame; simp add: Let_def)
  then show ?thesis by (simp add: tricore_read_mem_def)
qed

lemma grows_modify_more [grows_frame]: "(\<And>s. hist (f s) = hist s) \<Longrightarrow> rel (grows A) (modify f)"
  by (simp add: rel_def grows_def)

lemma grows_flash [grows_frame]:
  "rel (grows A) (fstat f)" "rel (grows A) (tricore_flash_set_phase D ph m)" "rel (grows A) (read_block D b)"
  "rel (grows A) (why fmt args)" "rel (grows A) (report fmt args)"
  unfolding fstat_def tricore_flash_set_phase_def read_block_def why_def report_def by (intro grows_frame; simp)+

lemma idle_clear [grows_frame]: "rel (grows idle_words) (clear_status D)"
  unfolding clear_status_def csi_cycle_def by (intro grows_frame) (simp add: idle_words_def)

lemma idle_wait [grows_frame]:
  "rel (grows idle_words) (tricore_flash_wait_idle D a t)" "rel (grows idle_words) (ucb_wait_idle D what a t)"
  unfolding ucb_wait_idle_def tricore_flash_wait_idle_def by (intro grows_frame)+

lemma never_rules: "\<not> ok r \<Longrightarrow> never ok (ret r)" "(\<And>x. never ok (f x)) \<Longrightarrow> never ok (m \<bind> f)"
  "never is_ok (why fmt args)"
  unfolding why_def never_def by (auto intro!: triple_bind triple_return triple_const)

lemma gives_then:
  assumes "gives is_ok V m" "\<And>err. err \<noteq> ESP_OK \<Longrightarrow> rel (grows idle_words) (f err) \<and> never ok (f err)"
    "rel (grows idle_words) (f ESP_OK)"
  shows "gives ok V (m \<bind> f)"
proof -
  have "gives ok (V @ []) (m \<bind> f)" by (rule gives_bind [OF assms(1,2)], assumption, rule gives_quiet [OF assms(3)])
  then show ?thesis by simp
qed

lemma never_why: "(\<And>x. never ok (ret (ESP_FAIL, x))) \<Longrightarrow> never ok (why fmt args \<bind> (\<lambda>err. ret (err, x)))"
  unfolding why_def never_def by (auto intro!: triples simp: triple_def)

section \<open>One block\<close>

lemma gives_page_mode:
  "gives is_ok [(CSI_BASE + CYCLE_5554, CMD_ENTER_PAGE_DFLASH)] (ucb_check_page_mode D b :: ('e ucb_scheme, esp_err) state)"
  unfolding ucb_check_page_mode_def
proof (rule gives_first [OF idle_clear], rule gives_then)
  show "gives is_ok [(CSI_BASE + CYCLE_5554, CMD_ENTER_PAGE_DFLASH)]
     (csi_cycle D CYCLE_5554 CMD_ENTER_PAGE_DFLASH :: ('e ucb_scheme, esp_err) state)"
    by (rule gives_cycle) (simp add: effective_def csi_words_def csi_consts CMD_ENTER_PAGE_DFLASH_def)
qed (auto intro!: grows_frame never_rules)

lemma gives_erase:
  "gives is_ok (csi_words [(CYCLE_AA50, ub_base b), (CYCLE_AA58, 1), (CYCLE_AAA8, CMD_ERASE_SETUP), (CYCLE_AAA8, CMD_ERASE)])
     (ucb_erase D b :: ('e ucb_scheme, esp_err) state)" (is "gives is_ok (csi_words ?cs) _")
  unfolding ucb_erase_def Let_def
proof (rule gives_first [OF idle_clear], rule gives_then)
  have "effective (csi_words ?cs) = csi_words ?cs" by (simp add: effective_def csi_words_def csi_consts)
  then show "gives is_ok (csi_words ?cs) (csi_cycles D ?cs :: ('e ucb_scheme, esp_err) state)"
    using gives_cycles [where cs = ?cs] by metis
qed (auto intro!: grows_frame never_rules)

lemma page_cycles_words:
  assumes "off + 8 \<le> length blob"
  shows "effective (csi_words (page_cycles (base + of_nat off) (page_of blob off))) = page_words base blob off"
proof -
  have "page_of blob off ! i = blob ! (off + i)" if "i < 8" for i
    using that assms by (simp add: page_of_def UCB_PAGE_SIZE_def)
  then have "loader_le32 (page_of blob off) 0 = loader_le32 blob off" "loader_le32 (page_of blob off) 4 = loader_le32 blob (off + 4)"
    by (simp_all add: loader_le32_def add.commute)
  then show ?thesis
    by (simp add: page_cycles_def page_words_def effective_def csi_words_def csi_consts ucb_consts)
qed

lemma gives_page:
  assumes "off + 8 \<le> length blob"
  shows "gives is_ok (page_words (ub_base b) blob off) (program_at D b blob off :: ('e ucb_scheme, esp_err) state)"
  unfolding program_at_def program_page_def Let_def
proof (rule gives_then)
  show "gives is_ok (page_words (ub_base b) blob off)
      (csi_cycles D (page_cycles (ub_base b + of_nat off) (page_of blob off)) :: ('e ucb_scheme, esp_err) state)"
    using gives_cycles unfolding page_cycles_words [OF assms, symmetric] .
qed (auto intro!: grows_frame never_rules)

lemma gives_pages:
  "(\<And>off. off \<in> set offs \<Longrightarrow> off + 8 \<le> length blob) \<Longrightarrow>
   gives is_ok (concat (map (page_words (ub_base b) blob) offs))
     (for_ok (program_at D b blob) offs :: ('e ucb_scheme, esp_err) state)"
proof (induction offs)
  case (Cons off offs)
  have "gives is_ok (page_words (ub_base b) blob off @ concat (map (page_words (ub_base b) blob) offs))
     (for_ok (program_at D b blob) (off # offs) :: ('e ucb_scheme, esp_err) state)"
    unfolding for_ok.simps
    by (rule gives_bind [OF gives_page]) (use Cons in \<open>auto intro!: grows_frame never_rules\<close>)
  then show ?case by simp
qed (simp add: gives_quiet grows.return)

lemma page_order_eq: "page_order = map ((*) 8) [0..<62] @ [0x1F8, 0x1F0]"
  unfolding page_order_def state_page_def ucb_consts by code_simp

abbreviation first_ok :: "esp_err \<times> 'x \<Rightarrow> bool" where
  "first_ok r \<equiv> fst r = ESP_OK"

lemma gives_block:
  assumes "length blob = UCB_BYTES"
  shows "gives first_ok (block_words_of (ub_base b) blob) (write_block D b blob :: ('e ucb_scheme, esp_err \<times> ucb_text list) state)"
proof -
  let ?erase = "csi_words [(CYCLE_AA50, ub_base b), (CYCLE_AA58, 1), (CYCLE_AAA8, CMD_ERASE_SETUP), (CYCLE_AAA8, CMD_ERASE)]"
    and ?pages = "concat (map (page_words (ub_base b) blob) page_order)"
  have split: "block_words_of (ub_base b) blob = [(CSI_BASE + CYCLE_5554, CMD_ENTER_PAGE_DFLASH)] @ (?erase @ ?pages)"
    by (simp add: block_words_of_def page_order_eq csi_words_def)
  have off: "off + 8 \<le> length blob" if "off \<in> set page_order" for off
    using that assms by (auto simp: page_order_eq UCB_BYTES_def)
  have nv: "never first_ok (why fmt args \<bind> (\<lambda>err. ret (err, x)))" for fmt args x
    by (intro never_why never_rules) simp
  show ?thesis
    unfolding write_block_def split
    apply (rule gives_first, intro grows_frame)
    apply (case_tac x, simp_all only: not_True_eq_False not_False_eq_True if_True if_False)
    subgoal
      apply (rule gives_bind [OF gives_page_mode])
      subgoal by (auto intro!: grows_frame never_rules)
      apply (simp only: HOL.simp_thms if_False)
      apply (rule gives_bind [OF gives_erase])
      subgoal by (auto intro!: grows_frame never_rules)
      apply (simp only: HOL.simp_thms if_False)
      apply (rule gives_then [OF gives_pages [OF off]], assumption)
      subgoal by (auto intro!: grows_frame never_rules)
      subgoal by (auto simp: Let_def intro!: grows_frame)
      done
    subgoal by (intro gives_nothing nv grows_frame)
    done
qed

section \<open>The plan\<close>

text \<open>The bytes of a block are formally in order and leave it unlocked.\<close>

definition passes :: "tricore_ucb_image \<Rightarrow> ucb_block \<Rightarrow> bool" where
  "passes img b \<longleftrightarrow> check b (blob_of img b) = [] \<and> loader_le32 (blob_of img b) STATE_OFFSET = CODE_UNLOCKED"

definition decision_ok :: "tricore_ucb_image \<Rightarrow> decision \<Rightarrow> bool" where
  "decision_ok img d \<longleftrightarrow> (de_action d = ACT_WRITE \<longrightarrow> is_owned (de_block d)) \<and>
     (is_owned (de_block d) \<and> de_action d \<noteq> ACT_REFUSE \<longrightarrow> passes img (de_block d))"

lemma passesI:
  assumes "check b (blob_of img b) = []" "confirmed_at b (blob_of img b) = []"
  shows "passes img b"
proof -
  let ?word = "loader_le32 (blob_of img b) STATE_OFFSET"
  have off: "STATE_OFFSET \<in> set (code_offsets b)" by (simp add: code_offsets_def STATE_OFFSET_def)
  have "check_codes b (blob_of img b) = []" using assms(1) unfolding check_def by (simp split: if_splits)
  then have "?word = CODE_UNLOCKED \<or> ?word = CODE_CONFIRMED"
    using off by (auto simp: check_codes_def when_problem_def Let_def split: if_splits)
  moreover have "?word \<noteq> CODE_CONFIRMED" using assms(2) off by (simp add: confirmed_at_def filter_empty_conv)
  ultimately show ?thesis using assms(1) by (simp add: passes_def)
qed

lemma decide_simps: "de_block (decide b a st re) = b" "de_action (decide b a st re) = a"
  by (simp_all add: decide_def)

lemma plan_block_ok: "triple (\<lambda>_. True) (plan_block D img b) (\<lambda>d _. de_block d = b \<and> decision_ok img d)"
  unfolding plan_block_def Let_def
  by (intro triples triple_bind [where R = "\<lambda>_ _. True"] triple_const)
    (auto simp: decision_ok_def decide_simps passesI)

lemma grows_plan [grows_frame]: "rel (grows A) (plan_block D img b)" "rel (grows A) (plan_blocks D img bs)"
proof -
  show one: "rel (grows A) (plan_block D img b)" for b
    unfolding plan_block_def state_on_target_def Let_def by (intro grows_frame)
  show "rel (grows A) (plan_blocks D img bs)"
    by (induction bs) (auto intro!: grows_frame one)
qed

lemma plan_blocks_ok:
  "triple (\<lambda>_. True) (plan_blocks D img bs :: ('e ucb_scheme, decision list) state) (\<lambda>ds _. map de_block ds = bs \<and> list_all (decision_ok img) ds)"
proof (induction bs)
  case (Cons b bs)
  have "triple (\<lambda>_. de_block d = b \<and> decision_ok img d) (do { ds \<leftarrow> plan_blocks D img bs; ret (d # ds) } :: ('e ucb_scheme, decision list) state)
      (\<lambda>ds _. map de_block ds = b # bs \<and> list_all (decision_ok img) ds)" for d
    by (rule tripleI) (auto dest!: tripleD [OF Cons TrueI] split: prod.splits)
  then show ?case unfolding plan_blocks.simps by (rule triple_bind [OF plan_block_ok])
qed (auto intro!: triples)

lemma considered_distinct: "distinct (considered img)"
proof -
  have "distinct (map (\<lambda>name. the (by_name name)) IMAGE_OWNED @ filter (\<lambda>b. \<not> is_owned b) BLOCKS)" by code_simp
  then show ?thesis unfolding considered_def by (rule distinct_filter)
qed

lemma considered_set: "set (considered img) = {b \<in> set BLOCKS. image_has img b}"
proof -
  have "set (map (\<lambda>name. the (by_name name)) IMAGE_OWNED @ filter (\<lambda>b. \<not> is_owned b) BLOCKS) = set BLOCKS" by code_simp
  then show ?thesis unfolding considered_def set_filter by blast
qed

section \<open>The whole run\<close>

type_synonym progress = "(ucb_block \<times> nat) list"

text \<open>The words given for a list of blocks, each up to some point.\<close>

definition given :: "tricore_ucb_image \<Rightarrow> progress \<Rightarrow> (u32 \<times> u32) list" where
  "given img bks = concat (map (\<lambda>(b, k). take k (block_words_of (ub_base b) (blob_of img b))) bks)"

definition complete :: "tricore_ucb_image \<Rightarrow> progress \<Rightarrow> bool" where
  "complete img bks \<longleftrightarrow> (\<forall>(b, k) \<in> set bks. length (block_words_of (ub_base b) (blob_of img b)) \<le> k)"

definition to_write :: "decision list \<Rightarrow> ucb_block list" where
  "to_write ds = map de_block (filter (\<lambda>d. de_action d = ACT_WRITE) ds)"

lemma carried:
  assumes "de_action d = ACT_WRITE"
  shows "triple (wrote old W) (carry_out D img d failed :: ('e ucb_scheme, nat) state)
    (\<lambda>n s. \<exists>k. wrote old (W @ given img [(de_block d, k)]) s \<and> failed \<le> n \<and> (n = failed \<longrightarrow> complete img [(de_block d, k)]))"
proof -
  let ?blob = "blob_of img (de_block d)"
  let ?V = "block_words_of (ub_base (de_block d)) ?blob"
  have "length ?blob = UCB_BYTES" by (simp add: blob_of_def)
  then have blk0: "gives first_ok ?V (write_block D (de_block d) ?blob :: ('e ucb_scheme, esp_err \<times> ucb_text list) state)"
    by (rule gives_block)
  have blk: "triple (wrote old W) (write_block D (de_block d) ?blob :: ('e ucb_scheme, esp_err \<times> ucb_text list) state)
      (\<lambda>r s. \<exists>k. wrote old (W @ take k ?V) s \<and> (fst r = ESP_OK \<longrightarrow> length ?V \<le> k))"
    using blk0 unfolding gives_def by blast
  have quiet: "triple (wrote old X) m (\<lambda>_. wrote old X)" if "rel (grows idle_words) m"
    for X and m :: "('e ucb_scheme, 'r) state"
    using that by (rule of_rel) (simp add: wrote_def grows_idle)
  have post: "triple (\<lambda>s. \<exists>k. wrote old (W @ take k ?V) s \<and> (err = ESP_OK \<longrightarrow> length ?V \<le> k)) (do {
        t1 \<leftarrow> esp_timer_get_time D;
        reason \<leftarrow> gets ucb_why;
        report ''  %-14s %s: %s (%u.%u s)''
          [Str (ub_name (de_block d)), Str (if err = ESP_OK then ''ok'' else ''FAILED''), reason, Num (ms_between t0 t1)];
        if_do (problems \<noteq> []) (report ''                 %s'' [Joined problems]);
        ret (if err = ESP_OK then failed else failed + 1) } :: ('e ucb_scheme, nat) state)
    (\<lambda>n s. \<exists>k. wrote old (W @ given img [(de_block d, k)]) s \<and> failed \<le> n \<and> (n = failed \<longrightarrow> complete img [(de_block d, k)]))"
    (is "triple _ ?m _") for err problems t0
  proof (rule triple_ex)
    fix k
    have "rel (grows idle_words) ?m" by (intro grows_frame)
    then have "triple (wrote old (W @ take k ?V)) ?m (\<lambda>_. wrote old (W @ take k ?V))" by (rule quiet)
    moreover have "triple (wrote old (W @ take k ?V)) ?m (\<lambda>n _. n = (if err = ESP_OK then failed else failed + 1))"
      by (intro triple_bind [where R = "\<lambda>_ _. True"] triple_const triple_return) simp_all
    ultimately have m: "triple (wrote old (W @ take k ?V)) ?m
        (\<lambda>n s. wrote old (W @ take k ?V) s \<and> n = (if err = ESP_OK then failed else failed + 1))" by (rule triple_conj)
    show "triple (\<lambda>s. wrote old (W @ take k ?V) s \<and> (err = ESP_OK \<longrightarrow> length ?V \<le> k)) ?m
      (\<lambda>n s. \<exists>k. wrote old (W @ given img [(de_block d, k)]) s \<and> failed \<le> n \<and> (n = failed \<longrightarrow> complete img [(de_block d, k)]))"
    proof (rule tripleI)
      fix s s' :: "'e ucb_scheme" and n
      assume P: "wrote old (W @ take k ?V) s \<and> (err = ESP_OK \<longrightarrow> length ?V \<le> k)" and run: "run ?m s = (n, s')"
      from tripleD [OF m conjunct1 [OF P] run] P
      show "\<exists>k. wrote old (W @ given img [(de_block d, k)]) s' \<and> failed \<le> n \<and> (n = failed \<longrightarrow> complete img [(de_block d, k)])"
        by (intro exI [of _ k]) (auto simp: given_def complete_def split: if_splits)
    qed
  qed
  show ?thesis
    unfolding carry_out_def using assms
    by (simp, intro triple_bind [OF quiet] triple_bind [OF blk] triple_case_prod, intro grows_frame) (simp add: post)
qed

lemma carried_all:
  "triple (wrote old W) (for_acc (carry_out D img) ds failed :: ('e ucb_scheme, nat) state)
    (\<lambda>n s. \<exists>bks. map fst bks = to_write ds \<and> wrote old (W @ given img bks) s \<and> failed \<le> n \<and> (n = failed \<longrightarrow> complete img bks))"
proof (induction ds arbitrary: W failed)
  case Nil
  show ?case by (auto intro!: triple_return exI [of _ "[]"] simp: to_write_def given_def complete_def)
next
  case (Cons d ds)
  show ?case
  proof (cases "de_action d = ACT_WRITE")
    case True
    have "triple (\<lambda>s. wrote old (W @ given img [(de_block d, k)]) s \<and> failed \<le> m \<and> (m = failed \<longrightarrow> complete img [(de_block d, k)]))
        (for_acc (carry_out D img) ds m :: ('e ucb_scheme, nat) state)
        (\<lambda>n s. \<exists>bks. map fst bks = to_write (d # ds) \<and> wrote old (W @ given img bks) s \<and> failed \<le> n \<and> (n = failed \<longrightarrow> complete img bks))"
      (is "triple ?P _ ?Q") for k m
    proof (rule tripleI)
      fix s n and s' :: "'e ucb_scheme"
      assume P: "?P s" and run: "run (for_acc (carry_out D img) ds m) s = (n, s')"
      from tripleD [OF Cons.IH [of "W @ given img [(de_block d, k)]" m] _ run] P obtain bks where
        "map fst bks = to_write ds" "wrote old ((W @ given img [(de_block d, k)]) @ given img bks) s'" "m \<le> n"
        "n = m \<longrightarrow> complete img bks" by blast
      with P True show "?Q n s'"
        by (intro exI [of _ "(de_block d, k) # bks"]) (auto simp: to_write_def given_def complete_def)
    qed
    then show ?thesis
      unfolding for_acc.simps by (intro triple_bind [OF carried [OF True]] triple_ex)
  next
    case False
    then show ?thesis using Cons.IH [of W failed] by (simp add: carry_out_def to_write_def)
  qed
qed

text \<open>What the run may have done, and what its success says.\<close>

definition ucb_outcome :: "tricore_ucb_image \<Rightarrow> (u32 \<times> u32) list \<Rightarrow> esp_err \<Rightarrow> (u32 \<times> u32) list \<Rightarrow> bool" where
  "ucb_outcome img old err new \<longleftrightarrow> (\<exists>bks.
     new = rev (given img bks) @ old \<and> distinct (map fst bks) \<and>
     (\<forall>b \<in> fst ` set bks. b \<in> set BLOCKS \<and> image_has img b \<and> is_owned b \<and> passes img b) \<and>
     (err = ESP_OK \<longrightarrow> complete img bks \<and> (\<forall>b \<in> set BLOCKS. image_has img b \<and> is_owned b \<longrightarrow> passes img b)))"

lemma planned_blocks:
  assumes "map de_block ds = considered img" "list_all (decision_ok img) ds" "map fst bks = to_write ds"
  shows "distinct (map fst bks)" "\<forall>b \<in> fst ` set bks. b \<in> set BLOCKS \<and> image_has img b \<and> is_owned b \<and> passes img b"
    and "filter (\<lambda>d. de_action d = ACT_REFUSE) ds = [] \<Longrightarrow> \<forall>b \<in> set BLOCKS. image_has img b \<and> is_owned b \<longrightarrow> passes img b"
proof -
  have blocks: "de_block ` set ds = {b \<in> set BLOCKS. image_has img b}"
    using considered_set [of img] assms(1) by (metis list.set_map)
  have "distinct (map de_block ds)" using assms(1) considered_distinct by simp
  then show "distinct (map fst bks)" unfolding assms(3) to_write_def by (rule distinct_map_filter)
  have ok: "decision_ok img d" if "d \<in> set ds" for d using assms(2) that by (simp add: list_all_iff)
  have written: "fst ` set bks = set (to_write ds)" using assms(3) by (metis list.set_map)
  show "\<forall>b \<in> fst ` set bks. b \<in> set BLOCKS \<and> image_has img b \<and> is_owned b \<and> passes img b"
  proof
    fix b assume "b \<in> fst ` set bks"
    then obtain d where d: "d \<in> set ds" "de_action d = ACT_WRITE" "b = de_block d"
      unfolding written to_write_def by auto
    with blocks have "b \<in> set BLOCKS \<and> image_has img b" by blast
    with ok [OF d(1)] d(2,3) show "b \<in> set BLOCKS \<and> image_has img b \<and> is_owned b \<and> passes img b"
      by (simp add: decision_ok_def)
  qed
  assume "filter (\<lambda>d. de_action d = ACT_REFUSE) ds = []"
  then have none: "de_action d \<noteq> ACT_REFUSE" if "d \<in> set ds" for d using that by (simp add: filter_empty_conv)
  show "\<forall>b \<in> set BLOCKS. image_has img b \<and> is_owned b \<longrightarrow> passes img b"
  proof (intro ballI impI, elim conjE)
    fix b assume b: "b \<in> set BLOCKS" "image_has img b" "is_owned b"
    then have "b \<in> de_block ` set ds" unfolding blocks by simp
    then obtain d where "d \<in> set ds" "b = de_block d" by blast
    with ok none b(3) show "passes img b" by (simp add: decision_ok_def)
  qed
qed

lemma idle_report [grows_frame]: "rel (grows A) (report_decision d)"
  unfolding report_decision_def by (intro grows_frame)

lemma wrote_quiet: "rel (grows idle_words) m \<Longrightarrow> triple (wrote old W) m (\<lambda>_. wrote old W)"
  by (erule of_rel) (simp add: wrote_def grows_idle)

lemma planned:
  "triple (wrote old []) (plan D img :: ('e ucb_scheme, decision list) state)
     (\<lambda>ds s. wrote old [] s \<and> map de_block ds = considered img \<and> list_all (decision_ok img) ds)"
  unfolding plan_def by (intro triple_conj wrote_quiet grows_frame triple_pre [OF plan_blocks_ok] TrueI)

lemma decisions_run:
  assumes ds: "map de_block ds = considered img" "list_all (decision_ok img) ds"
  shows "triple (wrote old []) (run_decisions D img ds :: ('e ucb_scheme, esp_err) state)
     (\<lambda>err s. ucb_outcome img old err (effective (blog s)))"
proof -
  let ?refused = "length (filter (\<lambda>d. de_action d = ACT_REFUSE) ds)"
  have outcome: "ucb_outcome img old err (effective (blog s))"
    if "map fst bks = to_write ds" "wrote old (given img bks) s" "err = ESP_OK \<longrightarrow> complete img bks \<and> ?refused = 0"
    for bks err and s :: "'e ucb_scheme"
    unfolding ucb_outcome_def using that planned_blocks [OF ds that(1)] by (intro exI [of _ bks]) (auto simp: wrote_def)
  have no_write: "ucb_outcome img old (if ?refused \<noteq> 0 then ESP_FAIL else ESP_OK) (effective (blog s))"
    if "length (filter (\<lambda>d. de_action d = ACT_WRITE) ds) = 0" "wrote old [] s" for s :: "'e ucb_scheme"
    using that by (intro outcome [of "[]"]) (auto simp: to_write_def given_def complete_def)
  let ?I = "\<lambda>n s. \<exists>bks. map fst bks = to_write ds \<and> wrote old ([] @ given img bks) s \<and> 0 \<le> n \<and> (n = 0 \<longrightarrow> complete img bks)"
  have some: "ucb_outcome img old (if n \<noteq> 0 \<or> ?refused \<noteq> 0 then ESP_FAIL else ESP_OK) (effective (blog s))" if "?I n s"
    for n :: nat and s :: "'e ucb_scheme"
  proof -
    from that obtain bks where b: "map fst bks = to_write ds" "wrote old (given img bks) s" "n = 0 \<longrightarrow> complete img bks" by auto
    show ?thesis by (rule outcome [OF b(1,2)]) (use b(3) in auto)
  qed
  have last: "triple (?I n) m (\<lambda>_. ?I n)" if "rel (grows idle_words) m" for n :: nat and m :: "('e ucb_scheme, 'r) state"
    using that by (rule of_rel) (simp add: wrote_def grows_idle)
  show ?thesis
    unfolding run_decisions_def Let_def
    apply (rule triple_bind [OF wrote_quiet], intro grows_frame)+
    apply (rule triple_if)
     apply (rule triple_bind [OF wrote_quiet], intro grows_frame, rule triple_return, erule (1) no_write)
    apply (rule triple_bind [OF wrote_quiet], intro grows_frame)
    apply (rule triple_bind [OF carried_all])
    apply (rule triple_bind [OF last], intro grows_frame)+
    apply (rule triple_return, erule some)
    done
qed

lemma ucb_run:
  "triple (wrote old []) (tricore_ucb_program D (Some img) :: ('e ucb_scheme, esp_err) state)
     (\<lambda>err s. ucb_outcome img old err (effective (blog s)))"
proof -
  have "triple (\<lambda>s. wrote old [] s \<and> map de_block ds = considered img \<and> list_all (decision_ok img) ds) (run_decisions D img ds)
      (\<lambda>err s. ucb_outcome img old err (effective (blog (s :: 'e ucb_scheme))))" for ds
    by (rule tripleI, elim conjE) (rule tripleD [OF decisions_run])
  then show ?thesis
    unfolding tricore_ucb_program_def option.case
    by (intro triple_bind [OF wrote_quiet] triple_bind [OF planned]) (intro grows_frame, simp, assumption)
qed

text \<open>C39: (The boot mode headers.) Whatever the target and the link answer, what \<open>tricore_ucb_program\<close> tells the
  command interface is, for each of some blocks of the catalogue in turn, a prefix of one fixed sequence: data flash
  page mode, the erase of the block, its 64 pages from the image, the page with the confirmation word last. Each block
  is written at most once, and only a boot mode header the image carries whose bytes pass the formal check and whose
  confirmation word is the unlocked one: nothing is ever confirmed, and an interrupted write leaves no valid header
  behind. If the run reports success every sequence was given whole, and no header the image carries was refused.\<close>

theorem ucb_program_writes:
  fixes s :: "'e ucb_scheme"
  assumes "run (tricore_ucb_program D (Some img)) s = (err, s')"
  shows "ucb_outcome img (effective (blog s)) err (effective (blog s'))"
  using tripleD [OF ucb_run _ assms, of "effective (blog s)"] by (simp add: wrote_def)

lemma ucb_program_writes_witness:
  "let (err, s') = run (tricore_ucb_program (good_dev 0) (Some \<lparr>ui_data = \<lambda>_. 7, ui_present = 1\<rparr>)) flash0
   in ucb_outcome \<lparr>ui_data = \<lambda>_. 7, ui_present = 1\<rparr> (effective (blog flash0)) err (effective (blog s'))"
  unfolding Let_def by (split prod.split) (intro allI impI ucb_program_writes)

end
