(* ===== verification/Flash_Session.thy ===== *)
theory Flash_Session
  imports Flash_Safety Ucb_Safety
begin

unbundle bit_operations_syntax

text \<open>
  A flash session as a whole. \<open>session_step\<close> is what every part of a session keeps: the lock, the session and
  activity flags, a stopped trace. On it rest the closing of the session (the lock is given back as deep as it was
  taken) and, with the frame \<open>inside\<close> and \<open>mapped\<close>, the bound on every erase command and every command to the loader
  stub a write gives: the sectors of the image, and the blocks of the boot mode headers.
\<close>

section \<open>What every part leaves alone\<close>

text \<open>The session flags and the depth of the lock are as before, no trace was started, and only words in \<open>A\<close>
  were commanded.\<close>

definition session_step :: "(u32 \<times> u32) set \<Rightarrow> 'e flash_scheme \<Rightarrow> 'e flash_scheme \<Rightarrow> bool" where
  "session_step A s s' \<longleftrightarrow> session_locked s' = session_locked s \<and> flash_active s' = flash_active s \<and>
     (mcds_running s' \<longrightarrow> mcds_running s) \<and> calm A s s'"

interpretation session_step: preorder_frame "session_step A :: 'e flash_scheme \<Rightarrow> 'e flash_scheme \<Rightarrow> bool" for A
  by unfold_locales (auto simp: session_step_def calm.R_refl elim: calm.R_trans)

named_theorems session_frame \<open>parts of a flash session\<close>

lemma session_link:
  fixes m :: "('e flash_scheme, 'r) state"
  assumes "neutral \<subseteq> A" "rel link_step m" shows "rel (session_step A) m"
proof (rule relI)
  fix s s' :: "'e flash_scheme" and r assume "run m s = (r, s')"
  from relD [OF assms(2) this] have "wide.more s' = wide.more s" "calm periph s s'" by (auto simp: link_step_def)
  then show "session_step A s s'"
    using periph_neutral assms(1) by (cases s; cases s') (auto simp: session_step_def wide.defs calm_def grows_def)
qed

lemma session_trace:
  fixes m :: "('e flash_scheme, 'r) state"
  assumes "neutral \<subseteq> A" "rel trace_step m" shows "rel (session_step A) m"
proof (rule relI)
  fix s s' :: "'e flash_scheme" and r assume "run m s = (r, s')"
  from relD [OF assms(2) this] have "trace.more s' = trace.more s" "calm periph s s'" by (auto simp: trace_step_def)
  then show "session_step A s s'"
    using periph_neutral assms(1) by (cases s; cases s') (auto simp: session_step_def trace.defs calm_def grows_def)
qed

lemma session_debug:
  fixes m :: "('e flash_scheme, 'r) state"
  assumes "neutral \<subseteq> A" "rel debug_step m" shows "rel (session_step A) m"
proof (rule relI)
  fix s s' :: "'e flash_scheme" and r assume "run m s = (r, s')"
  from relD [OF assms(2) this] have "tricore.more s' = tricore.more s" "lock_depth (hist s') = lock_depth (hist s)" "grows periph s s'"
    by (auto simp: debug_step_def)
  then show "session_step A s s'"
    using periph_neutral assms(1) by (cases s; cases s') (auto simp: session_step_def tricore.defs calm_def grows_def)
qed

lemma session_unchanged:
  fixes m :: "('e flash_scheme, 'r) state"
  assumes "rel unchanged m" "rel (grows A) m" shows "rel (session_step A) m"
proof (rule relI)
  fix s s' :: "'e flash_scheme" and r assume run: "run m s = (r, s')"
  have u: "unchanged s s'" using relD [OF assms(1) run] .
  then have "tricore.more s' = tricore.more s" using unchanged_more by blast
  moreover have "calm A s s'" using u relD [OF assms(2) run] by (simp add: unchanged_def calm_def)
  ultimately show "session_step A s s'" by (cases s; cases s') (auto simp: session_step_def tricore.defs)
qed

lemma session_modify:
  "(\<And>s. hist (f s) = hist s \<and> session_locked (f s) = session_locked s \<and> flash_active (f s) = flash_active s \<and>
     (mcds_running (f s) \<longrightarrow> mcds_running s)) \<Longrightarrow> rel (session_step A) (modify f :: ('e flash_scheme, unit) state)"
  by (simp add: rel_def session_step_def calm_def grows_def)

lemma session_lock [session_frame]:
  assumes "rel (session_step A) m" shows "rel (session_step A) (with_lock m :: ('e flash_scheme, 'r) state)"
proof (rule relI)
  fix s s' :: "'e flash_scheme" and r assume "run (with_lock m) s = (r, s')"
  then obtain s1 where s1: "run m (s\<lparr>hist := EvLock # hist s\<rparr>) = (r, s1)" "s' = s1\<lparr>hist := EvUnlock # hist s1\<rparr>"
    by (auto simp: with_lock_def split: prod.splits)
  from relD [OF assms s1(1)] show "session_step A s s'"
    by (simp add: session_step_def calm_def grows_def bus_writes_def s1(2))
qed

lemma session_fstat [session_frame]:
  "rel (session_step A) (fstat f :: ('e flash_scheme, unit) state)"
  "rel (session_step A) (tricore_flash_set_phase D ph m :: ('e flash_scheme, unit) state)"
  "rel (session_step A) (flash_fail D fmt args :: ('e flash_scheme, esp_err) state)"
proof -
  show f: "rel (session_step A) (fstat f :: ('e flash_scheme, unit) state)" for f
    unfolding fstat_def by (intro session_modify) simp
  have t: "rel (session_step A) (esp_timer_get_time D :: ('e flash_scheme, int) state)"
    by (intro session_unchanged time_rules)
  show p: "rel (session_step A) (tricore_flash_set_phase D ph m :: ('e flash_scheme, unit) state)" for ph m
    unfolding tricore_flash_set_phase_def by (intro session_step.rules f t)
  show "rel (session_step A) (flash_fail D fmt args :: ('e flash_scheme, esp_err) state)"
    unfolding flash_fail_def by (intro session_step.rules p)
qed

lemmas [session_frame] = session_step.rules
  session_unchanged [OF sense_rules(2,1)] session_unchanged [OF time_rules(2,1)] session_unchanged [OF time_rules(5,4)]
  session_unchanged [OF read32_rules(2,1)] session_unchanged [OF clear_error_state_rules(2,1)]

lemma session_write32 [session_frame]:
  "(a, v) \<in> A \<Longrightarrow> rel (session_step A) (dap_probe_write32 D a v :: ('e flash_scheme, esp_err) state)"
  by (intro session_unchanged write32_rules)

lemma session_mcds_stop [session_frame]:
  assumes A: "neutral \<subseteq> A"
  shows "rel (session_step A) (dap_mcds_stop D :: ('e flash_scheme, esp_err) state)"
proof -
  have trace: "rel (session_step A) (await_flush D n :: ('e flash_scheme, unit) state)"
    "rel (session_step A) (dap_trace_stop D :: ('e flash_scheme, unit) state)"
    "rel (session_step A) (dap_trace_finish D :: ('e flash_scheme, esp_err) state)"
    "rel (session_step A) (mcds_reset D :: ('e flash_scheme, esp_err) state)" for n
    by (intro session_trace [OF A] trace_frame)+
  have link: "rel (session_step A) (dap_wide_exit D :: ('e flash_scheme, unit) state)"
    "rel (session_step A) (dap_fast_exit :: ('e flash_scheme, unit) state)"
    "rel (session_step A) (dap_phy_fpga_set_div dv :: ('e flash_scheme, unit) state)" for dv
    by (intro session_link [OF A] link_step_frame)+
  have "rel (session_step A) (restore_link D :: ('e flash_scheme, unit) state)"
    unfolding restore_link_def by (intro session_frame session_modify link) simp
  moreover have "(DAP_ADDR_FIFOCTL, v) \<in> A" for v using A periph_neutral reg_periph(7) by blast
  ultimately show ?thesis
    unfolding dap_mcds_stop_def by (intro session_frame session_modify trace) simp_all
qed

lemma session_stop_trace [session_frame]:
  "neutral \<subseteq> A \<Longrightarrow> rel (session_step A) (stop_trace D :: ('e flash_scheme, unit) state)"
  unfolding stop_trace_def by (intro session_frame)

section \<open>Opening and closing a session\<close>

lemma link_up_step: "rel link_step (link_up D :: ('e flash_scheme, esp_err) state)"
  unfolding link_up_def by (intro link_step_frame unchanged_link_step dapisc_rules grows_sync) simp_all

lemma session_words: "neutral \<subseteq> A \<Longrightarrow> (a, v) \<in> neutral \<Longrightarrow> (a, v) \<in> A"
  by blast

lemma fixed_neutral:
  "(CPU0_FLASHCON0, v) \<in> neutral" "(DMU_HF_PCONTROL, v) \<in> neutral" "(SCU_WDTS_CON0, v) \<in> neutral"
  "(STM0_OCS, v) \<in> neutral" "(CPU0_BASE + OFF_SWEVT, v) \<in> neutral" "(CSI_BASE + CYCLE_5554, v) \<in> neutral"
  by (simp_all add: neutral_def dmu_consts csi_consts loader_consts STM0_OCS_def CPU0_BASE_def OFF_SWEVT_def)

lemma debug_disarm [debug_frame]: "rel debug_step (tricore_disarm_reset_trigger D :: ('e tricore_scheme, unit) state)"
proof -
  have "small_offset (OFF_TR_EVT 0)" "small_offset (OFF_TR_ADR 0)"
    by (simp_all add: small_offset_def OFF_TR_EVT_def OFF_TR_ADR_def)
  then have "rel debug_step (tricore_clear_trigger D core 0 :: ('e tricore_scheme, esp_err) state)" for core
    unfolding tricore_clear_trigger_def by (intro debug_frame)
  then show ?thesis unfolding tricore_disarm_reset_trigger_def disarm_reset_core_def by (intro debug_frame)
qed

lemma session_debug_ops [session_frame]:
  assumes "neutral \<subseteq> A"
  shows "rel (session_step A) (tricore_set_halt_after_reset D b :: ('e flash_scheme, esp_err) state)"
    "rel (session_step A) (tricore_request_application_reset D :: ('e flash_scheme, esp_err) state)"
    "rel (session_step A) (tricore_dbgsr D core v :: ('e flash_scheme, esp_err \<times> u32) state)"
    "rel (session_step A) (tricore_disarm_reset_trigger D :: ('e flash_scheme, unit) state)"
    "rel (session_step A) (tricore_discover D :: ('e flash_scheme, esp_err) state)"
    "rel (session_step A) (tricore_core_started D core :: ('e flash_scheme, bool) state)"
    "rel (session_step A) (tricore_halt_release D core :: ('e flash_scheme, unit) state)"
    "rel (session_step A) (tricore_halt D core line t :: ('e flash_scheme, esp_err) state)"
    "rel (session_step A) (tricore_halt_diag D core :: ('e flash_scheme, unit) state)"
    "rel (session_step A) (tricore_resume D core t :: ('e flash_scheme, esp_err) state)"
    "rel (session_step A) (tricore_is_halted D core :: ('e flash_scheme, bool) state)"
    "rel (session_step A) (tricore_request_resume D core :: ('e flash_scheme, esp_err) state)"
    "rel (session_step A) (tricore_clear_debug_events D core :: ('e flash_scheme, unit) state)"
  by (intro session_debug [OF assms] debug_frame)+

lemma code_neutral: "i < 0x1000 \<Longrightarrow> (LOADER_CODE + of_nat i, v) \<in> neutral"
proof -
  assume i: "i < 0x1000"
  then have "unat (of_nat i :: u32) = i" by (simp add: unat_of_nat)
  then have "unat (LOADER_CODE + of_nat i) = 0x70100000 + i" using i by (simp add: loader_consts unat_word_ariths(1))
  then have "unat (LOADER_CODE + of_nat i) \<notin> {0xAF00AA50, 0xAF00AA58, 0xAF00AAA8, 0x70000000, 0x70000004, 0x70000008}"
    using i by auto
  moreover have "(a, v) \<in> neutral" if "unat a \<notin> {0xAF00AA50, 0xAF00AA58, 0xAF00AAA8, 0x70000000, 0x70000004, 0x70000008}" for a
    using that by (intro neutral_at) (auto simp: csi_consts loader_consts)
  ultimately show ?thesis by blast
qed

lemma session_block:
  "(\<And>i v. i < length bs \<Longrightarrow> (a + of_nat i, v) \<in> A) \<Longrightarrow>
   rel (session_step A) (tricore_flash_write_block D a bs :: ('e flash_scheme, esp_err) state)"
  by (intro session_unchanged write_block_rules)

lemma session_load [session_frame]:
  assumes A: "neutral \<subseteq> A"
  shows "rel (session_step A) (load_blob D :: ('e flash_scheme, esp_err) state)"
proof -
  have "length LOADER_BLOB = 516" by code_simp
  then have "length (patch_settle (blob_buffer LOADER_BLOB) off) = 516" for off
    by (simp add: patch_settle_def blob_buffer_def Let_def)
  then have "rel (session_step A) (tricore_flash_write_block D LOADER_CODE (patch_settle (blob_buffer LOADER_BLOB) off)
      :: ('e flash_scheme, esp_err) state)" for off
    by (intro session_block session_words [OF A] code_neutral) simp
  then show ?thesis
    unfolding load_blob_def check_blob_word_def Let_def by (intro session_frame)
qed

lemma session_dmu [session_frame]:
  assumes A: "neutral \<subseteq> A"
  shows "rel (session_step A) (clear_status D :: ('e flash_scheme, esp_err) state)"
    "rel (session_step A) (check_page_mode D :: ('e flash_scheme, esp_err) state)"
    "rel (session_step A) (tricore_flash_layout D :: ('e flash_scheme, nat) state)"
    "rel (session_step A) (tricore_flash_safe_shutdown D :: ('e flash_scheme, unit) state)"
    "rel (session_step A) (tricore_flash_check_swap D :: ('e flash_scheme, unit) state)"
    "rel (session_step A) (tricore_flash_clear_safety_endinit D :: ('e flash_scheme, esp_err) state)"
    "rel (session_step A) (measure_stm_hz D :: ('e flash_scheme, u32) state)"
    "rel (session_step A) (flash_clock D b :: ('e flash_scheme, unit) state)"
proof -
  have w: "rel (session_step A) (dap_probe_write32 D a v :: ('e flash_scheme, esp_err) state)" if "(a, v) \<in> neutral" for a v
    using that A by (intro session_frame) blast
  have "rel (session_step A) (dap_phy_fpga_set_div dv :: ('e flash_scheme, unit) state)" for dv
    by (intro session_link [OF A] link_step_frame)
  then show "rel (session_step A) (flash_clock D b :: ('e flash_scheme, unit) state)"
    unfolding flash_clock_def by (intro session_frame)
  show c: "rel (session_step A) (clear_status D :: ('e flash_scheme, esp_err) state)"
    unfolding clear_status_def csi_cycle_def by (intro w fixed_neutral)
  show "rel (session_step A) (check_page_mode D :: ('e flash_scheme, esp_err) state)"
    unfolding check_page_mode_def csi_cycle_def by (intro session_step.rules session_fstat c w fixed_neutral session_frame)
  show "rel (session_step A) (tricore_flash_layout D :: ('e flash_scheme, nat) state)"
    unfolding tricore_flash_layout_def by (intro session_frame session_modify) simp_all
  show "rel (session_step A) (tricore_flash_safe_shutdown D :: ('e flash_scheme, unit) state)"
    unfolding tricore_flash_safe_shutdown_def by (intro session_step.rules c w fixed_neutral)
  show "rel (session_step A) (tricore_flash_check_swap D :: ('e flash_scheme, unit) state)"
    unfolding tricore_flash_check_swap_def by (intro session_frame session_modify) simp
  show "rel (session_step A) (tricore_flash_clear_safety_endinit D :: ('e flash_scheme, esp_err) state)"
    unfolding tricore_flash_clear_safety_endinit_def by (intro session_step.rules w fixed_neutral session_frame)
  show "rel (session_step A) (measure_stm_hz D :: ('e flash_scheme, u32) state)"
    unfolding measure_stm_hz_def by (intro session_step.rules w fixed_neutral session_frame)
qed

lemma session_reset [session_frame]:
  assumes A: "neutral \<subseteq> A"
  shows "rel (session_step A) (link_up D :: ('e flash_scheme, esp_err) state)"
    "rel (session_step A) (tricore_flash_reset_and_halt D :: ('e flash_scheme, bool) state)"
    "rel (session_step A) (halt_all D :: ('e flash_scheme, esp_err) state)"
    "rel (session_step A) (start_core D core :: ('e flash_scheme, unit) state)"
proof -
  show l: "rel (session_step A) (link_up D :: ('e flash_scheme, esp_err) state)"
    by (rule session_link [OF A link_up_step])
  have "rel (session_step A) (reset_attempts D n :: ('e flash_scheme, bool) state)" for n
    using l by (induction n) (auto intro!: session_frame A)
  then show "rel (session_step A) (tricore_flash_reset_and_halt D :: ('e flash_scheme, bool) state)"
    unfolding tricore_flash_reset_and_halt_def by (intro session_frame A)
  show "rel (session_step A) (halt_all D :: ('e flash_scheme, esp_err) state)"
    unfolding halt_all_def halt_sibling_def by (intro session_frame A)
  show "rel (session_step A) (start_core D core :: ('e flash_scheme, unit) state)"
    unfolding start_core_def by (intro session_frame A)
qed

lemma session_parts [session_frame]:
  assumes A: "neutral \<subseteq> A"
  shows "rel (session_step A) (tricore_flash_install_loader D :: ('e flash_scheme, esp_err) state)"
    "rel (session_step A) (begin_locked D :: ('e flash_scheme, esp_err) state)"
    "rel (session_step A) (end_locked D b :: ('e flash_scheme, esp_err) state)"
proof -
  have w: "rel (session_step A) (dap_probe_write32 D a v :: ('e flash_scheme, esp_err) state)" if "(a, v) \<in> neutral" for a v
    using that A by (intro session_frame) blast
  show i: "rel (session_step A) (tricore_flash_install_loader D :: ('e flash_scheme, esp_err) state)"
    unfolding tricore_flash_install_loader_def
    by (intro session_step.rules w fixed_neutral session_modify session_frame A) simp_all
  show "rel (session_step A) (begin_locked D :: ('e flash_scheme, esp_err) state)"
    unfolding begin_locked_def by (intro session_step.rules i session_modify session_frame A) simp_all
  show "rel (session_step A) (end_locked D b :: ('e flash_scheme, esp_err) state)"
    unfolding end_locked_def by (intro session_step.rules session_modify session_frame A) simp_all
qed

section \<open>The stages\<close>

lemma all_neutral [session_frame]: "neutral \<subseteq> UNIV" "w \<in> UNIV"
  by simp_all

lemma session_run [session_frame]:
  "rel (session_step UNIV) (tricore_flash_write_block D a bs :: ('e flash_scheme, esp_err) state)"
  "rel (session_step UNIV) (csi_cycles D cs :: ('e flash_scheme, esp_err) state)"
  "rel (session_step UNIV) (tricore_flash_wait_idle D a t :: ('e flash_scheme, esp_err) state)"
  "rel (session_step UNIV) (point_at_loader D :: ('e flash_scheme, esp_err \<times> u32) state)"
  "rel (session_step UNIV) (dump_stop D :: ('e flash_scheme, unit) state)"
  "rel (session_step UNIV) (loader_wait D k st dl :: ('e flash_scheme, unit) state)"
  "rel (session_step UNIV) (read_out D is out :: ('e flash_scheme, u32 list option) state)"
  "rel (session_step UNIV) (tricore_read_pc D core v :: ('e flash_scheme, esp_err \<times> u32) state)"
  "rel (session_step UNIV) (read_block D b :: ('e ucb_scheme, esp_err \<times> u8 list) state)"
proof -
  show "rel (session_step UNIV) (tricore_flash_write_block D a bs :: ('e flash_scheme, esp_err) state)"
    by (intro session_block UNIV_I)
  have poll: "rel (session_step UNIV) (poll D n deadline tick body :: ('e flash_scheme, 'r option) state)"
    if "rel unchanged body" "rel (grows UNIV) body" for n deadline tick and body :: "('e flash_scheme, 'r option) state"
    using that by (intro session_unchanged poll_rules)
  have idle: "rel unchanged (do { (err, status) \<leftarrow> dap_probe_read32 D DMU_HF_STATUS 0;
        ret (if err = ESP_OK \<and> status AND STATUS_BUSY = 0 then Some () else None) } :: ('e flash_scheme, unit option) state)"
    by (intro unchanged_frame)
  have c: "rel (grows UNIV) (csi_cycles D cs :: ('e flash_scheme, esp_err) state)"
    unfolding csi_cycles_def csi_cycle_def by (intro grows_frame UNIV_I)
  show "rel (session_step UNIV) (csi_cycles D cs :: ('e flash_scheme, esp_err) state)"
    by (intro session_unchanged unchanged_cycles c)
  show "rel (session_step UNIV) (tricore_flash_wait_idle D a t :: ('e flash_scheme, esp_err) state)"
    unfolding tricore_flash_wait_idle_def
    by (intro session_frame poll idle grows_frame)
  have "rel unchanged (point_at_loader D :: ('e flash_scheme, esp_err \<times> u32) state)"
    unfolding point_at_loader_def tricore_write_pc_def by (intro unchanged_frame)
  moreover have "rel (grows UNIV) (point_at_loader D :: ('e flash_scheme, esp_err \<times> u32) state)"
    unfolding point_at_loader_def tricore_write_pc_def tricore_write_reg_def require_halted_def tricore_wr_def
    by (intro grows_frame UNIV_I)
  ultimately show "rel (session_step UNIV) (point_at_loader D :: ('e flash_scheme, esp_err \<times> u32) state)"
    by (rule session_unchanged)
  show "rel (session_step UNIV) (dump_stop D :: ('e flash_scheme, unit) state)"
    unfolding dump_stop_def by (intro session_frame)
  show "rel (session_step UNIV) (loader_wait D k st dl :: ('e flash_scheme, unit) state)"
    "rel (session_step UNIV) (read_out D is out :: ('e flash_scheme, u32 list option) state)"
    "rel (session_step UNIV) (tricore_read_pc D core v :: ('e flash_scheme, esp_err \<times> u32) state)"
    by (intro session_unchanged loader_wait_rules read_out_rules grows_regs unchanged_frame)+
  show "rel (session_step UNIV) (read_block D b :: ('e ucb_scheme, esp_err \<times> u8 list) state)"
    unfolding read_block_def by (intro session_unchanged grows_frame) (simp add: tricore_read_mem_def unchanged_mem)
qed

lemma session_loader [session_frame]:
  "rel (session_step UNIV) (tricore_flash_run_loader D cmd a n t out :: ('e flash_scheme, esp_err \<times> u32) state)"
  "rel (session_step UNIV) (erase_range D a n :: ('e flash_scheme, esp_err) state)"
  unfolding tricore_flash_run_loader_def erase_range_def by (intro session_frame)+

lemma session_erase [session_frame]: "rel (session_step UNIV) (erase_sectors D xs :: ('e flash_scheme, esp_err) state)"
  by (induction D xs rule: erase_sectors.induct)
    (auto simp: erase_sectors.simps erase_sector_def Let_def intro!: session_frame session_modify)

lemma session_program [session_frame]:
  "rel (session_step UNIV) (tricore_flash_program D a bs :: ('e flash_scheme, esp_err) state)"
  "rel (session_step UNIV) (program_kept D r xs :: ('e flash_scheme, esp_err) state)"
proof -
  have chunk: "rel (session_step UNIV) (program_chunk D a bs :: ('e flash_scheme, esp_err) state)" for D a bs
    unfolding program_chunk_def by (intro session_frame)
  have "rel (session_step UNIV) (program_chunks D a bs :: ('e flash_scheme, esp_err) state)" for D a bs
    by (induction D a bs rule: program_chunks.induct, subst program_chunks.simps)
      (auto simp: Let_def intro!: session_frame chunk)
  then show p: "rel (session_step UNIV) (tricore_flash_program D a bs :: ('e flash_scheme, esp_err) state)" for D a bs
    unfolding tricore_flash_program_def by (intro session_frame)
  show "rel (session_step UNIV) (program_kept D r xs :: ('e flash_scheme, esp_err) state)"
  proof (induction xs rule: length_induct)
    case (1 xs)
    show ?case
    proof (cases xs)
      case (Cons x ys)
      with 1 have "rel (session_step UNIV) (program_kept D r ys :: ('e flash_scheme, esp_err) state)"
        "rel (session_step UNIV) (program_kept D r (drop m ys) :: ('e flash_scheme, esp_err) state)" for m by auto
      then show ?thesis unfolding Cons program_kept.simps by (intro session_frame p)
    qed (simp add: program_kept.simps session_step.return)
  qed
qed

lemma session_compare [session_frame]:
  "rel (session_step UNIV) (compare_all D regions xs :: ('e flash_scheme, bool list) state)"
proof -
  have d: "rel (session_step UNIV) (sector_differs D x regions :: ('e flash_scheme, bool) state)" for x regions
    by (induction regions) (auto simp: target_crc_quiet_def intro!: session_frame)
  have "rel (session_step UNIV) (compare_sectors D regions xs :: ('e flash_scheme, bool list) state)"
    by (induction xs) (auto intro!: session_frame d)
  then show ?thesis unfolding compare_all_def by (intro session_frame)
qed

lemma session_apply [session_frame]:
  "rel (session_step UNIV) (tricore_flash_apply D regions :: ('e flash_scheme, esp_err) state)"
  unfolding tricore_flash_apply_def write_sectors_def rewrite_kept_def verify_region_def tricore_flash_verify_def
    tricore_flash_checksum_def
  by (intro session_frame)

section \<open>The boot mode headers\<close>

lemma session_report [session_frame]:
  "rel (session_step UNIV) (report fmt args :: ('e ucb_scheme, unit) state)"
  "rel (session_step UNIV) (why fmt args :: ('e ucb_scheme, esp_err) state)"
  unfolding report_def why_def by (intro session_frame session_modify; simp)+

lemma session_plan [session_frame]: "rel (session_step UNIV) (plan D img :: ('e ucb_scheme, decision list) state)"
proof -
  have "rel (session_step UNIV) (plan_block D img b :: ('e ucb_scheme, decision) state)" for b
    unfolding plan_block_def state_on_target_def by (intro session_frame)
  then have "rel (session_step UNIV) (plan_blocks D img bs :: ('e ucb_scheme, decision list) state)" for bs
    by (induction bs) (auto intro!: session_frame)
  then show ?thesis by (simp add: plan_def)
qed

lemma session_ucb [session_frame]:
  "rel (session_step UNIV) (tricore_ucb_program D wanted :: ('e ucb_scheme, esp_err) state)"
proof -
  have w: "rel (session_step UNIV) (ucb_wait_idle D what a t :: ('e ucb_scheme, esp_err) state)" for what a t
    unfolding ucb_wait_idle_def by (intro session_frame)
  have "rel (session_step UNIV) (csi_cycle D off v :: ('e ucb_scheme, esp_err) state)" for off v
    unfolding csi_cycle_def by (intro session_frame)
  then have "rel (session_step UNIV) (write_block D b blob :: ('e ucb_scheme, esp_err \<times> ucb_text list) state)" for b blob
    unfolding write_block_def ucb_check_page_mode_def ucb_erase_def program_at_def program_page_def
    by (intro session_frame session_modify w) simp_all
  then have "rel (session_step UNIV) (carry_out D img d n :: ('e ucb_scheme, nat) state)" for img d n
    unfolding carry_out_def by (intro session_frame)
  then show ?thesis
    unfolding tricore_ucb_program_def run_decisions_def report_decision_def
    by (intro session_frame session_modify) simp_all
qed

section \<open>The lock and the flags\<close>

text \<open>The lock is held \<open>d\<close> deep, and once more by an open session; \<open>l\<close> and \<open>a\<close> are the flags, no trace runs.\<close>

definition at_session :: "int \<Rightarrow> bool \<Rightarrow> bool \<Rightarrow> 'e flash_scheme \<Rightarrow> bool" where
  "at_session d l a s \<longleftrightarrow> lock_depth (hist s) = d + of_bool l \<and> session_locked s = l \<and> flash_active s = a \<and> \<not> mcds_running s"

lemma keep_session: "rel (session_step UNIV) m \<Longrightarrow> triple (at_session d l a) m (\<lambda>_. at_session d l a)"
  by (erule of_rel) (auto simp: at_session_def session_step_def calm_def)

lemma mcds_stopped_flag:
  "triple (\<lambda>_. True) (dap_mcds_stop D :: ('e flash_scheme, esp_err) state) (\<lambda>_ s. \<not> mcds_running s)"
proof -
  have keep: "triple (\<lambda>s. \<not> mcds_running s) m (\<lambda>_ s. \<not> mcds_running s)" if "rel (session_step UNIV) m"
    for m :: "('e flash_scheme, 'r) state"
    using that by (rule of_rel) (simp add: session_step_def)
  have parts: "rel (session_step UNIV) (await_flush D 50 :: ('e flash_scheme, unit) state)"
    "rel (session_step UNIV) (dap_trace_stop D :: ('e flash_scheme, unit) state)"
    "rel (session_step UNIV) (dap_trace_finish D :: ('e flash_scheme, esp_err) state)"
    "rel (session_step UNIV) (mcds_reset D :: ('e flash_scheme, esp_err) state)"
    by (intro session_trace trace_frame subset_UNIV)+
  have link: "rel (session_step UNIV) (restore_link D :: ('e flash_scheme, unit) state)"
    unfolding restore_link_def
    by (intro session_step.rules session_unchanged [OF sense_rules(2,1)] session_modify session_link [OF subset_UNIV] link_step_frame) simp
  show ?thesis
    unfolding dap_mcds_stop_def
    by (intro triple_bind [where R = "\<lambda>_ _. True"] triple_bind [where R = "\<lambda>_ s. \<not> mcds_running s"] triple_const TrueI)
      (auto intro!: triples keep session_frame parts link)
qed

lemma session_locks:
  "triple (at_session d l a) dap_lock (\<lambda>_. at_session (d + 1) l a)"
  "triple (at_session d l a) dap_unlock (\<lambda>_. at_session (d - 1) l a)"
  by (simp_all add: triple_def at_session_def)

lemma session_unlocked: "triple (at_session d l a) (session_unlock D) (\<lambda>_. at_session d False a)"
proof -
  have "triple (at_session d True a) (do { modify (\<lambda>s. s\<lparr>session_locked := False\<rparr>); flash_clock D False; dap_unlock })
      (\<lambda>_. at_session d False a)"
  proof (intro triple_bind)
    show "triple (at_session d True a) (modify (\<lambda>s. s\<lparr>session_locked := False\<rparr>)) (\<lambda>_. at_session (d + 1) False a)"
      by (intro triple_modify) (simp add: at_session_def)
    show "triple (at_session (d + 1) False a) (flash_clock D False) (\<lambda>_. at_session (d + 1) False a)"
      by (intro keep_session session_frame)
    show "triple (at_session (d + 1) False a) dap_unlock (\<lambda>_. at_session d False a)"
      using session_locks(2) [of "d + 1"] by simp
  qed
  then show ?thesis
    unfolding session_unlock_def
    by (intro triple_known [where c = l], simp add: at_session_def) (cases l; simp add: if_do_def triple_return)
qed

lemma trace_stopped:
  "triple (\<lambda>s. lock_depth (hist s) = d + of_bool l \<and> session_locked s = l \<and> flash_active s = a) (stop_trace D)
     (\<lambda>_. at_session d l a)" (is "triple ?P _ _")
proof -
  have "triple ?P (stop_trace D) (\<lambda>_. ?P)"
    by (rule of_rel [OF session_stop_trace [OF subset_UNIV]]) (auto simp: session_step_def calm_def)
  moreover have "triple ?P (stop_trace D) (\<lambda>_ s. \<not> mcds_running s)"
    unfolding stop_trace_def
    by (auto simp: triple_def if_do_def split: prod.splits dest!: tripleD [OF mcds_stopped_flag TrueI])
  ultimately have "triple ?P (stop_trace D) (\<lambda>_ s. ?P s \<and> \<not> mcds_running s)" by (rule triple_conj)
  then show ?thesis by (rule triple_post) (simp add: at_session_def)
qed

lemma begun: "triple (at_session d l a) (tricore_flash_begin D) (\<lambda>err. at_session d (err = ESP_OK) a)"
proof -
  have open_it: "triple (at_session (d + 1) l a) (do { locked \<leftarrow> gets session_locked; if_do locked dap_unlock;
      modify (\<lambda>s. s\<lparr>session_locked := True\<rparr>) }) (\<lambda>_. at_session d True a)"
    by (auto simp: triple_def if_do_def at_session_def)
  have finish: "triple (at_session d True a) (do { if_do (err \<noteq> ESP_OK) (session_unlock D); ret err })
      (\<lambda>err. at_session d (err = ESP_OK) a)" for err
    using session_unlocked [of d True a D]
    by (cases "err = ESP_OK") (auto intro!: triple_bind triple_return simp: if_do_def)
  have "triple (at_session d l a) (do { locked \<leftarrow> gets session_locked; if_do (\<not> locked) (stop_trace D) }) (\<lambda>_. at_session d l a)"
    by (rule keep_session) (intro session_frame)
  from triple_bind [OF this triple_bind [OF session_locks(1) triple_bind [OF open_it triple_bind [OF keep_session finish]]],
      OF session_parts(2) [OF subset_UNIV]]
  show ?thesis unfolding tricore_flash_begin_def by simp
qed

lemma ended: "triple (at_session d l a) (tricore_flash_end D b) (\<lambda>_. at_session d False a)"
  unfolding tricore_flash_end_def
  by (intro triple_bind [OF keep_session] triple_bind [OF session_unlocked] triple_return session_frame) 

lemma written_session:
  "triple (at_session d l a) (write_locked D regions) (\<lambda>_ s. \<exists>l'. at_session d l' a s)"
proof -
  have stay: "at_session d l' a s \<Longrightarrow> \<exists>l'. at_session d l' a s" for l' and s :: "'a ucb_scheme" by blast
  have headers: "triple (at_session d l a) (if_do b (do {
        tricore_flash_set_phase D TRICORE_FLASH_PROGRAMMING m;
        err \<leftarrow> tricore_ucb_program D wanted;
        fstat (f err) })) (\<lambda>_. at_session d l a)" for l b m wanted f
    by (intro keep_session session_frame)
  note keep = triple_bind [OF keep_session]
  show ?thesis
    unfolding write_locked_def
    apply (rule triple_if, rule triple_return, erule stay)
    apply (rule triple_bind [OF begun])
    apply (rule triple_if, rule triple_return, erule stay)
    apply (rule keep, intro session_frame)
    apply (rule triple_if, rule triple_return, erule stay)
    apply (rule keep, intro session_frame)
    apply (rule triple_bind [OF headers])
    apply (rule keep, intro session_frame)
    apply (rule triple_bind [OF ended])
    apply (rule triple_if, rule triple_return, erule stay)
    apply (rule keep, intro session_frame)
    apply (rule triple_if)
     apply (rule keep, intro session_frame, rule triple_return, erule stay)+
    done
qed

text \<open>C38: (The session is always closed.) However \<open>tricore_flash_write\<close> ends, a started trace has been stopped, the
  session flag and the activity flag are down, and the DAP lock is held as deep as before, or once less if a session
  was open before: each \<open>dap_lock\<close> of the session, of the write itself and of the nested begin has been given back.\<close>

theorem flash_write_session:
  fixes s :: "'e ucb_scheme"
  shows "let s' = final (tricore_flash_write D regions) s in
    \<not> session_locked s' \<and> \<not> flash_active s' \<and> \<not> mcds_running s' \<and>
    lock_depth (hist s') = lock_depth (hist s) - of_bool (session_locked s)"
proof -
  define d where "d = lock_depth (hist s) - of_bool (session_locked s)"
  have "triple (\<lambda>t. t = s) (tricore_flash_write D regions) (\<lambda>_. at_session d False False)"
    unfolding tricore_flash_write_def
  proof (intro triple_bind)
    let ?l = "session_locked s"
    show "triple (\<lambda>t. t = s) (modify (\<lambda>s. s\<lparr>flash_active := True\<rparr>))
        (\<lambda>_ t. lock_depth (hist t) = d + of_bool ?l \<and> session_locked t = ?l \<and> flash_active t = True)"
      by (intro triple_modify) (simp add: d_def)
    show "triple (at_session d ?l True) dap_lock (\<lambda>_. at_session (d + 1) ?l True)" by (rule session_locks)
    show "triple (at_session (d + 1) ?l True) (write_locked D regions) (\<lambda>_ t. \<exists>l'. at_session (d + 1) l' True t)"
      by (rule written_session)
    show "triple (\<lambda>t. \<exists>l'. at_session (d + 1) l' True t) (session_unlock D) (\<lambda>_. at_session (d + 1) False True)"
      by (rule triple_ex [OF session_unlocked])
    show "triple (at_session (d + 1) False True) dap_unlock (\<lambda>_. at_session d False True)"
      using session_locks(2) [of "d + 1" False True] by simp
    show "triple (at_session d False True) (modify (\<lambda>s. s\<lparr>flash_active := False\<rparr>)) (\<lambda>_. at_session d False False)"
      by (intro triple_modify) (simp add: at_session_def)
  qed (rule trace_stopped, simp add: triple_return)
  from triple_final [OF this refl] show ?thesis by (simp add: at_session_def d_def Let_def)
qed

section \<open>The boot mode headers, as erase commands\<close>

definition header_erase :: "u32 \<times> u32 \<Rightarrow> bool" where
  "header_erase e \<longleftrightarrow> (\<exists>b \<in> set BLOCKS. is_owned b \<and> e = (ub_base b, 1))"

lemma no_erase: "(CSI_BASE + CYCLE_AAA8, CMD_ERASE) \<notin> set ws \<Longrightarrow> csi_erases (foldr csi_word ws c) = csi_erases c"
  by (induction ws) (auto simp: csi_word_def split: prod.splits)

lemma inside_cycles_other:
  assumes "(CYCLE_AAA8, CMD_ERASE) \<notin> set cs" "\<And>c. c \<in> set cs \<Longrightarrow> fst c < 0x10000"
  shows "rel (inside Q J sw lay) (csi_cycles D cs :: ('e flash_scheme, esp_err) state)"
proof (rule relI)
  fix s s' :: "'e flash_scheme" and err
  assume run: "run (csi_cycles D cs) s = (err, s')"
  from csi_cycles_log [OF run] obtain k where
    k: "blog s' = rev (take k (map (\<lambda>c. (CSI_BASE + fst c, snd c)) cs)) @ blog s" by blast
  let ?ws = "rev (take k (map (\<lambda>c. (CSI_BASE + fst c, snd c)) cs))"
  have w: "w \<noteq> (CSI_BASE + CYCLE_AAA8, CMD_ERASE) \<and> fst w \<notin> {LOADER_PARAMS, LOADER_PARAMS + 4, LOADER_PARAMS + 8}"
    if "w \<in> set ?ws" for w
  proof -
    have "w \<in> (\<lambda>c. (CSI_BASE + fst c, snd c)) ` set cs" using that set_take_subset by fastforce
    then obtain c where c: "c \<in> set cs" "w = (CSI_BASE + fst c, snd c)" by blast
    have "unat (fst c) < 0x10000" using assms(2) [OF c(1)] by (simp add: word_less_nat_alt)
    then have "unat (fst w) \<ge> 0xAF000000" by (simp add: c(2) CSI_BASE_def unat_word_ariths(1))
    then have "fst w \<notin> {LOADER_PARAMS, LOADER_PARAMS + 4, LOADER_PARAMS + 8}" by (auto simp: loader_consts)
    moreover have "c \<noteq> (CYCLE_AAA8, CMD_ERASE)" using c(1) assms(1) by blast
    then have "w \<noteq> (CSI_BASE + CYCLE_AAA8, CMD_ERASE)" by (cases c) (simp add: c(2))
    ultimately show ?thesis by simp
  qed
  have "erases s' = erases s" unfolding k csi_of_def foldr_append comp_def by (rule no_erase) (use w in blast)
  moreover have "jobs s' = jobs s" unfolding k job_of_def foldr_append comp_def by (subst job_neutral) (use w in auto)
  moreover have "tricore.more s' = tricore.more s" using relD [OF unchanged_cycles run] unchanged_more by blast
  ultimately show "inside Q J sw lay s s'" using more_flash [of s' s] by (simp add: inside_def extended_refl)
qed

lemma header_cycles_erase:
  assumes "k \<le> 4"
  shows "let ws = rev (take k (map (\<lambda>c. (CSI_BASE + fst c, snd c))
      [(CYCLE_AA50, a), (CYCLE_AA58, 1), (CYCLE_AAA8, CMD_ERASE_SETUP), (CYCLE_AAA8, CMD_ERASE)]))
    in csi_erases (csi_of (ws @ old)) = (if k = 4 then [(a, 1)] else []) @ csi_erases (csi_of old) \<and>
       job_list (job_of (ws @ old)) = job_list (job_of old)"
proof -
  have "k = 0 \<or> k = 1 \<or> k = 2 \<or> k = 3 \<or> k = 4" using assms by linarith
  then show ?thesis
    by (elim disjE) (simp_all add: csi_of_def job_of_def csi_word_def job_word_def csi_consts loader_consts)
qed

lemma inside_header_erase:
  assumes "Q (a, 1)"
  shows "rel (inside Q J sw lay) (csi_cycles D
     [(CYCLE_AA50, a), (CYCLE_AA58, 1), (CYCLE_AAA8, CMD_ERASE_SETUP), (CYCLE_AAA8, CMD_ERASE)] :: ('e flash_scheme, esp_err) state)"
    (is "rel _ (csi_cycles D ?cs)")
proof (rule relI)
  fix s s' :: "'e flash_scheme" and err
  assume run: "run (csi_cycles D ?cs) s = (err, s')"
  from csi_cycles_log [OF run] obtain k where "k \<le> length ?cs" and
    k2: "blog s' = rev (take k (map (\<lambda>c. (CSI_BASE + fst c, snd c)) ?cs)) @ blog s" by blast
  then have k: "k \<le> 4" by simp
  have "tricore.more s' = tricore.more s" using relD [OF unchanged_cycles run] unchanged_more by blast
  from more_flash [OF this] header_cycles_erase [OF k, of a "blog s"] assms show "inside Q J sw lay s s'"
    by (auto simp: inside_def k2 Let_def extended_refl intro: extended_Cons)
qed

lemma inside_ucb_modify [inside_frame]:
  "rel (inside Q J sw lay) (report fmt args :: ('e ucb_scheme, unit) state)"
  "rel (inside Q J sw lay) (why fmt args :: ('e ucb_scheme, esp_err) state)"
  "rel (inside Q J sw lay) (read_block D b :: ('e ucb_scheme, esp_err \<times> u8 list) state)"
  "rel (inside Q J sw lay) (tricore_is_halted D 0 :: ('e ucb_scheme, bool) state)"
proof -
  show "rel (inside Q J sw lay) (report fmt args :: ('e ucb_scheme, unit) state)"
    "rel (inside Q J sw lay) (why fmt args :: ('e ucb_scheme, esp_err) state)"
    unfolding report_def why_def by (intro inside_frame inside_modify; simp)+
  show "rel (inside Q J sw lay) (read_block D b :: ('e ucb_scheme, esp_err \<times> u8 list) state)"
    unfolding read_block_def by (intro inside_unchanged grows_frame) (simp add: tricore_read_mem_def unchanged_mem)
  show "rel (inside Q J sw lay) (tricore_is_halted D 0 :: ('e ucb_scheme, bool) state)"
    by (intro inside_debug debug_frame)
qed

lemma inside_write_block:
  assumes "Q (ub_base b, 1)"
  shows "rel (inside Q J sw lay) (write_block D b blob :: ('e ucb_scheme, esp_err \<times> ucb_text list) state)"
proof -
  have wait: "rel (inside Q J sw lay) (ucb_wait_idle D what a t :: ('e ucb_scheme, esp_err) state)" for what a t
    unfolding ucb_wait_idle_def by (intro inside_frame)
  have enter: "rel (inside Q J sw lay) (csi_cycle D CYCLE_5554 CMD_ENTER_PAGE_DFLASH :: ('e ucb_scheme, esp_err) state)"
    unfolding csi_cycle_def by (intro inside_frame clear_neutral)
  have page: "rel (inside Q J sw lay) (csi_cycles D (page_cycles a pg) :: ('e ucb_scheme, esp_err) state)" for a pg
    by (rule inside_cycles_other) (auto simp: page_cycles_def csi_consts ucb_consts)
  show ?thesis
    unfolding write_block_def ucb_check_page_mode_def ucb_erase_def program_at_def program_page_def
    by (intro inside_frame inside_modify wait enter page inside_header_erase assms) simp_all
qed

lemma triple_frame:
  assumes "preorder_frame R" "rel R m"
  shows "triple (R s0) m (\<lambda>_. R s0)"
  using assms by (auto intro!: tripleI dest: relD preorder_frame.R_trans)

lemma inside_plan [inside_frame]: "rel (inside Q J sw lay) (plan D img :: ('e ucb_scheme, decision list) state)"
proof -
  have "rel (inside Q J sw lay) (plan_block D img b :: ('e ucb_scheme, decision) state)" for b
    unfolding plan_block_def state_on_target_def by (intro inside_frame)
  then have "rel (inside Q J sw lay) (plan_blocks D img bs :: ('e ucb_scheme, decision list) state)" for bs
    by (induction bs) (auto intro!: inside_frame)
  then show ?thesis by (simp add: plan_def)
qed

lemma inside_decisions:
  assumes "map de_block ds = considered img" "list_all (decision_ok img) ds" "\<And>e. header_erase e \<Longrightarrow> Q e"
  shows "rel (inside Q J sw lay) (run_decisions D img ds :: ('e ucb_scheme, esp_err) state)"
proof -
  have blocks: "de_block d \<in> set BLOCKS" if "d \<in> set ds" for d
  proof -
    have "de_block d \<in> set (considered img)" using that assms(1) by (metis image_eqI list.set_map)
    then show ?thesis by (simp add: considered_set)
  qed
  have carry: "rel (inside Q J sw lay) (carry_out D img d n :: ('e ucb_scheme, nat) state)" if d: "d \<in> set ds" for d n
  proof (cases "de_action d = ACT_WRITE")
    case True
    then have "is_owned (de_block d)" using d assms(2) by (auto simp: list_all_iff decision_ok_def)
    then have "Q (ub_base (de_block d), 1)" using blocks [OF d] by (intro assms(3)) (auto simp: header_erase_def)
    then show ?thesis unfolding carry_out_def by (intro inside_frame inside_write_block)
  qed (simp add: carry_out_def inside.return)
  show ?thesis
    unfolding run_decisions_def report_decision_def by (intro inside_frame carry)
qed

lemma inside_ucb:
  assumes Q: "\<And>e. header_erase e \<Longrightarrow> Q e"
  shows "rel (inside Q J sw lay) (tricore_ucb_program D wanted :: ('e ucb_scheme, esp_err) state)"
proof (rule rel_of_triple)
  fix s0 :: "'e ucb_scheme"
  let ?R = "inside Q J sw lay s0"
  note frame = triple_frame [OF inside.preorder_frame_axioms]
  have start: "triple (\<lambda>s. s = s0) (modify (\<lambda>s. s\<lparr>ucb_report := []\<rparr>)) (\<lambda>_. ?R)"
    by (intro triple_modify) (simp add: inside_def extended_refl)
  have planned: "triple ?R (plan D img :: ('e ucb_scheme, decision list) state)
      (\<lambda>ds s. ?R s \<and> map de_block ds = considered img \<and> list_all (decision_ok img) ds)" for img
    unfolding plan_def
    by (intro triple_conj frame inside_plan [unfolded plan_def] triple_pre [OF plan_blocks_ok] TrueI)
  have run: "triple (\<lambda>s. ?R s \<and> map de_block ds = considered img \<and> list_all (decision_ok img) ds)
      (run_decisions D img ds :: ('e ucb_scheme, esp_err) state) (\<lambda>_. ?R)" for img ds
    by (rule tripleI, elim conjE) (rule tripleD [OF frame [OF inside_decisions [OF _ _ Q]]])
  show "triple (\<lambda>s. s = s0) (tricore_ucb_program D wanted) (\<lambda>_. ?R)"
    unfolding tricore_ucb_program_def
    by (intro triple_bind [OF start] triple_case_option triple_return triple_bind [OF planned] run)
qed

section \<open>What a session starts from\<close>

lemma layout_read:
  "triple installed (tricore_flash_layout D :: ('e flash_scheme, nat) state) (\<lambda>n s. installed s \<and> (n \<noteq> 0 \<longrightarrow> known_layout (layout s)))"
proof -
  let ?P = "\<lambda>s :: 'e flash_scheme. layout s = [] \<and> installed s"
  have clear: "triple installed (modify (\<lambda>s. s\<lparr>layout := []\<rparr>) :: ('e flash_scheme, unit) state) (\<lambda>_. ?P)"
    by (simp add: triple_def)
  have read: "triple ?P (dap_probe_read32 D SCU_CHIPID 0 :: ('e flash_scheme, esp_err \<times> u32) state) (\<lambda>_. ?P)"
    using read32_rules(2) by (rule of_rel) (metis more_flash unchanged_more)
  have fill: "triple ?P (if_do (err = ESP_OK) (
       let fsize = drop_bit 24 chipid AND 0xF
       in if fsize = 0xC then modify (\<lambda>s. s\<lparr>layout := [(0xA0000000, 0xA0A00000)]\<rparr>)
          else if fsize = 0xB
          then modify (\<lambda>s. s\<lparr>layout := [(0xA0000000, 0xA0400000), (0xA0600000, 0xA0A00000)]\<rparr>)
          else skip) :: ('e flash_scheme, unit) state) (\<lambda>_ s. (layout s = [] \<or> known_layout (layout s)) \<and> installed s)"
    for err and chipid :: u32
    by (simp add: triple_def if_do_def Let_def known_layout_def)
  show ?thesis
    unfolding tricore_flash_layout_def
    by (rule triple_bind [OF clear triple_bind [OF read triple_case_prod [OF triple_bind [OF fill triple_gets]]]]) auto
qed

lemma grows_session: "rel (session_step A) m \<Longrightarrow> rel (grows A) m"
  by (erule rel_mono) (simp add: session_step_def calm_def)

lemma fails: "triple P (flash_fail D fmt args :: ('e flash_scheme, esp_err) state) (\<lambda>err _. err \<noteq> ESP_OK)"
  unfolding flash_fail_def by (intro triple_bind [where R = "\<lambda>_ _. True"] triple_const triple_return) simp_all

lemma installed_after:
  "triple (\<lambda>_. True) (tricore_flash_install_loader D :: ('e flash_scheme, esp_err) state) (\<lambda>err s. err = ESP_OK \<longrightarrow> installed s)"
proof -
  have f: "triple P (flash_fail D fmt args :: ('e flash_scheme, esp_err) state) (\<lambda>err s. err = ESP_OK \<longrightarrow> installed s)"
    for P fmt args by (rule triple_post [OF fails]) simp
  note t = triple_bind [where R = "\<lambda>_ _. True", OF triple_const(2) [OF TrueI]]
  have last: "triple (\<lambda>_. True) (do { hz \<leftarrow> measure_stm_hz D; modify (\<lambda>s. s\<lparr>stm_hz := hz\<rparr>);
      modify (\<lambda>s. s\<lparr>installed := True\<rparr>); ret ESP_OK } :: ('e flash_scheme, esp_err) state)
      (\<lambda>err s. err = ESP_OK \<longrightarrow> installed s)"
    by (rule t, rule t) (auto simp: triple_def)
  show ?thesis
    unfolding tricore_flash_install_loader_def
    apply (rule triple_bind [where R = "\<lambda>present s. present = installed s"], simp add: triple_def)
    apply (rule triple_if, rule triple_return, simp)
    apply (rule triple_pre [where P' = "\<lambda>_. True"])
    apply (intro last f t triple_if triple_case_prod triple_return)
    apply simp_all
    done
qed

lemma inside_page_mode:
  "rel (inside Q J sw lay) (check_page_mode D :: ('e flash_scheme, esp_err) state)"
  "rel (inside Q J sw lay) (flash_clock D b :: ('e flash_scheme, unit) state)"
proof -
  show "rel (inside Q J sw lay) (check_page_mode D :: ('e flash_scheme, esp_err) state)"
    unfolding check_page_mode_def csi_cycle_def by (intro inside_frame clear_neutral)
  have "rel (inside Q J sw lay) (dap_phy_fpga_set_div dv :: ('e flash_scheme, unit) state)" for dv
  proof (rule same_flash_inside)
    have link: "rel link_step (dap_phy_fpga_set_div dv :: ('e flash_scheme, unit) state)" by (intro link_step_frame)
    show "installed (snd (run (dap_phy_fpga_set_div dv) s)) = installed s \<and>
        swap_active (snd (run (dap_phy_fpga_set_div dv) s)) = swap_active s \<and>
        layout (snd (run (dap_phy_fpga_set_div dv) s)) = layout s" for s :: "'e flash_scheme"
      using rel_final [OF link, of s] by (cases s; cases "snd (run (dap_phy_fpga_set_div dv) s)")
        (simp add: link_step_def final_def wide.defs)
    show "rel (grows neutral) (dap_phy_fpga_set_div dv :: ('e flash_scheme, unit) state)"
      by (rule grows_session [OF session_link [OF order_refl link]])
  qed
  then show "rel (inside Q J sw lay) (flash_clock D b :: ('e flash_scheme, unit) state)"
    unfolding flash_clock_def by (intro inside_frame)
qed

definition ready :: "'e flash_scheme \<Rightarrow> bool" where
  "ready s \<longleftrightarrow> installed s \<and> known_layout (layout s)"

lemma keep_ready:
  assumes "\<And>sw lay. rel (inside (\<lambda>_. True) (\<lambda>_. True) sw lay) (m :: ('e flash_scheme, 'r) state)"
  shows "triple installed m (\<lambda>_. installed)" "triple ready m (\<lambda>_. ready)"
  by (rule tripleI, use relD [OF assms] in \<open>force simp: inside_def ready_def\<close>)+

lemma session_ready: "triple (\<lambda>_. True) (begin_locked D :: ('e flash_scheme, esp_err) state) (\<lambda>err s. err = ESP_OK \<longrightarrow> ready s)"
proof -
  have f: "triple P (flash_fail D fmt args :: ('e flash_scheme, esp_err) state) (\<lambda>err s. err = ESP_OK \<longrightarrow> ready s)"
    for P fmt args by (rule triple_post [OF fails]) simp
  note t = triple_bind [where R = "\<lambda>_ _. True", OF triple_const(2) [OF TrueI]]
  have page: "triple ready (check_page_mode D :: ('e flash_scheme, esp_err) state) (\<lambda>_. ready)"
    by (rule keep_ready) (rule inside_page_mode)
  have clock: "triple installed (flash_clock D True :: ('e flash_scheme, unit) state) (\<lambda>_. installed)"
    by (rule keep_ready) (rule inside_page_mode)
  have failed: "triple P (do { tricore_flash_safe_shutdown D; m } :: ('e flash_scheme, esp_err) state) (\<lambda>err s. err = ESP_OK \<longrightarrow> ready s)"
    if "triple (\<lambda>_. True) m (\<lambda>err _. err \<noteq> ESP_OK)" for P and m :: "('e flash_scheme, esp_err) state"
    by (rule t, rule triple_post [OF that]) simp
  have opened: "triple (\<lambda>s. installed s \<and> (n \<noteq> 0 \<longrightarrow> known_layout (layout s))) (
       if n = 0 then do {
         tricore_flash_safe_shutdown D;
         flash_fail D ''unknown flash layout (SCU_CHIPID)'' [] }
       else do {
         err \<leftarrow> check_page_mode D;
         if err \<noteq> ESP_OK then do {
           tricore_flash_safe_shutdown D;
           errsr \<leftarrow> gets (\<lambda>s. fs_errsr (flash_status s));
           flash_fail D ''no program flash page mode, ERRSR 0x%08X'' [errsr] }
         else ret ESP_OK } :: ('e flash_scheme, esp_err) state) (\<lambda>err s. err = ESP_OK \<longrightarrow> ready s)" for n
  proof (rule triple_if)
    show "triple (\<lambda>s. installed s \<and> (n \<noteq> 0 \<longrightarrow> known_layout (layout s))) (do {
         err \<leftarrow> check_page_mode D;
         if err \<noteq> ESP_OK then do {
           tricore_flash_safe_shutdown D;
           errsr \<leftarrow> gets (\<lambda>s. fs_errsr (flash_status s));
           flash_fail D ''no program flash page mode, ERRSR 0x%08X'' [errsr] }
         else ret ESP_OK } :: ('e flash_scheme, esp_err) state) (\<lambda>err s. err = ESP_OK \<longrightarrow> ready s)" if "n \<noteq> 0"
      using that by (intro triple_bind [OF triple_pre [OF page]] triple_if failed t fails triple_return) (auto simp: ready_def)
  qed (intro failed fails)
  show ?thesis
    unfolding begin_locked_def
    by (rule t, rule t, rule t, rule t, rule t, rule triple_bind [OF installed_after], rule triple_if, rule triple_return, simp,
        rule triple_bind [OF triple_pre [OF clock]], simp, rule triple_bind [OF layout_read], rule opened)
qed

section \<open>The bank swap and the layout outlive the session\<close>

definition mapped :: "'e flash_scheme \<Rightarrow> 'e flash_scheme \<Rightarrow> bool" where
  "mapped s s' \<longleftrightarrow> swap_active s' = swap_active s \<and> layout s' = layout s"

interpretation mapped: preorder_frame "mapped :: 'e flash_scheme \<Rightarrow> 'e flash_scheme \<Rightarrow> bool"
  by unfold_locales (simp_all add: mapped_def)

lemma mapped_lower:
  fixes m :: "('e flash_scheme, 'r) state"
  shows "rel link_step m \<Longrightarrow> rel mapped m" "rel debug_step m \<Longrightarrow> rel mapped m" "rel unchanged m \<Longrightarrow> rel mapped m"
proof -
  have more: "mapped s s'" if "tricore.more s' = tricore.more s" for s s' :: "'e flash_scheme"
    using that by (cases s; cases s') (simp add: mapped_def tricore.defs)
  then show "rel mapped m" if "rel debug_step m" using that by (elim rel_mono) (simp add: debug_step_def)
  show "rel mapped m" if "rel unchanged m" using that more by (elim rel_mono) (metis unchanged_more)
  show "rel mapped m" if "rel link_step m" using that
  proof (rule rel_mono)
    show "mapped s s'" if "link_step s s'" for s s' :: "'e flash_scheme"
      using that by (cases s; cases s') (simp add: link_step_def mapped_def wide.defs)
  qed
qed

lemma mapped_modify:
  "(\<And>s. swap_active (f s) = swap_active s \<and> layout (f s) = layout s) \<Longrightarrow>
   rel mapped (modify f :: ('e flash_scheme, unit) state)"
  by (simp add: rel_def mapped_def)

lemma mapped_phase:
  "rel mapped (fstat f :: ('e flash_scheme, unit) state)"
  "rel mapped (tricore_flash_set_phase D ph m :: ('e flash_scheme, unit) state)"
  "rel mapped (flash_fail D fmt args :: ('e flash_scheme, esp_err) state)"
proof -
  show f: "rel mapped (fstat f :: ('e flash_scheme, unit) state)" for f
    unfolding fstat_def by (intro mapped_modify) simp
  have t: "rel mapped (esp_timer_get_time D :: ('e flash_scheme, int) state)"
    by (intro mapped_lower(3) time_rules)
  show p: "rel mapped (tricore_flash_set_phase D ph m :: ('e flash_scheme, unit) state)" for ph m
    unfolding tricore_flash_set_phase_def by (intro mapped.rules f t)
  show "rel mapped (flash_fail D fmt args :: ('e flash_scheme, esp_err) state)"
    unfolding flash_fail_def by (intro mapped.rules p)
qed

lemma mapped_unlock:
  "rel mapped (dap_unlock :: ('e flash_scheme, unit) state)"
  "rel mapped (session_unlock D :: ('e flash_scheme, unit) state)"
proof -
  have s: "rel mapped (sense f :: ('e flash_scheme, bool) state)" for f
    by (intro mapped_lower(3) sense_rules)
  have v: "rel mapped (dap_phy_fpga_set_div dv :: ('e flash_scheme, unit) state)" for dv
    by (intro mapped_lower(1) link_step_frame)
  show u: "rel mapped (dap_unlock :: ('e flash_scheme, unit) state)"
    by (simp add: emit_def rel_def mapped_def)
  have "rel mapped (flash_clock D b :: ('e flash_scheme, unit) state)" for b
    unfolding flash_clock_def by (intro mapped.rules s v)
  then show "rel mapped (session_unlock D :: ('e flash_scheme, unit) state)"
    unfolding session_unlock_def by (intro mapped.rules u mapped_modify) simp
qed

lemma mapped_end: "rel mapped (tricore_flash_end D b :: ('e flash_scheme, esp_err) state)"
proof -
  have w: "rel mapped (dap_probe_write32 D a v :: ('e flash_scheme, esp_err) state)" for a v
    by (intro mapped_lower(3) write32_rules)
  have c: "rel mapped (clear_status D :: ('e flash_scheme, esp_err) state)"
    unfolding clear_status_def csi_cycle_def by (intro w)
  have s: "rel mapped (tricore_flash_safe_shutdown D :: ('e flash_scheme, unit) state)"
    unfolding tricore_flash_safe_shutdown_def by (intro mapped.rules c w)
  have debug: "rel mapped (tricore_set_halt_after_reset D b :: ('e flash_scheme, esp_err) state)"
    "rel mapped (tricore_request_application_reset D :: ('e flash_scheme, esp_err) state)"
    "rel mapped (tricore_dbgsr D core v :: ('e flash_scheme, esp_err \<times> u32) state)"
    "rel mapped (tricore_disarm_reset_trigger D :: ('e flash_scheme, unit) state)"
    "rel mapped (tricore_discover D :: ('e flash_scheme, esp_err) state)"
    "rel mapped (tricore_core_started D core :: ('e flash_scheme, bool) state)"
    "rel mapped (tricore_halt_release D core :: ('e flash_scheme, unit) state)"
    "rel mapped (tricore_resume D core t :: ('e flash_scheme, esp_err) state)"
    "rel mapped (tricore_clear_debug_events D core :: ('e flash_scheme, unit) state)"
    "rel mapped (dap_probe_clear_error_state D :: ('e flash_scheme, esp_err) state)" for b core v t
    by (rule mapped_lower(2), intro debug_frame)+
  have "rel mapped (reset_attempts D n :: ('e flash_scheme, bool) state)" for n
    by (induction n) (auto intro!: mapped.rules mapped_lower(1) [OF link_up_step] mapped_lower(3) [OF time_rules(2)]
        mapped_lower(3) [OF time_rules(5)] debug)
  then have r: "rel mapped (tricore_flash_reset_and_halt D :: ('e flash_scheme, bool) state)"
    unfolding tricore_flash_reset_and_halt_def Let_def by (intro mapped.rules debug)
  have a: "rel mapped (start_core D core :: ('e flash_scheme, unit) state)" for core
    unfolding start_core_def by (intro mapped.rules debug)
  show ?thesis
    unfolding tricore_flash_end_def end_locked_def
    by (intro mapped.rules mapped_phase mapped_unlock mapped_modify s r a) simp
qed

section \<open>The whole write\<close>

text \<open>Erase commands and stub commands since a state: in the sectors the image touches, or a boot mode header.\<close>

definition image_erase :: "bool \<Rightarrow> (u32 \<times> u32) list \<Rightarrow> tricore_flash_region list \<Rightarrow> u32 \<times> u32 \<Rightarrow> bool" where
  "image_erase sw lay regions e \<longleftrightarrow> erase_ok sw (touched sw lay regions) e \<or> header_erase e"

definition commanded_since ::
  "bool \<Rightarrow> (u32 \<times> u32) list \<Rightarrow> tricore_flash_region list \<Rightarrow> 'e flash_scheme \<Rightarrow> 'e flash_scheme \<Rightarrow> bool" where
  "commanded_since sw lay regions s s' \<longleftrightarrow> known_layout lay \<and>
     extended (image_erase sw lay regions) (erases s) (erases s') \<and>
     extended (job_ok sw (touched sw lay regions)) (jobs s) (jobs s')"

text \<open>No command at all before a session stands open; afterwards the layout and the bank swap are those it found.\<close>

definition so_far :: "tricore_flash_region list \<Rightarrow> 'e flash_scheme \<Rightarrow> 'e flash_scheme \<Rightarrow> bool" where
  "so_far regions s s' \<longleftrightarrow> (erases s' = erases s \<and> jobs s' = jobs s) \<or>
     commanded_since (swap_active s') (layout s') regions s s'"

lemma extended_mono: "extended P a b \<Longrightarrow> (\<And>e. P e \<Longrightarrow> Q e) \<Longrightarrow> extended Q a b"
  by (auto simp: extended_def)

lemma same_commands: "erases s' = erases s \<Longrightarrow> jobs s' = jobs s \<Longrightarrow> so_far regions s s'"
  by (simp add: so_far_def)

lemma keep_same:
  fixes m :: "('e flash_scheme, 'r) state"
  assumes "rel (grows neutral) m"
  shows "triple (\<lambda>s. erases s = erases s0 \<and> jobs s = jobs s0) m (\<lambda>_ s. erases s = erases s0 \<and> jobs s = jobs s0)"
  using assms by (auto elim!: of_rel dest: grows_neutral)

lemma keep_so_far:
  fixes m :: "('e flash_scheme, 'r) state"
  assumes "rel (grows neutral) m" "rel mapped m"
  shows "triple (so_far regions s0) m (\<lambda>_. so_far regions s0)"
proof (rule tripleI)
  fix s r s' assume "so_far regions s0 s" and run: "run m s = (r, s')"
  moreover have "erases s' = erases s \<and> jobs s' = jobs s" using relD [OF assms(1) run] by (auto dest: grows_neutral)
  moreover have "mapped s s'" using relD [OF assms(2) run] .
  ultimately show "so_far regions s0 s'" by (simp add: so_far_def commanded_since_def mapped_def)
qed

text \<open>Inside the session, with its bank swap and layout fixed.\<close>

definition working ::
  "bool \<Rightarrow> (u32 \<times> u32) list \<Rightarrow> tricore_flash_region list \<Rightarrow> 'e flash_scheme \<Rightarrow> 'e flash_scheme \<Rightarrow> bool" where
  "working sw lay regions s s' \<longleftrightarrow>
     installed s' \<and> swap_active s' = sw \<and> layout s' = lay \<and> commanded_since sw lay regions s s'"

lemma keep_working:
  fixes m :: "('e flash_scheme, 'r) state"
  assumes "rel (inside (image_erase sw lay regions) (job_ok sw (touched sw lay regions)) sw lay) m"
  shows "triple (working sw lay regions s0) m (\<lambda>_. working sw lay regions s0)"
  using assms by (rule of_rel) (auto simp: working_def commanded_since_def inside_def elim: extended_trans)

lemma working_so_far: "working sw lay regions s0 s \<Longrightarrow> so_far regions s0 s"
  by (auto simp: working_def so_far_def)

lemma grows_ends [grows_frame]:
  "rel (grows neutral) (session_unlock D :: ('e flash_scheme, unit) state)"
  "rel (grows neutral) (stop_trace D :: ('e flash_scheme, unit) state)"
  "rel (grows neutral) (begin_locked D :: ('e flash_scheme, esp_err) state)"
  "rel (grows neutral) (tricore_flash_begin D :: ('e flash_scheme, esp_err) state)"
  "rel (grows neutral) (tricore_flash_end D b :: ('e flash_scheme, esp_err) state)"
proof -
  have c: "rel (grows neutral) (flash_clock D b :: ('e flash_scheme, unit) state)" for b
    by (intro grows_session session_frame order_refl)
  show u: "rel (grows neutral) (session_unlock D :: ('e flash_scheme, unit) state)"
    unfolding session_unlock_def by (intro grows_frame c) simp_all
  show t: "rel (grows neutral) (stop_trace D :: ('e flash_scheme, unit) state)"
    by (intro grows_session session_frame order_refl)
  show b: "rel (grows neutral) (begin_locked D :: ('e flash_scheme, esp_err) state)"
    by (intro grows_session session_frame order_refl)
  show "rel (grows neutral) (tricore_flash_begin D :: ('e flash_scheme, esp_err) state)"
    unfolding tricore_flash_begin_def by (intro grows_frame u t b) simp_all
  have e: "rel (grows neutral) (end_locked D b :: ('e flash_scheme, esp_err) state)"
    by (intro grows_session session_frame order_refl)
  then show "rel (grows neutral) (tricore_flash_end D b :: ('e flash_scheme, esp_err) state)"
    unfolding tricore_flash_end_def by (intro grows_frame u)
qed

lemma begun_ready:
  fixes s0 :: "'e flash_scheme"
  shows "triple (\<lambda>s. erases s = erases s0 \<and> jobs s = jobs s0) (tricore_flash_begin D :: ('e flash_scheme, esp_err) state)
    (\<lambda>err s. (erases s = erases s0 \<and> jobs s = jobs s0) \<and> (err = ESP_OK \<longrightarrow> ready s))"
proof -
  let ?E = "\<lambda>s :: 'e flash_scheme. erases s = erases s0 \<and> jobs s = jobs s0"
  note t = triple_bind [where R = "\<lambda>_ _. True", OF triple_const(2) [OF TrueI]]
  have last: "triple (\<lambda>s. err = ESP_OK \<longrightarrow> ready s) (do { if_do (err \<noteq> ESP_OK) (session_unlock D); ret err } :: ('e flash_scheme, esp_err) state)
      (\<lambda>err s. err = ESP_OK \<longrightarrow> ready s)" for err
    by (cases "err = ESP_OK") (auto simp: triple_def if_do_def split: prod.splits)
  have "triple ?E (tricore_flash_begin D :: ('e flash_scheme, esp_err) state) (\<lambda>_. ?E)"
    by (rule keep_same [OF grows_ends(4)])
  moreover have "triple ?E (tricore_flash_begin D :: ('e flash_scheme, esp_err) state) (\<lambda>err s. err = ESP_OK \<longrightarrow> ready s)"
    unfolding tricore_flash_begin_def
    by (rule t, rule t, rule t, rule t, rule t, rule t, rule triple_bind [OF session_ready last])
  ultimately show ?thesis by (rule triple_conj)
qed

lemma opened: "(erases s = erases s0 \<and> jobs s = jobs s0) \<and> ready s \<Longrightarrow> \<exists>sw lay. working sw lay regions s0 s"
  by (intro exI [of _ "swap_active s"] exI [of _ "layout s"]) (simp add: working_def ready_def commanded_since_def extended_refl)

lemma write_commands:
  fixes s0 :: "'e ucb_scheme"
  assumes "\<forall>r\<in>set regions. unat (rg_address r) + unat (rg_length r) < 2 ^ 32"
  shows "triple (\<lambda>s. erases s = erases s0 \<and> jobs s = jobs s0) (write_locked D regions) (\<lambda>_. so_far regions s0)"
proof -
  have apply_it: "triple (working sw lay regions s0) (tricore_flash_apply D regions) (\<lambda>_. working sw lay regions s0)" for sw lay
  proof (rule tripleI)
    fix s r s' assume w: "working sw lay regions s0 s" and run: "run (tricore_flash_apply D regions) s = (r, s')"
    have lay: "known_layout lay" using w by (simp add: working_def commanded_since_def)
    have i: "inside (erase_ok sw (touched sw lay regions)) (job_ok sw (touched sw lay regions)) sw lay s s'"
      using relD [OF inside_apply [OF lay assms refl] run] .
    have "working sw lay regions s s'"
      using i w lay unfolding inside_def working_def commanded_since_def
      by (auto elim: extended_mono simp: image_erase_def)
    then show "working sw lay regions s0 s'"
      using w by (auto simp: working_def commanded_since_def elim: extended_trans)
  qed
  have headers: "triple (working sw lay regions s0) (if_do b (do {
        tricore_flash_set_phase D TRICORE_FLASH_PROGRAMMING m;
        err \<leftarrow> tricore_ucb_program D wanted;
        fstat (f err) })) (\<lambda>_. working sw lay regions s0)" for sw lay b m wanted f
    by (intro keep_working inside_frame inside_ucb) (simp add: image_erase_def)
  have phase: "triple (so_far regions s0) (tricore_flash_set_phase D ph m) (\<lambda>_. so_far regions s0)" for ph m
    by (intro keep_so_far grows_frame mapped_phase)
  note quiet = triple_bind [OF keep_so_far]
  have after: "triple (working sw lay regions s0) (do {
          err \<leftarrow> tricore_flash_apply D regions;
          if err \<noteq> ESP_OK then ret ESP_FAIL
          else do {
            wanted \<leftarrow> gets ucb_wanted;
            if_do (wanted \<noteq> None) (do {
              tricore_flash_set_phase D TRICORE_FLASH_PROGRAMMING (Some (''programming the boot mode headers'', []));
              err \<leftarrow> tricore_ucb_program D wanted;
              fstat (\<lambda>f. f\<lparr>fs_ucb := (if err = ESP_OK then TRICORE_FLASH_UCB_OK else TRICORE_FLASH_UCB_FAILED)\<rparr>) });
            m } }) (\<lambda>_. so_far regions s0)"
    if "rel (grows neutral) m" "rel mapped m" for sw lay and m :: "('e ucb_scheme, esp_err) state"
  proof -
    have m: "triple (working sw lay regions s0) m (\<lambda>_. so_far regions s0)"
      by (rule triple_pre [OF keep_so_far [OF that] working_so_far])
    show ?thesis
      by (rule triple_bind [OF apply_it], rule triple_if, rule triple_return, erule working_so_far,
          rule triple_bind [OF keep_working], intro inside_frame, rule triple_bind [OF headers], rule m)
  qed
  show ?thesis
    unfolding write_locked_def
    apply (rule triple_if, rule triple_return, simp add: same_commands)
    apply (rule triple_bind [OF begun_ready])
    apply (rule triple_if, rule triple_return, simp add: same_commands)
    apply (rule triple_pre [where P' = "\<lambda>s. \<exists>sw lay. working sw lay regions s0 s"])
     apply (intro triple_ex after grows_frame mapped.rules mapped_phase mapped_end)
    apply (rule opened, simp)
    done
qed



end
