(* ===== verification/Fpga_Link.thy ===== *)
theory Fpga_Link
  imports Dap_Frame Triples
begin

unbundle bit_operations_syntax

text \<open>
  \<open>components/dap_probe/dap_phy_fpga.c\<close>: the driver of the FPGA's DAP master. The state is the file's static
  variables and the history of the SPI link, newest event first; the fabric, the SPI peripheral, its driver and the
  clocks are the parameter \<open>fabric\<close>, whose answers are functions of the history that ends with the question, so they
  are arbitrary. The operations carry the names of the file without \<open>dap_phy_\<close>, so as not to be taken for the calls
  through which the layers above see them (theory \<open>Dap_Phy\<close>). The pin routing of bring-up, the register pokes of the
  SPI and DMA peripherals, logging and \<open>dap_phy_fpga_link_timing\<close> are not modelled.
\<close>

section \<open>Registers\<close>

definition REG_STATUS :: u8 where "REG_STATUS = 0x00"
definition REG_CTRL :: u8 where "REG_CTRL = 0x01"
definition REG_DIV :: u8 where "REG_DIV = 0x02"
definition REG_CMD :: u8 where "REG_CMD = 0x03"
definition REG_LEN :: u8 where "REG_LEN = 0x04"
definition REG_DBITS :: u8 where "REG_DBITS = 0x05"
definition REG_RBITS :: u8 where "REG_RBITS = 0x06"
definition REG_TRAIL :: u8 where "REG_TRAIL = 0x07"
definition REG_MAXWAIT :: u8 where "REG_MAXWAIT = 0x08"
definition REG_PARCELS :: u8 where "REG_PARCELS = 0x0A"
definition REG_FLAGS :: u8 where "REG_FLAGS = 0x0B"
definition REG_LEAD :: u8 where "REG_LEAD = 0x0C"
definition REG_LEVEL :: u8 where "REG_LEVEL = 0x0D"
definition REG_SKEW :: u8 where "REG_SKEW = 0x0F"
definition REG_DATA :: u8 where "REG_DATA = 0x10"
definition REG_GO :: u8 where "REG_GO = 0x18"
definition REG_REPLY :: u8 where "REG_REPLY = 0x20"
definition REG_WAIT :: u8 where "REG_WAIT = 0x25"
definition REG_FIFO :: u8 where "REG_FIFO = 0x40"
definition REG_WFIFO :: u8 where "REG_WFIFO = 0x48"
definition REG_FIFO2 :: u8 where "REG_FIFO2 = 0x50"
definition REG_TESTPUSH :: u8 where "REG_TESTPUSH = 0x51"

lemmas reg_consts = REG_STATUS_def REG_CTRL_def REG_DIV_def REG_CMD_def REG_LEN_def REG_DBITS_def REG_RBITS_def
  REG_TRAIL_def REG_MAXWAIT_def REG_PARCELS_def REG_FLAGS_def REG_LEAD_def REG_LEVEL_def REG_SKEW_def REG_DATA_def
  REG_GO_def REG_REPLY_def REG_WAIT_def REG_FIFO_def REG_WFIFO_def REG_FIFO2_def REG_TESTPUSH_def

definition SKEW_TAPS :: u8 where "SKEW_TAPS = 0x0F"
definition LEVEL_HI_QUEUED :: u8 where "LEVEL_HI_QUEUED = push_bit 4 1"
definition PFX_BUSY :: u8 where "PFX_BUSY = push_bit 7 1"
definition PFX_TIMED_OUT :: u8 where "PFX_TIMED_OUT = push_bit 6 1"
definition PFX_OVERRUN :: u8 where "PFX_OVERRUN = push_bit 5 1"
definition PFX_QUEUED :: u8 where "PFX_QUEUED = push_bit 4 1"

definition CTRL_START_FRAME :: u8 where "CTRL_START_FRAME = push_bit 0 1"
definition CTRL_START_BLOCK :: u8 where "CTRL_START_BLOCK = push_bit 1 1"
definition CTRL_ABORT :: u8 where "CTRL_ABORT = push_bit 2 1"
definition CTRL_CLEAR_FIFO :: u8 where "CTRL_CLEAR_FIFO = push_bit 3 1"
definition CTRL_START_WRITE :: u8 where "CTRL_START_WRITE = push_bit 4 1"
definition CTRL_CLEAR_WFIFO :: u8 where "CTRL_CLEAR_WFIFO = push_bit 5 1"

lemmas ctrl_consts = CTRL_START_FRAME_def CTRL_START_BLOCK_def CTRL_ABORT_def CTRL_CLEAR_FIFO_def
  CTRL_START_WRITE_def CTRL_CLEAR_WFIFO_def

definition ST_BUSY :: u8 where "ST_BUSY = push_bit 0 1"
definition ST_DONE :: u8 where "ST_DONE = push_bit 1 1"
definition ST_TIMED_OUT :: u8 where "ST_TIMED_OUT = push_bit 2 1"
definition ST_IDLE_HIGH :: u8 where "ST_IDLE_HIGH = push_bit 3 1"
definition ST_CRC_OK :: u8 where "ST_CRC_OK = push_bit 4 1"
definition ST_OVERRUN :: u8 where "ST_OVERRUN = push_bit 7 1"

definition FLAG_TRST :: u8 where "FLAG_TRST = push_bit 0 1"
definition FLAG_RAW_WINDOW :: u8 where "FLAG_RAW_WINDOW = push_bit 1 1"
definition FLAG_WIDE :: u8 where "FLAG_WIDE = push_bit 2 1"
definition FLAG_RAW_FRAME :: u8 where "FLAG_RAW_FRAME = push_bit 3 1"
definition FLAG_RX_WIDE :: u8 where "FLAG_RX_WIDE = push_bit 5 1"
definition FLAG_FAST :: u8 where "FLAG_FAST = push_bit 6 1"

lemmas flag_consts = FLAG_TRST_def FLAG_RAW_WINDOW_def FLAG_WIDE_def FLAG_RAW_FRAME_def FLAG_RX_WIDE_def FLAG_FAST_def

definition DRAIN_CHUNK :: nat where "DRAIN_CHUNK = 64"
definition DRAIN_MAX :: nat where "DRAIN_MAX = 1024"
definition OP_TIMEOUT_MS :: int where "OP_TIMEOUT_MS = 250"
definition LL_CHUNK :: nat where "LL_CHUNK = 64"
definition DMA_MIN_BYTES :: nat where "DMA_MIN_BYTES = 96"
definition TX_BYTES :: nat where "TX_BYTES = 1088 + 64"
definition SPIN_BEFORE_YIELD_US :: int where "SPIN_BEFORE_YIELD_US = 3000"
definition FPGA_BLOCK_WORDS :: nat where "FPGA_BLOCK_WORDS = 128"
definition FPGA_BURST_WORDS :: nat where "FPGA_BURST_WORDS = 128"

section \<open>The SPI link and the fabric\<close>

text \<open>How a transfer is clocked: one DMA transfer, transactions of the CPU buffer (their sizes), or the vendor's
  driver.\<close>

datatype spi_path = BY_DMA | BY_CPU "nat list" | BY_DRIVER

text \<open>A write names its register and bytes, a read its register and length; a dual read its dummy clocks, the input
  timing and its length. The rest are the calls to the timers, the scheduler, the lock and the driver.\<close>

datatype link_ev =
    LinkWrite spi_path u8 "u8 list"
  | LinkRead spi_path u8 nat
  | LinkDual u8 u32 u32 nat
  | LinkTime | LinkCycles | LinkYield nat
  | LinkTake | LinkGive
  | LinkBus | LinkDevice | LinkRelease

text \<open>What the outside answers, as functions of the history that ends with the question.\<close>

record fabric =
  x_done :: "link_ev list \<Rightarrow> bool"      \<comment> \<open>the DMA transfer ended within its spins\<close>
  x_err :: "link_ev list \<Rightarrow> esp_err"    \<comment> \<open>the driver's code\<close>
  x_byte :: "link_ev list \<Rightarrow> nat \<Rightarrow> u8" \<comment> \<open>the bytes clocked in\<close>
  x_time :: "link_ev list \<Rightarrow> int"       \<comment> \<open>\<open>esp_timer_get_time\<close>\<close>
  x_cycles :: "link_ev list \<Rightarrow> u32"     \<comment> \<open>\<open>esp_cpu_get_cycle_count\<close>\<close>
  x_din_mode :: u32 x_din_num :: u32      \<comment> \<open>the peripheral's own input timing\<close>
  x_rounds :: nat                         \<comment> \<open>bound on the rounds of a polling loop\<close>

text \<open>The static variables of the file, and the history of the link.\<close>

record fpga =
  fg_link :: "link_ev list"
  fg_hung :: bool           \<comment> \<open>a polling loop used up its bound\<close>
  fg_dev :: bool            \<comment> \<open>\<open>s_dev\<close> is not \<open>NULL\<close>\<close>
  fg_ready :: bool
  fg_in_use :: bool
  fg_hw :: bool             \<comment> \<open>\<open>s_hw\<close> is not \<open>NULL\<close>\<close>
  fg_dma_min :: nat
  fg_dma_ok :: bool
  fg_dual_ok :: bool
  fg_dual_dummy :: u8
  fg_din_mode :: u32
  fg_din_num :: u32
  fg_flags :: u8
  fg_trail :: u8
  fg_lead :: u8
  fg_skew :: u8
  fg_maxwait :: u16
  fg_fast :: bool
  fg_chain_lead :: u8
  fg_xfers :: u32
  fg_xfer_bytes :: u32
  fg_polls :: u32
  fg_cycles :: u64

definition link_put :: "link_ev \<Rightarrow> (fpga, unit) state" where
  "link_put e = modify (\<lambda>s. s\<lparr>fg_link := e # fg_link s\<rparr>)"

definition link_ask :: "link_ev \<Rightarrow> (link_ev list \<Rightarrow> 'r) \<Rightarrow> (fpga, 'r) state" where
  "link_ask e answer = do { link_put e; gets (\<lambda>s. answer (fg_link s)) }"

definition fpga_locked :: "(fpga, 'r) state \<Rightarrow> (fpga, 'r) state" where
  "fpga_locked m = do { link_put LinkTake; r \<leftarrow> m; link_put LinkGive; ret r }"

text \<open>The transactions of the CPU buffer one transfer takes.\<close>

function ll_chunks :: "nat \<Rightarrow> nat list" where
  "ll_chunks n = (if n = 0 then [] else if n > LL_CHUNK then LL_CHUNK # ll_chunks (n - LL_CHUNK) else [n])"
  by auto
termination by (relation "measure id") (auto simp: LL_CHUNK_def)

declare ll_chunks.simps [simp del]

definition xfer_path :: "nat \<Rightarrow> fpga \<Rightarrow> spi_path" where
  "xfer_path n s =
     (if fg_hw s \<and> fg_dma_ok s \<and> n \<ge> fg_dma_min s then BY_DMA
      else if fg_hw s then BY_CPU (ll_chunks n) else BY_DRIVER)"

definition path_err :: "fabric \<Rightarrow> spi_path \<Rightarrow> link_ev list \<Rightarrow> esp_err" where
  "path_err X path h = (case path of
     BY_DMA \<Rightarrow> if x_done X h then ESP_OK else ESP_ERR_TIMEOUT
   | BY_CPU _ \<Rightarrow> ESP_OK
   | BY_DRIVER \<Rightarrow> x_err X h)"

definition add_xfer_cycles :: "fabric \<Rightarrow> u32 \<Rightarrow> (fpga, unit) state" where
  "add_xfer_cycles X c0 = do {
     c \<leftarrow> link_ask LinkCycles (x_cycles X);
     let d = c - c0;
     if_do (d < 100 * 1000 * 1000) (modify (\<lambda>s. s\<lparr>fg_cycles := fg_cycles s + ucast d\<rparr>)) }"

definition count_xfer :: "nat \<Rightarrow> (fpga, unit) state" where
  "count_xfer n = modify (\<lambda>s. s\<lparr>fg_xfers := fg_xfers s + 1, fg_xfer_bytes := fg_xfer_bytes s + of_nat n\<rparr>)"

text \<open>\<open>xfer\<close>, as \<open>reg_write\<close> (header, data) and as \<open>reg_read\<close> (header, dummy byte, data) use it.\<close>

definition xfer_write :: "fabric \<Rightarrow> u8 \<Rightarrow> u8 list \<Rightarrow> (fpga, esp_err) state" where
  "xfer_write X reg tx = do {
     let lead = 1;
     c0 \<leftarrow> link_ask LinkCycles (x_cycles X);
     if length tx + lead > TX_BYTES then ret ESP_ERR_INVALID_SIZE
     else do {
       path \<leftarrow> gets (xfer_path (length tx + lead));
       err \<leftarrow> link_ask (LinkWrite path reg tx) (path_err X path);
       count_xfer (length tx + lead);
       add_xfer_cycles X c0;
       ret err } }"

definition xfer_read :: "fabric \<Rightarrow> u8 \<Rightarrow> nat \<Rightarrow> (fpga, esp_err \<times> u8 list) state" where
  "xfer_read X reg len = do {
     let lead = 2;
     c0 \<leftarrow> link_ask LinkCycles (x_cycles X);
     if len + lead > TX_BYTES then ret (ESP_ERR_INVALID_SIZE, [])
     else do {
       path \<leftarrow> gets (xfer_path (len + lead));
       (err, rx) \<leftarrow> link_ask (LinkRead path reg len) (\<lambda>h.
         let err = path_err X path h in (err, if err = ESP_OK then map (x_byte X h) [0..<len] else []));
       count_xfer (len + lead);
       add_xfer_cycles X c0;
       ret (err, rx) } }"

definition reg_write :: "fabric \<Rightarrow> u8 \<Rightarrow> u8 list \<Rightarrow> (fpga, esp_err) state" where
  "reg_write X addr data = xfer_write X addr data"

definition reg_read :: "fabric \<Rightarrow> u8 \<Rightarrow> nat \<Rightarrow> (fpga, esp_err \<times> u8 list) state" where
  "reg_read X addr len = xfer_read X addr len"

definition reg_write8 :: "fabric \<Rightarrow> u8 \<Rightarrow> u8 \<Rightarrow> (fpga, esp_err) state" where
  "reg_write8 X addr v = reg_write X addr [v]"

definition reg_read8 :: "fabric \<Rightarrow> u8 \<Rightarrow> (fpga, u8) state" where
  "reg_read8 X addr = do {
     (err, rx) \<leftarrow> reg_read X addr 1;
     ret (if err \<noteq> ESP_OK then 0 else hd rx) }"

section \<open>Dual-line reads of the reply FIFO\<close>

text \<open>\<open>ll_dual_read\<close>: without DMA only what the CPU buffer holds.\<close>

definition ll_dual_read :: "fabric \<Rightarrow> nat \<Rightarrow> (fpga, bool \<times> u8 list) state" where
  "ll_dual_read X n = do {
     dma_ok \<leftarrow> gets fg_dma_ok;
     let use_dma = (dma_ok \<and> n > LL_CHUNK);
     if \<not> use_dma \<and> n > LL_CHUNK then ret (False, [])
     else do {
       dummy \<leftarrow> gets fg_dual_dummy;
       mode \<leftarrow> gets fg_din_mode;
       num \<leftarrow> gets fg_din_num;
       link_ask (LinkDual dummy mode num n) (\<lambda>h.
         (if use_dma then x_done X h else True, map (x_byte X h) [0..<n])) } }"

text \<open>\<open>fifo2_read\<close>: the bytes taken, the level and the status byte of the prefix.\<close>

definition fifo2_read :: "fabric \<Rightarrow> nat \<Rightarrow> (fpga, (u8 list \<times> nat \<times> u8) option) state" where
  "fifo2_read X want = do {
     c0 \<leftarrow> link_ask LinkCycles (x_cycles X);
     hw \<leftarrow> gets fg_hw;
     if \<not> hw \<or> want + 2 > TX_BYTES then ret None
     else do {
       (ok, rx) \<leftarrow> ll_dual_read X (want + 2);
       count_xfer (want + 2);
       add_xfer_cycles X c0;
       if \<not> ok then ret None
       else do {
         let lvl = unat (rx ! 0) + 256 * unat (rx ! 1 AND 0x07);
         let n = (if lvl < want then lvl else want);
         ret (Some (take n (drop 2 rx), lvl, rx ! 1)) } } }"

definition DUAL_TEST_BYTES :: nat where "DUAL_TEST_BYTES = 96"

definition dual_check :: "fabric \<Rightarrow> u8 list \<Rightarrow> (fpga, bool) state" where
  "dual_check X pat = do {
     let n = length pat;
     let first = n * 5 div 12;
     err \<leftarrow> reg_write8 X REG_CTRL CTRL_CLEAR_FIFO;
     if err \<noteq> ESP_OK then ret False
     else do {
       err \<leftarrow> reg_write X REG_TESTPUSH pat;
       if err \<noteq> ESP_OK then ret False
       else do {
         a \<leftarrow> fifo2_read X first;
         (case a of None \<Rightarrow> ret False
          | Some (back, level, st) \<Rightarrow> do {
              b \<leftarrow> fifo2_read X (n - first);
              (case b of None \<Rightarrow> ret False
               | Some (back2, level2, st) \<Rightarrow>
                   ret (level = n \<and> length back = first \<and> level2 = n - first \<and> length back2 = n - first \<and>
                        back @ back2 = pat)) }) } } }"

text \<open>The settings tried: \<open>din_mode\<close>, \<open>din_num\<close>, and after all of them the same with a ninth dummy clock.\<close>

definition dual_points :: "(u32 \<times> u32) list" where
  "dual_points = [(0, 0), (1, 0), (2, 0), (1, 1), (2, 1), (1, 2), (2, 2), (1, 3), (2, 3)]"

definition use_point :: "fabric \<Rightarrow> nat \<Rightarrow> (fpga, unit) state" where
  "use_point X k = do {
     let per = length dual_points;
     let (m, d) = dual_points ! (k mod per);
     let mode0 = x_din_mode X AND NOT 0x1000F;
     let num0 = x_din_num X AND NOT 0xF;
     modify (\<lambda>s. s\<lparr>fg_dual_dummy := of_nat (8 + k div per),
       fg_din_mode := mode0 OR m OR push_bit 2 m OR (if m \<noteq> 0 then push_bit 16 1 else 0),
       fg_din_num := num0 OR d OR push_bit 2 d\<rparr>) }"

text \<open>The longest passing run: its length and where it starts, the first one of that length.\<close>

function best_run :: "bool list \<Rightarrow> nat \<Rightarrow> nat \<times> nat \<Rightarrow> nat \<times> nat" where
  "best_run pass k (best, best_at) =
     (if k \<ge> length pass then (best, best_at)
      else let len = length (takeWhile id (drop k pass))
        in best_run pass (k + (if len \<noteq> 0 then len else 1)) (if len > best then (len, k) else (best, best_at)))"
  by auto
termination by (relation "measure (\<lambda>(pass, k, _). length pass - k)") (auto intro!: diff_less_mono2)

declare best_run.simps [simp del]

definition dual_pattern :: "u8 list" where
  "dual_pattern = map (\<lambda>i. (of_nat i * 37 + 11) XOR (if odd i then 0xA5 else 0)) [0..<DUAL_TEST_BYTES]"

definition try_point :: "fabric \<Rightarrow> nat \<Rightarrow> (fpga, bool) state" where
  "try_point X k = do {
     use_point X k;
     a \<leftarrow> dual_check X dual_pattern;
     if \<not> a then ret False else dual_check X (map NOT dual_pattern) }"

definition dual_calibrate :: "fabric \<Rightarrow> (fpga, unit) state" where
  "dual_calibrate X = do {
     pass \<leftarrow> for_acc (\<lambda>k pass. do { p \<leftarrow> try_point X k; ret (pass @ [p]) }) [0..<2 * length dual_points] [];
     reg_write8 X REG_CTRL CTRL_CLEAR_FIFO;
     let (best, best_at) = best_run pass 0 (0, 0);
     if best = 0 then modify (\<lambda>s. s\<lparr>fg_dual_ok := False\<rparr>)
     else do {
       use_point X (best_at + best div 2);
       ok \<leftarrow> dual_check X dual_pattern;
       modify (\<lambda>s. s\<lparr>fg_dual_ok := ok\<rparr>);
       reg_write8 X REG_CTRL CTRL_CLEAR_FIFO;
       skip } }"

definition fpga_set_dual :: "fabric \<Rightarrow> bool \<Rightarrow> (fpga, unit) state" where
  "fpga_set_dual X enable = do {
     up \<leftarrow> gets (\<lambda>s. fg_ready s \<and> fg_hw s);
     if \<not> enable then modify (\<lambda>s. s\<lparr>fg_dual_ok := False\<rparr>)
     else if_do up (fpga_locked (dual_calibrate X)) }"

section \<open>Bring-up and settings\<close>

definition shadows_reset :: "(fpga, unit) state" where
  "shadows_reset = modify (\<lambda>s. s\<lparr>fg_flags := 0, fg_fast := False, fg_trail := 1, fg_lead := 2, fg_skew := 0,
     fg_maxwait := 256\<rparr>)"

text \<open>Write each value to TRAIL and read it back.\<close>

primrec answers_trail :: "fabric \<Rightarrow> u8 list \<Rightarrow> (fpga, bool) state" where
  "answers_trail X [] = ret True"
| "answers_trail X (v # vs) = do {
     werr \<leftarrow> reg_write8 X REG_TRAIL v;
     if werr \<noteq> ESP_OK then ret False
     else do {
       got \<leftarrow> reg_read8 X REG_TRAIL;
       if got \<noteq> v then ret False else answers_trail X vs } }"

definition dma_reads_back :: "fabric \<Rightarrow> (fpga, bool) state" where
  "dma_reads_back X = do {
     let pattern = [0x11, 0x22, 0x33, 0x44, 0x55, 0x66, 0x77, 0x88];
     usable \<leftarrow> gets fg_dma_ok;
     if \<not> usable then ret False
     else do {
       err \<leftarrow> reg_write X REG_DATA pattern;
       if err \<noteq> ESP_OK then ret False
       else do {
         (err, back) \<leftarrow> reg_read X REG_DATA 8;
         ret (err = ESP_OK \<and> back = pattern) } } }"

text \<open>\<open>dap_phy_fpga_init\<close> without the pin routing; \<open>channels\<close> is what \<open>dma_prepare\<close> finds.\<close>

definition check_ports :: "fabric \<Rightarrow> bool \<Rightarrow> (fpga, unit) state" where
  "check_ports X channels = do {
     modify (\<lambda>s. s\<lparr>fg_dma_ok := channels\<rparr>);
     modify (\<lambda>s. s\<lparr>fg_dma_min := 1\<rparr>);
     dma_ok \<leftarrow> dma_reads_back X;
     modify (\<lambda>s. s\<lparr>fg_dma_min := DMA_MIN_BYTES\<rparr>);
     if_do (\<not> dma_ok) (modify (\<lambda>s. s\<lparr>fg_dma_ok := False\<rparr>));
     let probe = [0xA5, 0x5A, 0xC3, 0x3C];
     reg_write8 X REG_CTRL CTRL_CLEAR_FIFO;
     reg_write X REG_TESTPUSH probe;
     (err, got) \<leftarrow> reg_read X REG_FIFO 4;
     (if got = probe then dual_calibrate X else modify (\<lambda>s. s\<lparr>fg_dual_ok := False\<rparr>));
     reg_write8 X REG_CTRL CTRL_CLEAR_FIFO;
     skip }"

definition fpga_init :: "fabric \<Rightarrow> bool \<Rightarrow> (fpga, esp_err) state" where
  "fpga_init X channels = do {
     ready \<leftarrow> gets fg_ready;
     if ready then ret ESP_OK
     else do {
       err \<leftarrow> link_ask LinkBus (x_err X);
       if err \<noteq> ESP_OK \<and> err \<noteq> ESP_ERR_INVALID_STATE then ret err
       else do {
         err \<leftarrow> link_ask LinkDevice (x_err X);
         if err \<noteq> ESP_OK then ret err
         else do {
           modify (\<lambda>s. s\<lparr>fg_dev := True\<rparr>);
           shadows_reset;
           answered \<leftarrow> answers_trail X [0x5A, 0xA5, 0x2C];
           if \<not> answered then do {
             link_put LinkRelease;
             modify (\<lambda>s. s\<lparr>fg_dev := False\<rparr>);
             ret ESP_ERR_NOT_FOUND }
           else do {
             modify (\<lambda>s. s\<lparr>fg_ready := True, fg_hw := True\<rparr>);
             reg_write8 X REG_TRAIL 1;
             reg_write8 X REG_CTRL CTRL_CLEAR_FIFO;
             back \<leftarrow> reg_read8 X REG_TRAIL;
             (if back \<noteq> 1 then modify (\<lambda>s. s\<lparr>fg_hw := False\<rparr>) else check_ports X channels);
             ret ESP_OK } } } } }"

definition fpga_invalidate :: "(fpga, unit) state" where
  "fpga_invalidate = do {
     modify (\<lambda>s. s\<lparr>fg_in_use := False, fg_ready := False, fg_hw := False, fg_dma_ok := False, fg_dual_ok := False\<rparr>);
     shadows_reset;
     held \<leftarrow> gets fg_dev;
     if_do held (do { link_put LinkRelease; modify (\<lambda>s. s\<lparr>fg_dev := False\<rparr>) }) }"

definition fpga_use :: "bool \<Rightarrow> (fpga, unit) state" where
  "fpga_use enable = modify (\<lambda>s. s\<lparr>fg_in_use := (enable \<and> fg_ready s)\<rparr>)"

text \<open>\<open>s_ready ? reg_write8(REG_FLAGS, s_flags) : ESP_ERR_INVALID_STATE\<close>, after the flag has been set or cleared.\<close>

definition write_flag :: "fabric \<Rightarrow> u8 \<Rightarrow> bool \<Rightarrow> (fpga, esp_err) state" where
  "write_flag X flag on = do {
     modify (\<lambda>s. s\<lparr>fg_flags := (fg_flags s AND NOT flag) OR (if on then flag else 0)\<rparr>);
     ready \<leftarrow> gets fg_ready;
     flags \<leftarrow> gets fg_flags;
     if ready then reg_write8 X REG_FLAGS flags else ret ESP_ERR_INVALID_STATE }"

definition fpga_set_trst :: "fabric \<Rightarrow> bool \<Rightarrow> (fpga, esp_err) state" where
  "fpga_set_trst X asserted = write_flag X FLAG_TRST asserted"

definition fpga_set_raw_window :: "fabric \<Rightarrow> bool \<Rightarrow> (fpga, esp_err) state" where
  "fpga_set_raw_window X enable = write_flag X FLAG_RAW_WINDOW enable"

definition fpga_set_wide :: "fabric \<Rightarrow> bool \<Rightarrow> (fpga, esp_err) state" where
  "fpga_set_wide X enable = write_flag X FLAG_WIDE enable"

definition fpga_set_rx_wide :: "fabric \<Rightarrow> bool \<Rightarrow> (fpga, esp_err) state" where
  "fpga_set_rx_wide X enable = write_flag X FLAG_RX_WIDE enable"

definition fpga_is_wide :: "fpga \<Rightarrow> bool" where
  "fpga_is_wide s \<longleftrightarrow> fg_flags s AND FLAG_WIDE \<noteq> 0"

text \<open>The other settings refuse to work before the fabric has answered.\<close>

definition if_ready :: "(fpga, esp_err) state \<Rightarrow> (fpga, esp_err) state" where
  "if_ready m = do { ready \<leftarrow> gets fg_ready; if \<not> ready then ret ESP_ERR_INVALID_STATE else m }"

definition fpga_set_div :: "fabric \<Rightarrow> u8 \<Rightarrow> (fpga, esp_err) state" where
  "fpga_set_div X dv = if_ready (reg_write8 X REG_DIV dv)"

definition fpga_set_trail :: "fabric \<Rightarrow> u8 \<Rightarrow> (fpga, esp_err) state" where
  "fpga_set_trail X clocks = if_ready (do {
     modify (\<lambda>s. s\<lparr>fg_trail := clocks\<rparr>);
     reg_write8 X REG_TRAIL clocks })"

definition fpga_set_maxwait :: "fabric \<Rightarrow> u16 \<Rightarrow> (fpga, esp_err) state" where
  "fpga_set_maxwait X clocks = if_ready (do {
     modify (\<lambda>s. s\<lparr>fg_maxwait := clocks\<rparr>);
     reg_write X REG_MAXWAIT [ucast clocks, ucast (drop_bit 8 clocks)] })"

definition fpga_set_skew :: "fabric \<Rightarrow> u8 \<Rightarrow> u8 \<Rightarrow> (fpga, esp_err) state" where
  "fpga_set_skew X dap1_tap dap2_tap =
     (if dap1_tap > 3 \<or> dap2_tap > 3 then ret ESP_ERR_INVALID_ARG
      else do {
        skew \<leftarrow> gets fg_skew;
        let v = (skew AND NOT SKEW_TAPS) OR (dap1_tap AND 3) OR push_bit 2 (dap2_tap AND 3);
        if_ready (do {
          modify (\<lambda>s. s\<lparr>fg_skew := v\<rparr>);
          reg_write8 X REG_SKEW v }) })"

definition fpga_set_fast :: "bool \<Rightarrow> (fpga, esp_err) state" where
  "fpga_set_fast enable = if_ready (do { modify (\<lambda>s. s\<lparr>fg_fast := enable\<rparr>); ret ESP_OK })"

definition fpga_set_fast_timing :: "fabric \<Rightarrow> u8 \<Rightarrow> bool \<Rightarrow> bool \<Rightarrow> (fpga, esp_err) state" where
  "fpga_set_fast_timing X lag edge1 edge2 =
     (if lag > 3 then ret ESP_ERR_INVALID_ARG
      else if_ready (do {
        modify (\<lambda>s. s\<lparr>fg_skew := (fg_skew s AND SKEW_TAPS) OR (if edge1 then 0x10 else 0) OR
          (if edge2 then 0x20 else 0) OR push_bit 6 lag\<rparr>);
        skew \<leftarrow> gets fg_skew;
        reg_write8 X REG_SKEW skew }))"

definition fpga_set_chain_lead :: "u8 \<Rightarrow> (fpga, unit) state" where
  "fpga_set_chain_lead clocks = modify (\<lambda>s. s\<lparr>fg_chain_lead := (if clocks > 63 then 63 else clocks)\<rparr>)"

definition fpga_last_wait :: "fabric \<Rightarrow> (fpga, u16) state" where
  "fpga_last_wait X = fpga_locked (do {
     (err, b) \<leftarrow> reg_read X REG_WAIT 2;
     ret (if err = ESP_OK then ucast (b ! 0) OR push_bit 8 (ucast (b ! 1)) else 0) })"

definition CPU_FREQ_MHZ :: u64 where "CPU_FREQ_MHZ = 240"

definition fpga_stats :: "bool \<Rightarrow> (fpga, u32 \<times> u32 \<times> u32 \<times> u32) state" where
  "fpga_stats reset = do {
     out \<leftarrow> gets (\<lambda>s. (fg_xfers s, fg_xfer_bytes s, ucast (fg_cycles s div CPU_FREQ_MHZ), fg_polls s));
     if_do reset (modify (\<lambda>s. s\<lparr>fg_xfers := 0, fg_xfer_bytes := 0, fg_polls := 0, fg_cycles := 0\<rparr>));
     ret out }"

section \<open>Frames\<close>

text \<open>\<open>raw_frame\<close>: the whole frame as fast mode sends it, or \<open>None\<close> when it does not fit the data register.\<close>

definition raw_payload :: "u8 \<Rightarrow> u8 \<Rightarrow> u64 \<Rightarrow> nat \<Rightarrow> bool \<Rightarrow> u8 list" where
  "raw_payload cmd len_field data data_bits wide =
     map (bit_at cmd) [0..<5] @ (if wide then [0] else []) @ map (bit_at len_field) [0..<6] @
     map (bit_at data) [0..<data_bits] @ (if wide \<and> odd data_bits then [0] else [])"

definition raw_frame :: "u8 \<Rightarrow> u8 \<Rightarrow> u64 \<Rightarrow> nat \<Rightarrow> bool \<Rightarrow> (u64 \<times> u8) option" where
  "raw_frame cmd len_field data data_bits wide =
     (if data_bits > 63 then None
      else let payload = raw_payload cmd len_field data data_bits wide;
               n = length payload;
               edge = (if wide then 2 else 1);
               size = edge + n + 6 + edge
        in if size > 63 then None
           else let crc = dap_crc6 payload n;
                    w = (if wide then 3 else 1);
                    w = foldl (\<lambda>w i. w OR push_bit (edge + i) (ucast (payload ! i))) w [0..<n];
                    w = w OR push_bit (edge + n) (ucast (crc AND 0x3F))
             in Some (w, of_nat size))"

text \<open>The bytes of the burst CMD to DATA, and GO with it when there is one.\<close>

definition frame_burst ::
  "fpga \<Rightarrow> u8 \<Rightarrow> u8 \<Rightarrow> u64 \<Rightarrow> nat \<Rightarrow> nat \<Rightarrow> u8 \<Rightarrow> u8 \<Rightarrow> u8 option \<Rightarrow> u8 list" where
  "frame_burst s cmd len_field data data_bits reply_bits parcels lead go =
     (let flags = fg_flags s;
          maxwait = fg_maxwait s;
          (data, data_bits, flags, maxwait) =
            (case (if fg_fast s then raw_frame cmd len_field data data_bits (flags AND FLAG_WIDE \<noteq> 0) else None) of
               None \<Rightarrow> (data, data_bits, flags, maxwait)
             | Some (word, bits) \<Rightarrow> (word, unat bits, flags OR (FLAG_FAST OR FLAG_RAW_FRAME),
                 if maxwait > 0x7FFF then 0xFFFF else maxwait * 2))
      in [cmd AND 0x1F, len_field AND 0x3F, of_nat data_bits AND 0x3F, of_nat reply_bits AND 0x7F, fg_trail s,
          ucast maxwait, ucast (drop_bit 8 maxwait), parcels, flags, lead, 0, 0, fg_skew s] @
         map (\<lambda>i. ucast (drop_bit (8 * i) data)) [0..<8] @
         (case go of None \<Rightarrow> [] | Some v \<Rightarrow> [v]))"

definition load_frame_lead ::
  "fabric \<Rightarrow> u8 \<Rightarrow> u8 \<Rightarrow> u64 \<Rightarrow> nat \<Rightarrow> nat \<Rightarrow> u8 \<Rightarrow> u8 \<Rightarrow> u8 option \<Rightarrow> (fpga, esp_err) state" where
  "load_frame_lead X cmd len_field data data_bits reply_bits parcels lead go = do {
     b \<leftarrow> gets (\<lambda>s. frame_burst s cmd len_field data data_bits reply_bits parcels lead go);
     reg_write X REG_CMD b }"

definition load_frame_parcels ::
  "fabric \<Rightarrow> u8 \<Rightarrow> u8 \<Rightarrow> u64 \<Rightarrow> nat \<Rightarrow> nat \<Rightarrow> u8 \<Rightarrow> u8 option \<Rightarrow> (fpga, esp_err) state" where
  "load_frame_parcels X cmd len_field data data_bits reply_bits parcels go = do {
     lead \<leftarrow> gets fg_lead;
     load_frame_lead X cmd len_field data data_bits reply_bits parcels lead go }"

definition load_frame ::
  "fabric \<Rightarrow> u8 \<Rightarrow> u8 \<Rightarrow> u64 \<Rightarrow> nat \<Rightarrow> nat \<Rightarrow> u8 option \<Rightarrow> (fpga, esp_err) state" where
  "load_frame X cmd len_field data data_bits reply_bits go =
     load_frame_parcels X cmd len_field data data_bits reply_bits 0 go"

section \<open>Exchanges\<close>

definition link_time :: "fabric \<Rightarrow> (fpga, int) state" where
  "link_time X = link_ask LinkTime (x_time X)"

primrec wait_done_loop :: "fabric \<Rightarrow> nat \<Rightarrow> int \<Rightarrow> int \<Rightarrow> (fpga, esp_err \<times> u8) state" where
  "wait_done_loop X 0 start deadline = do { modify (\<lambda>s. s\<lparr>fg_hung := True\<rparr>); ret (ESP_ERR_TIMEOUT, 0) }"
| "wait_done_loop X (Suc k) start deadline = do {
     st \<leftarrow> reg_read8 X REG_STATUS;
     if st AND ST_DONE \<noteq> 0 then ret (ESP_OK, st)
     else do {
       now \<leftarrow> link_time X;
       if now \<ge> deadline then ret (ESP_ERR_TIMEOUT, st)
       else do {
         if_do (now - start > SPIN_BEFORE_YIELD_US) (link_put (LinkYield 1));
         wait_done_loop X k start deadline } } }"

definition wait_done :: "fabric \<Rightarrow> (fpga, esp_err \<times> u8) state" where
  "wait_done X = do {
     start \<leftarrow> link_time X;
     wait_done_loop X (x_rounds X) start (start + OP_TIMEOUT_MS * 1000) }"

text \<open>\<open>dap_phy_fpga_exchange_locked\<close>; \<open>want\<close>: the caller passed a place for the reply or the wait. The result has what is
  stored there, reply and wait, \<open>None\<close> if nothing is.\<close>

definition exchange_locked ::
  "fabric \<Rightarrow> u8 \<Rightarrow> u8 \<Rightarrow> u64 \<Rightarrow> nat \<Rightarrow> nat \<Rightarrow> bool \<Rightarrow> (fpga, esp_err \<times> (u32 \<times> u16) option) state" where
  "exchange_locked X cmd len_field data data_bits reply_bits want = do {
     ready \<leftarrow> gets fg_ready;
     if \<not> ready then ret (ESP_ERR_INVALID_STATE, None)
     else do {
       err \<leftarrow> load_frame X cmd len_field data data_bits reply_bits (Some CTRL_START_FRAME);
       if err \<noteq> ESP_OK then ret (ESP_FAIL, None)
       else do {
         (err, status) \<leftarrow> wait_done X;
         if err \<noteq> ESP_OK then ret (err, None)
         else do {
           if_do (status AND (ST_TIMED_OUT OR ST_IDLE_HIGH) \<noteq> 0) (do {
             reg_read X REG_CMD 4;
             reg_read X REG_DATA 8;
             skip });
           out \<leftarrow> (if want then do {
               (rerr, rx) \<leftarrow> reg_read X REG_REPLY 7;
               let raw = (if rerr = ESP_OK then rx else replicate 7 0);
               ret (Some (word32_of_bytes (raw ! 0) (raw ! 1) (raw ! 2) (raw ! 3),
                          ucast (raw ! 5) OR push_bit 8 (ucast (raw ! 6)))) }
             else ret None);
           ret (if status AND ST_TIMED_OUT \<noteq> 0 then ESP_ERR_TIMEOUT
                else if status AND ST_IDLE_HIGH \<noteq> 0 then ESP_ERR_NOT_FOUND
                else if status AND ST_CRC_OK = 0 then ESP_ERR_INVALID_CRC
                else ESP_OK, out) } } } }"

definition fpga_exchange ::
  "fabric \<Rightarrow> u8 \<Rightarrow> u8 \<Rightarrow> u64 \<Rightarrow> nat \<Rightarrow> nat \<Rightarrow> bool \<Rightarrow> (fpga, esp_err \<times> (u32 \<times> u16) option) state" where
  "fpga_exchange X cmd len_field data data_bits reply_bits want =
     fpga_locked (exchange_locked X cmd len_field data data_bits reply_bits want)"

section \<open>Block reads and writes\<close>

record fpga_block =
  bk_payload :: u64
  bk_payload_bits :: u8
  bk_count :: u16

definition queue_block :: "fabric \<Rightarrow> fpga_block \<Rightarrow> bool \<Rightarrow> (fpga, esp_err) state" where
  "queue_block X b first = do {
     lead \<leftarrow> gets fg_lead;
     chain_lead \<leftarrow> gets fg_chain_lead;
     load_frame_lead X 0x0A (bk_payload_bits b) (bk_payload b) (unat (bk_payload_bits b)) 0
       (ucast (bk_count b - 1)) (if first then lead else chain_lead)
       (Some (if first then CTRL_CLEAR_FIFO OR CTRL_START_BLOCK else CTRL_START_BLOCK)) }"

definition count_poll :: "(fpga, unit) state" where
  "count_poll = modify (\<lambda>s. s\<lparr>fg_polls := fg_polls s + 1\<rparr>)"

text \<open>\<open>blockread_chain_dual\<close>, from its loop on. What has landed so far is \<open>acc\<close>, the next block to queue \<open>next_blk\<close>.\<close>

primrec chain_dual_loop ::
  "fabric \<Rightarrow> fpga_block list \<Rightarrow> nat \<Rightarrow> int \<Rightarrow> nat \<Rightarrow> u8 list \<Rightarrow> nat \<Rightarrow> nat \<Rightarrow> nat \<Rightarrow> (fpga, esp_err \<times> u8 list) state" where
  "chain_dual_loop X blocks bytes deadline 0 acc next_blk chunk idle_empty = do {
     modify (\<lambda>s. s\<lparr>fg_hung := True\<rparr>);
     ret (ESP_ERR_TIMEOUT, acc) }"
| "chain_dual_loop X blocks bytes deadline (Suc k) acc next_blk chunk idle_empty = do {
     let want = (if bytes - length acc > chunk then chunk else bytes - length acc);
     r \<leftarrow> fifo2_read X want;
     case r of None \<Rightarrow> ret (ESP_FAIL, acc)
     | Some (took, level, st) \<Rightarrow> do {
         count_poll;
         let acc = acc @ took;
         if length acc = bytes then ret (ESP_OK, acc)
         else do {
           let queued = (st AND PFX_QUEUED \<noteq> 0);
           let failed = (st AND (PFX_TIMED_OUT OR PFX_OVERRUN) \<noteq> 0);
           let more = (next_blk < length blocks \<and> \<not> queued \<and> \<not> failed);
           err \<leftarrow> (if more then queue_block X (blocks ! next_blk) False else ret ESP_OK);
           if err \<noteq> ESP_OK then ret (ESP_FAIL, acc)
           else do {
             let next_blk = (if more then next_blk + 1 else next_blk);
             let chunk = (if level > DRAIN_CHUNK then level else DRAIN_CHUNK);
             let chunk = (if chunk > DRAIN_MAX then DRAIN_MAX else chunk);
             let idle = (st AND PFX_BUSY = 0 \<and> \<not> queued);
             let idle_empty = (if idle \<and> level = 0 then idle_empty + 1 else 0);
             if idle_empty \<ge> 2 \<and> (next_blk = length blocks \<or> failed) then
               ret (if st AND PFX_TIMED_OUT \<noteq> 0 then ESP_ERR_TIMEOUT
                    else if st AND PFX_OVERRUN \<noteq> 0 then ESP_ERR_NO_MEM else ESP_ERR_INVALID_SIZE, acc)
             else do {
               now \<leftarrow> link_time X;
               if now \<ge> deadline then do {
                 reg_write8 X REG_CTRL (CTRL_ABORT OR CTRL_CLEAR_FIFO);
                 ret (ESP_ERR_TIMEOUT, acc) }
               else chain_dual_loop X blocks bytes deadline k acc next_blk chunk idle_empty } } } } }"

definition blockread_chain_dual :: "fabric \<Rightarrow> fpga_block list \<Rightarrow> nat \<Rightarrow> (fpga, esp_err \<times> u8 list) state" where
  "blockread_chain_dual X blocks bytes = do {
     now \<leftarrow> link_time X;
     let deadline = now + OP_TIMEOUT_MS * 1000 * int ((length blocks + 7) div 8);
     chain_dual_loop X blocks bytes deadline (x_rounds X) [] 1 DRAIN_CHUNK 0 }"

text \<open>The level a STATUS read reports, corrected near a wrap.\<close>

definition level_of :: "u8 \<Rightarrow> u8 \<Rightarrow> nat" where
  "level_of lo hi =
     (let avail = unat lo + 256 * unat (hi AND 0x0F)
      in if lo \<ge> 0xF0 \<and> avail \<ge> 0x100 then avail - 0x100 else avail)"

primrec chain_loop ::
  "fabric \<Rightarrow> fpga_block list \<Rightarrow> nat \<Rightarrow> int \<Rightarrow> nat \<Rightarrow> u8 list \<Rightarrow> nat \<Rightarrow> (fpga, esp_err \<times> u8 list) state" where
  "chain_loop X blocks bytes deadline 0 acc next_blk = do {
     modify (\<lambda>s. s\<lparr>fg_hung := True\<rparr>);
     ret (ESP_ERR_TIMEOUT, acc) }"
| "chain_loop X blocks bytes deadline (Suc k) acc next_blk = do {
     (err, low) \<leftarrow> reg_read X REG_STATUS 15;
     if err \<noteq> ESP_OK then ret (ESP_FAIL, acc)
     else do {
       count_poll;
       let status = low ! 0;
       let queued = (low ! 14 AND LEVEL_HI_QUEUED \<noteq> 0);
       let avail = level_of (low ! 13) (low ! 14);
       let failed = (status AND (ST_TIMED_OUT OR ST_OVERRUN) \<noteq> 0);
       let more = (next_blk < length blocks \<and> \<not> queued \<and> \<not> failed);
       err \<leftarrow> (if more then queue_block X (blocks ! next_blk) False else ret ESP_OK);
       if err \<noteq> ESP_OK then ret (ESP_FAIL, acc)
       else do {
         let next_blk = (if more then next_blk + 1 else next_blk);
         let avail = (if avail > bytes - length acc then bytes - length acc else avail);
         let avail = (if avail > DRAIN_MAX then DRAIN_MAX else avail);
         let idle = (status AND ST_BUSY = 0 \<and> \<not> queued);
         if avail \<noteq> 0 \<and> (avail \<ge> DRAIN_CHUNK \<or> idle \<or> length acc + avail = bytes) then do {
           (err, rx) \<leftarrow> reg_read X REG_FIFO avail;
           if err \<noteq> ESP_OK then ret (ESP_FAIL, acc)
           else if length acc + avail = bytes then ret (ESP_OK, acc @ rx)
           else chain_loop X blocks bytes deadline k (acc @ rx) next_blk }
         else if idle \<and> next_blk = length blocks \<and> status AND ST_TIMED_OUT \<noteq> 0 then ret (ESP_ERR_TIMEOUT, acc)
         else if idle \<and> next_blk = length blocks \<and> status AND ST_OVERRUN \<noteq> 0 then ret (ESP_ERR_NO_MEM, acc)
         else if idle \<and> next_blk = length blocks \<and> avail = 0 then ret (ESP_ERR_INVALID_SIZE, acc)
         else if idle \<and> next_blk < length blocks \<and> failed \<and> avail = 0 then
           ret (if status AND ST_OVERRUN \<noteq> 0 then ESP_ERR_NO_MEM else ESP_ERR_TIMEOUT, acc)
         else do {
           now \<leftarrow> link_time X;
           if now \<ge> deadline then do {
             reg_write8 X REG_CTRL (CTRL_ABORT OR CTRL_CLEAR_FIFO);
             ret (ESP_ERR_TIMEOUT, acc) }
           else chain_loop X blocks bytes deadline k acc next_blk } } } }"

text \<open>The result has the bytes stored at \<open>words\<close>, which the processor reads little-endian.\<close>

definition blockread_chain_locked :: "fabric \<Rightarrow> fpga_block list \<Rightarrow> (fpga, esp_err \<times> u8 list) state" where
  "blockread_chain_locked X blocks = do {
     ready \<leftarrow> gets fg_ready;
     if \<not> ready \<or> blocks = [] then ret (ESP_ERR_INVALID_ARG, [])
     else if list_ex (\<lambda>b. bk_count b = 0 \<or> bk_count b > 256) blocks then ret (ESP_ERR_INVALID_ARG, [])
     else do {
       let bytes = sum_list (map (\<lambda>b. unat (bk_count b) * 4) blocks);
       err \<leftarrow> queue_block X (blocks ! 0) True;
       if err \<noteq> ESP_OK then ret (ESP_FAIL, [])
       else do {
         dual \<leftarrow> gets fg_dual_ok;
         if dual then blockread_chain_dual X blocks bytes
         else do {
           now \<leftarrow> link_time X;
           let deadline = now + OP_TIMEOUT_MS * 1000 * int ((length blocks + 7) div 8);
           chain_loop X blocks bytes deadline (x_rounds X) [] 1 } } } }"

definition fpga_blockread_chain :: "fabric \<Rightarrow> fpga_block list \<Rightarrow> (fpga, esp_err \<times> u8 list) state" where
  "fpga_blockread_chain X blocks = fpga_locked (blockread_chain_locked X blocks)"

definition fpga_blockread :: "fabric \<Rightarrow> u64 \<Rightarrow> nat \<Rightarrow> nat \<Rightarrow> (fpga, esp_err \<times> u8 list) state" where
  "fpga_blockread X cmd_payload payload_bits count = fpga_locked (blockread_chain_locked X
     [\<lparr>bk_payload = cmd_payload, bk_payload_bits = of_nat payload_bits, bk_count = of_nat count\<rparr>])"

text \<open>The bursts of \<open>FPGA_BURST_WORDS\<close> words that fill the write FIFO.\<close>

function write_bursts :: "u32 list \<Rightarrow> u32 list list" where
  "write_bursts words =
     (if words = [] then [] else take FPGA_BURST_WORDS words # write_bursts (drop FPGA_BURST_WORDS words))"
  by auto
termination by (relation "measure length") (auto simp: FPGA_BURST_WORDS_def)

definition block_write_locked :: "fabric \<Rightarrow> u32 \<Rightarrow> u32 list \<Rightarrow> (fpga, esp_err) state" where
  "block_write_locked X address words = do {
     s \<leftarrow> gets id;
     if \<not> fg_ready s then ret ESP_ERR_INVALID_STATE
     else if fg_flags s AND FLAG_WIDE \<noteq> 0 then ret ESP_ERR_NOT_SUPPORTED
     else if words = [] \<or> length words > FPGA_BLOCK_WORDS then ret ESP_ERR_INVALID_ARG
     else if address AND 3 \<noteq> 0 then ret ESP_ERR_INVALID_ARG
     else do {
       err \<leftarrow> reg_write8 X REG_CTRL CTRL_CLEAR_WFIFO;
       if err \<noteq> ESP_OK then ret ESP_FAIL
       else do {
         err \<leftarrow> for_ok (\<lambda>ws. reg_write X REG_WFIFO (concat (map (\<lambda>w. map (byte_of_word32 w) [0..<4]) ws)))
                  (write_bursts words);
         if err \<noteq> ESP_OK then ret ESP_FAIL
         else do {
           let payload = push_bit 10 (ucast (drop_bit 2 address)) OR push_bit 2 (of_nat (length words) AND 0xFF);
           err \<leftarrow> load_frame_parcels X 0x09 40 payload 40 0 (of_nat (length words - 1)) (Some CTRL_START_WRITE);
           if err \<noteq> ESP_OK then ret ESP_FAIL
           else do {
             (err, status) \<leftarrow> wait_done X;
             ret (if err \<noteq> ESP_OK then err
                  else if status AND ST_TIMED_OUT \<noteq> 0 then ESP_ERR_TIMEOUT else ESP_OK) } } } } }"

declare write_bursts.simps [simp del]

definition fpga_block_write :: "fabric \<Rightarrow> u32 \<Rightarrow> u32 list \<Rightarrow> (fpga, esp_err) state" where
  "fpga_block_write X address words = fpga_locked (block_write_locked X address words)"

end
