(* ===== verification/Fpga_State.thy ===== *)
theory Fpga_State
  imports Fpga_Link
begin

unbundle bit_operations_syntax

text \<open>
  The settings of the FPGA's driver: what fast mode sends is the frame \<open>dap_frame.c\<close> builds, and in every state the
  operations lead to, the registers of the fabric hold what the shadows say (\<open>fpga_reaches\<close> is the step relation,
  \<open>fpga_ok\<close> its invariant). \<open>quiet\<close>, \<open>steady\<close> and \<open>idle_step\<close> are the frames of the transfers.
\<close>

section \<open>The frames of fast mode\<close>

lemma bit_or_run:
  assumes "\<And>i. i < m \<Longrightarrow> p ! i \<in> {0, 1 :: u8}" "e + m \<le> 64"
  shows "bit (foldl (\<lambda>w i. w OR push_bit (e + i) (ucast (p ! i))) (w0 :: u64) [0..<m]) j \<longleftrightarrow>
    bit w0 j \<or> (e \<le> j \<and> j < e + m \<and> bit (p ! (j - e)) 0)"
  using assms
proof (induction m)
  case (Suc m)
  have last: "p ! m \<in> {0, 1}" by (rule Suc.prems(1)) simp
  have "bit (push_bit (e + m) (ucast (p ! m)) :: u64) j \<longleftrightarrow> j = e + m \<and> bit (p ! m) 0"
    using last Suc.prems(2) by (auto simp: bit_simps)
  moreover have "e \<le> j \<and> j < e + Suc m \<longleftrightarrow> e \<le> j \<and> j < e + m \<or> j = e + m" by auto
  ultimately show ?case using Suc by (auto simp: bit_or_iff)
qed auto

lemma raw_payload_01: "i < length (raw_payload cmd lf data n wide) \<Longrightarrow> raw_payload cmd lf data n wide ! i \<in> {0, 1}"
proof -
  assume "i < length (raw_payload cmd lf data n wide)"
  then have "raw_payload cmd lf data n wide ! i \<in> set (raw_payload cmd lf data n wide)" by (rule nth_mem)
  then show ?thesis unfolding raw_payload_def by (auto simp: bit_at_eq)
qed

text \<open>The bits of a raw frame in the order of the wire: narrow as \<open>dap_frame.c\<close> builds them, wide with the start and
  trailing bits on both lines.\<close>

definition raw_bits_of :: "u8 \<Rightarrow> u8 \<Rightarrow> u64 \<Rightarrow> nat \<Rightarrow> bool \<Rightarrow> u8 list" where
  "raw_bits_of cmd lf data n wide =
     (let p = raw_payload cmd lf data n wide; edge = (if wide then 2 else 1)
      in replicate edge 1 @ p @ map (bit_at (dap_crc6 p (length p))) [0..<6] @ replicate edge 0)"

lemma length_raw_payload:
  "length (raw_payload cmd lf data n wide) = (if wide then 12 + n + n mod 2 else 11 + n)"
  by (auto simp: raw_payload_def mod2_eq_if)

lemma length_raw_bits: "length (raw_bits_of cmd lf data n wide) = (if wide then 22 + n + n mod 2 else 19 + n)"
  by (simp add: raw_bits_of_def Let_def length_raw_payload)

lemma crc6_mask: "dap_crc6 bits n AND 0x3F = dap_crc6 bits n"
  by (simp add: dap_crc6_def and.assoc)

lemma raw_word:
  assumes p: "\<And>i. i < length p \<Longrightarrow> p ! i \<in> {0, 1 :: u8}" and fits: "e + length p + 6 + e \<le> 63"
    and w0: "w0 = (mask e :: u64)" and c: "c AND 0x3F = c"
  shows "foldl (\<lambda>w i. w OR push_bit (e + i) (ucast (p ! i))) w0 [0..<length p] OR push_bit (e + length p) (ucast (c AND 0x3F)) =
    word_of_bits (replicate e 1 @ p @ map (bit_at c) [0..<6] @ replicate e 0)" (is "?L OR ?C = word_of_bits ?bs")
proof (rule bit_word_eqI)
  fix j :: nat assume "j < LENGTH(64)"
  then have j: "j < 64" by simp
  have six: "bit c i \<Longrightarrow> i < 6" for i
    using c by (metis bit_0x3F bit_and_iff bit_numeral_word_iff)
  have "bit ?L j \<longleftrightarrow> j < e \<or> (e \<le> j \<and> j < e + length p \<and> bit (p ! (j - e)) 0)"
    using bit_or_run [of "length p" p e w0 j] p fits j by (auto simp: w0 bit_mask_iff)
  moreover have "bit ?C j \<longleftrightarrow> e + length p \<le> j \<and> bit c (j - (e + length p))"
    using j by (auto simp: c bit_simps dest: bit_imp_le_length)
  moreover have "bit (word_of_bits ?bs :: u64) j \<longleftrightarrow> j < length ?bs \<and> bit (?bs ! j) 0"
    using fits by (auto simp: bit_word_of_bits)
  moreover have "j < length ?bs \<and> bit (?bs ! j) 0 \<longleftrightarrow>
      j < e \<or> (e \<le> j \<and> j < e + length p \<and> bit (p ! (j - e)) 0) \<or> (e + length p \<le> j \<and> bit c (j - (e + length p)))"
    by (auto simp: nth_append bit_at_eq dest: six)
  ultimately show "bit (?L OR ?C) j = bit (word_of_bits ?bs :: u64) j" by (simp only: bit_or_iff) blast
qed

lemma raw_frame_eq:
  "raw_frame cmd lf data n wide = (let bs = raw_bits_of cmd lf data n wide in
     if length bs \<le> 63 then Some (word_of_bits bs, of_nat (length bs)) else None)"
proof -
  let ?p = "raw_payload cmd lf data n wide"
  let ?e = "if wide then 2 else 1 :: nat"
  have len: "length (raw_bits_of cmd lf data n wide) = ?e + length ?p + 6 + ?e" by (simp add: raw_bits_of_def Let_def)
  have n: "n \<le> 63" if "length (raw_bits_of cmd lf data n wide) \<le> 63" using that by (simp add: length_raw_bits split: if_splits)
  have m: "(if wide then 3 else 1 :: u64) = mask ?e" by (simp add: mask_eq_exp_minus_1)
  show ?thesis
    using raw_word [OF raw_payload_01 _ m crc6_mask] n
    by (auto simp: raw_frame_def raw_bits_of_def Let_def length_raw_payload)
qed

lemma bits_of_word:
  assumes "set bs \<subseteq> {0, 1}" "b \<le> length bs" "b \<le> 64"
  shows "map (bit_at (word_of_bits bs :: u64)) [a..<b] = take (b - a) (drop a bs)"
proof (rule nth_equalityI)
  fix i assume "i < length (map (bit_at (word_of_bits bs :: u64)) [a..<b])"
  then have i: "a + i < b" by simp
  then have "bs ! (a + i) \<in> {0, 1}" using assms(1,2) by (meson less_le_trans nth_mem subsetD)
  then show "map (bit_at (word_of_bits bs :: u64)) [a..<b] ! i = take (b - a) (drop a bs) ! i"
    using i assms(2,3) by (auto simp: bit_at_eq bit_word_of_bits)
qed (use assms in simp)

lemma wide_fast_frame:
  "case raw_frame cmd len_field data n True of None \<Rightarrow> 40 < n
    | Some (w, k) \<Rightarrow> n \<le> 40 \<and> even (unat k) \<and> take_bit 2 w = 3 \<and> drop_bit (unat k - 2) w = 0 \<and>
        dap_crc6_residue_ok (map (bit_at w) [2..<unat k - 2]) (unat k - 4)"
proof (cases "n \<le> 40")
  case False
  then have "\<not> n + n mod 2 \<le> 41" by presburger
  then show ?thesis by (simp add: raw_frame_eq length_raw_bits Let_def)
next
  case True
  let ?p = "raw_payload cmd len_field data n True" and ?bs = "raw_bits_of cmd len_field data n True"
  let ?c = "map (bit_at (dap_crc6 ?p (length ?p))) [0..<6]"
  have bs: "?bs = [1, 1] @ (?p @ ?c) @ [0, 0]"
    by (simp add: raw_bits_of_def Let_def numeral_2_eq_2)
  have size: "length ?bs = 22 + n + n mod 2" by (simp add: length_raw_bits)
  then have len: "length ?bs \<le> 63" "even (length ?bs)" using True by presburger+
  have frame: "raw_frame cmd len_field data n True = Some (word_of_bits ?bs, of_nat (length ?bs))"
    using len(1) by (simp add: raw_frame_eq Let_def)
  have k: "unat (of_nat (length ?bs) :: u8) = length ?bs" using len(1) by (simp add: unat_of_nat)
  have "set ?bs \<subseteq> {0, 1}" unfolding bs raw_payload_def by (auto simp: bit_at_eq)
  then have "map (bit_at (word_of_bits ?bs :: u64)) [2..<length ?bs - 2] = take (length ?bs - 4) (drop 2 ?bs)"
    using len(1) by (subst bits_of_word) auto
  also have "\<dots> = ?p @ ?c" unfolding bs by simp
  finally have mid: "map (bit_at (word_of_bits ?bs :: u64)) [2..<length ?bs - 2] = ?p @ ?c" .
  have "length ?bs - 4 = length ?p + 6" unfolding bs by simp
  then have crc: "dap_crc6_residue_ok (map (bit_at (word_of_bits ?bs :: u64)) [2..<length ?bs - 2]) (length ?bs - 4)"
    unfolding mid by (simp only:) (subst residue_ok_iff, auto simp: bit_at_eq)
  have "take_bit 2 (word_of_bits ?bs) = (3 :: u64)"
  proof -
    have "take_bit 2 (word_of_bits ?bs :: u64) = mask 2"
      by (rule bit_word_eqI) (auto simp: bit_simps bit_word_of_bits bs nth_append nth_Cons' numeral_2_eq_2)
    then show ?thesis by (simp add: mask_eq_exp_minus_1)
  qed
  moreover have "drop_bit (length ?bs - 2) (word_of_bits ?bs) = (0 :: u64)"
    by (rule bit_word_eqI) (auto simp: bit_simps bit_word_of_bits bs nth_append nth_Cons')
  ultimately show ?thesis using True len(2) crc unfolding frame option.case prod.case k by blast
qed

text \<open>C25: (Fast mode sends the same frames.) In narrow fast mode the word and length \<open>raw_frame\<close> loads into the fabric
  are, bit for bit, the frame \<open>dap_frame_build\<close> assembles, and a frame is refused (and sent at the divider) exactly when
  it has more than 44 data bits; in wide mode exactly when it has more than 40, and what is sent has even length, its
  start and trailing bit on both lines, and passes the CRC check the receiver makes.\<close>

theorem fast_frames:
  assumes "wf_frame f" "cmd \<le> 0x1F" "len_field \<le> 63"
  shows "raw_frame cmd len_field data n False =
      (if n \<le> 44 then let g = snd (dap_frame_build f cmd len_field data n) in Some (dap_frame_word g, of_nat (f_len g))
       else None) \<and>
    (case raw_frame cmd len_field data n True of None \<Rightarrow> 40 < n
      | Some (w, k) \<Rightarrow> n \<le> 40 \<and> even (unat k) \<and> take_bit 2 w = 3 \<and> drop_bit (unat k - 2) w = 0 \<and>
          dap_crc6_residue_ok (map (bit_at w) [2..<unat k - 2]) (unat k - 4))"
proof
  show "raw_frame cmd len_field data n False =
      (if n \<le> 44 then let g = snd (dap_frame_build f cmd len_field data n) in Some (dap_frame_word g, of_nat (f_len g))
       else None)"
  proof (cases "n \<le> 44")
    case True
    obtain g where g: "dap_frame_build f cmd len_field data n = (True, g)" "wf_frame g" "f_len g = 19 + n"
        "frame_bits g = frame_wire cmd len_field data n"
      using dap_frame_build_wire [OF assms, of n data] True by auto
    have "raw_bits_of cmd len_field data n False = frame_wire cmd len_field data n"
      by (simp add: raw_bits_of_def frame_wire_def raw_payload_def dap_frame_payload_def Let_def)
    then show ?thesis
      using True g dap_frame_word_eq [OF g(2)] length_raw_bits [of cmd len_field data n False]
      by (simp add: raw_frame_eq Let_def DAP_FRAME_MAX_BITS_def)
  qed (simp add: raw_frame_eq length_raw_bits Let_def)
qed (rule wide_fast_frame)

lemma fast_frames_witness:
  "raw_frame 0x1A 7 0x55 7 False =
    (let g = snd (dap_frame_build empty_frame 0x1A 7 0x55 7) in Some (dap_frame_word g, of_nat (f_len g)))"
  using fast_frames [of empty_frame "0x1A" 7 "0x55" 7] by simp

section \<open>The registers and their shadows\<close>

text \<open>The register file as the writes on the link leave it: a write auto-increments from its register, but for the
  ports from 0x40 on; a new configuration of the fabric resets it.\<close>

definition reset_value :: "u8 \<Rightarrow> u8" where
  "reset_value r = (if r = REG_TRAIL then 1 else if r = REG_LEAD then 2 else if r = REG_MAXWAIT + 1 then 1 else 0)"

fun register :: "link_ev list \<Rightarrow> u8 \<Rightarrow> u8" where
  "register [] r = reset_value r"
| "register (LinkWrite path a bs # h) r =
     (if a < 0x40 \<and> unat (r - a) < length bs then bs ! unat (r - a) else register h r)"
| "register (LinkRelease # h) r = reset_value r"
| "register (_ # h) r = register h r"

definition maxwait_register :: "link_ev list \<Rightarrow> u16" where
  "maxwait_register h = ucast (register h REG_MAXWAIT) OR push_bit 8 (ucast (register h (REG_MAXWAIT + 1)))"

definition FAST_FLAGS :: u8 where "FAST_FLAGS = FLAG_FAST OR FLAG_RAW_FRAME"

definition doubled :: "u16 \<Rightarrow> u16" where "doubled w = (if w > 0x7FFF then 0xFFFF else w * 2)"

text \<open>The registers hold what was set, but for the flags and the wait limit of the last fast frame.\<close>

definition in_step :: "fpga \<Rightarrow> bool" where
  "in_step s \<longleftrightarrow> (fg_ready s \<longrightarrow>
     register (fg_link s) REG_TRAIL = fg_trail s \<and> register (fg_link s) REG_SKEW = fg_skew s \<and>
     (register (fg_link s) REG_FLAGS = fg_flags s \<or> register (fg_link s) REG_FLAGS = fg_flags s OR FAST_FLAGS) \<and>
     (maxwait_register (fg_link s) = fg_maxwait s \<or> maxwait_register (fg_link s) = doubled (fg_maxwait s)))"

definition fpga_ok :: "fpga \<Rightarrow> bool" where
  "fpga_ok s \<longleftrightarrow> in_step s \<and> fg_flags s AND FAST_FLAGS = 0 \<and> fg_chain_lead s \<le> 63 \<and>
     (fg_in_use s \<longrightarrow> fg_ready s) \<and> (fg_ready s \<longrightarrow> fg_dev s) \<and> (fg_hw s \<longrightarrow> fg_ready s) \<and> (fg_dual_ok s \<longrightarrow> fg_hw s)"

text \<open>What no transfer touches: \<open>quiet b\<close> lets the dual-line setting change when \<open>b\<close>.\<close>

definition core :: "fpga \<Rightarrow> bool \<times> bool \<times> bool \<times> bool \<times> u8 \<times> u8 \<times> u8 \<times> u8 \<times> u16 \<times> bool \<times> u8" where
  "core s = (fg_dev s, fg_ready s, fg_in_use s, fg_hw s, fg_flags s, fg_trail s, fg_lead s, fg_skew s, fg_maxwait s,
     fg_fast s, fg_chain_lead s)"

definition tracked :: "u8 set" where
  "tracked = {REG_TRAIL, REG_MAXWAIT, REG_MAXWAIT + 1, REG_FLAGS, REG_SKEW}"

definition quiet :: "bool \<Rightarrow> fpga \<Rightarrow> fpga \<Rightarrow> bool" where
  "quiet b s s' \<longleftrightarrow> core s' = core s \<and> (\<forall>r \<in> tracked. register (fg_link s') r = register (fg_link s) r) \<and>
     (b \<or> fg_dual_ok s' = fg_dual_ok s)"

interpretation quiet: preorder_frame "quiet b" for b
  by unfold_locales (auto simp: quiet_def)

named_theorems quiet_frame \<open>transfers that leave the settings alone\<close>

lemmas [quiet_frame] = quiet.rules

lemma quiet_put [quiet_frame]:
  "e \<noteq> LinkRelease \<Longrightarrow> \<forall>path a bs. e \<noteq> LinkWrite path a bs \<Longrightarrow> rel (quiet b) (link_put e)"
  "e \<noteq> LinkRelease \<Longrightarrow> \<forall>path a bs. e \<noteq> LinkWrite path a bs \<Longrightarrow> rel (quiet b) (link_ask e f)"
  by (cases e; simp add: rel_def quiet_def core_def link_ask_def link_put_def)+

lemma quiet_modify [quiet_frame]:
  "rel (quiet b) (modify (\<lambda>s. s\<lparr>fg_cycles := f s\<rparr>))"
  "rel (quiet b) (count_xfer n)" "rel (quiet b) count_poll"
  "rel (quiet b) (modify (\<lambda>s. s\<lparr>fg_hung := c\<rparr>))"
  by (simp_all add: rel_def quiet_def core_def count_xfer_def count_poll_def)

lemma quiet_locked [quiet_frame]: "rel (quiet b) m \<Longrightarrow> rel (quiet b) (fpga_locked m)"
  unfolding fpga_locked_def by (intro quiet_frame) simp_all

lemma quiet_time [quiet_frame]: "rel (quiet b) (link_time X)"
  unfolding link_time_def by (intro quiet_frame) simp_all

lemma quiet_cycles [quiet_frame]: "rel (quiet b) (add_xfer_cycles X c0)"
  unfolding add_xfer_cycles_def by (intro quiet_frame) simp_all

lemma quiet_read [quiet_frame]:
  "rel (quiet b) (reg_read X a n)" "rel (quiet b) (reg_read8 X a)"
proof -
  show r: "rel (quiet b) (reg_read X a n)" for n
    unfolding reg_read_def xfer_read_def by (intro quiet_frame) simp_all
  show "rel (quiet b) (reg_read8 X a)" unfolding reg_read8_def by (intro quiet_frame r)
qed

text \<open>What a write does to the register file.\<close>

lemma run_cycles [simp]: "run (add_xfer_cycles X c0) s = ((), s\<lparr>fg_link := LinkCycles # fg_link s,
    fg_cycles := (let d = x_cycles X (LinkCycles # fg_link s) - c0
      in if d < 100 * 1000 * 1000 then fg_cycles s + ucast d else fg_cycles s)\<rparr>)"
  by (simp add: add_xfer_cycles_def link_ask_def link_put_def if_do_def Let_def)

lemma run_write:
  assumes "run (reg_write X a bs) s = (err, s')" "length bs < TX_BYTES"
  shows "core s' = core s" "fg_dual_ok s' = fg_dual_ok s"
    "\<exists>path. fg_link s' = LinkCycles # LinkWrite path a bs # LinkCycles # fg_link s"
  using assms by (auto simp: reg_write_def xfer_write_def count_xfer_def link_ask_def link_put_def core_def)

lemma register_write:
  assumes "run (reg_write X a bs) s = (err, s')" "length bs < TX_BYTES"
  shows "register (fg_link s') r =
    (if a < 0x40 \<and> unat (r - a) < length bs then bs ! unat (r - a) else register (fg_link s) r)"
  using run_write(3) [OF assms] by auto

lemma quiet_write [quiet_frame]:
  assumes "\<forall>r \<in> tracked. a \<ge> 0x40 \<or> length bs \<le> unat (r - a)"
  shows "rel (quiet b) (reg_write X a bs)"
proof (cases "length bs < TX_BYTES")
  case True
  show ?thesis
  proof (rule relI)
    fix s s' err assume run: "run (reg_write X a bs) s = (err, s')"
    have "register (fg_link s') r = register (fg_link s) r" if "r \<in> tracked" for r
      using register_write [OF run True, of r] assms that by (auto simp: not_less split: if_splits)
    then show "quiet b s s'" using run_write(1,2) [OF run True] by (simp add: quiet_def)
  qed
next
  case False
  then have "reg_write X a bs = do { c0 \<leftarrow> link_ask LinkCycles (x_cycles X); ret ESP_ERR_INVALID_SIZE }"
    by (simp add: reg_write_def xfer_write_def)
  then show ?thesis by (auto intro!: quiet_frame)
qed

lemma quiet_write8 [quiet_frame]:
  "a \<notin> tracked \<Longrightarrow> rel (quiet b) (reg_write8 X a v)"
  unfolding reg_write8_def
proof (intro quiet_write ballI disjI2)
  fix r assume "a \<notin> tracked" "r \<in> tracked"
  then have "r - a \<noteq> 0" by auto
  then have "unat (r - a) \<noteq> 0" by (simp add: unat_eq_0)
  then show "length [v] \<le> unat (r - a)" by simp
qed

lemma untracked [simp]:
  "REG_CTRL \<notin> tracked" "REG_DIV \<notin> tracked"
  by (simp_all add: tracked_def reg_consts)

lemma ok_quiet: "fpga_ok s \<Longrightarrow> quiet False s s' \<Longrightarrow> fpga_ok s'"
  by (auto simp: fpga_ok_def in_step_def quiet_def core_def tracked_def maxwait_register_def)

text \<open>\<open>keeps_ok\<close>: whatever happens, a good state stays good.\<close>

definition keeps_ok :: "fpga \<Rightarrow> fpga \<Rightarrow> bool" where
  "keeps_ok s s' \<longleftrightarrow> (fpga_ok s \<longrightarrow> fpga_ok s')"

interpretation keeps_ok: preorder_frame keeps_ok
  by unfold_locales (auto simp: keeps_ok_def)

named_theorems ok_frame \<open>operations that keep a good state\<close>

lemmas [ok_frame] = keeps_ok.rules

lemma ok_of_quiet: "rel (quiet False) m \<Longrightarrow> rel keeps_ok m"
  by (erule rel_mono) (auto simp: keeps_ok_def intro: ok_quiet)

lemma ok_transfers [ok_frame]:
  "rel keeps_ok (link_time X)" "rel keeps_ok count_poll" "rel keeps_ok (reg_read X a n)" "rel keeps_ok (reg_read8 X a)"
  "rel keeps_ok (link_put LinkTake)" "rel keeps_ok (link_put LinkGive)" "rel keeps_ok (link_put (LinkYield n))"
  "rel keeps_ok (modify (\<lambda>s. s\<lparr>fg_hung := c\<rparr>))"
  by (rule ok_of_quiet, rule quiet_frame; simp)+

lemma ok_write8 [ok_frame]: "a \<notin> tracked \<Longrightarrow> rel keeps_ok (reg_write8 X a v)"
  by (intro ok_of_quiet quiet_frame)

lemma ok_locked [ok_frame]: "rel keeps_ok m \<Longrightarrow> rel keeps_ok (fpga_locked m)"
  unfolding fpga_locked_def by (intro ok_frame)

text \<open>The burst of a frame rewrites the tracked registers from their shadows: with the two fast bits and the doubled
  wait limit exactly if the frame goes fast.\<close>

definition goes_fast :: "fpga \<Rightarrow> nat \<Rightarrow> bool" where
  "goes_fast s n \<longleftrightarrow> fg_fast s \<and> n \<le> (if fg_flags s AND FLAG_WIDE \<noteq> 0 then 40 else 44)"

lemma raw_frame_fits: "(raw_frame cmd lf data n wide = None) = (\<not> n \<le> (if wide then 40 else 44))"
proof -
  have "n + n mod 2 \<le> 41 \<longleftrightarrow> n \<le> 40" by presburger
  then show ?thesis by (auto simp: raw_frame_eq length_raw_bits Let_def)
qed

lemma frame_burst_cases:
  "\<exists>(w :: u64) k flags maxwait. frame_burst s cmd lf data n rb parcels lead go =
     [cmd AND 0x1F, lf AND 0x3F, k, of_nat rb AND 0x7F, fg_trail s, ucast maxwait, ucast (drop_bit 8 maxwait), parcels,
       flags, lead, 0, 0, fg_skew s] @ map (\<lambda>i. ucast (drop_bit (8 * i) w)) [0..<8] @ (case go of None \<Rightarrow> [] | Some v \<Rightarrow> [v]) \<and>
     (if goes_fast s n then flags = fg_flags s OR FAST_FLAGS \<and> maxwait = doubled (fg_maxwait s)
      else flags = fg_flags s \<and> maxwait = fg_maxwait s)"
proof -
  let ?raw = "if fg_fast s then raw_frame cmd lf data n (fg_flags s AND FLAG_WIDE \<noteq> 0) else None"
  have fast: "goes_fast s n \<longleftrightarrow> ?raw \<noteq> None"
    using raw_frame_fits [of cmd lf data n "fg_flags s AND FLAG_WIDE \<noteq> 0"] by (auto simp: goes_fast_def)
  consider "?raw = None" | w k where "?raw = Some (w, k)" by (cases ?raw) auto
  then show ?thesis
  proof cases
    case 1
    show ?thesis
      by (rule exI [of _ data], rule exI [of _ "of_nat n AND 0x3F"], rule exI [of _ "fg_flags s"], rule exI [of _ "fg_maxwait s"])
        (simp add: frame_burst_def 1 Let_def fast)
  next
    case 2
    show ?thesis
      by (rule exI [of _ w], rule exI [of _ "of_nat (unat k) AND 0x3F"], rule exI [of _ "fg_flags s OR FAST_FLAGS"],
          rule exI [of _ "doubled (fg_maxwait s)"])
        (simp add: frame_burst_def 2 Let_def FAST_FLAGS_def doubled_def fast)
  qed
qed

lemma length_frame_burst: "length (frame_burst s cmd lf data n rb parcels lead go) = (if go = None then 21 else 22)"
  using frame_burst_cases [of s cmd lf data n rb parcels lead go] by (auto split: option.splits)

lemma maxwait_bytes: "ucast (ucast w :: u8) OR push_bit 8 (ucast (ucast (drop_bit 8 w) :: u8)) = (w :: u16)"
  by (rule bit_word_eqI) (auto simp: bit_simps dest: bit_imp_le_length)

lemma load_frame_registers:
  fixes s :: fpga
  assumes "run (load_frame_lead X cmd lf data n rb parcels lead go) s = (err, s')"
  shows "register (fg_link s') REG_TRAIL = fg_trail s" "register (fg_link s') REG_SKEW = fg_skew s"
    "register (fg_link s') REG_LEAD = lead"
    "register (fg_link s') REG_FLAGS = (if goes_fast s n then fg_flags s OR FAST_FLAGS else fg_flags s)"
    "maxwait_register (fg_link s') = (if goes_fast s n then doubled (fg_maxwait s) else fg_maxwait s)"
    "core s' = core s" "fg_dual_ok s' = fg_dual_ok s"
proof -
  let ?b = "frame_burst s cmd lf data n rb parcels lead go"
  have r: "run (reg_write X REG_CMD ?b) s = (err, s')" using assms by (simp add: load_frame_lead_def)
  have len: "length ?b < TX_BYTES" by (simp add: TX_BYTES_def length_frame_burst)
  from frame_burst_cases [of s cmd lf data n rb parcels lead go] obtain w :: u64 and k flags maxwait where
    b: "?b = [cmd AND 0x1F, lf AND 0x3F, k, of_nat rb AND 0x7F, fg_trail s, ucast maxwait,
        ucast (drop_bit 8 maxwait), parcels, flags, lead, 0, 0, fg_skew s] @
        map (\<lambda>i. ucast (drop_bit (8 * i) w)) [0..<8] @ (case go of None \<Rightarrow> [] | Some v \<Rightarrow> [v])"
    and f: "if goes_fast s n then flags = fg_flags s OR FAST_FLAGS \<and> maxwait = doubled (fg_maxwait s)
      else flags = fg_flags s \<and> maxwait = fg_maxwait s"
    by metis
  note reg = register_write [OF r len]
  show "register (fg_link s') REG_TRAIL = fg_trail s" "register (fg_link s') REG_SKEW = fg_skew s"
    "register (fg_link s') REG_LEAD = lead"
    unfolding reg b by (simp_all add: reg_consts nth_append)
  have "register (fg_link s') REG_FLAGS = flags" "register (fg_link s') REG_MAXWAIT = ucast maxwait"
    "register (fg_link s') (REG_MAXWAIT + 1) = ucast (drop_bit 8 maxwait)"
    unfolding reg b by (simp_all add: reg_consts nth_append)
  moreover from this(2,3) have "maxwait_register (fg_link s') = maxwait"
    by (simp add: maxwait_register_def maxwait_bytes)
  ultimately show "register (fg_link s') REG_FLAGS = (if goes_fast s n then fg_flags s OR FAST_FLAGS else fg_flags s)"
    "maxwait_register (fg_link s') = (if goes_fast s n then doubled (fg_maxwait s) else fg_maxwait s)"
    using f by simp_all
  show "core s' = core s" "fg_dual_ok s' = fg_dual_ok s" using run_write(1,2) [OF r len] by simp_all
qed

lemma ok_load_frame [ok_frame]: "rel keeps_ok (load_frame_lead X cmd lf data n rb parcels lead go)"
proof (rule relI)
  fix s s' err assume run: "run (load_frame_lead X cmd lf data n rb parcels lead go) s = (err, s')"
  show "keeps_ok s s'"
    using load_frame_registers [OF run] by (auto simp: keeps_ok_def fpga_ok_def in_step_def core_def)
qed

lemma ok_frames [ok_frame]:
  "rel keeps_ok (load_frame_parcels X cmd lf data n rb parcels go)" "rel keeps_ok (load_frame X cmd lf data n rb go)"
  "rel keeps_ok (queue_block X blk first)"
  unfolding load_frame_def load_frame_parcels_def queue_block_def by (intro ok_frame)+

lemma ok_wait_done [ok_frame]: "rel keeps_ok (wait_done X)"
proof -
  have "rel keeps_ok (wait_done_loop X k start deadline)" for k start deadline
    by (induction k) (auto intro!: ok_frame)
  then show ?thesis unfolding wait_done_def by (intro ok_frame)
qed

lemma ok_fifo2 [ok_frame]: "rel (quiet b) (fifo2_read X want)" "rel keeps_ok (fifo2_read X want)"
proof -
  have "rel (quiet b) (ll_dual_read X n)" for b n
    unfolding ll_dual_read_def by (intro quiet_frame) simp_all
  then show q: "rel (quiet b) (fifo2_read X want)" for b
    unfolding fifo2_read_def by (intro quiet_frame) simp_all
  show "rel keeps_ok (fifo2_read X want)" by (rule ok_of_quiet [OF q])
qed

lemma ok_chain [ok_frame]: "rel keeps_ok (blockread_chain_locked X blocks)"
proof -
  have "rel keeps_ok (chain_dual_loop X blocks bytes deadline k acc next_blk chunk idle)" for bytes deadline k acc next_blk chunk idle
    by (induction k arbitrary: acc next_blk chunk idle) (simp_all only: chain_dual_loop.simps, (intro ok_frame | assumption | simp)+)
  moreover have "rel keeps_ok (chain_loop X blocks bytes deadline k acc next_blk)" for bytes deadline k acc next_blk
    by (induction k arbitrary: acc next_blk) (simp_all only: chain_loop.simps, (intro ok_frame | assumption | simp)+)
  ultimately show ?thesis
    unfolding blockread_chain_locked_def blockread_chain_dual_def by (intro ok_frame)
qed

lemma ok_exchange [ok_frame]:
  "rel keeps_ok (exchange_locked X cmd lf data n rb want)" "rel keeps_ok (block_write_locked X a ws)"
proof -
  show "rel keeps_ok (exchange_locked X cmd lf data n rb want)"
    unfolding exchange_locked_def by (intro ok_frame)
  have "rel keeps_ok (reg_write X REG_WFIFO bs)" for bs
    by (intro ok_of_quiet quiet_frame) (simp add: reg_consts)
  then show "rel keeps_ok (block_write_locked X a ws)"
    unfolding block_write_locked_def by (intro ok_frame) simp_all
qed

lemma ok_if_ready [ok_frame]: "(\<And>s. fg_ready s \<Longrightarrow> fpga_ok s \<Longrightarrow> fpga_ok (snd (run m s))) \<Longrightarrow> rel keeps_ok (if_ready m)"
  by (auto simp: if_ready_def rel_def keeps_ok_def)

text \<open>A setting: the shadow is stored, then its register written.\<close>

lemma other_registers:
  "run (reg_write8 X a v) s = (err, s') \<Longrightarrow> a < 0x40 \<Longrightarrow> register (fg_link s') r = (if r = a then v else register (fg_link s) r)"
proof -
  assume "run (reg_write8 X a v) s = (err, s')" "a < 0x40"
  moreover have "unat (r - a) = 0 \<longleftrightarrow> r = a" by (simp add: unat_eq_0)
  ultimately show ?thesis
    using register_write [of X a "[v]" s err s' r] by (auto simp: reg_write8_def TX_BYTES_def)
qed

lemma core_write8: "run (reg_write8 X a v) s = (err, s') \<Longrightarrow> core s' = core s \<and> fg_dual_ok s' = fg_dual_ok s"
  using run_write(1,2) [of X a "[v]" s err s'] by (simp add: reg_write8_def TX_BYTES_def)

lemma distinct_registers: "REG_TRAIL \<noteq> REG_SKEW" "REG_TRAIL \<noteq> REG_FLAGS" "REG_SKEW \<noteq> REG_FLAGS"
  by (simp_all add: reg_consts)

lemma ok_setting:
  assumes "run (reg_write8 X a v) t = (err, s')" "a < 0x40" "fpga_ok s"
    and "fg_link t = fg_link s" "fg_dev t = fg_dev s" "fg_ready t = fg_ready s" "fg_in_use t = fg_in_use s" "fg_hw t = fg_hw s"
    "fg_dual_ok t = fg_dual_ok s" "fg_chain_lead t = fg_chain_lead s" "fg_maxwait t = fg_maxwait s"
    and "a \<notin> {REG_MAXWAIT, REG_MAXWAIT + 1}" "fg_flags t AND FAST_FLAGS = 0"
    and "if a = REG_TRAIL then fg_trail t = v else fg_trail t = fg_trail s"
    and "if a = REG_SKEW then fg_skew t = v else fg_skew t = fg_skew s"
    and "if a = REG_FLAGS then fg_flags t = v else fg_flags t = fg_flags s"
  shows "fpga_ok s'"
proof -
  note reg = other_registers [OF assms(1,2)]
  have c: "fg_dev s' = fg_dev t" "fg_ready s' = fg_ready t" "fg_in_use s' = fg_in_use t" "fg_hw s' = fg_hw t"
    "fg_flags s' = fg_flags t" "fg_trail s' = fg_trail t" "fg_skew s' = fg_skew t" "fg_maxwait s' = fg_maxwait t"
    "fg_chain_lead s' = fg_chain_lead t" "fg_dual_ok s' = fg_dual_ok t"
    using core_write8 [OF assms(1)] by (simp_all add: core_def)
  have m: "maxwait_register (fg_link s') = maxwait_register (fg_link s)"
    using assms(12) by (auto simp: maxwait_register_def reg assms(4))
  have s: "in_step s" using assms(3) by (simp add: fpga_ok_def)
  have "in_step s'"
    unfolding in_step_def c assms m reg
    using s assms(14-16) distinct_registers unfolding in_step_def by (simp split: if_splits)
  then show ?thesis
    using assms(3,13) by (simp add: fpga_ok_def c assms(5-11))
qed

lemma ok_write_flag:
  assumes "flag AND FAST_FLAGS = 0"
  shows "rel keeps_ok (write_flag X flag on)"
proof (rule relI)
  fix s s' err assume run: "run (write_flag X flag on) s = (err, s')"
  let ?v = "(fg_flags s AND NOT flag) OR (if on then flag else 0)"
  let ?t = "s\<lparr>fg_flags := ?v\<rparr>"
  have v: "?v AND FAST_FLAGS = 0" if "fpga_ok s"
  proof -
    have "fg_flags s AND FAST_FLAGS = 0" using that by (simp add: fpga_ok_def)
    then show ?thesis using assms by (auto simp: bit_eq_iff bit_simps)
  qed
  have step: "(if fg_ready s then run (reg_write8 X REG_FLAGS ?v) ?t else (ESP_ERR_INVALID_STATE, ?t)) = (err, s')"
    using run by (auto simp: write_flag_def split: if_splits)
  have "fpga_ok s'" if ok: "fpga_ok s"
  proof (cases "fg_ready s")
    case True
    then show ?thesis using step v [OF ok] ok
      by (intro ok_setting [of X REG_FLAGS ?v ?t err s' s]) (simp_all add: reg_consts)
  next
    case False
    then show ?thesis using step v [OF ok] ok by (auto simp: fpga_ok_def in_step_def)
  qed
  then show "keeps_ok s s'" by (simp add: keeps_ok_def)
qed

lemma ok_settings [ok_frame]:
  "rel keeps_ok (fpga_set_trst X b)" "rel keeps_ok (fpga_set_raw_window X b)" "rel keeps_ok (fpga_set_wide X b)"
  "rel keeps_ok (fpga_set_rx_wide X b)" "rel keeps_ok (fpga_set_fast b)" "rel keeps_ok (fpga_set_chain_lead clocks)"
  "rel keeps_ok (fpga_use b)" "rel keeps_ok (fpga_set_div X dv)"
proof -
  have flags: "FLAG_TRST AND FAST_FLAGS = 0" "FLAG_RAW_WINDOW AND FAST_FLAGS = 0" "FLAG_WIDE AND FAST_FLAGS = 0"
    "FLAG_RX_WIDE AND FAST_FLAGS = 0"
    by (simp_all add: FAST_FLAGS_def flag_consts)
  then show "rel keeps_ok (fpga_set_trst X b)" "rel keeps_ok (fpga_set_raw_window X b)" "rel keeps_ok (fpga_set_wide X b)"
    "rel keeps_ok (fpga_set_rx_wide X b)"
    by (simp_all add: fpga_set_trst_def fpga_set_raw_window_def fpga_set_wide_def fpga_set_rx_wide_def ok_write_flag)
  show "rel keeps_ok (fpga_set_fast b)" unfolding fpga_set_fast_def
    by (intro ok_frame) (auto simp: fpga_ok_def in_step_def)
  show "rel keeps_ok (fpga_set_chain_lead clocks)" "rel keeps_ok (fpga_use b)"
    by (auto simp: fpga_set_chain_lead_def fpga_use_def rel_def keeps_ok_def fpga_ok_def in_step_def not_less)
  show "rel keeps_ok (fpga_set_div X dv)"
    unfolding fpga_set_div_def if_ready_def by (intro ok_frame) simp_all
qed

lemma run_snd: "run m s = (fst (run m s), snd (run m s))"
  by simp

lemma ok_timing [ok_frame]:
  "rel keeps_ok (fpga_set_trail X clocks)" "rel keeps_ok (fpga_set_skew X t1 t2)" "rel keeps_ok (fpga_set_fast_timing X lag e1 e2)"
proof -
  show "rel keeps_ok (fpga_set_trail X clocks)"
    unfolding fpga_set_trail_def
  proof (intro ok_frame)
    fix s assume "fg_ready s" "fpga_ok s"
    then show "fpga_ok (snd (run (modify (\<lambda>s. s\<lparr>fg_trail := clocks\<rparr>) \<bind> (\<lambda>_. reg_write8 X REG_TRAIL clocks)) s))"
      by (simp add: split_beta)
        (rule ok_setting [OF run_snd _ \<open>fpga_ok s\<close>], simp_all add: reg_consts fpga_ok_def)
  qed
  have skew: "fpga_ok (snd (run (reg_write8 X REG_SKEW v) (s\<lparr>fg_skew := v\<rparr>)))" if "fpga_ok s" for v s
    using that by (intro ok_setting [OF run_snd _ that]) (simp_all add: reg_consts fpga_ok_def)
  show "rel keeps_ok (fpga_set_skew X t1 t2)"
    unfolding fpga_set_skew_def Let_def by (intro ok_frame) (simp add: skew)
  show "rel keeps_ok (fpga_set_fast_timing X lag e1 e2)"
    unfolding fpga_set_fast_timing_def Let_def by (intro ok_frame) (simp add: skew)
qed

lemma ok_maxwait [ok_frame]: "rel keeps_ok (fpga_set_maxwait X clocks)"
  unfolding fpga_set_maxwait_def
proof (intro ok_frame)
  fix s assume ok: "fg_ready s" "fpga_ok s"
  let ?t = "s\<lparr>fg_maxwait := clocks\<rparr>" and ?bs = "[ucast clocks, ucast (drop_bit 8 clocks)] :: u8 list"
  obtain err s' where run: "run (reg_write X REG_MAXWAIT ?bs) ?t = (err, s')" by fastforce
  have len: "length ?bs < TX_BYTES" by (simp add: TX_BYTES_def)
  note reg = register_write [OF run len]
  have "register (fg_link s') REG_MAXWAIT = ucast clocks" "register (fg_link s') (REG_MAXWAIT + 1) = ucast (drop_bit 8 clocks)"
    unfolding reg by (simp_all add: reg_consts)
  moreover have "register (fg_link s') r = register (fg_link s) r" if "r \<in> {REG_TRAIL, REG_SKEW, REG_FLAGS}" for r
    using that unfolding reg by (auto simp: reg_consts unsigned_minus_1_eq_mask mask_eq_exp_minus_1)
  ultimately have "maxwait_register (fg_link s') = clocks" "\<forall>r \<in> {REG_TRAIL, REG_SKEW, REG_FLAGS}. register (fg_link s') r = register (fg_link s) r"
    using maxwait_bytes [of clocks] by (auto simp: maxwait_register_def)
  then have "fpga_ok s'"
    using run_write(1,2) [OF run len] ok by (auto simp: fpga_ok_def in_step_def core_def)
  then show "fpga_ok (snd (run (modify (\<lambda>s. s\<lparr>fg_maxwait := clocks\<rparr>) \<bind> (\<lambda>_. reg_write X REG_MAXWAIT
      [ucast clocks, ucast (drop_bit 8 clocks)])) s))"
    using run by simp
qed

lemma quiet_use_point [quiet_frame]: "rel (quiet b) (use_point X k)"
  unfolding use_point_def by (intro quiet_frame) (simp add: rel_def quiet_def core_def)

lemma quiet_dual_check [quiet_frame]: "rel (quiet b) (dual_check X pat)"
  unfolding dual_check_def by (intro quiet_frame ok_fifo2 untracked) (simp add: reg_consts)

lemma quiet_calibrate: "rel (quiet True) (dual_calibrate X)"
proof -
  have "rel (quiet True) (modify (\<lambda>s. s\<lparr>fg_dual_ok := b\<rparr>))" for b
    by (simp add: rel_def quiet_def core_def)
  then show ?thesis
    unfolding dual_calibrate_def try_point_def by (intro quiet_frame untracked)
qed

lemma ok_calibrated: "fpga_ok s \<Longrightarrow> fg_hw s \<Longrightarrow> quiet True s s' \<Longrightarrow> fpga_ok s'"
  by (auto simp: fpga_ok_def in_step_def quiet_def core_def tracked_def maxwait_register_def)

lemma ok_set_dual [ok_frame]: "rel keeps_ok (fpga_set_dual X b)"
proof (rule relI)
  fix s s' r assume run: "run (fpga_set_dual X b) s = (r, s')"
  consider "\<not> b" "s' = s\<lparr>fg_dual_ok := False\<rparr>" | "s' = s"
    | "fg_hw s" "run (fpga_locked (dual_calibrate X)) s = (r, s')"
    using run by (auto simp: fpga_set_dual_def if_do_def split: if_splits)
  then show "keeps_ok s s'"
  proof cases
    case 3
    have "rel (quiet True) (fpga_locked (dual_calibrate X))" by (intro quiet_frame quiet_calibrate)
    from relD [OF this 3(2)] show ?thesis using ok_calibrated 3(1) by (auto simp: keeps_ok_def)
  qed (auto simp: keeps_ok_def fpga_ok_def in_step_def)
qed

lemma ok_invalidate [ok_frame]: "rel keeps_ok fpga_invalidate"
  by (auto simp: fpga_invalidate_def shadows_reset_def if_do_def link_put_def rel_def keeps_ok_def fpga_ok_def in_step_def)

section \<open>A fabric that has not answered\<close>

text \<open>\<open>idle_step\<close>: the operation does not change whether the fabric is ready, and writes no register of one that is
  not. \<open>steady\<close>: nothing but the link, its counters and the dual-line setting changes.\<close>

definition idle_step :: "fpga \<Rightarrow> fpga \<Rightarrow> bool" where
  "idle_step s s' \<longleftrightarrow> fg_ready s' = fg_ready s \<and>
     (\<not> fg_ready s \<longrightarrow> (\<forall>r \<in> tracked. register (fg_link s') r = register (fg_link s) r))"

definition steady :: "fpga \<Rightarrow> fpga \<Rightarrow> bool" where
  "steady s s' \<longleftrightarrow> core s' = core s"

interpretation steady: preorder_frame steady
  by unfold_locales (auto simp: steady_def)

named_theorems steady_frame \<open>transfers\<close>

lemmas [steady_frame] = steady.rules

lemma steady_quiet [steady_frame]:
  "rel steady (link_time X)" "rel steady count_poll" "rel steady (reg_read X a n)" "rel steady (reg_read8 X a)"
  "rel steady (link_put (LinkYield n))" "rel steady (modify (\<lambda>s. s\<lparr>fg_hung := c\<rparr>))" "rel steady (fifo2_read X want)"
  by (rule rel_mono [of "quiet False"], (rule quiet_frame ok_fifo2; simp), simp add: quiet_def steady_def)+

lemma steady_write [steady_frame]: "rel steady (reg_write X a bs)"
proof (cases "length bs < TX_BYTES")
  case True
  then show ?thesis using run_write(1) by (intro relI) (simp add: steady_def)
next
  case False
  then have "reg_write X a bs = do { c0 \<leftarrow> link_ask LinkCycles (x_cycles X); ret ESP_ERR_INVALID_SIZE }"
    by (simp add: reg_write_def xfer_write_def)
  then show ?thesis by (simp add: rel_def steady_def core_def link_ask_def link_put_def)
qed

lemma steady_frames [steady_frame]:
  "rel steady (reg_write8 X a v)" "rel steady (load_frame_lead X cmd lf data n rb parcels lead go)"
  "rel steady (load_frame_parcels X cmd lf data n rb parcels go)" "rel steady (load_frame X cmd lf data n rb go)"
  "rel steady (queue_block X blk first)"
  unfolding reg_write8_def load_frame_def load_frame_parcels_def load_frame_lead_def queue_block_def
  by (intro steady_frame)+

lemma idle_guarded:
  assumes "rel steady m" "\<And>s. \<not> fg_ready s \<Longrightarrow> snd (run m s) = s" shows "rel idle_step m"
  using assms by (auto simp: rel_def idle_step_def steady_def core_def)

lemma idle_quiet: "rel (quiet b) m \<Longrightarrow> rel idle_step m"
  by (erule rel_mono) (auto simp: quiet_def idle_step_def core_def)

interpretation idle: preorder_frame idle_step
  by unfold_locales (auto simp: idle_step_def)

lemma idle_locked: "rel idle_step m \<Longrightarrow> rel idle_step (fpga_locked m)"
proof -
  assume "rel idle_step m"
  moreover have "rel idle_step (link_put LinkTake)" "rel idle_step (link_put LinkGive)"
    by (rule idle_quiet [of False], rule quiet_put; simp)+
  ultimately show ?thesis unfolding fpga_locked_def by (intro idle.bind idle.return)
qed

lemma steady_wait_done [steady_frame]: "rel steady (wait_done X)"
proof -
  have "rel steady (wait_done_loop X k start deadline)" for k start deadline
    by (induction k) (auto intro!: steady_frame)
  then show "rel steady (wait_done X)" unfolding wait_done_def by (intro steady_frame)
qed

lemma steady_chain [steady_frame]: "rel steady (blockread_chain_locked X blocks)"
proof -
  have "rel steady (chain_dual_loop X blocks bytes deadline k acc next_blk chunk idle)" for bytes deadline k acc next_blk chunk idle
    by (induction k arbitrary: acc next_blk chunk idle) (simp_all only: chain_dual_loop.simps, (intro steady_frame | assumption | simp)+)
  moreover have "rel steady (chain_loop X blocks bytes deadline k acc next_blk)" for bytes deadline k acc next_blk
    by (induction k arbitrary: acc next_blk) (simp_all only: chain_loop.simps, (intro steady_frame | assumption | simp)+)
  ultimately show ?thesis
    unfolding blockread_chain_locked_def blockread_chain_dual_def by (intro steady_frame)
qed

lemma idle_operations:
  "rel idle_step (fpga_exchange X cmd lf data n rb want)" "rel idle_step (fpga_blockread_chain X blocks)"
  "rel idle_step (fpga_blockread X payload bits count)" "rel idle_step (fpga_block_write X a ws)"
proof -
  have chain: "rel idle_step (blockread_chain_locked X bs)" for bs
    by (rule idle_guarded, rule steady_chain) (simp add: blockread_chain_locked_def)
  have exchange: "rel steady (exchange_locked X cmd lf data n rb want)" "rel steady (block_write_locked X a ws)"
    unfolding exchange_locked_def block_write_locked_def by (intro steady_frame)+
  show "rel idle_step (fpga_exchange X cmd lf data n rb want)" "rel idle_step (fpga_block_write X a ws)"
    unfolding fpga_exchange_def fpga_block_write_def
    by (rule idle_locked, rule idle_guarded, rule exchange, simp add: exchange_locked_def block_write_locked_def)+
  show "rel idle_step (fpga_blockread_chain X blocks)" "rel idle_step (fpga_blockread X payload bits count)"
    unfolding fpga_blockread_chain_def fpga_blockread_def by (intro idle_locked chain)+
qed

lemma idle_if_ready: "(\<And>s. fg_ready (snd (run m s)) = fg_ready s) \<Longrightarrow> rel idle_step (if_ready m)"
  by (auto simp: if_ready_def rel_def idle_step_def)

lemma ready_write: "fg_ready (snd (run (reg_write X a bs) s)) = fg_ready s"
  using steady_write [of X a bs] by (simp add: rel_def steady_def core_def)

lemma idle_settings:
  "rel idle_step (fpga_set_trst X b)" "rel idle_step (fpga_set_raw_window X b)" "rel idle_step (fpga_set_wide X b)"
  "rel idle_step (fpga_set_rx_wide X b)" "rel idle_step (fpga_set_fast b)" "rel idle_step (fpga_set_chain_lead clocks)"
  "rel idle_step (fpga_use b)" "rel idle_step (fpga_set_div X dv)" "rel idle_step (fpga_set_trail X clocks)"
  "rel idle_step (fpga_set_skew X t1 t2)" "rel idle_step (fpga_set_fast_timing X lag e1 e2)"
  "rel idle_step (fpga_set_maxwait X w)"
proof -
  have "rel idle_step (write_flag X flag on)" for flag on
    by (auto simp: rel_def idle_step_def write_flag_def reg_write8_def ready_write)
  then show "rel idle_step (fpga_set_trst X b)" "rel idle_step (fpga_set_raw_window X b)" "rel idle_step (fpga_set_wide X b)"
    "rel idle_step (fpga_set_rx_wide X b)"
    by (simp_all add: fpga_set_trst_def fpga_set_raw_window_def fpga_set_wide_def fpga_set_rx_wide_def)
  show "rel idle_step (fpga_set_fast b)" "rel idle_step (fpga_set_div X dv)" "rel idle_step (fpga_set_trail X clocks)"
    "rel idle_step (fpga_set_maxwait X w)"
    unfolding fpga_set_fast_def fpga_set_div_def fpga_set_trail_def fpga_set_maxwait_def reg_write8_def
    by (rule idle_if_ready, simp add: split_beta ready_write)+
  show "rel idle_step (fpga_set_chain_lead clocks)" "rel idle_step (fpga_use b)"
    by (simp_all add: fpga_set_chain_lead_def fpga_use_def rel_def idle_step_def)
  show "rel idle_step (fpga_set_skew X t1 t2)" "rel idle_step (fpga_set_fast_timing X lag e1 e2)"
    unfolding fpga_set_skew_def fpga_set_fast_timing_def Let_def reg_write8_def
    by (intro idle.rules idle_if_ready, simp add: split_beta ready_write)+
qed

lemma idle_set_dual: "rel idle_step (fpga_set_dual X b)"
proof -
  have "rel (quiet True) (fpga_locked (dual_calibrate X))" by (intro quiet_frame quiet_calibrate)
  then have "rel idle_step (fpga_locked (dual_calibrate X))" by (rule idle_quiet)
  moreover have "rel idle_step (modify (\<lambda>s. s\<lparr>fg_dual_ok := False\<rparr>))" by (simp add: rel_def idle_step_def)
  ultimately show ?thesis unfolding fpga_set_dual_def by (intro idle.rules)
qed

section \<open>Bring-up\<close>

definition fresh_registers :: "fpga \<Rightarrow> bool" where
  "fresh_registers s \<longleftrightarrow> (\<forall>r \<in> tracked - {REG_TRAIL}. register (fg_link s) r = reset_value r)"

definition fpga_inv :: "fpga \<Rightarrow> bool" where
  "fpga_inv s \<longleftrightarrow> fpga_ok s \<and> (\<not> fg_ready s \<longrightarrow> fresh_registers s)"

text \<open>While the fabric is being probed: the settings are those of a reset, \<open>up\<close> says whether it has answered.\<close>

definition probing :: "bool \<Rightarrow> fpga \<Rightarrow> bool" where
  "probing up s \<longleftrightarrow> fg_dev s \<and> fg_ready s = up \<and> fg_hw s = up \<and> \<not> fg_in_use s \<and> \<not> fg_dual_ok s \<and> fg_chain_lead s \<le> 63 \<and>
     fg_flags s = 0 \<and> fg_trail s = 1 \<and> fg_skew s = 0 \<and> fg_maxwait s = 256 \<and> fresh_registers s"

lemma probing_quiet: "rel (quiet False) m \<Longrightarrow> triple (probing up) m (\<lambda>_. probing up)"
  by (erule of_rel) (auto simp: probing_def quiet_def core_def fresh_registers_def)

lemma probing_trail: "triple (probing up) (reg_write8 X REG_TRAIL v) (\<lambda>_ s. probing up s \<and> register (fg_link s) REG_TRAIL = v)"
proof (rule tripleI)
  fix s err s' assume p: "probing up s" and run: "run (reg_write8 X REG_TRAIL v) s = (err, s')"
  have "REG_TRAIL < 0x40" by (simp add: reg_consts)
  note reg = other_registers [OF run this]
  have "fresh_registers s'" using p by (simp add: probing_def fresh_registers_def reg)
  then show "probing up s' \<and> register (fg_link s') REG_TRAIL = v"
    using p core_write8 [OF run] by (simp add: probing_def core_def reg)
qed

lemma probing_answers: "triple (probing False) (answers_trail X vs) (\<lambda>_. probing False)"
proof (induction vs)
  case (Cons v vs)
  have w: "triple (probing False) (reg_write8 X REG_TRAIL v) (\<lambda>_. probing False)"
    by (rule triple_post [OF probing_trail]) simp
  have r: "triple (probing False) (reg_read8 X REG_TRAIL) (\<lambda>_. probing False)"
    by (intro probing_quiet quiet_frame)
  show ?case
    unfolding answers_trail.simps
    by (rule triple_bind [OF w], rule triple_if, rule triple_return, assumption, rule triple_bind [OF r], rule triple_if,
        rule triple_return, assumption, rule Cons.IH)
qed (simp add: triple_def)

lemma quiet_check_ports: "rel (quiet True) (check_ports X channels)"
proof -
  have m: "rel (quiet True) (modify (\<lambda>s. s\<lparr>fg_dma_ok := b\<rparr>))" "rel (quiet True) (modify (\<lambda>s. s\<lparr>fg_dma_min := n\<rparr>))"
    "rel (quiet True) (modify (\<lambda>s. s\<lparr>fg_dual_ok := b\<rparr>))" for b n
    by (simp_all add: rel_def quiet_def core_def)
  have w: "rel (quiet True) (reg_write X REG_DATA [0x11, 0x22, 0x33, 0x44, 0x55, 0x66, 0x77, 0x88])"
    "rel (quiet True) (reg_write X REG_TESTPUSH bs)" for bs
    by (intro quiet_frame, simp add: tracked_def reg_consts unsigned_minus_1_eq_mask mask_eq_exp_minus_1)+
  show ?thesis
    unfolding check_ports_def dma_reads_back_def
    by (intro quiet_frame m w quiet_calibrate untracked)
qed

lemma brought_up:
  "triple (probing True) (do {
     reg_write8 X REG_TRAIL 1;
     reg_write8 X REG_CTRL CTRL_CLEAR_FIFO;
     back \<leftarrow> reg_read8 X REG_TRAIL;
     (if back \<noteq> 1 then modify (\<lambda>s. s\<lparr>fg_hw := False\<rparr>) else check_ports X channels);
     ret ESP_OK }) (\<lambda>_. fpga_inv)"
proof -
  let ?P = "\<lambda>s. probing True s \<and> register (fg_link s) REG_TRAIL = 1"
  have keep: "triple ?P m (\<lambda>_. ?P)" if "rel (quiet False) m" for m :: "(fpga, 'r) state"
    using that by (rule of_rel) (auto simp: probing_def quiet_def core_def fresh_registers_def tracked_def)
  have ok: "fpga_ok s \<and> fg_ready s \<and> fg_hw s \<and> \<not> fg_dual_ok s" if "?P s" for s
  proof -
    have f: "register (fg_link s) REG_SKEW = 0" "register (fg_link s) REG_FLAGS = 0"
      "register (fg_link s) REG_MAXWAIT = 0" "register (fg_link s) (REG_MAXWAIT + 1) = 1"
      using that by (simp_all add: probing_def fresh_registers_def tracked_def reset_value_def reg_consts)
    have "maxwait_register (fg_link s) = 256" by (simp add: maxwait_register_def f)
    then show ?thesis using that f by (simp add: probing_def fpga_ok_def in_step_def)
  qed
  have ports: "triple ?P (check_ports X channels) (\<lambda>_. fpga_inv)"
  proof (rule tripleI)
    fix s r s' assume p: "?P s" and run: "run (check_ports X channels) s = (r, s')"
    have q: "quiet True s s'" using relD [OF quiet_check_ports run] .
    have "fpga_ok s'" using ok_calibrated [OF _ _ q] ok [OF p] by blast
    moreover have "fg_ready s'" using q ok [OF p] by (simp add: quiet_def core_def)
    ultimately show "fpga_inv s'" by (simp add: fpga_inv_def)
  qed
  have off: "triple ?P (modify (\<lambda>s. s\<lparr>fg_hw := False\<rparr>)) (\<lambda>_. fpga_inv)"
  proof (rule triple_modify)
    fix s assume "?P s"
    from ok [OF this] show "fpga_inv (s\<lparr>fg_hw := False\<rparr>)" by (simp add: fpga_inv_def fpga_ok_def in_step_def)
  qed
  show ?thesis
    by (rule triple_bind [OF probing_trail], rule triple_bind [OF keep], intro quiet_frame untracked,
        rule triple_bind [OF keep], intro quiet_frame, rule triple_bind, rule triple_if, rule off, rule ports, rule triple_return)
qed

lemma inv_init: "rel (\<lambda>s s'. fpga_inv s \<longrightarrow> fpga_inv s') (fpga_init X channels)"
proof -
  let ?P = "\<lambda>s. fpga_inv s \<and> \<not> fg_ready s"
  have keep: "triple ?P m (\<lambda>_. ?P)" if "rel (quiet False) m" for m :: "(fpga, 'r) state"
    using that
  proof (rule of_rel)
    fix s s' assume "quiet False s s'" "?P s"
    then show "?P s'" using ok_quiet [of s s'] by (auto simp: fpga_inv_def fresh_registers_def quiet_def core_def)
  qed
  let ?opened = "\<lambda>s. fg_dev s \<and> \<not> fg_ready s \<and> \<not> fg_hw s \<and> \<not> fg_in_use s \<and> \<not> fg_dual_ok s \<and> fg_chain_lead s \<le> 63 \<and>
    fresh_registers s"
  have opened: "triple ?P (modify (\<lambda>s. s\<lparr>fg_dev := True\<rparr>)) (\<lambda>_. ?opened)"
    "triple ?opened shadows_reset (\<lambda>_. probing False)"
    by (auto simp: triple_def shadows_reset_def fpga_inv_def probing_def fpga_ok_def fresh_registers_def)
  have failed: "triple (probing False) (do { link_put LinkRelease; modify (\<lambda>s. s\<lparr>fg_dev := False\<rparr>); ret ESP_ERR_NOT_FOUND })
      (\<lambda>_. fpga_inv)"
    by (simp add: triple_def link_put_def fpga_inv_def fpga_ok_def probing_def in_step_def fresh_registers_def)
  have up: "triple (probing False) (modify (\<lambda>s. s\<lparr>fg_ready := True, fg_hw := True\<rparr>)) (\<lambda>_. probing True)"
    by (intro triple_modify) (simp add: probing_def fresh_registers_def)
  have q: "rel (quiet False) (link_ask LinkBus f)" "rel (quiet False) (link_ask LinkDevice f)" for f :: "link_ev list \<Rightarrow> esp_err"
    by (rule quiet_put; simp)+
  have "triple ?P (do {
       err \<leftarrow> link_ask LinkBus (x_err X);
       if err \<noteq> ESP_OK \<and> err \<noteq> ESP_ERR_INVALID_STATE then ret err
       else do {
         err \<leftarrow> link_ask LinkDevice (x_err X);
         if err \<noteq> ESP_OK then ret err
         else do {
           modify (\<lambda>s. s\<lparr>fg_dev := True\<rparr>);
           shadows_reset;
           answered \<leftarrow> answers_trail X [0x5A, 0xA5, 0x2C];
           if \<not> answered then do {
             link_put LinkRelease;
             modify (\<lambda>s. s\<lparr>fg_dev := False\<rparr>);
             ret ESP_ERR_NOT_FOUND }
           else do {
             modify (\<lambda>s. s\<lparr>fg_ready := True, fg_hw := True\<rparr>);
             reg_write8 X REG_TRAIL 1;
             reg_write8 X REG_CTRL CTRL_CLEAR_FIFO;
             back \<leftarrow> reg_read8 X REG_TRAIL;
             (if back \<noteq> 1 then modify (\<lambda>s. s\<lparr>fg_hw := False\<rparr>) else check_ports X channels);
             ret ESP_OK } } } }) (\<lambda>_. fpga_inv)" (is "triple ?P ?body _")
    by (rule triple_bind [OF keep [OF q(1)]], rule triple_if, rule triple_return, simp, rule triple_bind [OF keep [OF q(2)]],
        rule triple_if, rule triple_return, simp, rule triple_bind [OF opened(1)], rule triple_bind [OF opened(2)],
        rule triple_bind [OF probing_answers],
        rule triple_if, rule failed, rule triple_bind [OF up], rule brought_up)
  moreover have "fpga_init X channels = do { ready \<leftarrow> gets fg_ready; if ready then ret ESP_OK else ?body }"
    by (simp add: fpga_init_def)
  ultimately show ?thesis
    by (auto simp: rel_def triple_def split: prod.splits)
qed

section \<open>Every state of the link\<close>

datatype fpga_op =
    OpInit bool | OpInvalidate | OpUse bool | OpDiv u8 | OpTrail u8 | OpMaxwait u16
  | OpTrst bool | OpRawWindow bool | OpWide bool | OpRxWide bool | OpSkew u8 u8
  | OpFast bool | OpFastTiming u8 bool bool | OpChainLead u8 | OpDual bool
  | OpExchange u8 u8 u64 nat nat bool | OpChain "fpga_block list" | OpRead u64 nat nat | OpWrite u32 "u32 list"
  | OpLastWait | OpStats bool

fun fpga_do :: "fabric \<Rightarrow> fpga_op \<Rightarrow> fpga \<Rightarrow> fpga" where
  "fpga_do X (OpInit channels) s = final (fpga_init X channels) s"
| "fpga_do X OpInvalidate s = final fpga_invalidate s"
| "fpga_do X (OpUse b) s = final (fpga_use b) s"
| "fpga_do X (OpDiv dv) s = final (fpga_set_div X dv) s"
| "fpga_do X (OpTrail n) s = final (fpga_set_trail X n) s"
| "fpga_do X (OpMaxwait n) s = final (fpga_set_maxwait X n) s"
| "fpga_do X (OpTrst b) s = final (fpga_set_trst X b) s"
| "fpga_do X (OpRawWindow b) s = final (fpga_set_raw_window X b) s"
| "fpga_do X (OpWide b) s = final (fpga_set_wide X b) s"
| "fpga_do X (OpRxWide b) s = final (fpga_set_rx_wide X b) s"
| "fpga_do X (OpSkew t1 t2) s = final (fpga_set_skew X t1 t2) s"
| "fpga_do X (OpFast b) s = final (fpga_set_fast b) s"
| "fpga_do X (OpFastTiming lag e1 e2) s = final (fpga_set_fast_timing X lag e1 e2) s"
| "fpga_do X (OpChainLead n) s = final (fpga_set_chain_lead n) s"
| "fpga_do X (OpDual b) s = final (fpga_set_dual X b) s"
| "fpga_do X (OpExchange cmd lf data n rb want) s = final (fpga_exchange X cmd lf data n rb want) s"
| "fpga_do X (OpChain blocks) s = final (fpga_blockread_chain X blocks) s"
| "fpga_do X (OpRead payload bits count) s = final (fpga_blockread X payload bits count) s"
| "fpga_do X (OpWrite a ws) s = final (fpga_block_write X a ws) s"
| "fpga_do X OpLastWait s = final (fpga_last_wait X) s"
| "fpga_do X (OpStats b) s = final (fpga_stats b) s"

text \<open>The static variables as the image starts, and the states the operations lead to.\<close>

definition fpga_boot :: fpga where
  "fpga_boot = \<lparr>fg_link = [], fg_hung = False, fg_dev = False, fg_ready = False, fg_in_use = False, fg_hw = False,
     fg_dma_min = DMA_MIN_BYTES, fg_dma_ok = False, fg_dual_ok = False, fg_dual_dummy = 8, fg_din_mode = 0, fg_din_num = 0,
     fg_flags = 0, fg_trail = 1, fg_lead = 2, fg_skew = 0, fg_maxwait = 256, fg_fast = False, fg_chain_lead = 2,
     fg_xfers = 0, fg_xfer_bytes = 0, fg_polls = 0, fg_cycles = 0\<rparr>"

text \<open>A fabric that returns the registers as they were written, reports every frame done and four bytes in the FIFO, and
  takes a microsecond for everything.\<close>

definition echo_fabric :: fabric where
  "echo_fabric = \<lparr>x_done = \<lambda>_. True, x_err = \<lambda>_. ESP_OK,
     x_byte = \<lambda>h i. (case h of
         LinkRead path a n # h' \<Rightarrow>
           if a = REG_STATUS then (if i = 0 then ST_DONE OR ST_CRC_OK else if i = 13 then 4 else 0)
           else register h' (a + of_nat i)
       | _ \<Rightarrow> 0),
     x_time = \<lambda>h. int (length h), x_cycles = \<lambda>_. 0, x_din_mode = 0, x_din_num = 0, x_rounds = 1000000\<rparr>"

inductive fpga_reaches :: "fabric \<Rightarrow> fpga \<Rightarrow> bool" for X where
  boot: "fpga_reaches X fpga_boot"
| step: "fpga_reaches X s \<Longrightarrow> fpga_reaches X (fpga_do X op s)"

lemma inv_of_idle:
  assumes "rel keeps_ok m" "rel idle_step m" shows "rel (\<lambda>s s'. fpga_inv s \<longrightarrow> fpga_inv s') m"
  using assms by (auto simp: rel_def keeps_ok_def idle_step_def fpga_inv_def fresh_registers_def)

lemma inv_do: "fpga_inv s \<Longrightarrow> fpga_inv (fpga_do X op s)"
proof -
  have final: "fpga_inv s \<Longrightarrow> fpga_inv (final m s)" if "rel (\<lambda>s s'. fpga_inv s \<longrightarrow> fpga_inv s') m" for m :: "(fpga, 'r) state"
    using that by (simp add: rel_def final_def)
  have ok: "rel keeps_ok (fpga_exchange X cmd lf data n rb want)" "rel keeps_ok (fpga_blockread_chain X blocks)"
    "rel keeps_ok (fpga_blockread X payload bits count)" "rel keeps_ok (fpga_block_write X a ws)"
    for cmd lf data n rb want blocks payload bits count a ws
    unfolding fpga_exchange_def fpga_blockread_chain_def fpga_blockread_def fpga_block_write_def by (intro ok_frame)+
  have read: "rel (quiet False) (fpga_last_wait X)"
    unfolding fpga_last_wait_def by (intro quiet_frame)
  have stats: "rel (quiet False) (fpga_stats b)" for b
    unfolding fpga_stats_def by (intro quiet_frame) (simp add: rel_def quiet_def core_def)
  have gone: "rel (\<lambda>s s'. fpga_inv s \<longrightarrow> fpga_inv s') fpga_invalidate"
    using ok_invalidate
    by (auto simp: rel_def keeps_ok_def fpga_inv_def fresh_registers_def fpga_ok_def fpga_invalidate_def shadows_reset_def if_do_def link_put_def)
  show "fpga_inv s \<Longrightarrow> ?thesis"
    by (cases op; simp only: fpga_do.simps; erule final [rotated])
      (rule inv_init gone inv_of_idle ok_frame ok idle_operations idle_settings idle_set_dual ok_of_quiet idle_quiet read stats)+
qed

text \<open>C24: (The registers and their shadows.) In every state any sequence of the module's operations leads to, from the
  image's start and whatever the link and the fabric answer: if the fabric is ready, the registers TRAIL and SKEW were
  last written with what the file's shadows hold, FLAGS with its shadow, with or without the two fast bits, and MAXWAIT
  with its shadow or twice that, so the burst of a frame never undoes a setting; a fabric in use is ready, a ready
  fabric has its device, the register-level path and the dual-line reads are on only on top of it. And the burst of every
  frame leaves exactly: TRAIL and SKEW as the shadows say, LEAD as the frame asked (the file's lead, or the chain's for
  a block after the first), and FLAGS and MAXWAIT as the shadows say, with the fast bits and doubled exactly if fast
  mode is on and the frame fits a raw one (44 data bits, 40 in wide mode).\<close>

theorem fpga_well_formed:
  assumes "fpga_reaches X s"
  shows "fpga_ok s \<and>
    (let h = fg_link (final (load_frame_lead X cmd lf data n rb parcels lead go) s)
     in register h REG_TRAIL = fg_trail s \<and> register h REG_SKEW = fg_skew s \<and> register h REG_LEAD = lead \<and>
        register h REG_FLAGS = (if goes_fast s n then fg_flags s OR FAST_FLAGS else fg_flags s) \<and>
        maxwait_register h = (if goes_fast s n then doubled (fg_maxwait s) else fg_maxwait s)) \<and>
    register (fg_link (final (load_frame X cmd lf data n rb go) s)) REG_LEAD = fg_lead s \<and>
    register (fg_link (final (queue_block X blk first) s)) REG_LEAD = (if first then fg_lead s else fg_chain_lead s)"
proof -
  have load: "run (load_frame_lead X cmd lf data n rb parcels lead go) s =
      (fst (run (load_frame_lead X cmd lf data n rb parcels lead go) s), final (load_frame_lead X cmd lf data n rb parcels lead go) s)"
    for cmd lf data n rb parcels lead go by (simp add: final_def)
  note regs = load_frame_registers [OF load]
  have "fpga_inv s"
    using assms
  proof induction
    case boot
    show ?case
      by (simp add: fpga_inv_def fpga_ok_def in_step_def fresh_registers_def fpga_boot_def)
  qed (rule inv_do)
  moreover have "final (load_frame X cmd lf data n rb go) s = final (load_frame_lead X cmd lf data n rb 0 (fg_lead s) go) s"
    by (simp add: load_frame_def load_frame_parcels_def final_def)
  moreover have "register (fg_link (final (queue_block X blk first) s)) REG_LEAD = (if first then fg_lead s else fg_chain_lead s)"
    using regs(3) [unfolded final_def] by (simp add: queue_block_def final_def)
  ultimately show ?thesis using regs by (simp add: fpga_inv_def Let_def)
qed

lemma fpga_well_formed_witness: "fpga_ok (fpga_do echo_fabric (OpTrail 3) (fpga_do echo_fabric (OpInit True) fpga_boot))"
  by (rule fpga_well_formed [of echo_fabric, THEN conjunct1]) (intro fpga_reaches.intros)

end
