(* ===== verification/Fpga_Chain.thy ===== *)
theory Fpga_Chain
  imports Fpga_State
begin

unbundle bit_operations_syntax

text \<open>
  Chains of block reads: the bytes stored are the bytes the FIFO delivers and the blocks are started in order
  (\<open>chain_post\<close>), no polling loop outlives its deadline (\<open>on_time\<close>), and the single-line drain never reads more than
  the FIFO holds (\<open>filled\<close>). \<open>at_link\<close> is the assertion the loops carry.
\<close>

section \<open>What a block read takes from the FIFO, and what it starts\<close>

text \<open>The bytes the reads of the FIFO ports delivered, and the frames loaded, oldest first.\<close>

definition level_prefix :: "u8 \<Rightarrow> u8 \<Rightarrow> nat" where
  "level_prefix b0 b1 = unat b0 + 256 * unat (b1 AND 0x07)"

fun taken :: "fabric \<Rightarrow> link_ev list \<Rightarrow> u8 list" where
  "taken X [] = []"
| "taken X (LinkRead path a n # h) = taken X h @
     (if a = REG_FIFO \<and> path_err X path (LinkRead path a n # h) = ESP_OK
      then map (x_byte X (LinkRead path a n # h)) [0..<n] else [])"
| "taken X (LinkDual dummy mode num n # h) = taken X h @
     (let h' = LinkDual dummy mode num n # h; rx = map (x_byte X h') [0..<n]
      in if n \<le> LL_CHUNK \<or> x_done X h' then take (min (level_prefix (rx ! 0) (rx ! 1)) (n - 2)) (drop 2 rx) else [])"
| "taken X (_ # h) = taken X h"

fun bursts :: "link_ev list \<Rightarrow> u8 list list" where
  "bursts [] = []"
| "bursts (LinkWrite path a bs # h) = bursts h @ (if a = REG_CMD then [bs] else [])"
| "bursts (_ # h) = bursts h"

definition block_burst :: "fpga \<Rightarrow> fpga_block \<Rightarrow> bool \<Rightarrow> u8 list" where
  "block_burst s b first = frame_burst s 0x0A (bk_payload_bits b) (bk_payload b) (unat (bk_payload_bits b)) 0
     (ucast (bk_count b - 1)) (if first then fg_lead s else fg_chain_lead s)
     (Some (if first then CTRL_CLEAR_FIFO OR CTRL_START_BLOCK else CTRL_START_BLOCK))"

text \<open>The bursts of the first \<open>k\<close> blocks of a chain.\<close>

definition chain_bursts :: "fpga \<Rightarrow> fpga_block list \<Rightarrow> nat \<Rightarrow> u8 list list" where
  "chain_bursts s blocks k = map (\<lambda>i. block_burst s (blocks ! i) (i = 0)) [0..<k]"

lemma frame_burst_core: "core s' = core s \<Longrightarrow> frame_burst s' cmd lf data n rb parcels lead go = frame_burst s cmd lf data n rb parcels lead go"
  by (simp add: frame_burst_def core_def)

lemma block_burst_core: "core s' = core s \<Longrightarrow> block_burst s' b first = block_burst s b first"
proof -
  assume c: "core s' = core s"
  then have "fg_lead s' = fg_lead s" "fg_chain_lead s' = fg_chain_lead s" by (simp_all add: core_def)
  then show "block_burst s' b first = block_burst s b first"
    by (simp only: block_burst_def frame_burst_core [OF c])
qed

text \<open>What neither takes from the FIFO nor loads a frame. \<open>E\<close> counts what happened on the link since.\<close>

definition silent :: "fabric \<Rightarrow> fpga \<Rightarrow> fpga \<Rightarrow> bool" where
  "silent X s s' \<longleftrightarrow> taken X (fg_link s') = taken X (fg_link s) \<and> bursts (fg_link s') = bursts (fg_link s) \<and>
     core s' = core s \<and> fg_hung s' = fg_hung s \<and> (\<exists>es. fg_link s' = es @ fg_link s)"

interpretation silent: preorder_frame "silent X" for X
  by unfold_locales (fastforce simp: silent_def)+

named_theorems silent_frame \<open>steps that take nothing from the FIFO\<close>

lemmas [silent_frame] = silent.rules

lemma silent_put:
  "\<lbrakk>\<forall>path a bs. e \<noteq> LinkWrite path a bs; \<forall>path a n. e \<noteq> LinkRead path a n; \<forall>d m u n. e \<noteq> LinkDual d m u n\<rbrakk> \<Longrightarrow> rel (silent X) (link_put e)"
  "\<lbrakk>\<forall>path a bs. e \<noteq> LinkWrite path a bs; \<forall>path a n. e \<noteq> LinkRead path a n; \<forall>d m u n. e \<noteq> LinkDual d m u n\<rbrakk> \<Longrightarrow> rel (silent X) (link_ask e f)"
  by (cases e; simp add: rel_def silent_def core_def link_ask_def link_put_def)+

lemma silent_small [silent_frame]:
  "rel (silent X) (link_time Y)" "rel (silent X) count_poll" "rel (silent X) (link_put (LinkYield n))"
  "rel (silent X) (link_put LinkTake)" "rel (silent X) (link_put LinkGive)" "rel (silent X) (count_xfer n)"
  "rel (silent X) (link_ask LinkCycles f)" "rel (silent X) (add_xfer_cycles Y c0)"
proof -
  show "rel (silent X) (link_time Y)" unfolding link_time_def by (rule silent_put) simp_all
  show "rel (silent X) count_poll" "rel (silent X) (count_xfer n)"
    by (simp_all add: rel_def silent_def core_def count_poll_def count_xfer_def)
  show "rel (silent X) (add_xfer_cycles Y c0)"
    by (simp add: rel_def silent_def core_def)
qed (rule silent_put; simp)+

lemma silent_read [silent_frame]: "a \<noteq> REG_FIFO \<Longrightarrow> rel (silent X) (reg_read Y a n)"
proof -
  assume a: "a \<noteq> REG_FIFO"
  have "rel (silent X) (link_ask (LinkRead path a n) f)" for path and f :: "link_ev list \<Rightarrow> esp_err \<times> u8 list"
    using a by (simp add: rel_def silent_def core_def link_ask_def link_put_def)
  then show ?thesis unfolding reg_read_def xfer_read_def by (intro silent_frame)
qed

lemma silent_write8 [silent_frame]: "a \<noteq> REG_CMD \<Longrightarrow> rel (silent X) (reg_write8 Y a v)"
proof -
  assume a: "a \<noteq> REG_CMD"
  have "rel (silent X) (link_ask (LinkWrite path a bs) f)" for path bs and f :: "link_ev list \<Rightarrow> esp_err"
    using a by (simp add: rel_def silent_def core_def link_ask_def link_put_def)
  then show ?thesis unfolding reg_write8_def reg_write_def xfer_write_def by (intro silent_frame)
qed

text \<open>Where a chain stands: the settings, whether a loop gave up, what was taken and loaded so far, and at least \<open>n\<close>
  steps since the history was \<open>h0\<close>.\<close>

definition at_link ::
  "fabric \<Rightarrow> fpga \<Rightarrow> bool \<Rightarrow> link_ev list \<Rightarrow> u8 list \<Rightarrow> u8 list list \<Rightarrow> nat \<Rightarrow> fpga \<Rightarrow> bool" where
  "at_link X s0 b h0 T B n s \<longleftrightarrow> core s = core s0 \<and> fg_hung s = b \<and> taken X (fg_link s) = T \<and> bursts (fg_link s) = B \<and>
     (\<exists>es. fg_link s = es @ h0 \<and> n \<le> length es)"

lemma at_link_put:
  assumes "at_link X s0 b h0 T B n s" "taken X (e # fg_link s) = taken X (fg_link s) @ t" "bursts (e # fg_link s) = bursts (fg_link s) @ l"
  shows "at_link X s0 b h0 (T @ t) (B @ l) n (s\<lparr>fg_link := e # fg_link s\<rparr>)"
proof -
  from assms(1) obtain es where "fg_link s = es @ h0" "n \<le> length es" by (auto simp: at_link_def)
  then have "e # fg_link s = (e # es) @ h0" "n \<le> length (e # es)" by simp_all
  then show ?thesis using assms by (auto simp: at_link_def core_def simp del: append_Cons)
qed

lemma at_silent: "rel (silent X) m \<Longrightarrow> triple (at_link X s0 b h0 T B n) m (\<lambda>_. at_link X s0 b h0 T B n)"
proof (erule of_rel)
  fix s s' assume s: "silent X s s'" "at_link X s0 b h0 T B n s"
  then obtain es es' where "fg_link s = es @ h0" "n \<le> length es" "fg_link s' = es' @ fg_link s"
    by (auto simp: at_link_def silent_def)
  then have "fg_link s' = (es' @ es) @ h0" "n \<le> length (es' @ es)" by simp_all
  then show "at_link X s0 b h0 T B n s'" using s by (auto simp: at_link_def silent_def simp del: append_assoc)
qed

lemma at_time: "triple (at_link X s0 b h0 T B n) (link_time X)
    (\<lambda>now s. at_link X s0 b h0 T B n s \<and> (\<exists>es. fg_link s = es @ h0 \<and> Suc n \<le> length es \<and> now = x_time X (es @ h0)))"
proof (rule tripleI)
  fix s now s' assume a: "at_link X s0 b h0 T B n s" and run: "run (link_time X) s = (now, s')"
  from a obtain es where es: "fg_link s = es @ h0" "n \<le> length es" by (auto simp: at_link_def)
  have s': "s' = s\<lparr>fg_link := LinkTime # fg_link s\<rparr>" "now = x_time X (LinkTime # fg_link s)"
    using run by (simp_all add: link_time_def link_ask_def link_put_def)
  have "fg_link s' = (LinkTime # es) @ h0" "Suc n \<le> length (LinkTime # es)" "now = x_time X ((LinkTime # es) @ h0)"
    using es by (simp_all add: s')
  moreover have "at_link X s0 b h0 T B n s'" using at_link_put [OF a, of LinkTime "[]" "[]"] by (simp add: s'(1))
  ultimately show "at_link X s0 b h0 T B n s' \<and> (\<exists>es. fg_link s' = es @ h0 \<and> Suc n \<le> length es \<and> now = x_time X (es @ h0))"
    by blast
qed

lemma at_write: "length bs < TX_BYTES \<Longrightarrow> triple (at_link X s0 b h0 T B n) (reg_write Y REG_CMD bs) (\<lambda>_. at_link X s0 b h0 T (B @ [bs]) n)"
proof -
  assume "length bs < TX_BYTES"
  then have w: "reg_write Y REG_CMD bs = do {
      c0 \<leftarrow> link_ask LinkCycles (x_cycles Y);
      path \<leftarrow> gets (xfer_path (length bs + 1));
      err \<leftarrow> link_ask (LinkWrite path REG_CMD bs) (path_err Y path);
      count_xfer (length bs + 1);
      add_xfer_cycles Y c0;
      ret err }"
    by (simp add: reg_write_def xfer_write_def)
  have put: "triple (at_link X s0 b h0 T B n) (link_ask (LinkWrite path REG_CMD bs) f) (\<lambda>_. at_link X s0 b h0 T (B @ [bs]) n)"
    for path and f :: "link_ev list \<Rightarrow> esp_err"
    using at_link_put [of X s0 b h0 T B n _ "LinkWrite path REG_CMD bs" "[]" "[bs]"]
    by (simp add: triple_def link_ask_def link_put_def)
  note quiet = triple_bind [OF at_silent]
  show ?thesis
    unfolding w by (rule quiet, intro silent_frame, rule quiet, intro silent_frame, rule triple_bind [OF put], intro quiet silent_frame triple_return)
qed

lemma at_queue: "triple (at_link X s0 b h0 T B n) (queue_block Y blk first) (\<lambda>_. at_link X s0 b h0 T (B @ [block_burst s0 blk first]) n)"
proof (rule tripleI)
  fix s err s' assume a: "at_link X s0 b h0 T B n s" and run: "run (queue_block Y blk first) s = (err, s')"
  have c: "core s = core s0" using a by (simp add: at_link_def)
  have "run (reg_write Y REG_CMD (block_burst s blk first)) s = (err, s')"
    using run by (simp add: queue_block_def load_frame_lead_def block_burst_def)
  moreover have "length (block_burst s blk first) < TX_BYTES" by (simp add: block_burst_def length_frame_burst TX_BYTES_def)
  ultimately show "at_link X s0 b h0 T (B @ [block_burst s0 blk first]) n s'"
    using tripleD [OF at_write a, of "block_burst s blk first" Y err s'] block_burst_core [OF c] by simp
qed

lemma at_fifo: "k + 2 \<le> TX_BYTES \<Longrightarrow> triple (at_link X s0 b h0 T B n) (reg_read X REG_FIFO k)
    (\<lambda>(err, rx). \<lambda>s. at_link X s0 b h0 (T @ rx) B n s \<and> length rx = (if err = ESP_OK then k else 0))"
proof -
  assume "k + 2 \<le> TX_BYTES"
  then have r: "reg_read X REG_FIFO k = do {
      c0 \<leftarrow> link_ask LinkCycles (x_cycles X);
      path \<leftarrow> gets (xfer_path (k + 2));
      (err, rx) \<leftarrow> link_ask (LinkRead path REG_FIFO k) (\<lambda>h.
         let err = path_err X path h in (err, if err = ESP_OK then map (x_byte X h) [0..<k] else []));
      count_xfer (k + 2);
      add_xfer_cycles X c0;
      ret (err, rx) }"
    by (simp add: reg_read_def xfer_read_def)
  have put: "triple (at_link X s0 b h0 T B n) (link_ask (LinkRead path REG_FIFO k) (\<lambda>h.
         let err = path_err X path h in (err, if err = ESP_OK then map (x_byte X h) [0..<k] else [])))
      (\<lambda>(err, rx). \<lambda>s. at_link X s0 b h0 (T @ rx) B n s \<and> length rx = (if err = ESP_OK then k else 0))" for path
    using at_link_put [of X s0 b h0 T B n _ "LinkRead path REG_FIFO k" _ "[]"]
    by (simp add: triple_def link_ask_def link_put_def Let_def)
  note quiet = triple_bind [OF at_silent]
  have last: "triple (\<lambda>s. at_link X s0 b h0 (T @ rx) B n s \<and> length rx = (if err = ESP_OK then k else 0))
      (do { count_xfer (k + 2); add_xfer_cycles X c0; ret (err, rx) })
      (\<lambda>(err, rx). \<lambda>s. at_link X s0 b h0 (T @ rx) B n s \<and> length rx = (if err = ESP_OK then k else 0))" for err rx c0
  proof (rule tripleI)
    fix s r s' assume a: "at_link X s0 b h0 (T @ rx) B n s \<and> length rx = (if err = ESP_OK then k else 0)"
      and run: "run (do { count_xfer (k + 2); add_xfer_cycles X c0; ret (err, rx) }) s = (r, s')"
    have "rel (silent X) (do { count_xfer (k + 2); add_xfer_cycles X c0; ret (err, rx) })" by (intro silent_frame)
    from tripleD [OF at_silent [OF this] conjunct1 [OF a] run] a run show "(case r of (err, rx) \<Rightarrow> \<lambda>s.
        at_link X s0 b h0 (T @ rx) B n s \<and> length rx = (if err = ESP_OK then k else 0)) s'"
      by (auto simp: count_xfer_def)
  qed
  show ?thesis
    unfolding r by (rule quiet, intro silent_frame, rule quiet, intro silent_frame, rule triple_bind [OF put], rule triple_case_prod,
        hypsubst, simp only: prod.case, rule last)
qed

lemma run_dual:
  "run (ll_dual_read X m) s = (let e = LinkDual (fg_dual_dummy s) (fg_din_mode s) (fg_din_num s) m; h = e # fg_link s in
     if \<not> fg_dma_ok s \<and> m > LL_CHUNK then ((False, []), s)
     else ((m \<le> LL_CHUNK \<or> x_done X h, map (x_byte X h) [0..<m]), s\<lparr>fg_link := h\<rparr>))"
  by (simp add: ll_dual_read_def link_ask_def link_put_def Let_def not_le)

lemma at_dual: "triple (at_link X s0 b h0 T B n) (ll_dual_read X m) (\<lambda>(ok, rx). \<lambda>s. length rx \<le> m \<and>
    at_link X s0 b h0 (T @ (if ok then take (min (level_prefix (rx ! 0) (rx ! 1)) (m - 2)) (drop 2 rx) else [])) B n s)"
proof (rule tripleI)
  fix s r s' assume a: "at_link X s0 b h0 T B n s" and run: "run (ll_dual_read X m) s = (r, s')"
  let ?e = "LinkDual (fg_dual_dummy s) (fg_din_mode s) (fg_din_num s) m"
  let ?rx = "map (x_byte X (?e # fg_link s)) [0..<m]"
  let ?ok = "m \<le> LL_CHUNK \<or> x_done X (?e # fg_link s)"
  consider "r = (False, [])" "s' = s" | "r = (?ok, ?rx)" "s' = s\<lparr>fg_link := ?e # fg_link s\<rparr>"
    using run unfolding run_dual Let_def by (metis prod.inject)
  then show "(case r of (ok, rx) \<Rightarrow> \<lambda>s. length rx \<le> m \<and>
      at_link X s0 b h0 (T @ (if ok then take (min (level_prefix (rx ! 0) (rx ! 1)) (m - 2)) (drop 2 rx) else [])) B n s) s'"
  proof cases
    case 2
    have "at_link X s0 b h0 (T @ (if ?ok then take (min (level_prefix (?rx ! 0) (?rx ! 1)) (m - 2)) (drop 2 ?rx) else [])) (B @ []) n
        (s\<lparr>fg_link := ?e # fg_link s\<rparr>)"
      by (rule at_link_put [OF a]) (simp_all add: Let_def)
    then show ?thesis by (simp add: 2)
  qed (use a in simp)
qed

lemma at_fifo2: "triple (at_link X s0 b h0 T B n) (fifo2_read X want)
    (\<lambda>r s. case r of None \<Rightarrow> at_link X s0 b h0 T B n s
       | Some (took, level, st) \<Rightarrow> at_link X s0 b h0 (T @ took) B n s \<and> length took \<le> want)"
proof -
  have dual: "triple (at_link X s0 b h0 T B n) (ll_dual_read X (want + 2)) (\<lambda>(ok, rx). \<lambda>s. length rx \<le> want + 2 \<and>
      at_link X s0 b h0 (T @ (if ok then take (min (level_prefix (rx ! 0) (rx ! 1)) want) (drop 2 rx) else [])) B n s)"
    using at_dual [of X s0 b h0 T B n "want + 2"] by (simp only: diff_add_inverse2)
  have last: "triple (\<lambda>s. length rx \<le> want + 2 \<and>
      at_link X s0 b h0 (T @ (if ok then take (min (level_prefix (rx ! 0) (rx ! 1)) want) (drop 2 rx) else [])) B n s)
      (do {
         count_xfer (want + 2);
         add_xfer_cycles X c0;
         if \<not> ok then ret None
         else do {
           let lvl = unat (rx ! 0) + 256 * unat (rx ! 1 AND 0x07);
           let n = (if lvl < want then lvl else want);
           ret (Some (take n (drop 2 rx), lvl, rx ! 1)) } })
      (\<lambda>r s. case r of None \<Rightarrow> at_link X s0 b h0 T B n s
       | Some (took, level, st) \<Rightarrow> at_link X s0 b h0 (T @ took) B n s \<and> length took \<le> want)" for ok rx c0
  proof -
    let ?T = "T @ (if ok then take (min (level_prefix (rx ! 0) (rx ! 1)) want) (drop 2 rx) else [])"
    let ?P = "\<lambda>s. length rx \<le> want + 2 \<and> at_link X s0 b h0 ?T B n s"
    have keep: "triple ?P m (\<lambda>_. ?P)" if "rel (silent X) m" for m :: "(fpga, 'r) state"
      using at_silent [OF that, of s0 b h0 ?T B n] by (auto simp: triple_def)
    show ?thesis
      by (rule triple_bind [OF keep], intro silent_frame, rule triple_bind [OF keep], intro silent_frame)
        (auto simp: triple_def Let_def level_prefix_def min_def)
  qed
  note quiet = triple_bind [OF at_silent]
  show ?thesis
    unfolding fifo2_read_def
    by (rule quiet, intro silent_frame, rule quiet, intro silent_frame, rule triple_if, rule triple_return, simp,
        rule triple_bind [OF dual], rule triple_case_prod, hypsubst, simp only: prod.case, rule last)
qed

text \<open>At least a microsecond passes in \<open>r\<close> steps of the link.\<close>

definition link_clock :: "fabric \<Rightarrow> nat \<Rightarrow> bool" where
  "link_clock X r \<longleftrightarrow> 0 < r \<and> (\<forall>es h. x_time X (es @ h) \<ge> x_time X h + int (length es div r))"

text \<open>How a chain of block reads ends: the bytes stored are what came from the FIFO and at most \<open>full\<close>, all of them on
  success, and the first blocks were started, each once and in order.\<close>

definition chain_post ::
  "fabric \<Rightarrow> fpga \<Rightarrow> bool \<Rightarrow> bool \<Rightarrow> u8 list \<Rightarrow> u8 list list \<Rightarrow> fpga_block list \<Rightarrow> nat \<Rightarrow> esp_err \<times> u8 list \<Rightarrow> fpga \<Rightarrow> bool" where
  "chain_post X s0 live b T B blocks full r s \<longleftrightarrow> (\<exists>m \<le> length blocks.
     core s = core s0 \<and> taken X (fg_link s) = T @ snd r \<and> bursts (fg_link s) = B @ chain_bursts s0 blocks m \<and>
     length (snd r) \<le> full \<and> (fst r = ESP_OK \<longrightarrow> length (snd r) = full) \<and> (live \<longrightarrow> fg_hung s = b))"

definition chain_at ::
  "fabric \<Rightarrow> fpga \<Rightarrow> bool \<Rightarrow> link_ev list \<Rightarrow> u8 list \<Rightarrow> u8 list list \<Rightarrow> fpga_block list \<Rightarrow> nat \<Rightarrow> u8 list \<Rightarrow> nat \<Rightarrow> nat \<Rightarrow> fpga \<Rightarrow> bool" where
  "chain_at X s0 b h0 T B blocks full acc m n s \<longleftrightarrow> at_link X s0 b h0 (T @ acc) (B @ chain_bursts s0 blocks m) n s \<and>
     m \<le> length blocks \<and> length acc \<le> full"

lemma chain_ret:
  "err \<noteq> ESP_OK \<or> length acc = full \<Longrightarrow>
   triple (chain_at X s0 b h0 T B blocks full acc m n) (ret (err, acc)) (chain_post X s0 live b T B blocks full)"
  by (auto simp: triple_def chain_at_def at_link_def chain_post_def)

lemma chain_silent: "rel (silent X) m' \<Longrightarrow>
    triple (chain_at X s0 b h0 T B blocks full acc m n) m' (\<lambda>_. chain_at X s0 b h0 T B blocks full acc m n)"
  unfolding chain_at_def by (rule tripleI) (blast dest: at_silent tripleD)

lemma chain_gave_up:
  "\<not> live \<Longrightarrow> triple (chain_at X s0 b h0 T B blocks full acc m n) (do { modify (\<lambda>s. s\<lparr>fg_hung := True\<rparr>); ret (ESP_ERR_TIMEOUT, acc) })
     (chain_post X s0 live b T B blocks full)"
  by (auto simp: triple_def chain_at_def at_link_def chain_post_def core_def)

lemma chain_queue:
  "triple (chain_at X s0 b h0 T B blocks full acc m n)
     (if m < length blocks \<and> q then queue_block X (blocks ! m) False else ret ESP_OK)
     (\<lambda>_. chain_at X s0 b h0 T B blocks full acc (if m < length blocks \<and> q then m + 1 else m) n)"
  if "0 < m"
proof (cases "m < length blocks \<and> q")
  case True
  have "chain_bursts s0 blocks (m + 1) = chain_bursts s0 blocks m @ [block_burst s0 (blocks ! m) False]"
    using that by (simp add: chain_bursts_def)
  then show ?thesis
    using True at_queue [of X s0 b h0 "T @ acc" "B @ chain_bursts s0 blocks m" n X "blocks ! m" False]
    by (auto simp: triple_def chain_at_def)
qed (auto intro: triple_return)

lemma chain_fifo:
  assumes "0 < k" "length acc + k \<le> full" "k + 2 \<le> TX_BYTES"
  shows "triple (chain_at X s0 b h0 T B blocks full acc m n) (reg_read X REG_FIFO k)
    (\<lambda>(err, rx). \<lambda>s. chain_at X s0 b h0 T B blocks full (if err = ESP_OK then acc @ rx else acc) m n s \<and>
       (err = ESP_OK \<longrightarrow> length rx = k))"
proof (rule tripleI)
  fix s r s' assume c: "chain_at X s0 b h0 T B blocks full acc m n s" and run: "run (reg_read X REG_FIFO k) s = (r, s')"
  from c have "at_link X s0 b h0 (T @ acc) (B @ chain_bursts s0 blocks m) n s" by (simp add: chain_at_def)
  from tripleD [OF at_fifo [OF assms(3)] this run] c assms(2)
  show "(case r of (err, rx) \<Rightarrow> \<lambda>s. chain_at X s0 b h0 T B blocks full (if err = ESP_OK then acc @ rx else acc) m n s \<and>
       (err = ESP_OK \<longrightarrow> length rx = k)) s'"
    by (cases r) (auto simp: chain_at_def)
qed

text \<open>One step closer to the deadline: going on after the clock was read leaves less of it.\<close>

lemma at_clock:
  assumes "live \<Longrightarrow> link_clock X r \<and> deadline = x_time X h0 + int t"
  shows "triple (at_link X s0 b h0 T B n) (link_time X)
    (\<lambda>now s. if live \<and> now < deadline then Suc n \<le> r * t \<and> at_link X s0 b h0 T B (Suc n) s else at_link X s0 b h0 T B n s)"
proof (rule tripleI)
  fix s now s' assume a: "at_link X s0 b h0 T B n s" and run: "run (link_time X) s = (now, s')"
  from tripleD [OF at_time a run] obtain es where es: "at_link X s0 b h0 T B n s'"
      "fg_link s' = es @ h0" "Suc n \<le> length es" "now = x_time X (es @ h0)" by blast
  have "Suc n \<le> r * t" if "live" "now < deadline"
  proof -
    have "x_time X h0 + int (length es div r) \<le> now" "0 < r" using assms that(1) es(4) by (auto simp: link_clock_def)
    then have "length es div r < t" using assms that by simp
    then have "length es < t * r" using \<open>0 < r\<close> by (simp add: div_less_iff_less_mult)
    then show ?thesis using es(3) by (simp add: mult.commute)
  qed
  then show "if live \<and> now < deadline then Suc n \<le> r * t \<and> at_link X s0 b h0 T B (Suc n) s' else at_link X s0 b h0 T B n s'"
    using es by (auto simp: at_link_def)
qed

lemma chain_time:
  assumes "live \<Longrightarrow> link_clock X r \<and> deadline = x_time X h0 + int t"
  shows "triple (chain_at X s0 b h0 T B blocks full acc m n) (link_time X)
    (\<lambda>now s. if live \<and> now < deadline then Suc n \<le> r * t \<and> chain_at X s0 b h0 T B blocks full acc m (Suc n) s
       else chain_at X s0 b h0 T B blocks full acc m n s)"
  unfolding chain_at_def
  by (rule tripleI) (use tripleD [OF at_clock [OF assms]] in \<open>fastforce split: if_splits\<close>)

text \<open>The single-line drain. \<open>k\<close> rounds are enough when there are more of them than bytes missing and time left.\<close>

lemma chain_loop_post:
  assumes live: "live \<Longrightarrow> link_clock X r \<and> deadline = x_time X h0 + int t"
    and "live \<Longrightarrow> (full - length acc) + (r * t - n) < k" "0 < m"
  shows "triple (chain_at X s0 b h0 T B blocks full acc m n) (chain_loop X blocks full deadline k acc m)
    (chain_post X s0 live b T B blocks full)"
  using assms(2,3)
proof (induction k arbitrary: acc m n)
  case 0
  then show ?case by (simp only: chain_loop.simps) (rule chain_gave_up, blast)
next
  case (Suc k)
  let ?Q = "chain_post X s0 live b T B blocks full"
  note quiet = triple_bind [OF chain_silent]
  have fifo: "triple (chain_at X s0 b h0 T B blocks full acc m' n) (do {
           (err, rx) \<leftarrow> reg_read X REG_FIFO avail;
           if err \<noteq> ESP_OK then ret (ESP_FAIL, acc)
           else if length acc + avail = full then ret (ESP_OK, acc @ rx)
           else chain_loop X blocks full deadline k (acc @ rx) m' }) ?Q"
    if a: "avail \<noteq> 0" "avail \<le> full - length acc" "avail \<le> DRAIN_MAX" and m': "0 < m'" for avail m'
  proof -
    have fits: "0 < avail" "length acc + avail \<le> full \<or> full < length acc" "avail + 2 \<le> TX_BYTES"
      using a by (auto simp: DRAIN_MAX_def TX_BYTES_def)
    have rest: "triple (\<lambda>s. chain_at X s0 b h0 T B blocks full (if err = ESP_OK then acc @ rx else acc) m' n s \<and>
        (err = ESP_OK \<longrightarrow> length rx = avail))
       (if err \<noteq> ESP_OK then ret (ESP_FAIL, acc)
        else if length acc + avail = full then ret (ESP_OK, acc @ rx)
        else chain_loop X blocks full deadline k (acc @ rx) m') ?Q" for err rx
    proof (cases "err = ESP_OK \<and> length rx = avail")
      case True
      have "triple (chain_at X s0 b h0 T B blocks full (acc @ rx) m' n) (chain_loop X blocks full deadline k (acc @ rx) m') ?Q"
        using Suc.prems(1) a True m' by (intro Suc.IH) auto
      then show ?thesis
        using True by (auto intro: triple_pre [OF chain_ret] triple_pre)
    next
      case False
      then show ?thesis
        by (cases "err = ESP_OK") (auto simp: triple_def intro: tripleD [OF chain_ret, simplified])
    qed
    show ?thesis
    proof (rule triple_bind)
      show "triple (chain_at X s0 b h0 T B blocks full acc m' n) (reg_read X REG_FIFO avail)
        (\<lambda>(err, rx). \<lambda>s. chain_at X s0 b h0 T B blocks full (if err = ESP_OK then acc @ rx else acc) m' n s \<and>
           (err = ESP_OK \<longrightarrow> length rx = avail))"
        using fits a(1,2) by (intro chain_fifo) auto
    qed (rule triple_case_prod, hypsubst, simp only: prod.case, rule rest)
  qed
  have wait: "triple (chain_at X s0 b h0 T B blocks full acc m' n) (do {
           now \<leftarrow> link_time X;
           if now \<ge> deadline then do {
             reg_write8 X REG_CTRL (CTRL_ABORT OR CTRL_CLEAR_FIFO);
             ret (ESP_ERR_TIMEOUT, acc) }
           else chain_loop X blocks full deadline k acc m' }) ?Q" if m': "0 < m'" for m'
  proof (rule triple_bind [OF chain_time [OF live]])
    fix now
    let ?P = "\<lambda>s. if live \<and> now < deadline then Suc n \<le> r * t \<and> chain_at X s0 b h0 T B blocks full acc m' (Suc n) s
       else chain_at X s0 b h0 T B blocks full acc m' n s"
    have "triple (chain_at X s0 b h0 T B blocks full acc m' n) (do {
             reg_write8 X REG_CTRL (CTRL_ABORT OR CTRL_CLEAR_FIFO);
             ret (ESP_ERR_TIMEOUT, acc) }) ?Q"
      by (rule quiet, intro silent_frame, simp add: reg_consts, rule chain_ret, simp)
    moreover have "triple (chain_at X s0 b h0 T B blocks full acc m' (Suc n)) (chain_loop X blocks full deadline k acc m') ?Q"
      if "Suc n \<le> r * t" using Suc.prems(1) that m' by (intro Suc.IH) auto
    moreover have "triple (chain_at X s0 b h0 T B blocks full acc m' n) (chain_loop X blocks full deadline k acc m') ?Q"
      if "\<not> live" using that m' by (intro Suc.IH) auto
    ultimately show "triple ?P (if now \<ge> deadline then do {
             reg_write8 X REG_CTRL (CTRL_ABORT OR CTRL_CLEAR_FIFO);
             ret (ESP_ERR_TIMEOUT, acc) }
           else chain_loop X blocks full deadline k acc m') ?Q"
      by (cases "deadline \<le> now"; cases live; auto simp: triple_def not_le)
  qed
  have next_pos: "0 < (if q then m + 1 else m)" for q using Suc.prems(2) by simp
  show ?case
    unfolding chain_loop.simps Let_def
    by (rule quiet, intro silent_frame, simp add: reg_consts, rule triple_case_prod, rule triple_if, rule chain_ret, simp,
        rule quiet, intro silent_frame, rule triple_bind [OF chain_queue [OF Suc.prems(2)]], rule triple_if, rule chain_ret, simp,
        intro triple_if fifo wait next_pos chain_ret)
      (auto simp: level_of_def DRAIN_MAX_def)
qed

lemma chain_fifo2:
  assumes "want \<le> full - length acc"
  shows "triple (chain_at X s0 b h0 T B blocks full acc m n) (fifo2_read X want)
    (\<lambda>r. chain_at X s0 b h0 T B blocks full (case r of None \<Rightarrow> acc | Some (took, level, st) \<Rightarrow> acc @ took) m n)"
proof (rule tripleI)
  fix s r s' assume c: "chain_at X s0 b h0 T B blocks full acc m n s" and run: "run (fifo2_read X want) s = (r, s')"
  from c have "at_link X s0 b h0 (T @ acc) (B @ chain_bursts s0 blocks m) n s" by (simp add: chain_at_def)
  from tripleD [OF at_fifo2 this run] c assms
  show "chain_at X s0 b h0 T B blocks full (case r of None \<Rightarrow> acc | Some (took, level, st) \<Rightarrow> acc @ took) m n s'"
    by (auto simp: chain_at_def split: option.splits)
qed

text \<open>The dual-line drain: every round that goes on reads the clock.\<close>

lemma chain_dual_post:
  assumes live: "live \<Longrightarrow> link_clock X r \<and> deadline = x_time X h0 + int t"
    and "live \<Longrightarrow> r * t - n < k" "0 < m"
  shows "triple (chain_at X s0 b h0 T B blocks full acc m n) (chain_dual_loop X blocks full deadline k acc m chunk idle)
    (chain_post X s0 live b T B blocks full)"
  using assms(2,3)
proof (induction k arbitrary: acc m n chunk idle)
  case 0
  then show ?case by (simp only: chain_dual_loop.simps) (rule chain_gave_up, blast)
next
  case (Suc k)
  let ?Q = "chain_post X s0 live b T B blocks full"
  note quiet = triple_bind [OF chain_silent]
  have wait: "triple (chain_at X s0 b h0 T B blocks full acc' m' n) (do {
           now \<leftarrow> link_time X;
           if now \<ge> deadline then do {
             reg_write8 X REG_CTRL (CTRL_ABORT OR CTRL_CLEAR_FIFO);
             ret (ESP_ERR_TIMEOUT, acc') }
           else chain_dual_loop X blocks full deadline k acc' m' chunk' idle' }) ?Q" if m': "0 < m'" for acc' m' chunk' idle'
  proof (rule triple_bind [OF chain_time [OF live]])
    fix now
    let ?P = "\<lambda>s. if live \<and> now < deadline then Suc n \<le> r * t \<and> chain_at X s0 b h0 T B blocks full acc' m' (Suc n) s
       else chain_at X s0 b h0 T B blocks full acc' m' n s"
    let ?loop = "chain_dual_loop X blocks full deadline k acc' m' chunk' idle'"
    have "triple (chain_at X s0 b h0 T B blocks full acc' m' n) (do {
             reg_write8 X REG_CTRL (CTRL_ABORT OR CTRL_CLEAR_FIFO);
             ret (ESP_ERR_TIMEOUT, acc') }) ?Q"
      by (rule quiet, intro silent_frame, simp add: reg_consts, rule chain_ret, simp)
    moreover have "triple (chain_at X s0 b h0 T B blocks full acc' m' (Suc n)) ?loop ?Q"
      if "Suc n \<le> r * t" using Suc.prems(1) that m' by (intro Suc.IH) auto
    moreover have "triple (chain_at X s0 b h0 T B blocks full acc' m' n) ?loop ?Q" if "\<not> live"
      using that m' by (intro Suc.IH) auto
    ultimately show "triple ?P (if now \<ge> deadline then do {
             reg_write8 X REG_CTRL (CTRL_ABORT OR CTRL_CLEAR_FIFO);
             ret (ESP_ERR_TIMEOUT, acc') }
           else ?loop) ?Q"
      by (cases "deadline \<le> now"; cases live; auto simp: triple_def not_le)
  qed
  have next_pos: "0 < (if q then m + 1 else m)" for q using Suc.prems(2) by simp
  have none: "triple (chain_at X s0 b h0 T B blocks full (case None of None \<Rightarrow> acc | Some (took, level, st) \<Rightarrow> acc @ took) m n)
      (ret (ESP_FAIL, acc)) ?Q" by (simp only: option.case) (rule chain_ret, simp)
  show ?case
    unfolding chain_dual_loop.simps Let_def
    apply (rule triple_bind [OF chain_fifo2], simp)
    apply (rule triple_case_option, hypsubst, rule none, rule triple_case_prod, rule triple_case_prod, hypsubst,
        simp only: option.case prod.case)
    apply (rule quiet, intro silent_frame, rule triple_if, rule chain_ret, simp,
        rule triple_bind [OF chain_queue [OF Suc.prems(2)]], rule triple_if, rule chain_ret, simp,
        intro triple_if wait next_pos chain_ret)
    apply simp
    done
qed

section \<open>Block reads\<close>

abbreviation chain_size :: "fpga_block list \<Rightarrow> nat" where
  "chain_size blocks \<equiv> sum_list (map (\<lambda>b. unat (bk_count b) * 4) blocks)"

lemma chain_locked_post:
  assumes "live \<Longrightarrow> link_clock X r" "live \<Longrightarrow> chain_size blocks + r * (250000 * ((length blocks + 7) div 8)) < x_rounds X"
  shows "triple (\<lambda>t. t = s) (blockread_chain_locked X blocks)
    (chain_post X s live (fg_hung s) (taken X (fg_link s)) (bursts (fg_link s)) blocks (chain_size blocks))"
proof -
  let ?T = "taken X (fg_link s)" and ?B = "bursts (fg_link s)" and ?full = "chain_size blocks"
  let ?t = "250000 * ((length blocks + 7) div 8)"
  let ?Q = "chain_post X s live (fg_hung s) ?T ?B blocks ?full"
  have unstarted: "triple (\<lambda>t. t = s) (ret (ESP_ERR_INVALID_ARG, [])) ?Q"
    by (auto simp: triple_def chain_post_def chain_bursts_def)
  have start: "at_link X s (fg_hung s) (fg_link s) ?T ?B 0 s"
    by (simp add: at_link_def)
  have first: "triple (\<lambda>t. t = s) (queue_block X (blocks ! 0) True)
      (\<lambda>_. chain_at X s (fg_hung s) (fg_link s) ?T ?B blocks ?full [] 1 0)" if "blocks \<noteq> []"
  proof -
    have "chain_bursts s blocks 1 = [block_burst s (blocks ! 0) True]" by (simp add: chain_bursts_def)
    then show ?thesis
      using at_queue [of X s "fg_hung s" "fg_link s" ?T ?B 0 X "blocks ! 0" True] start that
      by (auto simp: triple_def chain_at_def Suc_le_eq)
  qed
  text \<open>The deadline counts from the history in which the clock is read.\<close>
  have timed: "triple (chain_at X s (fg_hung s) (fg_link s) ?T ?B blocks ?full [] 1 0) (do {
       now \<leftarrow> link_time X;
       loop (now + OP_TIMEOUT_MS * 1000 * int ((length blocks + 7) div 8)) }) ?Q"
    if loop: "\<And>h0 deadline. (live \<Longrightarrow> link_clock X r \<and> deadline = x_time X h0 + int ?t) \<Longrightarrow>
      triple (chain_at X s (fg_hung s) h0 ?T ?B blocks ?full [] 1 0) (loop deadline) ?Q" for loop
  proof (rule tripleI)
    fix t r' t' assume c: "chain_at X s (fg_hung s) (fg_link s) ?T ?B blocks ?full [] 1 0 t"
      and run: "run (do { now \<leftarrow> link_time X; loop (now + OP_TIMEOUT_MS * 1000 * int ((length blocks + 7) div 8)) }) t = (r', t')"
    let ?h = "LinkTime # fg_link t"
    have "chain_at X s (fg_hung s) ?h ?T ?B blocks ?full [] 1 0 (t\<lparr>fg_link := ?h\<rparr>)"
      using c by (auto simp: chain_at_def at_link_def core_def)
    moreover have "run (loop (x_time X ?h + OP_TIMEOUT_MS * 1000 * int ((length blocks + 7) div 8))) (t\<lparr>fg_link := ?h\<rparr>) = (r', t')"
      using run by (simp add: link_time_def link_ask_def link_put_def)
    ultimately show "?Q r' t'"
      using assms(1) by (intro tripleD [OF loop [of _ ?h]]) (auto simp: OP_TIMEOUT_MS_def)
  qed
  have one: "triple (chain_at X s (fg_hung s) h0 ?T ?B blocks ?full [] 1 0) (chain_loop X blocks ?full deadline (x_rounds X) [] 1) ?Q"
    "triple (chain_at X s (fg_hung s) h0 ?T ?B blocks ?full [] 1 0) (chain_dual_loop X blocks ?full deadline (x_rounds X) [] 1 DRAIN_CHUNK 0) ?Q"
    if "live \<Longrightarrow> link_clock X r \<and> deadline = x_time X h0 + int ?t" for h0 deadline
    using that assms(2) by (auto intro!: chain_loop_post [where r = r and t = ?t] chain_dual_post [where r = r and t = ?t])
  have keep: "triple (\<lambda>t. t = s) (gets f) (\<lambda>_ t. t = s)" for f :: "fpga \<Rightarrow> bool" by (simp add: triple_def)
  show ?thesis
    unfolding blockread_chain_locked_def blockread_chain_dual_def Let_def
    by (rule triple_bind [OF keep], rule triple_if, rule unstarted, rule triple_if, rule unstarted, rule triple_bind [OF first],
        simp, rule triple_if, rule chain_ret, simp, rule triple_bind [OF chain_silent], intro silent_frame, rule triple_if,
        rule timed [OF one(2)], assumption, rule timed [OF one(1)], assumption)
qed

lemma chain_size_take:
  assumes "m < length blocks" "\<forall>b\<in>set blocks. bk_count b \<noteq> 0"
  shows "chain_size (take m blocks) < chain_size blocks"
  using assms
proof (induction blocks arbitrary: m)
  case (Cons b blocks)
  then show ?case by (cases m) (auto simp: unat_gt_0 trans_less_add1)
qed simp

text \<open>C23: (What a block read does.) Whatever the link and the fabric answer, a chain of block reads stores exactly the bytes
  the reads of the FIFO deliver, in order, never more than the buffer of its caller holds, and all of them when it
  reports success; the frames it loads are those of the first blocks of the chain, each once and in order, the first
  one clearing the FIFO, the others taking the chain's lead; and the settings stay as they are. How many blocks it has
  loaded when it succeeds rests with the fabric's flags: all of them, unless the FIFO delivered more bytes than the
  loaded blocks ask for.\<close>

theorem chain_stores_what_arrives:
  fixes s :: fpga
  assumes "run (fpga_blockread_chain X blocks) s = ((err, bytes), s')"
  shows "taken X (fg_link s') = taken X (fg_link s) @ bytes \<and> length bytes \<le> chain_size blocks \<and>
    (err = ESP_OK \<longrightarrow> length bytes = chain_size blocks) \<and> core s' = core s \<and>
    (\<exists>m \<le> length blocks. bursts (fg_link s') = bursts (fg_link s) @ chain_bursts s blocks m \<and>
       (err = ESP_OK \<and> (\<forall>b\<in>set blocks. bk_count b \<noteq> 0) \<longrightarrow> m = length blocks \<or> chain_size (take m blocks) < length bytes))"
proof -
  let ?Q = "chain_post X s False (fg_hung s) (taken X (fg_link s)) (bursts (fg_link s)) blocks (chain_size blocks)"
  let ?t = "s\<lparr>fg_link := LinkTake # fg_link s\<rparr>"
  obtain t' where t': "run (blockread_chain_locked X blocks) ?t = ((err, bytes), t')" "s' = t'\<lparr>fg_link := LinkGive # fg_link t'\<rparr>"
    using assms by (auto simp: fpga_blockread_chain_def fpga_locked_def link_put_def split: prod.splits)
  have "chain_post X ?t False (fg_hung s) (taken X (fg_link s)) (bursts (fg_link s)) blocks (chain_size blocks) (err, bytes) t'"
    using tripleD [OF chain_locked_post [where live = False] refl t'(1)] by simp
  then obtain m where m: "m \<le> length blocks" "core t' = core ?t" "taken X (fg_link t') = taken X (fg_link s) @ bytes"
    "bursts (fg_link t') = bursts (fg_link s) @ chain_bursts ?t blocks m" "length bytes \<le> chain_size blocks"
    "err = ESP_OK \<longrightarrow> length bytes = chain_size blocks"
    by (auto simp: chain_post_def)
  have c: "core ?t = core s" "core s' = core t'" by (simp_all add: core_def t'(2))
  have "chain_bursts ?t blocks m = chain_bursts s blocks m"
    unfolding chain_bursts_def by (simp add: block_burst_core [OF c(1)])
  moreover have "m = length blocks \<or> chain_size (take m blocks) < length bytes"
    if "err = ESP_OK \<and> (\<forall>b\<in>set blocks. bk_count b \<noteq> 0)"
    using chain_size_take [of m blocks] m(1,6) that by (cases "m = length blocks") auto
  ultimately have "bursts (fg_link s') = bursts (fg_link s) @ chain_bursts s blocks m \<and>
       (err = ESP_OK \<and> (\<forall>b\<in>set blocks. bk_count b \<noteq> 0) \<longrightarrow> m = length blocks \<or> chain_size (take m blocks) < length bytes)"
    using m(4) t'(2) by simp
  then show ?thesis using m c t'(2) by auto
qed

lemma chain_stores_what_arrives_witness:
  "case run (fpga_blockread_chain echo_fabric [\<lparr>bk_payload = 5, bk_payload_bits = 40, bk_count = 1\<rparr>]) fpga_boot of
     ((err, bytes), s') \<Rightarrow> taken echo_fabric (fg_link s') = bytes \<and> length bytes \<le> 4 \<and> fg_flags s' = 0"
proof -
  obtain err bytes s' where
    run: "run (fpga_blockread_chain echo_fabric [\<lparr>bk_payload = 5, bk_payload_bits = 40, bk_count = 1\<rparr>]) fpga_boot = ((err, bytes), s')"
    by (metis surj_pair)
  from chain_stores_what_arrives [OF run] run show ?thesis by (simp add: fpga_boot_def core_def)
qed

section \<open>No loop runs past its deadline\<close>

definition on_time :: "fpga \<Rightarrow> fpga \<Rightarrow> bool" where
  "on_time s s' \<longleftrightarrow> fg_hung s' = fg_hung s"

interpretation on_time: preorder_frame on_time
  by unfold_locales (simp_all add: on_time_def)

named_theorems time_frame \<open>operations that never use up the rounds of a loop\<close>

lemmas [time_frame] = on_time.rules

lemma time_steps [time_frame]:
  "rel on_time (link_put e)" "rel on_time (link_ask e f)" "rel on_time (count_xfer n)" "rel on_time (add_xfer_cycles X c0)"
  "rel on_time count_poll" "rel on_time shadows_reset" "rel on_time (use_point X k)"
  by (simp_all add: rel_def on_time_def link_ask_def link_put_def count_xfer_def count_poll_def shadows_reset_def use_point_def
      Let_def split_beta)

lemma time_modify: "(\<And>s. fg_hung (f s) = fg_hung s) \<Longrightarrow> rel on_time (modify f)"
  by (simp add: rel_def on_time_def)

lemma time_transfers [time_frame]:
  "rel on_time (reg_write X a bs)" "rel on_time (reg_read X a n)" "rel on_time (reg_write8 X a v)" "rel on_time (reg_read8 X a)"
  "rel on_time (fifo2_read X n)"
  unfolding reg_write8_def reg_read8_def reg_write_def reg_read_def xfer_write_def xfer_read_def fifo2_read_def ll_dual_read_def
  by (intro time_frame)+

lemma time_frames [time_frame]:
  "rel on_time (load_frame_lead X cmd lf data n rb parcels lead go)" "rel on_time (load_frame_parcels X cmd lf data n rb parcels go)"
  "rel on_time (load_frame X cmd lf data n rb go)"
  unfolding load_frame_def load_frame_parcels_def load_frame_lead_def by (intro time_frame)+

lemma time_locked [time_frame]: "rel on_time m \<Longrightarrow> rel on_time (fpga_locked m)"
  unfolding fpga_locked_def by (intro time_frame)

lemma time_calibrate [time_frame]: "rel on_time (dual_calibrate X)"
  unfolding dual_calibrate_def try_point_def dual_check_def by (intro time_frame time_modify) simp_all

lemma time_init [time_frame]: "rel on_time (fpga_init X channels)"
proof -
  have a: "rel on_time (answers_trail X vs)" for vs by (induction vs) (auto intro!: time_frame)
  show ?thesis
    unfolding fpga_init_def check_ports_def dma_reads_back_def by (intro a time_frame time_modify) simp_all
qed

lemma time_settings [time_frame]:
  "rel on_time fpga_invalidate" "rel on_time (fpga_use b)" "rel on_time (fpga_set_div X dv)" "rel on_time (fpga_set_trail X clocks)"
  "rel on_time (fpga_set_maxwait X w)" "rel on_time (write_flag X flag b)" "rel on_time (fpga_set_skew X t1 t2)"
  "rel on_time (fpga_set_fast b)" "rel on_time (fpga_set_fast_timing X lag e1 e2)" "rel on_time (fpga_set_chain_lead clocks)"
  "rel on_time (fpga_set_dual X b)" "rel on_time (fpga_last_wait X)" "rel on_time (fpga_stats b)"
  unfolding fpga_invalidate_def fpga_use_def fpga_set_div_def fpga_set_trail_def fpga_set_maxwait_def write_flag_def fpga_set_skew_def
    fpga_set_fast_def fpga_set_fast_timing_def fpga_set_chain_lead_def fpga_set_dual_def fpga_last_wait_def fpga_stats_def if_ready_def
  by (intro time_frame time_modify; simp)+

lemma time_wait:
  assumes "link_clock X r" "r * 250000 < x_rounds X" shows "rel on_time (wait_done X)"
proof -
  have loop: "triple (at_link X s0 b h0 T B n) (wait_done_loop X k start deadline) (\<lambda>_ s. fg_hung s = b)"
    if "r * 250000 - n < k" "deadline = x_time X h0 + 250000" for s0 b h0 T B n k start deadline
    using that(1)
  proof (induction k arbitrary: n)
    case (Suc k)
    have "rel (silent X) (reg_read8 X REG_STATUS)"
      unfolding reg_read8_def by (intro silent_frame) (simp add: reg_consts)
    then have read: "triple (at_link X s0 b h0 T B n) (reg_read8 X REG_STATUS) (\<lambda>_. at_link X s0 b h0 T B n)"
      by (rule at_silent)
    have time: "triple (at_link X s0 b h0 T B n) (link_time X)
        (\<lambda>now s. if now < deadline then Suc n \<le> r * 250000 \<and> at_link X s0 b h0 T B (Suc n) s else at_link X s0 b h0 T B n s)"
      using at_clock [of True X r deadline h0 250000 s0 b T B n] assms(1) that(2) by simp
    have go: "triple (at_link X s0 b h0 T B (Suc n)) (do { if_do q (link_put (LinkYield 1)); wait_done_loop X k start deadline })
        (\<lambda>_ s. fg_hung s = b)" if "Suc n \<le> r * 250000" for q
      by (rule triple_bind [OF at_silent], intro silent_frame, rule Suc.IH) (use Suc.prems that in simp)
    show ?case
      unfolding wait_done_loop.simps
    proof (rule triple_bind [OF read], rule triple_if, rule triple_return, simp add: at_link_def, rule triple_bind [OF time],
        rule triple_if)
      fix st now
      let ?P = "\<lambda>s. if now < deadline then Suc n \<le> r * 250000 \<and> at_link X s0 b h0 T B (Suc n) s else at_link X s0 b h0 T B n s"
      show "triple ?P (ret (ESP_ERR_TIMEOUT, st)) (\<lambda>_ s. fg_hung s = b)" if "deadline \<le> now"
        using that by (auto simp: triple_def at_link_def)
      show "triple ?P (do { if_do (SPIN_BEFORE_YIELD_US < now - start) (link_put (LinkYield 1)); wait_done_loop X k start deadline })
          (\<lambda>_ s. fg_hung s = b)" if "\<not> deadline \<le> now"
        using go that by (auto simp: triple_def)
    qed
  qed simp
  show ?thesis
  proof (rule relI)
    fix s r' s' assume "run (wait_done X) s = (r', s')"
    then have run: "run (wait_done_loop X (x_rounds X) (x_time X (LinkTime # fg_link s)) (x_time X (LinkTime # fg_link s) + 250000))
        (s\<lparr>fg_link := LinkTime # fg_link s\<rparr>) = (r', s')"
      by (simp add: wait_done_def link_time_def link_ask_def link_put_def OP_TIMEOUT_MS_def)
    have at: "at_link X s (fg_hung s) (LinkTime # fg_link s) (taken X (fg_link s)) (bursts (fg_link s)) 0
        (s\<lparr>fg_link := LinkTime # fg_link s\<rparr>)"
      by (simp add: at_link_def core_def)
    have "r * 250000 - 0 < x_rounds X" using assms(2) by simp
    from tripleD [OF loop [OF this refl] at run] show "on_time s s'" by (simp add: on_time_def)
  qed
qed

lemma time_chain:
  assumes "link_clock X r" "length blocks \<le> 16" "16384 + r * 500000 < x_rounds X"
  shows "rel on_time (blockread_chain_locked X blocks)"
proof (cases "list_ex (\<lambda>b. bk_count b = 0 \<or> bk_count b > 256) blocks")
  case True
  then show ?thesis by (simp add: blockread_chain_locked_def rel_def on_time_def)
next
  case False
  have "unat (bk_count b) \<le> 256" if "b \<in> set blocks" for b
    using False that by (auto simp: list_ex_iff word_less_nat_alt not_less)
  then have "chain_size blocks \<le> 1024 * length blocks"
    by (induction blocks) (auto simp: algebra_simps intro: add_mono)
  moreover have "250000 * ((length blocks + 7) div 8) \<le> 500000" using assms(2) by simp
  then have "r * (250000 * ((length blocks + 7) div 8)) \<le> r * 500000" by (rule mult_le_mono2)
  ultimately have "chain_size blocks + r * (250000 * ((length blocks + 7) div 8)) < x_rounds X"
    using assms(2,3) by linarith
  then show ?thesis
    using tripleD [OF chain_locked_post [where live = True, OF assms(1)] refl] by (intro relI) (fastforce simp: on_time_def chain_post_def)
qed

text \<open>C26: (Every operation returns.) On a link where a microsecond passes within some number of steps, no operation of the
  fabric's driver (bring-up, settings, exchanges, block writes, chains of up to the 16 blocks the callers use) ever uses
  up the bound on the rounds of its polling loops: each ends by its own time-out at the latest.\<close>

theorem fpga_returns:
  assumes "link_clock X r" "16384 + r * 500000 < x_rounds X"
    and "case op of OpChain blocks \<Rightarrow> length blocks \<le> 16 | _ \<Rightarrow> True"
  shows "fg_hung (fpga_do X op s) = fg_hung s"
proof -
  have wait: "rel on_time (wait_done X)" using assms(1,2) by (intro time_wait) auto
  have ops: "rel on_time (fpga_exchange X cmd lf data n rb want)" "rel on_time (fpga_block_write X a ws)" for cmd lf data n rb want a ws
    unfolding fpga_exchange_def exchange_locked_def fpga_block_write_def block_write_locked_def by (intro time_frame wait)+
  have chain: "length blocks \<le> 16 \<Longrightarrow> rel on_time (blockread_chain_locked X blocks)" for blocks
    using assms(1,2) by (intro time_chain)
  have final: "rel on_time m \<Longrightarrow> fg_hung (final m s) = fg_hung s" for m :: "(fpga, 'r) state"
    by (simp add: rel_def on_time_def final_def)
  show ?thesis
    using assms(3)
    by (cases op) (simp_all add: final fpga_set_trst_def fpga_set_raw_window_def fpga_set_wide_def fpga_set_rx_wide_def
        fpga_blockread_chain_def fpga_blockread_def ops time_frame chain)
qed

lemma fpga_returns_witness:
  "\<not> fg_hung (fpga_do echo_fabric (OpExchange 0x1A 7 5 7 32 True) (fpga_do echo_fabric (OpInit True) fpga_boot))"
proof -
  have "link_clock echo_fabric 1" "16384 + 1 * 500000 < x_rounds echo_fabric"
    by (simp_all add: link_clock_def echo_fabric_def)
  then show ?thesis
    using fpga_returns [of echo_fabric 1 "OpExchange 0x1A 7 5 7 32 True"] fpga_returns [of echo_fabric 1 "OpInit True" fpga_boot]
    by (simp add: fpga_boot_def)
qed

section \<open>The single-line drain never reads an empty FIFO\<close>

text \<open>A level that may grow by up to 15 between the samples of its two bytes is never read too high.\<close>

lemma level_of_le:
  assumes "l1 \<le> l2" "l2 \<le> l1 + 15" "unat lo = l1 mod 256" "unat (hi AND 0x0F) = l2 div 256"
  shows "level_of lo hi \<le> l1"
proof -
  have e: "level_of lo hi = (let avail = l1 mod 256 + 256 * (l2 div 256) in
      if 0xF0 \<le> l1 mod 256 \<and> 0x100 \<le> avail then avail - 0x100 else avail)"
    using assms(3,4) by (simp add: level_of_def Let_def word_le_nat_alt)
  define a b d where "a = l1 div 256" "b = l1 mod 256" "d = l2 - l1"
  then have l: "l1 = 256 * a + b" "l2 = 256 * a + (b + d)" "b < 256" "d \<le> 15" using assms(1,2) by simp_all
  have "l1 mod 256 = b" "l2 div 256 = a + (b + d) div 256" using l by simp_all
  moreover have "(b + d) div 256 = (if b + d < 256 then 0 else 1)"
    using l(3,4) by (simp add: div_eq_0_iff div_nat_eqI)
  ultimately show ?thesis unfolding e Let_def using l by (simp split: if_splits) linarith
qed

text \<open>What does not take bytes out of the FIFO: all but its reads and the starts that clear it.\<close>

fun harmless :: "link_ev \<Rightarrow> bool" where
  "harmless (LinkWrite path a bs) = (a = REG_CMD \<and> length bs = 22 \<and> bs ! 21 AND CTRL_CLEAR_FIFO = 0)"
| "harmless (LinkRead path a n) = (a \<noteq> REG_FIFO)"
| "harmless (LinkDual d m u n) = False"
| "harmless LinkRelease = False"
| "harmless _ = True"

text \<open>\<open>lvl\<close> is how many bytes the FIFO holds after a history. The fabric samples the level's two bytes one after the
  other while blocks may be arriving, at most 15 bytes in between.\<close>

definition fifo_levels :: "fabric \<Rightarrow> (link_ev list \<Rightarrow> nat) \<Rightarrow> bool" where
  "fifo_levels X lvl \<longleftrightarrow> (\<forall>h e. harmless e \<longrightarrow> lvl h \<le> lvl (e # h)) \<and>
     (\<forall>h path. \<exists>l1 l2. l1 \<le> l2 \<and> l2 \<le> l1 + 15 \<and> l1 \<le> lvl (LinkRead path REG_STATUS 15 # h) \<and>
        unat (x_byte X (LinkRead path REG_STATUS 15 # h) 13) = l1 mod 256 \<and>
        unat (x_byte X (LinkRead path REG_STATUS 15 # h) 14 AND 0x0F) = l2 div 256)"

text \<open>Every read of the single-line port asks for at most what the FIFO holds.\<close>

fun no_underrun :: "(link_ev list \<Rightarrow> nat) \<Rightarrow> link_ev list \<Rightarrow> bool" where
  "no_underrun lvl [] = True"
| "no_underrun lvl (LinkRead path a n # h) = (no_underrun lvl h \<and> (a = REG_FIFO \<longrightarrow> n \<le> lvl h))"
| "no_underrun lvl (_ # h) = no_underrun lvl h"

definition filled :: "(link_ev list \<Rightarrow> nat) \<Rightarrow> nat \<Rightarrow> fpga \<Rightarrow> bool" where
  "filled lvl n s \<longleftrightarrow> no_underrun lvl (fg_link s) \<and> n \<le> lvl (fg_link s)"

definition calm_link :: "fpga \<Rightarrow> fpga \<Rightarrow> bool" where
  "calm_link s s' \<longleftrightarrow> (\<exists>es. fg_link s' = es @ fg_link s \<and> list_all harmless es)"

interpretation calm_link: preorder_frame calm_link
proof
  show "calm_link s s" for s by (simp add: calm_link_def)
  show "calm_link s s''" if "calm_link s s'" "calm_link s' s''" for s s' s''
  proof -
    from that obtain es es' where "fg_link s' = es @ fg_link s" "list_all harmless es" "fg_link s'' = es' @ fg_link s'"
      "list_all harmless es'" by (auto simp: calm_link_def)
    then show ?thesis unfolding calm_link_def by (intro exI [of _ "es' @ es"]) simp
  qed
qed

named_theorems calm_frame \<open>steps that take nothing from the FIFO\<close>

lemmas [calm_frame] = calm_link.rules

lemma calm_put: "harmless e \<Longrightarrow> rel calm_link (link_put e)" "harmless e \<Longrightarrow> rel calm_link (link_ask e f)"
  by (auto simp: rel_def calm_link_def link_ask_def link_put_def intro: exI [of _ "[e]"])

lemma calm_steps [calm_frame]:
  "rel calm_link (count_xfer n)" "rel calm_link count_poll" "rel calm_link (modify (\<lambda>s. s\<lparr>fg_hung := b\<rparr>))"
  "rel calm_link (link_ask LinkCycles f)" "rel calm_link (link_time X)" "rel calm_link (add_xfer_cycles X c0)"
proof -
  show "rel calm_link (count_xfer n)" "rel calm_link count_poll" "rel calm_link (modify (\<lambda>s. s\<lparr>fg_hung := b\<rparr>))"
    by (simp_all add: rel_def calm_link_def count_xfer_def count_poll_def)
  show c: "rel calm_link (link_ask LinkCycles f)" for f :: "link_ev list \<Rightarrow> 'b" by (intro calm_put) simp
  show "rel calm_link (link_time X)" unfolding link_time_def by (intro calm_put) simp
  show "rel calm_link (add_xfer_cycles X c0)"
    by (auto simp: rel_def calm_link_def intro: exI [of _ "[LinkCycles]"])
qed

lemma calm_queue [calm_frame]: "rel calm_link (queue_block X b False)"
proof (rule relI)
  fix s s' err assume run: "run (queue_block X b False) s = (err, s')"
  let ?bs = "block_burst s b False"
  have w: "run (reg_write X REG_CMD ?bs) s = (err, s')"
    using run by (simp add: queue_block_def load_frame_lead_def block_burst_def)
  have len: "length ?bs = 22" by (simp add: block_burst_def length_frame_burst)
  have "?bs ! 21 = CTRL_START_BLOCK"
    using frame_burst_cases [of s "0x0A" "bk_payload_bits b" "bk_payload b" "unat (bk_payload_bits b)" 0
        "ucast (bk_count b - 1)" "fg_chain_lead s" "Some CTRL_START_BLOCK"]
    by (auto simp: block_burst_def nth_append)
  then have "harmless (LinkWrite path REG_CMD ?bs)" for path using len by (simp add: ctrl_consts)
  moreover obtain path where "fg_link s' = [LinkCycles, LinkWrite path REG_CMD ?bs, LinkCycles] @ fg_link s"
    using run_write(3) [OF w] len by (auto simp: TX_BYTES_def)
  ultimately show "calm_link s s'" unfolding calm_link_def
    by (intro exI [of _ "[LinkCycles, LinkWrite path REG_CMD ?bs, LinkCycles]"]) simp
qed

lemma filled_calm:
  assumes "\<forall>h e. harmless e \<longrightarrow> lvl h \<le> lvl (e # h)" "rel calm_link m" shows "triple (filled lvl n) m (\<lambda>_. filled lvl n)"
proof -
  have "no_underrun lvl (es @ h) \<and> n \<le> lvl (es @ h)" if "list_all harmless es" "no_underrun lvl h" "n \<le> lvl h" for es h
    using that(1)
  proof (induction es)
    case (Cons e es)
    then have "n \<le> lvl (es @ h)" "lvl (es @ h) \<le> lvl (e # es @ h)" using assms(1) by simp_all
    then have "n \<le> lvl (e # es @ h)" by (rule order_trans)
    moreover have "no_underrun lvl (e # es @ h)" using Cons by (cases e) auto
    ultimately show ?case by simp
  qed (use that in simp)
  with assms(2) show ?thesis
    by (intro of_rel [OF assms(2)]) (auto simp: filled_def calm_link_def)
qed

text \<open>The status read, and the read of what it promised.\<close>

lemma filled_transfer:
  assumes lvl: "\<forall>h e. harmless e \<longrightarrow> lvl h \<le> lvl (e # h)"
    and put: "\<And>path. triple (filled lvl n) (link_ask (LinkRead path a k) (\<lambda>h.
         let err = path_err X path h in (err, if err = ESP_OK then map (x_byte X h) [0..<k] else []))) (\<lambda>r. filled lvl (g r))"
    and "k + 2 \<le> TX_BYTES"
  shows "triple (filled lvl n) (reg_read X a k) (\<lambda>r. filled lvl (g r))"
proof -
  have r: "reg_read X a k = do {
      c0 \<leftarrow> link_ask LinkCycles (x_cycles X);
      path \<leftarrow> gets (xfer_path (k + 2));
      (err, rx) \<leftarrow> link_ask (LinkRead path a k) (\<lambda>h.
         let err = path_err X path h in (err, if err = ESP_OK then map (x_byte X h) [0..<k] else []));
      count_xfer (k + 2);
      add_xfer_cycles X c0;
      ret (err, rx) }"
    using assms(3) by (simp add: reg_read_def xfer_read_def)
  note keep = filled_calm [OF lvl]
  have last: "triple (filled lvl (g (err, rx))) (do { count_xfer (k + 2); add_xfer_cycles X c0; ret (err, rx) })
      (\<lambda>r. filled lvl (g r))" for err rx c0
    by (rule triple_bind [OF keep], intro calm_frame, rule triple_bind [OF keep], intro calm_frame, rule triple_return)
  show ?thesis
    unfolding r
    by (rule triple_bind [OF keep], intro calm_frame, rule triple_bind [OF keep], intro calm_frame,
        rule triple_bind [OF put], rule triple_case_prod, hypsubst, rule last)
qed

lemma filled_status:
  assumes "fifo_levels X lvl"
  shows "triple (filled lvl 0) (reg_read X REG_STATUS 15)
    (\<lambda>(err, low). filled lvl (if err = ESP_OK then level_of (low ! 13) (low ! 14) else 0))"
proof -
  let ?g = "\<lambda>(err, low). if err = ESP_OK then level_of (low ! 13) (low ! 14) else 0"
  have "triple (filled lvl 0) (reg_read X REG_STATUS 15) (\<lambda>r. filled lvl (?g r))"
  proof (rule filled_transfer)
    fix path
    have "level_of (x_byte X (LinkRead path REG_STATUS 15 # h) 13) (x_byte X (LinkRead path REG_STATUS 15 # h) 14)
        \<le> lvl (LinkRead path REG_STATUS 15 # h)" for h
    proof -
      obtain l1 l2 where "l1 \<le> l2" "l2 \<le> l1 + 15" "l1 \<le> lvl (LinkRead path REG_STATUS 15 # h)"
          "unat (x_byte X (LinkRead path REG_STATUS 15 # h) 13) = l1 mod 256"
          "unat (x_byte X (LinkRead path REG_STATUS 15 # h) 14 AND 0x0F) = l2 div 256"
        using assms unfolding fifo_levels_def by blast
      then show ?thesis using level_of_le order_trans by blast
    qed
    then show "triple (filled lvl 0) (link_ask (LinkRead path REG_STATUS 15) (\<lambda>h.
         let err = path_err X path h in (err, if err = ESP_OK then map (x_byte X h) [0..<15] else []))) (\<lambda>r. filled lvl (?g r))"
      by (auto simp: triple_def filled_def link_ask_def link_put_def Let_def reg_consts nth_map simp del: upt_Suc)
  qed (use assms in \<open>simp_all add: fifo_levels_def TX_BYTES_def\<close>)
  then show ?thesis by (simp add: case_prod_unfold)
qed

lemma filled_fifo:
  assumes "fifo_levels X lvl" "k + 2 \<le> TX_BYTES"
  shows "triple (filled lvl k) (reg_read X REG_FIFO k) (\<lambda>_. filled lvl 0)"
proof (rule filled_transfer [where g = "\<lambda>_. 0"])
  show "triple (filled lvl k) (link_ask (LinkRead path REG_FIFO k) (\<lambda>h.
      let err = path_err X path h in (err, if err = ESP_OK then map (x_byte X h) [0..<k] else []))) (\<lambda>_. filled lvl 0)" for path
    by (simp add: triple_def filled_def link_ask_def link_put_def Let_def)
qed (use assms in \<open>simp_all add: fifo_levels_def\<close>)

lemma filled_less: "filled lvl n s \<Longrightarrow> m \<le> n \<Longrightarrow> filled lvl m s"
  by (simp add: filled_def)

lemma filled_abort: "triple (filled lvl 0) (do { reg_write8 X REG_CTRL v; ret r }) (\<lambda>_. filled lvl 0)"
proof (rule tripleI)
  fix s r' s' assume f: "filled lvl 0 s" and run: "run (do { reg_write8 X REG_CTRL v; ret r }) s = (r', s')"
  then obtain err where "run (reg_write X REG_CTRL [v]) s = (err, s')"
    by (auto simp: reg_write8_def split: prod.splits)
  then show "filled lvl 0 s'" using run_write(3) [of X REG_CTRL "[v]" s err s'] f by (auto simp: filled_def TX_BYTES_def)
qed

lemma chain_never_underruns:
  assumes X: "fifo_levels X lvl"
  shows "triple (filled lvl 0) (chain_loop X blocks full deadline k acc m) (\<lambda>_. filled lvl 0)"
proof (induction k arbitrary: acc m)
  case 0
  then show ?case by (simp add: triple_def filled_def)
next
  case (Suc k)
  have lvl: "\<forall>h e. harmless e \<longrightarrow> lvl h \<le> lvl (e # h)" using X by (simp add: fifo_levels_def)
  note keep = filled_calm [OF lvl]
  have weak: "triple (filled lvl 0) c (\<lambda>_. filled lvl 0) \<Longrightarrow> triple (filled lvl a) c (\<lambda>_. filled lvl 0)" for a and c :: "(fpga, 'r) state"
    by (erule triple_pre) (simp add: filled_def)
  have ret: "triple (filled lvl a) (ret x) (\<lambda>_. filled lvl 0)" for a and x :: 'r
    by (simp add: triple_def filled_def)
  have queue: "triple (filled lvl a) (if q then queue_block X (blocks ! m) False else ret ESP_OK) (\<lambda>_. filled lvl a)" for q a m
    by (intro keep calm_frame)
  have fifo: "triple (filled lvl a) (do {
           (err, rx) \<leftarrow> reg_read X REG_FIFO avail;
           if err \<noteq> ESP_OK then ret (ESP_FAIL, acc)
           else if length acc + avail = full then ret (ESP_OK, acc @ rx)
           else chain_loop X blocks full deadline k (acc @ rx) m' }) (\<lambda>_. filled lvl 0)"
    if "avail \<le> a" "avail \<le> DRAIN_MAX" for avail a m'
  proof (rule triple_bind)
    show "triple (filled lvl a) (reg_read X REG_FIFO avail) (\<lambda>_. filled lvl 0)"
      by (rule triple_pre [OF filled_fifo [OF X]]) (use that in \<open>auto simp: DRAIN_MAX_def TX_BYTES_def filled_def\<close>)
  qed (intro triple_case_prod triple_if ret Suc.IH)
  have wait: "triple (filled lvl a) (do {
           now \<leftarrow> link_time X;
           if now \<ge> deadline then do {
             reg_write8 X REG_CTRL (CTRL_ABORT OR CTRL_CLEAR_FIFO);
             ret (ESP_ERR_TIMEOUT, acc) }
           else chain_loop X blocks full deadline k acc m' }) (\<lambda>_. filled lvl 0)" for a m'
    by (rule weak, rule triple_bind [OF keep], intro calm_frame, intro triple_if filled_abort Suc.IH)
  show ?case
    unfolding chain_loop.simps Let_def
    apply (rule triple_bind [OF filled_status [OF X]], rule triple_case_prod, hypsubst, simp only: prod.case)
    apply (rule triple_if, rule ret, simp only: not_not simp_thms if_True)
    apply (rule triple_bind [OF keep], intro calm_frame, rule triple_bind [OF queue], rule triple_if, rule ret)
    apply (intro triple_if fifo wait ret)
     apply (auto simp: DRAIN_MAX_def)
    done
qed

text \<open>C22: (No zeros from an empty FIFO.) If the fabric's FIFO level only falls by reads and clears, and grows by at most 15
  bytes between the samples of its two bytes, then the single-line drain of a chain of block reads never asks the port
  for more bytes than it holds: the correction near a carry makes up for the torn level.\<close>

theorem drain_never_underruns:
  fixes s :: fpga
  assumes "fifo_levels X lvl" "no_underrun lvl (fg_link s)" "\<not> fg_dual_ok s"
  shows "no_underrun lvl (fg_link (final (fpga_blockread_chain X blocks) s))"
proof -
  have lvl: "\<forall>h e. harmless e \<longrightarrow> lvl h \<le> lvl (e # h)" using assms(1) by (simp add: fifo_levels_def)
  let ?P = "\<lambda>s. filled lvl 0 s \<and> \<not> fg_dual_ok s"
  have queue: "triple ?P (queue_block X b first) (\<lambda>_. ?P)" for b first
  proof (rule tripleI)
    fix s err s' assume p: "?P s" and run: "run (queue_block X b first) s = (err, s')"
    have w: "run (reg_write X REG_CMD (block_burst s b first)) s = (err, s')"
      using run by (simp add: queue_block_def load_frame_lead_def block_burst_def)
    have "length (block_burst s b first) < TX_BYTES" by (simp add: block_burst_def length_frame_burst TX_BYTES_def)
    with run_write [OF w this] p show "?P s'" by (auto simp: filled_def)
  qed
  have look: "triple ?P (gets f) (\<lambda>_. ?P)" for f :: "fpga \<Rightarrow> bool" by (simp add: triple_def)
  have dual: "triple ?P (gets fg_dual_ok) (\<lambda>d s. filled lvl 0 s \<and> \<not> d)" by (simp add: triple_def)
  have loop: "triple (filled lvl 0) (do {
       now \<leftarrow> link_time X;
       chain_loop X blocks full (now + c) k acc m }) (\<lambda>_. filled lvl 0)" for full c k acc m
    by (rule triple_bind [OF filled_calm [OF lvl]], intro calm_frame, rule chain_never_underruns [OF assms(1)])
  have ret: "triple ?P (ret x) (\<lambda>_. filled lvl 0)" for x :: "esp_err \<times> u8 list" by (simp add: triple_def)
  have chosen: "triple (\<lambda>s. filled lvl 0 s \<and> \<not> d) (if d then m1 else m2) (\<lambda>_. filled lvl 0)"
    if "triple (filled lvl 0) m2 (\<lambda>_. filled lvl 0)" for d and m1 m2 :: "(fpga, esp_err \<times> u8 list) state"
    using that by (cases d) (auto simp: triple_def)
  have "triple ?P (blockread_chain_locked X blocks) (\<lambda>_. filled lvl 0)"
    unfolding blockread_chain_locked_def Let_def
    by (rule triple_bind [OF look], rule triple_if, rule ret, rule triple_if, rule ret, rule triple_bind [OF queue],
        rule triple_if, rule ret, rule triple_bind [OF dual], rule chosen, rule loop)
  moreover have "?P (s\<lparr>fg_link := LinkTake # fg_link s\<rparr>)" using assms(2,3) by (simp add: filled_def)
  ultimately have "filled lvl 0 (final (blockread_chain_locked X blocks) (s\<lparr>fg_link := LinkTake # fg_link s\<rparr>))"
    by (rule triple_final)
  then show ?thesis
    by (simp add: fpga_blockread_chain_def fpga_locked_def link_put_def final_def filled_def split_beta)
qed

lemma drain_never_underruns_witness:
  "no_underrun (\<lambda>_. 4) (fg_link (final (fpga_blockread_chain echo_fabric
     [\<lparr>bk_payload = 5, bk_payload_bits = 40, bk_count = 1\<rparr>]) (fpga_boot\<lparr>fg_ready := True, fg_hw := True\<rparr>)))"
proof (rule drain_never_underruns)
  have "\<exists>l1 l2 :: nat. l1 \<le> l2 \<and> l2 \<le> l1 + 15 \<and> l1 \<le> 4 \<and> 4 = l1 mod 256 \<and> 0 = l2 div 256"
    by (intro exI [of _ 4]) simp
  then show "fifo_levels echo_fabric (\<lambda>_. 4)"
    by (simp add: fifo_levels_def echo_fabric_def)
qed (simp_all add: fpga_boot_def)

end
