(* ===== verification/Dap_Line.thy ===== *)
theory Dap_Line
  imports Dap_Frame Triples
begin

unbundle bit_operations_syntax

text \<open>
  \<open>components/dap_probe/dap_phy.c\<close> and \<open>dap_phy_spi.c\<close>: the bit-banged and the GP-SPI back end of the physical layer. The state is the
  static variables of both files and the history of the pads and the SPI peripheral, newest event first; the pads, the
  peripheral and its driver are the parameter \<open>line_env\<close>, whose answers are functions of the history that ends with the
  question. The operations carry the names of the files with \<open>phy_\<close> for \<open>dap_phy_\<close>, so as not to be taken for the calls
  through which the layers above see them (theory \<open>Dap_Phy\<close>). A read past a buffer and a division by zero set
  \<open>ln_undefined\<close>. Logging is not modelled.
\<close>

section \<open>Pads, the SPI peripheral and the state\<close>

definition DAP_EDGE_OVERHEAD_TICKS :: u32 where "DAP_EDGE_OVERHEAD_TICKS = 12"
definition DAP_REPLY_WINDOW_MAX :: nat where "DAP_REPLY_WINDOW_MAX = 80"
definition DAP_SPI_AWAIT_CHUNK :: nat where "DAP_SPI_AWAIT_CHUNK = 1"
definition DAP_SPI_MAX_BYTES :: nat where "DAP_SPI_MAX_BYTES = 160"

datatype pad_mode = PAD_IN | PAD_OUT | PAD_INOUT

text \<open>A store to a set or clear register of a bank of pads, a read of a bank's input register, the calls of the
  GPIO driver and of the ROM on one pad (\<open>PadSignal\<close>: what drives it, the SPI peripheral or the GPIO), the SPI
  driver's calls with the bytes and the number of bits, and spinning on the cycle counter.\<close>

datatype line_ev =
    Store bool nat u32 | Sense nat
  | PadConfig u64 | PadLevel int bool | PadRead int | PadMode int pad_mode | PadSignal int bool | PadSelect int
  | Spin u32
  | SpiBus | SpiReclaim | SpiDevice u32 | SpiGone | SpiInput int
  | SpiSend "u8 list" nat | SpiReceive nat | SpiBoth "u8 list" nat | SpiQueued nat | SpiFinished

record line_env =
  l_in :: "line_ev list \<Rightarrow> u32"           \<comment> \<open>an input register\<close>
  l_high :: "line_ev list \<Rightarrow> bool"         \<comment> \<open>\<open>gpio_get_level\<close>\<close>
  l_err :: "line_ev list \<Rightarrow> esp_err"       \<comment> \<open>the code a driver call returns\<close>
  l_rx :: "line_ev list \<Rightarrow> nat \<Rightarrow> u8"      \<comment> \<open>the receive buffer after a transfer\<close>
  l_stack :: "nat \<Rightarrow> u8"                   \<comment> \<open>what lies beyond a buffer\<close>

record dap_phy_cfg_t =
  clk_pin :: int
  dat_pin :: int
  dir_pin :: int
  trst_pin :: int
  clock_hz :: u32

record line =
  ln_ev :: "line_ev list"       \<comment> \<open>the history, newest first\<close>
  ln_cfg :: dap_phy_cfg_t
  ln_ready :: bool
  ln_half_ticks :: u32
  ln_use_spi :: bool
  ln_exp_wait :: nat
  ln_clk :: "nat \<times> u32"         \<comment> \<open>bank and mask of the clock pad\<close>
  ln_dat :: "nat \<times> u32"
  ln_rxq :: "u8 list"           \<comment> \<open>\<open>s_rxq\<close> from \<open>s_rxq_pos\<close> to \<open>s_rxq_len\<close>\<close>
  ln_spi_ready :: bool
  ln_spi_clk :: int
  ln_spi_dat :: int
  ln_undefined :: bool          \<comment> \<open>a read past a buffer, a division by zero\<close>

definition line_put :: "line_ev \<Rightarrow> (line, unit) state" where
  "line_put e = modify (\<lambda>s. s\<lparr>ln_ev := e # ln_ev s\<rparr>)"

definition line_ask :: "line_ev \<Rightarrow> (line_ev list \<Rightarrow> 'r) \<Rightarrow> (line, 'r) state" where
  "line_ask e answer = do { line_put e; gets (\<lambda>s. answer (ln_ev s)) }"

definition delay_ticks :: "u32 \<Rightarrow> (line, unit) state" where
  "delay_ticks ticks = if_do (ticks \<noteq> 0) (line_put (Spin ticks))"

definition pin_reg :: "int \<Rightarrow> nat \<times> u32" where
  "pin_reg pin = (if pin < 32 then (0, push_bit (nat pin) 1) else (1, push_bit (nat (pin - 32)) 1))"

definition pin_regs_init :: "(line, unit) state" where
  "pin_regs_init = modify (\<lambda>s. s\<lparr>ln_clk := pin_reg (clk_pin (ln_cfg s)), ln_dat := pin_reg (dat_pin (ln_cfg s))\<rparr>)"

definition clk_set :: "bool \<Rightarrow> (line, unit) state" where
  "clk_set level = do { (bank, m) \<leftarrow> gets ln_clk; line_put (Store level bank m) }"

definition dat_set :: "bool \<Rightarrow> (line, unit) state" where
  "dat_set level = do { (bank, m) \<leftarrow> gets ln_dat; line_put (Store level bank m) }"

definition dat_get :: "line_env \<Rightarrow> (line, u8) state" where
  "dat_get L = do {
     (bank, m) \<leftarrow> gets ln_dat;
     v \<leftarrow> line_ask (Sense bank) (l_in L);
     ret (if v AND m \<noteq> 0 then 1 else 0) }"

definition clock_out_bit :: "u8 \<Rightarrow> (line, unit) state" where
  "clock_out_bit bt = do {
     half \<leftarrow> gets ln_half_ticks;
     dat_set (bt \<noteq> 0);
     delay_ticks half;
     clk_set True;
     delay_ticks half;
     clk_set False }"

definition clock_in_bit :: "line_env \<Rightarrow> (line, u8) state" where
  "clock_in_bit L = do {
     half \<leftarrow> gets ln_half_ticks;
     delay_ticks half;
     bt \<leftarrow> dat_get L;
     clk_set True;
     delay_ticks half;
     clk_set False;
     ret bt }"

section \<open>The SPI back end\<close>

definition phy_spi_init :: "line_env \<Rightarrow> int \<Rightarrow> int \<Rightarrow> u32 \<Rightarrow> (line, esp_err) state" where
  "phy_spi_init L clk dat hz = do {
     ready \<leftarrow> gets ln_spi_ready;
     if ready then ret ESP_OK
     else do {
       modify (\<lambda>s. s\<lparr>ln_spi_dat := dat, ln_spi_clk := clk\<rparr>);
       err \<leftarrow> line_ask SpiBus (l_err L);
       err \<leftarrow> (if err = ESP_ERR_INVALID_STATE then do {
                 freed \<leftarrow> line_ask SpiReclaim (l_err L);
                 if freed = ESP_OK then line_ask SpiBus (l_err L) else ret err }
               else ret err);
       if err \<noteq> ESP_OK then ret err
       else do {
         err \<leftarrow> line_ask (SpiDevice hz) (l_err L);
         if err \<noteq> ESP_OK then ret err
         else do {
           line_put (SpiInput dat);
           modify (\<lambda>s. s\<lparr>ln_spi_ready := True\<rparr>);
           ret ESP_OK } } } }"

definition phy_spi_set_clock :: "line_env \<Rightarrow> u32 \<Rightarrow> (line, unit) state" where
  "phy_spi_set_clock L hz = do {
     ready \<leftarrow> gets ln_spi_ready;
     if_do ready (do {
       line_put SpiGone;
       err \<leftarrow> line_ask (SpiDevice hz) (l_err L);
       if_do (err \<noteq> ESP_OK) (modify (\<lambda>s. s\<lparr>ln_spi_ready := False\<rparr>)) }) }"

text \<open>Bits into bytes and back, least significant bit first.\<close>

definition bytes_for :: "nat \<Rightarrow> nat" where
  "bytes_for nbits = (nbits + 7) div 8"

definition pack_bit :: "u8 list \<Rightarrow> u8 list \<Rightarrow> nat \<Rightarrow> u8 list" where
  "pack_bit bits tx i =
     (if bits ! i AND 1 \<noteq> 0 then tx[i div 8 := tx ! (i div 8) OR push_bit (i mod 8) 1] else tx)"

definition pack_bits :: "u8 list \<Rightarrow> u8 list" where
  "pack_bits bits = foldl (pack_bit bits) (replicate (bytes_for (length bits)) 0) [0..<length bits]"

definition unpack_bits :: "(nat \<Rightarrow> u8) \<Rightarrow> nat \<Rightarrow> u8 list" where
  "unpack_bits rx nbits = map (\<lambda>i. drop_bit (i mod 8) (rx (i div 8)) AND 1) [0..<nbits]"

definition phy_spi_write_bits :: "line_env \<Rightarrow> u8 list \<Rightarrow> (line, esp_err) state" where
  "phy_spi_write_bits L bits = do {
     ready \<leftarrow> gets ln_spi_ready;
     if bytes_for (length bits) > DAP_SPI_MAX_BYTES \<or> \<not> ready then ret ESP_ERR_INVALID_ARG
     else line_ask (SpiSend (pack_bits bits) (length bits)) (l_err L) }"

definition phy_spi_read_bits :: "line_env \<Rightarrow> nat \<Rightarrow> (line, (esp_err, u8 list) sum) state" where
  "phy_spi_read_bits L nbits = do {
     ready \<leftarrow> gets ln_spi_ready;
     if bytes_for nbits > DAP_SPI_MAX_BYTES \<or> \<not> ready then ret (Inl ESP_ERR_INVALID_ARG)
     else line_ask (SpiReceive nbits) (\<lambda>h.
       if l_err L h \<noteq> ESP_OK then Inl (l_err L h) else Inr (unpack_bits (l_rx L h) nbits)) }"

definition phy_spi_route :: "bool \<Rightarrow> (line, unit) state" where
  "phy_spi_route to_spi = do {
     ready \<leftarrow> gets ln_spi_ready;
     clk \<leftarrow> gets ln_spi_clk;
     dat \<leftarrow> gets ln_spi_dat;
     if_do ready
       (if to_spi then do {
          line_put (PadMode clk PAD_OUT);
          line_put (PadMode dat PAD_INOUT);
          line_put (PadSignal clk True);
          line_put (PadSignal dat True) }
        else do {
          line_put (PadSelect clk);
          line_put (PadSelect dat);
          line_put (PadSignal clk False);
          line_put (PadSignal dat False);
          line_put (PadMode clk PAD_OUT);
          line_put (PadMode dat PAD_OUT) }) }"

definition phy_spi_loopback :: "line_env \<Rightarrow> u8 \<Rightarrow> (line, esp_err) state" where
  "phy_spi_loopback L pattern = do {
     ready \<leftarrow> gets ln_spi_ready;
     if \<not> ready then ret ESP_ERR_INVALID_STATE
     else do {
       err \<leftarrow> line_ask (SpiDevice 1000000) (l_err L);
       if err \<noteq> ESP_OK then ret err
       else do {
         let tx = [pattern, NOT pattern];
         err \<leftarrow> line_ask (SpiBoth tx 16) (\<lambda>h.
           if l_err L h \<noteq> ESP_OK then l_err L h
           else if l_rx L h 0 = tx ! 0 \<and> l_rx L h 1 = tx ! 1 then ESP_OK else ESP_FAIL);
         line_put SpiGone;
         ret err } } }"

definition phy_spi_echo_bits :: "line_env \<Rightarrow> u8 list \<Rightarrow> (line, (esp_err, u8 list) sum) state" where
  "phy_spi_echo_bits L bits = do {
     ready \<leftarrow> gets ln_spi_ready;
     if \<not> ready \<or> bytes_for (length bits) > DAP_SPI_MAX_BYTES then ret (Inl ESP_ERR_INVALID_STATE)
     else do {
       err \<leftarrow> line_ask (SpiDevice 1000000) (l_err L);
       if err \<noteq> ESP_OK then ret (Inl err)
       else do {
         r \<leftarrow> line_ask (SpiBoth (pack_bits bits) (length bits)) (\<lambda>h.
           if l_err L h \<noteq> ESP_OK then Inl (l_err L h) else Inr (unpack_bits (l_rx L h) (length bits)));
         line_put SpiGone;
         ret r } } }"

text \<open>The clock pad sampled during a long transfer.\<close>

definition phy_spi_clock_pad_check :: "line_env \<Rightarrow> (line, esp_err) state" where
  "phy_spi_clock_pad_check L = do {
     ready \<leftarrow> gets ln_spi_ready;
     clk \<leftarrow> gets ln_spi_clk;
     if \<not> ready then ret ESP_ERR_INVALID_STATE
     else do {
       line_put (PadMode clk PAD_INOUT);
       line_put (PadSignal clk True);
       err \<leftarrow> line_ask (SpiQueued (DAP_SPI_MAX_BYTES * 8)) (l_err L);
       if err \<noteq> ESP_OK then ret err
       else do {
         (high, low) \<leftarrow> for_acc (\<lambda>_ (high, low). do {
             up \<leftarrow> line_ask (PadRead clk) (l_high L);
             ret (if up then (high + 1, low) else (high, low + 1)) }) [0..<20000] (0 :: nat, 0 :: nat);
         line_put SpiFinished;
         ret (if high \<noteq> 0 \<and> low \<noteq> 0 then ESP_OK else ESP_FAIL) } } }"

section \<open>Clock and bring-up\<close>

definition cpu_freq_hz :: u32 where
  "cpu_freq_hz = 240 * 1000000"

definition phy_set_clock :: "line_env \<Rightarrow> u32 \<Rightarrow> (line, unit) state" where
  "phy_set_clock L hz = do {
     let hz = (if hz = 0 then 1000000 else hz);
     modify (\<lambda>s. s\<lparr>ln_cfg := (ln_cfg s)\<lparr>clock_hz := hz\<rparr>\<rparr>);
     if_do (2 * hz = 0) (modify (\<lambda>s. s\<lparr>ln_undefined := True\<rparr>));
     let half = cpu_freq_hz div (2 * hz);
     modify (\<lambda>s. s\<lparr>ln_half_ticks := (if half > DAP_EDGE_OVERHEAD_TICKS then half - DAP_EDGE_OVERHEAD_TICKS else 0)\<rparr>);
     ready \<leftarrow> gets ln_spi_ready;
     if_do ready (phy_spi_set_clock L hz) }"

definition phy_init :: "line_env \<Rightarrow> dap_phy_cfg_t \<Rightarrow> (line, esp_err) state" where
  "phy_init L cfg =
     (if clk_pin cfg < 0 \<or> dat_pin cfg < 0 \<or> dir_pin cfg < 0 then ret ESP_ERR_NOT_SUPPORTED
      else do {
        modify (\<lambda>s. s\<lparr>ln_cfg := cfg\<rparr>);
        pin_regs_init;
        let m = push_bit (nat (clk_pin cfg)) 1 OR push_bit (nat (dat_pin cfg)) 1 OR push_bit (nat (dir_pin cfg)) 1;
        let m = (if trst_pin cfg \<ge> 0 then m OR push_bit (nat (trst_pin cfg)) 1 else m);
        err \<leftarrow> line_ask (PadConfig m) (l_err L);
        if err \<noteq> ESP_OK then ret err
        else do {
          line_put (PadLevel (dir_pin cfg) False);
          clk_set False;
          dat_set True;
          if_do (trst_pin cfg \<ge> 0) (line_put (PadLevel (trst_pin cfg) True));
          phy_set_clock L (clock_hz cfg);
          modify (\<lambda>s. s\<lparr>ln_ready := True\<rparr>);
          ret ESP_OK } })"

section \<open>Sending\<close>

function idle_chunks :: "nat \<Rightarrow> nat list" where
  "idle_chunks n = (if n = 0 then [] else if n > 64 then 64 # idle_chunks (n - 64) else [n])"
  by auto
termination by (relation "measure id") auto

declare idle_chunks.simps [simp del]

definition phy_idle_clocks :: "line_env \<Rightarrow> nat \<Rightarrow> bool \<Rightarrow> (line, unit) state" where
  "phy_idle_clocks L count level = do {
     spi \<leftarrow> gets ln_use_spi;
     if spi then do {
       for_ok (\<lambda>n. phy_spi_write_bits L (replicate n (of_bool level))) (idle_chunks count);
       skip }
     else for_each (\<lambda>_. clock_out_bit (of_bool level)) [0..<count] }"

definition phy_write_frame_with_lead :: "line_env \<Rightarrow> dap_frame \<Rightarrow> nat \<Rightarrow> (line, unit) state" where
  "phy_write_frame_with_lead L frame lead = do {
     spi \<leftarrow> gets ln_use_spi;
     err \<leftarrow> (if spi \<and> lead + f_len frame \<le> DAP_FRAME_MAX_BITS + 16
             then phy_spi_write_bits L (replicate lead 0 @ take (f_len frame) (f_bit frame))
             else ret ESP_FAIL);
     if_do (err \<noteq> ESP_OK) (do {
       phy_idle_clocks L lead False;
       for_each (\<lambda>i. clock_out_bit (f_bit frame ! i)) [0..<f_len frame] }) }"

definition phy_write_frame :: "line_env \<Rightarrow> dap_frame \<Rightarrow> (line, unit) state" where
  "phy_write_frame L frame = do {
     spi \<leftarrow> gets ln_use_spi;
     err \<leftarrow> (if spi then phy_spi_write_bits L (take (f_len frame) (f_bit frame)) else ret ESP_FAIL);
     if_do (err \<noteq> ESP_OK) (for_each (\<lambda>i. clock_out_bit (f_bit frame ! i)) [0..<f_len frame]) }"

section \<open>Receiving\<close>

definition rxq_reset :: "(line, unit) state" where
  "rxq_reset = modify (\<lambda>s. s\<lparr>ln_rxq := []\<rparr>)"

definition rxq_next :: "line_env \<Rightarrow> (line, u8 option) state" where
  "rxq_next L = do {
     q \<leftarrow> gets ln_rxq;
     r \<leftarrow> (if q = [] then phy_spi_read_bits L DAP_SPI_AWAIT_CHUNK else ret (Inr q));
     (case r of Inl err \<Rightarrow> ret None
      | Inr q \<Rightarrow> do {
          modify (\<lambda>s. s\<lparr>ln_rxq := tl q\<rparr>);
          ret (Some (hd q)) }) }"

definition phy_use_spi :: "bool \<Rightarrow> (line, unit) state" where
  "phy_use_spi enable = do {
     modify (\<lambda>s. s\<lparr>ln_use_spi := enable \<and> ln_spi_ready s\<rparr>);
     rxq_reset;
     spi \<leftarrow> gets ln_use_spi;
     phy_spi_route spi;
     if_do (\<not> spi) (do { clk_set False; dat_set True }) }"

definition phy_turnaround_to_read :: "(line, unit) state" where
  "phy_turnaround_to_read = do {
     cfg \<leftarrow> gets ln_cfg;
     line_put (PadLevel (dir_pin cfg) True);
     line_put (PadMode (dat_pin cfg) PAD_IN) }"

definition phy_turnaround_to_write :: "(line, unit) state" where
  "phy_turnaround_to_write = do {
     rxq_reset;
     cfg \<leftarrow> gets ln_cfg;
     line_put (PadMode (dat_pin cfg) PAD_OUT);
     spi \<leftarrow> gets ln_use_spi;
     if_do spi (phy_spi_route True);
     line_put (PadLevel (dir_pin cfg) False) }"

definition bang_bits :: "line_env \<Rightarrow> nat \<Rightarrow> (line, u8 list) state" where
  "bang_bits L nbits = for_acc (\<lambda>_ acc. do { b \<leftarrow> clock_in_bit L; ret (acc @ [b]) }) [0..<nbits] []"

definition phy_read_bits :: "line_env \<Rightarrow> nat \<Rightarrow> (line, u8 list) state" where
  "phy_read_bits L nbits = do {
     spi \<leftarrow> gets ln_use_spi;
     if spi then do {
       q \<leftarrow> gets ln_rxq;
       let early = take nbits q;
       modify (\<lambda>s. s\<lparr>ln_rxq := drop nbits q\<rparr>);
       if length early = nbits then ret early
       else do {
         r \<leftarrow> phy_spi_read_bits L (nbits - length early);
         (case r of Inl err \<Rightarrow> bang_bits L nbits | Inr late \<Rightarrow> ret (early @ late)) } }
     else bang_bits L nbits }"

primrec await_spi :: "line_env \<Rightarrow> nat \<Rightarrow> int \<Rightarrow> (line, int) state" where
  "await_spi L 0 i = ret (-1)"
| "await_spi L (Suc k) i = do {
     b \<leftarrow> rxq_next L;
     (case b of None \<Rightarrow> ret (-1)
      | Some b \<Rightarrow>
          if b \<noteq> 0 then do {
            rxq_reset;
            r \<leftarrow> phy_spi_read_bits L 1;
            (case r of Inl err \<Rightarrow> skip | Inr q \<Rightarrow> modify (\<lambda>s. s\<lparr>ln_rxq := q\<rparr>));
            ret i }
          else await_spi L k (i + 1)) }"

primrec await_bang :: "line_env \<Rightarrow> nat \<Rightarrow> int \<Rightarrow> (line, int) state" where
  "await_bang L 0 i = ret (-1)"
| "await_bang L (Suc k) i = do {
     b \<leftarrow> clock_in_bit L;
     if b \<noteq> 0 then ret i else await_bang L k (i + 1) }"

definition phy_await_start_bit :: "line_env \<Rightarrow> nat \<Rightarrow> (line, int) state" where
  "phy_await_start_bit L max_cycles = do {
     spi \<leftarrow> gets ln_use_spi;
     if spi then do { rxq_reset; await_spi L max_cycles 0 }
     else await_bang L max_cycles 0 }"

definition win_at :: "line_env \<Rightarrow> u8 list \<Rightarrow> nat \<Rightarrow> u8" where
  "win_at L win k = (if k < length win then win ! k else l_stack L k)"

definition reply_need :: "nat \<Rightarrow> nat" where
  "reply_need reply_bits = (if reply_bits \<noteq> 0 then reply_bits + 6 else 0)"

definition reply_take :: "nat \<Rightarrow> nat \<Rightarrow> nat" where
  "reply_take exp_wait need =
     (let take_n = exp_wait + 1 + (if need \<noteq> 0 then need else 1)
      in if take_n > DAP_REPLY_WINDOW_MAX then DAP_REPLY_WINDOW_MAX else take_n)"

definition phy_read_reply :: "line_env \<Rightarrow> nat \<Rightarrow> nat \<Rightarrow> (line, int \<times> u8 list) state" where
  "phy_read_reply L reply_bits max_wait = do {
     let need = reply_need reply_bits;
     spi \<leftarrow> gets ln_use_spi;
     exp_wait \<leftarrow> gets ln_exp_wait;
     if spi then do {
       let take_n = reply_take exp_wait need;
       r \<leftarrow> phy_spi_read_bits L take_n;
       (case r of Inl err \<Rightarrow> ret (-1, [])
        | Inr win \<Rightarrow>
            if win_at L win exp_wait \<noteq> 0 \<and> (exp_wait = 0 \<or> win_at L win (exp_wait - 1) = 0) then do {
              if_do (exp_wait + 1 + need > DAP_REPLY_WINDOW_MAX) (modify (\<lambda>s. s\<lparr>ln_undefined := True\<rparr>));
              ret (int exp_wait, map (\<lambda>k. win_at L win (exp_wait + 1 + k)) [0..<need]) }
            else do {
              let found = length (takeWhile (\<lambda>b. b = 0) win);
              if_do (found < take_n) (if_do (found \<noteq> exp_wait) (modify (\<lambda>s. s\<lparr>ln_exp_wait := found\<rparr>)));
              ret (-1, []) }) }
     else do {
       wait \<leftarrow> phy_await_start_bit L max_wait;
       if wait < 0 then ret (wait, [])
       else do {
         bits \<leftarrow> (if need \<noteq> 0 then phy_read_bits L need else ret []);
         ret (wait, bits) } } }"

section \<open>TRST and diagnostics\<close>

definition phy_set_trst :: "bool \<Rightarrow> (line, unit) state" where
  "phy_set_trst asserted = do {
     cfg \<leftarrow> gets ln_cfg;
     if_do (trst_pin cfg \<ge> 0) (line_put (PadLevel (trst_pin cfg) (\<not> asserted))) }"

definition phy_sample_target_idle :: "line_env \<Rightarrow> nat \<Rightarrow> (line, nat) state" where
  "phy_sample_target_idle L samples = do {
     phy_turnaround_to_read;
     half \<leftarrow> gets ln_half_ticks;
     high \<leftarrow> for_acc (\<lambda>_ high. do {
         b \<leftarrow> dat_get L;
         delay_ticks half;
         ret (high + unat b) }) [0..<samples] 0;
     phy_turnaround_to_write;
     ret high }"

definition phy_self_drive_check :: "line_env \<Rightarrow> (line, bool) state" where
  "phy_self_drive_check L = do {
     cfg \<leftarrow> gets ln_cfg;
     half \<leftarrow> gets ln_half_ticks;
     line_put (PadLevel (dir_pin cfg) False);
     line_put (PadMode (dat_pin cfg) PAD_INOUT);
     dat_set True;
     delay_ticks (half * 4);
     up \<leftarrow> dat_get L;
     dat_set False;
     delay_ticks (half * 4);
     down \<leftarrow> (if up = 1 then dat_get L else ret 1);
     dat_set True;
     line_put (PadMode (dat_pin cfg) PAD_OUT);
     ret (up = 1 \<and> down = 0) }"

definition toggle_pad :: "line_env \<Rightarrow> int \<Rightarrow> (line, bool) state" where
  "toggle_pad L pin = do {
     half \<leftarrow> gets ln_half_ticks;
     line_put (PadMode pin PAD_INOUT);
     line_put (PadLevel pin True);
     delay_ticks (half * 4);
     hi \<leftarrow> line_ask (PadRead pin) (l_high L);
     line_put (PadLevel pin False);
     delay_ticks (half * 4);
     lo \<leftarrow> line_ask (PadRead pin) (l_high L);
     ret (hi \<and> \<not> lo) }"

definition phy_pad_toggle_check :: "line_env \<Rightarrow> (line, bool) state" where
  "phy_pad_toggle_check L = do {
     cfg \<leftarrow> gets ln_cfg;
     a \<leftarrow> toggle_pad L (clk_pin cfg);
     b \<leftarrow> toggle_pad L (dat_pin cfg);
     line_put (PadMode (clk_pin cfg) PAD_OUT);
     line_put (PadMode (dat_pin cfg) PAD_OUT);
     clk_set False;
     dat_set True;
     ret (a \<and> b) }"

end
