(* ===== verification/Line_Wire.thy ===== *)
theory Line_Wire
  imports Dap_Line
begin

unbundle bit_operations_syntax

text \<open>
  What the operations of \<open>Dap_Line\<close> put on the wire and take from it: a history is read as the bits the target latches,
  by whichever back end they were clocked, and as the number of clocks it has seen. Frames go out bit for bit; the
  search for the start bit and the bits after it are the same over both back ends; a reply in one transfer is found
  where the last one was, or its place is adopted.
\<close>

section \<open>What the pads carry\<close>

definition covers :: "int \<Rightarrow> nat \<Rightarrow> u32 \<Rightarrow> bool" where
  "covers pin bank m \<longleftrightarrow> fst (pin_reg pin) = bank \<and> m AND snd (pin_reg pin) \<noteq> 0"

fun pad_level :: "int \<Rightarrow> line_ev list \<Rightarrow> bool" where
  "pad_level pin (Store v bank m # h) = (if covers pin bank m then v else pad_level pin h)"
| "pad_level pin (PadLevel p v # h) = (if p = pin then v else pad_level pin h)"
| "pad_level pin (e # h) = pad_level pin h"
| "pad_level pin [] = False"

text \<open>Whether the SPI peripheral drives a pad: the driver's direction call gives it back to the GPIO.\<close>

fun on_spi :: "int \<Rightarrow> line_ev list \<Rightarrow> bool" where
  "on_spi pin (PadSignal p v # h) = (if p = pin then v else on_spi pin h)"
| "on_spi pin (PadMode p m # h) = (p \<noteq> pin \<and> on_spi pin h)"
| "on_spi pin (PadSelect p # h) = (p \<noteq> pin \<and> on_spi pin h)"
| "on_spi pin (e # h) = on_spi pin h"
| "on_spi pin [] = False"

text \<open>Whether the host's driver of a pad is on.\<close>

fun pad_driven :: "int \<Rightarrow> line_ev list \<Rightarrow> bool" where
  "pad_driven pin (PadMode p m # h) = (if p = pin then m \<noteq> PAD_IN else pad_driven pin h)"
| "pad_driven pin (PadConfig m # h) = (bit m (nat pin) \<or> pad_driven pin h)"
| "pad_driven pin (e # h) = pad_driven pin h"
| "pad_driven pin [] = False"

definition rises :: "int \<Rightarrow> line_ev \<Rightarrow> line_ev list \<Rightarrow> bool" where
  "rises pin e h \<longleftrightarrow> \<not> on_spi pin h \<and> \<not> pad_level pin h \<and> pad_level pin (e # h)"

text \<open>The bits the target latches while the probe drives the line, at rising edges of the clock or in a transfer; and
  the clocks it has seen.\<close>

primrec wire :: "line_env \<Rightarrow> dap_phy_cfg_t \<Rightarrow> line_ev list \<Rightarrow> bool list" where
  "wire L cfg [] = []"
| "wire L cfg (e # h) = wire L cfg h @
     (if pad_level (dir_pin cfg) h \<or> \<not> pad_driven (dat_pin cfg) h then []
      else if rises (clk_pin cfg) e h then (if on_spi (dat_pin cfg) h then [] else [pad_level (dat_pin cfg) h])
      else case e of SpiSend bytes n \<Rightarrow>
             if l_err L (e # h) = ESP_OK \<and> on_spi (clk_pin cfg) h \<and> on_spi (dat_pin cfg) h
             then map (\<lambda>i. bit (bytes ! (i div 8)) (i mod 8)) [0..<n] else []
           | _ \<Rightarrow> [])"

primrec clocks :: "int \<Rightarrow> line_ev list \<Rightarrow> nat" where
  "clocks clk [] = 0"
| "clocks clk (e # h) = clocks clk h +
     (if rises clk e h then 1
      else case e of SpiSend bytes n \<Rightarrow> if on_spi clk h then n else 0
           | SpiReceive n \<Rightarrow> if on_spi clk h then n else 0
           | _ \<Rightarrow> 0)"

text \<open>Whether the host ever gave a clock, or started a transfer, with its own driver on while the direction buffer drove
  the line towards it.\<close>

primrec fights :: "dap_phy_cfg_t \<Rightarrow> line_ev list \<Rightarrow> bool" where
  "fights cfg [] = False"
| "fights cfg (e # h) = (fights cfg h \<or>
     pad_level (dir_pin cfg) h \<and> pad_driven (dat_pin cfg) h \<and>
     (rises (clk_pin cfg) e h \<or> (case e of SpiSend bytes n \<Rightarrow> True | SpiReceive n \<Rightarrow> True
        | SpiBoth bytes n \<Rightarrow> True | SpiQueued n \<Rightarrow> True | _ \<Rightarrow> False)))"

definition pads_ok :: "dap_phy_cfg_t \<Rightarrow> bool" where
  "pads_ok cfg \<longleftrightarrow> {clk_pin cfg, dat_pin cfg, dir_pin cfg} \<subseteq> {0..<64} \<and> clk_pin cfg \<noteq> dat_pin cfg \<and>
     dir_pin cfg \<notin> {clk_pin cfg, dat_pin cfg} \<and> trst_pin cfg \<notin> {clk_pin cfg, dat_pin cfg, dir_pin cfg}"

text \<open>The line between two operations: which back end drives the pads, and the clock low.\<close>

definition line_set :: "dap_phy_cfg_t \<Rightarrow> bool \<Rightarrow> line \<Rightarrow> bool" where
  "line_set cfg spi s \<longleftrightarrow> pads_ok cfg \<and> ln_cfg s = cfg \<and> ln_use_spi s = spi \<and>
     ln_clk s = pin_reg (clk_pin cfg) \<and> ln_dat s = pin_reg (dat_pin cfg) \<and>
     (ln_spi_ready s \<longrightarrow> ln_spi_clk s = clk_pin cfg \<and> ln_spi_dat s = dat_pin cfg) \<and>
     (if spi then ln_spi_ready s \<and> on_spi (clk_pin cfg) (ln_ev s)
      else \<not> on_spi (clk_pin cfg) (ln_ev s) \<and> \<not> pad_level (clk_pin cfg) (ln_ev s))"

definition line_drives :: "line_env \<Rightarrow> dap_phy_cfg_t \<Rightarrow> bool \<Rightarrow> bool list \<Rightarrow> line \<Rightarrow> bool" where
  "line_drives L cfg spi w s \<longleftrightarrow> line_set cfg spi s \<and> on_spi (dat_pin cfg) (ln_ev s) = spi \<and>
     \<not> pad_level (dir_pin cfg) (ln_ev s) \<and> pad_driven (dat_pin cfg) (ln_ev s) \<and> \<not> fights cfg (ln_ev s) \<and>
     wire L cfg (ln_ev s) = w"

section \<open>Pads\<close>

lemma and_push_1: "a < 32 \<Longrightarrow> b < 32 \<Longrightarrow> (2 ^ a AND 2 ^ b :: u32) \<noteq> 0 \<longleftrightarrow> a = b"
  by (auto simp: bit_eq_iff bit_simps)

lemma covers_pin:
  assumes "p \<in> {0..<64}" "q \<in> {0..<64}"
  shows "covers p (fst (pin_reg q)) (snd (pin_reg q)) \<longleftrightarrow> p = q"
  using assms by (auto simp: covers_def pin_reg_def and_push_1)

lemma covers_pins:
  assumes "pads_ok cfg"
  shows "covers (clk_pin cfg) (fst (pin_reg (clk_pin cfg))) (snd (pin_reg (clk_pin cfg)))"
    "covers (dat_pin cfg) (fst (pin_reg (dat_pin cfg))) (snd (pin_reg (dat_pin cfg)))"
    "\<not> covers (dat_pin cfg) (fst (pin_reg (clk_pin cfg))) (snd (pin_reg (clk_pin cfg)))"
    "\<not> covers (clk_pin cfg) (fst (pin_reg (dat_pin cfg))) (snd (pin_reg (dat_pin cfg)))"
    "\<not> covers (dir_pin cfg) (fst (pin_reg (dat_pin cfg))) (snd (pin_reg (dat_pin cfg)))"
    "\<not> covers (dir_pin cfg) (fst (pin_reg (clk_pin cfg))) (snd (pin_reg (clk_pin cfg)))"
  using assms by (auto simp: pads_ok_def covers_pin)

lemma run_line [simp]:
  "run (line_put e) s = ((), s\<lparr>ln_ev := e # ln_ev s\<rparr>)"
  "run (line_ask e answer) s = (answer (e # ln_ev s), s\<lparr>ln_ev := e # ln_ev s\<rparr>)"
  "run (if_do b m) s = (if b then run m s else ((), s))"
  by (simp_all add: line_put_def line_ask_def if_do_def)

lemma run_set:
  "run (clk_set v) s = ((), s\<lparr>ln_ev := Store v (fst (ln_clk s)) (snd (ln_clk s)) # ln_ev s\<rparr>)"
  "run (dat_set v) s = ((), s\<lparr>ln_ev := Store v (fst (ln_dat s)) (snd (ln_dat s)) # ln_ev s\<rparr>)"
  by (simp_all add: clk_set_def dat_set_def split_beta)

section \<open>Packing\<close>

lemma length_pack_bit [simp]: "length (pack_bit bits tx i) = length tx"
  by (simp add: pack_bit_def)

lemma pack_bit_nth:
  assumes "i div 8 < length tx" "k div 8 < length tx"
  shows "bit (pack_bit bits tx i ! (k div 8)) (k mod 8) \<longleftrightarrow> bit (tx ! (k div 8)) (k mod 8) \<or> (k = i \<and> bit (bits ! i) 0)"
proof -
  have "k = i \<longleftrightarrow> k div 8 = i div 8 \<and> k mod 8 = i mod 8" by (metis div_mult_mod_eq)
  then show ?thesis
    using assms by (auto simp: pack_bit_def and_1_neq_0_iff nth_list_update bit_simps)
qed

lemma pack_bits_fold:
  assumes "m \<le> length bits" "k < length bits"
  shows "length (foldl (pack_bit bits) (replicate (bytes_for (length bits)) 0) [0..<m]) = bytes_for (length bits) \<and>
    (bit (foldl (pack_bit bits) (replicate (bytes_for (length bits)) 0) [0..<m] ! (k div 8)) (k mod 8) \<longleftrightarrow> k < m \<and> bit (bits ! k) 0)"
  using assms
proof (induction m)
  case 0
  then show ?case by (auto simp: bytes_for_def)
next
  case (Suc m)
  have "m div 8 < bytes_for (length bits)" "k div 8 < bytes_for (length bits)"
    using Suc.prems by (auto simp: bytes_for_def)
  then show ?case
    using Suc by (auto simp: pack_bit_nth less_Suc_eq)
qed

lemma bit_pack_bits: "k < length bits \<Longrightarrow> bit (pack_bits bits ! (k div 8)) (k mod 8) \<longleftrightarrow> bit (bits ! k) 0"
  using pack_bits_fold [of "length bits" bits k] by (simp add: pack_bits_def)

lemma packed: "map (\<lambda>i. bit (pack_bits bits ! (i div 8)) (i mod 8)) [0..<length bits] = map (\<lambda>b. bit b 0) bits"
  by (rule nth_equalityI) (auto simp: bit_pack_bits)

section \<open>Sending\<close>

lemma drives_cong:
  "line_drives L cfg spi w s \<Longrightarrow> line_drives L cfg spi w (s\<lparr>ln_rxq := q\<rparr>)"
  by (simp add: line_drives_def line_set_def)

lemma bang_bit: "triple (line_drives L cfg False w) (clock_out_bit b) (\<lambda>_. line_drives L cfg False (w @ [b \<noteq> 0]))"
proof (rule tripleI)
  fix s r s' assume s: "line_drives L cfg False w s" and "run (clock_out_bit b) s = (r, s')"
  then show "line_drives L cfg False (w @ [b \<noteq> 0]) s'"
    using covers_pins [of cfg]
    by (cases "ln_half_ticks s = 0") (auto simp: clock_out_bit_def delay_ticks_def run_set line_drives_def line_set_def rises_def)
qed

lemma bang_bits_out:
  "triple (line_drives L cfg False w) (for_each (\<lambda>i. clock_out_bit (g i)) xs) (\<lambda>_. line_drives L cfg False (w @ map (\<lambda>i. g i \<noteq> 0) xs))"
proof (induction xs arbitrary: w)
  case (Cons x xs)
  have "triple (line_drives L cfg False w) (clock_out_bit (g x) \<bind> (\<lambda>_. for_each (\<lambda>i. clock_out_bit (g i)) xs))
      (\<lambda>_. line_drives L cfg False ((w @ [g x \<noteq> 0]) @ map (\<lambda>i. g i \<noteq> 0) xs))"
    by (rule triple_bind [OF bang_bit Cons.IH])
  then show ?case by simp
qed (simp add: triple_def)

lemma spi_send:
  assumes "\<And>h. l_err L h = ESP_OK" "length bits \<le> 8 * DAP_SPI_MAX_BYTES"
  shows "triple (line_drives L cfg True w) (phy_spi_write_bits L bits)
    (\<lambda>err s. err = ESP_OK \<and> line_drives L cfg True (w @ map (\<lambda>b. bit b 0) bits) s)"
proof (rule tripleI)
  fix s r s' assume s: "line_drives L cfg True w s" and r: "run (phy_spi_write_bits L bits) s = (r, s')"
  have "\<not> DAP_SPI_MAX_BYTES < bytes_for (length bits)" using assms(2) by (simp add: bytes_for_def)
  then show "r = ESP_OK \<and> line_drives L cfg True (w @ map (\<lambda>b. bit b 0) bits) s'"
    using s r assms(1) by (auto simp: phy_spi_write_bits_def line_drives_def line_set_def rises_def packed)
qed

lemma idle_fold: "concat (map (\<lambda>n. replicate n v) (idle_chunks n)) = replicate n v"
proof (induction n rule: idle_chunks.induct)
  case (1 n)
  then show ?case
    by (subst idle_chunks.simps) (auto simp: replicate_add [symmetric])
qed

lemma idle_small: "k \<in> set (idle_chunks n) \<Longrightarrow> k \<le> 64"
  by (induction n rule: idle_chunks.induct) (subst (asm) (2) idle_chunks.simps, auto split: if_splits)

lemma spi_sends:
  assumes "\<And>h. l_err L h = ESP_OK" "\<And>n. n \<in> set ns \<Longrightarrow> n \<le> 64"
  shows "triple (line_drives L cfg True w) (for_ok (\<lambda>n. phy_spi_write_bits L (replicate n (of_bool v))) ns)
    (\<lambda>_. line_drives L cfg True (w @ concat (map (\<lambda>n. replicate n v) ns)))"
  using assms(2)
proof (induction ns arbitrary: w)
  case (Cons n ns)
  have "triple (line_drives L cfg True w) (for_ok (\<lambda>n. phy_spi_write_bits L (replicate n (of_bool v))) (n # ns))
    (\<lambda>_. line_drives L cfg True ((w @ replicate n v) @ concat (map (\<lambda>n. replicate n v) ns)))"
    unfolding for_ok.simps
  proof (rule triple_bind [OF spi_send [OF assms(1)]])
    show "length (replicate n (of_bool v :: u8)) \<le> 8 * DAP_SPI_MAX_BYTES"
      using Cons.prems [of n] by (simp add: DAP_SPI_MAX_BYTES_def)
    have bits: "map (\<lambda>b. bit b 0) (replicate n (of_bool v :: u8)) = replicate n v" by (cases v) simp_all
    show "triple (\<lambda>s. err = ESP_OK \<and> line_drives L cfg True (w @ map (\<lambda>b. bit b 0) (replicate n (of_bool v :: u8))) s)
        (if err \<noteq> ESP_OK then ret err else for_ok (\<lambda>n. phy_spi_write_bits L (replicate n (of_bool v))) ns)
        (\<lambda>_. line_drives L cfg True ((w @ replicate n v) @ concat (map (\<lambda>n. replicate n v) ns)))" for err
      unfolding bits using Cons.IH [of "w @ replicate n v"] Cons.prems by (cases "err = ESP_OK") (auto simp: triple_def)
  qed
  then show ?case by simp
qed (simp add: triple_def)

text \<open>Idle clocks and frames put the same bits on the wire whichever back end clocks them.\<close>

lemma look_drives:
  "(triple (line_drives L cfg spi w) (k spi) Q) \<Longrightarrow> triple (line_drives L cfg spi w) (gets ln_use_spi \<bind> k) Q"
  by (rule triple_known) (simp_all add: line_drives_def line_set_def)

lemma idle_bits:
  assumes "\<And>h. l_err L h = ESP_OK"
  shows "triple (line_drives L cfg spi w) (phy_idle_clocks L n v) (\<lambda>_. line_drives L cfg spi (w @ replicate n v))"
  unfolding phy_idle_clocks_def
proof (rule look_drives, rule triple_if)
  show "triple (line_drives L cfg spi w) (for_ok (\<lambda>n. phy_spi_write_bits L (replicate n (of_bool v))) (idle_chunks n) \<bind> (\<lambda>_. skip))
      (\<lambda>_. line_drives L cfg spi (w @ replicate n v))" if spi
    using that spi_sends [OF assms, of "idle_chunks n" cfg w v, unfolded idle_fold, OF idle_small]
    by (auto intro!: triple_bind [where R = "\<lambda>_. line_drives L cfg True (w @ replicate n v)"] triple_return)
  show "triple (line_drives L cfg spi w) (for_each (\<lambda>_. clock_out_bit (of_bool v)) [0..<n])
      (\<lambda>_. line_drives L cfg spi (w @ replicate n v))" if "\<not> spi"
    using bang_bits_out [of L cfg w "\<lambda>_. of_bool v" "[0..<n]"] that by (simp add: map_replicate_const)
qed

lemma frame_out:
  assumes "wf_frame f" "set (frame_bits f) \<subseteq> {0, 1}" "\<And>h. l_err L h = ESP_OK" "lead \<le> 16" "f_len f \<le> DAP_FRAME_MAX_BITS"
  shows "triple (line_drives L cfg spi w) (phy_write_frame_with_lead L f lead)
    (\<lambda>_. line_drives L cfg spi (w @ replicate lead False @ map (\<lambda>b. b \<noteq> 0) (frame_bits f)))"
proof -
  let ?w = "w @ replicate lead False @ map (\<lambda>b. b \<noteq> 0) (frame_bits f)"
  have bits: "map (\<lambda>b. bit b 0) (frame_bits f) = map (\<lambda>b. b \<noteq> 0) (frame_bits f)"
    using assms(2) by auto
  have bang: "triple (line_drives L cfg False w)
      (do { phy_idle_clocks L lead False; for_each (\<lambda>i. clock_out_bit (f_bit f ! i)) [0..<f_len f] }) (\<lambda>_. line_drives L cfg False ?w)"
  proof (rule triple_bind [OF idle_bits [OF assms(3)]])
    have "map (\<lambda>i. f_bit f ! i \<noteq> 0) [0..<f_len f] = map (\<lambda>b. b \<noteq> 0) (frame_bits f)"
      using assms(1,5) by (intro nth_equalityI) (auto simp: frame_bits_def wf_frame_def)
    then show "triple (line_drives L cfg False (w @ replicate lead False)) (for_each (\<lambda>i. clock_out_bit (f_bit f ! i)) [0..<f_len f])
        (\<lambda>_. line_drives L cfg False ?w)"
      using bang_bits_out [of L cfg "w @ replicate lead False" "\<lambda>i. f_bit f ! i" "[0..<f_len f]"] by simp
  qed
  have spi: "triple (line_drives L cfg True w) (phy_spi_write_bits L (replicate lead 0 @ take (f_len f) (f_bit f)))
      (\<lambda>err s. err = ESP_OK \<and> line_drives L cfg True ?w s)"
    using spi_send [OF assms(3), of "replicate lead 0 @ take (f_len f) (f_bit f)" cfg w] assms(4,5)
    by (simp add: bits [unfolded frame_bits_def] frame_bits_def DAP_SPI_MAX_BYTES_def DAP_FRAME_MAX_BITS_def)
  show ?thesis
    unfolding phy_write_frame_with_lead_def
  proof (rule look_drives, cases spi)
    case True
    then show "triple (line_drives L cfg spi w)
        (do { err \<leftarrow> (if spi \<and> lead + f_len f \<le> DAP_FRAME_MAX_BITS + 16
               then phy_spi_write_bits L (replicate lead 0 @ take (f_len f) (f_bit f)) else ret ESP_FAIL);
             if_do (err \<noteq> ESP_OK) (do { phy_idle_clocks L lead False; for_each (\<lambda>i. clock_out_bit (f_bit f ! i)) [0..<f_len f] }) })
        (\<lambda>_. line_drives L cfg spi ?w)"
      using assms(4,5) by (auto dest!: tripleD [OF spi] simp: triple_def split: prod.splits if_splits)
  qed (use bang in \<open>simp add: triple_def if_do_def\<close>)
qed

section \<open>Bring-up, changing the back end, turning the line round\<close>

lemma clock_set:
  "triple (\<lambda>s. line_drives L cfg False w s \<and> \<not> ln_spi_ready s) (phy_set_clock L hz)
     (\<lambda>_ s. line_drives L (cfg\<lparr>clock_hz := if hz = 0 then 1000000 else hz\<rparr>) False w s)"
proof -
  have "wire L (cfg\<lparr>clock_hz := k\<rparr>) h = wire L cfg h" for k h by (induction h) (simp_all split: line_ev.split)
  moreover have "fights (cfg\<lparr>clock_hz := k\<rparr>) h = fights cfg h" for k h by (induction h) (simp_all split: line_ev.split)
  ultimately show ?thesis
    by (auto simp: triple_def phy_set_clock_def Let_def line_drives_def line_set_def pads_ok_def)
qed

lemma line_up:
  assumes "pads_ok cfg" "ln_ev s = []" "\<not> ln_use_spi s" "\<not> ln_spi_ready s"
    and "run (phy_init L cfg) s = (ESP_OK, s')"
  shows "line_drives L (cfg\<lparr>clock_hz := if clock_hz cfg = 0 then 1000000 else clock_hz cfg\<rparr>) False [] s'"
proof -
  have pins: "\<not> (clk_pin cfg < 0 \<or> dat_pin cfg < 0 \<or> dir_pin cfg < 0)" using assms(1) by (auto simp: pads_ok_def)
  define s1 where "s1 = s\<lparr>ln_cfg := cfg, ln_clk := pin_reg (clk_pin cfg), ln_dat := pin_reg (dat_pin cfg)\<rparr>"
  obtain m s2 where ok: "l_err L [PadConfig m] = ESP_OK" and m: "bit m (nat (dat_pin cfg))"
    and s2: "run (do { line_put (PadLevel (dir_pin cfg) False); clk_set False; dat_set True;
        if_do (trst_pin cfg \<ge> 0) (line_put (PadLevel (trst_pin cfg) True)) }) (s1\<lparr>ln_ev := [PadConfig m]\<rparr>) = ((), s2)"
    and rest: "run (do { phy_set_clock L (clock_hz cfg); modify (\<lambda>s. s\<lparr>ln_ready := True\<rparr>); ret ESP_OK }) s2 = (ESP_OK, s')"
    using assms(1,2,5) pins
    by (auto simp: phy_init_def pin_regs_init_def Let_def s1_def run_set bit_simps pads_ok_def nat_less_iff split: if_splits)
  have "line_drives L cfg False [] s2 \<and> \<not> ln_spi_ready s2"
    using s2 m assms(1,3,4) covers_pins [OF assms(1)]
    by (auto simp: run_set s1_def line_drives_def line_set_def rises_def pads_ok_def split: if_splits)
  moreover obtain s3 where s3: "run (phy_set_clock L (clock_hz cfg)) s2 = ((), s3)" "s' = s3\<lparr>ln_ready := True\<rparr>"
    using rest by (auto split: prod.splits)
  ultimately have "line_drives L (cfg\<lparr>clock_hz := if clock_hz cfg = 0 then 1000000 else clock_hz cfg\<rparr>) False [] s3"
    using tripleD [OF clock_set _ s3(1)] by blast
  then show ?thesis by (simp add: s3(2) line_drives_def line_set_def)
qed

definition line_listens :: "line_env \<Rightarrow> dap_phy_cfg_t \<Rightarrow> bool \<Rightarrow> bool list \<Rightarrow> line \<Rightarrow> bool" where
  "line_listens L cfg spi w s \<longleftrightarrow> line_set cfg spi s \<and> pad_level (dir_pin cfg) (ln_ev s) \<and>
     \<not> pad_driven (dat_pin cfg) (ln_ev s) \<and> \<not> fights cfg (ln_ev s) \<and> wire L cfg (ln_ev s) = w"

lemma turn_round: "triple (line_drives L cfg spi w) phy_turnaround_to_read (\<lambda>_. line_listens L cfg spi w)"
  by (auto simp: triple_def phy_turnaround_to_read_def line_drives_def line_listens_def line_set_def rises_def pads_ok_def)

lemma turn_back: "triple (line_listens L cfg spi w) phy_turnaround_to_write (\<lambda>_. line_drives L cfg spi w)"
  by (auto simp: triple_def phy_turnaround_to_write_def phy_spi_route_def rxq_reset_def line_drives_def line_listens_def line_set_def
      rises_def pads_ok_def)

lemma change_back_end:
  "triple (line_drives L cfg spi w) (phy_use_spi enable) (\<lambda>_ s. line_drives L cfg (enable \<and> ln_spi_ready s) w s)"
  using covers_pins [of cfg]
  by (auto simp: triple_def phy_use_spi_def phy_spi_route_def rxq_reset_def line_drives_def line_set_def run_set rises_def pads_ok_def)

section \<open>Receiving\<close>

text \<open>A target that puts out one bit per clock, the same whichever way it is clocked; and what the line has taken of
  it: the next bit to be returned is number \<open>p\<close>, those in the queue come first.\<close>

definition target_speaks :: "line_env \<Rightarrow> dap_phy_cfg_t \<Rightarrow> (nat \<Rightarrow> bool) \<Rightarrow> bool" where
  "target_speaks L cfg t \<longleftrightarrow> (\<forall>h.
     (l_in L (Sense (fst (pin_reg (dat_pin cfg))) # h) AND snd (pin_reg (dat_pin cfg)) \<noteq> 0) = t (clocks (clk_pin cfg) h) \<and>
     (\<forall>n. l_err L (SpiReceive n # h) = ESP_OK \<and>
        (\<forall>i<n. bit (l_rx L (SpiReceive n # h) (i div 8)) (i mod 8) = t (clocks (clk_pin cfg) h + i))))"

definition told :: "(nat \<Rightarrow> bool) \<Rightarrow> nat \<Rightarrow> nat \<Rightarrow> u8 list" where
  "told t p n = map (\<lambda>i. of_bool (t (p + i))) [0..<n]"

definition line_hears :: "dap_phy_cfg_t \<Rightarrow> bool \<Rightarrow> (nat \<Rightarrow> bool) \<Rightarrow> nat \<Rightarrow> line \<Rightarrow> bool" where
  "line_hears cfg spi t p s \<longleftrightarrow> line_set cfg spi s \<and>
     (if spi then clocks (clk_pin cfg) (ln_ev s) = p + length (ln_rxq s) \<and> ln_rxq s = told t p (length (ln_rxq s))
      else clocks (clk_pin cfg) (ln_ev s) = p)"

lemma told_simps [simp]: "told t p 0 = []" "length (told t p n) = n"
  by (simp_all add: told_def)

lemma told_add: "told t p (m + n) = told t p m @ told t (p + m) n"
proof -
  have "map (\<lambda>i. of_bool (t (p + i)) :: u8) [m..<m + n] = map (\<lambda>i. of_bool (t (p + m + i))) [0..<n]"
    by (rule nth_equalityI) (auto simp: add.assoc)
  then show ?thesis by (simp add: told_def upt_add_eq_append [of 0])
qed

lemma told_take: "k \<le> n \<Longrightarrow> take k (told t p n) = told t p k \<and> drop k (told t p n) = told t (p + k) (n - k)"
  using told_add [of t p k "n - k"] by simp

lemma told_Suc: "told t p (Suc n) = of_bool (t p) # told t (p + 1) n"
  using told_add [of t p 1 n] by (simp add: told_def)

lemma bang_in:
  assumes "target_speaks L cfg t"
  shows "triple (line_hears cfg False t p) (clock_in_bit L) (\<lambda>b s. b = of_bool (t p) \<and> line_hears cfg False t (p + 1) s)"
proof (rule tripleI)
  fix s r s' assume s: "line_hears cfg False t p s" and "run (clock_in_bit L) s = (r, s')"
  then show "r = of_bool (t p) \<and> line_hears cfg False t (p + 1) s'"
    using covers_pins [of cfg] assms
    by (cases "ln_half_ticks s = 0")
      (auto simp: clock_in_bit_def dat_get_def delay_ticks_def run_set line_hears_def line_set_def rises_def target_speaks_def
         split_beta split: if_splits)
qed

lemma bang_bits_in:
  assumes "target_speaks L cfg t"
  shows "triple (line_hears cfg False t p) (bang_bits L n) (\<lambda>bs s. bs = told t p n \<and> line_hears cfg False t (p + n) s)"
proof -
  have "triple (\<lambda>s. acc = told t p k \<and> line_hears cfg False t (p + k) s)
      (for_acc (\<lambda>_ acc. do { b \<leftarrow> clock_in_bit L; ret (acc @ [b]) }) xs acc)
      (\<lambda>bs s. bs = told t p (k + length xs) \<and> line_hears cfg False t (p + k + length xs) s)" for k acc and xs :: "nat list"
  proof (induction xs arbitrary: k acc)
    case (Cons x xs)
    show ?case
    proof (rule tripleI)
      fix s r s' assume s: "acc = told t p k \<and> line_hears cfg False t (p + k) s"
        and run: "run (for_acc (\<lambda>_ acc. do { b \<leftarrow> clock_in_bit L; ret (acc @ [b]) }) (x # xs) acc) s = (r, s')"
      obtain b s1 where b: "run (clock_in_bit L) s = (b, s1)" by fastforce
      have "b = of_bool (t (p + k))" "line_hears cfg False t (p + k + 1) s1"
        using tripleD [OF bang_in [OF assms] _ b] s by auto
      then have "acc @ [b] = told t p (Suc k)" "line_hears cfg False t (p + Suc k) s1"
        using s told_add [of t p k 1] by (auto simp: told_def)
      then show "r = told t p (k + length (x # xs)) \<and> line_hears cfg False t (p + k + length (x # xs)) s'"
        using tripleD [OF Cons.IH [of "acc @ [b]" "Suc k"], of s1 r s'] run b by simp
    qed
  qed (simp add: triple_def)
  from this [of "[]" 0 "[0..<n]"] show ?thesis by (simp add: bang_bits_def)
qed

lemma one_bit: "drop_bit k w AND 1 = (of_bool (bit w k) :: u8)"
  by (rule bit_word_eqI) (auto simp: bit_simps)

lemma spi_receive:
  assumes "target_speaks L cfg t" "n \<le> 8 * DAP_SPI_MAX_BYTES" "clocks (clk_pin cfg) (ln_ev s) = c" "line_set cfg True s"
  shows "\<exists>s'. run (phy_spi_read_bits L n) s = (Inr (told t c n), s') \<and> s' = s\<lparr>ln_ev := SpiReceive n # ln_ev s\<rparr> \<and>
    line_set cfg True s' \<and> clocks (clk_pin cfg) (ln_ev s') = c + n"
proof -
  have "\<not> DAP_SPI_MAX_BYTES < bytes_for n" using assms(2) by (simp add: bytes_for_def)
  moreover have "unpack_bits (l_rx L (SpiReceive n # ln_ev s)) n = told t c n"
    using assms(1,3) by (auto simp: unpack_bits_def told_def target_speaks_def one_bit)
  ultimately show ?thesis
    using assms by (auto simp: phy_spi_read_bits_def target_speaks_def line_set_def rises_def)
qed

text \<open>\<open>phy_read_bits\<close> returns the target's next bits, first those the search for the start bit clocked in.\<close>

lemma bits_in:
  assumes "target_speaks L cfg t" "n \<le> 8 * DAP_SPI_MAX_BYTES"
  shows "triple (line_hears cfg spi t p) (phy_read_bits L n) (\<lambda>bs s. bs = told t p n \<and> line_hears cfg spi t (p + n) s)"
proof (rule tripleI)
  fix s r s' assume s: "line_hears cfg spi t p s" and run: "run (phy_read_bits L n) s = (r, s')"
  have use: "ln_use_spi s = spi" using s by (simp add: line_hears_def line_set_def)
  show "r = told t p n \<and> line_hears cfg spi t (p + n) s'"
  proof (cases spi)
    case False
    then have "run (bang_bits L n) s = (r, s')" using run use by (simp add: phy_read_bits_def)
    from tripleD [OF bang_bits_in [OF assms(1)] _ this] s False show ?thesis by simp
  next
    case True
    define q where "q = length (ln_rxq s)"
    have q: "ln_rxq s = told t p q" "clocks (clk_pin cfg) (ln_ev s) = p + q" "line_set cfg True s"
      using s True by (simp_all add: line_hears_def q_def)
    define s1 where "s1 = s\<lparr>ln_rxq := drop n (ln_rxq s)\<rparr>"
    have s1: "line_set cfg True s1" "clocks (clk_pin cfg) (ln_ev s1) = p + q"
      using q by (simp_all add: s1_def line_set_def)
    show ?thesis
    proof (cases "n \<le> q")
      case le: True
      have "r = told t p n" "s' = s1" "ln_rxq s1 = told t (p + n) (q - n)"
        using run use True le q(1) told_take [OF le, of t p] by (auto simp: phy_read_bits_def s1_def)
      then show ?thesis using s1 le by (simp add: line_hears_def True)
    next
      case False
      have early: "take n (ln_rxq s) = told t p q" "drop n (ln_rxq s) = []" using q(1) False by simp_all
      obtain s2 where s2: "run (phy_spi_read_bits L (n - q)) s1 = (Inr (told t (p + q) (n - q)), s2)" "line_set cfg True s2"
          "clocks (clk_pin cfg) (ln_ev s2) = p + n" "ln_rxq s2 = ln_rxq s1"
        using spi_receive [OF assms(1) _ s1(2,1), of "n - q"] assms(2) False by auto
      have "r = told t p q @ told t (p + q) (n - q)" "s' = s2"
        using run use True False s2(1) early by (auto simp: phy_read_bits_def s1_def)
      then show ?thesis
        using s2 False told_add [of t p q "n - q"] early(2) by (simp add: line_hears_def True s1_def)
    qed
  qed
qed

text \<open>How long the target keeps the host waiting for its start bit.\<close>

primrec busy :: "(nat \<Rightarrow> bool) \<Rightarrow> nat \<Rightarrow> nat \<Rightarrow> nat option" where
  "busy t p 0 = None"
| "busy t p (Suc m) = (if t p then Some 0 else map_option Suc (busy t (p + 1) m))"

lemma await_bang_in:
  assumes "target_speaks L cfg t"
  shows "triple (line_hears cfg False t p) (await_bang L m i) (\<lambda>w s. case busy t p m of
      None \<Rightarrow> w = -1 | Some k \<Rightarrow> w = i + int k \<and> line_hears cfg False t (p + k + 1) s)"
proof (induction m arbitrary: i p)
  case (Suc m)
  show ?case
    unfolding await_bang.simps
  proof (rule triple_bind [OF bang_in [OF assms]])
    fix b
    show "triple (\<lambda>s. b = of_bool (t p) \<and> line_hears cfg False t (p + 1) s) (if b \<noteq> 0 then ret i else await_bang L m (i + 1))
       (\<lambda>w s. case busy t p (Suc m) of None \<Rightarrow> w = -1 | Some k \<Rightarrow> w = i + int k \<and> line_hears cfg False t (p + k + 1) s)"
      using Suc.IH [of "p + 1" "i + 1"]
      by (cases "t p"; cases "busy t (p + 1) m") (auto simp: triple_def add.assoc)
  qed
qed (simp add: triple_def)

lemma await_spi_in:
  assumes "target_speaks L cfg t"
  shows "triple (\<lambda>s. line_hears cfg True t p s \<and> ln_rxq s = []) (await_spi L m i) (\<lambda>w s. case busy t p m of
      None \<Rightarrow> w = -1 | Some k \<Rightarrow> w = i + int k \<and> line_hears cfg True t (p + k + 1) s)"
proof (induction m arbitrary: i p)
  case (Suc m)
  show ?case
  proof (rule tripleI)
    fix s w s' assume s: "line_hears cfg True t p s \<and> ln_rxq s = []" and run: "run (await_spi L (Suc m) i) s = (w, s')"
    obtain s1 where s1: "run (phy_spi_read_bits L 1) s = (Inr [of_bool (t p)], s1)" "line_set cfg True s1"
        "clocks (clk_pin cfg) (ln_ev s1) = p + 1" "s1 = s\<lparr>ln_ev := SpiReceive 1 # ln_ev s\<rparr>"
      using spi_receive [OF assms, of 1 s p] s by (auto simp: line_hears_def DAP_SPI_MAX_BYTES_def told_def)
    then have nxt: "run (rxq_next L) s = (Some (of_bool (t p)), s1)"
      using s by (simp add: rxq_next_def DAP_SPI_AWAIT_CHUNK_def)
    have s1': "line_hears cfg True t (p + 1) s1 \<and> ln_rxq s1 = []" using s s1 by (simp add: line_hears_def)
    show "case busy t p (Suc m) of None \<Rightarrow> w = -1 | Some k \<Rightarrow> w = i + int k \<and> line_hears cfg True t (p + k + 1) s'"
    proof (cases "t p")
      case True
      obtain s2 where s2: "run (phy_spi_read_bits L 1) s1 = (Inr [of_bool (t (p + 1))], s2)" "line_set cfg True s2"
          "clocks (clk_pin cfg) (ln_ev s2) = p + 2"
        using spi_receive [OF assms, of 1 s1 "p + 1"] s1 by (auto simp: DAP_SPI_MAX_BYTES_def told_def)
      have "s1\<lparr>ln_rxq := []\<rparr> = s1" using s1' by simp
      then have "w = i" "s' = s2\<lparr>ln_rxq := [of_bool (t (p + 1))]\<rparr>"
        using run nxt True s2(1) by (auto simp: rxq_reset_def)
      then show ?thesis using True s2 by (simp add: line_hears_def line_set_def told_def)
    next
      case False
      then have "run (await_spi L m (i + 1)) s1 = (w, s')" using run nxt by simp
      from tripleD [OF Suc.IH s1' this] show ?thesis using False by (cases "busy t (p + 1) m") (auto simp: add.assoc)
    qed
  qed
qed (simp add: triple_def)

lemma await_in:
  assumes "target_speaks L cfg t" "line_hears cfg spi t p s" "spi \<Longrightarrow> ln_rxq s = []"
    and "run (phy_await_start_bit L m) s = (w, s')"
  shows "case busy t p m of None \<Rightarrow> w = -1 | Some k \<Rightarrow> w = int k \<and> line_hears cfg spi t (p + k + 1) s'"
proof -
  have use: "ln_use_spi s = spi" using assms(2) by (simp add: line_hears_def line_set_def)
  show ?thesis
  proof (cases spi)
    case True
    then have "s\<lparr>ln_rxq := []\<rparr> = s" using assms(3) by simp
    then have "run (await_spi L m 0) s = (w, s')" using assms(4) True use by (simp add: phy_await_start_bit_def rxq_reset_def)
    from tripleD [OF await_spi_in [OF assms(1), of p] _ this] assms(2,3) True show ?thesis by (simp split: option.splits)
  next
    case False
    then have "run (await_bang L m 0) s = (w, s')" using assms(4) use by (simp add: phy_await_start_bit_def)
    from tripleD [OF await_bang_in [OF assms(1), of p] _ this] assms(2) False show ?thesis by (simp split: option.splits)
  qed
qed

definition reply_told :: "(nat \<Rightarrow> bool) \<Rightarrow> nat \<Rightarrow> nat \<Rightarrow> nat \<Rightarrow> int \<times> u8 list" where
  "reply_told t p m n = (case busy t p m of None \<Rightarrow> (-1, []) | Some w \<Rightarrow> (int w, told t (p + w + 1) n))"

text \<open>C11: (Both back ends hear the same reply.) If the target puts out one bit per clock, the search for the start bit and the
  bits read after it come out the same, bit-banged or through the SPI peripheral: the number of busy clocks before the
  first one, and the target's next bits, although the SPI search clocks one bit too many and keeps it in a queue.\<close>

theorem same_reply:
  assumes "target_speaks L cfg t" "line_hears cfg spi t p s" "spi \<longrightarrow> ln_rxq s = []" "n \<le> 8 * DAP_SPI_MAX_BYTES"
  shows "result (do {
      w \<leftarrow> phy_await_start_bit L m;
      if w < 0 then ret (w, []) else do { bits \<leftarrow> phy_read_bits L n; ret (w, bits) } }) s = reply_told t p m n"
proof -
  obtain w s1 where w: "run (phy_await_start_bit L m) s = (w, s1)" by fastforce
  obtain bits s2 where b: "run (phy_read_bits L n) s1 = (bits, s2)" by fastforce
  show ?thesis
    using await_in [OF assms(1,2) _ w] assms(3) w b tripleD [OF bits_in [OF assms(1,4)] _ b]
    by (auto simp: reply_told_def result_def split: option.splits)
qed

section \<open>A reply in one transfer\<close>

lemma busy_least: "busy t p m = Some w \<longleftrightarrow> w < m \<and> t (p + w) \<and> (\<forall>i<w. \<not> t (p + i))"
proof (induction m arbitrary: p w)
  case (Suc m)
  then show ?case
    by (cases w) (auto simp: All_less_Suc2)
qed simp

lemma zeros_before:
  assumes "w < n" "t (p + w)" "\<forall>i<w. \<not> t (p + i)"
  shows "length (takeWhile (\<lambda>b. b = 0) (told t p n)) = w"
proof -
  have "told t p n = replicate w 0 @ 1 # told t (p + w + 1) (n - w - 1)"
  proof -
    have "told t p w = replicate w 0" using assms(3) by (auto simp: told_def intro!: nth_equalityI)
    then show ?thesis
      using assms told_add [of t p w "n - w"] told_Suc [of t "p + w" "n - w - 1"] by (simp add: Suc_diff_Suc)
  qed
  then show ?thesis by (simp add: takeWhile_tail)
qed

lemma run_read_reply:
  assumes "ln_use_spi s" "ln_exp_wait s = e" "reply_take e (reply_need rb) = n" "e + 1 + reply_need rb \<le> DAP_REPLY_WINDOW_MAX"
    and "run (phy_spi_read_bits L n) s = (Inr win, s1)"
  shows "run (phy_read_reply L rb m) s =
    (if win_at L win e \<noteq> 0 \<and> (e = 0 \<or> win_at L win (e - 1) = 0)
     then ((int e, map (\<lambda>k. win_at L win (e + 1 + k)) [0..<reply_need rb]), s1)
     else let found = length (takeWhile (\<lambda>b. b = 0) win)
       in ((-1, []), if found < n \<and> found \<noteq> e then s1\<lparr>ln_exp_wait := found\<rparr> else s1))"
  using assms by (simp add: phy_read_reply_def Let_def)


section \<open>A whole exchange\<close>

text \<open>While the target drives, nothing the host does puts a bit on the wire.\<close>

definition only_listens :: "line_env \<Rightarrow> line \<Rightarrow> line \<Rightarrow> bool" where
  "only_listens L s s' \<longleftrightarrow> (\<forall>cfg spi w. line_listens L cfg spi w s \<longrightarrow> line_listens L cfg spi w s')"

interpretation listen_frame: preorder_frame "only_listens L" for L
  by unfold_locales (auto simp: only_listens_def)

lemma listen_in: "rel (only_listens L) (clock_in_bit L)"
proof (rule relI)
  fix s r s' assume run: "run (clock_in_bit L) s = (r, s')"
  show "only_listens L s s'"
    unfolding only_listens_def
  proof (intro allI impI)
    fix cfg spi w assume "line_listens L cfg spi w s"
    then show "line_listens L cfg spi w s'"
      using run covers_pins [of cfg]
      by (cases "ln_half_ticks s = 0")
        (auto simp: clock_in_bit_def dat_get_def delay_ticks_def run_set line_listens_def line_set_def split_beta)
  qed
qed

lemma listen_spi: "rel (only_listens L) (phy_spi_read_bits L n)"
  by (rule relI) (auto simp: phy_spi_read_bits_def only_listens_def line_listens_def line_set_def rises_def split: if_splits)

lemma listen_own:
  "rel (only_listens L) (modify (\<lambda>s. s\<lparr>ln_rxq := f s\<rparr>))"
  "rel (only_listens L) (modify (\<lambda>s. s\<lparr>ln_exp_wait := k\<rparr>))"
  "rel (only_listens L) (modify (\<lambda>s. s\<lparr>ln_undefined := True\<rparr>))"
  by (auto intro!: relI simp: only_listens_def line_listens_def line_set_def)

lemma listen_sum: "(\<And>a. rel (only_listens L) (f a)) \<Longrightarrow> (\<And>b. rel (only_listens L) (g b)) \<Longrightarrow>
    rel (only_listens L) (case x of Inl a \<Rightarrow> f a | Inr b \<Rightarrow> g b)"
  by (cases x) simp_all

lemmas listens = listen_frame.rules listen_in listen_spi listen_own listen_sum

lemma listen_await: "rel (only_listens L) (await_spi L m i)" "rel (only_listens L) (await_bang L m i)"
proof -
  show "rel (only_listens L) (await_spi L m i)"
    by (induction m arbitrary: i) (simp add: listens, unfold await_spi.simps rxq_next_def rxq_reset_def, intro listens)
  show "rel (only_listens L) (await_bang L m i)"
    by (induction m arbitrary: i) (simp add: listens, unfold await_bang.simps, intro listens)
qed

lemma listen_reply: "rel (only_listens L) (phy_read_reply L rb m)"
  unfolding phy_read_reply_def phy_await_start_bit_def phy_read_bits_def bang_bits_def rxq_reset_def Let_def
  by (intro listens listen_await)

definition phy_exchange :: "line_env \<Rightarrow> dap_frame \<Rightarrow> nat \<Rightarrow> nat \<Rightarrow> nat \<Rightarrow> (line, int \<times> u8 list) state" where
  "phy_exchange L f lead rb m = do {
     phy_write_frame_with_lead L f lead;
     phy_turnaround_to_read;
     r \<leftarrow> phy_read_reply L rb m;
     phy_turnaround_to_write;
     ret r }"


definition line_cfg0 :: dap_phy_cfg_t where
  "line_cfg0 = \<lparr>clk_pin = 4, dat_pin = 35, dir_pin = 6, trst_pin = -1, clock_hz = 1000000\<rparr>"

definition line0 :: "bool \<Rightarrow> line" where
  "line0 spi = \<lparr>ln_ev = (if spi then [PadSignal 35 True, PadSignal 4 True, PadMode 35 PAD_INOUT] else [PadMode 35 PAD_OUT]), ln_cfg = line_cfg0, ln_ready = True,
     ln_half_ticks = 108, ln_use_spi = spi, ln_exp_wait = 0, ln_clk = pin_reg 4, ln_dat = pin_reg 35, ln_rxq = [],
     ln_spi_ready = spi, ln_spi_clk = 4, ln_spi_dat = 35, ln_undefined = False\<rparr>"

definition high_line :: line_env where
  "high_line = \<lparr>l_in = \<lambda>_. NOT 0, l_high = \<lambda>_. True, l_err = \<lambda>_. ESP_OK, l_rx = \<lambda>_ _. NOT 0, l_stack = \<lambda>_. 0\<rparr>"

lemma line0_ok: "pads_ok line_cfg0" "line_set line_cfg0 spi (line0 spi)" "line_drives high_line line_cfg0 spi [] (line0 spi)"
    "line_hears line_cfg0 spi t 0 (line0 spi)" "target_speaks high_line line_cfg0 (\<lambda>_. True)"
  by (auto simp: pads_ok_def line_cfg0_def line0_def line_set_def line_drives_def line_hears_def rises_def target_speaks_def
      high_line_def pin_reg_def)


lemma same_reply_witness:
  "result (do {
      w \<leftarrow> phy_await_start_bit high_line 248;
      if w < 0 then ret (w, []) else do { bits \<leftarrow> phy_read_bits high_line 4; ret (w, bits) } }) (line0 True) = (0, [1, 1, 1, 1])"
  using same_reply [OF line0_ok(5,4), of True 4 248] by (simp add: line0_def reply_told_def told_def busy.simps eval_nat_numeral DAP_SPI_MAX_BYTES_def)


section \<open>The window\<close>

definition in_window :: "line \<Rightarrow> line \<Rightarrow> bool" where
  "in_window s s' \<longleftrightarrow> (ln_exp_wait s < DAP_REPLY_WINDOW_MAX \<longrightarrow> ln_exp_wait s' < DAP_REPLY_WINDOW_MAX)"

interpretation window_frame: preorder_frame in_window
  by unfold_locales (auto simp: in_window_def)

lemma window_steps:
  "rel in_window (clock_in_bit L)" "rel in_window (phy_spi_read_bits L n)" "rel in_window (modify (\<lambda>s. s\<lparr>ln_rxq := f s\<rparr>))"
  "rel in_window (modify (\<lambda>s. s\<lparr>ln_undefined := True\<rparr>))"
  "k < DAP_REPLY_WINDOW_MAX \<Longrightarrow> rel in_window (modify (\<lambda>s. s\<lparr>ln_exp_wait := k\<rparr>))"
  "(\<And>a. rel in_window (g a)) \<Longrightarrow> (\<And>b. rel in_window (h b)) \<Longrightarrow> rel in_window (case x of Inl a \<Rightarrow> g a | Inr b \<Rightarrow> h b)"
  by (auto intro!: relI simp: in_window_def clock_in_bit_def dat_get_def delay_ticks_def run_set split_beta phy_spi_read_bits_def
      dest: relD split: if_splits sum.splits)

lemma window_await: "rel in_window (await_spi L m i)" "rel in_window (await_bang L m i)"
proof -
  show "rel in_window (await_spi L m i)"
    by (induction m arbitrary: i)
      (simp add: window_frame.return, unfold await_spi.simps rxq_next_def rxq_reset_def, intro window_frame.rules window_steps)
  show "rel in_window (await_bang L m i)"
    by (induction m arbitrary: i) (simp add: window_frame.return, unfold await_bang.simps, intro window_frame.rules window_steps)
qed

text \<open>The place where the start bit is looked for never leaves the window.\<close>

lemma exp_wait_in_window: "rel in_window (phy_read_reply L rb m)"
  unfolding phy_read_reply_def phy_await_start_bit_def phy_read_bits_def bang_bits_def rxq_reset_def Let_def
  by (intro window_frame.rules window_steps window_await) (simp add: reply_take_def Let_def split: if_splits)

text \<open>Two late replies move the expected wait so far that the third one's bits are copied from beyond the window.\<close>

definition late_line :: line_env where
  "late_line = high_line\<lparr>l_rx := \<lambda>h k. case h of
       SpiReceive n # _ \<Rightarrow> (let i = min 76 (n - 1) in if k = i div 8 then push_bit (i mod 8) 1 else 0)
     | _ \<Rightarrow> 0\<rparr>"

lemma reply_past_window:
  "\<not> ln_undefined (final (do { phy_read_reply late_line 32 248; phy_read_reply late_line 32 248 }) (line0 True)) \<and>
   ln_undefined (final (do { phy_read_reply late_line 32 248; phy_read_reply late_line 32 248; phy_read_reply late_line 32 248 }) (line0 True))"
  by code_simp

end
