(* ===== verification/Gdb_Target.thy ===== *)
theory Gdb_Target
  imports Flash_Session
begin

unbundle bit_operations_syntax

text \<open>
  The debugger adapter (\<open>tricore_bmp.c\<close>): the calls of GDB on a core - memory, registers, run control, breakpoints,
  loads into flash, attach, detach, reset - and the probe that registers the cores.
\<close>

section \<open>Types of the debugger's core\<close>

text \<open>The names the adapter uses of the debugger's core, a component outside this repository. Targets and areas of
  flash are kept here as the adapter hands them over; the lists are in the order of the calls.\<close>

datatype target_halt_reason =
    TARGET_HALT_RUNNING | TARGET_HALT_ERROR | TARGET_HALT_REQUEST | TARGET_HALT_STEPPING
  | TARGET_HALT_BREAKPOINT | TARGET_HALT_WATCHPOINT

datatype target_breakwatch =
    TARGET_BREAK_SOFT | TARGET_BREAK_HARD | TARGET_WATCH_WRITE | TARGET_WATCH_READ | TARGET_WATCH_ACCESS

record breakwatch =
  bw_type :: target_breakwatch
  bw_addr :: u32
  bw_size :: u32

definition BMP_HALT_LINE :: int where "BMP_HALT_LINE = 1"
definition LOAD_MAX_SECTORS :: nat where "LOAD_MAX_SECTORS = 768"

text \<open>A sector collected for a load: its bytes, or \<open>None\<close> when GDB only asked to erase it.\<close>

record load_sector_t =
  ls_address :: u32
  ls_data :: "u8 list option"

record flash_area =
  fa_start :: u32
  fa_length :: u32
  fa_block :: u32
  fa_program :: bool     \<comment> \<open>program flash, or an area whose writes are skipped\<close>

record gdb = ucb +
  g_error :: bool                       \<comment> \<open>\<open>s_error\<close>\<close>
  g_stepped :: "int \<Rightarrow> bool"            \<comment> \<open>\<open>s_stepped\<close>\<close>
  g_resumed :: "int \<Rightarrow> bool"            \<comment> \<open>\<open>s_resumed\<close>\<close>
  g_table :: bool                       \<comment> \<open>\<open>s_load\<close> is not \<open>NULL\<close>\<close>
  g_load :: "load_sector_t list"        \<comment> \<open>the first \<open>s_load_n\<close> of \<open>s_load\<close>\<close>
  g_flash_mode :: "int \<Rightarrow> bool"         \<comment> \<open>\<open>flash_mode\<close> of a core's target\<close>
  g_target :: "int \<Rightarrow> bool"             \<comment> \<open>\<open>s_targets\<close>: not \<open>NULL\<close>\<close>
  g_name :: "int \<Rightarrow> bool"               \<comment> \<open>\<open>s_names\<close>: without the note that the core has not started\<close>
  g_ram :: "int \<Rightarrow> (u32 \<times> u32) list"    \<comment> \<open>the memory map of a core's target\<close>
  g_flash :: "int \<Rightarrow> flash_area list"

section \<open>Memory and registers\<close>

definition set_error :: "(gdb, unit) state" where
  "set_error = modify (\<lambda>s. s\<lparr>g_error := True\<rparr>)"

definition tricore_mem_read :: "dev \<Rightarrow> u32 \<Rightarrow> nat \<Rightarrow> (gdb, u8 list) state" where
  "tricore_mem_read D src len = do {
     (err, bytes) \<leftarrow> tricore_read_mem D src len;
     if err \<noteq> ESP_OK then do { set_error; ret (replicate len 0) } else ret bytes }"

definition tricore_mem_write :: "dev \<Rightarrow> u32 \<Rightarrow> u8 list \<Rightarrow> (gdb, unit) state" where
  "tricore_mem_write D dest src = do {
     err \<leftarrow> tricore_write_mem D dest src;
     if_do (err \<noteq> ESP_OK) set_error }"

definition tricore_check_error :: "(gdb, bool) state" where
  "tricore_check_error = do {
     had \<leftarrow> gets g_error;
     modify (\<lambda>s. s\<lparr>g_error := False\<rparr>);
     ret had }"

definition tricore_regs_read :: "dev \<Rightarrow> int \<Rightarrow> (gdb, u32 list) state" where
  "tricore_regs_read D core = do {
     (err, regs) \<leftarrow> tricore_read_all_regs D core;
     if err \<noteq> ESP_OK then do { set_error; ret (replicate (nat TRICORE_NUM_REGS) 0) } else ret regs }"

definition tricore_regs_write :: "dev \<Rightarrow> int \<Rightarrow> u32 list \<Rightarrow> (gdb, unit) state" where
  "tricore_regs_write D core regs = for_each (\<lambda>i. do {
     err \<leftarrow> tricore_write_reg D core (int i) (regs ! i);
     if_do (err \<noteq> ESP_OK) set_error }) [0..<nat TRICORE_NUM_REGS]"

text \<open>One register: the number of bytes moved, and the value.\<close>

definition tricore_reg_read :: "dev \<Rightarrow> int \<Rightarrow> u32 \<Rightarrow> nat \<Rightarrow> (gdb, nat \<times> u32) state" where
  "tricore_reg_read D core reg room =
     (if room < 4 \<or> uint reg \<ge> TRICORE_NUM_REGS then ret (0, 0)
      else do {
        (err, v) \<leftarrow> tricore_read_reg D core (uint reg) 0;
        if err \<noteq> ESP_OK then do { set_error; ret (0, 0) } else ret (4, v) })"

definition tricore_reg_write :: "dev \<Rightarrow> int \<Rightarrow> u32 \<Rightarrow> u32 \<Rightarrow> nat \<Rightarrow> (gdb, nat) state" where
  "tricore_reg_write D core reg v room =
     (if room < 4 \<or> uint reg \<ge> TRICORE_NUM_REGS then ret 0
      else do {
        err \<leftarrow> tricore_write_reg D core (uint reg) v;
        if err \<noteq> ESP_OK then do { set_error; ret 0 } else ret 4 })"

section \<open>Run control\<close>

definition tricore_halt_request_cb :: "dev \<Rightarrow> int \<Rightarrow> (gdb, unit) state" where
  "tricore_halt_request_cb D core = do {
     err \<leftarrow> tricore_halt_request D core BMP_HALT_LINE;
     if_do (err \<noteq> ESP_OK) set_error }"

text \<open>Which comparator of the accumulator stopped the core: the first of GDB's, and the address it watches.\<close>

fun stop_cause :: "u32 \<Rightarrow> (int \<Rightarrow> tricore_bp option) \<Rightarrow> int list \<Rightarrow> (target_halt_reason \<times> u32 option) option" where
  "stop_cause acc bp_of [] = None"
| "stop_cause acc bp_of (slot # rest) =
     (if acc AND push_bit (nat slot) 1 = 0 then stop_cause acc bp_of rest
      else case bp_of slot of None \<Rightarrow> stop_cause acc bp_of rest
        | Some bp \<Rightarrow>
            if bp_kind bp = TRICORE_BP_WATCH then Some (TARGET_HALT_WATCHPOINT, Some (bp_addr bp))
            else if bp_kind bp = TRICORE_BP_USER then Some (TARGET_HALT_BREAKPOINT, None)
            else stop_cause acc bp_of rest)"

definition tricore_halt_poll_cb :: "dev \<Rightarrow> int \<Rightarrow> (gdb, target_halt_reason \<times> u32 option) state" where
  "tricore_halt_poll_cb D core = do {
     halted \<leftarrow> tricore_halt_poll D core;
     if \<not> halted then do {
       resumed \<leftarrow> gets (\<lambda>s. g_resumed s core);
       if \<not> resumed then do {
         tricore_halt D core BMP_HALT_LINE 200;
         halted \<leftarrow> tricore_is_halted D core;
         ret (if halted then TARGET_HALT_REQUEST else TARGET_HALT_RUNNING, None) }
       else ret (TARGET_HALT_RUNNING, None) }
     else do {
       modify (\<lambda>s. s\<lparr>g_resumed := (g_resumed s)(core := False)\<rparr>);
       (err, acc) \<leftarrow> tricore_trigger_acc D core 0;
       cause \<leftarrow> gets (\<lambda>s. if err = ESP_OK \<and> acc \<noteq> 0
         then stop_cause acc (\<lambda>slot. tricore_bp_of_slot core slot s) all_slots else None);
       (case cause of Some reason \<Rightarrow> ret reason
        | None \<Rightarrow> do {
            stepped \<leftarrow> gets (\<lambda>s. g_stepped s core);
            if stepped then do {
              modify (\<lambda>s. s\<lparr>g_stepped := (g_stepped s)(core := False)\<rparr>);
              ret (TARGET_HALT_STEPPING, None) }
            else ret (TARGET_HALT_REQUEST, None) }) } }"

definition tricore_halt_resume :: "dev \<Rightarrow> int \<Rightarrow> bool \<Rightarrow> (gdb, unit) state" where
  "tricore_halt_resume D core step =
     (if step then do {
        (err, r) \<leftarrow> tricore_step D core 500;
        if_do (err \<noteq> ESP_OK) set_error;
        modify (\<lambda>s. s\<lparr>g_stepped := (g_stepped s)(core := True)\<rparr>) }
      else do {
        halted \<leftarrow> tricore_is_halted D core;
        (err, pc) \<leftarrow> (if halted then tricore_read_pc D core 0 else ret (ESP_FAIL, 0));
        here \<leftarrow> gets (\<lambda>s. if err = ESP_OK then tricore_bp_at core pc s else None);
        if_do (case here of None \<Rightarrow> False | Some bp \<Rightarrow> bp_kind bp = TRICORE_BP_USER) (do {
          tricore_step D core 500;
          skip });
        modify (\<lambda>s. s\<lparr>g_resumed := (g_resumed s)(core := True)\<rparr>);
        tricore_request_resume D core;
        skip })"

section \<open>Breakpoints and watchpoints\<close>

definition tricore_breakwatch_set :: "dev \<Rightarrow> int \<Rightarrow> breakwatch \<Rightarrow> (gdb, int) state" where
  "tricore_breakwatch_set D core bw = do {
     slot \<leftarrow> (case bw_type bw of
         TARGET_BREAK_SOFT \<Rightarrow> tricore_bp_add D core (bw_addr bw) TRICORE_BP_USER
       | TARGET_BREAK_HARD \<Rightarrow> tricore_bp_add D core (bw_addr bw) TRICORE_BP_USER
       | TARGET_WATCH_WRITE \<Rightarrow> tricore_bp_add_watch D core (bw_addr bw) (bw_size bw) False True
       | TARGET_WATCH_READ \<Rightarrow> tricore_bp_add_watch D core (bw_addr bw) (bw_size bw) True False
       | TARGET_WATCH_ACCESS \<Rightarrow> tricore_bp_add_watch D core (bw_addr bw) (bw_size bw) True True);
     ret (if slot < 0 then -1 else 0) }"

definition tricore_breakwatch_clear :: "dev \<Rightarrow> int \<Rightarrow> breakwatch \<Rightarrow> (gdb, int) state" where
  "tricore_breakwatch_clear D core bw = do {
     tricore_bp_remove D core (bw_addr bw);
     ret 0 }"

definition clear_core :: "dev \<Rightarrow> int \<Rightarrow> (gdb, unit) state" where
  "clear_core D core = do {
     tricore_bp_clear_kind D core TRICORE_BP_USER;
     tricore_bp_clear_kind D core TRICORE_BP_STEP;
     tricore_bp_clear_kind D core TRICORE_BP_WATCH;
     tricore_bp_clear_kind D core TRICORE_BP_WATCH_HI }"

definition forget_triggers :: "dev \<Rightarrow> (gdb, unit) state" where
  "forget_triggers D = do {
     n \<leftarrow> gets core_count;
     for_each (\<lambda>i. do {
       core \<leftarrow> gets (tricore_core_index i);
       clear_core D core;
       tricore_freeze_timer D core True;
       skip }) [0..n - 1] }"

section \<open>Loading into flash\<close>

definition load_reset :: "(gdb, unit) state" where
  "load_reset = modify (\<lambda>s. s\<lparr>g_load := [], g_table := False\<rparr>)"

text \<open>\<open>load_sector\<close>: the index of the sector of an address, entered if need be.\<close>

definition load_index :: "u32 \<Rightarrow> load_sector_t list \<Rightarrow> nat" where
  "load_index address load = length (takeWhile (\<lambda>l. ls_address l \<noteq> address) load)"

definition load_sector :: "dev \<Rightarrow> u32 \<Rightarrow> (gdb, nat option) state" where
  "load_sector D address = do {
     let address = sector_of (tricore_flash_to_physical address);
     load \<leftarrow> gets g_load;
     let i = load_index address load;
     if i < length load then ret (Some i)
     else do {
       have \<leftarrow> gets g_table;
       if_do (\<not> have) (do {
         ok \<leftarrow> ask (EvAlloc (LOAD_MAX_SECTORS * 8)) (d_yes D);
         modify (\<lambda>s. s\<lparr>g_table := ok\<rparr>) });
       have \<leftarrow> gets g_table;
       if \<not> have \<or> length load = LOAD_MAX_SECTORS then ret None
       else do {
         modify (\<lambda>s. s\<lparr>g_load := load @ [\<lparr>ls_address = address, ls_data = None\<rparr>]\<rparr>);
         ret (Some (length load)) } } }"

text \<open>How many of the sectors that follow continue a run, and the stages of the plan in ascending order: sectors to
  erase only, and regions of consecutive sectors.\<close>

fun run_of :: "u32 \<Rightarrow> load_sector_t list \<Rightarrow> nat" where
  "run_of place [] = 0"
| "run_of place (l # ls) =
     (if ls_data l \<noteq> None \<and> ls_address l = place + TRICORE_FLASH_SECTOR then Suc (run_of (ls_address l) ls) else 0)"

lemma run_of_le: "run_of place ls \<le> length ls"
  by (induction ls arbitrary: place) auto

definition region_of :: "u32 \<Rightarrow> load_sector_t list \<Rightarrow> tricore_flash_region" where
  "region_of place ls =
     \<lparr>rg_address = place, rg_length = of_nat (length ls) * TRICORE_FLASH_SECTOR,
      rg_data = (\<lambda>i. concat (map (\<lambda>l. the (ls_data l)) ls) ! i)\<rparr>"

datatype load_stage = ERASE_ONLY u32 | PROGRAM_RUN tricore_flash_region

function load_plan :: "load_sector_t list \<Rightarrow> load_stage list" where
  "load_plan [] = []"
| "load_plan (l # ls) =
     (if ls_data l = None then ERASE_ONLY (ls_address l) # load_plan ls
      else let n = run_of (ls_address l) ls
        in PROGRAM_RUN (region_of (ls_address l) (l # take n ls)) # load_plan (drop n ls))"
  by pat_completeness auto
termination by (relation "measure length") auto

fun load_stages :: "dev \<Rightarrow> load_stage list \<Rightarrow> tricore_flash_region list \<Rightarrow> (gdb, bool \<times> tricore_flash_region list) state" where
  "load_stages D [] regions = ret (True, regions)"
| "load_stages D (ERASE_ONLY place # later) regions = do {
     err \<leftarrow> tricore_flash_erase D place TRICORE_FLASH_SECTOR;
     if err \<noteq> ESP_OK then ret (False, regions) else load_stages D later regions }"
| "load_stages D (PROGRAM_RUN r # later) regions = do {
     room \<leftarrow> ask (EvAlloc (unat (rg_length r))) (d_yes D);
     if \<not> room then ret (False, regions) else load_stages D later (regions @ [r]) }"

text \<open>The bytes of a run move from the table into its region; the table itself is given back by the caller.\<close>

definition load_apply :: "dev \<Rightarrow> (gdb, bool) state" where
  "load_apply D = do {
     load \<leftarrow> gets g_load;
     if load = [] then ret True
     else do {
       let load = sort_key ls_address load;
       modify (\<lambda>s. s\<lparr>g_load := load\<rparr>);
       a \<leftarrow> ask (EvAlloc (length load * 12)) (d_yes D);
       b \<leftarrow> ask (EvAlloc (length load * 4)) (d_yes D);
       (ok, regions) \<leftarrow> (if a \<and> b then load_stages D (load_plan load) [] else ret (False, []));
       if ok \<and> regions \<noteq> [] then do {
         tricore_flash_set_differential True;
         err \<leftarrow> tricore_flash_apply D regions;
         ret (err = ESP_OK) }
       else ret ok } }"

definition tricore_enter_flash_mode :: "dev \<Rightarrow> (gdb, bool) state" where
  "tricore_enter_flash_mode D = do {
     load_reset;
     err \<leftarrow> tricore_flash_begin D;
     ret (err = ESP_OK) }"

definition tricore_exit_flash_mode :: "dev \<Rightarrow> (gdb, bool) state" where
  "tricore_exit_flash_mode D = do {
     ok \<leftarrow> load_apply D;
     load_reset;
     err \<leftarrow> tricore_flash_end D False;
     forget_triggers D;
     ret (ok \<and> err = ESP_OK) }"

definition flash_failed :: "dev \<Rightarrow> int \<Rightarrow> (gdb, bool) state" where
  "flash_failed D core = do {
     load_reset;
     tricore_flash_end D False;
     modify (\<lambda>s. s\<lparr>g_flash_mode := (g_flash_mode s)(core := False)\<rparr>);
     ret False }"

definition erase_mark :: "dev \<Rightarrow> u32 \<Rightarrow> (gdb, esp_err) state" where
  "erase_mark D place = do {
     i \<leftarrow> load_sector D place;
     ret (if i = None then ESP_ERR_NO_MEM else ESP_OK) }"

definition pflash_erase :: "dev \<Rightarrow> int \<Rightarrow> u32 \<Rightarrow> u32 \<Rightarrow> (gdb, bool) state" where
  "pflash_erase D core addr len = do {
     err \<leftarrow> for_ok (erase_mark D) (sector_walk (2 ^ 18) addr (addr + len));
     if err \<noteq> ESP_OK then flash_failed D core else ret True }"

text \<open>One round of \<open>pflash_write\<close>: the bytes from an offset on, up to a sector of them.\<close>

definition write_sector_bytes :: "dev \<Rightarrow> u32 \<Rightarrow> u8 list \<Rightarrow> nat \<Rightarrow> (gdb, esp_err) state" where
  "write_sector_bytes D dest src off = do {
     i \<leftarrow> load_sector D (dest + of_nat off);
     (case i of None \<Rightarrow> ret ESP_ERR_NO_MEM
      | Some i \<Rightarrow> do {
          l \<leftarrow> gets (\<lambda>s. g_load s ! i);
          room \<leftarrow> (if ls_data l = None then ask (EvAlloc (unat TRICORE_FLASH_SECTOR)) (d_yes D) else ret True);
          if \<not> room then ret ESP_ERR_NO_MEM
          else do {
            let old = (case ls_data l of None \<Rightarrow> replicate (unat TRICORE_FLASH_SECTOR) TRICORE_FLASH_ERASED | Some d \<Rightarrow> d);
            let new = take (unat TRICORE_FLASH_SECTOR) (drop off src);
            modify (\<lambda>s. s\<lparr>g_load := (g_load s)[i := l\<lparr>ls_data := Some (new @ drop (length new) old)\<rparr>]\<rparr>);
            ret ESP_OK } }) }"

definition pflash_write :: "dev \<Rightarrow> int \<Rightarrow> u32 \<Rightarrow> u8 list \<Rightarrow> (gdb, bool) state" where
  "pflash_write D core dest src = do {
     let sz = unat TRICORE_FLASH_SECTOR;
     err \<leftarrow> for_ok (write_sector_bytes D dest src) (map (\<lambda>k. k * sz) [0..<(length src + sz - 1) div sz]);
     if err \<noteq> ESP_OK then flash_failed D core else ret True }"

definition ucb_erase_skipped :: "u32 \<Rightarrow> u32 \<Rightarrow> (gdb, bool) state" where
  "ucb_erase_skipped addr len = ret True"

definition ucb_write_skipped :: "u32 \<Rightarrow> u8 list \<Rightarrow> (gdb, bool) state" where
  "ucb_write_skipped dest src = ret True"

section \<open>The memory map\<close>

definition k_ram :: "(u32 \<times> u32) list" where
  "k_ram = [(0x70000000, 0x110000), (0x60000000, 0x110000), (0x50000000, 0x110000), (0x40000000, 0x110000),
     (0x90000000, 0x60000), (0xB0000000, 0x60000), (0xC0000000, 0x10010000), (0xF0000000, 0x10000000)]"

definition add_flash :: "dev \<Rightarrow> int \<Rightarrow> flash_area \<Rightarrow> (gdb, unit) state" where
  "add_flash D core area = do {
     ok \<leftarrow> ask (EvAlloc 1) (d_yes D);
     if_do ok (modify (\<lambda>s. s\<lparr>g_flash := (g_flash s)(core := g_flash s core @ [area])\<rparr>)) }"

definition add_memory_map :: "dev \<Rightarrow> int \<Rightarrow> (gdb, unit) state" where
  "add_memory_map D core = do {
     modify (\<lambda>s. s\<lparr>g_ram := (g_ram s)(core := k_ram)\<rparr>);
     tricore_flash_layout D;
     ranges \<leftarrow> gets layout;
     for_each (\<lambda>(start, stop). do {
       add_flash D core \<lparr>fa_start = start - 0x20000000, fa_length = stop - start, fa_block = TRICORE_FLASH_SECTOR, fa_program = True\<rparr>;
       add_flash D core \<lparr>fa_start = start, fa_length = stop - start, fa_block = TRICORE_FLASH_SECTOR, fa_program = True\<rparr> }) ranges;
     add_flash D core \<lparr>fa_start = 0xAF000000, fa_length = 0x01000000, fa_block = 0x200, fa_program = False\<rparr> }"

section \<open>Attach and detach\<close>

text \<open>\<open>target_halt_request\<close> and \<open>target_halt_poll\<close> of the debugger's core call the target's own entries, which are the two
  operations above.\<close>

primrec attach_polls :: "dev \<Rightarrow> int \<Rightarrow> nat \<Rightarrow> (gdb, target_halt_reason) state" where
  "attach_polls D core 0 = ret TARGET_HALT_RUNNING"
| "attach_polls D core (Suc k) = do {
     (reason, watch) \<leftarrow> tricore_halt_poll_cb D core;
     if reason \<noteq> TARGET_HALT_RUNNING then ret reason
     else do { vTaskDelay 1; attach_polls D core k } }"

definition tricore_attach :: "dev \<Rightarrow> int \<Rightarrow> (gdb, bool) state" where
  "tricore_attach D core = do {
     started \<leftarrow> tricore_core_started D core;
     if \<not> started then ret False
     else do {
       tricore_disarm_reset_trigger D;
       tricore_freeze_timer D core True;
       modify (\<lambda>s. s\<lparr>g_error := False\<rparr>);
       modify (\<lambda>s. s\<lparr>g_resumed := (g_resumed s)(core := False)\<rparr>);
       tricore_halt_request_cb D core;
       reason \<leftarrow> attach_polls D core 200;
       if reason = TARGET_HALT_ERROR \<or> reason = TARGET_HALT_RUNNING then do {
         tricore_halt_diag D core;
         tricore_halt_release D core;
         ret False }
       else ret True } }"

definition tricore_detach :: "dev \<Rightarrow> int \<Rightarrow> (gdb, unit) state" where
  "tricore_detach D core = do {
     loading \<leftarrow> gets (\<lambda>s. g_flash_mode s core);
     if_do loading (do {
       load_reset;
       tricore_flash_end D False;
       forget_triggers D;
       modify (\<lambda>s. s\<lparr>g_flash_mode := (g_flash_mode s)(core := False)\<rparr>) });
     clear_core D core;
     tricore_clear_debug_events D core;
     tricore_freeze_timer D core False;
     modify (\<lambda>s. s\<lparr>g_resumed := (g_resumed s)(core := False)\<rparr>);
     err \<leftarrow> tricore_request_resume D core;
     if_do (err = ESP_OK) (do { tricore_is_halted D core; skip }) }"

section \<open>Probe and reset\<close>

definition CONFIG_AEL_DAP_BRINGUP_CLOCK_HZ :: u32 where "CONFIG_AEL_DAP_BRINGUP_CLOCK_HZ = 400000"

definition attach_dap :: "dev \<Rightarrow> (gdb, esp_err) state" where
  "attach_dap D = do {
     err \<leftarrow> dap_probe_init D True CONFIG_AEL_DAP_BRINGUP_CLOCK_HZ;
     if err \<noteq> ESP_OK then ret err
     else do {
       err \<leftarrow> ask EvFpgaAttach (d_err D);
       err \<leftarrow> (if err = ESP_OK then ret ESP_OK
         else do {
           emit (EvFpgaUse False);
           (err, x) \<leftarrow> dap_probe_attach D no_exchange 3;
           if err \<noteq> ESP_OK \<or> reply x \<noteq> 0xAAAAAAAA then ret ESP_ERR_INVALID_STATE
           else do { dap_probe_client_set D 1 x; ret ESP_OK } });
       if err \<noteq> ESP_OK then ret err
       else do {
         dap_probe_clear_error_state D;
         dap_probe_set_rw_mode D True;
         err \<leftarrow> dap_probe_enable_ocds D;
         ret (if err \<noteq> ESP_OK then ESP_ERR_INVALID_STATE else ESP_OK) } } }"

primrec wait_for_target :: "dev \<Rightarrow> nat \<Rightarrow> (gdb, bool) state" where
  "wait_for_target D 0 = ret False"
| "wait_for_target D (Suc k) = do {
     vTaskDelay 20;
     err \<leftarrow> tricore_discover D;
     if err = ESP_OK then ret True
     else do {
       dap_probe_clear_error_state D;
       attach_dap D;
       wait_for_target D k } }"

definition tricore_reset :: "dev \<Rightarrow> (gdb, unit) state" where
  "tricore_reset D = do {
     armed \<leftarrow> tricore_set_halt_after_reset D True;
     tricore_request_application_reset D;
     back \<leftarrow> wait_for_target D 20;
     back \<leftarrow> (if back then ret True
       else do {
         emit (EvPhyTrst True);
         vTaskDelay 20;
         emit (EvPhyTrst False);
         vTaskDelay 50;
         err \<leftarrow> attach_dap D;
         if err \<noteq> ESP_OK then ret False else wait_for_target D 10 });
     if \<not> back then set_error
     else do {
       if_do (armed = ESP_OK) (do { tricore_set_halt_after_reset D False; skip });
       tricore_disarm_reset_trigger D;
       forget_triggers D } }"

text \<open>\<open>listed\<close> tells whether the debugger's list still holds the target of a core; the rest of what it keeps of a
  target is its own.\<close>

definition add_target :: "dev \<Rightarrow> (hist \<Rightarrow> int \<Rightarrow> bool) \<Rightarrow> int \<Rightarrow> (gdb, esp_err) state" where
  "add_target D listed i = do {
     core \<leftarrow> gets (tricore_core_index i);
     started \<leftarrow> tricore_core_started D core;
     modify (\<lambda>s. s\<lparr>g_name := (g_name s)(core := started)\<rparr>);
     have \<leftarrow> gets (\<lambda>s. g_target s core);
     kept \<leftarrow> sense (\<lambda>h. have \<and> listed h core);
     if kept then ret ESP_OK
     else do {
       room \<leftarrow> ask (EvAlloc 1) (d_yes D);
       if \<not> room then ret ESP_ERR_NO_MEM
       else do {
         modify (\<lambda>s. s\<lparr>g_target := (g_target s)(core := True), g_flash_mode := (g_flash_mode s)(core := False),
           g_ram := (g_ram s)(core := []), g_flash := (g_flash s)(core := [])\<rparr>);
         add_memory_map D core;
         ret ESP_OK } } }"

definition probe_locked :: "dev \<Rightarrow> (hist \<Rightarrow> int \<Rightarrow> bool) \<Rightarrow> (gdb, esp_err) state" where
  "probe_locked D listed = do {
     modify (\<lambda>s. s\<lparr>g_resumed := \<lambda>_. False\<rparr>);
     err \<leftarrow> attach_dap D;
     if err \<noteq> ESP_OK then ret err
     else do {
       err \<leftarrow> tricore_discover D;
       if err \<noteq> ESP_OK then ret err
       else do {
         n \<leftarrow> gets core_count;
         for_ok (add_target D listed) [0..n - 1] } } }"

definition tricore_bmp_probe :: "dev \<Rightarrow> (hist \<Rightarrow> int \<Rightarrow> bool) \<Rightarrow> (gdb, esp_err) state" where
  "tricore_bmp_probe D listed = do {
     dap_lock;
     err \<leftarrow> probe_locked D listed;
     dap_unlock;
     ret err }"

end
