(* ===== verification/Gdb_Load.thy ===== *)
theory Gdb_Load
  imports Gdb_Target
begin

unbundle bit_operations_syntax

text \<open>
  The load of GDB: a write is collected sector by sector, and what is programmed is what was written. A detached core is
  left with no trigger armed.
\<close>

section \<open>What a load programs\<close>

definition load_ok :: "load_sector_t list \<Rightarrow> bool" where
  "load_ok load \<longleftrightarrow> distinct (map ls_address load) \<and> length load \<le> LOAD_MAX_SECTORS \<and>
     (\<forall>l \<in> set load. sector_of (ls_address l) = ls_address l \<and> (\<forall>d. ls_data l = Some d \<longrightarrow> length d = 0x4000))"

text \<open>The byte a load holds for an address, and the byte a list of regions has there.\<close>

definition load_byte :: "load_sector_t list \<Rightarrow> u32 \<Rightarrow> u8 option" where
  "load_byte load a = (case find (\<lambda>l. ls_address l = sector_of a) load of None \<Rightarrow> None
     | Some l \<Rightarrow> map_option (\<lambda>d. d ! (unat a mod 0x4000)) (ls_data l))"

definition region_byte :: "tricore_flash_region list \<Rightarrow> u32 \<Rightarrow> u8 option" where
  "region_byte rs a = (case find (\<lambda>r. unat (a - rg_address r) < unat (rg_length r)) rs of None \<Rightarrow> None
     | Some r \<Rightarrow> Some (rg_data r (unat (a - rg_address r))))"

fun stage_regions :: "load_stage list \<Rightarrow> tricore_flash_region list" where
  "stage_regions [] = []"
| "stage_regions (ERASE_ONLY a # later) = stage_regions later"
| "stage_regions (PROGRAM_RUN r # later) = r # stage_regions later"

lemma load_byte_append:
  "load_byte (xs @ ys) a = (if \<exists>l \<in> set xs. ls_address l = sector_of a then load_byte xs a else load_byte ys a)"
  by (induction xs) (auto simp: load_byte_def)

text \<open>Sectors by their number.\<close>

definition sector_no :: "u32 \<Rightarrow> nat" where
  "sector_no a = unat a div 0x4000"

lemma sector_of_eq: assumes "sector_of x = x" shows "x = sector_of a \<longleftrightarrow> sector_no x = sector_no a"
proof
  assume "x = sector_of a"
  then show "sector_no x = sector_no a" by (simp add: sector_no_def unat_sector_of)
next
  assume "sector_no x = sector_no a"
  then have "unat x = unat (sector_of a)" using unat_sector_of [of x] assms by (simp add: sector_no_def unat_sector_of)
  then show "x = sector_of a" by (rule unsigned_word_eqI)
qed

lemma unat_aligned: "sector_of x = x \<Longrightarrow> unat x = sector_no x * 0x4000"
  by (metis sector_no_def unat_sector_of)

lemma sector_no_bound: "sector_no a < 0x40000"
proof -
  have "unat a < 2 ^ LENGTH(32)" by (rule unsigned_less)
  then show ?thesis by (simp add: sector_no_def div_less_iff_less_mult)
qed

text \<open>A run: sectors with data, each one the next of the one before.\<close>

lemma run_of_run:
  assumes "sector_of place = place" "sorted_wrt (<) (place # map ls_address ls)" "\<forall>l \<in> set ls. sector_of (ls_address l) = ls_address l"
    and "j < run_of place ls"
  shows "ls_data (ls ! j) \<noteq> None \<and> sector_no (ls_address (ls ! j)) = sector_no place + Suc j"
  using assms
proof (induction ls arbitrary: place j)
  case (Cons l ls)
  have step: "ls_data l \<noteq> None" "ls_address l = place + TRICORE_FLASH_SECTOR" and l: "sector_of (ls_address l) = ls_address l"
    using Cons.prems by (auto split: if_splits)
  have "place < ls_address l" using Cons.prems(2) by simp
  moreover have "unat place < 2 ^ LENGTH(32)" by (rule unsigned_less)
  ultimately have "unat (ls_address l) = unat place + 0x4000"
    unfolding step(2) TRICORE_FLASH_SECTOR_def
    by (simp add: unat_plus_if' word_less_nat_alt split: if_splits)
  then have no: "sector_no (ls_address l) = Suc (sector_no place)" by (simp add: sector_no_def)
  show ?case
  proof (cases j)
    case (Suc i)
    have "i < run_of (ls_address l) ls" using Cons.prems(4) Suc step by (simp split: if_splits)
    then show ?thesis using Cons.IH [of "ls_address l" i] Cons.prems l no Suc by simp
  qed (simp add: step(1) no)
qed simp

lemma run_bytes:
  assumes "\<forall>l \<in> set ls. \<exists>d. ls_data l = Some d \<and> length d = 0x4000" "j < length ls" "k < 0x4000"
  shows "concat (map (\<lambda>l. the (ls_data l)) ls) ! (j * 0x4000 + k) = the (ls_data (ls ! j)) ! k"
  using assms
proof (induction ls arbitrary: j)
  case (Cons l ls)
  obtain d where d: "ls_data l = Some d" "length d = 0x4000" using Cons.prems by auto
  show ?case
  proof (cases j)
    case (Suc i)
    then show ?thesis using Cons d by (simp add: nth_append)
  qed (use d Cons.prems in \<open>simp add: nth_append\<close>)
qed simp

text \<open>A region made of a run holds the bytes of its sectors.\<close>

lemma find_at:
  assumes "j < length ls" "P (ls ! j)" "\<forall>i < length ls. P (ls ! i) \<longrightarrow> i = j"
  shows "find P ls = Some (ls ! j)"
proof -
  have "\<not> P (ls ! i)" if "i < j" for i using assms(1,3) that by (metis less_trans nat_neq_iff)
  then show ?thesis unfolding find_Some_iff using assms(1,2) by blast
qed

lemma offset_in_sector:
  assumes "sector_of place = place" "sector_no place \<le> sector_no a"
  shows "unat (a - place) = (sector_no a - sector_no place) * 0x4000 + unat a mod 0x4000"
proof -
  have place: "unat place = sector_no place * 0x4000" by (rule unat_aligned [OF assms(1)])
  have a: "unat a = sector_no a * 0x4000 + unat a mod 0x4000" by (simp add: sector_no_def)
  have "sector_no place * 0x4000 \<le> sector_no a * 0x4000" using assms(2) by simp
  then have "unat place \<le> unat a" using place a by linarith
  then have "unat (a - place) = unat a - unat place" by (simp add: unat_sub_if')
  then show ?thesis using place a assms(2) by (simp add: diff_mult_distrib)
qed

lemma offset_below:
  assumes "sector_of place = place" "sector_no place + n \<le> 0x40000"
  shows "unat (a - place) < n * 0x4000 \<longleftrightarrow> sector_no place \<le> sector_no a \<and> sector_no a < sector_no place + n"
proof (cases "sector_no place \<le> sector_no a")
  case True
  have "unat a mod 0x4000 < 0x4000" by simp
  then have "(sector_no a - sector_no place) * 0x4000 + unat a mod 0x4000 < n * 0x4000 \<longleftrightarrow> sector_no a - sector_no place < n"
    by (simp add: linorder_not_le [symmetric]) linarith
  then show ?thesis using True by (simp add: offset_in_sector [OF assms(1) True] less_diff_conv2 add.commute)
next
  case False
  have place: "unat place = sector_no place * 0x4000" by (rule unat_aligned [OF assms(1)])
  have less: "unat a < unat place"
    using False by (metis div_le_mono linorder_not_le sector_no_def)
  then have "unat (a - place) = unat a + 2 ^ LENGTH(32) - unat place" by (simp add: unat_sub_if')
  moreover have "unat place + n * 0x4000 \<le> 2 ^ LENGTH(32)" using assms(2) place by simp
  ultimately have "\<not> unat (a - place) < n * 0x4000" by linarith
  then show ?thesis using False by simp
qed

lemma run_region:
  assumes first: "sector_of place = place" and len: "length ls \<le> LOAD_MAX_SECTORS" "ls \<noteq> []"
    and seq: "\<forall>j < length ls. \<exists>d. ls_data (ls ! j) = Some d \<and> length d = 0x4000 \<and>
      sector_of (ls_address (ls ! j)) = ls_address (ls ! j) \<and> sector_no (ls_address (ls ! j)) = sector_no place + j"
  shows "region_byte (region_of place ls # rs) a =
    (if \<exists>l \<in> set ls. ls_address l = sector_of a then load_byte ls a else region_byte rs a)"
proof -
  let ?r = "region_of place ls"
  have length: "unat (rg_length ?r) = length ls * 0x4000"
    using len by (simp add: region_of_def TRICORE_FLASH_SECTOR_def LOAD_MAX_SECTORS_def unat_word_ariths unat_of_nat)
  have top: "sector_no place + length ls \<le> 0x40000"
  proof -
    have "length ls - 1 < length ls" using len(2) by (cases ls) auto
    then have "sector_no place + (length ls - 1) < 0x40000" using seq sector_no_bound by metis
    then show ?thesis by simp
  qed
  have off: "sector_no place \<le> sector_no a \<Longrightarrow> unat (a - place) = (sector_no a - sector_no place) * 0x4000 + unat a mod 0x4000"
    by (rule offset_in_sector [OF first])
  have in_run: "unat (a - place) < unat (rg_length ?r) \<longleftrightarrow> sector_no place \<le> sector_no a \<and> sector_no a < sector_no place + length ls"
    unfolding length by (rule offset_below [OF first top])
  have hit: "ls_address (ls ! j) = sector_of a \<longleftrightarrow> sector_no a = sector_no place + j" if "j < length ls" for j
    using sector_of_eq seq that by metis
  show ?thesis
  proof (cases "sector_no place \<le> sector_no a \<and> sector_no a < sector_no place + length ls")
    case True
    define j where "j = sector_no a - sector_no place"
    have j: "j < length ls" "sector_no a = sector_no place + j" using True by (auto simp: j_def)
    obtain d where d: "ls_data (ls ! j) = Some d" using seq j by blast
    have "find (\<lambda>l. ls_address l = sector_of a) ls = Some (ls ! j)"
      using j hit by (intro find_at) auto
    then have "load_byte ls a = Some (d ! (unat a mod 0x4000))" by (simp add: load_byte_def d)
    moreover have "rg_data ?r (unat (a - place)) = d ! (unat a mod 0x4000)"
    proof -
      have "\<forall>l \<in> set ls. \<exists>d. ls_data l = Some d \<and> length d = 0x4000" using seq by (metis in_set_conv_nth)
      then have "concat (map (\<lambda>l. the (ls_data l)) ls) ! (j * 0x4000 + unat a mod 0x4000) = d ! (unat a mod 0x4000)"
        using run_bytes [of ls j "unat a mod 0x4000"] j(1) d by simp
      then show ?thesis using off True by (simp add: region_of_def j_def)
    qed
    moreover have "\<exists>l \<in> set ls. ls_address l = sector_of a" using j hit nth_mem by blast
    ultimately show ?thesis using in_run True by (simp add: region_byte_def) (simp add: region_of_def)
  next
    case False
    then have "\<not> (\<exists>l \<in> set ls. ls_address l = sector_of a)" using hit by (auto simp: in_set_conv_nth)
    then show ?thesis using in_run False by (auto simp: region_byte_def region_of_def)
  qed
qed

lemma load_byte_none: "load_byte ls a = None" if "\<forall>l \<in> set ls. ls_address l \<noteq> sector_of a"
proof -
  have "find (\<lambda>l. ls_address l = sector_of a) ls = None" using that by (simp add: find_None_iff)
  then show ?thesis by (simp add: load_byte_def)
qed

lemma plan_bytes:
  assumes "sorted_wrt (<) (map ls_address ls)" "length ls \<le> LOAD_MAX_SECTORS"
    and "\<forall>l \<in> set ls. sector_of (ls_address l) = ls_address l \<and> (\<forall>d. ls_data l = Some d \<longrightarrow> length d = 0x4000)"
  shows "region_byte (stage_regions (load_plan ls)) a = load_byte ls a"
  using assms
proof (induction ls rule: load_plan.induct)
  case (2 l ls)
  show ?case
  proof (cases "ls_data l")
    case None
    have "region_byte (stage_regions (load_plan ls)) a = load_byte ls a"
      using 2 None by simp
    moreover have "load_byte ls a = None" if "ls_address l = sector_of a"
      using that 2(3) by (intro load_byte_none) auto
    ultimately show ?thesis using None by (auto simp: load_byte_def)
  next
    case (Some d)
    define n where "n = run_of (ls_address l) ls"
    define r where "r = l # take n ls"
    have n: "n \<le> length ls" unfolding n_def by (rule run_of_le)
    have split: "l # ls = r @ drop n ls" by (simp add: r_def)
    have parts: "sorted_wrt (<) (map ls_address (drop n ls))" "length (drop n ls) \<le> LOAD_MAX_SECTORS"
      "\<forall>l \<in> set (drop n ls). sector_of (ls_address l) = ls_address l \<and> (\<forall>d. ls_data l = Some d \<longrightarrow> length d = 0x4000)"
      using 2(3,4,5) by (auto simp: drop_map [symmetric] sorted_wrt_drop dest: in_set_dropD)
    have later: "region_byte (stage_regions (load_plan (drop n ls))) a = load_byte (drop n ls) a"
      using 2(2) [OF _ n_def parts] Some by simp
    have "\<exists>e. ls_data (r ! j) = Some e \<and> length e = 0x4000 \<and> sector_of (ls_address (r ! j)) = ls_address (r ! j) \<and>
        sector_no (ls_address (r ! j)) = sector_no (ls_address l) + j" if "j < length r" for j
    proof (cases j)
      case 0
      then show ?thesis using Some 2(5) by (simp add: r_def)
    next
      case (Suc i)
      then have i: "i < n" using that n by (simp add: r_def)
      then have "ls ! i \<in> set ls" using n by simp
      then show ?thesis
        using run_of_run [of "ls_address l" ls i] i 2(3,5) Suc by (auto simp: r_def n_def)
    qed
    then have "region_byte (region_of (ls_address l) r # stage_regions (load_plan (drop n ls))) a =
        (if \<exists>k \<in> set r. ls_address k = sector_of a then load_byte r a else load_byte (drop n ls) a)"
      unfolding later [symmetric] using 2(4,5) n by (intro run_region) (auto simp: r_def)
    also have "\<dots> = load_byte (l # ls) a" unfolding split load_byte_append ..
    finally show ?thesis using Some by (simp add: Let_def n_def [symmetric] r_def)
  qed
qed (simp add: region_byte_def load_byte_def)

lemma find_member: "find P xs = Some x \<Longrightarrow> x \<in> set xs \<and> P x"
  by (induction xs) (auto split: if_splits)

lemma load_byte_sorted:
  assumes "distinct (map ls_address ls)"
  shows "load_byte (sort_key ls_address ls) a = load_byte ls a"
proof -
  let ?P = "\<lambda>l. ls_address l = sector_of a"
  have one: "x = y" if "x \<in> set ls" "y \<in> set ls" "?P x" "?P y" for x y
    using assms that by (metis distinct_map inj_onD)
  have "find ?P (sort_key ls_address ls) = find ?P ls"
  proof (cases "find ?P ls")
    case None
    then have "find ?P (sort_key ls_address ls) = None" by (simp add: find_None_iff)
    then show ?thesis using None by simp
  next
    case (Some x)
    have x: "x \<in> set ls" "?P x" using find_member [OF Some] by simp_all
    obtain y where y: "find ?P (sort_key ls_address ls) = Some y"
    proof (cases "find ?P (sort_key ls_address ls)")
      case None
      then have "\<not> ?P x" unfolding find_None_iff using x(1) by simp
      then show ?thesis using x(2) by simp
    qed
    have "y \<in> set ls" "?P y" using find_member [OF y] by simp_all
    then show ?thesis using one [of x y] x y Some by simp
  qed
  then show ?thesis by (simp add: load_byte_def)
qed

lemma load_stages_regions:
  "run (load_stages D st rs) s = ((True, regions), s') \<Longrightarrow> regions = rs @ stage_regions st"
  by (induction D st rs arbitrary: s rule: load_stages.induct) (auto split: prod.splits if_split_asm)

text \<open>C35: a load programs what was written: the regions handed to the flasher hold, at every address, the byte the
  collected sectors hold there, and none where nothing was written.\<close>

theorem load_programs_what_was_written:
  assumes "load_ok load" "run (load_stages D (load_plan (sort_key ls_address load)) []) s = ((True, regions), s')"
  shows "region_byte regions a = load_byte load a"
proof -
  have "sorted_wrt (<) (map ls_address (sort_key ls_address load))"
    using assms by (auto simp: load_ok_def strict_sorted_iff distinct_map)
  moreover have "regions = stage_regions (load_plan (sort_key ls_address load))"
    using load_stages_regions [OF assms(2)] by simp
  ultimately show ?thesis
    using plan_bytes [of "sort_key ls_address load" a] assms(1) load_byte_sorted by (simp add: load_ok_def)
qed

section \<open>Collecting a load\<close>

lemma load_index_cases:
  "load_index address load < length load \<Longrightarrow> ls_address (load ! load_index address load) = address"
  "\<not> load_index address load < length load \<Longrightarrow> address \<notin> ls_address ` set load"
proof -
  show "load_index address load < length load \<Longrightarrow> ls_address (load ! load_index address load) = address"
    unfolding load_index_def using nth_length_takeWhile [of "\<lambda>l. ls_address l \<noteq> address" load] by simp
  show "\<not> load_index address load < length load \<Longrightarrow> address \<notin> ls_address ` set load"
  proof -
    assume "\<not> load_index address load < length load"
    then have "takeWhile (\<lambda>l. ls_address l \<noteq> address) load = load"
      unfolding load_index_def by (subst takeWhile_eq_take) simp
    then show ?thesis unfolding takeWhile_eq_all_conv by auto
  qed
qed

lemma sector_of_twice [simp]: "sector_of (sector_of a) = sector_of a"
  by (simp add: sector_of_def)

text \<open>Entering a sector changes no byte.\<close>

lemma load_sector_run:
  assumes "load_ok (g_load s)" "run (load_sector D a) s = (r, s')"
  shows "load_ok (g_load s') \<and> (\<forall>x. load_byte (g_load s') x = load_byte (g_load s) x) \<and>
    (\<forall>i. r = Some i \<longrightarrow> i < length (g_load s') \<and> ls_address (g_load s' ! i) = sector_of (tricore_flash_to_physical a))"
proof -
  define address where "address = sector_of (tricore_flash_to_physical a)"
  define i where "i = load_index address (g_load s)"
  show ?thesis
  proof (cases "i < length (g_load s)")
    case True
    then have "r = Some i" "s' = s"
      using assms(2) by (auto simp: load_sector_def Let_def address_def [symmetric] i_def [symmetric])
    then show ?thesis using assms(1) True load_index_cases(1) [of address "g_load s"] by (simp add: i_def address_def)
  next
    case False
    then have new: "address \<notin> ls_address ` set (g_load s)" using load_index_cases(2) by (auto simp: i_def)
    let ?load = "g_load s @ [\<lparr>ls_address = address, ls_data = None\<rparr>]"
    have "r = None \<and> g_load s' = g_load s \<or>
        length (g_load s) \<noteq> LOAD_MAX_SECTORS \<and> r = Some (length (g_load s)) \<and> g_load s' = ?load"
      using assms(2) False
      by (auto simp: load_sector_def Let_def address_def [symmetric] i_def [symmetric] if_do_def split: if_splits)
    moreover have "load_ok ?load" if "length (g_load s) \<noteq> LOAD_MAX_SECTORS"
      using assms(1) that new by (auto simp: load_ok_def address_def)
    moreover have "load_byte ?load x = load_byte (g_load s) x" for x
    proof (cases "\<exists>l \<in> set (g_load s). ls_address l = sector_of x")
      case False
      then have "load_byte (g_load s) x = None" by (intro load_byte_none) auto
      moreover have "load_byte [\<lparr>ls_address = address, ls_data = None\<rparr>] x = None" by (simp add: load_byte_def)
      ultimately show ?thesis by (simp only: load_byte_append False if_False)
    qed (simp add: load_byte_append)
    ultimately show ?thesis using assms(1) by (auto simp: address_def)
  qed
qed

text \<open>Giving a sector new contents changes the bytes of that sector.\<close>

lemma load_byte_at:
  assumes "distinct (map ls_address load)" "i < length load" "ls_address (load ! i) = sector_of x"
  shows "load_byte load x = map_option (\<lambda>d. d ! (unat x mod 0x4000)) (ls_data (load ! i))"
proof -
  have "find (\<lambda>l. ls_address l = sector_of x) load = Some (load ! i)"
  proof (intro find_at allI impI)
    show "k = i" if "k < length load" "ls_address (load ! k) = sector_of x" for k
      using that assms by (metis length_map nth_eq_iff_index_eq nth_map)
  qed (use assms in simp_all)
  then show ?thesis by (simp add: load_byte_def)
qed

lemma load_byte_update:
  assumes "load_ok load" "i < length load" "length d = 0x4000"
  shows "load_ok (load[i := (load ! i)\<lparr>ls_data := Some d\<rparr>])"
    "load_byte (load[i := (load ! i)\<lparr>ls_data := Some d\<rparr>]) x =
       (if sector_of x = ls_address (load ! i) then Some (d ! (unat x mod 0x4000)) else load_byte load x)"
proof -
  let ?new = "load[i := (load ! i)\<lparr>ls_data := Some d\<rparr>]"
  have addresses: "map ls_address ?new = map ls_address load"
    using assms(2) by (intro nth_equalityI) (auto simp: nth_list_update)
  show ok: "load_ok ?new"
    using assms addresses unfolding load_ok_def by (auto dest!: in_set_conv_nth [THEN iffD1] simp: nth_list_update split: if_splits)
  have dist: "distinct (map ls_address load)" "distinct (map ls_address ?new)"
    using assms(1) addresses by (simp_all add: load_ok_def)
  show "load_byte ?new x = (if sector_of x = ls_address (load ! i) then Some (d ! (unat x mod 0x4000)) else load_byte load x)"
  proof (cases "sector_of x = ls_address (load ! i)")
    case True
    then show ?thesis using load_byte_at [OF dist(2), of i x] assms(2) by simp
  next
    case other: False
    show ?thesis
    proof (cases "\<exists>k < length load. ls_address (load ! k) = sector_of x")
      case True
      then obtain k where k: "k < length load" "ls_address (load ! k) = sector_of x" by blast
      then have "k \<noteq> i" using other by auto
      then show ?thesis
        using load_byte_at [OF dist(1) k] load_byte_at [OF dist(2), of k x] k other by simp
    next
      case False
      then have "load_byte load x = None" by (intro load_byte_none) (auto simp: in_set_conv_nth)
      moreover have "load_byte ?new x = None"
      proof (intro load_byte_none)
        have "ls_address ` set ?new = ls_address ` set load" using arg_cong [OF addresses, of set] by simp
        moreover have "sector_of x \<notin> ls_address ` set load" using False by (auto simp: in_set_conv_nth)
        ultimately show "\<forall>l \<in> set ?new. ls_address l \<noteq> sector_of x" by (metis image_eqI)
      qed
      ultimately show ?thesis using other by simp
    qed
  qed
qed

text \<open>What a load holds after the first \<open>k\<close> sectors of a write.\<close>

definition written :: "load_sector_t list \<Rightarrow> u32 \<Rightarrow> u8 list \<Rightarrow> nat \<Rightarrow> u32 \<Rightarrow> u8 option" where
  "written load p src k x =
     (if unat (x - p) < k * 0x4000
      then Some (if unat (x - p) < length src then src ! unat (x - p) else case load_byte load x of None \<Rightarrow> 0xFF | Some b \<Rightarrow> b)
      else load_byte load x)"

definition holds_written :: "load_sector_t list \<Rightarrow> u32 \<Rightarrow> u8 list \<Rightarrow> nat \<Rightarrow> gdb \<Rightarrow> bool" where
  "holds_written load p src k s \<longleftrightarrow> load_ok (g_load s) \<and> (\<forall>x. load_byte (g_load s) x = written load p src k x)"

lemma unat_SECTOR: "unat TRICORE_FLASH_SECTOR = 0x4000"
  by (simp add: TRICORE_FLASH_SECTOR_def)

lemma sector_after:
  assumes "sector_of p = p" "sector_no p + k < 0x40000"
  shows "sector_of (p + of_nat (k * 0x4000)) = p + of_nat (k * 0x4000) \<and> sector_no (p + of_nat (k * 0x4000)) = sector_no p + k"
proof -
  have "unat p = sector_no p * 0x4000" by (rule unat_aligned [OF assms(1)])
  moreover have "unat (p + of_nat m) = unat p + m" if "unat p + m < 2 ^ 32" for m
    using that by (simp add: unat_plus_if' unat_of_nat)
  ultimately have a: "unat (p + of_nat (k * 0x4000)) = (sector_no p + k) * 0x4000"
  proof -
    assume p: "unat p = sector_no p * 0x4000" and *: "\<And>m. unat p + m < 2 ^ 32 \<Longrightarrow> unat (p + of_nat m) = unat p + m"
    have "unat p + k * 0x4000 < 2 ^ 32" using p assms(2) by simp
    from * [OF this] show ?thesis using p by (simp only: add_mult_distrib)
  qed
  then have "unat (sector_of (p + of_nat (k * 0x4000))) = unat (p + of_nat (k * 0x4000))"
    by (simp only: unat_sector_of) simp
  then have "sector_of (p + of_nat (k * 0x4000)) = p + of_nat (k * 0x4000)" by (rule unsigned_word_eqI)
  then show ?thesis using a by (simp add: sector_no_def)
qed

lemma write_one_sector:
  assumes p: "sector_of p = p" "sector_no p + k < 0x40000"
    and place: "tricore_flash_to_physical (dest + of_nat (k * 0x4000)) = p + of_nat (k * 0x4000)"
    and len: "k * 0x4000 < length src" and s: "holds_written load p src k s"
    and run: "run (write_sector_bytes D dest src (k * 0x4000)) s = (err, s')" and err: "err = ESP_OK"
  shows "holds_written load p src (Suc k) s'"
proof -
  define a where "a = p + of_nat (k * 0x4000)"
  have a: "sector_of a = a" "sector_no a = sector_no p + k" using sector_after [OF p] by (simp_all add: a_def)
  obtain i s1 where i: "run (load_sector D (dest + of_nat (k * 0x4000))) s = (Some i, s1)"
    using run err by (auto simp: write_sector_bytes_def split: prod.splits option.splits)
  have s1: "holds_written load p src k s1" "i < length (g_load s1)" "ls_address (g_load s1 ! i) = a"
    using load_sector_run [OF _ i] s place a by (simp_all add: holds_written_def a_def)
  define l where "l = g_load s1 ! i"
  define old where "old = (case ls_data l of None \<Rightarrow> replicate 0x4000 TRICORE_FLASH_ERASED | Some d \<Rightarrow> d)"
  define new where "new = take 0x4000 (drop (k * 0x4000) src)"
  define d where "d = new @ drop (length new) old"
  have ok: "load_ok (g_load s1)" using s1(1) by (simp add: holds_written_def)
  then have old: "length old = 0x4000"
    using s1(2) by (auto simp: old_def l_def load_ok_def split: option.splits)
  have new: "length new = min 0x4000 (length src - k * 0x4000)" by (simp add: new_def)
  have d: "length d = 0x4000" using old new by (simp add: d_def)
  have s': "g_load s' = (g_load s1)[i := (g_load s1 ! i)\<lparr>ls_data := Some d\<rparr>]"
    using run err i
    by (cases "ls_data l")
      (auto simp: write_sector_bytes_def unat_SECTOR Let_def l_def [symmetric] old_def new_def [symmetric] d_def
        split: if_splits prod.splits option.splits)
  have bytes: "load_byte (g_load s') x = (if sector_of x = a then Some (d ! (unat x mod 0x4000)) else written load p src k x)" for x
    using load_byte_update(2) [OF ok s1(2) d] s1(1,3) by (simp add: s' holds_written_def)
  have "load_byte (g_load s') x = written load p src (Suc k) x" for x
  proof -
    have below: "unat (x - p) < m * 0x4000 \<longleftrightarrow> sector_no p \<le> sector_no x \<and> sector_no x < sector_no p + m" if "m \<le> Suc k" for m
      using p that by (intro offset_below) auto
    have here: "sector_of x = a \<longleftrightarrow> sector_no x = sector_no p + k"
      using sector_of_eq [OF a(1), of x] a(2) by auto
    show ?thesis
    proof (cases "sector_of x = a")
      case True
      let ?r = "unat x mod 0x4000"
      have off: "unat (x - p) = k * 0x4000 + ?r"
        using offset_in_sector [OF p(1), of x] True here by simp
      have "written load p src k x = load_byte load x" by (simp add: written_def off)
      moreover have "written load p src k x = map_option (\<lambda>d. d ! ?r) (ls_data l)"
        using load_byte_at [OF _ s1(2), of x] ok s1(1,3) True by (simp add: load_ok_def holds_written_def l_def)
      ultimately have "old ! ?r = (case load_byte load x of None \<Rightarrow> 0xFF | Some b \<Rightarrow> b)"
        by (auto simp: old_def TRICORE_FLASH_ERASED_def split: option.splits)
      then have "d ! ?r = (if k * 0x4000 + ?r < length src then src ! (k * 0x4000 + ?r) else case load_byte load x of None \<Rightarrow> 0xFF | Some b \<Rightarrow> b)"
        using new old by (auto simp: d_def nth_append new_def)
      then show ?thesis using bytes True off by (simp add: written_def)
    next
      case False
      then show ?thesis using bytes here below [of k] below [of "Suc k"] by (auto simp: written_def)
    qed
  qed
  then show ?thesis using load_byte_update(1) [OF ok s1(2) d] by (simp add: holds_written_def s')
qed

lemma write_all_sectors:
  assumes "sector_of p = p" "sector_no p + n \<le> 0x40000"
    and "\<And>k. k < n \<Longrightarrow> tricore_flash_to_physical (dest + of_nat (k * 0x4000)) = p + of_nat (k * 0x4000) \<and> k * 0x4000 < length src"
    and "holds_written load p src m s" "m \<le> n"
    and "run (for_ok (write_sector_bytes D dest src) (map (\<lambda>k. k * 0x4000) [m..<n])) s = (ESP_OK, s')"
  shows "holds_written load p src n s'"
  using assms(4-)
proof (induction "n - m" arbitrary: m s)
  case (Suc j)
  then have m: "m < n" "[m..<n] = m # [Suc m..<n]" by (simp_all add: upt_rec)
  obtain err s1 where s1: "run (write_sector_bytes D dest src (m * 0x4000)) s = (err, s1)" by fastforce
  have err: "err = ESP_OK" "run (for_ok (write_sector_bytes D dest src) (map (\<lambda>k. k * 0x4000) [Suc m..<n])) s1 = (ESP_OK, s')"
    using Suc.prems(3) s1 by (auto simp: m(2) split: if_splits)
  have "holds_written load p src (Suc m) s1"
    using write_one_sector [OF assms(1) _ _ _ Suc.prems(1) s1 err(1)] assms(2,3) m(1) by auto
  then show ?case using Suc.hyps(1) [OF _ _ _ err(2)] Suc.hyps(2) m(1) by simp
qed simp


section \<open>Detaching\<close>

lemma unchanged_parting [unchanged_frame]:
  "rel unchanged (tricore_clear_debug_events D core :: (gdb, unit) state)"
  "rel unchanged (tricore_freeze_timer D core b :: (gdb, esp_err) state)"
  "rel unchanged (tricore_request_resume D core :: (gdb, esp_err) state)"
  "rel unchanged (tricore_is_halted D core :: (gdb, bool) state)"
  unfolding tricore_clear_debug_events_def tricore_freeze_timer_def tricore_request_resume_def tricore_is_halted_def tricore_wr_def
  by (intro unchanged_frame)+

lemma clear_core_table:
  assumes "run (clear_core D core) s = (r, s')" "tricore_core_ok core s"
  shows "(\<forall>n \<in> set all_slots. bp_kind (slots s' core n) = TRICORE_BP_FREE) \<and>
    (\<forall>c. c \<noteq> core \<longrightarrow> slots s' c = slots s c) \<and> present s' = present s"
proof -
  obtain s1 s2 s3 where
    s1: "run (tricore_bp_clear_kind D core TRICORE_BP_USER) s = ((), s1)" and
    s2: "run (tricore_bp_clear_kind D core TRICORE_BP_STEP) s1 = ((), s2)" and
    s3: "run (tricore_bp_clear_kind D core TRICORE_BP_WATCH) s2 = ((), s3)" and
    s4: "run (tricore_bp_clear_kind D core TRICORE_BP_WATCH_HI) s3 = ((), s')"
    using assms(1) by (auto simp: clear_core_def split: prod.splits)
  have ok: "tricore_core_ok core x \<Longrightarrow> table_step core t x y \<Longrightarrow> tricore_core_ok core y" for t and x y :: gdb
    by (simp add: tricore_core_ok_def table_step_def)
  note t1 = bp_clear_kind_table [OF s1 assms(2)]
  note t2 = bp_clear_kind_table [OF s2 ok [OF assms(2) t1]]
  note t3 = bp_clear_kind_table [OF s3 ok [OF ok [OF assms(2) t1] t2]]
  note t4 = bp_clear_kind_table [OF s4 ok [OF ok [OF ok [OF assms(2) t1] t2] t3]]
  let ?t = "without_kind (without_kind (without_kind (without_kind (slots s core) TRICORE_BP_USER) TRICORE_BP_STEP) TRICORE_BP_WATCH) TRICORE_BP_WATCH_HI"
  have "table_step core ?t s s'"
    using t1 t2 t3 t4 by (simp add: table_step_def)
  moreover have "bp_kind (?t n) = TRICORE_BP_FREE" if "n \<in> set all_slots" for n
    using that by (cases "bp_kind (slots s core n)") (auto simp: without_kind_def all_slots_def free_bp_def)
  ultimately show ?thesis by (simp add: table_step_def)
qed

text \<open>Detaching a core that is not being loaded leaves none of its triggers in use, does not touch those of the
  other cores, and forgets that GDB resumed it.\<close>

theorem detach_leaves_nothing_armed:
  assumes "run (tricore_detach D core) s = (r, s')" "tricore_core_ok core s" "\<not> g_flash_mode s core"
  shows "(\<forall>n \<in> set all_slots. bp_kind (slots s' core n) = TRICORE_BP_FREE) \<and>
    (\<forall>c. c \<noteq> core \<longrightarrow> slots s' c = slots s c) \<and> \<not> g_resumed s' core"
proof -
  obtain s1 a s2 b s3 e s5 where s1: "run (clear_core D core) s = ((), s1)"
    and s2: "run (tricore_clear_debug_events D core) s1 = (a, s2)"
    and s3: "run (tricore_freeze_timer D core False) s2 = (b, s3)"
    and s5: "run (tricore_request_resume D core) (s3\<lparr>g_resumed := (g_resumed s3)(core := False)\<rparr>) = (e, s5)"
    and s6: "run (if_do (e = ESP_OK) (do { tricore_is_halted D core; skip })) s5 = (r, s')"
    using assms(1,3) by (auto simp: tricore_detach_def if_do_def split: prod.splits)
  have "unchanged s1 s3"
    using relD [OF unchanged_parting(1) s2] relD [OF unchanged_parting(2) s3] by (rule unchanged_trans)
  moreover have "unchanged (s3\<lparr>g_resumed := (g_resumed s3)(core := False)\<rparr>) s'"
  proof (rule unchanged_trans)
    show "unchanged (s3\<lparr>g_resumed := (g_resumed s3)(core := False)\<rparr>) s5" by (rule relD [OF unchanged_parting(3) s5])
    have "rel unchanged (if_do (e = ESP_OK) (do { tricore_is_halted D core; skip }) :: (gdb, unit) state)"
      by (intro unchanged_frame)
    then show "unchanged s5 s'" using s6 by (rule relD)
  qed
  ultimately have "slots s' = slots s1" "\<not> g_resumed s' core"
    by (auto dest: unchanged_present elim!: unchangedE)
  then show ?thesis using clear_core_table [OF s1 assms(2)] by simp
qed

section \<open>Every call of the debugger returns\<close>

lemma prompt_set_error [prompt_frame]: "rel prompt set_error" "rel prompt load_reset"
  unfolding set_error_def load_reset_def by (auto intro!: relI simp: prompt_def)

lemma prompt_gdb_modify [prompt_frame]:
  "rel prompt (modify (\<lambda>s. s\<lparr>g_error := f1 s\<rparr>) :: (gdb, unit) state)"
  "rel prompt (modify (\<lambda>s. s\<lparr>g_resumed := f2 s\<rparr>) :: (gdb, unit) state)"
  "rel prompt (modify (\<lambda>s. s\<lparr>g_stepped := f3 s\<rparr>) :: (gdb, unit) state)"
  by (simp_all add: rel_def prompt_def)

lemma prompt_halt_poll [prompt_frame]: "rel prompt (tricore_halt_poll D core)"
  unfolding tricore_halt_poll_def by (intro prompt_frame)

lemma prompt_halts [prompt_frame]:
  "rel prompt (tricore_halt_request_cb D core)"
  "polls_for D 500 \<Longrightarrow> rel prompt (tricore_halt_poll_cb D core)"
  "polls_for D 500 \<Longrightarrow> rel prompt (tricore_halt_resume D core b)"
  subgoal unfolding tricore_halt_request_cb_def by (intro prompt_frame)
  subgoal unfolding tricore_halt_poll_cb_def tricore_trigger_acc_def tricore_rd_def
    by (intro prompt_frame; (erule polls_mono)?; simp)
  subgoal unfolding tricore_halt_resume_def Let_def
    by (intro prompt_frame prompt_step; (erule polls_mono)?; simp)
  done

lemma prompt_polls [prompt_frame]: "polls_for D 500 \<Longrightarrow> rel prompt (attach_polls D core n)"
  by (induction n) (auto intro!: prompt_frame)

lemma attach_returns:
  assumes "polls_for D 500"
  shows "hung (final (tricore_attach D core) s) = hung s"
proof -
  have "rel prompt (tricore_attach D core)"
    unfolding tricore_attach_def tricore_disarm_reset_trigger_def disarm_reset_core_def tricore_freeze_timer_def
      tricore_wr_def tricore_rd_def
    by (intro prompt_frame; (rule assms)?) simp_all
  from rel_final [OF this, of s] show ?thesis by (simp add: prompt_def)
qed

section \<open>At a concrete state\<close>

definition gdb0 :: gdb where
  "gdb0 = ucb.extend flash0 (gdb.fields False (\<lambda>_. False) (\<lambda>_. True) False [] (\<lambda>_. False) (\<lambda>_. True) (\<lambda>_. True) (\<lambda>_. []) (\<lambda>_. []))"

lemma gdb0_simps [simp]: "g_load gdb0 = []" "g_table gdb0 = False" "g_flash_mode gdb0 = (\<lambda>_. False)" "tricore_core_ok 0 gdb0"
  by (simp_all add: gdb0_def ucb.defs gdb.defs tricore_core_ok_def flash0_def mcds0_def trace0_def wide0_def tc0_def
      tricore.defs wide.defs trace.defs mcds.defs flash.defs TRICORE_MAX_CORES_def)

lemma load_programs_what_was_written_witness:
  "region_byte (snd (fst (run (load_stages (good_dev 0) (load_plan (sort_key ls_address
     [\<lparr>ls_address = 0xA0004000, ls_data = Some (replicate 0x4000 7)\<rparr>, \<lparr>ls_address = 0xA0000000, ls_data = Some (replicate 0x4000 5)\<rparr>]))
     []) gdb0))) 0xA0004010 = Some 7"
proof -
  let ?load = "[\<lparr>ls_address = 0xA0004000, ls_data = Some (replicate 0x4000 7)\<rparr>, \<lparr>ls_address = 0xA0000000, ls_data = Some (replicate 0x4000 5)\<rparr>]"
  let ?m = "load_stages (good_dev 0) (load_plan (sort_key ls_address ?load)) []"
  have "fst (fst (run ?m gdb0))"
    by (simp add: TRICORE_FLASH_SECTOR_def Let_def ask_def good_dev_def)
  then have "run ?m gdb0 = ((True, snd (fst (run ?m gdb0))), final ?m gdb0)" by (intro run_fst) (simp add: prod_eq_iff)
  moreover have "load_ok ?load" by (simp add: load_ok_def LOAD_MAX_SECTORS_def sector_of_def TRICORE_FLASH_SECTOR_def)
  moreover have "load_byte ?load 0xA0004010 = Some 7"
    by (simp add: load_byte_def sector_of_def TRICORE_FLASH_SECTOR_def)
  ultimately show ?thesis using load_programs_what_was_written [of ?load "good_dev 0" gdb0 _ _ "0xA0004010"] by metis
qed


lemma detach_leaves_nothing_armed_witness:
  "\<not> g_resumed (final (tricore_detach (good_dev 0) 0) gdb0) 0"
  using detach_leaves_nothing_armed [of "good_dev 0" 0 gdb0 "()" "final (tricore_detach (good_dev 0) 0) gdb0"]
  by (simp add: run_fst)

end
