(* ===== verification/Spec2Isabelle.thy ===== *)
theory Spec2Isabelle
  imports Lz4_Fast Hex_Image Tricore_Bp Mcds_Filter Flash_Session Fpga_Chain Line_Wire Gdb_Load
begin

text \<open>
  The probe side of \<open>esp32tricore-dap\<close>: an ESP32-S3 with an iCE40 FPGA that speaks Infineon's two-wire DAP to an AURIX
  TC3xx, halts and steps its TriCore cores, programs its flash, records its on-chip trace and serves GDB and a web page.
  The development models the C sources under \<open>src/components/dap_probe\<close> and the parts of \<open>src/main/network\<close> with logic of
  their own (the Intel HEX upload and the LZ4 compressor of the trace stream).

  \<^bold>\<open>How the parts interact.\<close> The front ends call the GDB adapter, the flasher (\<open>tricore_flash*.c\<close>, \<open>tricore_ucb.c\<close>) and the
  trace session (\<open>dap_mcds.c\<close>); these call run control (\<open>tricore.c\<close>, \<open>tricore_regs.c\<close>) and the word accesses of
  \<open>dap_probe.c\<close>, which assembles frames (\<open>dap_frame.c\<close>) and exchanges them over one of three physical layers: the FPGA
  master (\<open>dap_phy_fpga.c\<close>), bit-banging (\<open>dap_phy.c\<close>) or GP-SPI (\<open>dap_phy_spi.c\<close>). One recursive lock (\<open>dap_lock.c\<close>)
  serialises them. A drain task (\<open>dap_trace.c\<close>) and a sender share a byte ring.

  \<^bold>\<open>Two boundaries.\<close> The layers above the link are modelled over the calls of \<open>dap_phy.h\<close> and \<open>dap_phy_fpga.h\<close> (theory
  \<open>Dap_Phy\<close>): every call is an event of a history, newest first, and the parameter \<open>dev\<close> answers each as an arbitrary
  function of the history so far, so the wire, the target, the clock and the heap may do anything and differently each
  time. The layers below are modelled a second time from the other side: \<open>Fpga_Link\<close> over the transfers of the SPI port,
  \<open>Dap_Line\<close> over the stores to the pads and the calls of the SPI driver, again with arbitrary answers (\<open>fabric\<close>,
  \<open>line_env\<close>). What a call means to the target is read off a history: \<open>bus_writes\<close> decodes the words commanded onto the
  bus, \<open>wire\<close> the bits latched on the line, \<open>taken\<close> the bytes taken from the fabric's FIFO.

  \<^bold>\<open>State.\<close> Each file's static variables are a record that extends that of the file below: \<open>phy\<close>, \<open>probe\<close>, \<open>tricore\<close>,
  \<open>trace\<close>, \<open>mcds\<close>, \<open>flash\<close>, \<open>ucb\<close>, \<open>gdb\<close>; operations are programs of the library's state monad over them and carry the
  names of the C functions, so a caller's program is the composition of its callees'. Results through pointers are part
  of the returned value, given the value they had before; \<open>esp_err_t\<close> is the datatype \<open>esp_err\<close>; integers have their
  width where it matters (\<open>u8\<close> to \<open>u64\<close>), sizes and indices are \<open>nat\<close>, signed counters \<open>int\<close>.

  \<^bold>\<open>Theories.\<close>
  \<^item> \<open>Prelude\<close>: error codes, the monad and its loops, frames (locale \<open>preorder_frame\<close>); \<open>Triples\<close>: Hoare triples of it.
  \<^item> \<open>Dap_Frame\<close> (\<open>dap_frame.c\<close>): frame assembly and the two CRC6 shift registers. Frames decode to what was built, the
    generator and the checker agree, bursts of up to six bits are detected.
  \<^item> \<open>Dap_Phy\<close>, \<open>Dap_Probe\<close>, \<open>Dap_Bus\<close> (\<open>dap_probe.c\<close>, \<open>dap_lock.c\<close>): exchanges, attach, words, block reads. What each
    commands onto the bus, what it reports on each kind of reply, that reads command nothing, that the lock is given
    back (locale \<open>word_bus\<close>, the contract of word access, interpreted on these operations).
  \<^item> \<open>Fpga_Link\<close>, \<open>Fpga_State\<close>, \<open>Fpga_Chain\<close> (\<open>dap_phy_fpga.c\<close>): the register port, calibration, bring-up, settings,
    exchanges, chained block reads. The shadows agree with the registers, fast frames are the ordinary ones, a chain
    stores what the FIFO delivers and never reads it empty, everything returns.
  \<^item> \<open>Dap_Line\<close>, \<open>Line_Wire\<close> (\<open>dap_phy.c\<close>, \<open>dap_phy_spi.c\<close>): the same bits go out and come in over either back end.
  \<^item> \<open>Tricore\<close>, \<open>Tricore_Regs\<close>, \<open>Tricore_Bp\<close> (\<open>tricore.c\<close>, \<open>tricore_regs.c\<close>): discovery, halting over a trigger line,
    resuming, registers, address triggers, the breakpoint allocator, the branch decoder, the single step, byte-granular
    memory. Edges of the halt request, time-outs, the pair invariant of range watchpoints, give-back after a step, the
    round trip of memory.
  \<^item> \<open>Link_Frame\<close>, \<open>Dap_Wide\<close> (\<open>dap_dapisc.c\<close>, \<open>dap_wide.c\<close>): wide and fast mode as sessions with a definite end state
    (locales \<open>word_frame\<close>, \<open>link_frame\<close>).
  \<^item> \<open>Dap_Trace\<close>, \<open>Trace_Ring\<close>, \<open>Trace_Drain\<close> (\<open>dap_trace.c\<close>): the ring as a step relation of a producer and a consumer
    that move single bytes (\<open>ring_step\<close>), refined by the operations; a drain pass accounts for every paragraph.
  \<^item> \<open>Dap_Mcds\<close>, \<open>Mcds_Session\<close>, \<open>Mcds_Filter\<close> (\<open>dap_mcds.c\<close>): the trace set-up, start and stop in step with the modes of
    the link, the value filter as a predicate on data.
  \<^item> \<open>Flash_Api\<close>, \<open>Flash_Dmu\<close>, \<open>Flash_Loader\<close>, \<open>Flash_Stages\<close>, \<open>Flash_Ucb\<close>, \<open>Flash_Write\<close>: the flasher, from command
    cycles over the loader in the target's RAM to the whole-image write and the boot mode headers; \<open>Flash_Geometry\<close>,
    \<open>Flash_Returns\<close>, \<open>Flash_Frame\<close>, \<open>Flash_Safety\<close>, \<open>Ucb_Safety\<close>, \<open>Flash_Session\<close>: what it may command (erases and programs of
    touched sectors, headers of its own kind), that it returns, and that a session ends with lock, trace and flags as
    they should be.
  \<^item> \<open>Gdb_Target\<close>, \<open>Gdb_Load\<close> (\<open>tricore_bmp.c\<close>): the adapter to the debugger core, whose own types and calls are outside
    this repository: halt causes, breakpoints, attach and detach, reset, and a load collected sector by sector. What is
    programmed is what GDB wrote; a detached core has no trigger left.
  \<^item> \<open>Hex_Image\<close> (\<open>flash_web.c\<close>): the upload parser and the flash task; \<open>Lz4_Fast\<close> (\<open>lz4_fast.c\<close>): round trip through a
    reference decoder, and bounds.

  \<^bold>\<open>Loops.\<close> Loops over data are structural or have a measure. A polling loop has as many rounds as \<open>d_polls\<close> (\<open>x_rounds\<close>
  for the fabric) allows and raises \<open>hung\<close> when it uses them up; it is proved that it never does when the clock runs
  (\<open>clock_ok\<close>: time never goes back, a delay advances it by a microsecond at least) and the bound exceeds the longest
  time-out in microseconds, \<open>2 ^ 42\<close> for those computed from 32-bit milliseconds. The sector loops in 32-bit arithmetic
  have \<open>2 ^ 18\<close> rounds, the number of sectors of the address space.

  \<^bold>\<open>Hypotheses.\<close> Beside the clock they are: the target's memory answers reads with what was written (\<open>answers\<close>); a core's
  registers and flash status are arbitrary; the SPI driver transmits (\<open>l_err\<close> is \<open>ESP_OK\<close>) where bits on the wire are
  counted; the fabric's FIFO loses bytes only to reads and clears (\<open>fifo_levels\<close>).

  \<^bold>\<open>Not modelled.\<close> Register pokes of the SPI and DMA peripherals and the pin matrix (\<open>dap_fpga_route.c\<close>, parts of
  \<open>dap_phy_fpga.c\<close>): hardware set-up without decisions. \<open>dap_probe_bringup.c\<close>, \<open>dap_probe_diag.c\<close>, \<open>dap_wide_check\<close>: bench
  measurements whose result is log text. The HTTP, WebSocket, network, storage, OTA and start-up code of \<open>src/main\<close>:
  sequences of vendor calls and text formatting. \<open>CherryDAP\<close>, \<open>CherryUSB\<close>, \<open>CherryRB\<close> and \<open>components/lcd\<close>: vendored. The
  FPGA's Verilog and the Python tools: other languages. The stub the flasher runs on the target is machine code; only
  its bytes and the protocol of its mailbox are modelled.
\<close>

end
